(* ===== verification/Prelude.thy ===== *)
theory Prelude
  imports Complex_Main
begin

text \<open>
  Shared vocabulary of the development: the SQL statements on a table seen as a list of rows,
  Go's int64 arithmetic and durations, and the generic lemmas on keyed tables.  A table of the
  SQLite schema is a list of rows whose keys are distinct; SQL fixes no order on rows, so every
  lemma holds for any order of the list.
\<close>

named_theorems table_simps \<open>lookup after insert, update and delete on keyed tables\<close>
named_theorems inv_intros \<open>preservation of the database invariant, one rule per statement\<close>

section \<open>Machine integers and durations\<close>

text \<open>Go's int64: two's complement wrap-around written out on \<^typ>\<open>int\<close>.\<close>

definition maxInt64 :: int where
  "maxInt64 = 2 ^ 63 - 1"

definition wrap64 :: "int \<Rightarrow> int" where
  "wrap64 x = (x + 2 ^ 63) mod 2 ^ 64 - 2 ^ 63"

definition in_i64 :: "int \<Rightarrow> bool" where
  "in_i64 x \<longleftrightarrow> - (2 ^ 63) \<le> x \<and> x \<le> maxInt64"

lemma wrap64_id [simp]: "in_i64 x \<Longrightarrow> wrap64 x = x"
  by (simp add: wrap64_def in_i64_def maxInt64_def)

lemma in_i64_wrap64 [simp]: "in_i64 (wrap64 x)"
proof -
  have "0 \<le> (x + 2 ^ 63) mod 2 ^ 64" and "(x + 2 ^ 63) mod 2 ^ 64 < (2::int) ^ 64"
    by simp_all
  then show ?thesis by (simp add: wrap64_def in_i64_def maxInt64_def)
qed

text \<open>A \<^verbatim>\<open>time.Duration\<close> counts nanoseconds; its \<^verbatim>\<open>Milliseconds\<close> method truncates towards zero.\<close>

definition milliseconds :: "int \<Rightarrow> int" where
  "milliseconds d = (if d < 0 then - ((- d) div 1000000) else d div 1000000)"

lemma milliseconds_nonneg: "0 \<le> d \<Longrightarrow> 0 \<le> milliseconds d"
  by (simp add: milliseconds_def)

section \<open>SQL statements on keyed tables\<close>

text \<open>
  \<open>sql_find\<close> is a SELECT by primary key, \<open>sql_update\<close> an UPDATE with its RowsAffected count,
  \<open>sql_delete\<close> a DELETE, \<open>sql_insert\<close> an INSERT that fails (\<open>None\<close>) on a duplicate key.
\<close>

definition sql_find :: "('r \<Rightarrow> 'k) \<Rightarrow> 'k \<Rightarrow> 'r list \<Rightarrow> 'r option" where
  "sql_find key k t = List.find (\<lambda>r. key r = k) t"

definition sql_update :: "('r \<Rightarrow> bool) \<Rightarrow> ('r \<Rightarrow> 'r) \<Rightarrow> 'r list \<Rightarrow> 'r list" where
  "sql_update P f t = map (\<lambda>r. if P r then f r else r) t"

definition sql_affected :: "('r \<Rightarrow> bool) \<Rightarrow> 'r list \<Rightarrow> nat" where
  "sql_affected P t = length (filter P t)"

definition sql_delete :: "('r \<Rightarrow> bool) \<Rightarrow> 'r list \<Rightarrow> 'r list" where
  "sql_delete P t = filter (\<lambda>r. \<not> P r) t"

definition sql_insert :: "('r \<Rightarrow> 'k) \<Rightarrow> 'r \<Rightarrow> 'r list \<Rightarrow> 'r list option" where
  "sql_insert key r t = (if sql_find key (key r) t = None then Some (t @ [r]) else None)"

abbreviation keyed :: "('r \<Rightarrow> 'k) \<Rightarrow> 'r list \<Rightarrow> bool" where
  "keyed key t \<equiv> distinct (map key t)"

subsection \<open>Lookup\<close>

lemma sql_find_Nil [simp]: "sql_find key k [] = None"
  by (simp add: sql_find_def)

lemma sql_find_Cons [simp]:
  "sql_find key k (r # t) = (if key r = k then Some r else sql_find key k t)"
  by (simp add: sql_find_def)

lemma sql_find_Some_in: "sql_find key k t = Some r \<Longrightarrow> r \<in> set t \<and> key r = k"
  by (induction t) (auto split: if_splits)

lemma sql_find_None_iff: "sql_find key k t = None \<longleftrightarrow> k \<notin> key ` set t"
  by (induction t) auto

lemma sql_find_in: "keyed key t \<Longrightarrow> r \<in> set t \<Longrightarrow> sql_find key (key r) t = Some r"
  by (induction t) (auto simp: image_iff)

lemma sql_find_Some_iff:
  "keyed key t \<Longrightarrow> sql_find key k t = Some r \<longleftrightarrow> r \<in> set t \<and> key r = k"
  using sql_find_in sql_find_Some_in by metis

lemma sql_find_append [simp]:
  "sql_find key k (t @ u) = (case sql_find key k t of None \<Rightarrow> sql_find key k u | Some r \<Rightarrow> Some r)"
  by (induction t) auto

lemma sql_find_filter_keyed:
  "keyed key t \<Longrightarrow> sql_find key k (filter P t) =
     (case sql_find key k t of None \<Rightarrow> None | Some r \<Rightarrow> if P r then Some r else None)"
proof (induction t)
  case (Cons r t)
  show ?case
  proof (cases "key r = k")
    case True
    with Cons.prems have "sql_find key k t = None" by (auto simp: sql_find_None_iff)
    then have "sql_find key k (filter P t) = None" by (auto simp: sql_find_None_iff)
    with True show ?thesis by simp
  next
    case False
    with Cons show ?thesis by simp
  qed
qed simp

subsection \<open>Statements\<close>

text \<open>
  An UPDATE statement that never writes the key column.  The laws of the table after such a
  statement are proved once here; each component interprets the locale on its own statements.
\<close>

locale key_preserving =
  fixes key :: "'r \<Rightarrow> 'k"
    and f :: "'r \<Rightarrow> 'r"
  assumes key_f: "key (f r) = key r"
begin

lemma keys_update: "map key (sql_update P f t) = map key t"
  by (simp add: sql_update_def key_f)

lemma keyed_update: "keyed key (sql_update P f t) \<longleftrightarrow> keyed key t"
  by (simp only: keys_update)

lemma find_update:
  "sql_find key k (sql_update P f t) =
     map_option (\<lambda>r. if P r then f r else r) (sql_find key k t)"
  by (induction t) (auto simp: sql_update_def key_f)

lemma find_update_other:
  "(\<And>r. P r \<Longrightarrow> key r \<noteq> k) \<Longrightarrow> sql_find key k (sql_update P f t) = sql_find key k t"
  by (induction t) (auto simp: sql_update_def key_f)

end

lemma sql_find_insert:
  "sql_insert key r t = Some t' \<Longrightarrow>
     sql_find key k t' = (if k = key r then Some r else sql_find key k t)"
  by (auto simp: sql_insert_def split: if_splits option.splits)

lemma sql_insert_keyed: "keyed key t \<Longrightarrow> sql_insert key r t = Some t' \<Longrightarrow> keyed key t'"
  by (auto simp: sql_insert_def sql_find_None_iff split: if_splits)

lemma sql_insert_None_iff: "sql_insert key r t = None \<longleftrightarrow> key r \<in> key ` set t"
  by (simp add: sql_insert_def sql_find_None_iff)

lemma sql_delete_keyed: "keyed key t \<Longrightarrow> keyed key (sql_delete P t)"
  by (simp add: sql_delete_def distinct_map_filter)

lemma sql_find_delete [table_simps]:
  "keyed key t \<Longrightarrow> sql_find key k (sql_delete P t) =
     (case sql_find key k t of None \<Rightarrow> None | Some r \<Rightarrow> if P r then None else Some r)"
  by (simp add: sql_delete_def sql_find_filter_keyed split: option.split)

lemma sql_affected_key:
  "keyed key t \<Longrightarrow> sql_affected (\<lambda>r. key r = k \<and> P r) t =
     (case sql_find key k t of None \<Rightarrow> 0 | Some r \<Rightarrow> if P r then 1 else 0)"
proof (induction t)
  case (Cons r t)
  show ?case
  proof (cases "key r = k")
    case True
    with Cons.prems have none: "sql_find key k t = None" by (auto simp: sql_find_None_iff)
    with Cons True show ?thesis by (simp add: sql_affected_def)
  next
    case False
    with Cons show ?thesis by (simp add: sql_affected_def)
  qed
qed (simp add: sql_affected_def)

lemma sql_affected_eq_0: "sql_affected P t = 0 \<longleftrightarrow> (\<forall>r \<in> set t. \<not> P r)"
  by (auto simp: sql_affected_def filter_empty_conv)

section \<open>ORDER BY \<dots> LIMIT 1\<close>

text \<open>\<open>sql_min\<close> is the first row of the rows ordered by \<open>le\<close>; ties go to the earlier row.\<close>

fun sql_min :: "('r \<Rightarrow> 'r \<Rightarrow> bool) \<Rightarrow> 'r list \<Rightarrow> 'r option" where
  "sql_min le [] = None"
| "sql_min le (r # t) =
     (case sql_min le t of None \<Rightarrow> Some r | Some s \<Rightarrow> Some (if le r s then r else s))"

lemma sql_min_None [simp]: "sql_min le t = None \<longleftrightarrow> t = []"
  by (cases t) (auto split: option.splits)

lemma sql_min_in: "sql_min le t = Some r \<Longrightarrow> r \<in> set t"
  by (induction t arbitrary: r) (auto split: option.splits if_splits)

lemma sql_min_least:
  assumes total: "\<And>a b. le a b \<or> le b a" and trans: "\<And>a b c. le a b \<Longrightarrow> le b c \<Longrightarrow> le a c"
  shows "sql_min le t = Some r \<Longrightarrow> s \<in> set t \<Longrightarrow> le r s"
proof (induction t arbitrary: r s)
  case (Cons a t)
  show ?case
  proof (cases "sql_min le t")
    case None
    with Cons.prems total show ?thesis by auto
  next
    case (Some m)
    with Cons have m: "\<And>s. s \<in> set t \<Longrightarrow> le m s" by blast
    from Some Cons.prems have r: "r = (if le a m then a else m)" by simp
    show ?thesis
      using Cons.prems(2) m r total trans by (metis set_ConsD)
  qed
qed simp

end
