(* ===== verification/Json.thy ===== *)
theory Json
  imports Prelude
begin

text \<open>
  JSON values as Go's \<^verbatim>\<open>encoding/json\<close> hands them to the daemon.  A number written as an integer
  literal is \<open>JInt\<close>, any other number literal is \<open>JFlt\<close> with the value it denotes; decoding into
  \<^verbatim>\<open>any\<close> turns both into a number, decoding into an int64 field accepts only the first.  Values
  are exact: the float64 rounding of integers beyond 2^53 is not modelled.  An object is its
  list of members in source order; a Go map has each key once.
\<close>

datatype json =
    JNull
  | JBool bool
  | JInt int
  | JFlt rat
  | JStr string
  | JArr "json list"
  | JObj "(string \<times> json) list"

type_synonym fields = "(string \<times> json) list"

text \<open>
  A \<^verbatim>\<open>json.RawMessage\<close> is the value it encodes and its length in bytes; the empty message is
  \<open>None\<close> in the options that hold one.
\<close>

record raw_message =
  raw_value :: json
  raw_len :: nat

section \<open>Go maps with string keys\<close>

text \<open>
  \<open>mget\<close> is \<^verbatim>\<open>m[k]\<close> with its presence flag, \<open>mput\<close> is \<^verbatim>\<open>m[k] = v\<close>, \<open>mdel\<close> is
  \<^verbatim>\<open>delete(m, k)\<close>.
\<close>

definition mget :: "fields \<Rightarrow> string \<Rightarrow> json option" where
  "mget m k = map_of m k"

fun mput :: "string \<Rightarrow> 'v \<Rightarrow> (string \<times> 'v) list \<Rightarrow> (string \<times> 'v) list" where
  "mput k v [] = [(k, v)]"
| "mput k v ((k', w) # m) = (if k' = k then (k, v) # m else (k', w) # mput k v m)"

definition mdel :: "string \<Rightarrow> (string \<times> 'v) list \<Rightarrow> (string \<times> 'v) list" where
  "mdel k m = filter (\<lambda>(k', _). k' \<noteq> k) m"

lemma map_of_mput [simp]: "map_of (mput k v m) = (map_of m)(k \<mapsto> v)"
  by (induction m) auto

lemma map_of_mdel [simp]: "map_of (mdel k m) = (map_of m)(k := None)"
  by (induction m) (auto simp: mdel_def)

lemma keys_mput: "set (map fst (mput k v m)) = insert k (set (map fst m))"
  by (induction k v m rule: mput.induct) auto

lemma distinct_mput [simp]: "distinct (map fst (mput k v m)) = distinct (map fst m)"
proof (induction m)
  case (Cons p m)
  obtain k' w where p: "p = (k', w)" by (cases p)
  show ?case
    using Cons keys_mput [of k v m] unfolding p by auto
qed simp

lemma distinct_mdel: "distinct (map fst m) \<Longrightarrow> distinct (map fst (mdel k m))"
  by (induction m) (auto simp: mdel_def)

lemma mput_fresh: "k \<notin> set (map fst m) \<Longrightarrow> mput k v m = m @ [(k, v)]"
  by (induction m) auto

lemma mdel_fresh: "k \<notin> set (map fst m) \<Longrightarrow> mdel k m = m"
  by (induction m) (auto simp: mdel_def)

lemma mdel_append [simp]: "mdel k (m @ n) = mdel k m @ mdel k n"
  by (simp add: mdel_def)

lemma mdel_single [simp]: "mdel k [(k', v)] = (if k' = k then [] else [(k', v)])"
  by (simp add: mdel_def)

section \<open>Lists converted element by element\<close>

fun all_some :: "('a \<Rightarrow> 'b option) \<Rightarrow> 'a list \<Rightarrow> 'b list option" where
  "all_some f [] = Some []"
| "all_some f (x # xs) =
     (case f x of None \<Rightarrow> None | Some y \<Rightarrow> map_option (\<lambda>ys. y # ys) (all_some f xs))"

lemma all_some_map: "(\<And>x. x \<in> set xs \<Longrightarrow> f (g x) = Some (h x)) \<Longrightarrow> all_some f (map g xs) = Some (map h xs)"
  by (induction xs) simp_all

lemma all_some_in: "all_some f xs = Some ys \<Longrightarrow> y \<in> set ys \<Longrightarrow> \<exists>x \<in> set xs. f x = Some y"
  by (induction xs arbitrary: ys) (auto split: option.splits)

lemma all_some_cong [fundef_cong]:
  "xs = ys \<Longrightarrow> (\<And>x. x \<in> set ys \<Longrightarrow> f x = g x) \<Longrightarrow> all_some f xs = all_some g ys"
  by (hypsubst_thin, induction ys) (auto split: option.split)

section \<open>Decoding typed struct fields\<close>

text \<open>
  \<^verbatim>\<open>json.Unmarshal\<close> into a struct matches a member to a field by name ignoring ASCII case, in
  source order, so the last matching member wins; null leaves the field unset; a value of
  the wrong type makes the whole call fail (\<open>None\<close>).  \<open>dec_*\<close> give the field's value, with
  the zero value of the type when it is absent.
\<close>

definition lower_char :: "char \<Rightarrow> char" where
  "lower_char c = (let n = (of_char c :: nat) in if 65 \<le> n \<and> n \<le> 90 then char_of (n + 32) else c)"

definition key_matches :: "string \<Rightarrow> string \<Rightarrow> bool" where
  "key_matches field k \<longleftrightarrow> map lower_char k = map lower_char field"

definition members_of :: "string \<Rightarrow> fields \<Rightarrow> json list" where
  "members_of field m = map snd (filter (\<lambda>(k, _). key_matches field k) m)"

definition is_number :: "json \<Rightarrow> bool" where
  "is_number v = (case v of JInt _ \<Rightarrow> True | JFlt _ \<Rightarrow> True | _ \<Rightarrow> False)"

definition dec_with :: "(json \<Rightarrow> 'a option) \<Rightarrow> 'a \<Rightarrow> string \<Rightarrow> fields \<Rightarrow> 'a option" where
  "dec_with conv zero field m =
     foldl (\<lambda>acc v. case acc of None \<Rightarrow> None
              | Some a \<Rightarrow> (if v = JNull then Some a else conv v)) (Some zero) (members_of field m)"

definition conv_str :: "json \<Rightarrow> string option" where
  "conv_str v = (case v of JStr s \<Rightarrow> Some s | _ \<Rightarrow> None)"

definition conv_i64 :: "json \<Rightarrow> int option" where
  "conv_i64 v = (case v of JInt i \<Rightarrow> (if in_i64 i then Some i else None) | _ \<Rightarrow> None)"

definition dec_str :: "string \<Rightarrow> fields \<Rightarrow> string option" where
  "dec_str = dec_with conv_str []"

definition dec_i64 :: "string \<Rightarrow> fields \<Rightarrow> int option" where
  "dec_i64 = dec_with conv_i64 0"

text \<open>
  For a map decoded from a line the daemon wrote (each key once, all lower case), the struct
  decoder reads the member itself.
\<close>

definition plain_keys :: "fields \<Rightarrow> bool" where
  "plain_keys m \<longleftrightarrow> distinct (map fst m) \<and> (\<forall>k \<in> set (map fst m). map lower_char k = k)"

lemma members_of_plain:
  assumes "plain_keys m" and "map lower_char field = field"
  shows "members_of field m = (case mget m field of None \<Rightarrow> [] | Some v \<Rightarrow> [v])"
  using assms(1)
proof (induction m)
  case Nil
  then show ?case by (simp add: members_of_def mget_def)
next
  case (Cons p m)
  obtain k v where p: "p = (k, v)" by (cases p)
  from Cons.prems p have k: "map lower_char k = k" and m: "plain_keys m" and new: "k \<notin> fst ` set m"
    by (auto simp: plain_keys_def)
  show ?case
  proof (cases "k = field")
    case True
    with new have "map_of m field = None" by (simp add: map_of_eq_None_iff)
    with Cons.IH [OF m] have "members_of field m = []" by (simp add: mget_def)
    with True p show ?thesis by (simp add: members_of_def mget_def key_matches_def)
  next
    case False
    with k assms(2) have "\<not> key_matches field k" by (simp add: key_matches_def)
    with False p Cons.IH [OF m] show ?thesis by (simp add: members_of_def mget_def)
  qed
qed

lemma dec_i64_plain:
  assumes "plain_keys m" and "mget m ''seq'' = Some (JInt s)" and "in_i64 s"
  shows "dec_i64 ''seq'' m = Some s"
proof -
  have "members_of ''seq'' m = [JInt s]"
    using members_of_plain [OF assms(1), of "''seq''"] assms(2)
    by (simp add: lower_char_def Let_def)
  with assms(3) show ?thesis by (simp add: dec_i64_def dec_with_def conv_i64_def)
qed

lemma dec_str_plain:
  assumes "plain_keys m" and "mget m ''event'' = Some (JStr s)"
  shows "dec_str ''event'' m = Some s"
proof -
  have "members_of ''event'' m = [JStr s]"
    using members_of_plain [OF assms(1), of "''event''"] assms(2)
    by (simp add: lower_char_def Let_def)
  then show ?thesis by (simp add: dec_str_def dec_with_def conv_str_def)
qed

lemma plain_keys_mput:
  "plain_keys m \<Longrightarrow> map lower_char k = k \<Longrightarrow> plain_keys (mput k v m)"
  unfolding plain_keys_def keys_mput by simp

lemma mdel_mput_same [simp]: "mdel k (mput k v m) = mdel k m"
  by (induction m) (auto simp: mdel_def)

lemma mdel_mput_other: "k \<noteq> k' \<Longrightarrow> mdel k (mput k' v m) = mput k' v (mdel k m)"
  by (induction m) (auto simp: mdel_def)

text \<open>Values in which every object has each key once, at every depth.\<close>

function json_wf :: "json \<Rightarrow> bool" where
  "json_wf v = (case v of
       JArr xs \<Rightarrow> list_all json_wf xs
     | JObj m \<Rightarrow> distinct (map fst m) \<and> list_all (\<lambda>(_, w). json_wf w) m
     | _ \<Rightarrow> True)"
  by pat_completeness auto

lemma size_json_member: "(k, v) \<in> set m \<Longrightarrow> size v < Suc (size_list (size_prod (\<lambda>_. 0) size) m)"
  by (induction m) auto

lemma size_json_elem: "x \<in> set xs \<Longrightarrow> size x < Suc (size_list size xs)"
  by (induction xs) auto

termination json_wf
  by (relation "measure size") (auto intro: size_json_elem size_json_member)

declare json_wf.simps [simp del]

lemma json_wf_simps [simp]:
  "json_wf JNull" "json_wf (JBool x)" "json_wf (JInt i)" "json_wf (JFlt r)" "json_wf (JStr s)"
  "json_wf (JArr xs) = list_all json_wf xs"
  "json_wf (JObj m) = (distinct (map fst m) \<and> list_all (\<lambda>(_, w). json_wf w) m)"
  by (subst json_wf.simps; simp)+

end
