(* ===== verification/Schema.thy ===== *)
theory Schema
  imports Json "HOL-Library.Char_ord" "HOL-Library.List_Lexorder" "HOL-Library.Product_Lexorder"
begin

text \<open>
  The data model of the daemon: the rows of the SQLite schema
  (\<^verbatim>\<open>internal/storage/migrations\<close>) as records named after the Go structs of
  \<^verbatim>\<open>internal/storage\<close>, the database as a record of tables, and the integrity invariant the
  schema's keys, foreign keys and unique index impose.  Nullable columns
  (\<^verbatim>\<open>sql.NullString\<close>, \<^verbatim>\<open>sql.NullInt64\<close>) are options, times are milliseconds, strings are
  lists of bytes ordered as SQLite's BINARY collation orders them.
\<close>

section \<open>Errors\<close>

text \<open>The sentinel errors of the storage, mission, eventfile, ids, apply and handlers packages.\<close>

datatype error =
    ErrNotFound
  | ErrStagingFinalizing
  | ErrConstraint
  | ErrSqlite int
  | ErrCtx
  | ErrIO
  | ErrMissionNotQueued
  | ErrTerminalEventConflict
  | ErrEventLineTooLarge
  | ErrInvalidUUIDv7
  | ErrFailReasonRequired
  | ErrUnknownPhase
  | ErrLaneNotFound
  | ErrJSON
  | ErrDataDirRequired
  | ErrMissionCollision
  | ErrLaneRemovingInTx
  | ErrStagingRefMissedInTx
  | ErrStagingDeleteConflict

section \<open>Rows\<close>

datatype status = StatusQueued | StatusRunning | StatusDone | StatusDeleting

datatype kind = KindMission | KindExec

record mission =
  msn_ID :: string
  msn_Kind :: kind
  msn_Lane :: string
  msn_MissionName :: string
  msn_DisplayName :: "string option"
  msn_GroupID :: "string option"
  msn_Status :: status
  msn_Outcome :: "string option"
  msn_FailReason :: "string option"
  msn_FailMessage :: "string option"
  msn_FailDetails :: "raw_message option"
  msn_ExitCode :: "int option"
  msn_Signal :: "string option"
  msn_PID :: "int option"
  msn_PGID :: "int option"
  msn_ProcStarttime :: "int option"
  msn_Input :: string
  msn_InputFingerprint :: string
  msn_ReturnValue :: "raw_message option"
  msn_TruncatedStdout :: bool
  msn_TruncatedStderr :: bool
  msn_TimeCreatedMs :: int
  msn_TimeStartedMs :: "int option"
  msn_TimeFinishedMs :: "int option"
  msn_TimeoutMs :: "int option"
  msn_RestartedFrom :: "string option"

datatype staging_state =
    StagingUploading | StagingPendingOutput | StagingCommitting | StagingComplete | StagingDeleting

record staging_file =
  stg_StagingID :: string
  stg_State :: staging_state
  stg_Sha256 :: string
  stg_Size :: int
  stg_BytesReceived :: int
  stg_Path :: string
  stg_TimeCreatedMs :: int
  stg_TimeUpdatedMs :: int
  stg_TimeExpiresMs :: int
  stg_DownloadedAt :: "int option"

datatype ref_kind = RefInput | RefOutput | RefScript

record staging_ref =
  ref_MissionID :: string
  ref_StagingID :: string
  ref_RefKind :: ref_kind
  ref_Role :: string

datatype finalize_phase = PhasePrepared | PhaseCommitting

text \<open>
  A finalize intent.  The \<^verbatim>\<open>outputs\<close> column holds a JSON array of \<^verbatim>\<open>intentOutputJSON\<close> and
  \<^verbatim>\<open>done_event\<close> the JSON done event; both are kept as the values they encode, \<open>None\<close> for a
  text that does not decode.
\<close>

record intent_output =
  io_Role :: string
  io_StagingID :: string
  io_TmpRel :: string
  io_FinalRel :: string
  io_TmpPathAbs :: string
  io_FinalPathAbs :: string
  io_Sha256 :: string
  io_Size :: int

record finalize_intent =
  fi_MissionID :: string
  fi_Phase :: finalize_phase
  fi_Outcome :: string
  fi_ReturnValue :: "raw_message option"
  fi_FailReason :: "string option"
  fi_FailMessage :: "string option"
  fi_FailDetails :: "raw_message option"
  fi_ExitCode :: "int option"
  fi_Signal :: "string option"
  fi_Outputs :: "intent_output list option"
  fi_DoneSeq :: int
  fi_DoneEvent :: "fields option"
  fi_TimeCreatedMs :: int

record runtime_row =
  rt_MissionID :: string
  rt_MissionDir :: string
  rt_CommandTemplate :: string
  rt_MissionPathTemplate :: string
  rt_ValidateMissionFile :: bool

record applied_config =
  ac_Data :: "json option"
  ac_AppliedAt :: int
  ac_Source :: "string option"

section \<open>The database\<close>

record db =
  missions :: "mission list"
  mission_runtime :: "runtime_row list"
  finalize_intents :: "finalize_intent list"
  staging_files :: "staging_file list"
  staging_refs :: "staging_ref list"
  config_row :: "applied_config option"

definition empty_db :: db where
  "empty_db = \<lparr>missions = [], mission_runtime = [], finalize_intents = [], staging_files = [],
     staging_refs = [], config_row = None\<rparr>"

definition find_mission :: "string \<Rightarrow> db \<Rightarrow> mission option" where
  "find_mission i d = sql_find msn_ID i (missions d)"

definition find_staging :: "string \<Rightarrow> db \<Rightarrow> staging_file option" where
  "find_staging i d = sql_find stg_StagingID i (staging_files d)"

definition find_intent :: "string \<Rightarrow> db \<Rightarrow> finalize_intent option" where
  "find_intent i d = sql_find fi_MissionID i (finalize_intents d)"

lemmas find_defs = find_mission_def find_staging_def find_intent_def

text \<open>The unique index \<^verbatim>\<open>msr_unique_role\<close> is on mission, ref kind and role.\<close>

definition ref_role_key :: "staging_ref \<Rightarrow> string \<times> ref_kind \<times> string" where
  "ref_role_key r = (ref_MissionID r, ref_RefKind r, ref_Role r)"

text \<open>
  Integrity: primary keys are unique, every child row points at an existing parent, and no two
  refs of a mission share kind and role.
\<close>

definition db_ok :: "db \<Rightarrow> bool" where
  "db_ok d \<longleftrightarrow>
     keyed msn_ID (missions d) \<and>
     keyed rt_MissionID (mission_runtime d) \<and>
     keyed fi_MissionID (finalize_intents d) \<and>
     keyed stg_StagingID (staging_files d) \<and>
     keyed ref_role_key (staging_refs d) \<and>
     (\<forall>m \<in> set (missions d). \<forall>p. msn_RestartedFrom m = Some p \<longrightarrow> p \<in> msn_ID ` set (missions d)) \<and>
     fi_MissionID ` set (finalize_intents d) \<subseteq> msn_ID ` set (missions d) \<and>
     rt_MissionID ` set (mission_runtime d) \<subseteq> msn_ID ` set (missions d) \<and>
     ref_MissionID ` set (staging_refs d) \<subseteq> msn_ID ` set (missions d) \<and>
     ref_StagingID ` set (staging_refs d) \<subseteq> stg_StagingID ` set (staging_files d)"

lemma empty_db_ok [simp]: "db_ok empty_db"
  by (simp add: db_ok_def empty_db_def)

lemma db_ok_keyed:
  assumes "db_ok d"
  shows "keyed msn_ID (missions d)" "keyed fi_MissionID (finalize_intents d)"
    "keyed stg_StagingID (staging_files d)" "keyed ref_role_key (staging_refs d)"
  using assms by (simp_all add: db_ok_def)

lemma db_ok_fk:
  assumes "db_ok d"
  shows "fi_MissionID ` set (finalize_intents d) \<subseteq> msn_ID ` set (missions d)"
    "ref_MissionID ` set (staging_refs d) \<subseteq> msn_ID ` set (missions d)"
    "ref_StagingID ` set (staging_refs d) \<subseteq> stg_StagingID ` set (staging_files d)"
  using assms by (simp_all add: db_ok_def)

end
