(* ===== verification/Missions.thy ===== *)
theory Missions
  imports Schema
begin

text \<open>
  The statements of \<^verbatim>\<open>internal/storage/missions.go\<close>, \<^verbatim>\<open>intents.go\<close>, \<^verbatim>\<open>runtime.go\<close> and
  \<^verbatim>\<open>config.go\<close> on the database, and the writer transaction with its bounded retry
  (\<^verbatim>\<open>tx.go\<close>).  A statement that can fail returns a sum; a writer transaction that fails leaves
  the database as it was.
\<close>

section \<open>Writer transactions\<close>

text \<open>What the driver does with one attempt: it runs, or BEGIN or COMMIT fails.\<close>

datatype tx_fate = TxOk | TxBeginErr error | TxCommitErr error

type_synonym 'a stmt = "db \<Rightarrow> error + 'a \<times> db"

definition IsBusy :: "error \<Rightarrow> bool" where
  "IsBusy e = (case e of ErrSqlite c \<Rightarrow> c mod 256 = 5 \<or> c mod 256 = 6 | _ \<Rightarrow> False)"

definition WithWriter :: "tx_fate \<Rightarrow> 'a stmt \<Rightarrow> db \<Rightarrow> (error + 'a) \<times> db" where
  "WithWriter fate fn d =
     (case fate of
        TxBeginErr e \<Rightarrow> (Inl e, d)
      | _ \<Rightarrow> (case fn d of
               Inl e \<Rightarrow> (Inl e, d)
             | Inr (x, d') \<Rightarrow>
                 (case fate of TxCommitErr e \<Rightarrow> (Inl e, d) | _ \<Rightarrow> (Inr x, d'))))"

definition maxAttempts :: nat where
  "maxAttempts = 10"

definition maxBackoff :: nat where
  "maxBackoff = 2000"

definition next_backoff :: "nat \<Rightarrow> nat" where
  "next_backoff b = (if b < maxBackoff then (if 2 * b > maxBackoff then maxBackoff else 2 * b) else b)"

text \<open>
  The retry loop.  Each element of the environment list is the fate of one attempt and
  whether the context is cancelled during the wait after it; past the end of the list the
  attempts succeed.  The last component is the list of waits, in milliseconds.
\<close>

function retry_loop ::
  "nat \<Rightarrow> nat \<Rightarrow> (tx_fate \<times> bool) list \<Rightarrow> 'a stmt \<Rightarrow> db \<Rightarrow> (error + 'a) \<times> db \<times> nat list" where
  "retry_loop attempt backoff env fn d =
     (let (fate, cancelled) = (case env of [] \<Rightarrow> (TxOk, False) | e # _ \<Rightarrow> e);
          (r, d') = WithWriter fate fn d
      in case r of
           Inr x \<Rightarrow> (Inr x, d', [])
         | Inl e \<Rightarrow>
             if \<not> IsBusy e \<or> attempt \<ge> maxAttempts then (Inl e, d', [])
             else if cancelled then (Inl ErrCtx, d', [])
             else (let (r', d'', ws) = retry_loop (Suc attempt) (next_backoff backoff) (tl env) fn d'
                   in (r', d'', backoff # ws)))"
  by pat_completeness auto
termination
  by (relation "measure (\<lambda>(attempt, _). maxAttempts - attempt)") auto

declare retry_loop.simps [simp del]

definition WithWriterRetry ::
  "(tx_fate \<times> bool) list \<Rightarrow> 'a stmt \<Rightarrow> db \<Rightarrow> (error + 'a) \<times> db \<times> nat list" where
  "WithWriterRetry env fn d = retry_loop 1 50 env fn d"

section \<open>Finalize intents\<close>

definition InsertFinalizeIntent :: "finalize_intent \<Rightarrow> unit stmt" where
  "InsertFinalizeIntent i d =
     (if find_mission (fi_MissionID i) d = None then Inl ErrConstraint
      else case sql_insert fi_MissionID i (finalize_intents d) of
             None \<Rightarrow> Inl ErrConstraint
           | Some t \<Rightarrow> Inr ((), d\<lparr>finalize_intents := t\<rparr>))"

definition UpdateFinalizePhase :: "string \<Rightarrow> finalize_phase \<Rightarrow> unit stmt" where
  "UpdateFinalizePhase mid phase d =
     (if sql_affected (\<lambda>i. fi_MissionID i = mid) (finalize_intents d) = 0 then Inl ErrNotFound
      else Inr ((), d\<lparr>finalize_intents :=
        sql_update (\<lambda>i. fi_MissionID i = mid) (\<lambda>i. i\<lparr>fi_Phase := phase\<rparr>) (finalize_intents d)\<rparr>))"

definition DeleteFinalizeIntent :: "string \<Rightarrow> db \<Rightarrow> db" where
  "DeleteFinalizeIntent mid d =
     d\<lparr>finalize_intents := sql_delete (\<lambda>i. fi_MissionID i = mid) (finalize_intents d)\<rparr>"

definition ListFinalizeIntents :: "finalize_phase \<Rightarrow> db \<Rightarrow> finalize_intent list" where
  "ListFinalizeIntents phase d = filter (\<lambda>i. fi_Phase i = phase) (finalize_intents d)"

definition QueryAllFinalizeIntents :: "db \<Rightarrow> finalize_intent list" where
  "QueryAllFinalizeIntents d = finalize_intents d"

definition GetFinalizeIntent :: "string \<Rightarrow> db \<Rightarrow> error + finalize_intent" where
  "GetFinalizeIntent mid d = (case find_intent mid d of None \<Rightarrow> Inl ErrNotFound | Some i \<Rightarrow> Inr i)"

section \<open>Mission rows\<close>

text \<open>
  Deleting missions: the foreign keys cascade to runtime, refs and intents, clear
  \<^verbatim>\<open>restarted_from\<close>, and the trigger \<^verbatim>\<open>staging_recalc_after_ref_delete\<close> zeroes the expiry of
  every staging row that lost a ref.
\<close>

definition clear_restarted :: "string list \<Rightarrow> mission \<Rightarrow> mission" where
  "clear_restarted ids m =
     (case msn_RestartedFrom m of
        Some p \<Rightarrow> if p \<in> set ids then m\<lparr>msn_RestartedFrom := None\<rparr> else m
      | None \<Rightarrow> m)"

definition DeleteMissions :: "string list \<Rightarrow> db \<Rightarrow> db" where
  "DeleteMissions ids d =
     (if ids = [] then d
      else
        let gone = filter (\<lambda>r. ref_MissionID r \<in> set ids) (staging_refs d);
            touched = map ref_StagingID gone
        in d\<lparr>missions := map (clear_restarted ids) (sql_delete (\<lambda>m. msn_ID m \<in> set ids) (missions d)),
             mission_runtime := sql_delete (\<lambda>r. rt_MissionID r \<in> set ids) (mission_runtime d),
             finalize_intents := sql_delete (\<lambda>i. fi_MissionID i \<in> set ids) (finalize_intents d),
             staging_refs := sql_delete (\<lambda>r. ref_MissionID r \<in> set ids) (staging_refs d),
             staging_files := sql_update (\<lambda>s. stg_StagingID s \<in> set touched)
               (\<lambda>s. s\<lparr>stg_TimeExpiresMs := 0\<rparr>) (staging_files d)\<rparr>)"

text \<open>
  INSERT checks the primary key and the self-referential \<^verbatim>\<open>restarted_from\<close> foreign key, which
  SQLite checks at the end of the statement: a row may name itself.
\<close>

definition InsertMission :: "mission \<Rightarrow> unit stmt" where
  "InsertMission m d =
     (case sql_insert msn_ID m (missions d) of
        None \<Rightarrow> Inl ErrConstraint
      | Some t \<Rightarrow>
          (case msn_RestartedFrom m of
             Some p \<Rightarrow> if sql_find msn_ID p t = None then Inl ErrConstraint
                       else Inr ((), d\<lparr>missions := t\<rparr>)
           | None \<Rightarrow> Inr ((), d\<lparr>missions := t\<rparr>)))"

definition GetMission :: "string \<Rightarrow> db \<Rightarrow> error + mission" where
  "GetMission mid d = (case find_mission mid d of None \<Rightarrow> Inl ErrNotFound | Some m \<Rightarrow> Inr m)"

definition GetMissionLabels :: "string \<Rightarrow> db \<Rightarrow> error + kind \<times> string \<times> int" where
  "GetMissionLabels mid d =
     (case find_mission mid d of
        None \<Rightarrow> Inl ErrNotFound
      | Some m \<Rightarrow> Inr (msn_Kind m, msn_Lane m,
                        case msn_TimeStartedMs m of None \<Rightarrow> 0 | Some t \<Rightarrow> t))"

text \<open>\<^verbatim>\<open>ORDER BY time_created, mission_id\<close>.\<close>

abbreviation queue_key :: "mission \<Rightarrow> int \<times> string" where
  "queue_key m \<equiv> (msn_TimeCreatedMs m, msn_ID m)"

definition has_intent :: "string \<Rightarrow> db \<Rightarrow> bool" where
  "has_intent mid d \<longleftrightarrow> (\<exists>i \<in> set (finalize_intents d). fi_MissionID i = mid)"

definition pickable :: "string \<Rightarrow> db \<Rightarrow> mission \<Rightarrow> bool" where
  "pickable lane d m \<longleftrightarrow>
     msn_Status m = StatusQueued \<and> msn_Lane m = lane \<and> \<not> has_intent (msn_ID m) d"

definition PickQueuedForLane :: "string \<Rightarrow> db \<Rightarrow> error + mission" where
  "PickQueuedForLane lane d =
     (case sql_min (\<lambda>a b. queue_key a \<le> queue_key b) (filter (pickable lane d) (missions d)) of
        None \<Rightarrow> Inl ErrNotFound | Some m \<Rightarrow> Inr m)"

text \<open>A guarded UPDATE of one mission row; zero affected rows is \<^verbatim>\<open>ErrNotFound\<close>.\<close>

definition guarded_update ::
  "string \<Rightarrow> (mission \<Rightarrow> bool) \<Rightarrow> (mission \<Rightarrow> mission) \<Rightarrow> unit stmt" where
  "guarded_update mid G f d =
     (if sql_affected (\<lambda>m. msn_ID m = mid \<and> G m) (missions d) = 0 then Inl ErrNotFound
      else Inr ((), d\<lparr>missions := sql_update (\<lambda>m. msn_ID m = mid \<and> G m) f (missions d)\<rparr>))"

definition MarkRunning :: "string \<Rightarrow> int \<Rightarrow> int \<Rightarrow> int \<Rightarrow> int \<Rightarrow> unit stmt" where
  "MarkRunning mid nowMs pid pgid procStart =
     guarded_update mid (\<lambda>m. msn_Status m = StatusQueued)
       (\<lambda>m. m\<lparr>msn_Status := StatusRunning, msn_TimeStartedMs := Some nowMs, msn_PID := Some pid,
              msn_PGID := Some pgid, msn_ProcStarttime := Some procStart\<rparr>)"

definition UpdateRunningPid :: "string \<Rightarrow> int \<Rightarrow> int \<Rightarrow> int \<Rightarrow> unit stmt" where
  "UpdateRunningPid mid pid pgid procStart =
     guarded_update mid (\<lambda>m. msn_Status m = StatusRunning)
       (\<lambda>m. m\<lparr>msn_PID := Some pid, msn_PGID := Some pgid, msn_ProcStarttime := Some procStart\<rparr>)"

definition UpdateRunningPidAndTimeStarted :: "string \<Rightarrow> int \<Rightarrow> int \<Rightarrow> int \<Rightarrow> int \<Rightarrow> unit stmt" where
  "UpdateRunningPidAndTimeStarted mid pid pgid procStart timeStartedMs =
     guarded_update mid (\<lambda>m. msn_Status m = StatusRunning)
       (\<lambda>m. m\<lparr>msn_PID := Some pid, msn_PGID := Some pgid, msn_ProcStarttime := Some procStart,
              msn_TimeStartedMs := Some timeStartedMs\<rparr>)"

section \<open>Runtime snapshots and the applied configuration\<close>

definition InsertRuntime :: "runtime_row \<Rightarrow> unit stmt" where
  "InsertRuntime r d =
     (if find_mission (rt_MissionID r) d = None then Inl ErrConstraint
      else case sql_insert rt_MissionID r (mission_runtime d) of
             None \<Rightarrow> Inl ErrConstraint
           | Some t \<Rightarrow> Inr ((), d\<lparr>mission_runtime := t\<rparr>))"

definition GetRuntime :: "string \<Rightarrow> db \<Rightarrow> error + runtime_row" where
  "GetRuntime mid d =
     (case sql_find rt_MissionID mid (mission_runtime d) of None \<Rightarrow> Inl ErrNotFound | Some r \<Rightarrow> Inr r)"

definition GetAppliedConfig :: "db \<Rightarrow> error + applied_config" where
  "GetAppliedConfig d = (case config_row d of None \<Rightarrow> Inl ErrNotFound | Some c \<Rightarrow> Inr c)"

definition SetAppliedConfig :: "applied_config \<Rightarrow> db \<Rightarrow> db" where
  "SetAppliedConfig c d = d\<lparr>config_row := Some c\<rparr>"

section \<open>Transactions are atomic and the retry is bounded\<close>

lemma WithWriter_error: "WithWriter fate fn d = (Inl e, d') \<Longrightarrow> d' = d"
  by (auto simp: WithWriter_def split: tx_fate.splits sum.splits prod.splits)

lemma WithWriter_ok: "WithWriter fate fn d = (Inr x, d') \<Longrightarrow> fn d = Inr (x, d')"
  by (auto simp: WithWriter_def split: tx_fate.splits sum.splits prod.splits)

lemma WithWriter_TxOk:
  "WithWriter TxOk fn d = (case fn d of Inl e \<Rightarrow> (Inl e, d) | Inr (x, d') \<Rightarrow> (Inr x, d'))"
  by (simp add: WithWriter_def split: sum.split)

lemma next_backoff_le: "b \<le> maxBackoff \<Longrightarrow> next_backoff b \<le> maxBackoff"
  by (simp add: next_backoff_def)

lemma retry_loop_spec:
  assumes "b \<le> maxBackoff" and "a \<le> maxAttempts"
    and "retry_loop a b env fn d = (r, d', ws)"
  shows "(case r of Inl _ \<Rightarrow> d' = d | Inr x \<Rightarrow> fn d = Inr (x, d')) \<and>
         length ws + a \<le> maxAttempts \<and> (\<forall>w \<in> set ws. w \<le> maxBackoff)"
  using assms
proof (induction a b env fn d arbitrary: r d' ws rule: retry_loop.induct)
  case (1 a b env fn d)
  obtain fate c where env: "(case env of [] \<Rightarrow> (TxOk, False) | e # _ \<Rightarrow> e) = (fate, c)"
    by (cases "case env of [] \<Rightarrow> (TxOk, False) | e # _ \<Rightarrow> e")
  obtain q d1 where run: "WithWriter fate fn d = (q, d1)"
    by (cases "WithWriter fate fn d")
  show ?case
  proof (cases q)
    case (Inr x)
    with "1.prems"(2,3) env run show ?thesis
      by (auto simp: retry_loop.simps [of a b env fn d] dest: WithWriter_ok)
  next
    case (Inl e)
    with run have d1: "d1 = d" by (auto dest: WithWriter_error)
    show ?thesis
    proof (cases "\<not> IsBusy e \<or> maxAttempts \<le> a \<or> c")
      case True
      with "1.prems"(2,3) env run Inl d1 show ?thesis
        by (auto simp: retry_loop.simps [of a b env fn d] split: if_splits)
    next
      case False
      obtain r2 d2 ws2 where rec: "retry_loop (Suc a) (next_backoff b) (tl env) fn d = (r2, d2, ws2)"
        by (cases "retry_loop (Suc a) (next_backoff b) (tl env) fn d")
      have ih: "(case r2 of Inl _ \<Rightarrow> d2 = d | Inr x \<Rightarrow> fn d = Inr (x, d2)) \<and>
         length ws2 + Suc a \<le> maxAttempts \<and> (\<forall>w \<in> set ws2. w \<le> maxBackoff)"
        using False rec next_backoff_le [OF "1.prems"(1)]
        by (intro "1.IH" [OF env [symmetric] refl run [symmetric] refl Inl, unfolded d1]) auto
      have "retry_loop a b env fn d = (r2, d2, b # ws2)"
        using False env run Inl d1 rec by (simp add: retry_loop.simps [of a b env fn d])
      with "1.prems"(3) ih "1.prems"(1) show ?thesis by auto
    qed
  qed
qed

text \<open>A run of busy attempts followed by one that commits ends with the commit.\<close>

lemma retry_loop_busy_then_ok:
  assumes "length busy + a \<le> maxAttempts" and "\<forall>e \<in> set busy. IsBusy e"
    and "fn d = Inr (x, d')"
  shows "\<exists>ws. retry_loop a b (map (\<lambda>e. (TxBeginErr e, False)) busy @ (TxOk, c) # rest) fn d =
               (Inr x, d', ws) \<and> length ws = length busy"
  using assms(1,2)
proof (induction busy arbitrary: a b)
  case Nil
  then show ?case
    by (simp add: retry_loop.simps [of a b] WithWriter_TxOk assms(3))
next
  case (Cons e busy)
  from Cons.prems have "length busy + Suc a \<le> maxAttempts" and "\<forall>e \<in> set busy. IsBusy e" by simp_all
  from Cons.IH [OF this] obtain ws where
    "retry_loop (Suc a) (next_backoff b)
       (map (\<lambda>e. (TxBeginErr e, False)) busy @ (TxOk, c) # rest) fn d = (Inr x, d', ws)"
    and "length ws = length busy"
    by blast
  with Cons.prems show ?case
    by (simp add: retry_loop.simps [of a b] WithWriter_def)
qed

section \<open>Updates of mission rows\<close>

text \<open>The UPDATE statements of this package never write the primary key.\<close>

interpretation mark_running: key_preserving msn_ID
  "\<lambda>m. m\<lparr>msn_Status := StatusRunning, msn_TimeStartedMs := Some nowMs, msn_PID := Some pid,
        msn_PGID := Some pgid, msn_ProcStarttime := Some procStart\<rparr>" for nowMs pid pgid procStart
  by unfold_locales simp

interpretation phase_update: key_preserving fi_MissionID "\<lambda>i. i\<lparr>fi_Phase := phase\<rparr>" for phase
  by unfold_locales simp

interpretation zero_expires: key_preserving stg_StagingID "\<lambda>s. s\<lparr>stg_TimeExpiresMs := 0\<rparr>"
  by unfold_locales simp

lemma db_ok_missions_update:
  assumes "\<And>m. msn_ID (f m) = msn_ID m" and "\<And>m. msn_RestartedFrom (f m) = msn_RestartedFrom m"
    and "db_ok d"
  shows "db_ok (d\<lparr>missions := sql_update P f (missions d)\<rparr>)"
proof -
  have ids: "map msn_ID (sql_update P f (missions d)) = map msn_ID (missions d)"
    by (simp add: sql_update_def assms(1))
  then have img: "msn_ID ` set (sql_update P f (missions d)) = msn_ID ` set (missions d)"
    by (metis set_map)
  have "\<forall>m \<in> set (sql_update P f (missions d)). \<forall>p. msn_RestartedFrom m = Some p \<longrightarrow>
      p \<in> msn_ID ` set (missions d)"
    using assms(3) by (auto simp: sql_update_def db_ok_def assms(2))
  with assms(3) show ?thesis by (simp only: db_ok_def) (simp add: ids img)
qed

lemma guarded_update_ok:
  assumes "keyed msn_ID (missions d)"
  shows "guarded_update mid G f d = Inr ((), d') \<longleftrightarrow>
    (\<exists>m. find_mission mid d = Some m \<and> G m) \<and>
    d' = d\<lparr>missions := sql_update (\<lambda>m. msn_ID m = mid \<and> G m) f (missions d)\<rparr>"
  using assms
  by (auto simp: guarded_update_def sql_affected_key find_mission_def split: option.splits if_splits)

lemma guarded_update_error:
  "guarded_update mid G f d = Inl e \<Longrightarrow> e = ErrNotFound"
  by (auto simp: guarded_update_def split: if_splits)

lemma guarded_update_find:
  assumes "guarded_update mid G f d = Inr ((), d')" and "\<And>m. msn_ID (f m) = msn_ID m"
  shows "find_mission i d' =
    map_option (\<lambda>m. if msn_ID m = mid \<and> G m then f m else m) (find_mission i d)"
proof -
  have loc: "key_preserving msn_ID f" using assms(2) by unfold_locales
  from assms(1) show ?thesis
    by (auto simp: guarded_update_def find_mission_def key_preserving.find_update [OF loc] split: if_splits)
qed

lemma has_intent_find: "has_intent mid d \<longleftrightarrow> find_intent mid d \<noteq> None"
  by (auto simp: has_intent_def find_intent_def sql_find_None_iff)

section \<open>Picking the next mission of a lane\<close>

lemma PickQueuedForLane_pickable:
  "PickQueuedForLane lane d = Inr m \<Longrightarrow> m \<in> set (missions d) \<and> pickable lane d m"
  by (auto simp: PickQueuedForLane_def dest!: sql_min_in split: option.splits)

lemma PickQueuedForLane_oldest:
  assumes "PickQueuedForLane lane d = Inr m" and "m' \<in> set (missions d)" and "pickable lane d m'"
  shows "queue_key m \<le> queue_key m'"
proof -
  from assms(1) have "sql_min (\<lambda>a b. queue_key a \<le> queue_key b)
      (filter (pickable lane d) (missions d)) = Some m"
    by (auto simp: PickQueuedForLane_def split: option.splits)
  then show ?thesis
    by (rule sql_min_least [where le = "\<lambda>a b. queue_key a \<le> queue_key b", rotated 2])
      (use assms(2,3) in \<open>auto simp only: set_filter mem_Collect_eq intro: linear order_trans\<close>)
qed

lemma PickQueuedForLane_none:
  "PickQueuedForLane lane d = Inl e \<longleftrightarrow>
     e = ErrNotFound \<and> (\<forall>m \<in> set (missions d). \<not> pickable lane d m)"
  by (auto simp: PickQueuedForLane_def filter_empty_conv dest!: sql_min_in split: option.splits)

section \<open>Integrity is kept by every statement\<close>

lemma find_mission_in: "find_mission mid d \<noteq> None \<longleftrightarrow> mid \<in> msn_ID ` set (missions d)"
  by (simp add: find_mission_def sql_find_None_iff)

lemma InsertMission_db_ok [inv_intros]:
  assumes "InsertMission m d = Inr (u, d')" and "db_ok d"
  shows "db_ok d'"
proof -
  from assms(1) obtain t where t: "sql_insert msn_ID m (missions d) = Some t"
    and d': "d' = d\<lparr>missions := t\<rparr>"
    and fk: "\<forall>p. msn_RestartedFrom m = Some p \<longrightarrow> p \<in> msn_ID ` set t"
    by (auto simp: InsertMission_def sql_find_None_iff split: option.splits if_splits)
  from t have t_eq: "t = missions d @ [m]" by (auto simp: sql_insert_def split: if_splits)
  from t assms(2) have "keyed msn_ID t" by (auto simp: db_ok_def intro: sql_insert_keyed)
  with assms(2) fk show ?thesis unfolding db_ok_def d' t_eq by auto
qed

lemma InsertFinalizeIntent_db_ok [inv_intros]:
  assumes "InsertFinalizeIntent i d = Inr (u, d')" and "db_ok d"
  shows "db_ok d'"
proof -
  from assms(1) obtain t where t: "sql_insert fi_MissionID i (finalize_intents d) = Some t"
    and d': "d' = d\<lparr>finalize_intents := t\<rparr>" and m: "find_mission (fi_MissionID i) d \<noteq> None"
    by (auto simp: InsertFinalizeIntent_def split: option.splits if_splits)
  from t have t_eq: "t = finalize_intents d @ [i]" by (auto simp: sql_insert_def split: if_splits)
  from t assms(2) have "keyed fi_MissionID t" by (auto simp: db_ok_def intro: sql_insert_keyed)
  with assms(2) m show ?thesis unfolding find_mission_in db_ok_def d' t_eq by auto
qed

lemma InsertRuntime_db_ok [inv_intros]:
  assumes "InsertRuntime r d = Inr (u, d')" and "db_ok d"
  shows "db_ok d'"
proof -
  from assms(1) obtain t where t: "sql_insert rt_MissionID r (mission_runtime d) = Some t"
    and d': "d' = d\<lparr>mission_runtime := t\<rparr>" and m: "find_mission (rt_MissionID r) d \<noteq> None"
    by (auto simp: InsertRuntime_def split: option.splits if_splits)
  from t have t_eq: "t = mission_runtime d @ [r]" by (auto simp: sql_insert_def split: if_splits)
  from t assms(2) have "keyed rt_MissionID t" by (auto simp: db_ok_def intro: sql_insert_keyed)
  with assms(2) m show ?thesis unfolding find_mission_in db_ok_def d' t_eq by auto
qed

lemma DeleteFinalizeIntent_db_ok [inv_intros]:
  "db_ok d \<Longrightarrow> db_ok (DeleteFinalizeIntent mid d)"
  by (auto simp: db_ok_def DeleteFinalizeIntent_def sql_delete_def intro: distinct_map_filter)

lemma UpdateFinalizePhase_db_ok [inv_intros]:
  assumes "UpdateFinalizePhase mid ph d = Inr (u, d')" and "db_ok d"
  shows "db_ok d'"
proof -
  let ?t = "sql_update (\<lambda>i. fi_MissionID i = mid) (\<lambda>i. i\<lparr>fi_Phase := ph\<rparr>) (finalize_intents d)"
  from assms(1) have d': "d' = d\<lparr>finalize_intents := ?t\<rparr>"
    by (auto simp: UpdateFinalizePhase_def split: if_splits)
  have keys: "map fi_MissionID ?t = map fi_MissionID (finalize_intents d)"
    by (rule phase_update.keys_update)
  then have "fi_MissionID ` set ?t = fi_MissionID ` set (finalize_intents d)" by (metis set_map)
  with keys assms(2) show ?thesis unfolding d' by (simp add: db_ok_def)
qed

lemma SetAppliedConfig_db_ok [inv_intros]: "db_ok d \<Longrightarrow> db_ok (SetAppliedConfig c d)"
  by (simp add: SetAppliedConfig_def db_ok_def)

lemma guarded_update_db_ok [inv_intros]:
  assumes "guarded_update mid G f d = Inr (u, d')"
    and "\<And>m. msn_ID (f m) = msn_ID m" and "\<And>m. msn_RestartedFrom (f m) = msn_RestartedFrom m"
    and "db_ok d"
  shows "db_ok d'"
  using assms db_ok_missions_update [OF assms(2,3,4)]
  by (auto simp: guarded_update_def split: if_splits)

lemma MarkRunning_db_ok [inv_intros]:
  "MarkRunning mid now pid pgid ps d = Inr (u, d') \<Longrightarrow> db_ok d \<Longrightarrow> db_ok d'"
  unfolding MarkRunning_def by (erule guarded_update_db_ok) simp_all

lemma msn_ID_clear_restarted [simp]: "msn_ID (clear_restarted ids m) = msn_ID m"
  by (simp add: clear_restarted_def split: option.split)

lemma clear_restarted_Some:
  "msn_RestartedFrom (clear_restarted ids m) = Some p \<longleftrightarrow>
     msn_RestartedFrom m = Some p \<and> p \<notin> set ids"
  by (auto simp: clear_restarted_def split: option.splits)

lemma DeleteMissions_find:
  assumes "db_ok d"
  shows "find_mission mid (DeleteMissions ids d) =
    (if mid \<in> set ids then None else map_option (clear_restarted ids) (find_mission mid d))"
proof -
  have map_find: "sql_find msn_ID mid (map (clear_restarted ids) t) =
      map_option (clear_restarted ids) (sql_find msn_ID mid t)" for t
    by (induction t) auto
  have none: "find_mission mid d = Some m \<Longrightarrow> msn_ID m = mid" for m
    by (auto simp: find_mission_def dest: sql_find_Some_in)
  have "clear_restarted [] = id"
    by (auto simp: clear_restarted_def fun_eq_iff split: option.split)
  then show ?thesis
    using db_ok_keyed(1) [OF assms] none
    by (auto simp: DeleteMissions_def Let_def find_mission_def map_find table_simps
        option.map_id split: option.split)
qed

lemma DeleteMissions_db_ok [inv_intros]:
  assumes "db_ok d"
  shows "db_ok (DeleteMissions ids d)"
proof (cases "ids = []")
  case True
  with assms show ?thesis by (simp add: DeleteMissions_def)
next
  case False
  define ms where "ms = map (clear_restarted ids) (sql_delete (\<lambda>m. msn_ID m \<in> set ids) (missions d))"
  have ids: "msn_ID ` set ms = msn_ID ` set (missions d) - set ids"
    by (auto simp: ms_def sql_delete_def image_iff)
  have "map msn_ID ms = map msn_ID (sql_delete (\<lambda>m. msn_ID m \<in> set ids) (missions d))"
    by (simp add: ms_def)
  with assms have keyed: "keyed msn_ID ms" by (metis db_ok_keyed(1) sql_delete_keyed)
  have stg: "map stg_StagingID (sql_update P (\<lambda>s. s\<lparr>stg_TimeExpiresMs := 0\<rparr>) t) = map stg_StagingID t" for P t
    by (rule zero_expires.keys_update)
  then have stg': "stg_StagingID ` set (sql_update P (\<lambda>s. s\<lparr>stg_TimeExpiresMs := 0\<rparr>) t) = stg_StagingID ` set t" for P t
    by (metis set_map)
  have rest: "\<forall>m \<in> set ms. \<forall>p. msn_RestartedFrom m = Some p \<longrightarrow> p \<in> msn_ID ` set ms"
    unfolding ids using assms by (auto simp: ms_def clear_restarted_Some db_ok_def sql_delete_def)
  show ?thesis
    using assms False keyed rest
    unfolding db_ok_def DeleteMissions_def Let_def ms_def [symmetric]
    by (auto simp: stg stg' ids sql_delete_def intro!: distinct_map_filter)
qed

end
