(* ===== verification/Staging.thy ===== *)
theory Staging
  imports Missions
begin

text \<open>
  The content-addressed staging store (\<^verbatim>\<open>internal/storage/staging.go\<close> and \<^verbatim>\<open>refs.go\<close>): the life
  cycle of a staging row, the refs that tie it to missions, and the expiry formula.  The life
  cycle is a state machine whose guarded UPDATEs are the only transitions; the expiry formula
  is shown equal to its specification by cases, and to keep a row alive while a mission that
  is queued, running or being deleted refers to it.
\<close>

section \<open>Rows\<close>

definition InsertStaging :: "staging_file \<Rightarrow> unit stmt" where
  "InsertStaging s d =
     (case sql_insert stg_StagingID s (staging_files d) of
        None \<Rightarrow> Inl ErrConstraint
      | Some t \<Rightarrow> Inr ((), d\<lparr>staging_files := t\<rparr>))"

definition GetStaging :: "string \<Rightarrow> db \<Rightarrow> error + staging_file" where
  "GetStaging sid d = (case find_staging sid d of None \<Rightarrow> Inl ErrNotFound | Some s \<Rightarrow> Inr s)"

definition guarded_staging ::
  "string \<Rightarrow> (staging_file \<Rightarrow> bool) \<Rightarrow> (staging_file \<Rightarrow> staging_file) \<Rightarrow> unit stmt" where
  "guarded_staging sid G f d =
     (if sql_affected (\<lambda>s. stg_StagingID s = sid \<and> G s) (staging_files d) = 0 then Inl ErrNotFound
      else Inr ((), d\<lparr>staging_files :=
             sql_update (\<lambda>s. stg_StagingID s = sid \<and> G s) f (staging_files d)\<rparr>))"

definition UpdateStagingProgress :: "string \<Rightarrow> int \<Rightarrow> int \<Rightarrow> int \<Rightarrow> unit stmt" where
  "UpdateStagingProgress sid bytes nowMs expiresMs =
     guarded_staging sid (\<lambda>s. stg_State s = StagingUploading)
       (\<lambda>s. s\<lparr>stg_BytesReceived := bytes, stg_TimeUpdatedMs := nowMs, stg_TimeExpiresMs := expiresMs\<rparr>)"

definition MarkStagingComplete :: "string \<Rightarrow> string \<Rightarrow> int \<Rightarrow> int \<Rightarrow> int \<Rightarrow> unit stmt" where
  "MarkStagingComplete sid sha sz nowMs expiresMs =
     guarded_staging sid (\<lambda>s. stg_State s = StagingUploading)
       (\<lambda>s. s\<lparr>stg_State := StagingComplete, stg_Sha256 := sha, stg_Size := sz,
              stg_BytesReceived := sz, stg_TimeUpdatedMs := nowMs, stg_TimeExpiresMs := expiresMs\<rparr>)"

definition MarkStagingCompleteWithPath :: "string \<Rightarrow> string \<Rightarrow> unit stmt" where
  "MarkStagingCompleteWithPath sid path =
     guarded_staging sid (\<lambda>s. stg_State s \<in> {StagingPendingOutput, StagingCommitting})
       (\<lambda>s. s\<lparr>stg_State := StagingComplete, stg_Path := path\<rparr>)"

definition MarkStagingDeleting :: "string \<Rightarrow> unit stmt" where
  "MarkStagingDeleting sid d =
     (case guarded_staging sid (\<lambda>s. stg_State s \<in> {StagingUploading, StagingComplete})
             (\<lambda>s. s\<lparr>stg_State := StagingDeleting\<rparr>) d of
        Inr r \<Rightarrow> Inr r
      | Inl _ \<Rightarrow>
          (case GetStaging sid d of
             Inl e \<Rightarrow> Inl e
           | Inr st \<Rightarrow> if stg_State st = StagingDeleting then Inr ((), d)
                        else Inl ErrStagingFinalizing))"

definition MarkStagingDeletingIfExpired :: "string \<Rightarrow> int \<Rightarrow> unit stmt" where
  "MarkStagingDeletingIfExpired sid nowMs d =
     (case guarded_staging sid
             (\<lambda>s. stg_State s \<in> {StagingUploading, StagingComplete} \<and>
                  0 < stg_TimeExpiresMs s \<and> stg_TimeExpiresMs s \<le> nowMs)
             (\<lambda>s. s\<lparr>stg_State := StagingDeleting\<rparr>) d of
        Inr r \<Rightarrow> Inr r
      | Inl _ \<Rightarrow>
          (case GetStaging sid d of
             Inl e \<Rightarrow> Inl e
           | Inr st \<Rightarrow> if stg_State st \<in> {StagingPendingOutput, StagingCommitting}
                        then Inl ErrStagingFinalizing else Inr ((), d)))"

text \<open>DELETE of a staging row; the refs' foreign key restricts it.\<close>

definition DeleteStagingWhere :: "(staging_file \<Rightarrow> bool) \<Rightarrow> unit stmt" where
  "DeleteStagingWhere P d =
     (if \<exists>s \<in> set (staging_files d). P s \<and> stg_StagingID s \<in> ref_StagingID ` set (staging_refs d)
      then Inl ErrConstraint
      else Inr ((), d\<lparr>staging_files := sql_delete P (staging_files d)\<rparr>))"

definition LookupStagingByContent :: "string \<Rightarrow> int \<Rightarrow> db \<Rightarrow> error + staging_file" where
  "LookupStagingByContent sha sz d =
     (case List.find (\<lambda>s. stg_State s = StagingComplete \<and> stg_Sha256 s = sha \<and> stg_Size s = sz)
             (staging_files d) of
        None \<Rightarrow> Inl ErrNotFound | Some s \<Rightarrow> Inr s)"

section \<open>Refs\<close>

definition InsertRef :: "staging_ref \<Rightarrow> unit stmt" where
  "InsertRef r d =
     (if find_mission (ref_MissionID r) d = None \<or> find_staging (ref_StagingID r) d = None
      then Inl ErrConstraint
      else case sql_insert ref_role_key r (staging_refs d) of
             None \<Rightarrow> Inl ErrConstraint
           | Some t \<Rightarrow> Inr ((), d\<lparr>staging_refs := t\<rparr>))"

definition RefsByMission :: "string \<Rightarrow> db \<Rightarrow> staging_ref list" where
  "RefsByMission mid d = filter (\<lambda>r. ref_MissionID r = mid) (staging_refs d)"

definition RefsByStaging :: "string \<Rightarrow> db \<Rightarrow> staging_ref list" where
  "RefsByStaging sid d = filter (\<lambda>r. ref_StagingID r = sid) (staging_refs d)"

definition StagingIDsForMissions :: "string list \<Rightarrow> db \<Rightarrow> string list" where
  "StagingIDsForMissions mids d =
     (if mids = [] then []
      else remdups (map ref_StagingID (filter (\<lambda>r. ref_MissionID r \<in> set mids) (staging_refs d))))"

record staging_cursor =
  scur_TimeCreatedMs :: int
  scur_StagingID :: string

definition ListStagingByMission ::
  "string \<Rightarrow> ref_kind option \<Rightarrow> staging_cursor option \<Rightarrow> int \<Rightarrow> db \<Rightarrow> (staging_file \<times> staging_ref) list" where
  "ListStagingByMission mid kindFilter after limit d =
     (let joined = [(s, r). s \<leftarrow> staging_files d, r \<leftarrow> staging_refs d,
                     stg_StagingID s = ref_StagingID r \<and> ref_MissionID r = mid \<and>
                     (case kindFilter of None \<Rightarrow> True | Some k \<Rightarrow> ref_RefKind r = k) \<and>
                     (case after of None \<Rightarrow> True
                      | Some c \<Rightarrow> (stg_TimeCreatedMs s, stg_StagingID s) <
                                   (scur_TimeCreatedMs c, scur_StagingID c))];
          ordered = rev (sort_key (\<lambda>(s, _). (stg_TimeCreatedMs s, stg_StagingID s)) joined)
      in if limit < 0 then ordered else take (nat limit) ordered)"

definition ListExpiredStaging :: "int \<Rightarrow> staging_state list \<Rightarrow> int \<Rightarrow> db \<Rightarrow> staging_file list" where
  "ListExpiredStaging nowMs states limit d =
     (if states = [] then []
      else
        let rows = sort_key stg_TimeExpiresMs
              (filter (\<lambda>s. stg_TimeExpiresMs s \<le> nowMs \<and> stg_State s \<in> set states) (staging_files d))
        in if limit < 0 then rows else take (nat limit) rows)"

section \<open>Expiry\<close>

record ttl_policy =
  ttl_MissionSuccess :: int
  ttl_MissionFailed :: int
  ttl_ExecSuccess :: int
  ttl_ExecFailed :: int
  ttl_StagingTTL :: int
  ttl_DownloadGrace :: int

text \<open>The policy's duration for a finished mission.\<close>

definition ttl_for :: "ttl_policy \<Rightarrow> mission \<Rightarrow> int" where
  "ttl_for p m =
     (if msn_Outcome m = Some ''success''
      then (if msn_Kind m = KindExec then ttl_ExecSuccess p else ttl_MissionSuccess p)
      else (if msn_Kind m = KindExec then ttl_ExecFailed p else ttl_MissionFailed p))"

definition active :: "mission \<Rightarrow> bool" where
  "active m \<longleftrightarrow> msn_Status m \<in> {StatusQueued, StatusRunning, StatusDeleting}"

text \<open>The rows of the join of refs and missions for one staging row.\<close>

definition ref_missions :: "string \<Rightarrow> db \<Rightarrow> mission list" where
  "ref_missions sid d =
     concat (map (\<lambda>r. filter (\<lambda>m. msn_ID m = ref_MissionID r) (missions d))
       (filter (\<lambda>r. ref_StagingID r = sid) (staging_refs d)))"

text \<open>One iteration of the row loop: the state is (maxExp, hasRefs, isInfinity).\<close>

definition recalc_step :: "ttl_policy \<Rightarrow> int \<times> bool \<times> bool \<Rightarrow> mission \<Rightarrow> int \<times> bool \<times> bool" where
  "recalc_step p acc m =
     (case acc of (maxExp, _, isInfinity) \<Rightarrow>
        if active m then (maxExp, True, True)
        else (case msn_TimeFinishedMs m of
                None \<Rightarrow> (maxExp, True, isInfinity)
              | Some fin \<Rightarrow>
                  (let exp = wrap64 (fin + milliseconds (ttl_for p m))
                   in (if exp > maxExp then exp else maxExp, True, isInfinity))))"

definition compute_expires :: "ttl_policy \<Rightarrow> mission list \<Rightarrow> staging_file \<Rightarrow> int" where
  "compute_expires p ms st =
     (case foldl (recalc_step p) (- 1, False, False) ms of
        (maxExp, hasRefs, isInfinity) \<Rightarrow>
          if isInfinity then maxInt64
          else if hasRefs then maxExp
          else
            let newExp = wrap64 (stg_TimeCreatedMs st + milliseconds (ttl_StagingTTL p))
            in (case stg_DownloadedAt st of
                  None \<Rightarrow> newExp
                | Some dl \<Rightarrow>
                    let grace = wrap64 (dl + milliseconds (ttl_DownloadGrace p))
                    in if grace < newExp then grace else newExp))"

definition set_expires :: "string \<Rightarrow> int \<Rightarrow> db \<Rightarrow> db" where
  "set_expires sid e d =
     d\<lparr>staging_files := sql_update
        (\<lambda>s. stg_StagingID s = sid \<and> stg_State s \<in> {StagingUploading, StagingComplete})
        (\<lambda>s. s\<lparr>stg_TimeExpiresMs := e\<rparr>) (staging_files d)\<rparr>"

definition RecalcStagingTTL :: "string \<Rightarrow> ttl_policy \<Rightarrow> int stmt" where
  "RecalcStagingTTL sid p d =
     (case GetStaging sid d of
        Inl e \<Rightarrow> Inl e
      | Inr st \<Rightarrow>
          let newExp = compute_expires p (ref_missions sid d) st
          in Inr (newExp, set_expires sid newExp d))"

definition FindStagingNeedingRecalc :: "int \<Rightarrow> db \<Rightarrow> string list" where
  "FindStagingNeedingRecalc limit d =
     (let ids = map stg_StagingID (filter (\<lambda>s. stg_TimeExpiresMs s = 0) (staging_files d))
      in if limit < 0 then ids else take (nat limit) ids)"

section \<open>Guarded updates\<close>

lemma guarded_staging_ok:
  assumes "keyed stg_StagingID (staging_files d)"
  shows "guarded_staging sid G f d = Inr ((), d') \<longleftrightarrow>
    (\<exists>s. find_staging sid d = Some s \<and> G s) \<and>
    d' = d\<lparr>staging_files := sql_update (\<lambda>s. stg_StagingID s = sid \<and> G s) f (staging_files d)\<rparr>"
  using assms
  by (auto simp: guarded_staging_def sql_affected_key find_staging_def split: option.splits if_splits)

lemma guarded_staging_find:
  assumes "guarded_staging sid G f d = Inr ((), d')" and "\<And>s. stg_StagingID (f s) = stg_StagingID s"
  shows "find_staging i d' =
    map_option (\<lambda>s. if stg_StagingID s = sid \<and> G s then f s else s) (find_staging i d)"
proof -
  have loc: "key_preserving stg_StagingID f" using assms(2) by unfold_locales
  from assms(1) show ?thesis
    by (auto simp: guarded_staging_def find_staging_def key_preserving.find_update [OF loc] split: if_splits)
qed

lemma staging_update_db_ok:
  assumes "\<And>s. stg_StagingID (f s) = stg_StagingID s" and "db_ok d"
  shows "db_ok (d\<lparr>staging_files := sql_update P f (staging_files d)\<rparr>)"
proof -
  have ids: "map stg_StagingID (sql_update P f (staging_files d)) = map stg_StagingID (staging_files d)"
    by (simp add: sql_update_def assms(1))
  then have "stg_StagingID ` set (sql_update P f (staging_files d)) = stg_StagingID ` set (staging_files d)"
    by (metis set_map)
  with ids assms(2) show ?thesis by (simp add: db_ok_def)
qed

lemma guarded_staging_db_ok [inv_intros]:
  assumes "guarded_staging sid G f d = Inr (u, d')" and "\<And>s. stg_StagingID (f s) = stg_StagingID s"
    and "db_ok d"
  shows "db_ok d'"
  using assms(1) staging_update_db_ok [OF assms(2,3)]
  by (auto simp: guarded_staging_def split: if_splits)

lemma InsertStaging_db_ok [inv_intros]:
  assumes "InsertStaging s d = Inr (u, d')" and "db_ok d"
  shows "db_ok d'"
proof -
  from assms(1) obtain t where t: "sql_insert stg_StagingID s (staging_files d) = Some t"
    and d': "d' = d\<lparr>staging_files := t\<rparr>"
    by (auto simp: InsertStaging_def split: option.splits)
  from t have "t = staging_files d @ [s]" by (auto simp: sql_insert_def split: if_splits)
  moreover from t assms(2) have "keyed stg_StagingID t"
    by (auto simp: db_ok_def intro: sql_insert_keyed)
  ultimately show ?thesis using assms(2) unfolding db_ok_def d' by auto
qed

lemma InsertRef_db_ok [inv_intros]:
  assumes "InsertRef r d = Inr (u, d')" and "db_ok d"
  shows "db_ok d'"
proof -
  from assms(1) obtain t where t: "sql_insert ref_role_key r (staging_refs d) = Some t"
    and d': "d' = d\<lparr>staging_refs := t\<rparr>"
    and fk: "find_mission (ref_MissionID r) d \<noteq> None" "find_staging (ref_StagingID r) d \<noteq> None"
    by (auto simp: InsertRef_def split: option.splits if_splits)
  from t have t_eq: "t = staging_refs d @ [r]" by (auto simp: sql_insert_def split: if_splits)
  from t assms(2) have "keyed ref_role_key t" by (auto simp: db_ok_def intro: sql_insert_keyed)
  with assms(2) fk show ?thesis
    unfolding db_ok_def d' t_eq by (auto simp: find_defs sql_find_None_iff)
qed

lemma DeleteStagingWhere_db_ok [inv_intros]:
  assumes "DeleteStagingWhere P d = Inr (u, d')" and "db_ok d"
  shows "db_ok d'"
proof -
  let ?t = "sql_delete P (staging_files d)"
  from assms(1) have d': "d' = d\<lparr>staging_files := ?t\<rparr>"
    and free: "\<forall>s \<in> set (staging_files d). P s \<longrightarrow> stg_StagingID s \<notin> ref_StagingID ` set (staging_refs d)"
    by (auto simp: DeleteStagingWhere_def split: if_splits)
  have "ref_StagingID ` set (staging_refs d) \<subseteq> stg_StagingID ` set ?t"
  proof
    fix x
    assume x: "x \<in> ref_StagingID ` set (staging_refs d)"
    with db_ok_fk(3) [OF assms(2)] obtain s where "s \<in> set (staging_files d)" "x = stg_StagingID s"
      by blast
    with x free show "x \<in> stg_StagingID ` set ?t" by (auto simp: sql_delete_def)
  qed
  moreover from assms(2) have "keyed stg_StagingID ?t" by (simp add: db_ok_def sql_delete_keyed)
  ultimately show ?thesis using assms(2) unfolding d' by (simp add: db_ok_def)
qed

lemma set_expires_db_ok [inv_intros]: "db_ok d \<Longrightarrow> db_ok (set_expires sid e d)"
  unfolding set_expires_def by (rule staging_update_db_ok) auto

section \<open>The expiry formula\<close>

text \<open>What a finished mission contributes to the expiry of a row it refers to.\<close>

definition expiry_of :: "ttl_policy \<Rightarrow> mission \<Rightarrow> int option" where
  "expiry_of p m =
     (if active m then None
      else map_option (\<lambda>fin. wrap64 (fin + milliseconds (ttl_for p m))) (msn_TimeFinishedMs m))"

definition orphan_expires :: "ttl_policy \<Rightarrow> staging_file \<Rightarrow> int" where
  "orphan_expires p st =
     (let base = wrap64 (stg_TimeCreatedMs st + milliseconds (ttl_StagingTTL p))
      in case stg_DownloadedAt st of
           None \<Rightarrow> base
         | Some dl \<Rightarrow> min base (wrap64 (dl + milliseconds (ttl_DownloadGrace p))))"

lemma recalc_fold:
  "foldl (recalc_step p) (x, h, i) ms =
     (fold max (List.map_filter (expiry_of p) ms) x, h \<or> ms \<noteq> [], i \<or> (\<exists>m \<in> set ms. active m))"
proof (induction ms arbitrary: x h i)
  case Nil
  then show ?case by (simp add: map_filter_simps)
next
  case (Cons m ms)
  have step: "recalc_step p (x, h, i) m =
      ((case expiry_of p m of None \<Rightarrow> x | Some e \<Rightarrow> max e x), True, i \<or> active m)"
    by (auto simp: recalc_step_def expiry_of_def Let_def max_def split: option.splits)
  show ?case
    by (simp add: step Cons map_filter_simps max.commute split: option.split)
qed

lemma fold_max_Max: "fold max xs (x::int) = Max (insert x (set xs))"
  using Max.set_eq_fold [of x xs] by simp

lemma compute_expires_spec:
  "compute_expires p ms st =
     (if \<exists>m \<in> set ms. active m then maxInt64
      else if ms \<noteq> [] then Max (insert (- 1) {e. \<exists>m \<in> set ms. expiry_of p m = Some e})
      else orphan_expires p st)"
proof -
  have "set (List.map_filter (expiry_of p) ms) = {e. \<exists>m \<in> set ms. expiry_of p m = Some e}"
    by (induction ms) (auto simp: map_filter_simps split: option.splits)
  then show ?thesis
    by (simp add: compute_expires_def recalc_fold fold_max_Max orphan_expires_def Let_def min_def
        split: option.split)
qed

lemma ref_missions_iff:
  "m \<in> set (ref_missions sid d) \<longleftrightarrow>
     m \<in> set (missions d) \<and>
     (\<exists>r \<in> set (staging_refs d). ref_StagingID r = sid \<and> ref_MissionID r = msn_ID m)"
  by (auto simp: ref_missions_def)

lemma ref_missions_empty_iff:
  assumes "db_ok d"
  shows "ref_missions sid d = [] \<longleftrightarrow> sid \<notin> ref_StagingID ` set (staging_refs d)"
proof
  assume "sid \<notin> ref_StagingID ` set (staging_refs d)"
  then have "filter (\<lambda>r. ref_StagingID r = sid) (staging_refs d) = []"
    by (auto simp: filter_empty_conv)
  then show "ref_missions sid d = []" by (simp add: ref_missions_def)
next
  assume empty: "ref_missions sid d = []"
  show "sid \<notin> ref_StagingID ` set (staging_refs d)"
  proof
    assume "sid \<in> ref_StagingID ` set (staging_refs d)"
    then obtain r where r: "r \<in> set (staging_refs d)" "ref_StagingID r = sid" by auto
    with assms obtain m where "m \<in> set (missions d)" "msn_ID m = ref_MissionID r"
      by (auto simp: db_ok_def)
    with r have "m \<in> set (ref_missions sid d)" by (auto simp: ref_missions_iff)
    with empty show False by simp
  qed
qed

lemma set_expires_find:
  "find_staging i (set_expires sid e d) =
     map_option (\<lambda>s. if stg_StagingID s = sid \<and> stg_State s \<in> {StagingUploading, StagingComplete}
                     then s\<lparr>stg_TimeExpiresMs := e\<rparr> else s) (find_staging i d)"
proof -
  have loc: "key_preserving stg_StagingID (\<lambda>s. s\<lparr>stg_TimeExpiresMs := e\<rparr>)" by unfold_locales simp
  show ?thesis
    by (simp add: set_expires_def find_staging_def key_preserving.find_update [OF loc])
qed

lemma find_staging_id: "find_staging sid d = Some s \<Longrightarrow> stg_StagingID s = sid"
  by (auto simp: find_staging_def dest: sql_find_Some_in)

lemma RecalcStagingTTL_db_ok [inv_intros]:
  "RecalcStagingTTL sid p d = Inr (e, d') \<Longrightarrow> db_ok d \<Longrightarrow> db_ok d'"
  by (auto simp: RecalcStagingTTL_def Let_def split: sum.splits intro: set_expires_db_ok)

text \<open>After a recalculation a live row carries the computed expiry.\<close>

lemma RecalcStagingTTL_stored:
  assumes "RecalcStagingTTL sid p d = Inr (e, d')" and "find_staging sid d = Some s"
    and "stg_State s \<in> {StagingUploading, StagingComplete}"
  shows "find_staging sid d' = Some (s\<lparr>stg_TimeExpiresMs := e\<rparr>)"
  using assms find_staging_id [OF assms(2)]
  by (auto simp: RecalcStagingTTL_def GetStaging_def Let_def set_expires_find)

text \<open>The collector's guarded flip touches only a live row whose expiry has passed.\<close>

lemma MarkStagingDeletingIfExpired_keeps:
  assumes "db_ok d" and "MarkStagingDeletingIfExpired sid now d = Inr ((), d')"
    and "find_staging sid d = Some s" and "now < stg_TimeExpiresMs s \<or> stg_TimeExpiresMs s \<le> 0"
  shows "d' = d"
proof -
  have "guarded_staging sid (\<lambda>s. stg_State s \<in> {StagingUploading, StagingComplete} \<and>
      0 < stg_TimeExpiresMs s \<and> stg_TimeExpiresMs s \<le> now) (\<lambda>s. s\<lparr>stg_State := StagingDeleting\<rparr>) d
      = Inl ErrNotFound"
    using assms db_ok_keyed(3) [OF assms(1)]
    by (auto simp: guarded_staging_def sql_affected_key find_staging_def)
  with assms(2,3) show ?thesis
    by (auto simp: MarkStagingDeletingIfExpired_def GetStaging_def split: if_splits)
qed

end
