(* ===== verification/Outcome.thy ===== *)
theory Outcome
  imports Staging
begin

text \<open>
  Outcome classification (\<^verbatim>\<open>internal/mission/outcome.go\<close>), the size caps on what is persisted
  and the payload of the terminal event (\<^verbatim>\<open>capOutcome\<close>, \<^verbatim>\<open>buildDoneFields\<close> of
  \<^verbatim>\<open>finalize.go\<close>, \<^verbatim>\<open>clip.go\<close>).  Strings are byte lists, signals are their Linux numbers.
  \<^verbatim>\<open>%q\<close> on a lane name is the name between quotes: a valid lane name has no character that
  needs escaping.
\<close>

section \<open>Rendering numbers and durations\<close>

fun nat_str :: "nat \<Rightarrow> string" where
  "nat_str n = (if n < 10 then [char_of (48 + n)] else nat_str (n div 10) @ [char_of (48 + n mod 10)])"

declare nat_str.simps [simp del]

definition itoa :: "int \<Rightarrow> string" where
  "itoa i = (if i < 0 then CHR ''-'' # nat_str (nat (- i)) else nat_str (nat i))"

definition quoted :: "string \<Rightarrow> string" where
  "quoted s = [CHR 0x22] @ s @ [CHR 0x22]"

text \<open>The fraction digits of \<^verbatim>\<open>Duration.String\<close>: zero-padded, trailing zeros dropped.\<close>

definition pad_digits :: "nat \<Rightarrow> nat \<Rightarrow> string" where
  "pad_digits w n = replicate (w - length (nat_str n)) (CHR ''0'') @ nat_str n"

definition fmt_frac :: "nat \<Rightarrow> nat \<Rightarrow> string" where
  "fmt_frac v w =
     (let ds = rev (dropWhile (\<lambda>c. c = CHR ''0'') (rev (pad_digits w (v mod 10 ^ w))))
      in if ds = [] then [] else CHR ''.'' # ds)"

definition duration_string :: "int \<Rightarrow> string" where
  "duration_string d =
     (let u = nat \<bar>d\<bar>;
          body =
            (if u = 0 then ''0s''
             else if u < 1000 then nat_str u @ ''ns''
             else if u < 10 ^ 6 then nat_str (u div 10 ^ 3) @ fmt_frac u 3 @ [CHR 0xC2, CHR 0xB5] @ ''s''
             else if u < 10 ^ 9 then nat_str (u div 10 ^ 6) @ fmt_frac u 6 @ ''ms''
             else let s = u div 10 ^ 9; m = s div 60; h = m div 60
                  in (if 0 < h then nat_str h @ ''h'' else []) @
                     (if 0 < m then nat_str (m mod 60) @ ''m'' else []) @
                     nat_str (s mod 60) @ fmt_frac u 9 @ ''s'')
      in if d < 0 then CHR ''-'' # body else body)"

definition has_suffix :: "string \<Rightarrow> string \<Rightarrow> bool" where
  "has_suffix s suf \<longleftrightarrow> length suf \<le> length s \<and> drop (length s - length suf) s = suf"

definition trim_suffix :: "nat \<Rightarrow> string \<Rightarrow> string" where
  "trim_suffix n s = take (length s - n) s"

definition formatTimeoutMs :: "int \<Rightarrow> string" where
  "formatTimeoutMs ms =
     (let s = duration_string (wrap64 (ms * 1000000));
          s1 = (if has_suffix s ''m0s'' then trim_suffix 2 s else s)
      in if has_suffix s1 ''h0m'' then trim_suffix 2 s1 else s1)"

section \<open>Signals and kill reasons\<close>

definition sigName :: "int \<Rightarrow> string" where
  "sigName sig =
     (if sig = 9 then ''KILL'' else if sig = 15 then ''TERM'' else if sig = 2 then ''INT''
      else if sig = 3 then ''QUIT'' else if sig = 1 then ''HUP'' else if sig = 11 then ''SEGV''
      else if sig = 7 then ''BUS'' else if sig = 4 then ''ILL'' else if sig = 8 then ''FPE''
      else if sig = 5 then ''TRAP'' else if sig = 6 then ''ABRT'' else if sig = 13 then ''PIPE''
      else itoa sig)"

text \<open>\<^verbatim>\<open>ExternalKillReason\<close> is a string; \<open>KillOther\<close> is any value that is none of the constants.\<close>

datatype ExternalKillReason =
    KillNone | KillTimeout | KillForceDelete | KillLaneRemoved | KillDugdaleShutdown | KillByAPI
  | KillOther string

definition kill_reason_of :: "string \<Rightarrow> ExternalKillReason" where
  "kill_reason_of s =
     (if s = [] then KillNone else if s = ''timeout'' then KillTimeout
      else if s = ''force_delete'' then KillForceDelete else if s = ''lane_removed'' then KillLaneRemoved
      else if s = ''dugdale_shutdown'' then KillDugdaleShutdown
      else if s = ''killed_by_api'' then KillByAPI else KillOther s)"

definition killFailure :: "ExternalKillReason \<Rightarrow> int \<Rightarrow> string \<Rightarrow> string \<times> raw_message option" where
  "killFailure r timeoutMs lane =
     (case r of
        KillTimeout \<Rightarrow>
          if timeoutMs \<le> 0 then (''mission exceeded its timeout and was killed'', None)
          else (''mission exceeded its timeout of '' @ formatTimeoutMs timeoutMs @ '' and was killed'',
                Some \<lparr>raw_value = JObj [(''timeout_ms'', JInt timeoutMs)],
                      raw_len = 15 + length (itoa timeoutMs)\<rparr>)
      | KillForceDelete \<Rightarrow> (''killed because the mission was force-deleted'', None)
      | KillLaneRemoved \<Rightarrow>
          if lane = [] then (''killed because its lane was removed from the config'', None)
          else (''killed because lane '' @ quoted lane @ '' was removed from the config'', None)
      | KillDugdaleShutdown \<Rightarrow> (''killed because dugdale was shutting down'', None)
      | KillByAPI \<Rightarrow> (''killed via the kill API'', None)
      | _ \<Rightarrow> ([], None))"

definition describeExit :: "int \<Rightarrow> string \<Rightarrow> string" where
  "describeExit exitCode signal =
     (if signal \<noteq> [] then ''was terminated by signal '' @ signal
      else ''exited with code '' @ itoa exitCode)"

definition signalToFailReason :: "string \<Rightarrow> string" where
  "signalToFailReason sig =
     (if sig = ''SEGV'' \<or> sig = ''segmentation fault'' then ''segfault''
      else if sig = ''BUS'' \<or> sig = ''bus error'' then ''sigbus''
      else if sig = ''ILL'' \<or> sig = ''illegal instruction'' then ''sigill''
      else if sig = ''FPE'' \<or> sig = ''floating point exception'' then ''sigfpe''
      else if sig = ''TRAP'' \<or> sig = ''trace/breakpoint trap'' then ''sigtrap''
      else if sig = ''ABRT'' \<or> sig = ''aborted'' then ''sigabrt''
      else ''signal_'' @ sig)"

section \<open>The priority table\<close>

record Fd3Violation =
  vio_Reason :: string
  vio_Message :: string
  vio_Details :: "raw_message option"

record Fd3Final =
  fin_Kind :: string
  fin_Return :: "raw_message option"
  fin_Message :: string
  fin_Reason :: string
  fin_Details :: "raw_message option"
  fin_ExitHint :: int

record OutcomeInputs =
  oi_ExternalKill :: ExternalKillReason
  oi_TimeoutMs :: int
  oi_Lane :: string
  oi_OOMDetected :: bool
  oi_OOMLine :: string
  oi_ExitCode :: int
  oi_Signal :: string
  oi_Fd3Final :: "Fd3Final option"
  oi_Fd3Violations :: "Fd3Violation list"

record OutcomeResult =
  or_Outcome :: string
  or_FailReason :: string
  or_FailMessage :: string
  or_FailDetails :: "raw_message option"
  or_ExitCode :: int
  or_Signal :: string
  or_Return :: "raw_message option"
  or_DropReturn :: bool

definition outcome_zero :: OutcomeResult where
  "outcome_zero = \<lparr>or_Outcome = [], or_FailReason = [], or_FailMessage = [], or_FailDetails = None,
     or_ExitCode = 0, or_Signal = [], or_Return = None, or_DropReturn = False\<rparr>"

definition fatal_reasons :: "string list" where
  "fatal_reasons = [''event_line_too_large'', ''event_protocol_error'', ''duplicate_final_event'',
     ''too_many_output_files'']"

text \<open>Row 1: the daemon killed the process itself.\<close>

definition compute_kill :: "OutcomeInputs \<Rightarrow> OutcomeResult option" where
  "compute_kill i =
     (let (killMsg, killDetails) = killFailure (oi_ExternalKill i) (oi_TimeoutMs i) (oi_Lane i);
          killed = (\<lambda>reason. Some (outcome_zero\<lparr>or_Outcome := ''killed'', or_FailReason := reason,
             or_FailMessage := killMsg, or_ExitCode := oi_ExitCode i, or_Signal := oi_Signal i\<rparr>))
      in case oi_ExternalKill i of
           KillTimeout \<Rightarrow> Some (outcome_zero\<lparr>or_Outcome := ''timeout'', or_FailMessage := killMsg,
             or_FailDetails := killDetails, or_ExitCode := oi_ExitCode i, or_Signal := oi_Signal i\<rparr>)
         | KillForceDelete \<Rightarrow> killed ''force_delete''
         | KillLaneRemoved \<Rightarrow> killed ''lane_removed''
         | KillDugdaleShutdown \<Rightarrow> killed ''dugdale_shutdown''
         | KillByAPI \<Rightarrow> killed ''killed_by_api''
         | _ \<Rightarrow> None)"

text \<open>Rows 2 and 3: memory exhaustion, foreign SIGKILL, another signal without a final event.\<close>

definition compute_signal :: "OutcomeInputs \<Rightarrow> OutcomeResult option" where
  "compute_signal i =
     (let base = outcome_zero\<lparr>or_ExitCode := oi_ExitCode i, or_Signal := oi_Signal i\<rparr>
      in if oi_OOMDetected i then
           Some (base\<lparr>or_Outcome := ''oom'', or_FailReason := ''php_memory_limit'',
             or_FailMessage := (if oi_OOMLine i = []
               then ''PHP memory limit exhausted (detected in stderr)'' else oi_OOMLine i)\<rparr>)
         else if oi_Signal i = ''KILL'' \<or> oi_Signal i = ''killed'' then
           Some (base\<lparr>or_Outcome := ''killed'', or_FailReason := ''unknown_sigkill'', or_FailMessage :=
             ''process received SIGKILL not sent by dugdale (kernel OOM killer or an external kill)''\<rparr>)
         else if oi_Signal i \<noteq> [] \<and> oi_Fd3Final i = None then
           Some (base\<lparr>or_Outcome := ''failed'', or_FailReason := signalToFailReason (oi_Signal i),
             or_FailMessage := ''process terminated by signal '' @ oi_Signal i @ '' without a final event''\<rparr>)
         else None)"

text \<open>Row 4: the first fatal protocol violation.\<close>

definition compute_violation :: "OutcomeInputs \<Rightarrow> OutcomeResult option" where
  "compute_violation i =
     map_option (\<lambda>v. outcome_zero\<lparr>or_Outcome := ''failed'', or_FailReason := vio_Reason v,
        or_FailMessage := vio_Message v, or_FailDetails := vio_Details v, or_ExitCode := oi_ExitCode i,
        or_Signal := oi_Signal i, or_DropReturn := True\<rparr>)
       (List.find (\<lambda>v. vio_Reason v \<in> set fatal_reasons) (oi_Fd3Violations i))"

text \<open>Row 5: the final event and the exit code.\<close>

definition compute_final :: "OutcomeInputs \<Rightarrow> OutcomeResult option" where
  "compute_final i =
     (case oi_Fd3Final i of
        None \<Rightarrow> None
      | Some f \<Rightarrow>
          if fin_Kind f = ''success'' then
            Some (if oi_ExitCode i = 0
                  then outcome_zero\<lparr>or_Outcome := ''success'', or_Return := fin_Return f\<rparr>
                  else outcome_zero\<lparr>or_Outcome := ''failed'', or_FailReason := ''success_then_failed_exit'',
                    or_FailMessage := ''mission emitted success but '' @
                      describeExit (oi_ExitCode i) (oi_Signal i) @ ''; return discarded'',
                    or_ExitCode := oi_ExitCode i, or_Signal := oi_Signal i, or_DropReturn := True\<rparr>)
          else if fin_Kind f = ''fail'' then
            Some (if oi_ExitCode i = 0
                  then outcome_zero\<lparr>or_Outcome := ''failed'', or_FailReason := ''fail_then_zero_exit'',
                    or_FailMessage := (if fin_Message f = []
                      then ''mission emitted fail but exited with code 0'' else fin_Message f),
                    or_FailDetails := fin_Details f\<rparr>
                  else outcome_zero\<lparr>or_Outcome := ''failed'',
                    or_FailReason := (if fin_Reason f = [] then ''explicit'' else fin_Reason f),
                    or_FailMessage := fin_Message f, or_FailDetails := fin_Details f,
                    or_ExitCode := oi_ExitCode i, or_Signal := oi_Signal i\<rparr>)
          else None)"

text \<open>Row 6: no final event.\<close>

definition compute_implicit :: "OutcomeInputs \<Rightarrow> OutcomeResult" where
  "compute_implicit i =
     (if oi_ExitCode i = 0 then outcome_zero\<lparr>or_Outcome := ''success''\<rparr>
      else outcome_zero\<lparr>or_Outcome := ''failed'', or_FailReason := ''no_event_nonzero_exit'',
        or_FailMessage := ''process exited with code '' @ itoa (oi_ExitCode i) @
          '' without a success/fail event; see stderr'',
        or_ExitCode := oi_ExitCode i, or_Signal := oi_Signal i\<rparr>)"

definition Compute :: "OutcomeInputs \<Rightarrow> OutcomeResult" where
  "Compute i =
     (case compute_kill i of Some r \<Rightarrow> r | None \<Rightarrow>
      case compute_signal i of Some r \<Rightarrow> r | None \<Rightarrow>
      case compute_violation i of Some r \<Rightarrow> r | None \<Rightarrow>
      case compute_final i of Some r \<Rightarrow> r | None \<Rightarrow> compute_implicit i)"

section \<open>Size caps\<close>

text \<open>
  \<^verbatim>\<open>utf8.RuneStart\<close>: not a continuation byte.  The loop looks at the positions from \<open>n\<close>
  down to \<open>n - 3\<close>.
\<close>

definition RuneStart :: "char \<Rightarrow> bool" where
  "RuneStart c \<longleftrightarrow> (of_char c :: nat) div 64 \<noteq> 2"

definition clipUTF8 :: "string \<Rightarrow> int \<Rightarrow> string" where
  "clipUTF8 s n =
     (if n \<le> 0 then []
      else if int (length s) \<le> n then s
      else case List.find (\<lambda>i. RuneStart (s ! i))
                  (filter (\<lambda>i. nat n < i + 4) (rev [0..<Suc (nat n)])) of
             Some i \<Rightarrow> take i s
           | None \<Rightarrow> take (nat n) s)"

record FinalizeConfig =
  fc_DataDir :: string
  fc_MaxReturnValue :: int
  fc_MaxFailMessage :: int
  fc_MaxFailDetails :: int
  fc_TTL :: ttl_policy

definition truncated_suffix :: string where
  "truncated_suffix = [CHR 0xE2, CHR 0x80, CHR 0xA6] @ ''[truncated]''"

definition rlen :: "raw_message option \<Rightarrow> nat" where
  "rlen r = (case r of None \<Rightarrow> 0 | Some m \<Rightarrow> raw_len m)"

definition cap_return :: "FinalizeConfig \<Rightarrow> OutcomeResult \<Rightarrow> OutcomeResult" where
  "cap_return cfg out =
     (let n = int (rlen (or_Return out)) in
      if 0 < fc_MaxReturnValue cfg \<and> fc_MaxReturnValue cfg < n then
        out\<lparr>or_Outcome := ''failed'', or_FailReason := ''return_too_large'',
          or_FailMessage := ''success return value is '' @ itoa n @
            '' bytes, exceeds max_return_value_size ('' @ itoa (fc_MaxReturnValue cfg) @
            '' bytes); return less data or write it to an output file'',
          or_FailDetails := Some \<lparr>raw_value = JObj [(''return_bytes'', JInt n),
              (''max_return_value_size'', JInt (fc_MaxReturnValue cfg))],
            raw_len = 42 + length (itoa n) + length (itoa (fc_MaxReturnValue cfg))\<rparr>,
          or_Return := None, or_DropReturn := True\<rparr>
      else out)"

definition cap_message :: "FinalizeConfig \<Rightarrow> OutcomeResult \<Rightarrow> OutcomeResult" where
  "cap_message cfg out =
     (if 0 < fc_MaxFailMessage cfg \<and> fc_MaxFailMessage cfg < int (length (or_FailMessage out)) then
        (if int (length truncated_suffix) \<le> fc_MaxFailMessage cfg
         then out\<lparr>or_FailMessage := clipUTF8 (or_FailMessage out)
                (fc_MaxFailMessage cfg - int (length truncated_suffix)) @ truncated_suffix\<rparr>
         else out\<lparr>or_FailMessage := clipUTF8 (or_FailMessage out) (fc_MaxFailMessage cfg)\<rparr>)
      else out)"

definition details_marker :: "nat \<Rightarrow> raw_message" where
  "details_marker n = \<lparr>raw_value = JObj [(''truncated'', JBool True),
      (''reason'', JStr ''fail_details_too_large''), (''original_bytes'', JInt (int n))],
     raw_len = 70 + length (itoa (int n))\<rparr>"

definition cap_details :: "FinalizeConfig \<Rightarrow> OutcomeResult \<Rightarrow> OutcomeResult" where
  "cap_details cfg out =
     (if 0 < fc_MaxFailDetails cfg \<and> fc_MaxFailDetails cfg < int (rlen (or_FailDetails out))
      then out\<lparr>or_FailDetails := Some (details_marker (rlen (or_FailDetails out)))\<rparr> else out)"

definition drop_return :: "OutcomeResult \<Rightarrow> OutcomeResult" where
  "drop_return out = (if or_DropReturn out then out\<lparr>or_Return := None\<rparr> else out)"

definition capOutcome :: "OutcomeResult \<Rightarrow> FinalizeConfig \<Rightarrow> OutcomeResult" where
  "capOutcome o0 cfg = cap_details cfg (cap_message cfg (drop_return (cap_return cfg o0)))"

section \<open>The payload of the terminal event\<close>

record CollectedOutput =
  co_Role :: string
  co_StagingID :: string
  co_TmpPath :: string
  co_FinalPath :: string
  co_Sha256 :: string
  co_Size :: int

definition summarizeOutputs :: "CollectedOutput list \<Rightarrow> fields" where
  "summarizeOutputs outs =
     foldl (\<lambda>m op. mput (co_Role op) (JObj [(''staging_id'', JStr (co_StagingID op)),
        (''sha256'', JStr (co_Sha256 op)), (''size'', JInt (co_Size op))]) m) [] outs"

definition put_if :: "bool \<Rightarrow> string \<Rightarrow> json \<Rightarrow> fields \<Rightarrow> fields" where
  "put_if b k v m = (if b then mput k v m else m)"

definition raw_or_null :: "raw_message option \<Rightarrow> json" where
  "raw_or_null r = (case r of None \<Rightarrow> JNull | Some m \<Rightarrow> raw_value m)"

definition buildDoneFields ::
  "OutcomeResult \<Rightarrow> CollectedOutput list \<Rightarrow> int \<Rightarrow> int \<Rightarrow> int \<Rightarrow> fields" where
  "buildDoneFields out outputs nowMs timeStartedMs progressDropped =
     put_if (0 < progressDropped) ''progress_dropped'' (JInt progressDropped)
    (put_if (outputs \<noteq> []) ''outputs'' (JObj (summarizeOutputs outputs))
    (put_if (0 < rlen (or_FailDetails out)) ''fail_details'' (raw_or_null (or_FailDetails out))
    (put_if (or_FailMessage out \<noteq> []) ''fail_message'' (JStr (or_FailMessage out))
    (put_if (or_FailReason out \<noteq> []) ''fail_reason'' (JStr (or_FailReason out))
    (put_if (\<not> or_DropReturn out \<and> 0 < rlen (or_Return out)) ''return'' (raw_or_null (or_Return out))
    (put_if (or_Signal out \<noteq> []) ''signal'' (JStr (or_Signal out))
    (put_if (0 < timeStartedMs) ''duration_ms'' (JInt (wrap64 (nowMs - timeStartedMs)))
      [(''time_finished'', JInt nowMs), (''outcome'', JStr (or_Outcome out)),
       (''exit_code'', JInt (or_ExitCode out))])))))))"

section \<open>Classification\<close>

lemmas compute_defs = compute_kill_def compute_signal_def compute_violation_def compute_final_def
  compute_implicit_def outcome_zero_def Let_def

definition daemon_kill :: "ExternalKillReason \<Rightarrow> bool" where
  "daemon_kill r = (case r of KillNone \<Rightarrow> False | KillOther _ \<Rightarrow> False | _ \<Rightarrow> True)"

lemma compute_kill_None: "compute_kill i = None \<longleftrightarrow> \<not> daemon_kill (oi_ExternalKill i)"
  by (simp add: compute_kill_def daemon_kill_def Let_def split: prod.split ExternalKillReason.split)

lemma compute_kill_result:
  assumes "compute_kill i = Some r"
  shows "or_Return r = None \<and> or_ExitCode r = oi_ExitCode i \<and> or_Signal r = oi_Signal i \<and>
    (or_Outcome r, or_FailReason r) \<in> {(''timeout'', []), (''killed'', ''force_delete''),
       (''killed'', ''lane_removed''), (''killed'', ''dugdale_shutdown''), (''killed'', ''killed_by_api'')} \<and>
    (or_Outcome r = ''timeout'' \<longleftrightarrow> oi_ExternalKill i = KillTimeout)"
  using assms
  by (auto simp: compute_kill_def outcome_zero_def Let_def split: prod.splits ExternalKillReason.splits)

lemma compute_signal_result:
  assumes "compute_signal i = Some r"
  shows "or_Return r = None \<and> or_Outcome r \<in> {''oom'', ''killed'', ''failed''} \<and> or_FailReason r \<noteq> []"
  using assms
  by (auto simp: compute_signal_def outcome_zero_def signalToFailReason_def Let_def split: if_splits)

lemma compute_signal_None:
  "compute_signal i = None \<longleftrightarrow> \<not> oi_OOMDetected i \<and> oi_Signal i \<noteq> ''KILL'' \<and> oi_Signal i \<noteq> ''killed'' \<and>
     (oi_Signal i = [] \<or> oi_Fd3Final i \<noteq> None)"
  by (auto simp: compute_signal_def Let_def)

lemma compute_violation_None:
  "compute_violation i = None \<longleftrightarrow> (\<forall>v \<in> set (oi_Fd3Violations i). vio_Reason v \<notin> set fatal_reasons)"
  by (auto simp: compute_violation_def find_None_iff)

lemma compute_violation_result:
  assumes "compute_violation i = Some r"
  shows "or_Return r = None \<and> or_Outcome r = ''failed'' \<and> or_FailReason r \<in> set fatal_reasons \<and> or_FailReason r \<noteq> []"
proof -
  from assms obtain v where "List.find (\<lambda>v. vio_Reason v \<in> set fatal_reasons) (oi_Fd3Violations i) = Some v"
    and r: "or_Return r = None" "or_Outcome r = ''failed''" "or_FailReason r = vio_Reason v"
    by (auto simp: compute_violation_def outcome_zero_def)
  then have "vio_Reason v \<in> set fatal_reasons" by (auto simp: find_Some_iff)
  with r show ?thesis by (auto simp: fatal_reasons_def)
qed

lemma compute_final_result:
  assumes "compute_final i = Some r"
  shows "or_Outcome r \<in> {''success'', ''failed''} \<and> (or_Return r \<noteq> None \<longrightarrow> or_Outcome r = ''success'') \<and>
    (or_FailReason r = [] \<longleftrightarrow> or_Outcome r = ''success'') \<and>
    (or_Outcome r = ''success'' \<longleftrightarrow>
       oi_ExitCode i = 0 \<and> (\<exists>f. oi_Fd3Final i = Some f \<and> fin_Kind f = ''success''))"
  using assms
  by (auto simp: compute_final_def outcome_zero_def split: option.splits if_splits)

lemma compute_implicit_result:
  "or_Outcome (compute_implicit i) \<in> {''success'', ''failed''} \<and> or_Return (compute_implicit i) = None \<and>
   (or_FailReason (compute_implicit i) = [] \<longleftrightarrow> or_Outcome (compute_implicit i) = ''success'') \<and>
   (or_Outcome (compute_implicit i) = ''success'' \<longleftrightarrow> oi_ExitCode i = 0)"
  by (simp add: compute_implicit_def outcome_zero_def)

lemma compute_final_None:
  "compute_final i = None \<longleftrightarrow>
     (\<forall>f. oi_Fd3Final i = Some f \<longrightarrow> fin_Kind f \<noteq> ''success'' \<and> fin_Kind f \<noteq> ''fail'')"
  by (auto simp: compute_final_def split: option.split)

text \<open>The row of the table that decides.\<close>

lemma Compute_cases:
  obtains (kill) r where "compute_kill i = Some r" "Compute i = r"
    | (signal) r where "compute_kill i = None" "compute_signal i = Some r" "Compute i = r"
    | (violation) r where "compute_kill i = None" "compute_signal i = None"
        "compute_violation i = Some r" "Compute i = r"
    | (final) r where "compute_kill i = None" "compute_signal i = None" "compute_violation i = None"
        "compute_final i = Some r" "Compute i = r"
    | (implicit) "compute_kill i = None" "compute_signal i = None" "compute_violation i = None"
        "compute_final i = None" "Compute i = compute_implicit i"
  by (cases "compute_kill i"; cases "compute_signal i"; cases "compute_violation i"; cases "compute_final i")
    (simp_all add: Compute_def)

lemma Compute_outcome:
  "or_Outcome (Compute i) \<in> {''success'', ''failed'', ''killed'', ''timeout'', ''oom''} \<and>
   (or_Return (Compute i) \<noteq> None \<longrightarrow> or_Outcome (Compute i) = ''success'') \<and>
   (or_FailReason (Compute i) = [] \<longleftrightarrow> or_Outcome (Compute i) \<in> {''success'', ''timeout''})"
proof (cases i rule: Compute_cases)
  case kill
  with compute_kill_result show ?thesis by fastforce
next
  case signal
  with compute_signal_result show ?thesis by fastforce
next
  case violation
  with compute_violation_result show ?thesis by fastforce
next
  case final
  with compute_final_result show ?thesis by fastforce
next
  case implicit
  with compute_implicit_result [of i] show ?thesis by fastforce
qed

lemma Compute_success_iff:
  "or_Outcome (Compute i) = ''success'' \<longleftrightarrow>
     \<not> daemon_kill (oi_ExternalKill i) \<and> \<not> oi_OOMDetected i \<and>
     oi_Signal i \<notin> {''KILL'', ''killed''} \<and> (oi_Signal i = [] \<or> oi_Fd3Final i \<noteq> None) \<and>
     (\<forall>v \<in> set (oi_Fd3Violations i). vio_Reason v \<notin> set fatal_reasons) \<and>
     oi_ExitCode i = 0 \<and> (\<forall>f. oi_Fd3Final i = Some f \<longrightarrow> fin_Kind f \<noteq> ''fail'')"
proof (cases i rule: Compute_cases)
  case (kill r)
  then have "daemon_kill (oi_ExternalKill i)" using compute_kill_None [of i] by simp
  with kill compute_kill_result [OF kill(1)] show ?thesis by auto
next
  case (signal r)
  then have "\<not> (\<not> oi_OOMDetected i \<and> oi_Signal i \<noteq> ''KILL'' \<and> oi_Signal i \<noteq> ''killed'' \<and>
     (oi_Signal i = [] \<or> oi_Fd3Final i \<noteq> None))"
    using compute_signal_None [of i] by simp
  with signal compute_signal_result [OF signal(2)] show ?thesis by auto
next
  case (violation r)
  then have "\<not> (\<forall>v \<in> set (oi_Fd3Violations i). vio_Reason v \<notin> set fatal_reasons)"
    using compute_violation_None [of i] by simp
  with violation compute_violation_result [OF violation(3)] show ?thesis by auto
next
  case (final r)
  from final(1-3) have "\<not> daemon_kill (oi_ExternalKill i) \<and> \<not> oi_OOMDetected i \<and>
     oi_Signal i \<notin> {''KILL'', ''killed''} \<and> (oi_Signal i = [] \<or> oi_Fd3Final i \<noteq> None) \<and>
     (\<forall>v \<in> set (oi_Fd3Violations i). vio_Reason v \<notin> set fatal_reasons)"
    by (simp add: compute_kill_None compute_signal_None compute_violation_None)
  moreover have "(\<exists>f. oi_Fd3Final i = Some f \<and> fin_Kind f = ''success'') \<longleftrightarrow>
      (\<forall>f. oi_Fd3Final i = Some f \<longrightarrow> fin_Kind f \<noteq> ''fail'')"
    using final(4) by (auto simp: compute_final_def split: option.splits if_splits)
  ultimately show ?thesis using compute_final_result [OF final(4)] final(5) by simp
next
  case implicit
  then show ?thesis
    using compute_implicit_result [of i]
    by (simp add: compute_kill_None compute_signal_None compute_violation_None compute_final_None)
qed

section \<open>Clipping\<close>

lemma clipUTF8_length: "int (length (clipUTF8 s n)) \<le> max 0 n"
proof (cases "n \<le> 0 \<or> int (length s) \<le> n")
  case False
  have le: "i \<le> nat n" if "List.find P (filter Q (rev [0..<Suc (nat n)])) = Some i" for P Q i
  proof -
    from that have "i \<in> set (filter Q (rev [0..<Suc (nat n)]))" by (metis find_Some_iff nth_mem)
    then show ?thesis by (simp only: set_filter set_rev set_upt) simp
  qed
  let ?f = "List.find (\<lambda>i. RuneStart (s ! i)) (filter (\<lambda>i. nat n < i + 4) (rev [0..<Suc (nat n)]))"
  show ?thesis
  proof (cases ?f)
    case (Some i)
    have "clipUTF8 s n = take i s" using False Some by (simp add: clipUTF8_def del: upt_Suc)
    moreover have "int (length (take i s)) \<le> n" using le [OF Some] False by (simp add: le_nat_iff)
    ultimately show ?thesis using False by simp
  qed (use False in \<open>auto simp: clipUTF8_def min_def simp del: upt_Suc\<close>)
qed (auto simp: clipUTF8_def)

text \<open>
  A well-formed string is a sequence of runes, each one start byte and at most three
  continuation bytes; every valid UTF-8 string is one.
\<close>

definition rune_ok :: "string \<Rightarrow> bool" where
  "rune_ok r \<longleftrightarrow> r \<noteq> [] \<and> length r \<le> 4 \<and> RuneStart (hd r) \<and> (\<forall>c \<in> set (tl r). \<not> RuneStart c)"

lemma find_rev_upt:
  assumes "p \<le> n" and "P p" and "\<And>i. p < i \<Longrightarrow> i \<le> n \<Longrightarrow> \<not> P i" and "Q p"
  shows "List.find P (filter Q (rev [0..<Suc n])) = Some p"
  using assms
proof (induction n)
  case (Suc n)
  show ?case
  proof (cases "p = Suc n")
    case False
    with Suc.prems have "\<not> P (Suc n)" "p \<le> n" by auto
    with Suc show ?thesis by simp
  qed (use Suc.prems in simp)
qed simp

lemma concat_split:
  assumes "\<forall>r \<in> set rs. r \<noteq> []" and "n < length (concat rs)"
  obtains k where "k < length rs" and "length (concat (take k rs)) \<le> n"
    and "n < length (concat (take k rs)) + length (rs ! k)"
  using assms
proof (induction rs arbitrary: n thesis)
  case (Cons r rs)
  show ?case
  proof (cases "n < length r")
    case True
    then show ?thesis by (intro Cons.prems(1) [of 0]) simp_all
  next
    case False
    with Cons.prems have "n - length r < length (concat rs)" by simp
    then obtain k where "k < length rs" "length (concat (take k rs)) \<le> n - length r"
      "n - length r < length (concat (take k rs)) + length (rs ! k)"
      using Cons.IH [of "n - length r"] Cons.prems(2) by auto
    with False show ?thesis by (intro Cons.prems(1) [of "Suc k"]) auto
  qed
qed simp

lemma clipUTF8_runes:
  assumes rs: "\<forall>r \<in> set rs. rune_ok r" and n: "0 < n" and long: "n < int (length (concat rs))"
  obtains k where "k < length rs" and "clipUTF8 (concat rs) n = concat (take k rs)"
    and "n < int (length (concat (take (Suc k) rs)))"
proof -
  from rs have "\<forall>r \<in> set rs. r \<noteq> []" by (simp add: rune_ok_def)
  moreover from n long have "nat n < length (concat rs)" by simp
  ultimately obtain k where k: "k < length rs" "length (concat (take k rs)) \<le> nat n"
    "nat n < length (concat (take k rs)) + length (rs ! k)" by (rule concat_split)
  define p where "p = length (concat (take k rs))"
  have cut: "concat rs = concat (take k rs) @ rs ! k @ concat (drop (Suc k) rs)"
    using k(1) by (metis append_take_drop_id concat.simps(2) concat_append Cons_nth_drop_Suc)
  have at_i: "concat rs ! i = rs ! k ! (i - p)" if "p \<le> i" "i \<le> nat n" for i
    using that k(3) unfolding cut nth_append p_def by simp arith
  have ok: "rune_ok (rs ! k)" using rs k(1) by simp
  then have ne: "rs ! k \<noteq> []" and four: "length (rs ! k) \<le> 4" by (simp_all add: rune_ok_def)
  have start: "RuneStart (concat rs ! p)"
    using at_i [of p] ok ne k(2) by (simp add: p_def rune_ok_def hd_conv_nth)
  have cont: "\<not> RuneStart (concat rs ! i)" if "p < i" "i \<le> nat n" for i
  proof -
    have "rs ! k ! (i - p) \<in> set (tl (rs ! k))"
      using that k(3) ne by (cases "rs ! k") (auto simp: p_def nth_Cons')
    with at_i [of i] that ok show ?thesis by (simp add: rune_ok_def)
  qed
  have "clipUTF8 (concat rs) n = take p (concat rs)"
    using find_rev_upt [of p "nat n" "\<lambda>i. RuneStart (concat rs ! i)" "\<lambda>i. nat n < i + 4"]
      start cont n long k(2,3) four by (simp add: clipUTF8_def p_def)
  also have "\<dots> = concat (take k rs)" by (subst cut) (simp add: p_def)
  finally show thesis
    using that k n by (simp add: take_Suc_conv_app_nth)
qed

section \<open>Caps\<close>

lemma capOutcome_bounds:
  shows "0 < fc_MaxReturnValue cfg \<Longrightarrow> int (rlen (or_Return (capOutcome o0 cfg))) \<le> fc_MaxReturnValue cfg"
    and "0 < fc_MaxFailMessage cfg \<Longrightarrow>
      int (length (or_FailMessage (capOutcome o0 cfg))) \<le> fc_MaxFailMessage cfg"
    and "0 < fc_MaxFailDetails cfg \<Longrightarrow>
      int (rlen (or_FailDetails (capOutcome o0 cfg))) \<le> fc_MaxFailDetails cfg \<or>
      (\<exists>n. fc_MaxFailDetails cfg < int n \<and> or_FailDetails (capOutcome o0 cfg) = Some (details_marker n))"
proof -
  show "int (rlen (or_Return (capOutcome o0 cfg))) \<le> fc_MaxReturnValue cfg" if "0 < fc_MaxReturnValue cfg"
    using that by (simp add: capOutcome_def cap_details_def cap_message_def drop_return_def
        cap_return_def Let_def rlen_def)
  show "int (length (or_FailMessage (capOutcome o0 cfg))) \<le> fc_MaxFailMessage cfg" if "0 < fc_MaxFailMessage cfg"
  proof -
    let ?m = "drop_return (cap_return cfg o0)"
    have "int (length (or_FailMessage (cap_message cfg ?m))) \<le> fc_MaxFailMessage cfg"
      using that clipUTF8_length [of "or_FailMessage ?m" "fc_MaxFailMessage cfg"]
        clipUTF8_length [of "or_FailMessage ?m" "fc_MaxFailMessage cfg - int (length truncated_suffix)"]
      by (auto simp: cap_message_def)
    then show ?thesis by (simp add: capOutcome_def cap_details_def)
  qed
  show "int (rlen (or_FailDetails (capOutcome o0 cfg))) \<le> fc_MaxFailDetails cfg \<or>
      (\<exists>n. fc_MaxFailDetails cfg < int n \<and> or_FailDetails (capOutcome o0 cfg) = Some (details_marker n))"
    if "0 < fc_MaxFailDetails cfg"
    using that by (auto simp: capOutcome_def cap_details_def)
qed

lemma capOutcome_outcome:
  "or_Outcome (capOutcome o0 cfg) =
     (if 0 < fc_MaxReturnValue cfg \<and> fc_MaxReturnValue cfg < int (rlen (or_Return o0)) then ''failed''
      else or_Outcome o0)"
proof -
  have "or_Outcome (cap_details cfg x) = or_Outcome x" "or_Outcome (cap_message cfg x) = or_Outcome x"
    "or_Outcome (drop_return x) = or_Outcome x" for x
    by (simp_all add: cap_details_def cap_message_def drop_return_def)
  then show ?thesis by (simp add: capOutcome_def cap_return_def Let_def)
qed

section \<open>The payload\<close>

lemma put_if_get: "mget (put_if b k v m) k' = (if b \<and> k' = k then Some v else mget m k')"
  by (simp add: put_if_def mget_def)

lemma buildDoneFields_get:
  "mget (buildDoneFields out outputs nowMs ts pd) ''time_finished'' = Some (JInt nowMs)"
  "mget (buildDoneFields out outputs nowMs ts pd) ''outcome'' = Some (JStr (or_Outcome out))"
  "mget (buildDoneFields out outputs nowMs ts pd) ''seq'' = None"
  "mget (buildDoneFields out outputs nowMs ts pd) ''event'' = None"
  by (simp_all add: buildDoneFields_def put_if_get) (simp_all add: mget_def)

lemma distinct_put_if [simp]: "distinct (map fst (put_if b k v m)) = distinct (map fst m)"
  by (simp add: put_if_def)

lemma put_if_wf: "json_wf (JObj m) \<Longrightarrow> (b \<Longrightarrow> json_wf v) \<Longrightarrow> json_wf (JObj (put_if b k v m))"
proof -
  have "list_all (\<lambda>(_, w). json_wf w) m \<Longrightarrow> json_wf v \<Longrightarrow> list_all (\<lambda>(_, w). json_wf w) (mput k v m)"
    by (induction k v m rule: mput.induct) auto
  then show "json_wf (JObj m) \<Longrightarrow> (b \<Longrightarrow> json_wf v) \<Longrightarrow> json_wf (JObj (put_if b k v m))"
    by (simp add: put_if_def)
qed

lemma put_if_plain: "plain_keys m \<Longrightarrow> map lower_char k = k \<Longrightarrow> plain_keys (put_if b k v m)"
  by (simp add: put_if_def plain_keys_mput)

lemma buildDoneFields_plain: "plain_keys (buildDoneFields out outputs nowMs ts pd)"
proof -
  have "plain_keys [(''time_finished'', JInt nowMs), (''outcome'', JStr (or_Outcome out)),
       (''exit_code'', JInt (or_ExitCode out))]"
    by (simp add: plain_keys_def lower_char_def Let_def)
  then show ?thesis
    unfolding buildDoneFields_def by (intro put_if_plain) (simp_all add: lower_char_def Let_def)
qed

end
