(* ===== verification/Jcs.thy ===== *)
theory Jcs
  imports Outcome
begin

text \<open>
  Canonical JSON (\<^verbatim>\<open>internal/jcs\<close>): UTF-8 decoding, the UTF-16 order of member names, string
  escapes and numbers, and the canonical text of a value.  The text does not depend on the order
  of members, and it determines the value up to that order.  Go's float formatting is a
  parameter, \<open>None\<close> for a value out of the range of float64.
\<close>

section \<open>UTF-8 and UTF-16\<close>

abbreviation byte :: "char \<Rightarrow> nat" where
  "byte c \<equiv> of_char c"

definition cont_byte :: "char \<Rightarrow> bool" where
  "cont_byte c \<longleftrightarrow> byte c div 64 = 2"

text \<open>
  \<^verbatim>\<open>utf8.DecodeRuneInString\<close>: the rune and its size, \<open>None\<close> where Go returns the error rune
  with size 1: a wrong byte, an overlong form, a surrogate or a value past U+10FFFF.
\<close>

fun decode2 :: "char \<Rightarrow> string \<Rightarrow> (nat \<times> nat) option" where
  "decode2 a (b # _) =
     (let r = byte a mod 32 * 64 + byte b mod 64
      in if cont_byte b \<and> 128 \<le> r then Some (r, 2) else None)"
| "decode2 a _ = None"

fun decode3 :: "char \<Rightarrow> string \<Rightarrow> (nat \<times> nat) option" where
  "decode3 a (b # c # _) =
     (let r = byte a mod 16 * 4096 + byte b mod 64 * 64 + byte c mod 64
      in if cont_byte b \<and> cont_byte c \<and> 2048 \<le> r \<and> (r < 55296 \<or> 57344 \<le> r) then Some (r, 3) else None)"
| "decode3 a _ = None"

fun decode4 :: "char \<Rightarrow> string \<Rightarrow> (nat \<times> nat) option" where
  "decode4 a (b # c # d # _) =
     (let r = byte a mod 8 * 262144 + byte b mod 64 * 4096 + byte c mod 64 * 64 + byte d mod 64
      in if cont_byte b \<and> cont_byte c \<and> cont_byte d \<and> 65536 \<le> r \<and> r \<le> 1114111 then Some (r, 4) else None)"
| "decode4 a _ = None"

fun decode_rune :: "string \<Rightarrow> (nat \<times> nat) option" where
  "decode_rune [] = None"
| "decode_rune (a # t) =
     (if byte a < 128 then Some (byte a, 1)
      else if byte a div 32 = 6 then decode2 a t
      else if byte a div 16 = 14 then decode3 a t
      else if byte a div 8 = 30 then decode4 a t
      else None)"

declare decode_rune.simps [simp del]

lemma decode2_Some:
  "decode2 a t = Some (r, n) \<longleftrightarrow>
     (\<exists>b u. t = b # u \<and> cont_byte b \<and> r = byte a mod 32 * 64 + byte b mod 64 \<and> 128 \<le> r \<and> n = 2)"
  by (cases "(a, t)" rule: decode2.cases) (auto simp: Let_def)

lemma decode3_Some:
  "decode3 a t = Some (r, n) \<longleftrightarrow>
     (\<exists>b c u. t = b # c # u \<and> cont_byte b \<and> cont_byte c \<and>
        r = byte a mod 16 * 4096 + byte b mod 64 * 64 + byte c mod 64 \<and>
        2048 \<le> r \<and> (r < 55296 \<or> 57344 \<le> r) \<and> n = 3)"
  by (cases "(a, t)" rule: decode3.cases) (auto simp: Let_def)

lemma decode4_Some:
  "decode4 a t = Some (r, n) \<longleftrightarrow>
     (\<exists>b c d u. t = b # c # d # u \<and> cont_byte b \<and> cont_byte c \<and> cont_byte d \<and>
        r = byte a mod 8 * 262144 + byte b mod 64 * 4096 + byte c mod 64 * 64 + byte d mod 64 \<and>
        65536 \<le> r \<and> r \<le> 1114111 \<and> n = 4)"
  by (cases "(a, t)" rule: decode4.cases) (auto simp: Let_def)

lemma decode_rune_Some:
  "decode_rune s = Some (r, n) \<longleftrightarrow>
     (\<exists>a t. s = a # t \<and>
        (byte a < 128 \<and> r = byte a \<and> n = 1 \<or>
         byte a div 32 = 6 \<and> decode2 a t = Some (r, n) \<or>
         byte a div 16 = 14 \<and> decode3 a t = Some (r, n) \<or>
         byte a div 8 = 30 \<and> decode4 a t = Some (r, n)))"
proof (cases s)
  case (Cons a t)
  have "byte a div 32 = 6 \<Longrightarrow> 128 \<le> byte a \<and> byte a div 16 \<noteq> 14 \<and> byte a div 8 \<noteq> 30"
    and "byte a div 16 = 14 \<Longrightarrow> 128 \<le> byte a \<and> byte a div 8 \<noteq> 30"
    and "byte a div 8 = 30 \<Longrightarrow> 128 \<le> byte a"
    by linarith+
  with Cons show ?thesis by (auto simp: decode_rune.simps)
qed (simp add: decode_rune.simps)

lemmas decode_Some = decode_rune_Some decode2_Some decode3_Some decode4_Some

text \<open>The runes of a string; \<open>None\<close> when it is not valid UTF-8.\<close>

function runes :: "string \<Rightarrow> nat list option" where
  "runes s =
     (if s = [] then Some []
      else case decode_rune s of
             None \<Rightarrow> None
           | Some (r, n) \<Rightarrow> map_option (\<lambda>rs. r # rs) (runes (drop n s)))"
  by pat_completeness auto

lemma decode_rune_size: "decode_rune s = Some (r, n) \<Longrightarrow> 0 < n \<and> n \<le> length s"
  by (auto simp: decode_Some)

termination runes
  by (relation "measure length") (auto dest!: decode_rune_size)

declare runes.simps [simp del]

definition ValidString :: "string \<Rightarrow> bool" where
  "ValidString s \<longleftrightarrow> runes s \<noteq> None"

definition utf16_units :: "nat \<Rightarrow> nat list" where
  "utf16_units r =
     (if r < 65536 then [r] else [55296 + (r - 65536) div 1024, 56320 + (r - 65536) mod 1024])"

text \<open>\<^verbatim>\<open>utf16.Encode([]rune(s))\<close>; an invalid byte converts to the rune U+FFFD.\<close>

function go_runes :: "string \<Rightarrow> nat list" where
  "go_runes s =
     (if s = [] then []
      else case decode_rune s of
             None \<Rightarrow> 65533 # go_runes (tl s)
           | Some (r, n) \<Rightarrow> r # go_runes (drop n s))"
  by pat_completeness auto
termination
  by (relation "measure length") (auto dest!: decode_rune_size simp: length_greater_0_conv)

declare go_runes.simps [simp del]

definition utf16 :: "string \<Rightarrow> nat list" where
  "utf16 s = concat (map utf16_units (go_runes s))"

fun less_units :: "nat list \<Rightarrow> nat list \<Rightarrow> bool" where
  "less_units [] ys = (ys \<noteq> [])"
| "less_units (x # xs) [] = False"
| "less_units (x # xs) (y # ys) = (if x \<noteq> y then x < y else less_units xs ys)"

definition lessUTF16 :: "string \<Rightarrow> string \<Rightarrow> bool" where
  "lessUTF16 a b = less_units (utf16 a) (utf16 b)"

section \<open>Strings and numbers\<close>

definition hex4 :: "nat \<Rightarrow> string" where
  "hex4 n = map (\<lambda>k. ''0123456789abcdef'' ! (n div 16 ^ k mod 16)) [3, 2, 1, 0]"

text \<open>\<^verbatim>\<open>buf.WriteRune\<close>: the UTF-8 encoding of a rune.\<close>

definition WriteRune :: "nat \<Rightarrow> string" where
  "WriteRune r =
     (if r < 128 then [char_of r]
      else if r < 2048 then [char_of (192 + r div 64), char_of (128 + r mod 64)]
      else if r < 65536
      then [char_of (224 + r div 4096), char_of (128 + r div 64 mod 64), char_of (128 + r mod 64)]
      else [char_of (240 + r div 262144), char_of (128 + r div 4096 mod 64),
            char_of (128 + r div 64 mod 64), char_of (128 + r mod 64)])"

definition short_escape :: "nat \<Rightarrow> char option" where
  "short_escape r =
     (if r = 92 then Some CHR 0x5C
      else if r = 34 then Some CHR 0x22
      else if r = 8 then Some CHR ''b''
      else if r = 12 then Some CHR ''f''
      else if r = 10 then Some CHR ''n''
      else if r = 13 then Some CHR ''r''
      else if r = 9 then Some CHR ''t''
      else None)"

definition esc_rune :: "nat \<Rightarrow> string" where
  "esc_rune r =
     (case short_escape r of
        Some c \<Rightarrow> [CHR 0x5C, c]
      | None \<Rightarrow> if r < 32 then CHR 0x5C # CHR ''u'' # hex4 r else WriteRune r)"

function escape :: "string \<Rightarrow> string" where
  "escape s =
     (if s = [] then []
      else case decode_rune s of
             None \<Rightarrow> []
           | Some (r, n) \<Rightarrow> esc_rune r @ escape (drop n s))"
  by pat_completeness auto
termination
  by (relation "measure length") (auto dest!: decode_rune_size)

declare escape.simps [simp del]

definition encodeString :: "string \<Rightarrow> string option" where
  "encodeString s = (if ValidString s then Some (CHR 0x22 # escape s @ [CHR 0x22]) else None)"

text \<open>
  What the source uses of \<^verbatim>\<open>strconv\<close>: \<open>ParseFloat64\<close> is the float64 nearest a decimal literal, a
  rational, \<open>None\<close> out of range; \<open>FormatFloat\<close> is the shortest text in the format \<open>f\<close> or \<open>g\<close>.
\<close>

record float_lib =
  ParseFloat64 :: "rat \<Rightarrow> rat option"
  FormatFloat :: "char \<Rightarrow> rat \<Rightarrow> string"

definition indexExp :: "string \<Rightarrow> nat option" where
  "indexExp s =
     (let p = takeWhile (\<lambda>c. c \<noteq> CHR ''e'' \<and> c \<noteq> CHR ''E'') s
      in if length p < length s then Some (length p) else None)"

text \<open>The first \<open>e\<close> that is followed by neither sign nor the end of the text gets a plus sign.\<close>

fun sign_exp :: "string \<Rightarrow> string" where
  "sign_exp (a # b # s) =
     (if a = CHR ''e'' \<and> b \<noteq> CHR ''+'' \<and> b \<noteq> CHR ''-'' then a # CHR ''+'' # b # s
      else a # sign_exp (b # s))"
| "sign_exp s = s"

fun strip_zeros :: "string \<Rightarrow> string" where
  "strip_zeros (a # b # s) = (if a = CHR ''0'' then strip_zeros (b # s) else a # b # s)"
| "strip_zeros s = s"

definition norm_exp :: "string \<Rightarrow> string" where
  "norm_exp s =
     (case indexExp s of
        None \<Rightarrow> s
      | Some i \<Rightarrow>
          (let mantissa = take i s; expPart = drop (i + 1) s;
               signed = (expPart \<noteq> [] \<and> (hd expPart = CHR ''+'' \<or> hd expPart = CHR ''-''))
           in mantissa @ ''e'' @ [if signed then hd expPart else CHR ''+''] @
              strip_zeros (if signed then tl expPart else expPart)))"

text \<open>The constant \<^verbatim>\<open>1e-6\<close> is a float64 in the source: the nearest one, \<open>4722366482869645 / 2^72\<close>.\<close>

definition fixed_point :: "rat \<Rightarrow> bool" where
  "fixed_point f \<longleftrightarrow> Fract 4722366482869645 (2 ^ 72) \<le> \<bar>f\<bar> \<and> \<bar>f\<bar> < 10 ^ 21"

definition encodeNumber :: "float_lib \<Rightarrow> rat \<Rightarrow> string" where
  "encodeNumber fl f =
     (if f = 0 then ''0''
      else if fixed_point f then FormatFloat fl CHR ''f'' f
      else norm_exp (sign_exp (FormatFloat fl CHR ''g'' f)))"

text \<open>An integer literal keeps its digits when it fits int64 or uint64; any other number is a float.\<close>

definition encodeFloatLit :: "float_lib \<Rightarrow> rat \<Rightarrow> string option" where
  "encodeFloatLit fl q = map_option (encodeNumber fl) (ParseFloat64 fl q)"

definition exact_int :: "int \<Rightarrow> bool" where
  "exact_int i \<longleftrightarrow> in_i64 i \<or> (0 \<le> i \<and> i < 2 ^ 64)"

definition encodeJSONNumber :: "float_lib \<Rightarrow> int \<Rightarrow> string option" where
  "encodeJSONNumber fl i =
     (if exact_int i then Some (itoa i) else encodeFloatLit fl (of_int i))"

section \<open>Values\<close>

fun intersperse_comma :: "string list \<Rightarrow> string" where
  "intersperse_comma [] = []"
| "intersperse_comma [x] = x"
| "intersperse_comma (x # xs) = x @ CHR '','' # intersperse_comma xs"

definition sort_members :: "(string \<times> 'v) list \<Rightarrow> (string \<times> 'v) list" where
  "sort_members m = sort_key (utf16 \<circ> fst) m"

definition enc_member :: "string \<Rightarrow> string option \<Rightarrow> string option" where
  "enc_member k r =
     (case encodeString k of None \<Rightarrow> None | Some t \<Rightarrow> map_option (\<lambda>u. t @ CHR '':'' # u) r)"

definition bracketed :: "char \<Rightarrow> char \<Rightarrow> string list \<Rightarrow> string" where
  "bracketed a z ts = a # intersperse_comma ts @ [z]"

text \<open>\<^verbatim>\<open>encode\<close> and \<^verbatim>\<open>Canonicalize\<close>; \<open>None\<close> is an error.\<close>

function encode :: "float_lib \<Rightarrow> json \<Rightarrow> string option" where
  "encode fl v =
     (case v of
        JNull \<Rightarrow> Some ''null''
      | JBool b \<Rightarrow> Some (if b then ''true'' else ''false'')
      | JInt i \<Rightarrow> encodeJSONNumber fl i
      | JFlt q \<Rightarrow> encodeFloatLit fl q
      | JStr s \<Rightarrow> encodeString s
      | JArr xs \<Rightarrow> map_option (bracketed CHR ''['' CHR '']'') (all_some (encode fl) xs)
      | JObj m \<Rightarrow> map_option (bracketed CHR ''{'' CHR ''}'')
          (all_some (\<lambda>(k, w). enc_member k (encode fl w)) (sort_members m)))"
  by pat_completeness auto
termination
  by (relation "measure (size \<circ> snd)")
    (auto simp: sort_members_def intro: size_json_elem size_json_member)

declare encode.simps [simp del]

lemma encode_simps [simp]:
  "encode fl JNull = Some ''null''"
  "encode fl (JBool b) = Some (if b then ''true'' else ''false'')"
  "encode fl (JInt i) = encodeJSONNumber fl i"
  "encode fl (JFlt q) = encodeFloatLit fl q"
  "encode fl (JStr s) = encodeString s"
  "encode fl (JArr xs) = map_option (bracketed CHR ''['' CHR '']'') (all_some (encode fl) xs)"
  "encode fl (JObj m) = map_option (bracketed CHR ''{'' CHR ''}'')
     (all_some (\<lambda>(k, w). enc_member k (encode fl w)) (sort_members m))"
  by (subst encode.simps; simp)+

section \<open>UTF-8 round trip\<close>

lemma byte_split: "byte a div p = q \<Longrightarrow> a = char_of (q * p + byte a mod p)"
  by (metis div_mult_mod_eq char_of_char)

lemma six_bits:
  fixes x y :: nat
  assumes "y < 64"
  shows "(x * 64 + y) div 64 = x" "(x * 64 + y) mod 64 = y"
  using assms by simp_all

lemma shift_12_18:
  fixes x y z u :: nat
  shows "x * 4096 + y * 64 + z = (x * 64 + y) * 64 + z"
    "x * 262144 + y * 4096 + z * 64 + u = ((x * 64 + y) * 64 + z) * 64 + u"
    "x div 4096 = x div 64 div 64" "x div 262144 = x div 64 div 64 div 64"
  by (simp_all add: algebra_simps flip: div_mult2_eq)

lemma WriteRune_2: "128 \<le> x * 64 + y \<Longrightarrow> x < 32 \<Longrightarrow> y < 64 \<Longrightarrow>
   WriteRune (x * 64 + y) = [char_of (192 + x), char_of (128 + y)]"
  by (simp add: WriteRune_def six_bits)

lemma WriteRune_3:
  assumes "2048 \<le> x * 4096 + y * 64 + z" "x < 16" "y < 64" "z < 64"
  shows "WriteRune (x * 4096 + y * 64 + z) = [char_of (224 + x), char_of (128 + y), char_of (128 + z)]"
proof -
  have gen: "2048 \<le> w * 64 + z \<Longrightarrow> w < 1024 \<Longrightarrow>
      WriteRune (w * 64 + z) = [char_of (224 + w div 64), char_of (128 + w mod 64), char_of (128 + z)]" for w
    using assms(4) by (simp add: WriteRune_def shift_12_18(3) six_bits)
  from gen [of "x * 64 + y"] assms show ?thesis
    unfolding shift_12_18(1) by (simp only: six_bits)
qed

lemma WriteRune_4:
  assumes "65536 \<le> x * 262144 + y * 4096 + z * 64 + u" "y < 64" "z < 64" "u < 64"
  shows "WriteRune (x * 262144 + y * 4096 + z * 64 + u) =
     [char_of (240 + x), char_of (128 + y), char_of (128 + z), char_of (128 + u)]"
proof -
  have gen: "65536 \<le> w * 64 + u \<Longrightarrow> WriteRune (w * 64 + u) =
      [char_of (240 + w div 64 div 64), char_of (128 + w div 64 mod 64), char_of (128 + w mod 64),
       char_of (128 + u)]" for w
    using assms(4) by (simp add: WriteRune_def shift_12_18(3,4) six_bits)
  from gen [of "(x * 64 + y) * 64 + z"] assms show ?thesis
    unfolding shift_12_18(2) by (simp only: six_bits)
qed

lemma cont_byte_split: "cont_byte b \<Longrightarrow> b = char_of (128 + byte b mod 64)"
  using byte_split [of b 64 2] by (simp add: cont_byte_def)

lemma WriteRune_decode:
  assumes "decode_rune s = Some (r, n)"
  shows "take n s = WriteRune r"
proof -
  from assms obtain a t where s: "s = a # t" and
    "byte a < 128 \<and> r = byte a \<and> n = 1 \<or> byte a div 32 = 6 \<and> decode2 a t = Some (r, n) \<or>
     byte a div 16 = 14 \<and> decode3 a t = Some (r, n) \<or> byte a div 8 = 30 \<and> decode4 a t = Some (r, n)"
    by (auto simp: decode_rune_Some)
  then consider (1) "byte a < 128" "r = byte a" "n = 1" | (2) "byte a div 32 = 6" "decode2 a t = Some (r, n)"
    | (3) "byte a div 16 = 14" "decode3 a t = Some (r, n)" | (4) "byte a div 8 = 30" "decode4 a t = Some (r, n)"
    by blast
  then show ?thesis
  proof cases
    case 1
    with s show ?thesis by (simp add: WriteRune_def)
  next
    case 2
    with s byte_split [OF 2(1)] show ?thesis
      by (auto simp: decode2_Some WriteRune_2 dest!: cont_byte_split)
  next
    case 3
    with s byte_split [OF 3(1)] show ?thesis
      by (auto simp: decode3_Some WriteRune_3 dest!: cont_byte_split)
  next
    case 4
    with s byte_split [OF 4(1)] show ?thesis
      by (auto simp: decode4_Some WriteRune_4 dest!: cont_byte_split)
  qed
qed

lemma decode_rune_prefix:
  "decode_rune s = Some (r, n) \<Longrightarrow> decode_rune (take n s @ t) = Some (r, n)"
  by (auto simp: decode_Some)

lemma rune3_less: "x * 4096 + y * 64 + z < (1114112::nat)" if "x < 16" "y < 64" "z < 64" for x y z
  using that by linarith

lemma decode_rune_range:
  "decode_rune s = Some (r, n) \<Longrightarrow> r < 1114112 \<and> \<not> (55296 \<le> r \<and> r < 57344)"
  by (auto simp: decode_Some rune3_less)
section \<open>Strings are determined by their texts\<close>

definition is_rune :: "nat \<Rightarrow> bool" where
  "is_rune r \<longleftrightarrow> (\<exists>n. decode_rune (WriteRune r) = Some (r, n))"

lemma is_rune_decode: "decode_rune s = Some (r, n) \<Longrightarrow> is_rune r"
  using decode_rune_prefix [of s r n "[]"] by (auto simp: is_rune_def WriteRune_decode)

lemma decode_WriteRune: "is_rune r \<Longrightarrow> \<exists>n. decode_rune (WriteRune r @ x) = Some (r, n) \<and> take n (WriteRune r @ x) = WriteRune r"
  unfolding is_rune_def by (metis WriteRune_decode decode_rune_prefix)

lemma runes_Some:
  "runes s = Some rs \<Longrightarrow> list_all is_rune rs \<and> s = concat (map WriteRune rs) \<and> go_runes s = rs \<and>
     escape s = concat (map esc_rune rs)"
proof (induction s arbitrary: rs rule: runes.induct)
  case (1 s)
  show ?case
  proof (cases "s = []")
    case True
    with 1 show ?thesis by (simp add: runes.simps go_runes.simps escape.simps)
  next
    case False
    with 1(2) obtain r n qs where d: "decode_rune s = Some (r, n)" and q: "runes (drop n s) = Some qs"
      and rs: "rs = r # qs" by (subst (asm) runes.simps) (auto split: option.splits)
    from 1(1) [OF False d _ q] have IH: "list_all is_rune qs" "drop n s = concat (map WriteRune qs)"
      "go_runes (drop n s) = qs" "escape (drop n s) = concat (map esc_rune qs)" by auto
    have "s = take n s @ drop n s" by simp
    with IH(2) WriteRune_decode [OF d] have "s = WriteRune r @ concat (map WriteRune qs)" by metis
    moreover have "go_runes s = r # qs" "escape s = esc_rune r @ concat (map esc_rune qs)"
      using False d IH by (simp_all add: go_runes.simps [of s] escape.simps [of s])
    ultimately show ?thesis using rs IH(1) is_rune_decode [OF d] by simp
  qed
qed

text \<open>A code whose words can be read off the front of a text; its concatenations determine the words.\<close>

locale prefix_code =
  fixes P :: "'a \<Rightarrow> bool"
    and f :: "'a \<Rightarrow> 'c list"
  assumes code: "P a \<Longrightarrow> P b \<Longrightarrow> f a @ x = f b @ y \<Longrightarrow> a = b \<and> x = y"
begin

lemma concat_inj:
  assumes ends: "\<And>a x. P a \<Longrightarrow> f a @ x \<noteq> e \<and> f a @ x \<noteq> e'"
  shows "list_all P as \<Longrightarrow> list_all P bs \<Longrightarrow> concat (map f as) @ e = concat (map f bs) @ e' \<Longrightarrow>
     as = bs \<and> e = e'"
proof (induction as arbitrary: bs)
  case Nil
  show ?case
  proof (cases bs)
    case (Cons b cs)
    with Nil ends [of b "concat (map f cs) @ e'"] show ?thesis by simp
  qed (use Nil in simp)
next
  case (Cons a as)
  show ?case
  proof (cases bs)
    case Nil
    with Cons.prems ends [of a "concat (map f as) @ e"] show ?thesis by simp
  next
    case (Cons b cs)
    with Cons.prems have "f a @ (concat (map f as) @ e) = f b @ (concat (map f cs) @ e')" "P a" "P b"
      by simp_all
    with code have "a = b" "concat (map f as) @ e = concat (map f cs) @ e'" by blast+
    with Cons Cons.prems Cons.IH [of cs] show ?thesis by simp
  qed
qed

end

lemma rune_range: "is_rune r \<Longrightarrow> r < 1114112 \<and> \<not> (55296 \<le> r \<and> r < 57344)"
  using decode_rune_range unfolding is_rune_def by blast

lemma high_surrogate: "r < 1114112 \<Longrightarrow> (r - 65536) div 1024 < (1024::nat)"
  by (simp add: less_mult_imp_div_less)

lemma utf16_units_code:
  assumes "is_rune r" "is_rune q" "utf16_units r @ x = utf16_units q @ y"
  shows "r = q \<and> x = y"
proof -
  note lim = rune_range [OF assms(1)] rune_range [OF assms(2)]
  note hi = high_surrogate [of r] high_surrogate [of q]
  show ?thesis
  proof (cases "r < 65536"; cases "q < 65536")
    assume "\<not> r < 65536" "\<not> q < 65536"
    moreover from this assms(3) have
      "(r - 65536) div 1024 = (q - 65536) div 1024" "(r - 65536) mod 1024 = (q - 65536) mod 1024" "x = y"
      by (simp_all add: utf16_units_def)
    ultimately show ?thesis by (metis div_mult_mod_eq le_add_diff_inverse not_less)
  next
    assume "r < 65536" "\<not> q < 65536"
    with assms(3) have "r = 55296 + (q - 65536) div 1024" by (simp add: utf16_units_def)
    with lim hi have False by linarith
    then show ?thesis ..
  next
    assume "\<not> r < 65536" "q < 65536"
    with assms(3) have "q = 55296 + (r - 65536) div 1024" by (simp add: utf16_units_def)
    with lim hi have False by linarith
    then show ?thesis ..
  qed (use assms(3) in \<open>simp add: utf16_units_def\<close>)
qed

interpretation utf16_word: prefix_code is_rune utf16_units
  by unfold_locales (rule utf16_units_code)

lemma utf16_inj: "ValidString s \<Longrightarrow> ValidString t \<Longrightarrow> utf16 s = utf16 t \<Longrightarrow> s = t"
proof -
  assume "ValidString s" "ValidString t" and eq: "utf16 s = utf16 t"
  then obtain rs qs where r: "runes s = Some rs" and q: "runes t = Some qs"
    by (auto simp: ValidString_def)
  from r q have "go_runes s = rs" "go_runes t = qs" by (simp_all add: runes_Some)
  with eq have "concat (map utf16_units rs) @ [] = concat (map utf16_units qs) @ []" by (simp add: utf16_def)
  from utf16_word.concat_inj [OF _ _ _ this]
  have "rs = qs" using runes_Some [OF r] runes_Some [OF q] by (simp add: utf16_units_def)
  with runes_Some [OF r] runes_Some [OF q] show "s = t" by simp
qed

section \<open>Escapes\<close>

definition escaped :: "nat \<Rightarrow> bool" where
  "escaped r \<longleftrightarrow> r < 32 \<or> short_escape r \<noteq> None"

lemma hex4_inj: "r < 256 \<Longrightarrow> q < 256 \<Longrightarrow> hex4 r = hex4 q \<Longrightarrow> r = q"
proof -
  have digit: "''0123456789abcdef'' ! i = ''0123456789abcdef'' ! j \<Longrightarrow> i = j" if "i < 16" "j < 16" for i j
    by (rule nth_eq_iff_index_eq [THEN iffD1]) (use that in simp_all)
  assume small: "r < 256" "q < 256" and "hex4 r = hex4 q"
  then have "r div 16 mod 16 = q div 16 mod 16" "r mod 16 = q mod 16"
    by (auto simp: hex4_def simp del: mod_less intro: digit)
  moreover have "r div 16 mod 16 = r div 16" "q div 16 mod 16 = q div 16" using small by simp_all
  ultimately show "r = q" by (metis div_mult_mod_eq)
qed

lemma hex4_length [simp]: "length (hex4 n) = 4"
  by (simp add: hex4_def)

lemma short_escape_inj: "short_escape r = Some c \<Longrightarrow> short_escape q = Some c \<Longrightarrow> r = q"
  unfolding short_escape_def by (auto split: if_splits)

lemma short_escape_u: "short_escape r \<noteq> Some CHR ''u''"
  by (simp add: short_escape_def)

lemma escaped_code:
  assumes "escaped r" "escaped q" "esc_rune r @ x = esc_rune q @ y"
  shows "r = q \<and> x = y"
proof (cases "short_escape r"; cases "short_escape q")
  assume "short_escape r = None" "short_escape q = None"
  with assms have "hex4 r @ x = hex4 q @ y" "r < 256" "q < 256"
    by (simp_all add: esc_rune_def escaped_def)
  with hex4_inj [of r q] show ?thesis by (simp add: append_eq_append_conv)
next
  fix c d
  assume "short_escape r = Some c" "short_escape q = Some d"
  with assms(3) short_escape_inj [of r c q] show ?thesis by (simp add: esc_rune_def)
qed (use assms short_escape_u in \<open>auto simp: esc_rune_def escaped_def\<close>)

lemma esc_rune_escaped: "escaped r \<Longrightarrow> \<exists>t. esc_rune r = CHR 0x5C # t"
  by (auto simp: escaped_def esc_rune_def split: option.split)

lemma esc_rune_plain: "\<not> escaped r \<Longrightarrow> esc_rune r = WriteRune r"
  by (auto simp: escaped_def esc_rune_def)

lemma WriteRune_hd:
  assumes "is_rune r" and "WriteRune r = c # t" and "byte c < 128"
  shows "r = byte c"
  using assms by (auto simp: is_rune_def decode_rune.simps)

lemma WriteRune_nonempty: "\<exists>c t. WriteRune r = c # t"
  by (simp add: WriteRune_def)

lemma WriteRune_code: "is_rune r \<Longrightarrow> is_rune q \<Longrightarrow> WriteRune r @ x = WriteRune q @ y \<Longrightarrow> r = q \<and> x = y"
  using decode_WriteRune [of r x] decode_WriteRune [of q y] by auto

lemma WriteRune_unescaped:
  assumes "is_rune r" "\<not> escaped r" "WriteRune r = c # t"
  shows "c \<noteq> CHR 0x22" "c \<noteq> CHR 0x5C"
  using WriteRune_hd [OF assms(1,3)] assms(2) by (auto simp: escaped_def short_escape_def)

lemma esc_rune_code:
  assumes r: "is_rune r" and q: "is_rune q" and eq: "esc_rune r @ x = esc_rune q @ y"
  shows "r = q \<and> x = y"
proof (cases "escaped r"; cases "escaped q")
  assume "escaped r" "escaped q"
  then show ?thesis using eq by (rule escaped_code)
next
  assume "escaped r" "\<not> escaped q"
  with esc_rune_escaped [of r] esc_rune_plain [of q] WriteRune_nonempty [of q] WriteRune_unescaped [OF q] eq
  have False by auto
  then show ?thesis ..
next
  assume "\<not> escaped r" "escaped q"
  with esc_rune_escaped [of q] esc_rune_plain [of r] WriteRune_nonempty [of r] WriteRune_unescaped [OF r] eq
  have False by auto
  then show ?thesis ..
next
  assume "\<not> escaped r" "\<not> escaped q"
  with WriteRune_code [OF r q] eq show ?thesis by (simp add: esc_rune_plain)
qed

lemma esc_rune_no_quote:
  assumes "is_rune r"
  shows "esc_rune r @ x \<noteq> CHR 0x22 # y"
proof (cases "escaped r")
  case True
  with esc_rune_escaped show ?thesis by fastforce
next
  case False
  with WriteRune_unescaped(1) [OF assms] WriteRune_nonempty [of r] show ?thesis by (auto simp: esc_rune_plain)
qed

interpretation escape_word: prefix_code is_rune esc_rune
  by unfold_locales (rule esc_rune_code)

lemma encodeString_code:
  assumes "encodeString s = Some u" "encodeString t = Some v" "u @ x = v @ y"
  shows "s = t \<and> x = y"
proof -
  from assms(1,2) obtain rs qs where r: "runes s = Some rs" and q: "runes t = Some qs"
    by (auto simp: encodeString_def ValidString_def split: if_splits)
  from assms runes_Some [OF r] runes_Some [OF q]
  have "concat (map esc_rune rs) @ (CHR 0x22 # x) = concat (map esc_rune qs) @ (CHR 0x22 # y)"
    by (auto simp: encodeString_def split: if_splits)
  from escape_word.concat_inj [OF _ _ _ this]
  have "rs = qs \<and> x = y"
    using esc_rune_no_quote runes_Some [OF r] runes_Some [OF q] by blast
  with runes_Some [OF r] runes_Some [OF q] show ?thesis by simp
qed
section \<open>The order of member names\<close>

lemma less_units_lex: "less_units xs ys \<longleftrightarrow> xs < ys"
proof (induction xs ys rule: less_units.induct)
  case (1 ys)
  show ?case by (cases ys) simp_all
qed auto

lemma lessUTF16_order: "lessUTF16 a b \<longleftrightarrow> utf16 a < utf16 b"
  by (simp add: lessUTF16_def less_units_lex)

definition valid_keys :: "(string \<times> 'v) list \<Rightarrow> bool" where
  "valid_keys m \<longleftrightarrow> distinct (map fst m) \<and> list_all (\<lambda>(k, _). ValidString k) m"

lemma set_sort_members [simp]: "set (sort_members m) = set m"
  by (simp add: sort_members_def)

lemma utf16_inj_on: "valid_keys m \<Longrightarrow> inj_on (utf16 \<circ> fst) (set m)"
proof (rule inj_onI)
  fix p q
  assume "valid_keys m" "p \<in> set m" "q \<in> set m" "(utf16 \<circ> fst) p = (utf16 \<circ> fst) q"
  moreover from this have "fst p = fst q"
    by (auto simp: valid_keys_def list_all_iff intro!: utf16_inj)
  ultimately show "p = q" by (auto simp: valid_keys_def distinct_map inj_on_def)
qed

text \<open>Names of valid members are put in the strict order of the source's comparison.\<close>

lemma sort_members_strict: "valid_keys m \<Longrightarrow> sorted_wrt (<) (map (utf16 \<circ> fst) (sort_members m))"
  using utf16_inj_on [of m]
  by (auto simp: strict_sorted_iff sort_members_def distinct_map valid_keys_def)

lemma sort_members_perm:
  assumes "valid_keys m" "valid_keys n" "set m = set n"
  shows "sort_members m = sort_members n"
proof (rule map_inj_on)
  have "set (map (utf16 \<circ> fst) (sort_members m)) = set (map (utf16 \<circ> fst) (sort_members n))"
    using assms(3) by simp
  then show "map (utf16 \<circ> fst) (sort_members m) = map (utf16 \<circ> fst) (sort_members n)"
    by (intro strict_sorted_equal sort_members_strict assms(1,2))
  show "inj_on (utf16 \<circ> fst) (set (sort_members m) \<union> set (sort_members n))"
    using utf16_inj_on [OF assms(1)] assms(3) by simp
qed

section \<open>Decimal integers\<close>

definition is_digit :: "char \<Rightarrow> bool" where
  "is_digit c \<longleftrightarrow> 48 \<le> byte c \<and> byte c < 58"

lemma nat_str_digits: "list_all is_digit (nat_str n) \<and> nat_str n \<noteq> []"
proof (induction n rule: nat_str.induct)
  case (1 n)
  then show ?case by (simp add: nat_str.simps [of n]) (simp add: is_digit_def)
qed

definition dec_val :: "string \<Rightarrow> nat" where
  "dec_val s = foldl (\<lambda>a c. 10 * a + (byte c - 48)) 0 s"

lemma dec_val_nat_str: "dec_val (nat_str n) = n"
proof (induction n rule: nat_str.induct)
  case (1 n)
  then show ?case by (subst nat_str.simps) (auto simp: dec_val_def)
qed


lemma digits_split:
  assumes "list_all P u" "list_all P v" "u @ x = v @ y"
    and "x = [] \<or> \<not> P (hd x)" "y = [] \<or> \<not> P (hd y)"
  shows "u = v \<and> x = y"
proof -
  have split: "takeWhile P (a @ b) = a" if "list_all P a" "b = [] \<or> \<not> P (hd b)" for a b
    using that by (cases b) (auto simp: takeWhile_append list_all_iff)
  from assms show ?thesis by (metis split same_append_eq)
qed

definition delim :: "string \<Rightarrow> bool" where
  "delim x \<longleftrightarrow> x = [] \<or> hd x \<in> set '',]}''"

lemma delim_not_digit: "delim x \<Longrightarrow> x = [] \<or> \<not> is_digit (hd x)"
  by (auto simp: delim_def is_digit_def)

lemma itoa_code:
  assumes eq: "itoa i @ x = itoa j @ y" and "delim x" "delim y"
  shows "i = j \<and> x = y"
proof -
  have nat: "m = n \<and> a = b" if "nat_str m @ a = nat_str n @ b" "delim a" "delim b" for m n a b
    using digits_split [OF _ _ that(1), of is_digit] nat_str_digits delim_not_digit that(2,3)
      dec_val_nat_str by metis
  have minus: "CHR ''-'' # s \<noteq> nat_str n @ a" for s n a
    using nat_str_digits [of n] by (cases "nat_str n") (auto simp: is_digit_def)
  show ?thesis
  proof (cases "i < 0"; cases "j < 0")
    assume "i < 0" "j < 0"
    with eq nat [of "nat (- i)" x "nat (- j)" y] assms(2,3) show ?thesis by (auto simp: itoa_def)
  next
    assume "\<not> i < 0" "\<not> j < 0"
    with eq nat [of "nat i" x "nat j" y] assms(2,3) show ?thesis by (auto simp: itoa_def)
  qed (use eq minus in \<open>simp_all add: itoa_def, metis+\<close>)
qed

section \<open>The canonical text determines the value\<close>

text \<open>
  \<open>canon\<close> puts the members of every object in order: two values are the same up to the order of
  members iff their \<open>canon\<close> is equal.  \<open>exact\<close> values have distinct valid names, valid strings, and
  only integers that fit int64 or uint64.
\<close>

function canon :: "json \<Rightarrow> json" where
  "canon v =
     (case v of
        JArr xs \<Rightarrow> JArr (map canon xs)
      | JObj m \<Rightarrow> JObj (map (\<lambda>(k, w). (k, canon w)) (sort_members m))
      | _ \<Rightarrow> v)"
  by pat_completeness auto
termination
  by (relation "measure size") (auto intro: size_json_elem size_json_member)

declare canon.simps [simp del]

lemma canon_simps [simp]:
  "canon JNull = JNull" "canon (JBool b) = JBool b" "canon (JInt i) = JInt i"
  "canon (JFlt q) = JFlt q" "canon (JStr s) = JStr s" "canon (JArr xs) = JArr (map canon xs)"
  "canon (JObj m) = JObj (map (\<lambda>(k, w). (k, canon w)) (sort_members m))"
  by (subst canon.simps; simp)+

function exact :: "json \<Rightarrow> bool" where
  "exact v =
     (case v of
        JInt i \<Rightarrow> exact_int i
      | JFlt _ \<Rightarrow> False
      | JStr s \<Rightarrow> ValidString s
      | JArr xs \<Rightarrow> list_all exact xs
      | JObj m \<Rightarrow> valid_keys m \<and> list_all (\<lambda>(_, w). exact w) m
      | _ \<Rightarrow> True)"
  by pat_completeness auto
termination
  by (relation "measure size") (auto intro: size_json_elem size_json_member)

declare exact.simps [simp del]

lemma exact_simps [simp]:
  "exact JNull" "exact (JBool b)" "exact (JInt i) = exact_int i" "\<not> exact (JFlt q)"
  "exact (JStr s) = ValidString s" "exact (JArr xs) = list_all exact xs"
  "exact (JObj m) = (valid_keys m \<and> list_all (\<lambda>(_, w). exact w) m)"
  by (subst exact.simps; simp)+

text \<open>Lists of items between brackets.\<close>

lemma intersperse_comma_Cons:
  "intersperse_comma (t # ts) = t @ concat (map ((#) CHR '','') ts)"
  by (induction ts arbitrary: t) (simp_all)

lemma all_some_Cons_SomeD:
  "all_some f (p # ps) = Some ts \<Longrightarrow> \<exists>t ts'. f p = Some t \<and> all_some f ps = Some ts' \<and> ts = t # ts'"
  by (auto split: option.splits)

lemma delim_items: "z \<in> set '']}'' \<Longrightarrow> delim (concat (map ((#) CHR '','') vs) @ z # w)"
  by (cases vs) (auto simp: delim_def)

lemma items_code:
  assumes z: "z \<in> set '']}''"
  shows "(\<And>p q t u x y. p \<in> set ps \<Longrightarrow> q \<in> set qs \<Longrightarrow> f p = Some t \<Longrightarrow> f q = Some u \<Longrightarrow>
      t @ x = u @ y \<Longrightarrow> delim x \<Longrightarrow> delim y \<Longrightarrow> R p q \<and> x = y) \<Longrightarrow>
     all_some f ps = Some ts \<Longrightarrow> all_some f qs = Some us \<Longrightarrow>
     concat (map ((#) CHR '','') ts) @ z # x = concat (map ((#) CHR '','') us) @ z # y \<Longrightarrow>
     list_all2 R ps qs \<and> x = y"
proof (induction ps arbitrary: qs ts us)
  case Nil
  note eqs = Nil(2-4)
  show ?case
  proof (cases qs)
    case (Cons q qs')
    with eqs(2) obtain u us' where "us = u # us'" by (metis all_some_Cons_SomeD)
    with eqs(1,3) z show ?thesis by auto
  qed (use eqs in simp)
next
  case (Cons p ps)
  note item = Cons.prems(1) and eqs = Cons.prems(2-4)
  from eqs(1) obtain t ts' where t: "f p = Some t" "all_some f ps = Some ts'" "ts = t # ts'"
    by (metis all_some_Cons_SomeD)
  show ?case
  proof (cases qs)
    case Nil
    with eqs t(3) z show ?thesis by auto
  next
    case q: (Cons q qs')
    with eqs(2) obtain u us' where u: "f q = Some u" "all_some f qs' = Some us'" "us = u # us'"
      by (metis all_some_Cons_SomeD)
    have "t @ (concat (map ((#) CHR '','') ts') @ z # x) = u @ (concat (map ((#) CHR '','') us') @ z # y)"
      using eqs(3) t(3) u(3) by simp
    with item [of p q t u] t(1) u(1) delim_items [OF z] q
    have step: "R p q" "concat (map ((#) CHR '','') ts') @ z # x = concat (map ((#) CHR '','') us') @ z # y"
      by simp_all
    have "list_all2 R ps qs' \<and> x = y"
      by (rule Cons.IH [OF _ t(2) u(2) step(2)]) (rule item, use q in auto)
    with step(1) q show ?thesis by simp
  qed
qed

lemma comma_intersperse: "ts \<noteq> [] \<Longrightarrow> CHR '','' # intersperse_comma ts = concat (map ((#) CHR '','') ts)"
  by (cases ts) (simp_all add: intersperse_comma_Cons)

lemma all_some_Nil_iff: "all_some f ps = Some ts \<Longrightarrow> ts = [] \<longleftrightarrow> ps = []"
  by (cases ps) (auto split: option.splits)

lemma bracketed_code:
  assumes z: "z \<in> set '']}''"
    and item: "\<And>p q t u x y. p \<in> set ps \<Longrightarrow> q \<in> set qs \<Longrightarrow> f p = Some t \<Longrightarrow> f q = Some u \<Longrightarrow>
      t @ x = u @ y \<Longrightarrow> delim x \<Longrightarrow> delim y \<Longrightarrow> R p q \<and> x = y"
    and lead: "\<And>p t. p \<in> set ps \<union> set qs \<Longrightarrow> f p = Some t \<Longrightarrow> t \<noteq> [] \<and> hd t \<noteq> z"
    and ts: "all_some f ps = Some ts" and us: "all_some f qs = Some us"
    and eq: "bracketed a z ts @ x = bracketed a z us @ y"
  shows "list_all2 R ps qs \<and> x = y"
proof -
  have lead': "intersperse_comma vs @ z # w' \<noteq> z # w" if "all_some f rs = Some vs" "vs \<noteq> []" "set rs \<subseteq> set ps \<union> set qs" for rs vs w w'
  proof -
    from that(1,2) obtain r rs' v vs' where "rs = r # rs'" "f r = Some v" "vs = v # vs'"
      by (cases rs) (auto split: option.splits)
    with lead [of r v] that(3) show ?thesis by (cases v) (auto simp: intersperse_comma_Cons)
  qed
  from eq have body: "intersperse_comma ts @ z # x = intersperse_comma us @ z # y"
    by (simp add: bracketed_def)
  have "ts = [] \<longleftrightarrow> us = []"
    using lead' [OF ts, of x y] lead' [OF us, of y x] body by (cases ts; cases us) auto
  moreover have ?thesis if "ts = []" "us = []"
    using that body all_some_Nil_iff [OF ts] all_some_Nil_iff [OF us] by simp
  moreover have ?thesis if "ts \<noteq> []" "us \<noteq> []"
  proof (rule items_code [OF z item ts us])
    from body have "CHR '','' # intersperse_comma ts @ z # x = CHR '','' # intersperse_comma us @ z # y" by simp
    then show "concat (map ((#) CHR '','') ts) @ z # x = concat (map ((#) CHR '','') us) @ z # y"
      using that by (simp flip: comma_intersperse)
  qed
  ultimately show ?thesis by blast
qed

definition char_tag :: "char \<Rightarrow> nat" where
  "char_tag c =
     (if c = CHR ''n'' then 0 else if c = CHR ''t'' \<or> c = CHR ''f'' then 1
      else if is_digit c \<or> c = CHR ''-'' then 2 else if c = CHR 0x22 then 3
      else if c = CHR ''['' then 4 else if c = CHR ''{'' then 5 else 6)"

definition json_tag :: "json \<Rightarrow> nat" where
  "json_tag v = (case v of JNull \<Rightarrow> 0 | JBool _ \<Rightarrow> 1 | JInt _ \<Rightarrow> 2 | JFlt _ \<Rightarrow> 2 | JStr _ \<Rightarrow> 3 | JArr _ \<Rightarrow> 4 | JObj _ \<Rightarrow> 5)"

lemma itoa_lead: "itoa i \<noteq> [] \<and> char_tag (hd (itoa i)) = 2"
proof -
  have digit: "is_digit c \<Longrightarrow> char_tag c = 2" for c by (auto simp: char_tag_def is_digit_def)
  have "nat_str n \<noteq> [] \<and> is_digit (hd (nat_str n))" for n
    using nat_str_digits [of n] by (cases "nat_str n") auto
  with digit show ?thesis by (auto simp: itoa_def) (simp add: char_tag_def)
qed

lemma encode_lead:
  assumes "exact v" and "encode fl v = Some t"
  shows "t \<noteq> [] \<and> char_tag (hd t) = json_tag v"
proof (cases v)
  case (JInt i)
  with assms itoa_lead [of i] show ?thesis by (simp add: encodeJSONNumber_def json_tag_def)
qed (use assms in \<open>auto simp: encodeString_def bracketed_def json_tag_def char_tag_def is_digit_def split: if_splits\<close>)

lemma encodeString_lead: "encodeString s = Some t \<Longrightarrow> \<exists>u. t = CHR 0x22 # u"
  by (auto simp: encodeString_def split: if_splits)

lemma enc_member_code:
  assumes "enc_member k r = Some t" "enc_member l s = Some u" "t @ x = u @ y"
  obtains v w where "r = Some v" "s = Some w" "k = l" "v @ x = w @ y"
proof -
  from assms(1,2) obtain a v b w where e: "encodeString k = Some a" "r = Some v" "t = a @ CHR '':'' # v"
      "encodeString l = Some b" "s = Some w" "u = b @ CHR '':'' # w"
    by (auto simp: enc_member_def split: option.splits)
  with assms(3) have "a @ (CHR '':'' # v @ x) = b @ (CHR '':'' # w @ y)" by simp
  from encodeString_code [OF e(1,4) this] e that show ?thesis by auto
qed

lemma encode_same_tag:
  assumes "exact v" "exact w" "encode fl v = Some t" "encode fl w = Some u" "t @ x = u @ y"
  shows "json_tag v = json_tag w"
  using encode_lead [OF assms(1,3)] encode_lead [OF assms(2,4)] assms(5) by (cases t; cases u) auto

definition codes :: "float_lib \<Rightarrow> json \<Rightarrow> json \<Rightarrow> bool" where
  "codes fl v w \<longleftrightarrow> (\<forall>t u x y. encode fl v = Some t \<longrightarrow> encode fl w = Some u \<longrightarrow> t @ x = u @ y \<longrightarrow>
     delim x \<longrightarrow> delim y \<longrightarrow> canon v = canon w \<and> x = y)"

lemma codes_tag: "exact v \<Longrightarrow> exact w \<Longrightarrow> json_tag v \<noteq> json_tag w \<Longrightarrow> codes fl v w"
  unfolding codes_def by (blast dest: encode_same_tag)

lemma codesD:
  "codes fl v w \<Longrightarrow> encode fl v = Some t \<Longrightarrow> encode fl w = Some u \<Longrightarrow> t @ x = u @ y \<Longrightarrow>
     delim x \<Longrightarrow> delim y \<Longrightarrow> canon v = canon w \<and> x = y"
  unfolding codes_def by blast

lemma encode_arr_code:
  assumes ex: "list_all exact xs" "list_all exact ys"
    and IH: "\<And>p q. p \<in> set xs \<Longrightarrow> q \<in> set ys \<Longrightarrow> codes fl p q"
  shows "codes fl (JArr xs) (JArr ys)"
  unfolding codes_def
proof (intro allI impI)
  fix t u x y
  assume "encode fl (JArr xs) = Some t" "encode fl (JArr ys) = Some u" and eq: "t @ x = u @ y"
  then obtain ts us where
    ts: "all_some (encode fl) xs = Some ts" "t = bracketed CHR ''['' CHR '']'' ts" and
    us: "all_some (encode fl) ys = Some us" "u = bracketed CHR ''['' CHR '']'' us" by auto
  have "list_all2 (\<lambda>p q. canon p = canon q) xs ys \<and> x = y"
  proof (rule bracketed_code [where f = "encode fl" and z = "CHR '']''" and a = "CHR ''[''", OF _ _ _ ts(1) us(1)])
    fix p t
    assume "p \<in> set xs \<union> set ys" "encode fl p = Some t"
    moreover from this ex have "exact p" by (auto simp: list_all_iff)
    ultimately have "t \<noteq> [] \<and> char_tag (hd t) = json_tag p" by (intro encode_lead [of _ fl])
    moreover have "json_tag p < 6" by (simp add: json_tag_def split: json.split)
    ultimately show "t \<noteq> [] \<and> hd t \<noteq> CHR '']''" by (auto simp: char_tag_def is_digit_def)
  next
    fix p q t u x y
    assume "p \<in> set xs" "q \<in> set ys" "encode fl p = Some t" "encode fl q = Some u" "t @ x = u @ y"
      "delim x" "delim y"
    then show "canon p = canon q \<and> x = y" by (intro codesD [OF IH])
  next
    show "bracketed CHR ''['' CHR '']'' ts @ x = bracketed CHR ''['' CHR '']'' us @ y"
      using eq ts us by simp
  qed simp
  then show "canon (JArr xs) = canon (JArr ys) \<and> x = y"
    by (simp add: list_all2_conv_all_nth list_eq_iff_nth_eq)
qed

lemma encode_obj_code:
  assumes IH: "\<And>k p l q. (k, p) \<in> set m \<Longrightarrow> (l, q) \<in> set n \<Longrightarrow> codes fl p q"
  shows "codes fl (JObj m) (JObj n)"
  unfolding codes_def
proof (intro allI impI)
  let ?f = "\<lambda>(k, w). enc_member k (encode fl w)"
  fix t u x y
  assume "encode fl (JObj m) = Some t" "encode fl (JObj n) = Some u" and eq: "t @ x = u @ y"
  then obtain ts us where
    ts: "all_some ?f (sort_members m) = Some ts" "t = bracketed CHR ''{'' CHR ''}'' ts" and
    us: "all_some ?f (sort_members n) = Some us" "u = bracketed CHR ''{'' CHR ''}'' us" by auto
  have "list_all2 (\<lambda>p q. fst p = fst q \<and> canon (snd p) = canon (snd q)) (sort_members m) (sort_members n) \<and> x = y"
  proof (rule bracketed_code [where f = ?f and z = "CHR ''}''" and a = "CHR ''{''", OF _ _ _ ts(1) us(1)])
    fix p q t u x y
    assume h: "p \<in> set (sort_members m)" "q \<in> set (sort_members n)" "?f p = Some t" "?f q = Some u"
      "t @ x = u @ y" "delim x" "delim y"
    obtain k a l b where pq: "p = (k, a)" "q = (l, b)" by (cases p, cases q)
    from enc_member_code [of k "encode fl a" t l "encode fl b" u x y] h pq obtain c d
      where "encode fl a = Some c" "encode fl b = Some d" "k = l" "c @ x = d @ y" by auto
    with codesD [OF IH, of k a l b c d x y] h pq
    show "(fst p = fst q \<and> canon (snd p) = canon (snd q)) \<and> x = y" by simp
  next
    fix p t
    assume "?f p = Some t"
    then show "t \<noteq> [] \<and> hd t \<noteq> CHR ''}''"
      by (auto simp: enc_member_def split: option.splits prod.splits dest!: encodeString_lead)
  next
    show "bracketed CHR ''{'' CHR ''}'' ts @ x = bracketed CHR ''{'' CHR ''}'' us @ y"
      using eq ts us by simp
  qed simp
  then show "canon (JObj m) = canon (JObj n) \<and> x = y"
    by (auto simp: list_all2_conv_all_nth list_eq_iff_nth_eq split: prod.splits)
qed

lemma encode_code: "exact v \<Longrightarrow> exact w \<Longrightarrow> codes fl v w"
proof (induction v arbitrary: w)
  case (JArr xs)
  show ?case
  proof (cases w)
    case w: (JArr ys)
    show ?thesis unfolding w
    proof (rule encode_arr_code)
      fix p q
      assume "p \<in> set xs" "q \<in> set ys"
      with JArr.prems w show "codes fl p q" by (intro JArr.IH) (auto simp: list_all_iff)
    qed (use JArr.prems w in simp_all)
  qed (use JArr.prems in \<open>auto intro!: codes_tag simp: json_tag_def\<close>)
next
  case (JObj m)
  show ?case
  proof (cases w)
    case w: (JObj n)
    show ?thesis unfolding w
    proof (rule encode_obj_code)
      fix k p l q
      assume mem: "(k, p) \<in> set m" "(l, q) \<in> set n"
      with JObj.prems w have "exact p" "exact q" by (auto simp: list_all_iff)
      with mem show "codes fl p q" by (intro JObj.IH [of "(k, p)"]) simp_all
    qed
  qed (use JObj.prems in \<open>auto intro!: codes_tag simp: json_tag_def\<close>)
next
  case (JInt i)
  show ?case
  proof (cases w)
    case (JInt j)
    with JInt.prems show ?thesis by (auto simp: codes_def encodeJSONNumber_def dest: itoa_code)
  qed (use JInt.prems in \<open>auto intro!: codes_tag simp: json_tag_def\<close>)
next
  case (JStr s)
  show ?case
  proof (cases w)
    case (JStr r)
    then show ?thesis by (auto simp: codes_def dest: encodeString_code)
  qed (use JStr.prems in \<open>auto intro!: codes_tag simp: json_tag_def\<close>)
next
  case JNull
  show ?case
  proof (cases w)
    case JNull
    then show ?thesis by (auto simp: codes_def)
  qed (use JNull in \<open>auto intro!: codes_tag simp: json_tag_def\<close>)
next
  case (JBool b)
  show ?case
  proof (cases w)
    case (JBool c)
    then show ?thesis by (auto simp: codes_def)
  qed (use JBool in \<open>auto intro!: codes_tag simp: json_tag_def\<close>)
qed simp

lemma all_some_total: "(\<And>p. p \<in> set ps \<Longrightarrow> f p \<noteq> None) \<Longrightarrow> all_some f ps \<noteq> None"
  by (induction ps) (auto, force)

lemma encode_total: "exact v \<Longrightarrow> encode fl v \<noteq> None"
proof (induction v)
  case (JArr xs)
  then have "encode fl x \<noteq> None" if "x \<in> set xs" for x using that by (simp add: list_all_iff)
  then have "all_some (encode fl) xs \<noteq> None" by (rule all_some_total)
  then show ?case by simp
next
  case (JObj m)
  have "(\<lambda>(k, w). enc_member k (encode fl w)) p \<noteq> None" if "p \<in> set (sort_members m)" for p
  proof -
    obtain k w where p: "p = (k, w)" by (cases p)
    with that JObj.prems have "exact w" "ValidString k" by (auto simp: list_all_iff valid_keys_def)
    with JObj.IH [of p w] that p show ?thesis by (auto simp: enc_member_def encodeString_def)
  qed
  then have "all_some (\<lambda>(k, w). enc_member k (encode fl w)) (sort_members m) \<noteq> None"
    by (rule all_some_total)
  then show ?case by simp
qed (simp_all add: encodeJSONNumber_def encodeString_def)

lemma all_some_rel: "list_all2 (\<lambda>p q. f p = g q) ps qs \<Longrightarrow> all_some f ps = all_some g qs"
  by (induction rule: list_all2_induct) (simp_all split: option.split)

lemma canon_tag [simp]: "json_tag (canon v) = json_tag v"
  by (cases v) (simp_all add: json_tag_def)

lemma members_rel:
  assumes "map (\<lambda>(k, w). (k, canon w)) ms = map (\<lambda>(k, w). (k, canon w)) ns"
    and "\<And>k a b. (k, a) \<in> set ms \<Longrightarrow> canon a = canon b \<Longrightarrow> e a = e b"
  shows "list_all2 (\<lambda>p q. (case p of (k, a) \<Rightarrow> enc_member k (e a)) = (case q of (l, b) \<Rightarrow> enc_member l (e b))) ms ns"
  using assms
proof (induction ms arbitrary: ns)
  case (Cons p ms)
  obtain k a where p: "p = (k, a)" by (cases p)
  from Cons.prems(1) p obtain b ns' where ns: "ns = (k, b) # ns'" "canon a = canon b"
      "map (\<lambda>(k, w). (k, canon w)) ms = map (\<lambda>(k, w). (k, canon w)) ns'" by (cases ns) auto
  have "e a = e b" using Cons.prems(2) [of k a b] p ns(2) by simp
  moreover have "list_all2 (\<lambda>p q. (case p of (k, a) \<Rightarrow> enc_member k (e a)) = (case q of (l, b) \<Rightarrow> enc_member l (e b))) ms ns'"
    by (rule Cons.IH [OF ns(3)]) (use Cons.prems(2) in \<open>meson list.set_intros(2)\<close>)
  ultimately show ?case using p ns(1) by simp
qed simp

lemma encode_canon: "canon v = canon w \<Longrightarrow> encode fl v = encode fl w"
proof (induction v arbitrary: w)
  case (JArr xs)
  from JArr.prems obtain ys where w: "w = JArr ys" and eq: "map canon xs = map canon ys" by (cases w) auto
  have "list_all2 (\<lambda>p q. encode fl p = encode fl q) xs ys"
  proof (rule list_all2_all_nthI)
    show "length xs = length ys" using eq by (rule map_eq_imp_length_eq)
    fix i
    assume "i < length xs"
    then show "encode fl (xs ! i) = encode fl (ys ! i)"
      using eq by (intro JArr.IH) (simp, metis map_eq_imp_length_eq nth_map)
  qed
  from all_some_rel [OF this] w show ?case by simp
next
  case (JObj m)
  from JObj.prems obtain n where w: "w = JObj n" and
    eq: "map (\<lambda>(k, w). (k, canon w)) (sort_members m) = map (\<lambda>(k, w). (k, canon w)) (sort_members n)"
    by (cases w) auto
  have "all_some (\<lambda>(k, w). enc_member k (encode fl w)) (sort_members m) =
      all_some (\<lambda>(k, w). enc_member k (encode fl w)) (sort_members n)"
  proof (rule all_some_rel, rule members_rel [where e = "encode fl", OF eq])
    fix k a b
    assume "(k, a) \<in> set (sort_members m)" "canon a = canon b"
    then have "(k, a) \<in> set m" by simp
    from JObj.IH [OF this _ \<open>canon a = canon b\<close>] show "encode fl a = encode fl b" by simp
  qed
  with w show ?case by (simp only: encode_simps)
next
  case JNull
  then show ?case by (cases w) simp_all
next
  case (JBool x)
  then show ?case by (cases w) simp_all
next
  case (JInt x)
  then show ?case by (cases w) simp_all
next
  case (JFlt x)
  then show ?case by (cases w) simp_all
next
  case (JStr x)
  then show ?case by (cases w) simp_all
qed

lemma canon_members:
  "valid_keys m \<Longrightarrow> valid_keys n \<Longrightarrow> set m = set n \<Longrightarrow> canon (JObj m) = canon (JObj n)"
  using sort_members_perm [of m n] by simp

lemma encode_eq_iff:
  assumes "exact v" "exact w"
  shows "encode fl v = encode fl w \<longleftrightarrow> canon v = canon w"
proof
  assume eq: "encode fl v = encode fl w"
  obtain t where t: "encode fl v = Some t" using encode_total [OF assms(1), of fl] by blast
  with eq have u: "encode fl w = Some t" by simp
  have "canon v = canon w \<and> [] = ([] :: string)"
    by (rule codesD [OF encode_code [OF assms] t u]) (simp_all add: delim_def)
  then show "canon v = canon w" ..
qed (rule encode_canon)

end
