(* ===== verification/Fingerprint.thy ===== *)
theory Fingerprint
  imports Jcs
begin

text \<open>
  Idempotency fingerprints (\<^verbatim>\<open>internal/fingerprint\<close>): the payload of a mission and of an exec
  dispatch, its canonical text and the hash of that text, the canonical form of a mission's
  input, and the detection of shell command lines.  The hexadecimal SHA-256 of a text is an
  argument; what the text binds is proved before hashing.
\<close>

section \<open>Missions\<close>

record FileRef =
  fr_Role :: string
  fr_StagingID :: string
  fr_Sha256 :: string
  fr_Size :: int

record MissionInput =
  mi_Lane :: string
  mi_Mission :: string
  mi_InputCanonical :: string
  mi_TimeoutMs :: "int option"
  mi_Files :: "FileRef list"

definition opt_int :: "int option \<Rightarrow> json" where
  "opt_int t = (case t of None \<Rightarrow> JNull | Some i \<Rightarrow> JInt i)"

definition file_json :: "FileRef \<Rightarrow> json" where
  "file_json f = JObj
     [(''role'', JStr (fr_Role f)), (''staging_id'', JStr (fr_StagingID f)),
      (''sha256'', JStr (fr_Sha256 f)), (''size'', JInt (fr_Size f))]"

text \<open>The files are sorted by role, in the byte order of Go strings.\<close>

definition mission_payload :: "(string \<Rightarrow> string) \<Rightarrow> MissionInput \<Rightarrow> json" where
  "mission_payload sha a = JObj
     [(''kind'', JStr ''mission''), (''lane'', JStr (mi_Lane a)), (''mission'', JStr (mi_Mission a)),
      (''input_sha256'', JStr (sha (mi_InputCanonical a))), (''timeout_ms'', opt_int (mi_TimeoutMs a)),
      (''files'', JArr (map file_json (sort_key fr_Role (mi_Files a))))]"

definition Mission :: "float_lib \<Rightarrow> (string \<Rightarrow> string) \<Rightarrow> MissionInput \<Rightarrow> string option" where
  "Mission fl sha a = map_option sha (encode fl (mission_payload sha a))"

section \<open>Execs\<close>

record ExecFileRef =
  ef_Key :: string
  ef_StagingID :: string
  ef_Sha256 :: string
  ef_Size :: int

record ExecInput =
  ei_Lane :: string
  ei_Command :: "string list"
  ei_Script :: "(string \<times> string) option"
  ei_In :: "ExecFileRef list"
  ei_Out :: "string list"
  ei_Stdin :: string
  ei_StdinStagingID :: string
  ei_TimeoutMs :: "int option"
  ei_GroupID :: string
  ei_DisplayName :: string

definition in_json :: "ExecFileRef \<Rightarrow> json" where
  "in_json f = JObj
     [(''key'', JStr (ef_Key f)), (''staging_id'', JStr (ef_StagingID f)),
      (''sha256'', JStr (ef_Sha256 f)), (''size'', JInt (ef_Size f))]"

definition exec_payload :: "ExecInput \<Rightarrow> json" where
  "exec_payload a = JObj
     [(''kind'', JStr ''exec''), (''lane'', JStr (ei_Lane a)),
      (''command'', JArr (map JStr (ei_Command a))),
      (''stdin'', JStr (if ei_Stdin a = [] then ''none'' else ei_Stdin a)),
      (''script'', case ei_Script a of None \<Rightarrow> JNull
         | Some (sid, sha) \<Rightarrow> JObj [(''staging_id'', JStr sid), (''sha256'', JStr sha)]),
      (''stdin_staging_id'', if ei_StdinStagingID a \<noteq> [] then JStr (ei_StdinStagingID a) else JNull),
      (''timeout_ms'', opt_int (ei_TimeoutMs a)),
      (''in'', JArr (map in_json (sort_key ef_Key (ei_In a)))),
      (''out'', JArr (map (\<lambda>k. JObj [(''key'', JStr k)]) (sort (ei_Out a))))]"

definition Exec :: "float_lib \<Rightarrow> (string \<Rightarrow> string) \<Rightarrow> ExecInput \<Rightarrow> string option" where
  "Exec fl sha a = map_option sha (encode fl (exec_payload a))"

section \<open>The canonical input\<close>

text \<open>
  \<^verbatim>\<open>rejectDuplicateKeys\<close> walks the token stream of the raw value: no object at any depth may
  repeat a key.  The decoded value keeps its members in source order, repetitions included.
\<close>

function walkNoDupKeys :: "json \<Rightarrow> bool" where
  "walkNoDupKeys v =
     (case v of
        JObj m \<Rightarrow> distinct (map fst m) \<and> list_all (\<lambda>(_, w). walkNoDupKeys w) m
      | JArr xs \<Rightarrow> list_all walkNoDupKeys xs
      | _ \<Rightarrow> True)"
  by pat_completeness auto
termination
  by (relation "measure size") (auto intro: size_json_elem size_json_member)

declare walkNoDupKeys.simps [simp del]

definition CanonicalizeInput :: "float_lib \<Rightarrow> json \<Rightarrow> string option" where
  "CanonicalizeInput fl v = (if walkNoDupKeys v then encode fl v else None)"

section \<open>Shell command lines\<close>

definition shellBasenames :: "string list" where
  "shellBasenames = [''sh'', ''bash'', ''zsh'', ''dash'', ''ksh'', ''ash'']"

text \<open>\<^verbatim>\<open>filepath.Base\<close>: the last element, trailing slashes removed.\<close>

definition filepath_Base :: "string \<Rightarrow> string" where
  "filepath_Base p =
     (if p = [] then ''.''
      else let q = rev (dropWhile (\<lambda>c. c = CHR ''/'') (rev p))
           in if q = [] then ''/'' else rev (takeWhile (\<lambda>c. c \<noteq> CHR ''/'') (rev q)))"

definition shell_arg :: "string \<Rightarrow> bool" where
  "shell_arg a \<longleftrightarrow>
     a = ''--command'' \<or>
     (take 1 a = ''-'' \<and> take 2 a \<noteq> ''--'' \<and> CHR ''c'' \<in> set a)"

definition IsShellForm :: "string list \<Rightarrow> bool" where
  "IsShellForm argv =
     (case argv of [] \<Rightarrow> False
      | a # args \<Rightarrow> filepath_Base a \<in> set shellBasenames \<and> list_ex shell_arg args)"

section \<open>What a payload binds\<close>

lemma ascii_runes: "list_all (\<lambda>c. byte c < 128) s \<Longrightarrow> runes s \<noteq> None"
proof (induction s)
  case Nil
  show ?case by (simp add: runes.simps)
next
  case (Cons c s)
  then show ?case by (subst runes.simps) (simp add: decode_rune.simps)
qed

lemma ascii_valid: "list_all (\<lambda>c. byte c < 128) s \<Longrightarrow> ValidString s"
  by (simp add: ValidString_def ascii_runes)

text \<open>A member of an object can be read off its canonical form.\<close>

lemma canon_member:
  assumes "canon (JObj m) = canon (JObj n)" and "valid_keys m" "valid_keys n" and "map_of m k = Some v"
  shows "\<exists>w. map_of n k = Some w \<and> canon v = canon w"
proof -
  from assms(1) have eq: "map (\<lambda>(k, w). (k, canon w)) (sort_members m) = map (\<lambda>(k, w). (k, canon w)) (sort_members n)"
    by simp
  have "(k, canon v) \<in> set (map (\<lambda>(k, w). (k, canon w)) (sort_members m))"
    using map_of_SomeD [OF assms(4)] by force
  then obtain w where "(k, w) \<in> set n" "canon v = canon w" unfolding eq by auto
  with assms(3) show ?thesis by (metis map_of_is_SomeI valid_keys_def)
qed

lemma file_json_keys: "valid_keys [(''role'', a), (''staging_id'', b), (''sha256'', c), (''size'', d)]"
  by (simp add: valid_keys_def ascii_valid)

lemma file_json_inj: "canon (file_json f) = canon (file_json g) \<Longrightarrow> f = g"
proof -
  assume eq: "canon (file_json f) = canon (file_json g)"
  note get = canon_member [OF eq [unfolded file_json_def] file_json_keys file_json_keys]
  from get [of "''role''"] get [of "''staging_id''"] get [of "''sha256''"] get [of "''size''"]
  show ?thesis by (simp add: FileRef.equality)
qed

definition file_ok :: "FileRef \<Rightarrow> bool" where
  "file_ok f \<longleftrightarrow> ValidString (fr_Role f) \<and> ValidString (fr_StagingID f) \<and> ValidString (fr_Sha256 f) \<and> in_i64 (fr_Size f)"

lemma file_json_exact: "file_ok f \<Longrightarrow> exact (file_json f)"
  by (simp add: file_json_def file_json_keys file_ok_def exact_int_def)

text \<open>
  What the dispatch handler passes: strings decoded from JSON, a hash in hexadecimal, roles
  already checked to be distinct, and int64 numbers.
\<close>

definition mission_input_ok :: "(string \<Rightarrow> string) \<Rightarrow> MissionInput \<Rightarrow> bool" where
  "mission_input_ok sha a \<longleftrightarrow>
     ValidString (mi_Lane a) \<and> ValidString (mi_Mission a) \<and> ValidString (sha (mi_InputCanonical a)) \<and>
     (case mi_TimeoutMs a of None \<Rightarrow> True | Some t \<Rightarrow> in_i64 t) \<and>
     distinct (map fr_Role (mi_Files a)) \<and> list_all file_ok (mi_Files a)"

lemma mission_payload_keys:
  "valid_keys [(''kind'', a), (''lane'', b), (''mission'', c), (''input_sha256'', d), (''timeout_ms'', e), (''files'', f)]"
  by (simp add: valid_keys_def ascii_valid)

lemma mission_payload_exact: "mission_input_ok sha a \<Longrightarrow> exact (mission_payload sha a)"
  unfolding mission_payload_def
  by (auto simp: mission_input_ok_def mission_payload_keys opt_int_def exact_int_def list_all_iff ascii_valid
      file_json_exact split: option.splits)

lemma canon_opt_int [simp]: "canon (opt_int t) = opt_int t"
  by (simp add: opt_int_def split: option.split)

lemma opt_int_inj: "opt_int s = opt_int t \<longleftrightarrow> s = t"
  by (simp add: opt_int_def split: option.split)

text \<open>Sorting a list with distinct keys depends only on its set.\<close>

lemma sort_key_distinct_eq:
  assumes "set xs = set ys" "distinct (map k xs)" "distinct (map k ys)"
  shows "sort_key k xs = sort_key k ys"
proof (rule map_inj_on)
  have "sorted_wrt (<) (map k (sort_key k xs))" "sorted_wrt (<) (map k (sort_key k ys))"
    using assms(2,3) by (simp_all add: strict_sorted_iff distinct_map)
  then show "map k (sort_key k xs) = map k (sort_key k ys)"
    by (intro strict_sorted_equal) (simp_all add: assms(1))
  show "inj_on k (set (sort_key k xs) \<union> set (sort_key k ys))"
    using assms(1,2) by (simp add: distinct_map)
qed

lemma map_inj_eq: "(\<And>x y. f x = f y \<Longrightarrow> x = y) \<Longrightarrow> map f xs = map f ys \<Longrightarrow> xs = ys"
  by (metis injI map_injective)

lemma mission_text_iff:
  assumes "mission_input_ok sha a" "mission_input_ok sha b"
  shows "encode fl (mission_payload sha a) = encode fl (mission_payload sha b) \<longleftrightarrow>
    mi_Lane a = mi_Lane b \<and> mi_Mission a = mi_Mission b \<and>
    sha (mi_InputCanonical a) = sha (mi_InputCanonical b) \<and>
    mi_TimeoutMs a = mi_TimeoutMs b \<and> set (mi_Files a) = set (mi_Files b)"
    (is "?text \<longleftrightarrow> ?same")
proof
  assume ?text
  then have eq: "canon (mission_payload sha a) = canon (mission_payload sha b)"
    by (simp only: encode_eq_iff [OF mission_payload_exact [OF assms(1)] mission_payload_exact [OF assms(2)]])
  note get = canon_member [OF eq [unfolded mission_payload_def] mission_payload_keys mission_payload_keys]
  have "map (canon \<circ> file_json) (sort_key fr_Role (mi_Files a)) = map (canon \<circ> file_json) (sort_key fr_Role (mi_Files b))"
    using get [of "''files''"] by simp
  then have "sort_key fr_Role (mi_Files a) = sort_key fr_Role (mi_Files b)"
    by (rule map_inj_eq [rotated]) (simp add: file_json_inj)
  then have "set (mi_Files a) = set (mi_Files b)" by (metis set_sort)
  with get [of "''lane''"] get [of "''mission''"] get [of "''input_sha256''"] get [of "''timeout_ms''"]
  show ?same by (simp add: opt_int_inj)
next
  assume same: ?same
  then have "sort_key fr_Role (mi_Files a) = sort_key fr_Role (mi_Files b)"
    using assms by (intro sort_key_distinct_eq) (auto simp: mission_input_ok_def)
  with same show ?text by (simp add: mission_payload_def)
qed

end
