(* ===== verification/Fd3.thy ===== *)
theory Fd3
  imports Outcome
begin

text \<open>
  The reader of the mission's event channel on file descriptor 3
  (\<^verbatim>\<open>internal/mission/fd3reader.go\<close>).  The input is the sequence of chunks
  \<^verbatim>\<open>bufio.Reader.ReadLine\<close> returns; what \<^verbatim>\<open>encoding/json\<close> and \<^verbatim>\<open>strconv.Quote\<close> compute from
  bytes is an argument of the definitions, so every theorem holds for any decoder.
\<close>

section \<open>The standard library functions the reader calls\<close>

text \<open>
  \<open>gl_unmarshal\<close> decodes a line, \<open>None\<close> on a syntax error; \<open>gl_errtext\<close> is the text of that
  error; \<open>gl_type_error\<close> the error of decoding a well-formed line into the struct of an event
  kind; \<open>gl_raw_len\<close> the length of a member captured as \<^verbatim>\<open>json.RawMessage\<close>; \<open>gl_marshal_len\<close> the
  length of an encoded value; \<open>gl_head\<close> what a token decoder reads from a possibly truncated
  object, its members up to the first value it cannot decode.
\<close>

datatype decode_error = TypeErr string string string | OtherErr string

record go_lib =
  gl_unmarshal :: "string \<Rightarrow> json option"
  gl_errtext :: "string \<Rightarrow> string"
  gl_type_error :: "string \<Rightarrow> string \<Rightarrow> decode_error"
  gl_raw_len :: "string \<Rightarrow> string \<Rightarrow> nat"
  gl_marshal_len :: "json \<Rightarrow> nat"
  gl_head :: "string \<Rightarrow> (string \<times> json option) list option"
  gl_quote :: "string \<Rightarrow> string"

section \<open>Role keys\<close>

definition key_start :: "char \<Rightarrow> bool" where
  "key_start c = (let n = (of_char c :: nat) in 65 \<le> n \<and> n \<le> 90 \<or> 97 \<le> n \<and> n \<le> 122 \<or> n = 95)"

definition key_char :: "char \<Rightarrow> bool" where
  "key_char c = (key_start c \<or> (let n = (of_char c :: nat) in 48 \<le> n \<and> n \<le> 57))"

definition roleKeyRegex :: "string \<Rightarrow> bool" where
  "roleKeyRegex s =
     (case s of [] \<Rightarrow> False | c # cs \<Rightarrow> key_start c \<and> list_all key_char cs \<and> length cs \<le> 63)"

text \<open>The error text, or \<open>None\<close> when the key is valid.\<close>

definition ValidateRoleKey :: "go_lib \<Rightarrow> string \<Rightarrow> string option" where
  "ValidateRoleKey L s =
     (if \<not> roleKeyRegex s then
        Some (''invalid role/key '' @ gl_quote L s @ '' (regex ^[A-Za-z_][A-Za-z0-9_]{0,63}$)'')
      else if 2 \<le> length s \<and> s ! 0 = CHR ''_'' \<and> s ! 1 = CHR ''_'' then
        Some (''role/key '' @ gl_quote L s @ '' uses reserved __ prefix'')
      else None)"

section \<open>State\<close>

record ProgressEvent =
  pe_Value :: "rat option"
  pe_Message :: string

record Fd3State =
  f3_Final :: "Fd3Final option"
  f3_OutputFiles :: "string list"
  f3_Violations :: "Fd3Violation list"
  f3_ProgressDrops :: nat
  f3_finalLine :: int
  f3_progressCh :: "ProgressEvent list"

definition fd3_init :: Fd3State where
  "fd3_init = \<lparr>f3_Final = None, f3_OutputFiles = [], f3_Violations = [], f3_ProgressDrops = 0,
     f3_finalLine = 0, f3_progressCh = []\<rparr>"

record Fd3Limits =
  fl_MaxEventLineSize :: int
  fl_MaxOutputFilesPerMsn :: int

definition maxRecordedViolations :: nat where
  "maxRecordedViolations = 32"

definition recordViolation :: "Fd3Violation \<Rightarrow> Fd3State \<Rightarrow> Fd3State" where
  "recordViolation v s =
     (if maxRecordedViolations \<le> length (f3_Violations s) then s
      else s\<lparr>f3_Violations := f3_Violations s @ [v]\<rparr>)"

section \<open>Violations\<close>

record fd3ViolationDetails =
  vd_Fd3Line :: int
  vd_LineBytes :: int
  vd_MaxEventLineSize :: int
  vd_Event :: string
  vd_Key :: string
  vd_MaxOutputFiles :: int
  vd_FirstEvent :: string
  vd_FirstFd3Line :: int

definition details_at :: "int \<Rightarrow> fd3ViolationDetails" where
  "details_at lineNo = \<lparr>vd_Fd3Line = lineNo, vd_LineBytes = 0, vd_MaxEventLineSize = 0, vd_Event = [],
     vd_Key = [], vd_MaxOutputFiles = 0, vd_FirstEvent = [], vd_FirstFd3Line = 0\<rparr>"

definition omit_int :: "string \<Rightarrow> int \<Rightarrow> fields" where
  "omit_int k n = (if n = 0 then [] else [(k, JInt n)])"

definition omit_str :: "string \<Rightarrow> string \<Rightarrow> fields" where
  "omit_str k s = (if s = [] then [] else [(k, JStr s)])"

definition details_raw :: "go_lib \<Rightarrow> fd3ViolationDetails \<Rightarrow> raw_message option" where
  "details_raw L d =
     (let v = JObj ([(''fd3_line'', JInt (vd_Fd3Line d))] @ omit_int ''line_bytes'' (vd_LineBytes d) @
          omit_int ''max_event_line_size'' (vd_MaxEventLineSize d) @ omit_str ''event'' (vd_Event d) @
          omit_str ''key'' (vd_Key d) @ omit_int ''max_output_files_per_mission'' (vd_MaxOutputFiles d) @
          omit_str ''first_event'' (vd_FirstEvent d) @ omit_int ''first_fd3_line'' (vd_FirstFd3Line d))
      in Some \<lparr>raw_value = v, raw_len = gl_marshal_len L v\<rparr>)"

definition fd3Subject :: "string \<Rightarrow> int \<Rightarrow> string" where
  "fd3Subject kind lineNo =
     (if kind = [] then ''fd3 line '' @ itoa lineNo
      else ''fd3 '' @ kind @ '' event (line '' @ itoa lineNo @ '')'')"

definition maxEchoBytes :: int where
  "maxEchoBytes = 128"

definition maxErrorTextBytes :: int where
  "maxErrorTextBytes = 256"

definition protocolViolation :: "go_lib \<Rightarrow> string \<Rightarrow> fd3ViolationDetails \<Rightarrow> Fd3Violation" where
  "protocolViolation L msg d =
     \<lparr>vio_Reason = ''event_protocol_error'', vio_Message = msg, vio_Details = details_raw L d\<rparr>"

definition describeDecodeError :: "go_lib \<Rightarrow> decode_error \<Rightarrow> string" where
  "describeDecodeError L e =
     (case e of
        TypeErr field ty val \<Rightarrow>
          if field = [] then ''expected a JSON object, got '' @ clipUTF8 val maxEchoBytes
          else ''field '' @ gl_quote L field @ '' must be '' @ ty @ '', got '' @ clipUTF8 val maxEchoBytes
      | OtherErr text \<Rightarrow> clipUTF8 text maxErrorTextBytes)"

definition undecodableLineViolation :: "go_lib \<Rightarrow> string \<Rightarrow> int \<Rightarrow> Fd3Violation" where
  "undecodableLineViolation L line lineNo =
     protocolViolation L
       (if gl_unmarshal L line = None then
          fd3Subject [] lineNo @ '' is not valid JSON: '' @ clipUTF8 (gl_errtext L line) maxErrorTextBytes @
          ''; line starts with '' @ gl_quote L (clipUTF8 line maxEchoBytes)
        else fd3Subject [] lineNo @ '' does not match the event schema: '' @
          describeDecodeError L (gl_type_error L line []))
       (details_at lineNo)"

definition schemaViolation :: "go_lib \<Rightarrow> string \<Rightarrow> int \<Rightarrow> decode_error \<Rightarrow> Fd3Violation" where
  "schemaViolation L kind lineNo e =
     protocolViolation L (fd3Subject kind lineNo @ '' does not match the schema: '' @ describeDecodeError L e)
       ((details_at lineNo)\<lparr>vd_Event := kind\<rparr>)"

definition jsonValueKind :: "json \<Rightarrow> string" where
  "jsonValueKind v =
     (case v of JArr _ \<Rightarrow> ''array'' | JStr _ \<Rightarrow> ''string'' | JBool _ \<Rightarrow> ''boolean'' | _ \<Rightarrow> ''number'')"

definition notObjectViolation :: "go_lib \<Rightarrow> string \<Rightarrow> string \<Rightarrow> json \<Rightarrow> int \<Rightarrow> Fd3Violation" where
  "notObjectViolation L kind field v lineNo =
     protocolViolation L (fd3Subject kind lineNo @ '': '' @ gl_quote L field @
         '' must be a JSON object or null, got '' @ jsonValueKind v)
       ((details_at lineNo)\<lparr>vd_Event := kind\<rparr>)"

definition unknownEventViolation :: "go_lib \<Rightarrow> string \<Rightarrow> int \<Rightarrow> Fd3Violation" where
  "unknownEventViolation L name lineNo =
     protocolViolation L
       (if name \<noteq> [] then fd3Subject [] lineNo @ '' has unknown event '' @ gl_quote L (clipUTF8 name maxEchoBytes) @
          '' (want progress, output_file, success or fail)''
        else fd3Subject [] lineNo @ '' has a missing or empty '' @ quoted ''event'' @ '' field'')
       (details_at lineNo)"

section \<open>Reading a line\<close>

definition oversizedHeadBytes :: nat where
  "oversizedHeadBytes = 512"

record boundedLine =
  bl_data :: string
  bl_size :: nat
  bl_oversized :: bool
  bl_head :: string
  bl_eof :: bool

definition empty_line :: boundedLine where
  "empty_line = \<lparr>bl_data = [], bl_size = 0, bl_oversized = False, bl_head = [], bl_eof = False\<rparr>"

text \<open>A chunk is its bytes, whether the line continues, and whether the reader failed or ended.\<close>

type_synonym chunk = "string \<times> bool \<times> bool"

definition add_chunk :: "int \<Rightarrow> boundedLine \<Rightarrow> string \<Rightarrow> boundedLine" where
  "add_chunk maxSize l0 c =
     (let l = l0\<lparr>bl_size := bl_size l0 + length c\<rparr> in
      if \<not> bl_oversized l \<and> c \<noteq> [] then
        (if 0 < maxSize \<and> maxSize < int (length (bl_data l)) + int (length c) then
           (let h = take (min (length (bl_data l)) oversizedHeadBytes) (bl_data l)
            in l\<lparr>bl_oversized := True, bl_head := h @ take (min (length c) (oversizedHeadBytes - length h)) c,
                 bl_data := []\<rparr>)
         else l\<lparr>bl_data := bl_data l @ c\<rparr>)
      else l)"

fun readLineBounded :: "int \<Rightarrow> boundedLine \<Rightarrow> chunk list \<Rightarrow> boundedLine \<times> chunk list" where
  "readLineBounded maxSize l [] = (l\<lparr>bl_eof := True\<rparr>, [])"
| "readLineBounded maxSize l ((c, isPrefix, err) # cs) =
     (let l1 = add_chunk maxSize l c in
      if err then (l1\<lparr>bl_eof := True\<rparr>, cs)
      else if \<not> isPrefix then (l1, cs)
      else readLineBounded maxSize l1 cs)"

fun sniff_members :: "(string \<times> json option) list \<Rightarrow> string" where
  "sniff_members [] = []"
| "sniff_members ((k, v) # ms) =
     (if k \<noteq> ''event'' then (case v of None \<Rightarrow> [] | Some _ \<Rightarrow> sniff_members ms)
      else case v of
             Some (JStr s) \<Rightarrow> if s \<in> {''progress'', ''output_file'', ''success'', ''fail''} then s else []
           | _ \<Rightarrow> [])"

definition sniffEventKind :: "go_lib \<Rightarrow> string \<Rightarrow> string" where
  "sniffEventKind L head = (case gl_head L head of None \<Rightarrow> [] | Some ms \<Rightarrow> sniff_members ms)"

definition lineTooLargeViolation :: "go_lib \<Rightarrow> boundedLine \<Rightarrow> int \<Rightarrow> int \<Rightarrow> Fd3Violation" where
  "lineTooLargeViolation L l lineNo maxSize =
     (let kind = sniffEventKind L (bl_head l);
          msg = fd3Subject kind lineNo @ '' is '' @ itoa (int (bl_size l)) @
            '' bytes, exceeds max_event_line_size ('' @ itoa maxSize @ '' bytes)''
      in \<lparr>vio_Reason = ''event_line_too_large'',
          vio_Message = (if kind = ''success'' then msg @ ''; return less data or write it to an output file'' else msg),
          vio_Details = details_raw L ((details_at lineNo)\<lparr>vd_LineBytes := int (bl_size l),
            vd_MaxEventLineSize := maxSize, vd_Event := kind\<rparr>)\<rparr>)"

section \<open>Handling a line\<close>

text \<open>Decoding into a struct: an object gives its members, null leaves every field unset.\<close>

definition struct_members :: "json \<Rightarrow> fields option" where
  "struct_members v = (case v of JObj m \<Rightarrow> Some m | JNull \<Rightarrow> Some [] | _ \<Rightarrow> None)"

text \<open>A pointer field: null clears it.\<close>

definition dec_ptr :: "(json \<Rightarrow> 'a option) \<Rightarrow> string \<Rightarrow> fields \<Rightarrow> 'a option option" where
  "dec_ptr conv field m =
     foldl (\<lambda>acc v. case acc of None \<Rightarrow> None
              | Some _ \<Rightarrow> (if v = JNull then Some None else map_option Some (conv v)))
       (Some None) (members_of field m)"

definition conv_num :: "json \<Rightarrow> rat option" where
  "conv_num v = (case v of JInt i \<Rightarrow> Some (of_int i) | JFlt r \<Rightarrow> Some r | _ \<Rightarrow> None)"

text \<open>A \<^verbatim>\<open>json.RawMessage\<close> field captures the last member of that name, null included.\<close>

definition dec_raw :: "go_lib \<Rightarrow> string \<Rightarrow> string \<Rightarrow> fields \<Rightarrow> raw_message option" where
  "dec_raw L line field m =
     (case rev (members_of field m) of [] \<Rightarrow> None
      | v # _ \<Rightarrow> Some \<lparr>raw_value = v, raw_len = gl_raw_len L line field\<rparr>)"

definition isObjectOrNull :: "raw_message option \<Rightarrow> bool" where
  "isObjectOrNull r =
     (case r of None \<Rightarrow> True | Some m \<Rightarrow> (case raw_value m of JObj _ \<Rightarrow> True | JNull \<Rightarrow> True | _ \<Rightarrow> False))"

definition setFinal :: "go_lib \<Rightarrow> Fd3Final \<Rightarrow> int \<Rightarrow> Fd3State \<Rightarrow> Fd3State" where
  "setFinal L f lineNo s =
     (case f3_Final s of
        Some g \<Rightarrow>
          recordViolation
            \<lparr>vio_Reason = ''duplicate_final_event'',
             vio_Message = fd3Subject (fin_Kind f) lineNo @ '' is a second final event after the '' @
               fin_Kind g @ '' event on line '' @ itoa (f3_finalLine s),
             vio_Details = details_raw L ((details_at lineNo)\<lparr>vd_Event := fin_Kind f,
               vd_FirstEvent := fin_Kind g, vd_FirstFd3Line := f3_finalLine s\<rparr>)\<rparr> s
      | None \<Rightarrow> s\<lparr>f3_Final := Some f, f3_finalLine := lineNo\<rparr>)"

text \<open>The branches of \<^verbatim>\<open>handleLine\<close>, one definition per event kind.\<close>

definition handle_progress :: "go_lib \<Rightarrow> string \<Rightarrow> int \<Rightarrow> bool \<Rightarrow> fields \<Rightarrow> Fd3State \<Rightarrow> Fd3State" where
  "handle_progress L line lineNo room m s =
     (case (dec_ptr conv_num ''value'' m, dec_str ''message'' m) of
        (Some v, Some msg) \<Rightarrow>
          if room then s\<lparr>f3_progressCh := f3_progressCh s @ [\<lparr>pe_Value = v, pe_Message = msg\<rparr>]\<rparr>
          else s\<lparr>f3_ProgressDrops := f3_ProgressDrops s + 1\<rparr>
      | _ \<Rightarrow> recordViolation (schemaViolation L ''progress'' lineNo (gl_type_error L line ''progress'')) s)"

definition handle_output_file :: "go_lib \<Rightarrow> Fd3Limits \<Rightarrow> string \<Rightarrow> int \<Rightarrow> fields \<Rightarrow> Fd3State \<Rightarrow> Fd3State" where
  "handle_output_file L limits line lineNo m s =
     (case dec_str ''key'' m of
        None \<Rightarrow> recordViolation (schemaViolation L ''output_file'' lineNo (gl_type_error L line ''output_file'')) s
      | Some key \<Rightarrow>
          (case ValidateRoleKey L key of
            Some err \<Rightarrow>
            recordViolation (protocolViolation L
              (fd3Subject ''output_file'' lineNo @ '': '' @ clipUTF8 err maxErrorTextBytes)
              ((details_at lineNo)\<lparr>vd_Event := ''output_file'', vd_Key := clipUTF8 key maxEchoBytes\<rparr>)) s
          | None \<Rightarrow>
          if key \<in> set (f3_OutputFiles s) then s
          else if 0 < fl_MaxOutputFilesPerMsn limits \<and>
                  fl_MaxOutputFilesPerMsn limits \<le> int (length (f3_OutputFiles s)) then
            recordViolation
              \<lparr>vio_Reason = ''too_many_output_files'',
               vio_Message = fd3Subject ''output_file'' lineNo @ '' declares key '' @ gl_quote L key @
                 '' beyond max_output_files_per_mission ('' @ itoa (fl_MaxOutputFilesPerMsn limits) @ '')'',
               vio_Details = details_raw L ((details_at lineNo)\<lparr>vd_Event := ''output_file'', vd_Key := key,
                 vd_MaxOutputFiles := fl_MaxOutputFilesPerMsn limits\<rparr>)\<rparr> s
          else s\<lparr>f3_OutputFiles := f3_OutputFiles s @ [key]\<rparr>))"

definition handle_success :: "go_lib \<Rightarrow> string \<Rightarrow> int \<Rightarrow> fields \<Rightarrow> Fd3State \<Rightarrow> Fd3State" where
  "handle_success L line lineNo m s =
     (let ret = dec_raw L line ''return'' m in
      if \<not> isObjectOrNull ret then
        recordViolation (notObjectViolation L ''success'' ''return'' (raw_or_null ret) lineNo) s
      else setFinal L \<lparr>fin_Kind = ''success'', fin_Return = ret, fin_Message = [], fin_Reason = [],
             fin_Details = None, fin_ExitHint = 0\<rparr> lineNo s)"

definition handle_fail :: "go_lib \<Rightarrow> string \<Rightarrow> int \<Rightarrow> fields \<Rightarrow> Fd3State \<Rightarrow> Fd3State" where
  "handle_fail L line lineNo m s =
     (case (dec_str ''message'' m, dec_str ''reason'' m, dec_ptr conv_i64 ''exit_code'' m) of
        (Some msg, Some reason, Some code) \<Rightarrow>
          (let det = dec_raw L line ''details'' m in
           if \<not> isObjectOrNull det then
             recordViolation (notObjectViolation L ''fail'' ''details'' (raw_or_null det) lineNo) s
           else setFinal L \<lparr>fin_Kind = ''fail'', fin_Return = None, fin_Message = msg, fin_Reason = reason,
                  fin_Details = det, fin_ExitHint = (case code of None \<Rightarrow> 1 | Some n \<Rightarrow> n)\<rparr> lineNo s)
      | _ \<Rightarrow> recordViolation (schemaViolation L ''fail'' lineNo (gl_type_error L line ''fail'')) s)"

text \<open>\<open>room\<close> says whether the progress channel can take an event at this moment.\<close>

definition handleLine :: "go_lib \<Rightarrow> Fd3Limits \<Rightarrow> string \<Rightarrow> int \<Rightarrow> bool \<Rightarrow> Fd3State \<Rightarrow> Fd3State" where
  "handleLine L limits line lineNo room s =
     (case Option.bind (gl_unmarshal L line) struct_members of
        None \<Rightarrow> recordViolation (undecodableLineViolation L line lineNo) s
      | Some m \<Rightarrow>
          (case dec_str ''event'' m of
             None \<Rightarrow> recordViolation (undecodableLineViolation L line lineNo) s
           | Some ev \<Rightarrow>
               if ev = ''progress'' then handle_progress L line lineNo room m s
               else if ev = ''output_file'' then handle_output_file L limits line lineNo m s
               else if ev = ''success'' then handle_success L line lineNo m s
               else if ev = ''fail'' then handle_fail L line lineNo m s
               else recordViolation (unknownEventViolation L ev lineNo) s))"

section \<open>The reader loop\<close>

lemma readLineBounded_rest:
  "readLineBounded maxSize l cs = (l', rest) \<Longrightarrow> \<not> bl_eof l' \<Longrightarrow> length rest < length cs"
  by (induction maxSize l cs rule: readLineBounded.induct) (auto simp: Let_def split: if_splits)

text \<open>
  Each element of the environment says whether the context is cancelled before an iteration
  and whether the progress channel has room in it.
\<close>

function ReadFd3 ::
  "go_lib \<Rightarrow> Fd3Limits \<Rightarrow> int \<Rightarrow> (bool \<times> bool) list \<Rightarrow> chunk list \<Rightarrow> Fd3State \<Rightarrow> Fd3State" where
  "ReadFd3 L limits lineNo env cs s =
     (let (cancelled, room) = (case env of [] \<Rightarrow> (False, True) | e # _ \<Rightarrow> e) in
      if cancelled then s
      else
        let no = lineNo + 1;
            (l, rest) = readLineBounded (fl_MaxEventLineSize limits) empty_line cs;
            s1 = (if bl_oversized l
                  then recordViolation (lineTooLargeViolation L l no (fl_MaxEventLineSize limits)) s
                  else if bl_data l \<noteq> [] then handleLine L limits (bl_data l) no room s else s)
        in if bl_eof l then s1 else ReadFd3 L limits no (tl env) rest s1)"
  by pat_completeness auto
termination
  by (relation "measure (\<lambda>(_, _, _, _, cs, _). length cs)") (auto dest: readLineBounded_rest [OF sym])

declare ReadFd3.simps [simp del]

section \<open>Bounded lines\<close>

text \<open>What a line accumulates is a function of its bytes, however they are chunked.\<close>

definition line_holds :: "int \<Rightarrow> boundedLine \<Rightarrow> string \<Rightarrow> bool" where
  "line_holds maxSize l b \<longleftrightarrow>
     bl_size l = length b \<and> (bl_oversized l \<longleftrightarrow> 0 < maxSize \<and> maxSize < int (length b)) \<and>
     bl_data l = (if bl_oversized l then [] else b) \<and>
     length (bl_head l) \<le> oversizedHeadBytes \<and> take (length (bl_head l)) b = bl_head l"

lemma line_holds_empty: "line_holds maxSize empty_line []"
  by (simp add: line_holds_def empty_line_def)

lemma line_holds_add:
  assumes "line_holds maxSize l b"
  shows "line_holds maxSize (add_chunk maxSize l c) (b @ c)"
proof -
  have le: "length (bl_head l) \<le> length b"
    using assms by (metis line_holds_def length_take min.cobounded1)
  show ?thesis
  proof (cases "bl_oversized l \<or> c = []")
    case True
    with assms le show ?thesis by (auto simp: line_holds_def add_chunk_def Let_def)
  next
    case False
    with assms have d: "bl_data l = b" by (auto simp: line_holds_def)
    show ?thesis
    proof (cases "0 < maxSize \<and> maxSize < int (length b) + int (length c)")
      case True
      with assms False d show ?thesis
        by (auto simp: line_holds_def add_chunk_def Let_def min_def)
    next
      case small: False
      with assms False d le show ?thesis by (auto simp: line_holds_def add_chunk_def Let_def)
    qed
  qed
qed

text \<open>The bytes of the first line of a stream of chunks.\<close>

fun first_line :: "chunk list \<Rightarrow> string" where
  "first_line [] = []"
| "first_line ((c, isPrefix, err) # cs) = c @ (if err \<or> \<not> isPrefix then [] else first_line cs)"

lemma readLineBounded_holds:
  assumes "line_holds maxSize l b" and "readLineBounded maxSize l cs = (l', rest)"
  shows "line_holds maxSize l' (b @ first_line cs)"
  using assms
proof (induction maxSize l cs arbitrary: b rule: readLineBounded.induct)
  case (1 maxSize l)
  then show ?case by (auto simp: line_holds_def)
next
  case (2 maxSize l c isPrefix err cs)
  note h = line_holds_add [OF "2.prems"(1), of c]
  show ?case
  proof (cases "err \<or> \<not> isPrefix")
    case True
    with "2.prems"(2) h show ?thesis by (auto simp: line_holds_def Let_def split: if_splits)
  next
    case False
    with "2.prems"(2) have "readLineBounded maxSize (add_chunk maxSize l c) cs = (l', rest)" by simp
    with "2.IH" [OF refl _ _ h] False show ?thesis by simp
  qed
qed

section \<open>What a run of the reader keeps\<close>

text \<open>
  Every violation classifies as a failure, at most 32 are kept; the declared keys are valid,
  distinct and within the limit; a final event carries an object or null.
\<close>

definition final_ok :: "Fd3Final \<Rightarrow> bool" where
  "final_ok f \<longleftrightarrow> fin_Kind f \<in> {''success'', ''fail''} \<and> isObjectOrNull (fin_Return f) \<and> isObjectOrNull (fin_Details f)"

definition fd3_ok :: "go_lib \<Rightarrow> Fd3Limits \<Rightarrow> Fd3State \<Rightarrow> bool" where
  "fd3_ok L limits s \<longleftrightarrow>
     length (f3_Violations s) \<le> maxRecordedViolations \<and>
     (\<forall>v \<in> set (f3_Violations s). vio_Reason v \<in> set fatal_reasons) \<and>
     distinct (f3_OutputFiles s) \<and> (\<forall>k \<in> set (f3_OutputFiles s). ValidateRoleKey L k = None) \<and>
     (0 < fl_MaxOutputFilesPerMsn limits \<longrightarrow> int (length (f3_OutputFiles s)) \<le> fl_MaxOutputFilesPerMsn limits) \<and>
     (\<forall>f. f3_Final s = Some f \<longrightarrow> final_ok f)"

text \<open>A later state extends an earlier one: nothing recorded is withdrawn or replaced.\<close>

definition extends :: "Fd3State \<Rightarrow> Fd3State \<Rightarrow> bool" where
  "extends s s' \<longleftrightarrow>
     (\<forall>f. f3_Final s = Some f \<longrightarrow> f3_Final s' = Some f) \<and>
     (\<exists>vs. f3_Violations s' = f3_Violations s @ vs) \<and>
     (\<exists>ks. f3_OutputFiles s' = f3_OutputFiles s @ ks)"

lemma extends_refl [simp]: "extends s s"
  by (simp add: extends_def)

lemma extends_trans: "extends a b \<Longrightarrow> extends b c \<Longrightarrow> extends a c"
  by (auto simp: extends_def)

text \<open>The contract of one step of the reader.\<close>

locale fd3_step =
  fixes L :: go_lib and limits :: Fd3Limits and step :: "Fd3State \<Rightarrow> Fd3State"
  assumes step_ok: "fd3_ok L limits s \<Longrightarrow> fd3_ok L limits (step s)"
    and step_extends: "extends s (step s)"
begin

lemma run_ok: "fd3_ok L limits s \<Longrightarrow> fd3_ok L limits ((step ^^ n) s) \<and> extends s ((step ^^ n) s)"
  by (induction n) (auto intro: step_ok step_extends extends_trans)

end

lemma fatal_reasons_in [simp]:
  "''event_line_too_large'' \<in> set fatal_reasons" "''event_protocol_error'' \<in> set fatal_reasons"
  "''duplicate_final_event'' \<in> set fatal_reasons" "''too_many_output_files'' \<in> set fatal_reasons"
  by (simp_all add: fatal_reasons_def)

lemma recordViolation_ok:
  "fd3_ok L limits s \<Longrightarrow> vio_Reason v \<in> set fatal_reasons \<Longrightarrow> fd3_ok L limits (recordViolation v s)"
  by (auto simp: recordViolation_def fd3_ok_def)

lemma recordViolation_extends: "extends s (recordViolation v s)"
  by (simp add: recordViolation_def extends_def)

lemma vio_reasons [simp]:
  "vio_Reason (protocolViolation L msg d) = ''event_protocol_error''"
  "vio_Reason (undecodableLineViolation L line n) = ''event_protocol_error''"
  "vio_Reason (schemaViolation L k n e) = ''event_protocol_error''"
  "vio_Reason (notObjectViolation L k f v n) = ''event_protocol_error''"
  "vio_Reason (unknownEventViolation L ev n) = ''event_protocol_error''"
  "vio_Reason (lineTooLargeViolation L l n m) = ''event_line_too_large''"
  by (simp_all add: protocolViolation_def undecodableLineViolation_def schemaViolation_def
      notObjectViolation_def unknownEventViolation_def lineTooLargeViolation_def Let_def)

interpretation violation: fd3_step L limits "recordViolation (protocolViolation L msg d)" for L limits msg d
  by unfold_locales (simp_all add: recordViolation_ok recordViolation_extends)

lemma setFinal_ok: "fd3_ok L limits s \<Longrightarrow> final_ok f \<Longrightarrow> fd3_ok L limits (setFinal L f n s)"
  by (auto simp: setFinal_def intro!: recordViolation_ok split: option.split) (simp add: fd3_ok_def)

lemma setFinal_extends: "extends s (setFinal L f n s)"
  by (auto simp: setFinal_def recordViolation_extends split: option.split) (simp add: extends_def)

interpretation progress: fd3_step L limits "handle_progress L line n room m" for L limits line n room m
proof unfold_locales
  fix s
  show "fd3_ok L limits s \<Longrightarrow> fd3_ok L limits (handle_progress L line n room m s)"
    by (simp add: handle_progress_def recordViolation_ok split: option.split) (simp add: fd3_ok_def)
  show "extends s (handle_progress L line n room m s)"
    by (simp add: handle_progress_def recordViolation_extends split: option.split) (simp add: extends_def)
qed

interpretation output_file: fd3_step L limits "handle_output_file L limits line n m" for L limits line n m
proof unfold_locales
  fix s
  show "fd3_ok L limits s \<Longrightarrow> fd3_ok L limits (handle_output_file L limits line n m s)"
    by (simp add: handle_output_file_def recordViolation_ok split: option.split) (auto simp: fd3_ok_def)
  show "extends s (handle_output_file L limits line n m s)"
    by (simp add: handle_output_file_def recordViolation_extends split: option.split) (simp add: extends_def)
qed

interpretation success: fd3_step L limits "handle_success L line n m" for L limits line n m
proof unfold_locales
  fix s
  show "fd3_ok L limits s \<Longrightarrow> fd3_ok L limits (handle_success L line n m s)"
    by (auto simp: handle_success_def Let_def intro!: recordViolation_ok setFinal_ok)
      (simp add: final_ok_def isObjectOrNull_def)
  show "extends s (handle_success L line n m s)"
    by (simp add: handle_success_def Let_def recordViolation_extends setFinal_extends)
qed

interpretation failing: fd3_step L limits "handle_fail L line n m" for L limits line n m
proof unfold_locales
  fix s
  have "final_ok \<lparr>fin_Kind = ''fail'', fin_Return = None, fin_Message = msg, fin_Reason = reason,
      fin_Details = det, fin_ExitHint = h\<rparr>" if "isObjectOrNull det" for msg reason det h
    using that by (simp add: final_ok_def) (simp add: isObjectOrNull_def)
  then show "fd3_ok L limits s \<Longrightarrow> fd3_ok L limits (handle_fail L line n m s)"
    by (auto simp: handle_fail_def Let_def recordViolation_ok setFinal_ok split: option.split)
  show "extends s (handle_fail L line n m s)"
    by (simp add: handle_fail_def Let_def recordViolation_extends setFinal_extends split: option.split)
qed

interpretation line: fd3_step L limits "handleLine L limits l n room" for L limits l n room
proof unfold_locales
  fix s
  show "fd3_ok L limits s \<Longrightarrow> fd3_ok L limits (handleLine L limits l n room s)"
    by (simp add: handleLine_def recordViolation_ok progress.step_ok output_file.step_ok success.step_ok
        failing.step_ok split: option.split)
  show "extends s (handleLine L limits l n room s)"
    by (simp add: handleLine_def recordViolation_extends progress.step_extends output_file.step_extends
        success.step_extends failing.step_extends split: option.split)
qed

lemma ReadFd3_inv:
  "(fd3_ok L limits s \<longrightarrow> fd3_ok L limits (ReadFd3 L limits n env cs s)) \<and> extends s (ReadFd3 L limits n env cs s)"
proof (induction L limits n env cs s rule: ReadFd3.induct)
  case (1 L limits n env cs s)
  obtain cancelled room where e: "(case env of [] \<Rightarrow> (False, True) | e # _ \<Rightarrow> e) = (cancelled, room)"
    by (cases "case env of [] \<Rightarrow> (False, True) | e # _ \<Rightarrow> e")
  obtain l rest where r: "readLineBounded (fl_MaxEventLineSize limits) empty_line cs = (l, rest)"
    by (cases "readLineBounded (fl_MaxEventLineSize limits) empty_line cs")
  let ?s = "if bl_oversized l then recordViolation (lineTooLargeViolation L l (n + 1) (fl_MaxEventLineSize limits)) s
    else if bl_data l \<noteq> [] then handleLine L limits (bl_data l) (n + 1) room s else s"
  have ok: "fd3_ok L limits s \<longrightarrow> fd3_ok L limits ?s" and ext: "extends s ?s"
    by (simp_all add: recordViolation_ok recordViolation_extends line.step_ok line.step_extends)
  show ?case
  proof (cases "cancelled \<or> bl_eof l")
    case True
    with e r ok ext show ?thesis by (subst (1 2) ReadFd3.simps) (auto simp: Let_def)
  next
    case False
    then have eq: "ReadFd3 L limits n env cs s = ReadFd3 L limits (n + 1) (tl env) rest ?s"
      by (subst ReadFd3.simps) (simp add: e r Let_def)
    have "(fd3_ok L limits ?s \<longrightarrow> fd3_ok L limits (ReadFd3 L limits (n + 1) (tl env) rest ?s)) \<and>
        extends ?s (ReadFd3 L limits (n + 1) (tl env) rest ?s)"
      using False by (intro "1.IH" [OF e [symmetric] refl _ refl r [symmetric] refl refl]) simp_all
    with ok ext eq show ?thesis using extends_trans by metis
  qed
qed

lemma fd3_init_ok: "fd3_ok L limits fd3_init"
  by (simp add: fd3_ok_def fd3_init_def)

text \<open>A second final event and a line the decoder rejects leave a violation.\<close>

lemma recordViolation_nonempty: "f3_Violations (recordViolation v s) \<noteq> []"
  by (auto simp: recordViolation_def maxRecordedViolations_def)

lemma setFinal_twice: "f3_Final s \<noteq> None \<Longrightarrow> f3_Violations (setFinal L f n s) \<noteq> []"
  by (auto simp: setFinal_def recordViolation_nonempty)

end
