(* ===== verification/Names.thy ===== *)
theory Names
  imports Fd3
begin

text \<open>
  The name checks of \<^verbatim>\<open>internal/config/validation.go\<close>: regular expressions as a class of first
  characters, a class of further characters and a length.  A valid name has no path separator
  and does not start with a dot, so it stays one component of a path.
\<close>

definition lower_az :: "char \<Rightarrow> bool" where
  "lower_az c \<longleftrightarrow> 97 \<le> (of_char c :: nat) \<and> (of_char c :: nat) \<le> 122"

definition digit_09 :: "char \<Rightarrow> bool" where
  "digit_09 c \<longleftrightarrow> 48 \<le> (of_char c :: nat) \<and> (of_char c :: nat) \<le> 57"

definition name_regex :: "(char \<Rightarrow> bool) \<Rightarrow> (char \<Rightarrow> bool) \<Rightarrow> string \<Rightarrow> bool" where
  "name_regex first rest s = (case s of [] \<Rightarrow> False | c # t \<Rightarrow> first c \<and> list_all rest t)"

definition slug_char :: "char \<Rightarrow> bool" where
  "slug_char c \<longleftrightarrow> lower_az c \<or> digit_09 c \<or> c = CHR ''_'' \<or> c = CHR ''-''"

definition ValidateDugdaleID :: "string \<Rightarrow> bool" where
  "ValidateDugdaleID s \<longleftrightarrow> name_regex lower_az slug_char s \<and> length s \<le> 64"

definition ValidateLaneName :: "string \<Rightarrow> bool" where
  "ValidateLaneName s \<longleftrightarrow> name_regex lower_az slug_char s \<and> length s \<le> 32"

definition ValidateLabel :: "string \<Rightarrow> bool" where
  "ValidateLabel s \<longleftrightarrow> name_regex lower_az slug_char s \<and> length s \<le> 32"

definition ValidateRouteName :: "string \<Rightarrow> bool" where
  "ValidateRouteName s \<longleftrightarrow> name_regex lower_az slug_char s \<and> length s \<le> 64"

definition ValidateMissionName :: "string \<Rightarrow> bool" where
  "ValidateMissionName s \<longleftrightarrow>
     s \<noteq> [] \<and> length s \<le> 128 \<and>
     name_regex key_char (\<lambda>c. key_char c \<or> c = CHR ''.'' \<or> c = CHR ''-'') s"

lemma name_chars:
  assumes "name_regex first rest s" and "\<And>c. first c \<Longrightarrow> P c" and "\<And>c. rest c \<Longrightarrow> P c" and "c \<in> set s"
  shows "P c"
  using assms by (auto simp: name_regex_def list_all_iff split: list.splits)

lemma mission_name_is_component:
  assumes "ValidateMissionName s"
  shows "CHR ''/'' \<notin> set s" and "hd s \<noteq> CHR ''.''"
proof -
  have re: "name_regex key_char (\<lambda>c. key_char c \<or> c = CHR ''.'' \<or> c = CHR ''-'') s"
    using assms by (simp add: ValidateMissionName_def)
  have word: "key_char c \<Longrightarrow> c \<noteq> CHR ''/'' \<and> c \<noteq> CHR ''.''" for c
    by (auto simp: key_char_def key_start_def)
  show "CHR ''/'' \<notin> set s"
    using name_chars [OF re, of "\<lambda>c. c \<noteq> CHR ''/''"] word by auto
  show "hd s \<noteq> CHR ''.''" using re word by (auto simp: name_regex_def split: list.splits)
qed

end
