(* ===== verification/Lane.thy ===== *)
theory Lane
  imports Missions
begin

text \<open>
  The lane runner and the lane manager (\<^verbatim>\<open>internal/lane\<close>).  The pickup goroutine is a state
  machine whose program points are the places where it reads or writes shared state; the API
  calls of other goroutines, the release callbacks of the missions it started and the writes of
  the rest of the daemon to the database interleave with it in a step relation.  The invariant
  of the reachable states gives: no mission is started twice, never more missions run than the
  largest limit ever set, and once the removal of the lane is acknowledged nothing is picked up.
  An undisturbed loop starts a waiting mission, and ends once it is cancelled, within a bounded
  number of steps.
\<close>

section \<open>The runner\<close>

text \<open>
  The program points of \<^verbatim>\<open>loop\<close>: the test of the context, the test of the removal flag, the
  read of the pause flag and the limit, the gate on the in-flight count with the limit it read,
  the pickup transaction, the start of the mission picked, the two waits, the wait for
  cancellation after the acknowledgement, and the end.
\<close>

datatype loop_pc =
    AtTop | AtRemoving | AtLimits | AtGate int | AtPickup | AtPicked mission
  | WaitWake | WaitAvail | AwaitCancel | Exited

text \<open>
  \<open>rn_notify\<close> and \<open>rn_avail\<close> are channels with a buffer of one: \<open>None\<close> is the nil channel, and
  the flag says whether the buffer is full.  \<open>rn_started\<close> says that \<^verbatim>\<open>cancel\<close> is set,
  \<open>rn_cancelled\<close> that the loop's context is done, \<open>rn_removingAck\<close> that the channel is closed.
\<close>

record runner =
  rn_Lane :: string
  rn_Concurrency :: int
  rn_paused :: bool
  rn_started :: bool
  rn_cancelled :: bool
  rn_notify :: "bool option"
  rn_avail :: "bool option"
  rn_inflight :: int
  rn_removing :: bool
  rn_removingAck :: bool
  rn_pc :: loop_pc

definition new_runner :: "string \<Rightarrow> int \<Rightarrow> runner" where
  "new_runner lane n = \<lparr>rn_Lane = lane, rn_Concurrency = n, rn_paused = False, rn_started = False,
     rn_cancelled = False, rn_notify = None, rn_avail = None, rn_inflight = 0, rn_removing = False,
     rn_removingAck = False, rn_pc = Exited\<rparr>"

text \<open>A send in a \<^verbatim>\<open>select\<close> with a default: it fills the buffer, or does nothing.\<close>

definition offer :: "bool option \<Rightarrow> bool option" where
  "offer c = map_option (\<lambda>_. True) c"

definition Start :: "runner \<Rightarrow> runner" where
  "Start r =
     (if rn_started r then r
      else r\<lparr>rn_started := True, rn_cancelled := False, rn_notify := Some False, rn_avail := Some False,
             rn_removingAck := False, rn_pc := AtTop\<rparr>)"

definition Notify :: "runner \<Rightarrow> runner" where
  "Notify r = r\<lparr>rn_notify := offer (rn_notify r)\<rparr>"

definition Pause :: "runner \<Rightarrow> runner" where
  "Pause r = r\<lparr>rn_paused := True\<rparr>"

definition Resume :: "runner \<Rightarrow> runner" where
  "Resume r = Notify (r\<lparr>rn_paused := False\<rparr>)"

definition SetConcurrency :: "int \<Rightarrow> runner \<Rightarrow> runner" where
  "SetConcurrency n r = r\<lparr>rn_Concurrency := n, rn_avail := offer (rn_avail r)\<rparr>"

text \<open>
  \<^verbatim>\<open>Stop\<close> cancels the context and then waits for the loop to end; this is the part before the
  wait.  \<^verbatim>\<open>MarkRemoving\<close> likewise sets the flag and wakes the loop, and then waits for the
  acknowledgement.
\<close>

definition Stop :: "runner \<Rightarrow> runner" where
  "Stop r = (if rn_started r then r\<lparr>rn_started := False, rn_cancelled := True\<rparr> else r)"

definition MarkRemoving :: "runner \<Rightarrow> runner" where
  "MarkRemoving r =
     r\<lparr>rn_removing := True, rn_avail := offer (rn_avail r), rn_notify := offer (rn_notify r)\<rparr>"

definition IsRemoving :: "runner \<Rightarrow> bool" where
  "IsRemoving r = rn_removing r"

definition release :: "runner \<Rightarrow> runner" where
  "release r = r\<lparr>rn_inflight := rn_inflight r - 1, rn_avail := offer (rn_avail r)\<rparr>"

section \<open>The pickup loop\<close>

definition pickup_stmt :: "string \<Rightarrow> int \<Rightarrow> mission option stmt" where
  "pickup_stmt lane nowMs d =
     (case PickQueuedForLane lane d of
        Inl e \<Rightarrow> if e = ErrNotFound then Inr (None, d) else Inl e
      | Inr m \<Rightarrow>
          (case MarkRunning (msn_ID m) nowMs 0 0 0 d of
             Inl e \<Rightarrow> Inl e
           | Inr (_, d') \<Rightarrow> Inr (Some m, d')))"

text \<open>
  What a lane acts on: its runner, the database, the calls of the spawner in order, the missions
  started and not yet released, every mission id ever stored and the largest limit ever set.
  The last two are not read by the code; they record the past.
\<close>

record lane_sys =
  ls_runner :: runner
  ls_db :: db
  ls_spawned :: "string list"
  ls_live :: "string list"
  ls_used :: "string set"
  ls_maxLimit :: int

text \<open>Which case of the \<^verbatim>\<open>select\<close> a wait takes: the context, the channel or the 30 s timer.\<close>

datatype wake = ByDone | ByChan | ByTimer

definition waitForWake :: "wake \<Rightarrow> runner \<Rightarrow> runner" where
  "waitForWake k r =
     (case k of
        ByDone \<Rightarrow> if rn_cancelled r then r\<lparr>rn_pc := AtTop\<rparr> else r
      | ByChan \<Rightarrow> if rn_notify r = Some True then r\<lparr>rn_notify := Some False, rn_pc := AtTop\<rparr> else r
      | ByTimer \<Rightarrow> r\<lparr>rn_pc := AtTop\<rparr>)"

definition waitForAvail :: "wake \<Rightarrow> runner \<Rightarrow> runner" where
  "waitForAvail k r =
     (if rn_avail r = None then r\<lparr>rn_pc := AtTop\<rparr>
      else case k of
        ByDone \<Rightarrow> if rn_cancelled r then r\<lparr>rn_pc := AtTop\<rparr> else r
      | ByChan \<Rightarrow> if rn_avail r = Some True then r\<lparr>rn_avail := Some False, rn_pc := AtTop\<rparr> else r
      | ByTimer \<Rightarrow> r\<lparr>rn_pc := AtTop\<rparr>)"

text \<open>One step of the loop; a wait whose case is not ready stays where it is.\<close>

definition loop_step :: "wake \<Rightarrow> tx_fate \<Rightarrow> int \<Rightarrow> lane_sys \<Rightarrow> lane_sys" where
  "loop_step k fate nowMs s =
     (let r = ls_runner s in
      case rn_pc r of
        AtTop \<Rightarrow> s\<lparr>ls_runner := r\<lparr>rn_pc := if rn_cancelled r then Exited else AtRemoving\<rparr>\<rparr>
      | AtRemoving \<Rightarrow>
          s\<lparr>ls_runner := (if rn_removing r then r\<lparr>rn_removingAck := True, rn_pc := AwaitCancel\<rparr>
                          else r\<lparr>rn_pc := AtLimits\<rparr>)\<rparr>
      | AtLimits \<Rightarrow>
          s\<lparr>ls_runner := r\<lparr>rn_pc := if rn_paused r then WaitWake else AtGate (rn_Concurrency r)\<rparr>\<rparr>
      | AtGate limit \<Rightarrow>
          s\<lparr>ls_runner := r\<lparr>rn_pc := if rn_inflight r \<ge> limit then WaitAvail else AtPickup\<rparr>\<rparr>
      | AtPickup \<Rightarrow>
          (case WithWriter fate (pickup_stmt (rn_Lane r) nowMs) (ls_db s) of
             (Inr (Some m), d') \<Rightarrow> s\<lparr>ls_runner := r\<lparr>rn_pc := AtPicked m\<rparr>, ls_db := d'\<rparr>
           | (_, d') \<Rightarrow> s\<lparr>ls_runner := r\<lparr>rn_pc := WaitWake\<rparr>, ls_db := d'\<rparr>)
      | AtPicked m \<Rightarrow>
          s\<lparr>ls_runner := r\<lparr>rn_inflight := rn_inflight r + 1, rn_pc := AtTop\<rparr>,
            ls_spawned := ls_spawned s @ [msn_ID m], ls_live := ls_live s @ [msn_ID m]\<rparr>
      | WaitWake \<Rightarrow> s\<lparr>ls_runner := waitForWake k r\<rparr>
      | WaitAvail \<Rightarrow> s\<lparr>ls_runner := waitForAvail k r\<rparr>
      | AwaitCancel \<Rightarrow> if rn_cancelled r then s\<lparr>ls_runner := r\<lparr>rn_pc := Exited\<rparr>\<rparr> else s
      | Exited \<Rightarrow> s)"

text \<open>The loop on its own: timers fire and transactions go through.\<close>

definition loop_run :: "int \<Rightarrow> nat \<Rightarrow> lane_sys \<Rightarrow> lane_sys" where
  "loop_run nowMs n = (loop_step ByTimer TxOk nowMs ^^ n)"

section \<open>Interleavings\<close>

text \<open>
  A statement of the rest of the daemon: it stores no new mission and puts none back into the
  queue.  Each of the storage operations that write mission rows, insertion apart, is one.
\<close>

definition queued :: "string \<Rightarrow> db \<Rightarrow> bool" where
  "queued i d \<longleftrightarrow> (\<exists>m \<in> set (missions d). msn_ID m = i \<and> msn_Status m = StatusQueued)"

definition mission_ids :: "db \<Rightarrow> string set" where
  "mission_ids d = msn_ID ` set (missions d)"

definition no_requeue :: "db \<Rightarrow> db \<Rightarrow> bool" where
  "no_requeue d d' \<longleftrightarrow> mission_ids d' \<subseteq> mission_ids d \<and> (\<forall>i. queued i d' \<longrightarrow> queued i d)"

inductive api_step :: "runner \<Rightarrow> runner \<Rightarrow> bool" where
  api_notify: "api_step r (Notify r)"
| api_pause: "api_step r (Pause r)"
| api_resume: "api_step r (Resume r)"
| api_stop: "api_step r (Stop r)"
| api_removing: "api_step r (MarkRemoving r)"

inductive lane_step :: "lane_sys \<Rightarrow> lane_sys \<Rightarrow> bool" where
  step_loop: "lane_step s (loop_step k fate nowMs s)"
| step_api: "api_step (ls_runner s) r \<Longrightarrow> lane_step s (s\<lparr>ls_runner := r\<rparr>)"
| step_resize:
    "lane_step s (s\<lparr>ls_runner := SetConcurrency n (ls_runner s), ls_maxLimit := max (ls_maxLimit s) n\<rparr>)"
| step_release:
    "i \<in> set (ls_live s) \<Longrightarrow>
     lane_step s (s\<lparr>ls_runner := release (ls_runner s), ls_live := remove1 i (ls_live s)\<rparr>)"
| step_dispatch:
    "msn_ID m \<notin> ls_used s \<Longrightarrow> InsertMission m (ls_db s) = Inr ((), d') \<Longrightarrow>
     lane_step s (s\<lparr>ls_db := d', ls_used := insert (msn_ID m) (ls_used s)\<rparr>)"
| step_write: "no_requeue (ls_db s) d' \<Longrightarrow> lane_step s (s\<lparr>ls_db := d'\<rparr>)"

text \<open>A lane just started on a database.\<close>

definition lane_start :: "string \<Rightarrow> int \<Rightarrow> db \<Rightarrow> lane_sys" where
  "lane_start lane n d = \<lparr>ls_runner = Start (new_runner lane n), ls_db = d, ls_spawned = [],
     ls_live = [], ls_used = mission_ids d, ls_maxLimit = n\<rparr>"

abbreviation lane_reach :: "lane_sys \<Rightarrow> lane_sys \<Rightarrow> bool" where
  "lane_reach \<equiv> lane_step\<^sup>*\<^sup>*"

lemmas loop_step_eqs = loop_step_def Let_def

section \<open>The pickup transaction\<close>

lemma MarkRunning_queued:
  assumes "MarkRunning mid nowMs a b c d = Inr ((), d')"
  shows "mission_ids d' = mission_ids d \<and> (queued i d' \<longleftrightarrow> queued i d \<and> i \<noteq> mid)"
proof -
  let ?P = "\<lambda>m. msn_ID m = mid \<and> msn_Status m = StatusQueued"
  let ?f = "\<lambda>m. m\<lparr>msn_Status := StatusRunning, msn_TimeStartedMs := Some nowMs, msn_PID := Some a,
              msn_PGID := Some b, msn_ProcStarttime := Some c\<rparr>"
  from assms have eq: "missions d' = map (\<lambda>m. if ?P m then ?f m else m) (missions d)"
    by (auto simp: MarkRunning_def guarded_update_def sql_update_def split: if_splits)
  have "mission_ids d' = mission_ids d"
    unfolding mission_ids_def eq set_map image_image by (rule image_cong) simp_all
  moreover have "queued i d' \<longleftrightarrow> (\<exists>m \<in> set (missions d). msn_ID m = i \<and> msn_Status m = StatusQueued \<and> i \<noteq> mid)"
    unfolding queued_def eq set_map bex_simps by (rule bex_cong) auto
  ultimately show ?thesis by (auto simp: queued_def)
qed

lemma pickup_stmt_picked:
  assumes "pickup_stmt lane nowMs d = Inr (Some m, d')"
  shows "PickQueuedForLane lane d = Inr m \<and> MarkRunning (msn_ID m) nowMs 0 0 0 d = Inr ((), d')"
  using assms by (auto simp: pickup_stmt_def split: sum.splits if_splits)

lemma pickup_stmt_none:
  assumes "pickup_stmt lane nowMs d = Inr (None, d')"
  shows "d' = d"
  using assms by (auto simp: pickup_stmt_def split: sum.splits if_splits)

lemma picked_was_queued: "PickQueuedForLane lane d = Inr m \<Longrightarrow> queued (msn_ID m) d \<and> msn_ID m \<in> mission_ids d"
  by (auto simp: queued_def mission_ids_def pickable_def dest!: PickQueuedForLane_pickable)

text \<open>A lane's queue that is not empty is picked from, in one transaction.\<close>

lemma pickup_stmt_some:
  assumes "m \<in> set (missions d)" and "pickable lane d m"
  shows "\<exists>m' d'. pickup_stmt lane nowMs d = Inr (Some m', d')"
proof (cases "PickQueuedForLane lane d")
  case (Inl e)
  with PickQueuedForLane_none [of lane d e] assms show ?thesis by blast
next
  case (Inr m')
  from picked_was_queued [OF Inr] have "filter (\<lambda>x. msn_ID x = msn_ID m' \<and> msn_Status x = StatusQueued) (missions d) \<noteq> []"
    by (auto simp: queued_def filter_empty_conv)
  with Inr show ?thesis
    by (auto simp: pickup_stmt_def MarkRunning_def guarded_update_def sql_affected_def)
qed

section \<open>Statements that put nothing back into the queue\<close>

text \<open>
  The interface the runner relies on: a write of mission rows that keeps their ids and never
  makes a row queued.
\<close>

locale row_write =
  fixes f :: "mission \<Rightarrow> mission"
  assumes same_id: "msn_ID (f m) = msn_ID m"
    and not_queued: "msn_Status (f m) = StatusQueued \<Longrightarrow> msn_Status m = StatusQueued"
begin

lemma update_no_requeue: "no_requeue d (d\<lparr>missions := sql_update P f (missions d)\<rparr>)"
  by (force simp: no_requeue_def mission_ids_def queued_def sql_update_def same_id dest: not_queued)

lemma guarded_no_requeue: "guarded_update mid G f d = Inr ((), d') \<Longrightarrow> no_requeue d d'"
  by (auto simp: guarded_update_def intro: update_no_requeue split: if_splits)

end

interpretation set_running: row_write
  "\<lambda>m. m\<lparr>msn_Status := StatusRunning, msn_TimeStartedMs := Some nowMs, msn_PID := Some pid,
        msn_PGID := Some pgid, msn_ProcStarttime := Some procStart\<rparr>" for nowMs pid pgid procStart
  by unfold_locales simp_all

interpretation set_pid: row_write
  "\<lambda>m. m\<lparr>msn_PID := Some pid, msn_PGID := Some pgid, msn_ProcStarttime := Some procStart\<rparr>" for pid pgid procStart
  by unfold_locales simp_all

interpretation set_pid_time: row_write
  "\<lambda>m. m\<lparr>msn_PID := Some pid, msn_PGID := Some pgid, msn_ProcStarttime := Some procStart,
        msn_TimeStartedMs := Some timeStartedMs\<rparr>" for pid pgid procStart timeStartedMs
  by unfold_locales simp_all

interpretation clear_parent: row_write "clear_restarted ids" for ids
  by unfold_locales (simp_all add: clear_restarted_def split: option.splits if_splits)

lemma no_requeue_trans: "no_requeue a b \<Longrightarrow> no_requeue b c \<Longrightarrow> no_requeue a c"
  by (auto simp: no_requeue_def)

lemma no_requeue_same: "missions d' = missions d \<Longrightarrow> no_requeue d d'"
  by (simp add: no_requeue_def mission_ids_def queued_def)

lemma DeleteMissions_no_requeue: "no_requeue d (DeleteMissions ids d)"
proof -
  have "missions (DeleteMissions ids d) \<noteq> missions d \<Longrightarrow>
    missions (DeleteMissions ids d) = map (clear_restarted ids) (sql_delete (\<lambda>m. msn_ID m \<in> set ids) (missions d))"
    by (simp add: DeleteMissions_def Let_def split: if_splits)
  then show ?thesis
    using clear_parent.same_id [of ids] clear_parent.not_queued [of ids]
    by (cases "missions (DeleteMissions ids d) = missions d")
      (auto simp: no_requeue_same, force simp: no_requeue_def mission_ids_def queued_def sql_delete_def)
qed

lemma statements_no_requeue:
  "MarkRunning mid nowMs pid pgid ps d = Inr ((), d') \<Longrightarrow> no_requeue d d'"
  "UpdateRunningPid mid pid pgid ps d = Inr ((), d') \<Longrightarrow> no_requeue d d'"
  "UpdateRunningPidAndTimeStarted mid pid pgid ps t d = Inr ((), d') \<Longrightarrow> no_requeue d d'"
  "InsertFinalizeIntent i d = Inr ((), d') \<Longrightarrow> no_requeue d d'"
  "no_requeue d (DeleteFinalizeIntent mid d)"
  by (auto simp: MarkRunning_def UpdateRunningPid_def UpdateRunningPidAndTimeStarted_def
      InsertFinalizeIntent_def DeleteFinalizeIntent_def
      intro: set_running.guarded_no_requeue set_pid.guarded_no_requeue set_pid_time.guarded_no_requeue
        no_requeue_same
      split: if_splits option.splits)

section \<open>Invariants of the reachable states\<close>

fun picked_id :: "loop_pc \<Rightarrow> string list" where
  "picked_id (AtPicked m) = [msn_ID m]"
| "picked_id _ = []"

text \<open>
  Every mission started, or picked and about to be, is a different one, and is out of the queue;
  the in-flight count is the number of missions started and not released.
\<close>

definition start_inv :: "lane_sys \<Rightarrow> bool" where
  "start_inv s \<longleftrightarrow>
     (let ids = ls_spawned s @ picked_id (rn_pc (ls_runner s)) in
      distinct ids \<and> set ids \<subseteq> ls_used s \<and> mission_ids (ls_db s) \<subseteq> ls_used s \<and>
      (\<forall>i \<in> set ids. \<not> queued i (ls_db s)) \<and>
      distinct (ls_live s) \<and> set (ls_live s) \<subseteq> set (ls_spawned s) \<and>
      rn_inflight (ls_runner s) = int (length (ls_live s)))"

definition limit_inv :: "lane_sys \<Rightarrow> bool" where
  "limit_inv s \<longleftrightarrow>
     (let r = ls_runner s; top = ls_maxLimit s in
      rn_Concurrency r \<le> top \<and> rn_inflight r \<le> max 0 top \<and>
      (case rn_pc r of
         AtGate limit \<Rightarrow> limit \<le> top
       | AtPickup \<Rightarrow> rn_inflight r < top
       | AtPicked _ \<Rightarrow> rn_inflight r < top
       | _ \<Rightarrow> True))"

definition removal_inv :: "lane_sys \<Rightarrow> bool" where
  "removal_inv s \<longleftrightarrow>
     (let r = ls_runner s in
      (rn_removingAck r \<longrightarrow> rn_pc r \<in> {AwaitCancel, Exited}) \<and>
      (rn_pc r = AwaitCancel \<longrightarrow> rn_removing r \<and> rn_removingAck r) \<and>
      (rn_pc r = Exited \<longrightarrow> rn_cancelled r))"

lemmas runner_ops =
  Notify_def Pause_def Resume_def Stop_def MarkRemoving_def SetConcurrency_def release_def

text \<open>The API calls leave the loop and the count alone.\<close>

lemma api_step_frame:
  assumes "api_step r r'"
  shows "rn_pc r' = rn_pc r \<and> rn_inflight r' = rn_inflight r \<and> rn_Concurrency r' = rn_Concurrency r \<and>
    rn_removingAck r' = rn_removingAck r \<and> rn_Lane r' = rn_Lane r \<and>
    (rn_removing r \<longrightarrow> rn_removing r') \<and> (rn_cancelled r \<longrightarrow> rn_cancelled r')"
  using assms by cases (simp_all add: runner_ops)

text \<open>The pickup step: one transaction, which may take a queued mission of the lane.\<close>

lemma loop_step_pickup:
  assumes "rn_pc (ls_runner s) = AtPickup"
  obtains (picked) m d' where "pickup_stmt (rn_Lane (ls_runner s)) nowMs (ls_db s) = Inr (Some m, d')"
    and "loop_step k fate nowMs s = s\<lparr>ls_runner := (ls_runner s)\<lparr>rn_pc := AtPicked m\<rparr>, ls_db := d'\<rparr>"
  | (idle) "loop_step k fate nowMs s = s\<lparr>ls_runner := (ls_runner s)\<lparr>rn_pc := WaitWake\<rparr>\<rparr>"
proof -
  obtain x d' where run: "WithWriter fate (pickup_stmt (rn_Lane (ls_runner s)) nowMs) (ls_db s) = (x, d')"
    by (cases "WithWriter fate (pickup_stmt (rn_Lane (ls_runner s)) nowMs) (ls_db s)")
  show thesis
  proof (cases x)
    case (Inl e)
    with run have "d' = ls_db s" by (auto dest: WithWriter_error)
    with run Inl assms show thesis by (intro idle) (simp add: loop_step_eqs)
  next
    case (Inr o')
    with run have stmt: "pickup_stmt (rn_Lane (ls_runner s)) nowMs (ls_db s) = Inr (o', d')"
      by (auto dest: WithWriter_ok)
    show thesis
    proof (cases o')
      case None
      with stmt have "d' = ls_db s" by (auto dest: pickup_stmt_none)
      with run Inr None assms show thesis by (intro idle) (simp add: loop_step_eqs)
    next
      case (Some m)
      with stmt run Inr assms show thesis by (intro picked) (auto simp: loop_step_eqs)
    qed
  qed
qed

text \<open>The waits change only the loop's place and a buffer.\<close>

lemma wait_timer [simp]:
  "waitForWake ByTimer r = r\<lparr>rn_pc := AtTop\<rparr>"
  "waitForAvail ByTimer r = r\<lparr>rn_pc := AtTop\<rparr>"
  by (simp_all add: waitForWake_def waitForAvail_def)

lemma wait_frame:
  "\<exists>n a p. waitForWake k r = r\<lparr>rn_notify := n, rn_avail := a, rn_pc := p\<rparr> \<and> p \<in> {AtTop, rn_pc r}"
  "\<exists>n a p. waitForAvail k r = r\<lparr>rn_notify := n, rn_avail := a, rn_pc := p\<rparr> \<and> p \<in> {AtTop, rn_pc r}"
  by (cases r; cases k; auto simp: waitForWake_def waitForAvail_def)+

lemma start_inv_loop:
  assumes "start_inv s"
  shows "start_inv (loop_step k fate nowMs s)"
proof (cases "rn_pc (ls_runner s)")
  case AtPickup
  then show ?thesis
  proof (cases rule: loop_step_pickup [where k = k and fate = fate and nowMs = nowMs])
    case (picked m d')
    from pickup_stmt_picked [OF picked(1)]
    have pick: "PickQueuedForLane (rn_Lane (ls_runner s)) (ls_db s) = Inr m"
      and mark: "MarkRunning (msn_ID m) nowMs 0 0 0 (ls_db s) = Inr ((), d')" by simp_all
    from picked_was_queued [OF pick] MarkRunning_queued [OF mark] assms AtPickup show ?thesis
      by (auto simp: picked(2) start_inv_def Let_def)
  next
    case idle
    with assms AtPickup show ?thesis by (simp add: start_inv_def)
  qed
next
  case WaitWake
  with wait_frame(1) [of k "ls_runner s"] assms show ?thesis
    by (auto simp: loop_step_eqs start_inv_def Let_def)
next
  case WaitAvail
  with wait_frame(2) [of k "ls_runner s"] assms show ?thesis
    by (auto simp: loop_step_eqs start_inv_def Let_def)
qed (use assms in \<open>auto simp: loop_step_eqs start_inv_def Let_def\<close>)

lemma limit_inv_loop:
  assumes "limit_inv s"
  shows "limit_inv (loop_step k fate nowMs s)"
proof (cases "rn_pc (ls_runner s)")
  case AtPickup
  then show ?thesis
    by (cases rule: loop_step_pickup [where k = k and fate = fate and nowMs = nowMs])
      (use assms AtPickup in \<open>simp_all add: limit_inv_def Let_def\<close>)
next
  case WaitWake
  with wait_frame(1) [of k "ls_runner s"] assms show ?thesis
    by (auto simp: loop_step_eqs limit_inv_def Let_def)
next
  case WaitAvail
  with wait_frame(2) [of k "ls_runner s"] assms show ?thesis
    by (auto simp: loop_step_eqs limit_inv_def Let_def)
qed (use assms in \<open>auto simp: loop_step_eqs limit_inv_def Let_def\<close>)

lemma removal_inv_loop:
  assumes "removal_inv s"
  shows "removal_inv (loop_step k fate nowMs s)"
proof (cases "rn_pc (ls_runner s)")
  case AtPickup
  then show ?thesis
    by (cases rule: loop_step_pickup [where k = k and fate = fate and nowMs = nowMs])
      (use assms AtPickup in \<open>simp_all add: removal_inv_def Let_def\<close>)
next
  case WaitWake
  with wait_frame(1) [of k "ls_runner s"] assms show ?thesis
    by (auto simp: loop_step_eqs removal_inv_def Let_def)
next
  case WaitAvail
  with wait_frame(2) [of k "ls_runner s"] assms show ?thesis
    by (auto simp: loop_step_eqs removal_inv_def Let_def)
qed (use assms in \<open>auto simp: loop_step_eqs removal_inv_def Let_def\<close>)

lemma InsertMission_queued:
  assumes "InsertMission m d = Inr ((), d')"
  shows "mission_ids d' = insert (msn_ID m) (mission_ids d) \<and>
    (\<forall>i. queued i d' \<longrightarrow> queued i d \<or> i = msn_ID m)"
proof -
  from assms have "missions d' = missions d @ [m]"
    by (auto simp: InsertMission_def sql_insert_def split: option.splits if_splits)
  then show ?thesis by (auto simp: mission_ids_def queued_def)
qed

definition lane_inv :: "lane_sys \<Rightarrow> bool" where
  "lane_inv s \<longleftrightarrow> start_inv s \<and> limit_inv s \<and> removal_inv s"

lemma start_inv_step:
  assumes "lane_step s s'" and "start_inv s"
  shows "start_inv s'"
  using assms(1)
proof cases
  case (step_loop k fate nowMs)
  with assms(2) show ?thesis by (simp add: start_inv_loop)
next
  case (step_api r)
  with assms(2) api_step_frame [OF step_api(2)] show ?thesis by (simp add: start_inv_def)
next
  case (step_resize n)
  with assms(2) show ?thesis by (simp add: start_inv_def SetConcurrency_def)
next
  case (step_release i)
  have "int (length (remove1 i (ls_live s))) = int (length (ls_live s)) - 1"
    using length_pos_if_in_set [OF step_release(2)] step_release(2) by (simp add: length_remove1 of_nat_diff Suc_le_eq)
  with assms(2) step_release set_remove1_subset [of i "ls_live s"] show ?thesis
    by (auto simp: start_inv_def Let_def release_def)
next
  case (step_dispatch m d')
  with assms(2) InsertMission_queued [OF step_dispatch(3)] show ?thesis
    by (simp add: start_inv_def Let_def) blast
next
  case (step_write d')
  with assms(2) show ?thesis by (auto simp: start_inv_def no_requeue_def Let_def)
qed

lemma limit_inv_step:
  assumes "lane_step s s'" and "limit_inv s"
  shows "limit_inv s'"
  using assms(1)
proof cases
  case (step_loop k fate nowMs)
  with assms(2) show ?thesis by (simp add: limit_inv_loop)
next
  case (step_api r)
  with assms(2) api_step_frame [OF step_api(2)] show ?thesis
    by (auto simp: limit_inv_def Let_def split: loop_pc.splits)
qed (use assms(2) in \<open>auto simp: limit_inv_def Let_def SetConcurrency_def release_def split: loop_pc.splits\<close>)

lemma removal_inv_step:
  assumes "lane_step s s'" and "removal_inv s"
  shows "removal_inv s'"
  using assms(1)
proof cases
  case (step_loop k fate nowMs)
  with assms(2) show ?thesis by (simp add: removal_inv_loop)
next
  case (step_api r)
  with assms(2) api_step_frame [OF step_api(2)] show ?thesis by (auto simp: removal_inv_def Let_def)
qed (use assms(2) in \<open>auto simp: removal_inv_def Let_def SetConcurrency_def release_def\<close>)

lemma lane_step_inv: "lane_step s s' \<Longrightarrow> lane_inv s \<Longrightarrow> lane_inv s'"
  by (simp add: lane_inv_def start_inv_step limit_inv_step removal_inv_step)

lemma lane_start_inv: "lane_inv (lane_start lane n d)"
  by (simp add: lane_inv_def start_inv_def limit_inv_def removal_inv_def lane_start_def Start_def new_runner_def)

lemma lane_reach_inv: "lane_reach s s' \<Longrightarrow> lane_inv s \<Longrightarrow> lane_inv s'"
  by (induction rule: rtranclp_induct) (auto dest: lane_step_inv)

section \<open>Removal and resizing\<close>

text \<open>Once the removal is acknowledged, nothing is ever started again.\<close>

lemma acked_step:
  assumes "lane_step s s'" and "lane_inv s" and "rn_removingAck (ls_runner s)"
  shows "rn_removingAck (ls_runner s') \<and> ls_spawned s' = ls_spawned s"
  using assms(1)
proof cases
  case (step_loop k fate nowMs)
  with assms(2,3) show ?thesis
    by (auto simp: lane_inv_def removal_inv_def Let_def loop_step_eqs)
next
  case (step_api r)
  with assms(3) api_step_frame [OF step_api(2)] show ?thesis by simp
qed (use assms(3) in \<open>simp_all add: SetConcurrency_def release_def\<close>)

lemma acked_reach:
  assumes "lane_reach s s'" and "lane_inv s" and "rn_removingAck (ls_runner s)"
  shows "rn_removingAck (ls_runner s') \<and> ls_spawned s' = ls_spawned s"
  using assms(1)
proof (induction rule: rtranclp_induct)
  case (step t u)
  from lane_reach_inv [OF step.hyps(1) assms(2)] acked_step [OF step.hyps(2)] step.IH show ?case by simp
qed (use assms(3) in simp)

text \<open>
  A step that starts no resize: the limit stays, and the loop passes the gate only while fewer
  missions are in flight than it.
\<close>

definition under_limit :: "int \<Rightarrow> lane_sys \<Rightarrow> bool" where
  "under_limit n s \<longleftrightarrow>
     rn_Concurrency (ls_runner s) = n \<and>
     (case rn_pc (ls_runner s) of
        AtGate limit \<Rightarrow> limit = n
      | AtPickup \<Rightarrow> rn_inflight (ls_runner s) < n
      | AtPicked _ \<Rightarrow> rn_inflight (ls_runner s) < n
      | _ \<Rightarrow> True)"

lemma under_limit_step:
  assumes "lane_step s s'" and "under_limit n s" and "rn_Concurrency (ls_runner s') = n"
  shows "under_limit n s'"
  using assms(1)
proof cases
  case (step_loop k fate nowMs)
  show ?thesis
  proof (cases "rn_pc (ls_runner s)")
    case AtPickup
    then show ?thesis
      by (cases rule: loop_step_pickup [where k = k and fate = fate and nowMs = nowMs])
        (use assms(2) AtPickup step_loop in \<open>simp_all add: under_limit_def\<close>)
  next
    case WaitWake
    with step_loop wait_frame(1) [of k "ls_runner s"] assms(2) show ?thesis
      by (auto simp: loop_step_eqs under_limit_def Let_def)
  next
    case WaitAvail
    with step_loop wait_frame(2) [of k "ls_runner s"] assms(2) show ?thesis
      by (auto simp: loop_step_eqs under_limit_def Let_def)
  qed (use assms(2) step_loop in \<open>auto simp: loop_step_eqs under_limit_def Let_def\<close>)
next
  case (step_api r)
  with assms(2) api_step_frame [OF step_api(2)] show ?thesis by (simp add: under_limit_def split: loop_pc.splits)
next
  case (step_resize m)
  with assms(2,3) show ?thesis by (auto simp: under_limit_def SetConcurrency_def split: loop_pc.splits)
next
  case (step_release i)
  with assms(2) show ?thesis by (auto simp: under_limit_def release_def split: loop_pc.splits)
qed (use assms(2) in \<open>simp_all add: under_limit_def split: loop_pc.splits\<close>)

section \<open>Progress\<close>

lemma loop_run_0 [simp]: "loop_run nowMs 0 s = s"
  by (simp add: loop_run_def)

lemma loop_run_Suc [simp]: "loop_run nowMs (Suc n) s = loop_run nowMs n (loop_step ByTimer TxOk nowMs s)"
  by (simp add: loop_run_def funpow_swap1)

lemma loop_run_numeral [simp]:
  "loop_run nowMs (numeral n) s = loop_run nowMs (pred_numeral n) (loop_step ByTimer TxOk nowMs s)"
  by (simp add: numeral_eq_Suc loop_run_Suc)

lemma loop_run_add: "loop_run nowMs (m + n) s = loop_run nowMs n (loop_run nowMs m s)"
  by (induction m arbitrary: s) (simp_all add: loop_run_Suc)

text \<open>A lane that can start a mission: alive, not being removed, open, below its limit, with work.\<close>

definition can_start :: "lane_sys \<Rightarrow> bool" where
  "can_start s \<longleftrightarrow>
     \<not> rn_cancelled (ls_runner s) \<and> \<not> rn_removing (ls_runner s) \<and> \<not> rn_paused (ls_runner s) \<and>
     rn_inflight (ls_runner s) < rn_Concurrency (ls_runner s) \<and>
     (\<exists>m \<in> set (missions (ls_db s)). pickable (rn_Lane (ls_runner s)) (ls_db s) m)"

lemma pickup_starts:
  assumes "rn_pc (ls_runner s) = AtPickup" and "can_start s"
  shows "length (ls_spawned (loop_run nowMs 2 s)) = Suc (length (ls_spawned s))"
proof -
  from assms(2) obtain m d' where "pickup_stmt (rn_Lane (ls_runner s)) nowMs (ls_db s) = Inr (Some m, d')"
    using pickup_stmt_some unfolding can_start_def by blast
  with assms(1) show ?thesis by (simp add: loop_step_eqs WithWriter_TxOk)
qed

lemma top_starts:
  assumes "rn_pc (ls_runner s) = AtTop" and "can_start s"
  shows "length (ls_spawned (loop_run nowMs 6 s)) = Suc (length (ls_spawned s))"
proof -
  define t where "t = loop_run nowMs 4 s"
  have "rn_pc (ls_runner t) = AtPickup \<and> can_start t \<and> ls_spawned t = ls_spawned s"
    using assms by (simp add: t_def loop_step_eqs can_start_def)
  from pickup_starts [of t nowMs] this loop_run_add [of nowMs 4 2 s] show ?thesis by (simp add: t_def)
qed

lemma wait_starts:
  assumes "rn_pc (ls_runner s) \<in> {WaitWake, WaitAvail}" and "can_start s"
  shows "length (ls_spawned (loop_run nowMs 7 s)) = Suc (length (ls_spawned s))"
proof -
  define t where "t = loop_step ByTimer TxOk nowMs s"
  have "rn_pc (ls_runner t) = AtTop \<and> can_start t \<and> ls_spawned t = ls_spawned s"
    using assms by (auto simp: t_def loop_step_eqs can_start_def)
  from top_starts [of t nowMs] this loop_run_add [of nowMs 1 6 s] show ?thesis by (simp add: t_def)
qed

lemma loop_starts:
  assumes "lane_inv s" and "can_start s"
  shows "\<exists>n \<le> 8. length (ls_spawned (loop_run nowMs n s)) = Suc (length (ls_spawned s))"
proof (cases "rn_pc (ls_runner s)")
  case AtTop
  from top_starts [OF AtTop assms(2)] show ?thesis by (intro exI [of _ 6]) simp
next
  case AtRemoving
  define t where "t = loop_run nowMs 3 s"
  have "rn_pc (ls_runner t) = AtPickup \<and> can_start t \<and> ls_spawned t = ls_spawned s"
    using assms AtRemoving by (simp add: t_def loop_step_eqs can_start_def)
  from pickup_starts [of t nowMs] this loop_run_add [of nowMs 3 2 s] show ?thesis
    by (intro exI [of _ 5]) (simp add: t_def)
next
  case AtLimits
  define t where "t = loop_run nowMs 2 s"
  have "rn_pc (ls_runner t) = AtPickup \<and> can_start t \<and> ls_spawned t = ls_spawned s"
    using assms AtLimits by (simp add: t_def loop_step_eqs can_start_def)
  from pickup_starts [of t nowMs] this loop_run_add [of nowMs 2 2 s] show ?thesis
    by (intro exI [of _ 4]) (simp add: t_def)
next
  case (AtGate limit)
  define t where "t = loop_run nowMs 1 s"
  have t: "rn_pc (ls_runner t) \<in> {AtPickup, WaitAvail} \<and> can_start t \<and> ls_spawned t = ls_spawned s"
    using assms AtGate by (simp add: t_def loop_step_eqs can_start_def)
  then consider "rn_pc (ls_runner t) = AtPickup" | "rn_pc (ls_runner t) = WaitAvail" by blast
  then show ?thesis
  proof cases
    case 1
    with t pickup_starts [of t nowMs] loop_run_add [of nowMs 1 2 s] show ?thesis
      by (intro exI [of _ 3]) (simp add: t_def)
  next
    case 2
    with t wait_starts [of t nowMs] loop_run_add [of nowMs 1 7 s] show ?thesis
      by (intro exI [of _ 8]) (simp add: t_def)
  qed
next
  case AtPickup
  from pickup_starts [OF AtPickup assms(2)] show ?thesis by (intro exI [of _ 2]) simp
next
  case (AtPicked m)
  then show ?thesis by (intro exI [of _ 1]) (simp add: loop_step_eqs)
next
  case WaitWake
  with wait_starts [of s nowMs] assms(2) show ?thesis by (intro exI [of _ 7]) simp
next
  case WaitAvail
  with wait_starts [of s nowMs] assms(2) show ?thesis by (intro exI [of _ 7]) simp
qed (use assms in \<open>auto simp: lane_inv_def removal_inv_def can_start_def Let_def\<close>)

lemma loop_step_cancelled [simp]: "rn_cancelled (ls_runner (loop_step k fate nowMs s)) = rn_cancelled (ls_runner s)"
proof (cases "rn_pc (ls_runner s)")
  case AtPickup
  then show ?thesis
    by (cases rule: loop_step_pickup [where k = k and fate = fate and nowMs = nowMs]) simp_all
next
  case WaitWake
  with wait_frame(1) [of k "ls_runner s"] show ?thesis by (auto simp: loop_step_eqs)
next
  case WaitAvail
  with wait_frame(2) [of k "ls_runner s"] show ?thesis by (auto simp: loop_step_eqs)
qed (simp_all add: loop_step_eqs)

text \<open>The number of steps a cancelled loop may still take, by its place.\<close>

fun steps_left :: "loop_pc \<Rightarrow> nat" where
  "steps_left AtRemoving = 6"
| "steps_left AtLimits = 5"
| "steps_left (AtGate _) = 4"
| "steps_left AtPickup = 3"
| "steps_left (AtPicked _) = 2"
| "steps_left WaitWake = 2"
| "steps_left WaitAvail = 2"
| "steps_left AtTop = 1"
| "steps_left AwaitCancel = 1"
| "steps_left Exited = 0"

lemma steps_left_decreases:
  assumes "rn_cancelled (ls_runner s)"
  shows "steps_left (rn_pc (ls_runner (loop_step ByTimer fate nowMs s))) \<le> steps_left (rn_pc (ls_runner s)) - 1"
proof (cases "rn_pc (ls_runner s)")
  case AtPickup
  then show ?thesis
    by (cases rule: loop_step_pickup [where k = ByTimer and fate = fate and nowMs = nowMs])
      (simp_all add: AtPickup)
qed (use assms in \<open>auto simp: loop_step_eqs\<close>)

lemma loop_ends:
  assumes "rn_cancelled (ls_runner s)" and "steps_left (rn_pc (ls_runner s)) \<le> n"
  shows "rn_pc (ls_runner (loop_run nowMs n s)) = Exited"
  using assms
proof (induction n arbitrary: s)
  case 0
  then show ?case by (cases "rn_pc (ls_runner s)") simp_all
next
  case (Suc n)
  with steps_left_decreases [OF Suc.prems(1), of TxOk nowMs]
  have "steps_left (rn_pc (ls_runner (loop_step ByTimer TxOk nowMs s))) \<le> n" by simp
  with Suc show ?case by simp
qed

text \<open>
  The loop of a live lane acknowledges its removal: the place it waits at, or the pickup it has
  begun, is left behind first.
\<close>

fun steps_to_ack :: "loop_pc \<Rightarrow> nat" where
  "steps_to_ack AtTop = 2"
| "steps_to_ack AtRemoving = 1"
| "steps_to_ack AtLimits = 6"
| "steps_to_ack (AtGate _) = 5"
| "steps_to_ack AtPickup = 4"
| "steps_to_ack (AtPicked _) = 3"
| "steps_to_ack WaitWake = 3"
| "steps_to_ack WaitAvail = 3"
| "steps_to_ack AwaitCancel = 0"
| "steps_to_ack Exited = 0"

definition being_removed :: "lane_sys \<Rightarrow> bool" where
  "being_removed s \<longleftrightarrow> rn_removing (ls_runner s) \<and> \<not> rn_cancelled (ls_runner s) \<and>
     rn_pc (ls_runner s) \<noteq> Exited \<and> (rn_pc (ls_runner s) = AwaitCancel \<longrightarrow> rn_removingAck (ls_runner s))"

lemma being_removed_step:
  assumes "being_removed s"
  shows "being_removed (loop_step ByTimer fate nowMs s) \<and>
    steps_to_ack (rn_pc (ls_runner (loop_step ByTimer fate nowMs s))) \<le> steps_to_ack (rn_pc (ls_runner s)) - 1"
proof (cases "rn_pc (ls_runner s)")
  case AtPickup
  then show ?thesis
    by (cases rule: loop_step_pickup [where k = ByTimer and fate = fate and nowMs = nowMs])
      (use assms in \<open>simp_all add: AtPickup being_removed_def\<close>)
qed (use assms in \<open>auto simp: loop_step_eqs being_removed_def\<close>)

lemma loop_acks:
  assumes "being_removed s" and "steps_to_ack (rn_pc (ls_runner s)) \<le> n"
  shows "rn_removingAck (ls_runner (loop_run nowMs n s))"
  using assms
proof (induction n arbitrary: s)
  case 0
  then show ?case by (cases "rn_pc (ls_runner s)") (auto simp: being_removed_def)
next
  case (Suc n)
  with being_removed_step [OF Suc.prems(1), of TxOk nowMs]
  have "being_removed (loop_step ByTimer TxOk nowMs s)"
    and "steps_to_ack (rn_pc (ls_runner (loop_step ByTimer TxOk nowMs s))) \<le> n" by (simp, linarith)
  with Suc.IH show ?case by simp
qed

section \<open>The manager\<close>

record LaneSpec =
  sp_Name :: string
  sp_Concurrency :: int
  sp_Paused :: bool

text \<open>The runners by lane, in some order of the Go map, and those stopped so far.\<close>

record manager =
  mg_runners :: "(string \<times> runner) list"
  mg_retired :: "runner list"

definition wanted_of :: "LaneSpec list \<Rightarrow> (string \<times> LaneSpec) list" where
  "wanted_of specs = fold (\<lambda>s m. mput (sp_Name s) s m) specs []"

definition reconcile_runner :: "LaneSpec \<Rightarrow> runner \<Rightarrow> runner" where
  "reconcile_runner s r =
     (let r' = (if rn_Concurrency r \<noteq> sp_Concurrency s then SetConcurrency (sp_Concurrency s) r else r)
      in if sp_Paused s then Pause r' else Resume r')"

definition start_runner :: "string \<Rightarrow> LaneSpec \<Rightarrow> runner" where
  "start_runner name s =
     (let r = Start (new_runner name (sp_Concurrency s)) in if sp_Paused s then Pause r else r)"

text \<open>One iteration of the second loop of \<^verbatim>\<open>Manager.Apply\<close>: the names started and resized, and the runners.\<close>

fun reconcile_lane ::
  "string \<times> LaneSpec \<Rightarrow> string list \<times> string list \<times> (string \<times> runner) list \<Rightarrow>
   string list \<times> string list \<times> (string \<times> runner) list" where
  "reconcile_lane (name, s) (started, resized, rs) =
     (case map_of rs name of
        Some r \<Rightarrow> (started, if rn_Concurrency r \<noteq> sp_Concurrency s then resized @ [name] else resized,
                   mput name (reconcile_runner s r) rs)
      | None \<Rightarrow> (started @ [name], resized, mput name (start_runner name s) rs))"

definition manager_Apply ::
  "LaneSpec list \<Rightarrow> manager \<Rightarrow> (string list \<times> string list \<times> string list) \<times> manager" where
  "manager_Apply specs mg =
     (let wanted = wanted_of specs;
          gone = filter (\<lambda>(name, _). map_of wanted name = None) (mg_runners mg);
          kept = filter (\<lambda>(name, _). map_of wanted name \<noteq> None) (mg_runners mg);
          (started, resized, rs) = fold reconcile_lane wanted ([], [], kept)
      in ((started, map fst gone, resized),
          mg\<lparr>mg_runners := rs, mg_retired := mg_retired mg @ map (\<lambda>(_, r). Stop r) gone\<rparr>))"

definition StopLanes :: "string list \<Rightarrow> manager \<Rightarrow> manager" where
  "StopLanes names mg =
     (let gone = filter (\<lambda>(name, _). name \<in> set names) (mg_runners mg)
      in mg\<lparr>mg_runners := filter (\<lambda>(name, _). name \<notin> set names) (mg_runners mg),
            mg_retired := mg_retired mg @ map (\<lambda>(_, r). Stop r) gone\<rparr>)"

definition StopAll :: "manager \<Rightarrow> manager" where
  "StopAll mg = mg\<lparr>mg_runners := [], mg_retired := mg_retired mg @ map (\<lambda>(_, r). Stop r) (mg_runners mg)\<rparr>"

definition on_lane :: "string \<Rightarrow> (runner \<Rightarrow> runner) \<Rightarrow> manager \<Rightarrow> (error + unit) \<times> manager" where
  "on_lane name f mg =
     (case map_of (mg_runners mg) name of
        None \<Rightarrow> (Inl ErrLaneNotFound, mg)
      | Some r \<Rightarrow> (Inr (), mg\<lparr>mg_runners := mput name (f r) (mg_runners mg)\<rparr>))"

definition manager_Notify :: "string \<Rightarrow> manager \<Rightarrow> manager" where
  "manager_Notify name mg = snd (on_lane name Notify mg)"

text \<open>
  \<^verbatim>\<open>MarkLaneRemoving\<close> returns when the loop has acknowledged: the runner is then parked waiting
  for its cancellation.
\<close>

definition MarkLaneRemoving :: "string \<Rightarrow> manager \<Rightarrow> (error + unit) \<times> manager" where
  "MarkLaneRemoving name =
     on_lane name (\<lambda>r. (MarkRemoving r)\<lparr>rn_removingAck := True, rn_pc := AwaitCancel\<rparr>)"

definition IsLaneRemoving :: "string \<Rightarrow> manager \<Rightarrow> bool" where
  "IsLaneRemoving name mg = (case map_of (mg_runners mg) name of None \<Rightarrow> False | Some r \<Rightarrow> IsRemoving r)"

definition PauseLane :: "string \<Rightarrow> manager \<Rightarrow> (error + unit) \<times> manager" where
  "PauseLane name = on_lane name Pause"

definition ContinueLane :: "string \<Rightarrow> manager \<Rightarrow> (error + unit) \<times> manager" where
  "ContinueLane name = on_lane name Resume"

definition CurrentLanes :: "manager \<Rightarrow> LaneSpec list" where
  "CurrentLanes mg =
     map (\<lambda>(name, r). \<lparr>sp_Name = name, sp_Concurrency = rn_Concurrency r, sp_Paused = rn_paused r\<rparr>) (mg_runners mg)"

section \<open>The manager keeps the lanes it is told\<close>

lemma wanted_of_distinct: "distinct (map fst (wanted_of specs))"
proof -
  have "distinct (map fst (fold (\<lambda>s m. mput (sp_Name s) s m) ss m))" if "distinct (map fst m)" for ss and m :: "(string \<times> LaneSpec) list"
    using that by (induction ss arbitrary: m) simp_all
  then show ?thesis by (simp add: wanted_of_def)
qed

lemma wanted_of_map: "map_of (wanted_of specs) n = map_of (rev (map (\<lambda>s. (sp_Name s, s)) specs)) n"
proof -
  have "map_of (fold (\<lambda>s m. mput (sp_Name s) s m) ss m) = map_of m ++ map_of (rev (map (\<lambda>s. (sp_Name s, s)) ss))"
    for ss and m :: "(string \<times> LaneSpec) list"
    by (induction ss arbitrary: m) (simp_all add: map_add_def fun_eq_iff split: option.splits)
  from this [of specs "[]"] show ?thesis by (simp add: wanted_of_def)
qed

text \<open>What the reconciliation makes of each lane, and which names it reports.\<close>

definition lane_after :: "string \<Rightarrow> LaneSpec \<Rightarrow> runner option \<Rightarrow> runner" where
  "lane_after name s old = (case old of Some r \<Rightarrow> reconcile_runner s r | None \<Rightarrow> start_runner name s)"

definition resize_needed :: "LaneSpec \<Rightarrow> runner option \<Rightarrow> bool" where
  "resize_needed s old = (case old of Some r \<Rightarrow> rn_Concurrency r \<noteq> sp_Concurrency s | None \<Rightarrow> False)"

lemma fold_reconcile:
  assumes "distinct (map fst ws)" and "fold reconcile_lane ws (st, rz, rs) = (st', rz', rs')"
  shows "map_of rs' n = (case map_of ws n of None \<Rightarrow> map_of rs n | Some s \<Rightarrow> Some (lane_after n s (map_of rs n))) \<and>
    set st' = set st \<union> {n. \<exists>s. map_of ws n = Some s \<and> map_of rs n = None} \<and>
    set rz' = set rz \<union> {n. \<exists>s. map_of ws n = Some s \<and> resize_needed s (map_of rs n)}"
  using assms
proof (induction ws arbitrary: st rz rs)
  case Nil
  then show ?case by simp
next
  case (Cons p ws)
  obtain name s where p: "p = (name, s)" by (cases p)
  obtain st1 rz1 rs1 where one: "reconcile_lane (name, s) (st, rz, rs) = (st1, rz1, rs1)"
    by (cases "reconcile_lane (name, s) (st, rz, rs)")
  have fresh: "map_of ws name = None" using Cons.prems(1) p by (simp add: map_of_eq_None_iff)
  have rs1: "map_of rs1 = (map_of rs)(name \<mapsto> lane_after name s (map_of rs name))"
    and st1: "set st1 = set st \<union> (if map_of rs name = None then {name} else {})"
    and rz1: "set rz1 = set rz \<union> (if resize_needed s (map_of rs name) then {name} else {})"
    using one by (auto simp: lane_after_def resize_needed_def split: option.splits if_splits)
  have rest: "fold reconcile_lane ws (st1, rz1, rs1) = (st', rz', rs')"
    using Cons.prems(2) p one by simp
  have other: "map_of ws m = Some t \<Longrightarrow> m \<noteq> name" for m t using fresh by auto
  from Cons.IH [OF _ rest] Cons.prems(1) p
  have ih: "map_of rs' n = (case map_of ws n of None \<Rightarrow> map_of rs1 n | Some s \<Rightarrow> Some (lane_after n s (map_of rs1 n)))"
    "set st' = set st1 \<union> {n. \<exists>s. map_of ws n = Some s \<and> map_of rs1 n = None}"
    "set rz' = set rz1 \<union> {n. \<exists>s. map_of ws n = Some s \<and> resize_needed s (map_of rs1 n)}"
    by simp_all
  have "{m. \<exists>t. map_of ws m = Some t \<and> map_of rs1 m = None} =
      {m. m \<noteq> name \<and> (\<exists>t. map_of ws m = Some t \<and> map_of rs m = None)}"
    using other by (auto simp: rs1)
  moreover have "{m. \<exists>t. map_of ws m = Some t \<and> resize_needed t (map_of rs1 m)} =
      {m. m \<noteq> name \<and> (\<exists>t. map_of ws m = Some t \<and> resize_needed t (map_of rs m))}"
    using other by (auto simp: rs1)
  ultimately show ?case
    using ih fresh st1 rz1 by (auto simp: rs1 p split: option.splits)
qed

lemma map_of_filter_keys: "map_of (filter (\<lambda>(k, _). P k) m) n = (if P n then map_of m n else None)"
  by (induction m) auto

lemma reconcile_runner_frame:
  "rn_Concurrency (reconcile_runner s r) = sp_Concurrency s \<and> rn_paused (reconcile_runner s r) = sp_Paused s \<and>
   rn_inflight (reconcile_runner s r) = rn_inflight r \<and> rn_pc (reconcile_runner s r) = rn_pc r \<and>
   rn_Lane (reconcile_runner s r) = rn_Lane r \<and> rn_cancelled (reconcile_runner s r) = rn_cancelled r"
  by (simp add: reconcile_runner_def runner_ops Let_def)

lemma start_runner_frame:
  "rn_Concurrency (start_runner n s) = sp_Concurrency s \<and> rn_paused (start_runner n s) = sp_Paused s \<and>
   rn_inflight (start_runner n s) = 0 \<and> rn_pc (start_runner n s) = AtTop \<and> rn_Lane (start_runner n s) = n"
  by (simp add: start_runner_def Start_def new_runner_def Pause_def Let_def)

lemma manager_Apply_lanes:
  assumes "manager_Apply specs mg = ((started, stopped, resized), mg')"
  defines "want \<equiv> map_of (wanted_of specs)" and "old \<equiv> map_of (mg_runners mg)"
  shows "map_of (mg_runners mg') n = map_option (\<lambda>s. lane_after n s (old n)) (want n) \<and>
    set started = {n. want n \<noteq> None \<and> old n = None} \<and>
    set stopped = {n. want n = None \<and> old n \<noteq> None} \<and>
    set resized = {n. \<exists>s. want n = Some s \<and> resize_needed s (old n)}"
proof -
  let ?kept = "filter (\<lambda>(name, _). map_of (wanted_of specs) name \<noteq> None) (mg_runners mg)"
  obtain st rz rs where run: "fold reconcile_lane (wanted_of specs) ([], [], ?kept) = (st, rz, rs)"
    by (cases "fold reconcile_lane (wanted_of specs) ([], [], ?kept)")
  have kept: "map_of ?kept m = (if want m \<noteq> None then old m else None)" for m
    using map_of_filter_keys [of "\<lambda>m. map_of (wanted_of specs) m \<noteq> None" "mg_runners mg" m]
    unfolding want_def old_def .
  have stopped: "set (map fst (filter (\<lambda>(name, _). map_of (wanted_of specs) name = None) (mg_runners mg))) =
      {n. want n = None \<and> old n \<noteq> None}"
    by (force simp: want_def old_def map_of_eq_None_iff)
  from assms(1) run have out: "started = st" "resized = rz" "mg_runners mg' = rs"
    "stopped = map fst (filter (\<lambda>(name, _). map_of (wanted_of specs) name = None) (mg_runners mg))"
    by (auto simp: manager_Apply_def Let_def)
  note fr = fold_reconcile [OF wanted_of_distinct run]
  have "map_of rs n = map_option (\<lambda>s. lane_after n s (old n)) (want n)"
    using fr [of n] kept by (simp add: want_def split: option.split)
  moreover have "set st = {n. want n \<noteq> None \<and> old n = None}"
    using fr [of n] kept by (auto simp: want_def)
  moreover have "set rz = {n. \<exists>s. want n = Some s \<and> resize_needed s (old n)}"
    using fr [of n] kept by (auto simp: want_def)
  ultimately show ?thesis using stopped out by simp
qed

end
