(* ===== verification/EventFile.thy ===== *)
theory EventFile
  imports Schema
begin

text \<open>
  The per-mission events file (\<^verbatim>\<open>internal/eventfile\<close>).  A file is its sequence of
  newline-terminated lines and the unterminated tail a failed or crashed write may leave; each
  carries its size in bytes and the JSON value it decodes to, or no value when it is not valid
  JSON.  A write that stops after \<open>n\<close> bytes leaves a tail; only the whole line without its
  newline is valid JSON, since a proper prefix of a JSON object never is.  The encoded size of
  an event, \<^verbatim>\<open>len(json.Marshal(ev))\<close>, is the argument \<open>msize\<close> of the definitions that use it.
\<close>

section \<open>Files\<close>

record eline =
  el_body :: "json option"
  el_size :: nat

record efile =
  ef_lines :: "eline list"
  ef_tail :: "eline option"

definition empty_file :: efile where
  "empty_file = \<lparr>ef_lines = [], ef_tail = None\<rparr>"

text \<open>The outcome of a write: complete, or an error after the given number of bytes.\<close>

datatype io = IoOk | IoErr nat

text \<open>Writing a bare newline: it ends the tail, or is an empty line.\<close>

definition put_newline :: "efile \<Rightarrow> efile" where
  "put_newline f =
     f\<lparr>ef_lines := ef_lines f @
          [case ef_tail f of Some t \<Rightarrow> t\<lparr>el_size := Suc (el_size t)\<rparr>
                           | None \<Rightarrow> \<lparr>el_body = None, el_size = 1\<rparr>],
       ef_tail := None\<rparr>"

text \<open>Writing a whole line: it glues onto a tail, and then is no longer valid JSON.\<close>

definition put_line :: "fields \<Rightarrow> nat \<Rightarrow> efile \<Rightarrow> efile" where
  "put_line ev size_nl f =
     f\<lparr>ef_lines := ef_lines f @
          [case ef_tail f of None \<Rightarrow> \<lparr>el_body = Some (JObj ev), el_size = size_nl\<rparr>
                           | Some t \<Rightarrow> \<lparr>el_body = None, el_size = el_size t + size_nl\<rparr>],
       ef_tail := None\<rparr>"

text \<open>Only the first \<open>n\<close> bytes of the line reach the file.\<close>

definition put_partial :: "fields \<Rightarrow> nat \<Rightarrow> nat \<Rightarrow> efile \<Rightarrow> efile" where
  "put_partial ev size_nl n f =
     (if n = 0 then f
      else if size_nl \<le> n then put_line ev size_nl f
      else f\<lparr>ef_tail := Some
        (case ef_tail f of
           None \<Rightarrow> \<lparr>el_body = (if Suc n = size_nl then Some (JObj ev) else None), el_size = n\<rparr>
         | Some t \<Rightarrow> \<lparr>el_body = None, el_size = el_size t + n\<rparr>)\<rparr>)"

section \<open>The writer\<close>

datatype event_kind = KindQueued | KindRunning | KindProgress | KindDone

fun event_kind_str :: "event_kind \<Rightarrow> string" where
  "event_kind_str KindQueued = ''queued''"
| "event_kind_str KindRunning = ''running''"
| "event_kind_str KindProgress = ''progress''"
| "event_kind_str KindDone = ''done''"

definition isLifecycle :: "event_kind \<Rightarrow> bool" where
  "isLifecycle k \<longleftrightarrow> k = KindQueued \<or> k = KindRunning \<or> k = KindDone"

record limits =
  lim_MaxEventsBuffer :: nat
  lim_MaxEventLineSize :: nat

record writer =
  wr_file :: efile
  wr_seq :: int
  wr_limits :: limits
  wr_progressBytes :: nat
  wr_progressDrops :: nat
  wr_pendingNewline :: bool

definition no_limits :: limits where
  "no_limits = \<lparr>lim_MaxEventsBuffer = 0, lim_MaxEventLineSize = 0\<rparr>"

definition new_writer :: "efile \<Rightarrow> writer" where
  "new_writer f = \<lparr>wr_file = f, wr_seq = 0, wr_limits = no_limits, wr_progressBytes = 0,
     wr_progressDrops = 0, wr_pendingNewline = False\<rparr>"

definition maxScanLineSize :: nat where
  "maxScanLineSize = 16 * 2 ^ 20"

text \<open>Create fails when the file exists.\<close>

definition Create :: "efile option \<Rightarrow> error + writer" where
  "Create f = (case f of Some _ \<Rightarrow> Inl ErrIO | None \<Rightarrow> Inr (new_writer empty_file))"

text \<open>The lines a line scanner yields: an unterminated tail counts as a last line.\<close>

definition scan_lines :: "efile \<Rightarrow> eline list" where
  "scan_lines f = ef_lines f @ (case ef_tail f of None \<Rightarrow> [] | Some t \<Rightarrow> [t])"

definition scan_fits :: "efile \<Rightarrow> bool" where
  "scan_fits f \<longleftrightarrow> (\<forall>l \<in> set (ef_lines f). el_size l \<le> maxScanLineSize) \<and>
     (case ef_tail f of None \<Rightarrow> True | Some t \<Rightarrow> el_size t < maxScanLineSize)"

text \<open>Decoding \<^verbatim>\<open>struct { Seq int64 }\<close> from a line.\<close>

definition line_seq :: "eline \<Rightarrow> int option" where
  "line_seq l = (case el_body l of
       Some (JObj m) \<Rightarrow> dec_i64 ''seq'' m
     | Some JNull \<Rightarrow> Some 0
     | _ \<Rightarrow> None)"

definition scan_seq :: "int \<Rightarrow> eline list \<Rightarrow> int" where
  "scan_seq s0 ls =
     foldl (\<lambda>s l. case line_seq l of Some n \<Rightarrow> (if n > s then n else s) | None \<Rightarrow> s) s0 ls"

definition terminateTornTail :: "io \<Rightarrow> efile \<Rightarrow> error + efile" where
  "terminateTornTail nl f =
     (case ef_tail f of
        None \<Rightarrow> Inr f
      | Some _ \<Rightarrow> (case nl of IoErr _ \<Rightarrow> Inl ErrIO | IoOk \<Rightarrow> Inr (put_newline f)))"

text \<open>The second component is the file as Open leaves it, also when it fails.\<close>

definition Open :: "io \<Rightarrow> efile option \<Rightarrow> (error + writer) \<times> efile option" where
  "Open nl f =
     (case f of
        None \<Rightarrow> (Inl ErrNotFound, None)
      | Some f0 \<Rightarrow>
          (case terminateTornTail nl f0 of
             Inl e \<Rightarrow> (Inl e, Some f0)
           | Inr f1 \<Rightarrow>
               if scan_fits f1 then (Inr ((new_writer f1)\<lparr>wr_seq := scan_seq 0 (scan_lines f1)\<rparr>), Some f1)
               else (Inl ErrEventLineTooLarge, Some f1)))"

definition SetLimits :: "limits \<Rightarrow> writer \<Rightarrow> writer" where
  "SetLimits l w = w\<lparr>wr_limits := l\<rparr>"

definition event_of :: "event_kind \<Rightarrow> int \<Rightarrow> fields \<Rightarrow> fields" where
  "event_of kind sq fs = mput ''event'' (JStr (event_kind_str kind)) (mput ''seq'' (JInt sq) fs)"

text \<open>
  Append.  The environment triple is the outcome of the healing newline, of the line's write
  and whether fsync succeeds.  A dropped progress event returns sequence number 0.
\<close>

definition Append ::
  "(fields \<Rightarrow> nat) \<Rightarrow> io \<times> io \<times> bool \<Rightarrow> event_kind \<Rightarrow> fields \<Rightarrow> bool \<Rightarrow> writer \<Rightarrow> (error + int) \<times> writer" where
  "Append msize env kind fs fsync w =
     (case env of (nl, lw, sync_ok) \<Rightarrow>
      case (if wr_pendingNewline w
            then (case nl of
                    IoErr _ \<Rightarrow> None
                  | IoOk \<Rightarrow> Some (w\<lparr>wr_file := put_newline (wr_file w), wr_pendingNewline := False\<rparr>))
            else Some w) of
        None \<Rightarrow> (Inl ErrIO, w)
      | Some w1 \<Rightarrow>
         (let nextSeq = wrap64 (wr_seq w1 + 1);
              ev = event_of kind nextSeq fs;
              lineSize = msize ev + 1;
              lim = wr_limits w1
          in if 0 < lim_MaxEventLineSize lim \<and> lim_MaxEventLineSize lim < lineSize then
               (if isLifecycle kind then (Inl ErrEventLineTooLarge, w1)
                else (Inr 0, w1\<lparr>wr_progressDrops := wr_progressDrops w1 + 1\<rparr>))
             else if \<not> isLifecycle kind \<and> 0 < lim_MaxEventsBuffer lim \<and>
                     lim_MaxEventsBuffer lim < wr_progressBytes w1 + lineSize then
               (Inr 0, w1\<lparr>wr_progressDrops := wr_progressDrops w1 + 1\<rparr>)
             else
               (case lw of
                  IoErr n \<Rightarrow>
                    (Inl ErrIO,
                     if 0 < n then w1\<lparr>wr_file := put_partial ev lineSize n (wr_file w1),
                                      wr_pendingNewline := True, wr_seq := nextSeq\<rparr>
                     else w1)
                | IoOk \<Rightarrow>
                    (let w2 = w1\<lparr>wr_file := put_line ev lineSize (wr_file w1), wr_seq := nextSeq,
                              wr_progressBytes := (if isLifecycle kind then wr_progressBytes w1
                                                   else wr_progressBytes w1 + lineSize)\<rparr>
                     in if fsync \<and> \<not> sync_ok then (Inl ErrIO, w2) else (Inr nextSeq, w2)))))"

section \<open>The terminal event\<close>

text \<open>
  \<^verbatim>\<open>jsonValuesEqual\<close> on two decoded values.  A member of the first object is compared with
  \<^verbatim>\<open>bv[k]\<close>, which is nil when the second object has no such key.
\<close>

definition num_val :: "json \<Rightarrow> rat" where
  "num_val v = (case v of JInt i \<Rightarrow> of_int i | JFlt r \<Rightarrow> r | _ \<Rightarrow> 0)"

function jsonValuesEqual :: "json \<Rightarrow> json \<Rightarrow> bool" where
  "jsonValuesEqual a b =
     (case a of
        JNull \<Rightarrow> b = JNull
      | JBool x \<Rightarrow> b = JBool x
      | JInt i \<Rightarrow> is_number b \<and> of_int i = num_val b
      | JFlt r \<Rightarrow> is_number b \<and> r = num_val b
      | JStr s \<Rightarrow> b = JStr s
      | JArr xs \<Rightarrow>
          (case b of
             JArr ys \<Rightarrow> length xs = length ys \<and> list_all (\<lambda>(x, y). jsonValuesEqual x y) (zip xs ys)
           | _ \<Rightarrow> False)
      | JObj m \<Rightarrow>
          (case b of
             JObj n \<Rightarrow> length m = length n \<and>
               list_all (\<lambda>(k, v). jsonValuesEqual v (case mget n k of None \<Rightarrow> JNull | Some w \<Rightarrow> w)) m
           | _ \<Rightarrow> False))"
  by pat_completeness auto

termination jsonValuesEqual
  by (relation "measure (\<lambda>(a, b). size a)")
    (auto dest: set_zip_leftD intro: size_json_elem size_json_member)

declare jsonValuesEqual.simps [simp del]

definition doneEventsMatch :: "fields \<Rightarrow> fields \<Rightarrow> bool" where
  "doneEventsMatch existing fs \<longleftrightarrow>
     mget existing ''event'' = Some (JStr ''done'') \<and>
     jsonValuesEqual (JObj (mput ''event'' (JStr ''done'') (mdel ''seq'' fs)))
                     (JObj (mdel ''seq'' existing))"

text \<open>Decoding a line into \<^verbatim>\<open>map[string]any\<close>; its seq as float64 truncated to int64.\<close>

definition line_map :: "eline \<Rightarrow> fields option" where
  "line_map l = (case el_body l of Some (JObj m) \<Rightarrow> Some m | Some JNull \<Rightarrow> Some [] | _ \<Rightarrow> None)"

definition trunc_rat :: "rat \<Rightarrow> int" where
  "trunc_rat r = (if r < 0 then - \<lfloor>- r\<rfloor> else \<lfloor>r\<rfloor>)"

definition map_seq :: "fields \<Rightarrow> int option" where
  "map_seq m = (case mget m ''seq'' of
       Some (JInt i) \<Rightarrow> Some i | Some (JFlt r) \<Rightarrow> Some (trunc_rat r) | _ \<Rightarrow> None)"

definition is_done_map :: "fields \<Rightarrow> bool" where
  "is_done_map m \<longleftrightarrow> mget m ''event'' = Some (JStr ''done'')"

definition scan_done :: "eline list \<Rightarrow> int \<times> fields option" where
  "scan_done ls =
     foldl (\<lambda>(s, ex) l.
        case line_map l of
          None \<Rightarrow> (s, ex)
        | Some m \<Rightarrow>
            (case map_seq m of Some n \<Rightarrow> (if n > s then n else s) | None \<Rightarrow> s,
             if is_done_map m then Some m else ex)) (0, None) ls"

definition AppendDoneIdempotent ::
  "(fields \<Rightarrow> nat) \<Rightarrow> io \<times> io \<times> bool \<Rightarrow> fields \<Rightarrow> int \<Rightarrow> writer \<Rightarrow> (error + unit) \<times> writer" where
  "AppendDoneIdempotent msize env fs expectedSeq w =
     (if \<not> scan_fits (wr_file w) then (Inl ErrEventLineTooLarge, w)
      else
        case scan_done (scan_lines (wr_file w)) of
          (lastSeq, Some existing) \<Rightarrow>
            (if doneEventsMatch existing fs then (Inr (), w) else (Inl ErrTerminalEventConflict, w))
        | (lastSeq, None) \<Rightarrow>
            (let nextSeq = (if expectedSeq \<le> lastSeq then wrap64 (lastSeq + 1) else expectedSeq);
                 (r, w') = Append msize env KindDone fs True (w\<lparr>wr_seq := wrap64 (nextSeq - 1)\<rparr>)
             in (case r of Inl e \<Rightarrow> Inl e | Inr _ \<Rightarrow> Inr (), w')))"

section \<open>The reader\<close>

text \<open>
  Stream.  Complete lines that are valid JSON are emitted unless the \<^verbatim>\<open>From\<close> filter skips them;
  a done event ends the stream; a line beyond the scan limit is an error.  \<open>stream_step\<close> is the
  body of the loop for one complete line: what is emitted and whether the stream ends.
\<close>

definition line_meta :: "eline \<Rightarrow> (int \<times> string) option" where
  "line_meta l = (case el_body l of
       Some (JObj m) \<Rightarrow>
         (case dec_i64 ''seq'' m of
            None \<Rightarrow> None
          | Some s \<Rightarrow> map_option (Pair s) (dec_str ''event'' m))
     | Some JNull \<Rightarrow> Some (0, [])
     | _ \<Rightarrow> None)"

definition stream_skip :: "int \<Rightarrow> eline \<Rightarrow> bool" where
  "stream_skip from l \<longleftrightarrow>
     (case line_meta l of Some (s, _) \<Rightarrow> 0 < from \<and> s \<le> from | None \<Rightarrow> False)"

definition line_is_done :: "eline \<Rightarrow> bool" where
  "line_is_done l \<longleftrightarrow> (case line_meta l of Some (_, e) \<Rightarrow> e = ''done'' | None \<Rightarrow> False)"

datatype stream_end = StreamDone | StreamEOF | StreamErr error

fun stream_lines :: "int \<Rightarrow> eline list \<Rightarrow> eline list \<times> stream_end" where
  "stream_lines from [] = ([], StreamEOF)"
| "stream_lines from (l # ls) =
     (if maxScanLineSize < el_size l then ([], StreamErr ErrEventLineTooLarge)
      else if el_body l = None then stream_lines from ls
      else
        let out = (if stream_skip from l then [] else [l])
        in if line_is_done l then (out, StreamDone)
           else (case stream_lines from ls of (rest, e) \<Rightarrow> (out @ rest, e)))"

text \<open>Without follow the stream ends at the end of the file and drops an unterminated tail.\<close>

definition Stream :: "int \<Rightarrow> efile option \<Rightarrow> error + eline list \<times> stream_end" where
  "Stream from f =
     (case f of None \<Rightarrow> Inl ErrNotFound | Some f0 \<Rightarrow> Inr (stream_lines from (ef_lines f0)))"

text \<open>
  With follow the loop polls: each element of the list is what the file gained between two
  polls, in complete lines (a partial line is buffered until its newline arrives).
\<close>

fun StreamFollow :: "int \<Rightarrow> eline list list \<Rightarrow> eline list \<times> stream_end" where
  "StreamFollow from [] = ([], StreamEOF)"
| "StreamFollow from (poll # polls) =
     (case stream_lines from poll of
        (out, StreamEOF) \<Rightarrow> (case StreamFollow from polls of (rest, e) \<Rightarrow> (out @ rest, e))
      | (out, e) \<Rightarrow> (out, e))"

section \<open>Sequence numbers\<close>

lemma event_of_seq [simp]: "mget (event_of kind s fs) ''seq'' = Some (JInt s)"
  by (simp add: event_of_def mget_def)

lemma event_of_event [simp]: "mget (event_of kind s fs) ''event'' = Some (JStr (event_kind_str kind))"
  by (simp add: event_of_def mget_def)

lemma event_of_plain: "plain_keys fs \<Longrightarrow> plain_keys (event_of kind s fs)"
  unfolding event_of_def by (intro plain_keys_mput) (simp_all add: lower_char_def Let_def)

text \<open>The sequence numbers a scan of the file sees, in file order.\<close>

definition file_seqs :: "efile \<Rightarrow> int list" where
  "file_seqs f = List.map_filter line_seq (scan_lines f)"

lemma line_seq_event:
  "plain_keys fs \<Longrightarrow> in_i64 s \<Longrightarrow> el_body l = Some (JObj (event_of kind s fs)) \<Longrightarrow> line_seq l = Some s"
  using dec_i64_plain [OF event_of_plain event_of_seq] by (simp add: line_seq_def)

lemma line_seq_junk [simp]: "el_body l = None \<Longrightarrow> line_seq l = None"
  by (simp add: line_seq_def)

lemma line_seq_size [simp]: "line_seq (l\<lparr>el_size := n\<rparr>) = line_seq l"
  by (simp add: line_seq_def)

lemma map_filter_append: "List.map_filter f (xs @ ys) = List.map_filter f xs @ List.map_filter f ys"
  by (induction xs) (auto simp: map_filter_simps split: option.splits)

lemma file_seqs_newline [simp]: "file_seqs (put_newline f) = file_seqs f"
  by (auto simp: file_seqs_def scan_lines_def put_newline_def map_filter_append map_filter_simps
      split: option.split)

lemma file_seqs_put_line:
  assumes "ef_tail f = None" and "plain_keys fs" and "in_i64 s"
  shows "file_seqs (put_line (event_of kind s fs) n f) = file_seqs f @ [s]"
  using assms line_seq_event [OF assms(2,3), of "\<lparr>el_body = Some (JObj (event_of kind s fs)), el_size = n\<rparr>"]
  by (simp add: file_seqs_def scan_lines_def put_line_def map_filter_append map_filter_simps)

lemma file_seqs_put_partial:
  assumes "ef_tail f = None" and "plain_keys fs" and "in_i64 s"
  shows "file_seqs (put_partial (event_of kind s fs) m n f) \<in> {file_seqs f, file_seqs f @ [s]}"
  using assms line_seq_event [OF assms(2,3), of "\<lparr>el_body = Some (JObj (event_of kind s fs)), el_size = n\<rparr>"]
    file_seqs_put_line [OF assms, of kind m]
  by (auto simp: put_partial_def)
    (auto simp: file_seqs_def scan_lines_def map_filter_append map_filter_simps)

text \<open>
  The writer's invariant: a tail is only ever left with the newline pending, the sequence
  numbers in the file increase strictly, and the counter is at least all of them.
\<close>

definition writer_ok :: "writer \<Rightarrow> bool" where
  "writer_ok w \<longleftrightarrow>
     (ef_tail (wr_file w) \<noteq> None \<longrightarrow> wr_pendingNewline w) \<and>
     sorted_wrt (<) (file_seqs (wr_file w)) \<and>
     (\<forall>s \<in> set (file_seqs (wr_file w)). s \<le> wr_seq w) \<and>
     0 \<le> wr_seq w"

lemma new_writer_ok: "writer_ok (new_writer empty_file)"
  by (simp add: writer_ok_def new_writer_def empty_file_def file_seqs_def scan_lines_def map_filter_simps)

text \<open>Append after the healing step, in the three ways the write can go.\<close>

definition healed :: "writer \<Rightarrow> writer" where
  "healed w = (if wr_pendingNewline w
     then w\<lparr>wr_file := put_newline (wr_file w), wr_pendingNewline := False\<rparr> else w)"

lemma put_newline_tail [simp]: "ef_tail (put_newline f) = None"
  by (simp add: put_newline_def)

lemma put_line_tail [simp]: "ef_tail (put_line ev n f) = None"
  by (simp add: put_line_def)

lemma healed_ok: "writer_ok w \<Longrightarrow> writer_ok (healed w) \<and> ef_tail (wr_file (healed w)) = None"
  by (auto simp: writer_ok_def healed_def)

lemma healed_simps [simp]:
  "wr_seq (healed w) = wr_seq w" "wr_limits (healed w) = wr_limits w"
  "wr_progressBytes (healed w) = wr_progressBytes w" "\<not> wr_pendingNewline (healed w)"
  by (simp_all add: healed_def)

text \<open>The event an append builds and the size of its line.\<close>

abbreviation next_event :: "event_kind \<Rightarrow> fields \<Rightarrow> writer \<Rightarrow> fields" where
  "next_event kind fs w \<equiv> event_of kind (wrap64 (wr_seq w + 1)) fs"

lemma Append_cases:
  assumes "Append msize env kind fs sync w = (r, w')"
  obtains (heal_failed) "r = Inl ErrIO" "w' = w" "wr_pendingNewline w"
    | (refused) e where "r = Inl e" "w' = healed w"
    | (dropped) "r = Inr 0" "w' = (healed w)\<lparr>wr_progressDrops := wr_progressDrops (healed w) + 1\<rparr>"
        "\<not> isLifecycle kind"
    | (torn) n where "r = Inl ErrIO" "0 < n"
        "w' = (healed w)\<lparr>wr_file := put_partial (next_event kind fs w)
                 (msize (next_event kind fs w) + 1) n (wr_file (healed w)),
               wr_pendingNewline := True, wr_seq := wrap64 (wr_seq w + 1)\<rparr>"
    | (written) "r = Inr (wrap64 (wr_seq w + 1)) \<or> r = Inl ErrIO"
        "wr_file w' = put_line (next_event kind fs w) (msize (next_event kind fs w) + 1) (wr_file (healed w))"
        "wr_seq w' = wrap64 (wr_seq w + 1)" "wr_pendingNewline w' = False" "wr_limits w' = wr_limits w"
        "wr_progressBytes w' = (if isLifecycle kind then wr_progressBytes w
           else wr_progressBytes w + (msize (next_event kind fs w) + 1))"
        "isLifecycle kind \<or> lim_MaxEventsBuffer (wr_limits w) = 0 \<or>
           wr_progressBytes w + (msize (next_event kind fs w) + 1) \<le> lim_MaxEventsBuffer (wr_limits w)"
proof -
  obtain nl lw sy where env: "env = (nl, lw, sy)" by (cases env)
  show thesis
  proof (cases "wr_pendingNewline w \<and> nl \<noteq> IoOk")
    case True
    then obtain k where "nl = IoErr k" by (cases nl) auto
    with True assms env have "r = Inl ErrIO" "w' = w" by (auto simp: Append_def)
    with True heal_failed show thesis by blast
  next
    case False
    then have step: "(if wr_pendingNewline w
        then (case nl of IoErr _ \<Rightarrow> None
              | IoOk \<Rightarrow> Some (w\<lparr>wr_file := put_newline (wr_file w), wr_pendingNewline := False\<rparr>))
        else Some w) = Some (healed w)"
      by (auto simp: healed_def)
    note red = assms [unfolded Append_def env prod.case step option.case Let_def healed_simps]
    let ?n = "msize (next_event kind fs w) + 1"
    let ?big = "0 < lim_MaxEventLineSize (wr_limits w) \<and> lim_MaxEventLineSize (wr_limits w) < ?n"
    let ?full = "\<not> isLifecycle kind \<and> 0 < lim_MaxEventsBuffer (wr_limits w) \<and>
      lim_MaxEventsBuffer (wr_limits w) < wr_progressBytes w + ?n"
    consider "?big" "isLifecycle kind" | "?big \<or> ?full" "\<not> isLifecycle kind" | "\<not> ?big" "\<not> ?full" by blast
    then show thesis
    proof cases
      case 1
      with red have "r = Inl ErrEventLineTooLarge" "w' = healed w" by auto
      then show thesis by (rule refused)
    next
      case 2
      with red dropped show thesis by (auto split: if_splits)
    next
      case 3
      note red' = red [unfolded if_not_P [OF 3(1)] if_not_P [OF 3(2)]]
      show thesis
      proof (cases lw)
        case (IoErr n)
        with red' refused [OF sym] torn [of n] show thesis by (cases "0 < n") auto
      next
        case IoOk
        have room: "isLifecycle kind \<or> lim_MaxEventsBuffer (wr_limits w) = 0 \<or>
            wr_progressBytes w + ?n \<le> lim_MaxEventsBuffer (wr_limits w)"
          using 3(2) by auto
        show thesis
          by (rule written [OF _ _ _ _ _ _ room]; use red' IoOk in \<open>simp split: if_splits\<close>; auto)
      qed
    qed
  qed
qed

text \<open>The counter either stays or moves on by one, and never wraps below the maximum.\<close>

lemma in_i64_next: "0 \<le> s \<Longrightarrow> s < maxInt64 \<Longrightarrow> wrap64 (s + 1) = s + 1 \<and> in_i64 (s + 1)"
  by (simp add: in_i64_def maxInt64_def)

lemma sorted_wrt_snoc: "sorted_wrt R (xs @ [x]) \<longleftrightarrow> sorted_wrt R xs \<and> (\<forall>y \<in> set xs. R y x)"
  by (simp add: sorted_wrt_append)

lemma Append_writer_ok:
  assumes "Append msize env kind fs sync w = (r, w')" and "writer_ok w"
    and "wr_seq w < maxInt64" and "plain_keys fs"
  shows "writer_ok w' \<and> wr_seq w \<le> wr_seq w' \<and> wr_seq w' \<le> wr_seq w + 1"
proof -
  from assms(2) have w: "0 \<le> wr_seq w" by (simp add: writer_ok_def)
  note nx = in_i64_next [OF w assms(3)]
  from healed_ok [OF assms(2)] have h: "writer_ok (healed w)" and tl: "ef_tail (wr_file (healed w)) = None"
    by simp_all
  show ?thesis
    using assms(1)
  proof (cases rule: Append_cases)
    case (torn n)
    have "file_seqs (wr_file w') \<in> {file_seqs (wr_file (healed w)), file_seqs (wr_file (healed w)) @ [wr_seq w + 1]}"
      using file_seqs_put_partial [OF tl assms(4), of "wr_seq w + 1"] nx torn(3) by simp
    with h nx torn(3) show ?thesis
      by (fastforce simp: writer_ok_def sorted_wrt_snoc)
  next
    case written
    have "file_seqs (wr_file w') = file_seqs (wr_file (healed w)) @ [wr_seq w + 1]"
      using file_seqs_put_line [OF tl assms(4), of "wr_seq w + 1"] nx written(2) by simp
    with h nx written(2,3) show ?thesis
      by (fastforce simp: writer_ok_def sorted_wrt_snoc)
  qed (use assms(2) h w in \<open>simp_all add: writer_ok_def\<close>)
qed

text \<open>A run of appends, each with its own environment.\<close>

type_synonym append_call = "(io \<times> io \<times> bool) \<times> event_kind \<times> fields \<times> bool"

fun append_run :: "(fields \<Rightarrow> nat) \<Rightarrow> append_call list \<Rightarrow> writer \<Rightarrow> (error + int) list \<times> writer" where
  "append_run msize [] w = ([], w)"
| "append_run msize ((env, kind, fs, sync) # cs) w =
     (case Append msize env kind fs sync w of
        (r, w1) \<Rightarrow> (case append_run msize cs w1 of (rs, w2) \<Rightarrow> (r # rs, w2)))"

lemma append_run_ok:
  assumes "append_run msize cs w = (rs, w')" and "writer_ok w"
    and "wr_seq w + int (length cs) \<le> maxInt64"
    and "\<forall>(env, kind, fs, sync) \<in> set cs. plain_keys fs"
  shows "writer_ok w'"
  using assms
proof (induction cs arbitrary: w rs)
  case (Cons c cs)
  obtain env kind fs sync where c: "c = (env, kind, fs, sync)" by (cases c)
  obtain r w1 where a: "Append msize env kind fs sync w = (r, w1)"
    by (cases "Append msize env kind fs sync w")
  obtain rs2 w2 where run: "append_run msize cs w1 = (rs2, w2)" by (cases "append_run msize cs w1")
  from Cons.prems c a run have w2: "w2 = w'" by simp
  have "writer_ok w1 \<and> wr_seq w1 \<le> wr_seq w + 1"
    using Append_writer_ok [OF a Cons.prems(2)] Cons.prems(3,4) c by auto
  with Cons.IH [OF run [unfolded w2]] Cons.prems(3,4) show ?case by auto
qed simp

text \<open>The complete lines are only ever extended.\<close>

lemma put_newline_lines: "\<exists>ls. ef_lines (put_newline f) = ef_lines f @ ls"
  by (simp add: put_newline_def)

lemma put_partial_lines: "\<exists>ls. ef_lines (put_partial ev m n f) = ef_lines f @ ls"
  by (simp add: put_partial_def put_line_def)

lemma healed_lines: "\<exists>ls. ef_lines (wr_file (healed w)) = ef_lines (wr_file w) @ ls"
  by (simp add: healed_def put_newline_lines)

lemma Append_lines:
  assumes "Append msize env kind fs sync w = (r, w')"
  shows "\<exists>ls. ef_lines (wr_file w') = ef_lines (wr_file w) @ ls"
proof -
  obtain ls where h: "ef_lines (wr_file (healed w)) = ef_lines (wr_file w) @ ls"
    using healed_lines by blast
  show ?thesis
    using assms
  proof (cases rule: Append_cases)
    case (torn n)
    with h put_partial_lines [of "next_event kind fs w" "msize (next_event kind fs w) + 1" n "wr_file (healed w)"]
    show ?thesis by auto
  qed (use h in \<open>auto simp: put_line_def\<close>)
qed

text \<open>An append that reports a sequence number has added its event as the last line, intact.\<close>

lemma Append_success:
  assumes "Append msize env kind fs sync w = (Inr s, w')" and "s \<noteq> 0" and "writer_ok w"
  shows "s = wrap64 (wr_seq w + 1) \<and>
    ef_lines (wr_file w') = ef_lines (wr_file (healed w)) @
      [\<lparr>el_body = Some (JObj (event_of kind s fs)), el_size = msize (event_of kind s fs) + 1\<rparr>] \<and>
    ef_tail (wr_file w') = None \<and> wr_seq w' = s"
  using assms(1)
proof (cases rule: Append_cases)
  case written
  with healed_ok [OF assms(3)] show ?thesis by (auto simp: put_line_def)
qed (use assms(2) in simp_all)

section \<open>The terminal event is written at most once\<close>

lemma jsonValuesEqual_refl: "json_wf v \<Longrightarrow> jsonValuesEqual v v"
proof (induction v)
  case (JArr xs)
  then show ?case
    by (subst jsonValuesEqual.simps) (auto simp: list_all_iff zip_same)
next
  case (JObj m)
  have "jsonValuesEqual v (case mget m k of None \<Rightarrow> JNull | Some w \<Rightarrow> w)" if "(k, v) \<in> set m" for k v
  proof -
    from that JObj.prems have "mget m k = Some v" by (auto simp: mget_def)
    moreover from that JObj.prems have "json_wf v" by (auto simp: list_all_iff)
    ultimately show ?thesis using that JObj.IH [of "(k, v)" v] by simp
  qed
  then show ?case by (subst jsonValuesEqual.simps) (auto simp: list_all_iff)
qed (subst jsonValuesEqual.simps; simp add: is_number_def num_val_def)+

text \<open>
  The comparison is not symmetric on null members: a null member whose name the other object
  lacks is equal to the missing member, so objects with different names can match.
\<close>
lemma jsonValuesEqual_null_member:
  "jsonValuesEqual (JObj [(''a'', JNull)]) (JObj [(''b'', JInt n)])"
  by (simp add: jsonValuesEqual.simps mget_def)

lemma json_wf_mput: "json_wf (JObj m) \<Longrightarrow> json_wf v \<Longrightarrow> json_wf (JObj (mput k v m))"
proof -
  have "list_all (\<lambda>(_, w). json_wf w) m \<Longrightarrow> json_wf v \<Longrightarrow> list_all (\<lambda>(_, w). json_wf w) (mput k v m)"
    by (induction k v m rule: mput.induct) auto
  then show "json_wf (JObj m) \<Longrightarrow> json_wf v \<Longrightarrow> json_wf (JObj (mput k v m))" by simp
qed

lemma json_wf_mdel: "json_wf (JObj m) \<Longrightarrow> json_wf (JObj (mdel k m))"
  by (auto simp: mdel_def list_all_iff intro: distinct_map_filter)

lemma doneEventsMatch_event:
  assumes "json_wf (JObj fs)"
  shows "doneEventsMatch (event_of KindDone s fs) fs"
proof -
  have "mdel ''seq'' (event_of KindDone s fs) = mput ''event'' (JStr ''done'') (mdel ''seq'' fs)"
    by (simp add: event_of_def mdel_mput_other)
  moreover have "json_wf (JObj (mput ''event'' (JStr ''done'') (mdel ''seq'' fs)))"
    by (intro json_wf_mput json_wf_mdel assms) simp
  ultimately show ?thesis by (simp add: doneEventsMatch_def jsonValuesEqual_refl)
qed

definition done_map :: "eline \<Rightarrow> fields option" where
  "done_map l = (case line_map l of Some m \<Rightarrow> if is_done_map m then Some m else None | None \<Rightarrow> None)"

definition done_lines :: "efile \<Rightarrow> eline list" where
  "done_lines f = filter (\<lambda>l. done_map l \<noteq> None) (scan_lines f)"

lemma scan_done_snoc:
  "snd (scan_done (ls @ [l])) = (case done_map l of None \<Rightarrow> snd (scan_done ls) | Some m \<Rightarrow> Some m)"
  by (simp add: scan_done_def done_map_def split: prod.split option.split)

lemma scan_done_None: "snd (scan_done ls) = None \<longleftrightarrow> (\<forall>l \<in> set ls. done_map l = None)"
proof (induction ls rule: rev_induct)
  case Nil
  show ?case by (simp add: scan_done_def)
next
  case (snoc l ls)
  then show ?case by (auto simp: scan_done_snoc split: option.splits)
qed

lemma scan_done_Some: "snd (scan_done ls) = Some m \<Longrightarrow> \<exists>l \<in> set ls. done_map l = Some m"
  by (induction ls rule: rev_induct)
    (auto simp: scan_done_snoc split: option.splits, simp add: scan_done_def)

lemma done_map_simps [simp]:
  "done_map (l\<lparr>el_size := n\<rparr>) = done_map l"
  "el_body l = None \<Longrightarrow> done_map l = None"
  "done_map \<lparr>el_body = Some (JObj (event_of KindDone s fs)), el_size = n\<rparr> = Some (event_of KindDone s fs)"
  by (simp_all add: done_map_def line_map_def is_done_map_def)

lemma done_lines_newline: "length (done_lines (put_newline f)) = length (done_lines f)"
  by (simp add: done_lines_def scan_lines_def put_newline_def split: option.split)

lemma done_lines_healed: "length (done_lines (wr_file (healed w))) = length (done_lines (wr_file w))"
  by (simp add: healed_def done_lines_newline)

lemma done_lines_put_line: "length (done_lines (put_line ev n f)) \<le> Suc (length (done_lines f))"
  by (simp add: done_lines_def scan_lines_def put_line_def split: option.split)

lemma done_lines_put_partial:
  "length (done_lines (put_partial ev m n f)) \<le> Suc (length (done_lines f))"
  using done_lines_put_line [of ev m f]
  by (simp add: put_partial_def)
    (simp add: done_lines_def scan_lines_def split: option.split)

lemma Append_done_lines:
  assumes "Append msize env kind fs sync w = (r, w')"
  shows "length (done_lines (wr_file w')) \<le> Suc (length (done_lines (wr_file w)))"
  using assms
proof (cases rule: Append_cases)
  case (torn n)
  then show ?thesis using done_lines_put_partial [of _ _ n "wr_file (healed w)"]
    by (simp add: done_lines_healed)
next
  case written
  then show ?thesis using done_lines_put_line [of _ _ "wr_file (healed w)"]
    by (simp add: done_lines_healed)
qed (simp_all add: done_lines_healed)

text \<open>The three ways \<^verbatim>\<open>AppendDoneIdempotent\<close> can go.\<close>

lemma AppendDoneIdempotent_cases:
  assumes "AppendDoneIdempotent msize env fs expSeq w = (r, w')"
  obtains (unscannable) "r = Inl ErrEventLineTooLarge" "w' = w" "\<not> scan_fits (wr_file w)"
    | (present) m where "w' = w" "snd (scan_done (scan_lines (wr_file w))) = Some m"
        "r = (if doneEventsMatch m fs then Inr () else Inl ErrTerminalEventConflict)"
    | (appended) s q where "snd (scan_done (scan_lines (wr_file w))) = None"
        "Append msize env KindDone fs True (w\<lparr>wr_seq := s\<rparr>) = (q, w')"
        "r = (case q of Inl e \<Rightarrow> Inl e | Inr _ \<Rightarrow> Inr ())"
proof -
  obtain ls ex where sd: "scan_done (scan_lines (wr_file w)) = (ls, ex)"
    by (cases "scan_done (scan_lines (wr_file w))")
  show thesis
  proof (cases "scan_fits (wr_file w)")
    case False
    with assms unscannable show thesis by (simp add: AppendDoneIdempotent_def)
  next
    case True
    show thesis
    proof (cases ex)
      case (Some m)
      with True sd assms present [of m] show thesis
        by (auto simp: AppendDoneIdempotent_def split: if_splits)
    next
      case None
      with True sd assms appended show thesis
        by (auto simp: AppendDoneIdempotent_def Let_def split: prod.splits)
    qed
  qed
qed

lemma AppendDoneIdempotent_at_most_one:
  assumes "AppendDoneIdempotent msize env fs expSeq w = (r, w')"
  shows "length (done_lines (wr_file w')) \<le> max 1 (length (done_lines (wr_file w)))"
  using assms
proof (cases rule: AppendDoneIdempotent_cases)
  case (appended s q)
  from appended(1) have "done_lines (wr_file w) = []"
    by (simp add: scan_done_None done_lines_def filter_empty_conv)
  with Append_done_lines [OF appended(2)] show ?thesis by simp
qed simp_all

text \<open>After a successful call the file's terminal event agrees with the fields.\<close>

lemma isLifecycle_simps [simp]:
  "isLifecycle KindQueued" "isLifecycle KindRunning" "isLifecycle KindDone" "\<not> isLifecycle KindProgress"
  by (simp_all add: isLifecycle_def)

lemma AppendDoneIdempotent_recorded:
  assumes "AppendDoneIdempotent msize env fs expSeq w = (Inr (), w')" and "json_wf (JObj fs)"
    and "ef_tail (wr_file w) \<noteq> None \<longrightarrow> wr_pendingNewline w"
  obtains m where "snd (scan_done (scan_lines (wr_file w'))) = Some m" and "doneEventsMatch m fs"
    and "ef_tail (wr_file w') \<noteq> None \<longrightarrow> wr_pendingNewline w'"
  using assms(1)
proof (cases rule: AppendDoneIdempotent_cases)
  case (present m)
  with that assms(3) show ?thesis by (auto split: if_splits)
next
  case (appended s q)
  then obtain n where q: "q = Inr n" by (cases q) simp_all
  show ?thesis
    using appended(2)
  proof (cases rule: Append_cases)
    case written
    let ?w = "w\<lparr>wr_seq := s\<rparr>"
    have "ef_tail (wr_file (healed ?w)) = None" using assms(3) by (auto simp: healed_def)
    then have "snd (scan_done (scan_lines (wr_file w'))) = Some (next_event KindDone fs ?w)"
      using written(2) by (simp add: scan_lines_def put_line_def scan_done_snoc)
    with that doneEventsMatch_event [OF assms(2)] written(2) show ?thesis by simp
  qed (use q in simp_all)
qed simp_all

text \<open>A conflict is only ever reported for an event that was there before, and leaves the file alone.\<close>

lemma Append_error:
  "Append msize env kind fs sync w = (Inl e, w') \<Longrightarrow> e = ErrIO \<or> e = ErrEventLineTooLarge"
  by (auto simp: Append_def Let_def split: prod.splits if_splits io.splits)

lemma AppendDoneIdempotent_conflict:
  assumes "AppendDoneIdempotent msize env fs expSeq w = (r, w')" and "r = Inl ErrTerminalEventConflict"
  shows "w' = w"
  using assms(1)
proof (cases rule: AppendDoneIdempotent_cases)
  case (appended s q)
  with assms(2) have "q = Inl ErrTerminalEventConflict" by (cases q) simp_all
  with Append_error [OF appended(2) [unfolded this]] show ?thesis by simp
qed (use assms(2) in simp_all)

section \<open>Streaming\<close>

lemma stream_skip_0 [simp]: "\<not> stream_skip 0 l"
  by (simp add: stream_skip_def split: option.split)

text \<open>The filter \<^verbatim>\<open>From\<close> only removes lines: it never changes where the stream ends.\<close>

lemma stream_lines_from:
  "stream_lines from ls =
     (case stream_lines 0 ls of (out, e) \<Rightarrow> (filter (\<lambda>l. \<not> stream_skip from l) out, e))"
  by (induction ls) (auto simp: Let_def split: prod.splits)

lemma stream_lines_append:
  "stream_lines from (ls @ ms) =
     (case stream_lines from ls of
        (out, StreamEOF) \<Rightarrow> (case stream_lines from ms of (rest, e) \<Rightarrow> (out @ rest, e))
      | (out, e) \<Rightarrow> (out, e))"
  by (induction ls) (auto simp: Let_def split: prod.splits stream_end.splits)

lemma StreamFollow_concat: "StreamFollow from polls = stream_lines from (concat polls)"
  by (induction polls) (auto simp: stream_lines_append split: prod.splits stream_end.splits)

lemma stream_lines_subseq: "set (fst (stream_lines from ls)) \<subseteq> set ls"
  by (induction ls) (auto simp: Let_def split: prod.splits)

text \<open>Every line of a file the writer produced is junk from a torn write or an event.\<close>

definition is_event_line :: "eline \<Rightarrow> bool" where
  "is_event_line l \<longleftrightarrow> (\<exists>kind s fs. el_body l = Some (JObj (event_of kind s fs)) \<and> plain_keys fs \<and> in_i64 s)"

definition lines_are_events :: "efile \<Rightarrow> bool" where
  "lines_are_events f \<longleftrightarrow> (\<forall>l \<in> set (scan_lines f). el_body l = None \<or> is_event_line l)"

lemma is_event_line_size [simp]: "is_event_line (l\<lparr>el_size := n\<rparr>) = is_event_line l"
  by (simp add: is_event_line_def)

lemma is_event_line_event:
  "plain_keys fs \<Longrightarrow> in_i64 s \<Longrightarrow> is_event_line \<lparr>el_body = Some (JObj (event_of kind s fs)), el_size = n\<rparr>"
  by (auto simp: is_event_line_def)

lemma lines_are_events_newline: "lines_are_events f \<Longrightarrow> lines_are_events (put_newline f)"
  by (auto simp: lines_are_events_def scan_lines_def put_newline_def split: option.splits)

lemma lines_are_events_put_line:
  assumes "lines_are_events f" and "plain_keys fs" and "in_i64 s"
  shows "lines_are_events (put_line (event_of kind s fs) n f)"
  using assms(1) is_event_line_event [OF assms(2,3)]
  by (auto simp: lines_are_events_def scan_lines_def put_line_def split: option.splits)

lemma lines_are_events_put_partial:
  assumes "lines_are_events f" and "plain_keys fs" and "in_i64 s"
  shows "lines_are_events (put_partial (event_of kind s fs) m n f)"
  using assms(1) is_event_line_event [OF assms(2,3)] lines_are_events_put_line [OF assms, of kind m]
  by (simp add: put_partial_def)
    (auto simp: lines_are_events_def scan_lines_def split: option.splits)

lemma Append_lines_are_events:
  assumes "Append msize env kind fs sync w = (r, w')" and "lines_are_events (wr_file w)" and "plain_keys fs"
  shows "lines_are_events (wr_file w')"
proof -
  have h: "lines_are_events (wr_file (healed w))"
    using assms(2) by (simp add: healed_def lines_are_events_newline)
  show ?thesis
    using assms(1)
    by (cases rule: Append_cases)
      (simp_all add: assms(2) h lines_are_events_put_line lines_are_events_put_partial assms(3))
qed

lemma append_run_lines_are_events:
  assumes "append_run msize cs w = (rs, w')" and "lines_are_events (wr_file w)"
    and "\<forall>(env, kind, fs, sync) \<in> set cs. plain_keys fs"
  shows "lines_are_events (wr_file w')"
  using assms
proof (induction cs arbitrary: w rs)
  case (Cons c cs)
  obtain env kind fs sync where c: "c = (env, kind, fs, sync)" by (cases c)
  obtain r w1 where a: "Append msize env kind fs sync w = (r, w1)"
    by (cases "Append msize env kind fs sync w")
  obtain rs2 w2 where run: "append_run msize cs w1 = (rs2, w2)" by (cases "append_run msize cs w1")
  from Cons.prems c a run have w2: "w2 = w'" by simp
  have "lines_are_events (wr_file w1)"
    using Append_lines_are_events [OF a Cons.prems(2)] Cons.prems(3) c by auto
  with Cons.IH [OF run [unfolded w2]] Cons.prems(3) show ?case by simp
qed simp

lemma event_line_meta:
  assumes "is_event_line l"
  obtains s k where "line_meta l = Some (s, k)" and "line_seq l = Some s"
proof -
  from assms obtain kind s fs where l: "el_body l = Some (JObj (event_of kind s fs))"
    and p: "plain_keys fs" and s: "in_i64 s" by (auto simp: is_event_line_def)
  note pe = event_of_plain [OF p]
  have "dec_i64 ''seq'' (event_of kind s fs) = Some s"
    by (rule dec_i64_plain [OF pe event_of_seq s])
  moreover have "dec_str ''event'' (event_of kind s fs) = Some (event_kind_str kind)"
    by (rule dec_str_plain [OF pe event_of_event])
  ultimately show thesis using that l by (simp add: line_meta_def line_seq_def)
qed

lemma stream_lines_seqs:
  "\<exists>rest. List.map_filter line_seq ls = List.map_filter line_seq (fst (stream_lines 0 ls)) @ rest"
proof (induction ls)
  case (Cons l ls)
  then show ?case
    by (auto simp: Let_def map_filter_simps split: prod.splits option.splits)
qed (simp add: map_filter_simps)

lemma stream_lines_bodies: "\<forall>l \<in> set (fst (stream_lines from ls)). el_body l \<noteq> None"
  by (induction ls) (auto simp: Let_def split: prod.splits)

lemma map_filter_in: "x \<in> set xs \<Longrightarrow> f x = Some y \<Longrightarrow> y \<in> set (List.map_filter f xs)"
  by (auto simp: List.map_filter_def) (metis (mono_tags) image_eqI mem_Collect_eq option.sel option.distinct(1))

text \<open>A reader that stopped after the event \<open>s\<close> and asks for what follows gets exactly the rest.\<close>

lemma stream_lines_resume:
  assumes evs: "\<forall>l \<in> set ls. el_body l = None \<or> is_event_line l"
    and srt: "sorted_wrt (<) (List.map_filter line_seq ls)"
    and out: "stream_lines 0 ls = (pre @ l # post, e)"
    and s: "line_seq l = Some s" "0 < s"
  shows "stream_lines s ls = (post, e)"
proof -
  have ev: "is_event_line x" if x: "x \<in> set (pre @ l # post)" for x
    using x evs stream_lines_subseq [of 0 ls] stream_lines_bodies [of 0 ls]
    unfolding out fst_conv by blast
  obtain rest where "List.map_filter line_seq ls = List.map_filter line_seq (pre @ l # post) @ rest"
    using stream_lines_seqs [of ls] out by auto
  with srt s(1) have srt2: "sorted_wrt (<) (List.map_filter line_seq pre @ s # List.map_filter line_seq post)"
    by (simp add: map_filter_append map_filter_simps sorted_wrt_append)
  have seq: "\<exists>q. line_seq x = Some q \<and> (stream_skip s x \<longleftrightarrow> q \<le> s)" if x: "x \<in> set (pre @ l # post)" for x
  proof -
    obtain q k where "line_meta x = Some (q, k)" and "line_seq x = Some q"
      by (rule event_line_meta [OF ev [OF x]])
    with s(2) show ?thesis by (simp add: stream_skip_def)
  qed
  have pre: "stream_skip s x" if "x \<in> set pre" for x
  proof -
    from that seq [of x] obtain q where q: "line_seq x = Some q" and k: "stream_skip s x \<longleftrightarrow> q \<le> s" by auto
    have "q < s" using srt2 map_filter_in [where f = line_seq, OF that q] unfolding sorted_wrt_append by simp
    with k show ?thesis by simp
  qed
  have post: "\<not> stream_skip s x" if "x \<in> set post" for x
  proof -
    from that seq [of x] obtain q where q: "line_seq x = Some q" and k: "stream_skip s x \<longleftrightarrow> q \<le> s" by auto
    have "s < q" using srt2 map_filter_in [where f = line_seq, OF that q] unfolding sorted_wrt_append by simp
    with k show ?thesis by simp
  qed
  have l: "stream_skip s l" using seq [of l] s(1) by simp
  have "filter (\<lambda>x. \<not> stream_skip s x) (pre @ l # post) = post"
    using pre post l by simp
  with out stream_lines_from [of s ls] show ?thesis by simp
qed

section \<open>Reopening and the progress budget\<close>

lemma scan_seq_ge:
  "s0 \<le> scan_seq s0 ls \<and> (\<forall>s \<in> set (List.map_filter line_seq ls). s \<le> scan_seq s0 ls)"
proof (induction ls rule: rev_induct)
  case (snoc l ls)
  have "scan_seq s0 (ls @ [l]) =
      (case line_seq l of Some n \<Rightarrow> max (scan_seq s0 ls) n | None \<Rightarrow> scan_seq s0 ls)"
    by (simp add: scan_seq_def split: option.split)
  with snoc show ?case
    by (auto simp: map_filter_append map_filter_simps split: option.splits)
qed (simp add: scan_seq_def map_filter_simps)

lemma Open_cases:
  assumes "Open nl (Some f) = (Inr w, f')"
  shows "f' = Some (wr_file w) \<and> ef_tail (wr_file w) = None \<and> file_seqs (wr_file w) = file_seqs f \<and>
    wr_seq w = scan_seq 0 (scan_lines (wr_file w)) \<and> \<not> wr_pendingNewline w \<and>
    (wr_file w = f \<or> wr_file w = put_newline f)"
  using assms
  by (auto simp: Open_def terminateTornTail_def new_writer_def split: option.splits io.splits if_splits)

lemma Open_writer_ok:
  assumes "Open nl (Some f) = (Inr w, f')" and "sorted_wrt (<) (file_seqs f)"
  shows "writer_ok w"
  using Open_cases [OF assms(1)] assms(2) scan_seq_ge [of 0 "scan_lines (wr_file w)"]
  by (simp add: writer_ok_def file_seqs_def)

lemma Append_progress_budget:
  assumes "Append msize env kind fs sync w = (r, w')"
    and "lim_MaxEventsBuffer (wr_limits w) = 0 \<or> wr_progressBytes w \<le> lim_MaxEventsBuffer (wr_limits w)"
  shows "wr_limits w' = wr_limits w \<and>
    (lim_MaxEventsBuffer (wr_limits w) = 0 \<or> wr_progressBytes w' \<le> lim_MaxEventsBuffer (wr_limits w))"
  using assms(1) by (cases rule: Append_cases) (use assms(2) in auto)

end
