(* ===== verification/Effects.thy ===== *)
theory Effects
  imports Outcome EventFile
begin

text \<open>
  The world the finalize protocol acts on, and its effects.  The world is the database, the
  events file of each mission, the contents of output files by path (as their SHA-256), the
  kinds of critical errors tripped, and the entries of the tombstone directory (name, whether a
  directory, modification time).  Every effect draws its fate from a list: it succeeds, it
  fails, or the daemon crashes there; a write that fails or crashes may have written some bytes.
  A transaction that fails or crashes leaves the database unchanged.  The last section is a
  small program logic: a triple bounds what a procedure does on return, and what holds when it
  stops with an error or a crash.
\<close>

section \<open>The world\<close>

record world =
  wd_db :: db
  wd_events :: "string \<Rightarrow> efile option"
  wd_files :: "string \<Rightarrow> string option"
  wd_critical :: "string list"
  wd_tomb :: "(string \<times> bool \<times> int) list"

datatype fate = FOk | FErr nat | FTx "(tx_fate \<times> bool) list" | FCrash nat

datatype 'a res = Ret 'a | Err error | Crash

type_synonym 'a proc = "fate list \<Rightarrow> world \<Rightarrow> 'a res \<times> fate list \<times> world"

definition ret :: "'a \<Rightarrow> 'a proc" where
  "ret x fs w = (Ret x, fs, w)"

definition err :: "error \<Rightarrow> 'a proc" where
  "err e fs w = (Err e, fs, w)"

definition bindM :: "'a proc \<Rightarrow> ('a \<Rightarrow> 'b proc) \<Rightarrow> 'b proc" where
  "bindM m k fs w =
     (case m fs w of
        (Ret x, fs', w') \<Rightarrow> k x fs' w'
      | (Err e, fs', w') \<Rightarrow> (Err e, fs', w')
      | (Crash, fs', w') \<Rightarrow> (Crash, fs', w'))"

text \<open>An error caught as a value; a crash cannot be caught.\<close>

definition attempt :: "'a proc \<Rightarrow> (error + 'a) proc" where
  "attempt m fs w =
     (case m fs w of
        (Ret x, fs', w') \<Rightarrow> (Ret (Inr x), fs', w')
      | (Err e, fs', w') \<Rightarrow> (Ret (Inl e), fs', w')
      | (Crash, fs', w') \<Rightarrow> (Crash, fs', w'))"

definition next_fate :: "fate list \<Rightarrow> fate \<times> fate list" where
  "next_fate fs = (case fs of [] \<Rightarrow> (FOk, []) | f # fs' \<Rightarrow> (f, fs'))"

definition effect :: "(fate \<Rightarrow> world \<Rightarrow> 'a res \<times> world) \<Rightarrow> 'a proc" where
  "effect step fs w =
     (case next_fate fs of (f, fs') \<Rightarrow> case step f w of (r, w') \<Rightarrow> (r, fs', w'))"

fun each :: "('a \<Rightarrow> unit proc) \<Rightarrow> 'a list \<Rightarrow> unit proc" where
  "each p [] = ret ()"
| "each p (x # xs) = bindM (p x) (\<lambda>_. each p xs)"

definition trip :: "string \<Rightarrow> unit proc" where
  "trip kind fs w = (Ret (), fs, w\<lparr>wd_critical := wd_critical w @ [kind]\<rparr>)"

section \<open>Database effects\<close>

definition sum_res :: "error + 'a \<Rightarrow> 'a res" where
  "sum_res r = (case r of Inl e \<Rightarrow> Err e | Inr x \<Rightarrow> Ret x)"

definition tx_env :: "fate \<Rightarrow> (tx_fate \<times> bool) list" where
  "tx_env f = (case f of FErr n \<Rightarrow> [(TxCommitErr (ErrSqlite (int n)), True)] | FTx env \<Rightarrow> env | _ \<Rightarrow> [])"

definition tx_retry :: "'a stmt \<Rightarrow> 'a proc" where
  "tx_retry fn = effect (\<lambda>f w. case f of
       FCrash _ \<Rightarrow> (Crash, w)
     | _ \<Rightarrow> (case WithWriterRetry (tx_env f) fn (wd_db w) of (r, d, _) \<Rightarrow> (sum_res r, w\<lparr>wd_db := d\<rparr>)))"

definition tx_once :: "'a stmt \<Rightarrow> 'a proc" where
  "tx_once fn = effect (\<lambda>f w. case f of
       FCrash _ \<Rightarrow> (Crash, w)
     | _ \<Rightarrow> (case WithWriter (case tx_env f of [] \<Rightarrow> TxOk | (t, _) # _ \<Rightarrow> t) fn (wd_db w) of
              (r, d) \<Rightarrow> (sum_res r, w\<lparr>wd_db := d\<rparr>)))"

definition query :: "(db \<Rightarrow> error + 'a) \<Rightarrow> 'a proc" where
  "query q = effect (\<lambda>f w. case f of
       FCrash _ \<Rightarrow> (Crash, w)
     | FErr n \<Rightarrow> (Err (ErrSqlite (int n)), w)
     | _ \<Rightarrow> (sum_res (q (wd_db w)), w))"

section \<open>File effects\<close>

text \<open>\<^verbatim>\<open>os.Remove\<close> with its error ignored.\<close>

definition remove :: "string \<Rightarrow> unit proc" where
  "remove p = effect (\<lambda>f w. case f of
       FCrash _ \<Rightarrow> (Crash, w)
     | FErr _ \<Rightarrow> (Ret (), w)
     | _ \<Rightarrow> (Ret (), w\<lparr>wd_files := (wd_files w)(p := None)\<rparr>))"

definition rename :: "string \<Rightarrow> string \<Rightarrow> unit proc" where
  "rename a b = effect (\<lambda>f w. case f of
       FCrash _ \<Rightarrow> (Crash, w)
     | FErr _ \<Rightarrow> (Err ErrIO, w)
     | _ \<Rightarrow> (case wd_files w a of
              None \<Rightarrow> (Err ErrNotFound, w)
            | Some c \<Rightarrow> (Ret (), w\<lparr>wd_files := (wd_files w)(a := None, b := Some c)\<rparr>)))"

text \<open>\<^verbatim>\<open>os.Stat\<close> used as a test: any error counts as absent.\<close>

definition stat :: "string \<Rightarrow> bool proc" where
  "stat p = effect (\<lambda>f w. case f of
       FCrash _ \<Rightarrow> (Crash, w)
     | FErr _ \<Rightarrow> (Ret False, w)
     | _ \<Rightarrow> (Ret (wd_files w p \<noteq> None), w))"

section \<open>Events file effects\<close>

definition open_events :: "string \<Rightarrow> writer proc" where
  "open_events mid = effect (\<lambda>f w. case f of
       FCrash _ \<Rightarrow> (Crash, w)
     | FErr _ \<Rightarrow> (Err ErrIO, w)
     | _ \<Rightarrow> (case Open IoOk (wd_events w mid) of
              (r, f') \<Rightarrow> (sum_res r, w\<lparr>wd_events := (wd_events w)(mid := f')\<rparr>)))"

definition write_io :: "fate \<Rightarrow> io \<times> io \<times> bool" where
  "write_io f = (case f of FErr n \<Rightarrow> (IoOk, IoErr n, True) | FCrash n \<Rightarrow> (IoOk, IoErr n, True)
     | _ \<Rightarrow> (IoOk, IoOk, True))"

definition append_done :: "(fields \<Rightarrow> nat) \<Rightarrow> string \<Rightarrow> writer \<Rightarrow> fields \<Rightarrow> int \<Rightarrow> writer proc" where
  "append_done msize mid ew fs sq = effect (\<lambda>f w.
     case AppendDoneIdempotent msize (write_io f) fs sq ew of
       (r, ew') \<Rightarrow>
         (case f of FCrash _ \<Rightarrow> Crash
          | _ \<Rightarrow> (case r of Inl e \<Rightarrow> Err e | Inr _ \<Rightarrow> Ret ew'),
          w\<lparr>wd_events := (wd_events w)(mid := Some (wr_file ew'))\<rparr>))"

section \<open>Triples\<close>

text \<open>
  \<open>triple P F m Q E\<close>: from a world where \<open>P\<close> holds, with all fates in \<open>F\<close>, \<open>m\<close> either returns
  \<open>x\<close> in a world where \<open>Q x\<close> holds, or stops in one where \<open>E\<close> holds.  With \<open>E\<close> false the
  procedure returns.
\<close>

definition triple ::
  "(world \<Rightarrow> bool) \<Rightarrow> (fate \<Rightarrow> bool) \<Rightarrow> 'a proc \<Rightarrow> ('a \<Rightarrow> world \<Rightarrow> bool) \<Rightarrow> (world \<Rightarrow> bool) \<Rightarrow> bool" where
  "triple P F m Q E \<longleftrightarrow>
     (\<forall>fs w. P w \<longrightarrow> list_all F fs \<longrightarrow>
        (case m fs w of (r, fs', w') \<Rightarrow> list_all F fs' \<and> (case r of Ret x \<Rightarrow> Q x w' | _ \<Rightarrow> E w')))"

lemma tripleI:
  assumes "\<And>fs w r fs' w'. P w \<Longrightarrow> list_all F fs \<Longrightarrow> m fs w = (r, fs', w') \<Longrightarrow>
     list_all F fs' \<and> (case r of Ret x \<Rightarrow> Q x w' | _ \<Rightarrow> E w')"
  shows "triple P F m Q E"
  using assms unfolding triple_def by (auto split: prod.split)

lemma tripleD:
  assumes "triple P F m Q E" and "P w" and "list_all F fs" and "m fs w = (r, fs', w')"
  shows "list_all F fs' \<and> (case r of Ret x \<Rightarrow> Q x w' | _ \<Rightarrow> E w')"
  using assms unfolding triple_def by (metis (mono_tags, lifting) case_prod_conv)

lemma triple_bind:
  assumes "triple P F m Q E" and "\<And>x. triple (Q x) F (k x) R E"
  shows "triple P F (bindM m k) R E"
proof (rule tripleI)
  fix fs w r fs' w'
  assume P: "P w" and F: "list_all F fs" and run: "bindM m k fs w = (r, fs', w')"
  obtain r1 fs1 w1 where m: "m fs w = (r1, fs1, w1)" by (cases "m fs w")
  note post = tripleD [OF assms(1) P F m]
  show "list_all F fs' \<and> (case r of Ret x \<Rightarrow> R x w' | _ \<Rightarrow> E w')"
  proof (cases r1)
    case (Ret x)
    with run m have "k x fs1 w1 = (r, fs', w')" by (simp add: bindM_def)
    from tripleD [OF assms(2) _ _ this] post Ret show ?thesis by simp
  qed (use run m post in \<open>auto simp: bindM_def\<close>)
qed

lemma triple_ret: "(\<And>w. P w \<Longrightarrow> Q x w) \<Longrightarrow> triple P F (ret x) Q E"
  by (simp add: triple_def ret_def)

lemma triple_err: "(\<And>w. P w \<Longrightarrow> E w) \<Longrightarrow> triple P F (err e) Q E"
  by (simp add: triple_def err_def)

lemma triple_conseq:
  assumes "triple P' F m Q' E'" and "\<And>w. P w \<Longrightarrow> P' w"
    and "\<And>x w. Q' x w \<Longrightarrow> Q x w" and "\<And>w. E' w \<Longrightarrow> E w"
  shows "triple P F m Q E"
  unfolding triple_def
proof (intro allI impI)
  fix fs w
  assume P: "P w" and F: "list_all F fs"
  obtain r fs' w' where m: "m fs w = (r, fs', w')" by (cases "m fs w")
  from tripleD [OF assms(1) assms(2) [OF P] F m] assms(3,4) m
  show "case m fs w of (r, fs', w') \<Rightarrow> list_all F fs' \<and> (case r of Ret x \<Rightarrow> Q x w' | _ \<Rightarrow> E w')"
    by (auto split: res.splits)
qed

lemma triple_pure:
  assumes "\<And>w. P w \<Longrightarrow> b" and "b \<Longrightarrow> triple P F m Q E"
  shows "triple P F m Q E"
proof (cases b)
  case False
  with assms(1) have "\<not> P w" for w by auto
  then show ?thesis by (simp add: triple_def)
qed (rule assms(2))

lemma triple_attempt:
  assumes "triple P F m (\<lambda>x. Q (Inr x)) E'" and "\<And>e w. E' w \<Longrightarrow> Q (Inl e) w" and "\<And>w. E' w \<Longrightarrow> E w"
  shows "triple P F (attempt m) Q E"
proof (rule tripleI)
  fix fs w r fs' w'
  assume P: "P w" and F: "list_all F fs" and run: "attempt m fs w = (r, fs', w')"
  obtain r1 fs1 w1 where m: "m fs w = (r1, fs1, w1)" by (cases "m fs w")
  note post = tripleD [OF assms(1) P F m]
  show "list_all F fs' \<and> (case r of Ret x \<Rightarrow> Q x w' | _ \<Rightarrow> E w')"
  proof (cases r1)
    case (Ret x)
    with run m have "r = Ret (Inr x)" "w' = w1" "fs' = fs1" by (simp_all add: attempt_def)
    with post Ret show ?thesis by simp
  next
    case (Err e)
    with run m have "r = Ret (Inl e)" "w' = w1" "fs' = fs1" by (simp_all add: attempt_def)
    with post Err assms(2) show ?thesis by simp
  next
    case Crash
    with run m have "r = Crash" "w' = w1" "fs' = fs1" by (simp_all add: attempt_def)
    with post Crash assms(3) show ?thesis by simp
  qed
qed

lemma triple_each:
  assumes "\<And>x. x \<in> set xs \<Longrightarrow> triple P F (p x) (\<lambda>_. P) E"
  shows "triple P F (each p xs) (\<lambda>_. P) E"
  using assms
proof (induction xs)
  case Nil
  then show ?case by (simp add: triple_ret)
next
  case (Cons x xs)
  then show ?case by (auto intro!: triple_bind [where Q = "\<lambda>_. P"])
qed

lemma triple_effect:
  assumes "F FOk" and "\<And>f w. F f \<Longrightarrow> P w \<Longrightarrow> (case step f w of (Ret x, w') \<Rightarrow> Q x w' | (_, w') \<Rightarrow> E w')"
  shows "triple P F (effect step) Q E"
proof (rule tripleI)
  fix fs w r fs' w'
  assume P: "P w" and F: "list_all F fs" and run: "effect step fs w = (r, fs', w')"
  obtain f fs1 where nf: "next_fate fs = (f, fs1)" by (cases "next_fate fs")
  with F assms(1) have "F f" "list_all F fs1"
    by (auto simp: next_fate_def split: list.splits)
  obtain r1 w1 where st: "step f w = (r1, w1)" by (cases "step f w")
  with run nf have "r = r1" "fs' = fs1" "w' = w1" by (simp_all add: effect_def)
  with assms(2) [OF \<open>F f\<close> P] st \<open>list_all F fs1\<close>
  show "list_all F fs' \<and> (case r of Ret x \<Rightarrow> Q x w' | _ \<Rightarrow> E w')"
    by (simp split: res.splits)
qed

end
