(* ===== verification/Ids.thy ===== *)
theory Ids
  imports Schema "HOL-Library.Word"
begin

unbundle bit_operations_syntax

text \<open>
  UUIDv7 identifiers (\<^verbatim>\<open>internal/ids\<close>): generation with the same-millisecond counter,
  validation, the embedded timestamp and the shard path.  Bytes are 8-bit words; the clock and
  the random bytes are arguments, a panic is \<open>None\<close>.
\<close>

section \<open>Validation\<close>

definition hex_char :: "char \<Rightarrow> bool" where
  "hex_char c = (let n = (of_char c :: nat) in 48 \<le> n \<and> n \<le> 57 \<or> 97 \<le> n \<and> n \<le> 102)"

text \<open>The character class of each position of the regular expression.\<close>

definition uuid_class :: "nat \<Rightarrow> char \<Rightarrow> bool" where
  "uuid_class i c =
     (if i \<in> {8, 13, 18, 23} then c = CHR ''-''
      else if i = 14 then c = CHR ''7''
      else if i = 19 then c \<in> {CHR ''8'', CHR ''9'', CHR ''a'', CHR ''b''}
      else hex_char c)"

definition ValidateUUIDv7 :: "string \<Rightarrow> bool" where
  "ValidateUUIDv7 s \<longleftrightarrow> length s = 36 \<and> list_all (\<lambda>(i, c). uuid_class i c) (enumerate 0 s)"

definition ShardPath :: "string \<Rightarrow> error + string" where
  "ShardPath i =
     (if ValidateUUIDv7 i then Inr (take 2 i @ ''/'' @ take 2 (drop 2 i)) else Inl ErrInvalidUUIDv7)"

definition hex_val :: "char \<Rightarrow> nat" where
  "hex_val c = (let n = (of_char c :: nat) in if n \<le> 57 then n - 48 else n - 87)"

fun hex_bytes :: "string \<Rightarrow> int list" where
  "hex_bytes (a # b # s) = int (16 * hex_val a + hex_val b) # hex_bytes s"
| "hex_bytes _ = []"

definition UUIDv7Timestamp :: "string \<Rightarrow> error + int" where
  "UUIDv7Timestamp i =
     (if \<not> ValidateUUIDv7 i then Inl ErrInvalidUUIDv7
      else Inr (foldl (\<lambda>ts b. wrap64 (ts * 256) + b) 0 (hex_bytes (take 8 i @ take 4 (drop 9 i)))))"

section \<open>Generation\<close>

definition byte_mask :: "nat \<Rightarrow> 8 word" where
  "byte_mask i = (if i = 0 then 0x0f else if i = 2 then 0x3f else 0xff)"

text \<open>
  \<^verbatim>\<open>incrementMonotonic\<close>: the loop body at index \<open>i\<close> with the carry set; the loop ends when the
  carry is absorbed, and a carry out of index 0 panics.
\<close>

fun inc_loop :: "8 word list \<Rightarrow> nat \<Rightarrow> 8 word list option" where
  "inc_loop r i =
     (let m = byte_mask i;
          sum = unat (r ! i AND m) + 1;
          newLow = word_of_nat sum AND m;
          r' = r[i := (r ! i AND NOT m) OR newLow]
      in if unat newLow = sum then Some r'
         else (case i of 0 \<Rightarrow> None | Suc j \<Rightarrow> inc_loop r' j))"

declare inc_loop.simps [simp del]

definition incrementMonotonic :: "8 word list \<Rightarrow> 8 word list option" where
  "incrementMonotonic r = inc_loop r (length r - 1)"

record uuid_state =
  us_lastMs :: int
  us_lastRand :: "8 word list"

definition hex_digit :: "nat \<Rightarrow> char" where
  "hex_digit n = char_of (if n < 10 then 48 + n else 87 + n)"

definition hex_byte :: "8 word \<Rightarrow> string" where
  "hex_byte b = [hex_digit (unat b div 16), hex_digit (unat b mod 16)]"

text \<open>The 16 bytes: 48 bits of milliseconds, then version, variant and counter.\<close>

definition ms_byte :: "int \<Rightarrow> nat \<Rightarrow> 8 word" where
  "ms_byte ms i = word_of_int (ms div 256 ^ (5 - i))"

definition uuid_bytes :: "int \<Rightarrow> 8 word list \<Rightarrow> 8 word list" where
  "uuid_bytes ms r =
     map (ms_byte ms) [0..<6] @ [0x70 OR r ! 0, r ! 1, 0x80 OR r ! 2, r ! 3] @ drop 4 r"

definition dash :: "nat \<Rightarrow> string" where
  "dash k = (if k \<in> {4, 6, 8, 10} then ''-'' else [])"

definition uuid_string :: "8 word list \<Rightarrow> string" where
  "uuid_string b = concat (map (\<lambda>(k, x). dash k @ hex_byte x) (enumerate 0 b))"

definition NewUUIDv7 :: "int \<Rightarrow> 8 word list \<Rightarrow> uuid_state \<Rightarrow> (string \<times> uuid_state) option" where
  "NewUUIDv7 ms rnd st =
     (case (if ms = us_lastMs st then map_option (\<lambda>r. st\<lparr>us_lastRand := r\<rparr>) (incrementMonotonic (us_lastRand st))
            else Some \<lparr>us_lastMs = ms, us_lastRand = rnd[0 := rnd ! 0 AND 0x0f, 2 := rnd ! 2 AND 0x3f]\<rparr>) of
        None \<Rightarrow> None
      | Some st' \<Rightarrow> Some (uuid_string (uuid_bytes ms (us_lastRand st')), st'))"

section \<open>The counter\<close>

text \<open>
  The invariant between calls: ten bytes, the first with a clear high nibble and the third with
  its two high bits clear, so that they form a 74-bit counter.
\<close>

definition radix :: "nat \<Rightarrow> nat" where
  "radix i = (if i = 0 then 16 else if i = 2 then 64 else 256)"

definition rand_ok :: "8 word list \<Rightarrow> bool" where
  "rand_ok r \<longleftrightarrow> length r = 10 \<and> (\<forall>i < 10. unat (r ! i) < radix i)"

fun counter_val :: "8 word list \<Rightarrow> nat \<Rightarrow> nat" where
  "counter_val r 0 = 0"
| "counter_val r (Suc i) = counter_val r i * radix i + unat (r ! i)"

lemma byte_mask_mask: "\<exists>n \<le> 8. byte_mask i = mask n \<and> radix i = 2 ^ n"
proof -
  have "(0x0f :: 8 word) = mask 4" "(0x3f :: 8 word) = mask 6" "(0xff :: 8 word) = mask 8"
    by (simp_all add: mask_eq_decr_exp)
  then show ?thesis
    unfolding byte_mask_def radix_def
    by (cases "i = 0"; cases "i = 2") (auto intro: exI [of _ 4] exI [of _ 6] exI [of _ 8])
qed

lemma masked:
  assumes "unat v < radix i"
  shows "v AND byte_mask i = v" and "v AND NOT (byte_mask i) = 0"
    and "unat (word_of_nat (unat v + 1) AND byte_mask i :: 8 word) = (unat v + 1) mod radix i"
proof -
  obtain n where n: "n \<le> 8" "byte_mask i = mask n" "radix i = 2 ^ n" using byte_mask_mask by blast
  have "unat (take_bit n v) = unat v" using assms n(3) by (simp add: unsigned_take_bit_eq take_bit_nat_eq_self)
  then show a: "v AND byte_mask i = v" unfolding n(2) by (simp add: take_bit_eq_mask [symmetric] word_unat_eq_iff)
  show "v AND NOT (byte_mask i) = 0" by (subst a [symmetric]) (simp add: and.assoc)
  have "(2 :: nat) ^ n dvd 2 ^ 8" using n(1) by (rule le_imp_power_dvd)
  then have "(2 :: nat) ^ n dvd 256" by simp
  have "unat (word_of_nat k AND byte_mask i :: 8 word) = k mod radix i" for k
    unfolding n(2,3) take_bit_eq_mask [symmetric] unsigned_take_bit_eq
    using \<open>2 ^ n dvd 256\<close> by (simp add: unat_of_nat take_bit_eq_mod mod_mod_cancel)
  then show "unat (word_of_nat (unat v + 1) AND byte_mask i :: 8 word) = (unat v + 1) mod radix i" .
qed

text \<open>One step of the loop replaces the byte by its successor modulo its radix.\<close>

lemma inc_loop_step:
  assumes "unat (r ! i) < radix i"
  defines "r' \<equiv> r[i := word_of_nat ((unat (r ! i) + 1) mod radix i)]"
  shows "inc_loop r i = (if unat (r ! i) + 1 < radix i then Some r' else case i of 0 \<Rightarrow> None | Suc j \<Rightarrow> inc_loop r' j)"
proof -
  let ?v = "r ! i"
  note m = masked [OF assms(1)]
  have low: "word_of_nat (unat ?v + 1) AND byte_mask i = (word_of_nat ((unat ?v + 1) mod radix i) :: 8 word)"
    using m(3) by (metis of_nat_unat ucast_id)
  have "unat (word_of_nat ((unat ?v + 1) mod radix i) :: 8 word) = (unat ?v + 1) mod radix i"
    by (metis low m(3))
  moreover have "(unat ?v + 1) mod radix i = unat ?v + 1 \<longleftrightarrow> unat ?v + 1 < radix i"
    using assms(1) by (metis mod_less mod_less_divisor gr_implies_not0 neq0_conv)
  ultimately show ?thesis
    unfolding inc_loop.simps [of r i] Let_def m(1,2) low or.left_neutral r'_def by simp
qed

lemma radix_le: "radix i \<le> 256" and radix_pos: "0 < radix i"
  by (simp_all add: radix_def)

lemma unat_byte: "n < 256 \<Longrightarrow> unat (word_of_nat n :: 8 word) = n"
  by (simp add: unat_of_nat)

lemma rand_ok_update: "rand_ok r \<Longrightarrow> i < 10 \<Longrightarrow> n < radix i \<Longrightarrow> rand_ok (r[i := word_of_nat n])"
  using radix_le [of i] by (auto simp: rand_ok_def nth_list_update unat_byte)

lemma counter_val_cong: "(\<And>j. j < i \<Longrightarrow> r ! j = r' ! j) \<Longrightarrow> counter_val r i = counter_val r' i"
  by (induction i) auto

text \<open>
  Either the counter grows by one, with a first byte that grew by one and nothing changed
  before it, or every byte up to the index was at its maximum.
\<close>

lemma inc_loop_spec:
  assumes "rand_ok r" and "i < 10"
  shows "(case inc_loop r i of
      Some r' \<Rightarrow> rand_ok r' \<and> counter_val r' (Suc i) = counter_val r (Suc i) + 1 \<and>
        (\<forall>k. i < k \<longrightarrow> r' ! k = r ! k) \<and>
        (\<exists>j \<le> i. take j r' = take j r \<and> unat (r' ! j) = unat (r ! j) + 1)
    | None \<Rightarrow> \<forall>j \<le> i. unat (r ! j) + 1 = radix j)"
  using assms
proof (induction i arbitrary: r)
  case 0
  then have b: "unat (r ! 0) < radix 0" and len: "length r = 10" by (auto simp: rand_ok_def)
  show ?case
  proof (cases "unat (r ! 0) + 1 < radix 0")
    case True
    with b len rand_ok_update [OF "0.prems"(1), of 0 "unat (r ! 0) + 1"] show ?thesis
      using unat_byte [of "unat (r ! 0) + 1"] radix_le [of 0]
      by (simp add: inc_loop_step [OF b])
  qed (use b in \<open>simp add: inc_loop_step [OF b]\<close>)
next
  case (Suc i)
  then have b: "unat (r ! Suc i) < radix (Suc i)" and len: "length r = 10" by (auto simp: rand_ok_def)
  let ?n = "(unat (r ! Suc i) + 1) mod radix (Suc i)"
  let ?r = "r[Suc i := word_of_nat ?n]"
  have n: "?n < radix (Suc i)" using radix_pos by simp
  have ok: "rand_ok ?r" by (rule rand_ok_update [OF Suc.prems n])
  have nth: "unat (?r ! Suc i) = ?n" using n radix_le [of "Suc i"] unat_byte [of ?n] len Suc.prems(2) by simp
  have same: "counter_val ?r (Suc i) = counter_val r (Suc i)" by (rule counter_val_cong) simp
  show ?case
  proof (cases "unat (r ! Suc i) + 1 < radix (Suc i)")
    case True
    then have "inc_loop r (Suc i) = Some ?r" and "?n = unat (r ! Suc i) + 1"
      by (simp_all add: inc_loop_step [OF b])
    with ok nth same show ?thesis by (auto intro!: exI [of _ "Suc i"])
  next
    case False
    with b have top: "unat (r ! Suc i) + 1 = radix (Suc i)" by simp
    then have zero: "?n = 0" by simp
    have eq: "inc_loop r (Suc i) = inc_loop ?r i" using False by (simp add: inc_loop_step [OF b])
    have ih: "case inc_loop ?r i of
        Some r' \<Rightarrow> rand_ok r' \<and> counter_val r' (Suc i) = counter_val ?r (Suc i) + 1 \<and>
          (\<forall>k. i < k \<longrightarrow> r' ! k = ?r ! k) \<and> (\<exists>j \<le> i. take j r' = take j ?r \<and> unat (r' ! j) = unat (?r ! j) + 1)
      | None \<Rightarrow> \<forall>j \<le> i. unat (?r ! j) + 1 = radix j"
      by (rule Suc.IH [OF ok]) (use Suc.prems in simp)
    show ?thesis
    proof (cases "inc_loop ?r i")
      case None
      with ih eq top show ?thesis by (auto simp: le_Suc_eq)
    next
      case (Some r')
      with ih have r': "rand_ok r'" "counter_val r' (Suc i) = counter_val ?r (Suc i) + 1"
        "\<And>k. i < k \<Longrightarrow> r' ! k = ?r ! k" by simp_all
      from ih Some obtain j where j: "j \<le> i" "take j r' = take j ?r" "unat (r' ! j) = unat (?r ! j) + 1" by auto
      have "counter_val r' (Suc (Suc i)) = (counter_val r (Suc i) + 1) * radix (Suc i) + unat (?r ! Suc i)"
        using r'(2,3) same by simp
      also have "\<dots> = counter_val r (Suc (Suc i)) + 1" using nth zero top by simp
      finally show ?thesis using r' j eq Some by (auto intro!: exI [of _ j])
    qed
  qed
qed

lemma incrementMonotonic_spec:
  assumes "rand_ok r"
  shows "(case incrementMonotonic r of
      Some r' \<Rightarrow> rand_ok r' \<and> counter_val r' 10 = counter_val r 10 + 1 \<and>
        (\<exists>j < 10. take j r' = take j r \<and> unat (r' ! j) = unat (r ! j) + 1)
    | None \<Rightarrow> \<forall>j < 10. unat (r ! j) + 1 = radix j)"
proof -
  have l: "length r - 1 = 9" using assms by (simp add: rand_ok_def)
  show ?thesis
    using inc_loop_spec [OF assms, of 9] unfolding incrementMonotonic_def l
    by (auto simp: less_Suc_eq_le numeral_eq_Suc split: option.splits)
qed

section \<open>The text form\<close>

lemma of_char_hex_digit: "n < 16 \<Longrightarrow> of_char (hex_digit n) = (if n < 10 then 48 + n else 87 + n :: nat)"
  by (simp add: hex_digit_def)

lemma hex_digits: "hex_digit 7 = CHR ''7''" "hex_digit 8 = CHR ''8''" "hex_digit 9 = CHR ''9''"
  "hex_digit 10 = CHR ''a''" "hex_digit 11 = CHR ''b''"
  by code_simp+

lemma hex_digit_less: "m < n \<Longrightarrow> n < 16 \<Longrightarrow> hex_digit m < hex_digit n"
  by (simp add: less_char_def of_char_hex_digit)

lemma hex_char_digit: "n < 16 \<Longrightarrow> hex_char (hex_digit n)"
  by (simp add: hex_char_def Let_def of_char_hex_digit)

lemma hex_val_digit: "n < 16 \<Longrightarrow> hex_val (hex_digit n) = n"
  by (simp add: hex_val_def Let_def of_char_hex_digit)

lemma unat_lt_256: "unat (b :: 8 word) < 256"
  using unsigned_less [of b] by simp

lemma nibbles: "unat (b :: 8 word) div 16 < 16" "unat b mod 16 < 16"
  using unat_lt_256 [of b] by (simp_all add: less_mult_imp_div_less)

lemma hex_byte_less:
  assumes "unat a < unat (b :: 8 word)"
  shows "hex_byte a @ u < hex_byte b @ v"
proof -
  have "unat a div 16 \<le> unat b div 16" using assms by (simp add: div_le_mono)
  then consider "unat a div 16 < unat b div 16" | "unat a div 16 = unat b div 16" "unat a mod 16 < unat b mod 16"
    using assms by (metis div_mod_decomp linorder_neqE_nat nat_less_le not_less_iff_gr_or_eq add_less_cancel_left)
  then show ?thesis
    by cases (simp_all add: hex_byte_def hex_digit_less nibbles)
qed

fun text_from :: "nat \<Rightarrow> 8 word list \<Rightarrow> string" where
  "text_from k [] = []"
| "text_from k (x # b) = dash k @ hex_byte x @ text_from (Suc k) b"

lemma uuid_string_text: "uuid_string b = text_from 0 b"
proof -
  have "concat (map (\<lambda>(k, x). dash k @ hex_byte x) (enumerate n b)) = text_from n b" for n
    by (induction b arbitrary: n) simp_all
  then show ?thesis by (simp add: uuid_string_def)
qed

lemma append_less_iff: "(u @ v < u @ w) = ((v :: string) < w)"
  by (induction u) simp_all

text \<open>The text form keeps the order of the bytes.\<close>

lemma uuid_string_less:
  assumes "j < length a" and "j < length b" and "take j a = take j b" and "unat (a ! j) < unat (b ! j)"
  shows "uuid_string a < uuid_string b"
proof -
  have "text_from k a < text_from k b" for k
    using assms
  proof (induction j arbitrary: a b k)
    case 0
    then show ?case by (cases a; cases b) (simp_all add: append_less_iff hex_byte_less)
  next
    case (Suc j)
    then obtain x a' b' where "a = x # a'" "b = x # b'" by (cases a; cases b) auto
    with Suc.IH [of a' b' "Suc k"] Suc.prems show ?case by (simp add: append_less_iff)
  qed
  then show ?thesis by (simp add: uuid_string_text)
qed

section \<open>The sixteen bytes\<close>

lemma tagged_bytes:
  fixes x :: "8 word"
  shows "unat x < 16 \<Longrightarrow> unat (0x70 OR x) = 0x70 + unat x" and "unat x < 64 \<Longrightarrow> unat (0x80 OR x) = 0x80 + unat x"
proof -
  have "\<forall>n < 16. unat (0x70 OR word_of_nat n :: 8 word) = 0x70 + n"
    and "\<forall>n < 64. unat (0x80 OR word_of_nat n :: 8 word) = 0x80 + n"
    by code_simp+
  then show "unat x < 16 \<Longrightarrow> unat (0x70 OR x) = 0x70 + unat x" and "unat x < 64 \<Longrightarrow> unat (0x80 OR x) = 0x80 + unat x"
    by (metis of_nat_unat ucast_id)+
qed

lemma rand_list:
  assumes "rand_ok r"
  obtains r0 r1 r2 r3 r4 r5 r6 r7 r8 r9 where "r = [r0, r1, r2, r3, r4, r5, r6, r7, r8, r9]"
    and "unat r0 < 16" and "unat r2 < 64"
proof -
  from assms have l: "length r = 10" and b: "unat (r ! 0) < radix 0" "unat (r ! 2) < radix 2"
    by (auto simp: rand_ok_def)
  then obtain r0 r1 r2 r3 r4 r5 r6 r7 r8 r9 where "r = [r0, r1, r2, r3, r4, r5, r6, r7, r8, r9]"
    by (auto simp: length_Suc_conv numeral_eq_Suc)
  with b that show thesis by (simp add: radix_def)
qed

lemma length_uuid_bytes: "rand_ok r \<Longrightarrow> length (uuid_bytes ms r) = 16"
  by (simp add: uuid_bytes_def rand_ok_def)

lemma upt_6: "[0..<6] = [0, 1, 2, 3, 4, 5 :: nat]"
  by (simp add: upt_rec)

lemma uuid_bytes_list:
  "uuid_bytes ms [r0, r1, r2, r3, r4, r5, r6, r7, r8, r9] =
     [ms_byte ms 0, ms_byte ms 1, ms_byte ms 2, ms_byte ms 3, ms_byte ms 4, ms_byte ms 5,
      0x70 OR r0, r1, 0x80 OR r2, r3, r4, r5, r6, r7, r8, r9]"
  by (simp add: uuid_bytes_def upt_6)

lemma uuid_valid:
  assumes "rand_ok r"
  shows "ValidateUUIDv7 (uuid_string (uuid_bytes ms r))"
proof -
  from assms obtain r0 r1 r2 r3 r4 r5 r6 r7 r8 r9 where r: "r = [r0, r1, r2, r3, r4, r5, r6, r7, r8, r9]"
    and b: "unat r0 < 16" "unat r2 < 64" by (rule rand_list)
  have seven: "hex_digit (unat (0x70 OR r0) div 16) = CHR ''7''"
  proof -
    have "(112 + unat r0) div 16 = 7" using b(1) by presburger
    with tagged_bytes(1) [OF b(1)] show ?thesis by (simp add: hex_digits)
  qed
  have "unat (0x80 OR r2) div 16 = 8 + unat r2 div 16" using tagged_bytes(2) [OF b(2)] by simp
  moreover have "unat r2 div 16 < 4" using b(2) by (simp add: less_mult_imp_div_less)
  then have "unat r2 div 16 \<in> {0, 1, 2, 3}" by auto
  ultimately have variant: "hex_digit (unat (0x80 OR r2) div 16) \<in> {CHR ''8'', CHR ''9'', CHR ''a'', CHR ''b''}"
    by (auto simp: hex_digits)
  show ?thesis
    unfolding r uuid_bytes_list uuid_string_text
    using seven variant
    by (simp add: ValidateUUIDv7_def dash_def hex_byte_def uuid_class_def hex_char_digit nibbles)
qed

lemma unat_ms_byte: "0 \<le> ms \<Longrightarrow> int (unat (ms_byte ms i)) = ms div 256 ^ (5 - i) mod 256"
  by (simp add: ms_byte_def unsigned_of_int take_bit_eq_mod)

lemma hex_bytes_byte: "hex_bytes (hex_byte x @ s) = int (unat x) # hex_bytes s"
  by (simp add: hex_byte_def hex_val_digit nibbles mult.commute [of 16])

lemma uuid_timestamp:
  assumes "rand_ok r" and "0 \<le> ms" and "ms < 2 ^ 48"
  shows "UUIDv7Timestamp (uuid_string (uuid_bytes ms r)) = Inr ms"
proof -
  from assms(1) obtain r0 r1 r2 r3 r4 r5 r6 r7 r8 r9 where r: "r = [r0, r1, r2, r3, r4, r5, r6, r7, r8, r9]"
    by (rule rand_list)
  let ?s = "uuid_string (uuid_bytes ms r)"
  let ?b = "\<lambda>i. int (unat (ms_byte ms i))"
  have "take 8 ?s @ take 4 (drop 9 ?s) = hex_byte (ms_byte ms 0) @ hex_byte (ms_byte ms 1) @ hex_byte (ms_byte ms 2) @
      hex_byte (ms_byte ms 3) @ hex_byte (ms_byte ms 4) @ hex_byte (ms_byte ms 5) @ []"
    unfolding r uuid_bytes_list uuid_string_text by (simp add: dash_def hex_byte_def)
  then have bytes: "hex_bytes (take 8 ?s @ take 4 (drop 9 ?s)) = [?b 0, ?b 1, ?b 2, ?b 3, ?b 4, ?b 5]"
    by (simp only: hex_bytes_byte hex_bytes.simps)
  define q where "q k = ms div 256 ^ k" for k :: nat
  have b: "?b i = q (5 - i) mod 256" for i using unat_ms_byte [OF assms(2)] by (simp add: q_def)
  have step: "q (Suc k) * 256 + q k mod 256 = q k" for k
  proof -
    have "q (Suc k) = q k div 256"
      unfolding q_def power_Suc mult.commute [of 256] by (rule zdiv_zmult2_eq) simp
    then show ?thesis by (simp add: mult.commute [of _ 256])
  qed
  have q5: "q 5 mod 256 = q 5" and pos: "0 \<le> q k" and q0: "q 0 = ms" and le: "q k \<le> ms" for k
    using assms(2,3) zdiv_mono2 [of ms 1] by (auto simp: q_def pos_imp_zdiv_nonneg_iff)
  have w: "wrap64 (q (Suc k) * 256) = q (Suc k) * 256" for k
  proof -
    have "q (Suc k) * 256 \<le> q k" using step [of k] by (simp add: pos_mod_sign)
    with le [of k] assms(3) pos [of "Suc k"] show ?thesis by (intro wrap64_id) (simp_all add: in_i64_def maxInt64_def)
  qed
  have go: "wrap64 (q (Suc k) * 256) + q k mod 256 = q k" for k unfolding w by (rule step)
  have first: "wrap64 (0 * 256) + q 5 = q 5" by (simp add: wrap64_def)
  have digits: "?b 0 = q 5" "?b 1 = q 4 mod 256" "?b 2 = q 3 mod 256" "?b 3 = q 2 mod 256" "?b 4 = q 1 mod 256"
    "?b 5 = q 0 mod 256"
    using b [of 0] b [of 1] b [of 2] b [of 3] b [of 4] b [of 5] q5 by simp_all
  have ks: "5 = Suc 4" "4 = Suc 3" "3 = Suc 2" "2 = Suc 1" "1 = Suc (0 :: nat)" by simp_all
  have "foldl (\<lambda>ts b. wrap64 (ts * 256) + b) 0 [q 5, q 4 mod 256, q 3 mod 256, q 2 mod 256, q 1 mod 256, q 0 mod 256] = q 0"
    by (simp only: foldl.simps first go [of 4, folded ks(1)] go [of 3, folded ks(2)] go [of 2, folded ks(3)]
        go [of 1, folded ks(4)] go [of 0, folded ks(5)])
  then have "foldl (\<lambda>ts b. wrap64 (ts * 256) + b) 0 [?b 0, ?b 1, ?b 2, ?b 3, ?b 4, ?b 5] = ms"
    unfolding digits q0 .
  with bytes uuid_valid [OF assms(1), of ms] show ?thesis by (simp add: UUIDv7Timestamp_def)
qed

section \<open>The generator\<close>

text \<open>Tagging a byte with the version or the variant keeps the order of the counters.\<close>

lemma uuid_bytes_nth:
  assumes "rand_ok r" and "j < 10"
  shows "unat (uuid_bytes ms r ! (6 + j)) = (if j = 0 then 0x70 else if j = 2 then 0x80 else 0) + unat (r ! j)"
proof -
  from assms(1) obtain r0 r1 r2 r3 r4 r5 r6 r7 r8 r9 where r: "r = [r0, r1, r2, r3, r4, r5, r6, r7, r8, r9]"
    and b: "unat r0 < 16" "unat r2 < 64" by (rule rand_list)
  have "j \<in> {0, 1, 2, 3, 4, 5, 6, 7, 8, 9}" using assms(2) by auto
  then show ?thesis
    unfolding r uuid_bytes_list using tagged_bytes b by auto
qed

lemma uuid_bytes_less:
  assumes "rand_ok r" and "rand_ok r'" and "j < 10" and "take j r' = take j r" and "unat (r' ! j) = unat (r ! j) + 1"
  shows "uuid_string (uuid_bytes ms r) < uuid_string (uuid_bytes ms r')"
proof (rule uuid_string_less [where j = "6 + j"])
  show "6 + j < length (uuid_bytes ms r)" "6 + j < length (uuid_bytes ms r')"
    using assms by (simp_all add: length_uuid_bytes)
  show "unat (uuid_bytes ms r ! (6 + j)) < unat (uuid_bytes ms r' ! (6 + j))"
    using assms by (simp add: uuid_bytes_nth)
  have eq: "r' ! i = r ! i" if "i < j" for i using assms(4) that by (metis nth_take)
  show "take (6 + j) (uuid_bytes ms r) = take (6 + j) (uuid_bytes ms r')"
  proof (intro nth_take_lemma allI impI)
    fix i
    assume "i < 6 + j"
    show "uuid_bytes ms r ! i = uuid_bytes ms r' ! i"
    proof (cases "i < 6")
      case True
      then show ?thesis by (simp add: uuid_bytes_def nth_append)
    next
      case False
      then obtain k where k: "i = 6 + k" "k < j" using \<open>i < 6 + j\<close> by (metis add_diff_inverse_nat nat_add_left_cancel_less)
      with assms(3) eq [OF k(2)] uuid_bytes_nth [OF assms(1), of k ms] uuid_bytes_nth [OF assms(2), of k ms]
      show ?thesis by (simp add: word_unat_eq_iff)
    qed
  qed (use assms in \<open>simp_all add: length_uuid_bytes\<close>)
qed

lemma mask_rand_ok:
  assumes "length rnd = 10"
  shows "rand_ok (rnd[0 := rnd ! 0 AND 0x0f, 2 := rnd ! 2 AND 0x3f])"
proof -
  have "unat (x AND 0x0f) < 16" "unat (x AND 0x3f) < 64" for x :: "8 word"
  proof -
    have "x AND 0x0f \<le> 0x0f" "x AND 0x3f \<le> 0x3f" by (rule word_and_le1)+
    then show "unat (x AND 0x0f) < 16" "unat (x AND 0x3f) < 64" by (simp_all add: word_le_nat_alt)
  qed
  with assms show ?thesis
    by (auto simp: rand_ok_def radix_def nth_list_update unat_lt_256)
qed

text \<open>The state between calls: a counter, and the bytes of the last identifier handed out.\<close>

lemma NewUUIDv7_cases:
  assumes "NewUUIDv7 ms rnd st = Some (s, st')" and "rand_ok (us_lastRand st)" and "length rnd = 10"
  shows "rand_ok (us_lastRand st') \<and> us_lastMs st' = ms \<and> s = uuid_string (uuid_bytes ms (us_lastRand st')) \<and>
    (ms = us_lastMs st \<longrightarrow> uuid_string (uuid_bytes ms (us_lastRand st)) < s)"
proof (cases "ms = us_lastMs st")
  case False
  with assms mask_rand_ok [OF assms(3)] show ?thesis by (auto simp: NewUUIDv7_def)
next
  case True
  with assms(1) obtain r where r: "incrementMonotonic (us_lastRand st) = Some r" and s: "s = uuid_string (uuid_bytes ms r)"
    and st': "st' = st\<lparr>us_lastRand := r\<rparr>"
    by (auto simp: NewUUIDv7_def split: option.splits)
  from incrementMonotonic_spec [OF assms(2)] r have ok: "rand_ok r"
    and ex: "\<exists>j < 10. take j r = take j (us_lastRand st) \<and> unat (r ! j) = unat (us_lastRand st ! j) + 1" by auto
  from ex obtain j where j: "j < 10" "take j r = take j (us_lastRand st)" "unat (r ! j) = unat (us_lastRand st ! j) + 1" by blast
  have "uuid_string (uuid_bytes ms (us_lastRand st)) < uuid_string (uuid_bytes ms r)"
    by (rule uuid_bytes_less [OF assms(2) ok j])
  with True ok s st' show ?thesis by simp
qed

text \<open>Of two instants, the later one has the larger byte at the first place where they differ.\<close>

lemma digit_less:
  assumes "ms < (ms' :: int)" and "ms div 256 ^ n = ms' div 256 ^ n"
  shows "\<exists>k < n. (\<forall>i. k < i \<longrightarrow> i \<le> n \<longrightarrow> ms div 256 ^ i = ms' div 256 ^ i) \<and>
    ms div 256 ^ k mod 256 < ms' div 256 ^ k mod 256"
  using assms(2)
proof (induction n)
  case 0
  with assms(1) show ?case by simp
next
  case (Suc n)
  show ?case
  proof (cases "ms div 256 ^ n = ms' div 256 ^ n")
    case True
    from Suc.IH [OF this] obtain k where "k < n" "\<forall>i. k < i \<longrightarrow> i \<le> n \<longrightarrow> ms div 256 ^ i = ms' div 256 ^ i"
      "ms div 256 ^ k mod 256 < ms' div 256 ^ k mod 256" by blast
    with Suc.prems show ?thesis by (intro exI [of _ k]) (auto simp: le_Suc_eq)
  next
    case False
    have "ms div 256 ^ n \<le> ms' div 256 ^ n" using assms(1) by (intro zdiv_mono1) simp_all
    with False have lt: "ms div 256 ^ n < ms' div 256 ^ n" by simp
    have "ms div 256 ^ n div 256 = ms' div 256 ^ n div 256"
      using Suc.prems unfolding power_Suc mult.commute [of 256] by (subst (asm) (1 2) zdiv_zmult2_eq) simp_all
    with lt have "ms div 256 ^ n mod 256 < ms' div 256 ^ n mod 256"
      using div_mult_mod_eq [of "ms div 256 ^ n" 256] div_mult_mod_eq [of "ms' div 256 ^ n" 256] by linarith
    moreover have "\<forall>i. n < i \<longrightarrow> i \<le> Suc n \<longrightarrow> ms div 256 ^ i = ms' div 256 ^ i"
      using Suc.prems by (metis le_SucE less_le_not_le)
    ultimately show ?thesis by blast
  qed
qed

lemma later_ms_less:
  assumes "rand_ok r" and "rand_ok r'" and "0 \<le> ms" and "ms < ms'" and "ms' < 2 ^ 48"
  shows "uuid_string (uuid_bytes ms r) < uuid_string (uuid_bytes ms' r')"
proof -
  have "ms div 256 ^ 6 = ms' div 256 ^ 6" using assms(3-5) by (simp add: div_pos_pos_trivial)
  from digit_less [OF assms(4) this] obtain k where k: "k < 6"
    and eq: "\<And>i. k < i \<Longrightarrow> i \<le> 6 \<Longrightarrow> ms div 256 ^ i = ms' div 256 ^ i"
    and lt: "ms div 256 ^ k mod 256 < ms' div 256 ^ k mod 256" by blast
  have nth: "uuid_bytes t x ! i = ms_byte t i" if "i < 6" for t x i
    using that by (simp add: uuid_bytes_def nth_append)
  show ?thesis
  proof (rule uuid_string_less [where j = "5 - k"])
    show "5 - k < length (uuid_bytes ms r)" "5 - k < length (uuid_bytes ms' r')"
      using assms(1,2) by (simp_all add: length_uuid_bytes)
    have "int (unat (ms_byte ms (5 - k))) < int (unat (ms_byte ms' (5 - k)))"
      using unat_ms_byte [of ms "5 - k"] unat_ms_byte [of ms' "5 - k"] assms(3,4) lt k by simp
    then show "unat (uuid_bytes ms r ! (5 - k)) < unat (uuid_bytes ms' r' ! (5 - k))"
      unfolding of_nat_less_iff by (simp add: nth)
    show "take (5 - k) (uuid_bytes ms r) = take (5 - k) (uuid_bytes ms' r')"
    proof (intro nth_take_lemma allI impI)
      fix i
      assume "i < 5 - k"
      then have "ms div 256 ^ (5 - i) = ms' div 256 ^ (5 - i)" and "i < 6" by (auto intro: eq)
      then show "uuid_bytes ms r ! i = uuid_bytes ms' r' ! i" by (simp add: nth ms_byte_def)
    qed (use assms(1,2) in \<open>simp_all add: length_uuid_bytes\<close>)
  qed
qed

text \<open>A run of calls, each with its clock reading and random bytes; a saturated counter stops it.\<close>

fun generate :: "(int \<times> 8 word list) list \<Rightarrow> uuid_state \<Rightarrow> string list" where
  "generate [] st = []"
| "generate ((ms, rnd) # calls) st =
     (case NewUUIDv7 ms rnd st of None \<Rightarrow> [] | Some (s, st') \<Rightarrow> s # generate calls st')"

lemma generate_increasing:
  assumes "rand_ok (us_lastRand st)" and "0 \<le> us_lastMs st"
    and "sorted (us_lastMs st # map fst calls)" and "\<forall>(ms, rnd) \<in> set calls. ms < 2 ^ 48 \<and> length rnd = 10"
  shows "sorted_wrt (<) (uuid_string (uuid_bytes (us_lastMs st) (us_lastRand st)) # generate calls st) \<and>
    list_all ValidateUUIDv7 (generate calls st)"
  using assms
proof (induction calls arbitrary: st)
  case (Cons c calls)
  obtain ms rnd where c: "c = (ms, rnd)" by (cases c)
  show ?case
  proof (cases "NewUUIDv7 ms rnd st")
    case None
    with c show ?thesis by simp
  next
    case (Some p)
    obtain s st' where p: "p = (s, st')" by (cases p)
    note new = NewUUIDv7_cases [OF Some [unfolded p] Cons.prems(1)]
    have rnd: "length rnd = 10" and lt: "ms < 2 ^ 48" using Cons.prems(4) c by auto
    from new [OF rnd] have ok: "rand_ok (us_lastRand st')" and ms: "us_lastMs st' = ms"
      and s: "s = uuid_string (uuid_bytes ms (us_lastRand st'))"
      and inc: "ms = us_lastMs st \<Longrightarrow> uuid_string (uuid_bytes ms (us_lastRand st)) < s" by auto
    have le: "us_lastMs st \<le> ms" and pos: "0 \<le> us_lastMs st'" using Cons.prems(2,3) c ms by auto
    have step: "uuid_string (uuid_bytes (us_lastMs st) (us_lastRand st)) < s"
    proof (cases "ms = us_lastMs st")
      case False
      with le later_ms_less [OF Cons.prems(1) ok Cons.prems(2), of ms] lt s show ?thesis by simp
    qed (use inc in simp)
    have ih: "sorted_wrt (<) (s # generate calls st') \<and> list_all ValidateUUIDv7 (generate calls st')"
      unfolding s ms [symmetric] by (rule Cons.IH [OF ok pos]) (use Cons.prems(3,4) c ms in auto)
    then have "\<forall>t \<in> set (generate calls st'). uuid_string (uuid_bytes (us_lastMs st) (us_lastRand st)) < t"
      using step by (auto intro: less_trans)
    with ih step Some p c uuid_valid [OF ok] s show ?thesis by simp
  qed
qed simp

end
