(* ===== verification/Finalize.thy ===== *)
theory Finalize
  imports Effects Ids
begin

text \<open>
  The durable finalize protocol (\<^verbatim>\<open>internal/mission/finalize.go\<close>, \<^verbatim>\<open>queued_kill.go\<close>): Phase A2
  records the intent, Phase B moves the output files, then the terminal event is appended and a
  single transaction marks the mission done.  The procedures run on the world of \<open>Effects\<close>.
  Metrics, log lines and the fsync of directories are left out.  Paths are clean absolute
  paths, as \<^verbatim>\<open>filepath.Join\<close> returns them, and the data directory is not the root.
\<close>

section \<open>What the protocol draws from its environment\<close>

text \<open>The encoded size of an event, the text of an error, and the clock.\<close>

record fin_env =
  fe_msize :: "fields \<Rightarrow> nat"
  fe_errtext :: "error \<Rightarrow> string"
  fe_now :: int

section \<open>Paths and the intent's outputs\<close>

definition has_prefix :: "string \<Rightarrow> string \<Rightarrow> bool" where
  "has_prefix s p \<longleftrightarrow> take (length p) s = p"

text \<open>\<^verbatim>\<open>filepath.Rel\<close> on clean absolute paths: only a path below the base has no \<^verbatim>\<open>..\<close>.\<close>

definition relPathFromDataDir :: "string \<Rightarrow> string \<Rightarrow> string" where
  "relPathFromDataDir dataDir p =
     (if p = dataDir then ''.''
      else if has_prefix p (dataDir @ ''/'') then
        (let rel = drop (Suc (length dataDir)) p in if has_prefix rel ''..'' then p else rel)
      else p)"

definition path_join :: "string \<Rightarrow> string \<Rightarrow> string" where
  "path_join d r = (if has_prefix r ''/'' then d @ r else d @ ''/'' @ r)"

definition resolveIntentPath :: "string \<Rightarrow> string \<Rightarrow> string \<Rightarrow> string" where
  "resolveIntentPath dataDir rel legacyAbs = (if rel \<noteq> [] then path_join dataDir rel else legacyAbs)"

definition marshalIntentOutputs :: "CollectedOutput list \<Rightarrow> string \<Rightarrow> intent_output list" where
  "marshalIntentOutputs outputs dataDir =
     map (\<lambda>op. \<lparr>io_Role = co_Role op, io_StagingID = co_StagingID op,
        io_TmpRel = relPathFromDataDir dataDir (co_TmpPath op),
        io_FinalRel = relPathFromDataDir dataDir (co_FinalPath op),
        io_TmpPathAbs = [], io_FinalPathAbs = [], io_Sha256 = co_Sha256 op, io_Size = co_Size op\<rparr>) outputs"

definition decodeIntentOutputsForDataDir :: "intent_output list \<Rightarrow> string \<Rightarrow> CollectedOutput list" where
  "decodeIntentOutputsForDataDir xs dataDir =
     map (\<lambda>j. \<lparr>co_Role = io_Role j, co_StagingID = io_StagingID j,
        co_TmpPath = resolveIntentPath dataDir (io_TmpRel j) (io_TmpPathAbs j),
        co_FinalPath = resolveIntentPath dataDir (io_FinalRel j) (io_FinalPathAbs j),
        co_Sha256 = io_Sha256 j, co_Size = io_Size j\<rparr>) xs"

text \<open>A blob that does not decode trips the critical-error flag and counts as no outputs.\<close>

definition unmarshalIntentOutputs :: "intent_output list option \<Rightarrow> string \<Rightarrow> CollectedOutput list proc" where
  "unmarshalIntentOutputs raw dataDir =
     (case raw of
        Some xs \<Rightarrow> ret (decodeIntentOutputsForDataDir xs dataDir)
      | None \<Rightarrow> bindM (trip ''corrupt_intent_outputs'') (\<lambda>_. ret []))"

section \<open>The done event\<close>

definition withSeqAndEvent :: "fields \<Rightarrow> int \<Rightarrow> fields" where
  "withSeqAndEvent fs sq = event_of KindDone sq fs"

definition extractDoneFields :: "fields option \<Rightarrow> fields option" where
  "extractDoneFields stored = map_option (\<lambda>raw. mdel ''event'' (mdel ''seq'' raw)) stored"

definition doneEventTimeFinished :: "fields \<Rightarrow> int" where
  "doneEventTimeFinished fs =
     (case mget fs ''time_finished'' of
        Some (JInt i) \<Rightarrow> i | Some (JFlt r) \<Rightarrow> trunc_rat r | _ \<Rightarrow> 0)"

definition nullStr :: "string \<Rightarrow> string option" where
  "nullStr s = (if s = [] then None else Some s)"

definition nonempty_raw :: "raw_message option \<Rightarrow> raw_message option" where
  "nonempty_raw r = (if rlen r = 0 then None else r)"

section \<open>Statements\<close>

fun each_stmt :: "('a \<Rightarrow> unit stmt) \<Rightarrow> 'a list \<Rightarrow> unit stmt" where
  "each_stmt st [] d = Inr ((), d)"
| "each_stmt st (x # xs) d = (case st x d of Inl e \<Rightarrow> Inl e | Inr (_, d') \<Rightarrow> each_stmt st xs d')"

definition stagingTTL24h :: int where
  "stagingTTL24h = 24 * 3600 * 1000"

definition pending_row :: "string \<Rightarrow> int \<Rightarrow> CollectedOutput \<Rightarrow> staging_file" where
  "pending_row dataDir nowMs op =
     \<lparr>stg_StagingID = co_StagingID op, stg_State = StagingPendingOutput, stg_Sha256 = co_Sha256 op,
      stg_Size = co_Size op, stg_BytesReceived = co_Size op,
      stg_Path = relPathFromDataDir dataDir (co_TmpPath op), stg_TimeCreatedMs = nowMs,
      stg_TimeUpdatedMs = nowMs, stg_TimeExpiresMs = nowMs + stagingTTL24h, stg_DownloadedAt = None\<rparr>"

text \<open>Phase A2: pending_output rows and the intent, in one transaction.\<close>

definition phaseA2_stmt :: "string \<Rightarrow> int \<Rightarrow> CollectedOutput list \<Rightarrow> finalize_intent \<Rightarrow> unit stmt" where
  "phaseA2_stmt dataDir nowMs outputs intent d =
     (case each_stmt (\<lambda>op. InsertStaging (pending_row dataDir nowMs op)) outputs d of
        Inl e \<Rightarrow> Inl e
      | Inr (_, d') \<Rightarrow> InsertFinalizeIntent intent d')"

definition mark_committing :: "string \<Rightarrow> db \<Rightarrow> db" where
  "mark_committing sid d =
     d\<lparr>staging_files := sql_update (\<lambda>s. stg_StagingID s = sid \<and> stg_State s = StagingPendingOutput)
        (\<lambda>s. s\<lparr>stg_State := StagingCommitting\<rparr>) (staging_files d)\<rparr>"

definition phaseB1_stmt :: "CollectedOutput list \<Rightarrow> string \<Rightarrow> unit stmt" where
  "phaseB1_stmt outputs mid d =
     UpdateFinalizePhase mid PhaseCommitting (fold (\<lambda>op. mark_committing (co_StagingID op)) outputs d)"

text \<open>The final transaction; its result says whether the mission row had gone.\<close>

definition finish_row :: "finalize_intent \<Rightarrow> int \<Rightarrow> mission \<Rightarrow> mission" where
  "finish_row i finishedMs m =
     m\<lparr>msn_Status := StatusDone, msn_Outcome := Some (fi_Outcome i), msn_FailReason := fi_FailReason i,
       msn_FailMessage := fi_FailMessage i, msn_FailDetails := fi_FailDetails i,
       msn_ExitCode := fi_ExitCode i, msn_Signal := fi_Signal i, msn_ReturnValue := fi_ReturnValue i,
       msn_TimeFinishedMs := Some finishedMs\<rparr>"

definition discard_output :: "string \<Rightarrow> CollectedOutput \<Rightarrow> db \<Rightarrow> db" where
  "discard_output dataDir op d =
     d\<lparr>staging_files := sql_update
         (\<lambda>s. stg_StagingID s = co_StagingID op \<and> stg_State s \<in> {StagingPendingOutput, StagingCommitting})
         (\<lambda>s. s\<lparr>stg_State := StagingDeleting, stg_Path := relPathFromDataDir dataDir (co_FinalPath op)\<rparr>)
         (staging_files d)\<rparr>"

definition publish_output :: "string \<Rightarrow> string \<Rightarrow> CollectedOutput \<Rightarrow> unit stmt" where
  "publish_output dataDir mid op d =
     (case MarkStagingCompleteWithPath (co_StagingID op) (relPathFromDataDir dataDir (co_FinalPath op)) d of
        Inl e \<Rightarrow> Inl e
      | Inr (_, d') \<Rightarrow> InsertRef \<lparr>ref_MissionID = mid, ref_StagingID = co_StagingID op,
          ref_RefKind = RefOutput, ref_Role = co_Role op\<rparr> d')"

abbreviation unfinished :: "mission \<Rightarrow> bool" where
  "unfinished m \<equiv> msn_Status m \<in> {StatusQueued, StatusRunning}"

definition commit_stmt :: "string \<Rightarrow> finalize_intent \<Rightarrow> CollectedOutput list \<Rightarrow> int \<Rightarrow> bool stmt" where
  "commit_stmt dataDir i outputs finishedMs d =
     (case guarded_update (fi_MissionID i) unfinished (finish_row i finishedMs) d of
        Inl _ \<Rightarrow>
          Inr (True, DeleteFinalizeIntent (fi_MissionID i) (fold (discard_output dataDir) outputs d))
      | Inr (_, d1) \<Rightarrow>
          (case each_stmt (publish_output dataDir (fi_MissionID i)) outputs d1 of
             Inl e \<Rightarrow> Inl e
           | Inr (_, d2) \<Rightarrow> Inr (False, DeleteFinalizeIntent (fi_MissionID i) d2)))"

definition zero_policy :: ttl_policy where
  "zero_policy = \<lparr>ttl_MissionSuccess = 0, ttl_MissionFailed = 0, ttl_ExecSuccess = 0, ttl_ExecFailed = 0,
     ttl_StagingTTL = 0, ttl_DownloadGrace = 0\<rparr>"

section \<open>Commit\<close>

text \<open>A recalculation whose transaction fails is logged and skipped.\<close>

definition recalc_outputs :: "ttl_policy \<Rightarrow> CollectedOutput list \<Rightarrow> unit proc" where
  "recalc_outputs p outputs =
     each (\<lambda>op. bindM (attempt (tx_once (RecalcStagingTTL (co_StagingID op) p))) (\<lambda>_. ret ())) outputs"

definition append_or_conflict :: "fin_env \<Rightarrow> writer \<Rightarrow> finalize_intent \<Rightarrow> fields \<Rightarrow> writer proc" where
  "append_or_conflict E ew i fs =
     bindM (attempt (append_done (fe_msize E) (fi_MissionID i) ew fs (fi_DoneSeq i)))
       (\<lambda>r. case r of
          Inr ew' \<Rightarrow> ret ew'
        | Inl e \<Rightarrow> if e = ErrTerminalEventConflict
                   then bindM (trip ''terminal_event_conflict'') (\<lambda>_. err e) else err e)"

definition commitFinalize ::
  "fin_env \<Rightarrow> writer \<Rightarrow> finalize_intent \<Rightarrow> CollectedOutput list \<Rightarrow> FinalizeConfig \<Rightarrow> unit proc" where
  "commitFinalize E ew i outputs cfg =
     (case extractDoneFields (fi_DoneEvent i) of
        None \<Rightarrow> err ErrIO
      | Some fs \<Rightarrow>
          bindM (append_or_conflict E ew i fs) (\<lambda>_.
            let finishedMs = (if doneEventTimeFinished fs \<le> 0 then fe_now E else doneEventTimeFinished fs)
            in bindM (tx_retry (commit_stmt (fc_DataDir cfg) i outputs finishedMs)) (\<lambda>missionGone.
                 if missionGone then ret ()
                 else if outputs \<noteq> [] \<and> fc_TTL cfg \<noteq> zero_policy then recalc_outputs (fc_TTL cfg) outputs
                 else ret ())))"

section \<open>Revert\<close>

definition remove_outputs :: "CollectedOutput list \<Rightarrow> unit proc" where
  "remove_outputs outputs = each (\<lambda>op. bindM (remove (co_TmpPath op)) (\<lambda>_. remove (co_FinalPath op))) outputs"

definition failed_intent :: "string \<Rightarrow> string \<Rightarrow> int \<Rightarrow> fields \<Rightarrow> finalize_intent \<Rightarrow> finalize_intent" where
  "failed_intent failReason message newSeq done_fields i =
     i\<lparr>fi_Phase := PhasePrepared, fi_Outcome := ''failed'', fi_FailReason := Some failReason,
       fi_FailMessage := Some message, fi_FailDetails := None, fi_ReturnValue := None,
       fi_Outputs := Some [], fi_DoneSeq := newSeq, fi_DoneEvent := Some (withSeqAndEvent done_fields newSeq)\<rparr>"

definition mark_deleting :: "string \<Rightarrow> db \<Rightarrow> db" where
  "mark_deleting sid d =
     d\<lparr>staging_files := sql_update (\<lambda>s. stg_StagingID s = sid) (\<lambda>s. s\<lparr>stg_State := StagingDeleting\<rparr>)
        (staging_files d)\<rparr>"

definition revert_stmt :: "(finalize_intent \<Rightarrow> finalize_intent) \<Rightarrow> string \<Rightarrow> CollectedOutput list \<Rightarrow> unit stmt" where
  "revert_stmt f mid outputs d =
     Inr ((), fold (\<lambda>op. mark_deleting (co_StagingID op)) outputs
       (d\<lparr>finalize_intents := sql_update (\<lambda>i. fi_MissionID i = mid) f (finalize_intents d)\<rparr>))"

text \<open>The done event of a revert carries neither a duration nor a progress count.\<close>

definition revert_fields :: "int \<Rightarrow> finalize_intent \<Rightarrow> string \<Rightarrow> string \<Rightarrow> fields" where
  "revert_fields nowMs i failReason message =
     buildDoneFields (outcome_zero\<lparr>or_Outcome := ''failed'', or_FailReason := failReason,
        or_FailMessage := message,
        or_ExitCode := (case fi_ExitCode i of None \<Rightarrow> 0 | Some c \<Rightarrow> c),
        or_Signal := (case fi_Signal i of None \<Rightarrow> [] | Some s \<Rightarrow> s), or_DropReturn := True\<rparr>) [] nowMs 0 0"

definition revertFailedCommit ::
  "fin_env \<Rightarrow> writer \<Rightarrow> finalize_intent \<Rightarrow> CollectedOutput list \<Rightarrow> FinalizeConfig \<Rightarrow> string \<Rightarrow> string \<Rightarrow> unit proc" where
  "revertFailedCommit E ew i outputs cfg reason cause =
     bindM (remove_outputs outputs) (\<lambda>_.
       let failReason = (if reason = [] then ''output_commit_failed'' else reason);
           newSeq = wrap64 (wr_seq ew + 1);
           upd = failed_intent failReason cause newSeq (revert_fields (fe_now E) i failReason cause)
       in bindM (tx_retry (revert_stmt upd (fi_MissionID i) outputs)) (\<lambda>_.
            commitFinalize E ew ((upd i)\<lparr>fi_FailMessage := nullStr cause\<rparr>) [] cfg))"

section \<open>Phase B\<close>

text \<open>Renaming the outputs one by one; the first failure is reported with its path and error.\<close>

fun rename_outputs :: "CollectedOutput list \<Rightarrow> (string \<times> error) option proc" where
  "rename_outputs [] = ret None"
| "rename_outputs (op # ops) =
     bindM (attempt (rename (co_TmpPath op) (co_FinalPath op))) (\<lambda>r.
       case r of Inl e \<Rightarrow> ret (Some (co_TmpPath op, e)) | Inr _ \<Rightarrow> rename_outputs ops)"

definition phase_B ::
  "fin_env \<Rightarrow> writer \<Rightarrow> finalize_intent \<Rightarrow> CollectedOutput list \<Rightarrow> FinalizeConfig \<Rightarrow> unit proc" where
  "phase_B E ew i outputs cfg =
     bindM (tx_retry (phaseB1_stmt outputs (fi_MissionID i))) (\<lambda>_.
     bindM (rename_outputs outputs) (\<lambda>r.
       case r of
         Some (p, e) \<Rightarrow> revertFailedCommit E ew i outputs cfg ''output_commit_failed''
                          (''rename '' @ p @ '': '' @ fe_errtext E e)
       | None \<Rightarrow> commitFinalize E ew i outputs cfg))"

section \<open>Finalize\<close>

record FinalizeInputs =
  fin_MissionID :: string
  fin_Outcome :: OutcomeResult
  fin_Outputs :: "CollectedOutput list"
  fin_TimeStartedMs :: int
  fin_ProgressDropped :: int

definition intent_of ::
  "FinalizeInputs \<Rightarrow> OutcomeResult \<Rightarrow> CollectedOutput list \<Rightarrow> FinalizeConfig \<Rightarrow> int \<Rightarrow> int \<Rightarrow> finalize_intent" where
  "intent_of inp r outputs cfg nowMs doneSeq =
     \<lparr>fi_MissionID = fin_MissionID inp, fi_Phase = PhasePrepared, fi_Outcome = or_Outcome r,
      fi_ReturnValue = nonempty_raw (or_Return r), fi_FailReason = nullStr (or_FailReason r),
      fi_FailMessage = nullStr (or_FailMessage r), fi_FailDetails = nonempty_raw (or_FailDetails r),
      fi_ExitCode = Some (or_ExitCode r), fi_Signal = nullStr (or_Signal r),
      fi_Outputs = Some (marshalIntentOutputs outputs (fc_DataDir cfg)), fi_DoneSeq = doneSeq,
      fi_DoneEvent = Some (withSeqAndEvent
        (buildDoneFields r outputs nowMs (fin_TimeStartedMs inp) (fin_ProgressDropped inp)) doneSeq),
      fi_TimeCreatedMs = nowMs\<rparr>"

definition remove_tmp :: "CollectedOutput list \<Rightarrow> unit proc" where
  "remove_tmp outputs = each (\<lambda>op. remove (co_TmpPath op)) outputs"

definition Finalize :: "fin_env \<Rightarrow> FinalizeInputs \<Rightarrow> FinalizeConfig \<Rightarrow> unit proc" where
  "Finalize E inp cfg =
     (case ShardPath (fin_MissionID inp) of
        Inl e \<Rightarrow> err e
      | Inr _ \<Rightarrow>
          let r = capOutcome (fin_Outcome inp) cfg;
              demoted = or_Outcome r \<noteq> ''success'' \<and> fin_Outputs inp \<noteq> [];
              outputs = (if demoted then [] else fin_Outputs inp)
          in bindM (if demoted then remove_tmp (fin_Outputs inp) else ret ()) (\<lambda>_.
             bindM (open_events (fin_MissionID inp)) (\<lambda>ew.
               let i = intent_of inp r outputs cfg (fe_now E) (wrap64 (wr_seq ew + 1))
               in bindM (attempt (tx_retry (phaseA2_stmt (fc_DataDir cfg) (fe_now E) outputs i))) (\<lambda>a2.
                  case a2 of
                    Inl e \<Rightarrow> bindM (remove_tmp outputs) (\<lambda>_. err e)
                  | Inr _ \<Rightarrow>
                      if outputs = [] then commitFinalize E ew i [] cfg
                      else phase_B E ew i outputs cfg))))"

section \<open>Re-entry from a stored intent\<close>

definition CommitFromIntent :: "fin_env \<Rightarrow> writer \<Rightarrow> finalize_intent \<Rightarrow> FinalizeConfig \<Rightarrow> unit proc" where
  "CommitFromIntent E ew i cfg =
     bindM (query (GetMissionLabels (fi_MissionID i))) (\<lambda>_.
     bindM (unmarshalIntentOutputs (fi_Outputs i) (fc_DataDir cfg)) (\<lambda>outputs.
       commitFinalize E ew i outputs cfg))"

definition ContinuePhaseB :: "fin_env \<Rightarrow> writer \<Rightarrow> finalize_intent \<Rightarrow> FinalizeConfig \<Rightarrow> unit proc" where
  "ContinuePhaseB E ew i cfg =
     bindM (query (GetMissionLabels (fi_MissionID i))) (\<lambda>_.
     bindM (unmarshalIntentOutputs (fi_Outputs i) (fc_DataDir cfg)) (\<lambda>outputs.
       if outputs = [] then commitFinalize E ew i [] cfg else phase_B E ew i outputs cfg))"

definition RevertIntentToFailed ::
  "fin_env \<Rightarrow> writer \<Rightarrow> finalize_intent \<Rightarrow> FinalizeConfig \<Rightarrow> string \<Rightarrow> string \<Rightarrow> unit proc" where
  "RevertIntentToFailed E ew i cfg failReason reason =
     bindM (query (GetMissionLabels (fi_MissionID i))) (\<lambda>_.
     bindM (unmarshalIntentOutputs (fi_Outputs i) (fc_DataDir cfg)) (\<lambda>outputs.
       revertFailedCommit E ew i outputs cfg failReason reason))"

section \<open>Killing a queued mission\<close>

definition kill_fields :: "int \<Rightarrow> string \<Rightarrow> string \<Rightarrow> fields" where
  "kill_fields nowMs failReason failMessage =
     put_if (failMessage \<noteq> []) ''fail_message'' (JStr failMessage)
       [(''time_finished'', JInt nowMs), (''outcome'', JStr ''killed''), (''exit_code'', JInt 0),
        (''fail_reason'', JStr failReason)]"

definition kill_message :: "string \<Rightarrow> string \<Rightarrow> string" where
  "kill_message failReason lane =
     (case fst (killFailure (kill_reason_of failReason) 0 lane) of
        [] \<Rightarrow> [] | msg \<Rightarrow> msg @ '' before it started'')"

definition kill_intent :: "string \<Rightarrow> string \<Rightarrow> string \<Rightarrow> int \<Rightarrow> int \<Rightarrow> finalize_intent" where
  "kill_intent mid lane failReason nowMs doneSeq =
     \<lparr>fi_MissionID = mid, fi_Phase = PhasePrepared, fi_Outcome = ''killed'', fi_ReturnValue = None,
      fi_FailReason = Some failReason, fi_FailMessage = nullStr (kill_message failReason lane),
      fi_FailDetails = None, fi_ExitCode = Some 0, fi_Signal = None, fi_Outputs = Some [],
      fi_DoneSeq = doneSeq,
      fi_DoneEvent = Some (withSeqAndEvent (kill_fields nowMs failReason (kill_message failReason lane)) doneSeq),
      fi_TimeCreatedMs = nowMs\<rparr>"

text \<open>Status re-check, intent re-check and insert share one writer transaction.\<close>

definition kill_stmt :: "finalize_intent \<Rightarrow> unit stmt" where
  "kill_stmt i d =
     (case find_mission (fi_MissionID i) d of
        None \<Rightarrow> Inl ErrNotFound
      | Some m \<Rightarrow>
          if msn_Status m \<noteq> StatusQueued then Inl ErrMissionNotQueued
          else (case GetFinalizeIntent (fi_MissionID i) d of
                  Inr _ \<Rightarrow> Inl ErrMissionNotQueued
                | Inl _ \<Rightarrow> InsertFinalizeIntent i d))"

definition kill_config :: "string \<Rightarrow> FinalizeConfig" where
  "kill_config dataDir = \<lparr>fc_DataDir = dataDir, fc_MaxReturnValue = 0, fc_MaxFailMessage = 0,
     fc_MaxFailDetails = 0, fc_TTL = zero_policy\<rparr>"

definition KillQueued :: "fin_env \<Rightarrow> string \<Rightarrow> string \<Rightarrow> string \<Rightarrow> string \<Rightarrow> unit proc" where
  "KillQueued E dataDir mid lane failReason =
     (if failReason = [] then err ErrFailReasonRequired
      else case ShardPath mid of
             Inl e \<Rightarrow> err e
           | Inr _ \<Rightarrow>
               bindM (open_events mid) (\<lambda>ew.
                 let i = kill_intent mid lane failReason (fe_now E) (wrap64 (wr_seq ew + 1))
                 in bindM (tx_once (kill_stmt i)) (\<lambda>_. commitFinalize E ew i [] (kill_config dataDir))))"

end
