(* ===== verification/Repair.thy ===== *)
theory Repair
  imports Finalize
begin

text \<open>
  Startup repair (\<^verbatim>\<open>internal/repair\<close>): the recovery matrix for finalize intents, the
  terminal-event consistency pass, the running-to-lost sweep and the orphan sweep, in the order
  \<^verbatim>\<open>cmd/dugdale/main.go\<close> runs them.
\<close>

section \<open>Configuration and effects\<close>

record repair_cfg =
  rc_fin :: FinalizeConfig
  rc_limits :: limits

text \<open>
  Creating a missing events file with a synthetic running event.  A fate with a positive count
  has created the file and written one byte less than the count.
\<close>

definition create_running :: "fin_env \<Rightarrow> string \<Rightarrow> unit proc" where
  "create_running E mid = effect (\<lambda>f w.
     let crash = (case f of FCrash _ \<Rightarrow> True | _ \<Rightarrow> False);
         io = (case f of FErr n \<Rightarrow> Some n | FCrash n \<Rightarrow> Some n | _ \<Rightarrow> None);
         lw = (case io of Some (Suc n) \<Rightarrow> IoErr n | _ \<Rightarrow> IoOk)
     in (if crash then Crash else Ret (),
         case Create (wd_events w mid) of
           Inl _ \<Rightarrow> w
         | Inr wr \<Rightarrow>
             if io = Some 0 then w
             else case Append (fe_msize E) (IoOk, lw, True) KindRunning [(''time'', JInt (fe_now E))] False wr of
                    (_, wr') \<Rightarrow> w\<lparr>wd_events := (wd_events w)(mid := Some (wr_file wr'))\<rparr>))"

definition ensureEventsFile :: "fin_env \<Rightarrow> string \<Rightarrow> unit proc" where
  "ensureEventsFile E mid =
     bindM (attempt (open_events mid)) (\<lambda>r.
       case r of Inr _ \<Rightarrow> ret () | Inl _ \<Rightarrow> create_running E mid)"

text \<open>\<^verbatim>\<open>verifyFinalSha\<close>: an error, or whether the content differs.\<close>

definition verifyFinalSha :: "string \<Rightarrow> string \<Rightarrow> (error + bool) proc" where
  "verifyFinalSha p expected =
     (if expected = [] then ret (Inr False)
      else effect (\<lambda>f w. case f of
             FCrash _ \<Rightarrow> (Crash, w)
           | FErr _ \<Rightarrow> (Ret (Inl ErrIO), w)
           | _ \<Rightarrow> (case wd_files w p of
                    None \<Rightarrow> (Ret (Inl ErrNotFound), w)
                  | Some c \<Rightarrow> (Ret (Inr (c \<noteq> expected)), w))))"

definition decodeIntentOutputs :: "intent_output list option \<Rightarrow> string \<Rightarrow> CollectedOutput list" where
  "decodeIntentOutputs raw dataDir =
     (case raw of None \<Rightarrow> [] | Some xs \<Rightarrow> decodeIntentOutputsForDataDir xs dataDir)"

section \<open>The recovery matrix\<close>

text \<open>Looking for a missing tmp file: the role of the first output that lacks one.\<close>

fun missing_tmp :: "CollectedOutput list \<Rightarrow> string option proc" where
  "missing_tmp [] = ret None"
| "missing_tmp (op # ops) =
     bindM (stat (co_TmpPath op)) (\<lambda>present. if present then missing_tmp ops else ret (Some (co_Role op)))"

text \<open>
  Catching up the renames of a committing intent: \<open>None\<close> when every output is in place, or
  the fail reason and message of the revert.
\<close>

fun catch_up :: "fin_env \<Rightarrow> CollectedOutput list \<Rightarrow> (string \<times> string) option proc" where
  "catch_up E [] = ret None"
| "catch_up E (op # ops) =
     bindM (stat (co_TmpPath op)) (\<lambda>tmpExists.
     bindM (stat (co_FinalPath op)) (\<lambda>finalExists.
       if finalExists then
         (if co_Sha256 op = [] then
            ret (Some (''output_commit_corrupt'', ''missing declared sha for '' @ co_Role op))
          else
            bindM (verifyFinalSha (co_FinalPath op) (co_Sha256 op)) (\<lambda>v.
              case v of
                Inl e \<Rightarrow> ret (Some (''output_commit_corrupt'',
                  ''sha verify error for '' @ co_Role op @ '': '' @ fe_errtext E e))
              | Inr mismatch \<Rightarrow>
                  if mismatch then ret (Some (''output_commit_corrupt'', ''sha mismatch for '' @ co_Role op))
                  else bindM (if tmpExists then remove (co_TmpPath op) else ret ()) (\<lambda>_. catch_up E ops)))
       else if tmpExists then
         bindM (attempt (rename (co_TmpPath op) (co_FinalPath op))) (\<lambda>r.
           case r of
             Inl e \<Rightarrow> ret (Some (''output_commit_failed'',
               ''rename failed for '' @ co_Role op @ '': '' @ fe_errtext E e))
           | Inr _ \<Rightarrow> catch_up E ops)
       else ret (Some (''output_commit_corrupt'', ''tmp+final missing for '' @ co_Role op))))"

definition open_or_recreate :: "fin_env \<Rightarrow> string \<Rightarrow> writer proc" where
  "open_or_recreate E mid =
     bindM (attempt (open_events mid)) (\<lambda>r.
       case r of
         Inr ew \<Rightarrow> ret ew
       | Inl e \<Rightarrow> if e = ErrNotFound then bindM (ensureEventsFile E mid) (\<lambda>_. open_events mid) else err e)"

definition repairOne :: "fin_env \<Rightarrow> repair_cfg \<Rightarrow> finalize_intent \<Rightarrow> unit proc" where
  "repairOne E cfg i =
     (case ShardPath (fi_MissionID i) of
        Inl e \<Rightarrow> err e
      | Inr _ \<Rightarrow>
          bindM (open_or_recreate E (fi_MissionID i)) (\<lambda>ew0.
            let ew = SetLimits (rc_limits cfg) ew0;
                fin = rc_fin cfg;
                outputs = decodeIntentOutputs (fi_Outputs i) (fc_DataDir fin)
            in case fi_Phase i of
                 PhasePrepared \<Rightarrow>
                   if outputs = [] then CommitFromIntent E ew i fin
                   else bindM (missing_tmp outputs) (\<lambda>r.
                     case r of
                       Some role \<Rightarrow> RevertIntentToFailed E ew i fin ''output_commit_failed'' (''tmp missing for '' @ role)
                     | None \<Rightarrow> ContinuePhaseB E ew i fin)
               | PhaseCommitting \<Rightarrow>
                   bindM (catch_up E outputs) (\<lambda>r.
                     case r of
                       Some (reason, msg) \<Rightarrow> RevertIntentToFailed E ew i fin reason msg
                     | None \<Rightarrow> CommitFromIntent E ew i fin)))"

definition RepairFinalizeIntents :: "fin_env \<Rightarrow> repair_cfg \<Rightarrow> unit proc" where
  "RepairFinalizeIntents E cfg =
     bindM (query (\<lambda>d. Inr (QueryAllFinalizeIntents d))) (\<lambda>intents.
       each (\<lambda>i. bindM (attempt (repairOne E cfg i)) (\<lambda>r.
         case r of
           Inl e \<Rightarrow> if e = ErrTerminalEventConflict then trip ''terminal_event_conflict'' else ret ()
         | Inr _ \<Rightarrow> ret ())) intents)"

section \<open>Terminal events\<close>

definition tailProbeSlack :: nat where
  "tailProbeSlack = 4096"

definition file_size :: "efile \<Rightarrow> nat" where
  "file_size f = sum_list (map el_size (ef_lines f)) + (case ef_tail f of None \<Rightarrow> 0 | Some t \<Rightarrow> el_size t)"

text \<open>The complete lines that begin after offset \<open>start\<close>, or all of them when it is 0.\<close>

fun lines_from :: "nat \<Rightarrow> nat \<Rightarrow> eline list \<Rightarrow> eline list" where
  "lines_from start off [] = []"
| "lines_from start off (l # ls) =
     (if start = 0 \<or> start < off then l # ls else lines_from start (off + el_size l) ls)"

definition line_says_done :: "eline \<Rightarrow> bool" where
  "line_says_done l =
     (case el_body l of Some (JObj m) \<Rightarrow> dec_str ''event'' m = Some ''done'' | _ \<Rightarrow> False)"

definition tailHasDoneEvent :: "efile \<Rightarrow> nat \<Rightarrow> bool" where
  "tailHasDoneEvent f window =
     (let start = file_size f - window
      in list_ex line_says_done (lines_from start 0 (ef_lines f)))"

definition outputRefsAsCollected :: "string \<Rightarrow> db \<Rightarrow> CollectedOutput list" where
  "outputRefsAsCollected mid d =
     [\<lparr>co_Role = ref_Role r, co_StagingID = ref_StagingID r, co_TmpPath = [], co_FinalPath = [],
       co_Sha256 = stg_Sha256 s, co_Size = stg_Size s\<rparr>.
      r \<leftarrow> staging_refs d, s \<leftarrow> staging_files d,
      stg_StagingID s = ref_StagingID r \<and> ref_MissionID r = mid \<and> ref_RefKind r = RefOutput]"

definition str_or_empty :: "string option \<Rightarrow> string" where
  "str_or_empty s = (case s of None \<Rightarrow> [] | Some x \<Rightarrow> x)"

definition int_or_0 :: "int option \<Rightarrow> int" where
  "int_or_0 n = (case n of None \<Rightarrow> 0 | Some x \<Rightarrow> x)"

definition reconstructed_fields :: "int \<Rightarrow> mission \<Rightarrow> CollectedOutput list \<Rightarrow> fields" where
  "reconstructed_fields now m outputs =
     (let fin = int_or_0 (msn_TimeFinishedMs m)
      in buildDoneFields
           (outcome_zero\<lparr>or_Outcome := str_or_empty (msn_Outcome m),
              or_FailReason := str_or_empty (msn_FailReason m),
              or_FailMessage := str_or_empty (msn_FailMessage m), or_FailDetails := msn_FailDetails m,
              or_ExitCode := int_or_0 (msn_ExitCode m), or_Signal := str_or_empty (msn_Signal m),
              or_Return := msn_ReturnValue m\<rparr>)
           outputs (if fin \<le> 0 then now else fin) (int_or_0 (msn_TimeStartedMs m)) 0)"

definition append_event :: "fin_env \<Rightarrow> string \<Rightarrow> writer \<Rightarrow> event_kind \<Rightarrow> fields \<Rightarrow> unit proc" where
  "append_event E mid ew kind fs = effect (\<lambda>f w.
     case Append (fe_msize E) (write_io f) kind fs True ew of
       (r, ew') \<Rightarrow>
         (case f of FCrash _ \<Rightarrow> Crash | _ \<Rightarrow> (case r of Inl e \<Rightarrow> Err e | Inr _ \<Rightarrow> Ret ()),
          w\<lparr>wd_events := (wd_events w)(mid := Some (wr_file ew'))\<rparr>))"

definition load_done_row :: "string \<Rightarrow> db \<Rightarrow> error + mission" where
  "load_done_row mid d =
     (case find_mission mid d of
        Some m \<Rightarrow> if msn_Status m = StatusDone then Inr m else Inl ErrNotFound
      | None \<Rightarrow> Inl ErrNotFound)"

definition appendReconstructedDone :: "fin_env \<Rightarrow> repair_cfg \<Rightarrow> string \<Rightarrow> unit proc" where
  "appendReconstructedDone E cfg mid =
     bindM (query (load_done_row mid)) (\<lambda>m.
     bindM (query (\<lambda>d. Inr (outputRefsAsCollected mid d))) (\<lambda>outputs.
     bindM (ensureEventsFile E mid) (\<lambda>_.
     bindM (open_events mid) (\<lambda>ew0.
       append_event E mid (SetLimits (rc_limits cfg) ew0) KindDone
         (reconstructed_fields (fe_now E) m outputs)))))"

text \<open>The context is checked between missions; a cancelled context ends the pass.\<close>

definition ctx_check :: "unit proc" where
  "ctx_check = effect (\<lambda>f w. case f of FCrash _ \<Rightarrow> (Crash, w) | FErr _ \<Rightarrow> (Err ErrCtx, w) | _ \<Rightarrow> (Ret (), w))"

text \<open>The probe: an unreadable file skips the mission, an absent one counts as no terminal event.\<close>

definition probe_tail :: "string \<Rightarrow> nat \<Rightarrow> bool option proc" where
  "probe_tail mid window = effect (\<lambda>f w. case f of
       FCrash _ \<Rightarrow> (Crash, w)
     | FErr _ \<Rightarrow> (Ret None, w)
     | _ \<Rightarrow> (Ret (Some (case wd_events w mid of None \<Rightarrow> False | Some ef \<Rightarrow> tailHasDoneEvent ef window)), w))"

definition probe_window :: "limits \<Rightarrow> nat" where
  "probe_window l = (if lim_MaxEventLineSize l = 0 then 2 ^ 20 else lim_MaxEventLineSize l) + tailProbeSlack"

definition ensure_terminal :: "fin_env \<Rightarrow> repair_cfg \<Rightarrow> string \<Rightarrow> unit proc" where
  "ensure_terminal E cfg mid =
     bindM ctx_check (\<lambda>_.
       case ShardPath mid of
         Inl _ \<Rightarrow> ret ()
       | Inr _ \<Rightarrow>
           bindM (probe_tail mid (probe_window (rc_limits cfg))) (\<lambda>found.
             case found of
               Some False \<Rightarrow> bindM (attempt (appendReconstructedDone E cfg mid)) (\<lambda>_. ret ())
             | _ \<Rightarrow> ret ()))"

definition EnsureTerminalEvents :: "fin_env \<Rightarrow> repair_cfg \<Rightarrow> unit proc" where
  "EnsureTerminalEvents E cfg =
     bindM (query (\<lambda>d. Inr (map msn_ID (filter (\<lambda>m. msn_Status m = StatusDone) (missions d))))) (\<lambda>pending.
       each (ensure_terminal E cfg) pending)"

section \<open>Running to lost\<close>

text \<open>\<open>starttime\<close> is what \<^verbatim>\<open>/proc/<pid>/stat\<close> says now, 0 when there is no such process.\<close>

definition BestEffortKillPgid :: "(int \<Rightarrow> int) \<Rightarrow> int \<Rightarrow> int \<Rightarrow> int \<Rightarrow> bool" where
  "BestEffortKillPgid starttime pid pgid expectedStarttime =
     (if pid \<le> 0 \<or> pgid \<le> 0 \<or> expectedStarttime = 0 then False
      else starttime pid \<noteq> 0 \<and> starttime pid = expectedStarttime)"

definition lost_message :: "(int \<Rightarrow> int) \<Rightarrow> mission \<Rightarrow> string" where
  "lost_message starttime m =
     ''dugdale restarted while the mission was running'' @
     (if 0 < int_or_0 (msn_PID m) then '' (pid '' @ itoa (int_or_0 (msn_PID m)) @ '')'' else []) @
     (case (msn_PID m, msn_PGID m, msn_ProcStarttime m) of
        (Some pid, Some pgid, Some st) \<Rightarrow>
          if BestEffortKillPgid starttime pid pgid st then ''; leftover process group was killed''
          else if 0 < pid \<and> 0 < pgid \<and> st \<noteq> 0 then ''; the process was already gone'' else []
      | _ \<Rightarrow> [])"

definition lost_inputs :: "(int \<Rightarrow> int) \<Rightarrow> mission \<Rightarrow> FinalizeInputs" where
  "lost_inputs starttime m =
     \<lparr>fin_MissionID = msn_ID m,
      fin_Outcome = outcome_zero\<lparr>or_Outcome := ''lost'', or_FailMessage := lost_message starttime m\<rparr>,
      fin_Outputs = [], fin_TimeStartedMs = int_or_0 (msn_TimeStartedMs m), fin_ProgressDropped = 0\<rparr>"

definition lost_rows :: "db \<Rightarrow> mission list" where
  "lost_rows d = filter (\<lambda>m. msn_Status m = StatusRunning \<and> \<not> has_intent (msn_ID m) d) (missions d)"

definition SweepRunningToLost :: "fin_env \<Rightarrow> repair_cfg \<Rightarrow> (int \<Rightarrow> int) \<Rightarrow> unit proc" where
  "SweepRunningToLost E cfg starttime =
     bindM (query (\<lambda>d. Inr (lost_rows d))) (\<lambda>pending.
       each (\<lambda>m.
         bindM (ensureEventsFile E (msn_ID m)) (\<lambda>_.
         bindM (attempt (Finalize E (lost_inputs starttime m) ((rc_fin cfg)\<lparr>fc_TTL := zero_policy\<rparr>)))
           (\<lambda>_. ret ()))) pending)"

section \<open>Orphans\<close>

text \<open>Which directory entries the sweeps remove: those whose row is gone.\<close>

definition orphanOutputSuffixes :: "string list" where
  "orphanOutputSuffixes = [''-stdout'', ''-stderr'', ''-combined'', ''-events'']"

definition output_owner :: "string \<Rightarrow> string" where
  "output_owner name =
     (case List.find (has_suffix name) orphanOutputSuffixes of
        Some sfx \<Rightarrow> trim_suffix (length sfx) name | None \<Rightarrow> [])"

definition sweepOrphanOutput :: "db \<Rightarrow> string list \<Rightarrow> string list" where
  "sweepOrphanOutput d names =
     filter (\<lambda>n. ValidateUUIDv7 (output_owner n) \<and> find_mission (output_owner n) d = None) names"

definition sweepOrphanWork :: "db \<Rightarrow> string list \<Rightarrow> string list" where
  "sweepOrphanWork d names = filter (\<lambda>n. ValidateUUIDv7 n \<and> find_mission n d = None) names"

definition staging_owner :: "string \<Rightarrow> string" where
  "staging_owner name = (if has_suffix name ''.tmp'' then trim_suffix 4 name else name)"

definition sweepOrphanStaging :: "db \<Rightarrow> string list \<Rightarrow> string list" where
  "sweepOrphanStaging d names =
     filter (\<lambda>n. ValidateUUIDv7 (staging_owner n) \<and> find_staging (staging_owner n) d = None) names"

definition recalcZeroedTTLs :: "ttl_policy \<Rightarrow> unit proc" where
  "recalcZeroedTTLs p =
     bindM (attempt (query (\<lambda>d. Inr (FindStagingNeedingRecalc 10000 d)))) (\<lambda>r.
       case r of
         Inl _ \<Rightarrow> ret ()
       | Inr sids \<Rightarrow> each (\<lambda>sid. bindM (attempt (tx_once (RecalcStagingTTL sid p))) (\<lambda>_. ret ())) sids)"

text \<open>
  The passes that startup runs before the listener opens, in the order of
  \<^verbatim>\<open>cmd/dugdale/main.go\<close>: an error of one is logged and the next one runs.
\<close>

definition startup_repair :: "fin_env \<Rightarrow> repair_cfg \<Rightarrow> (int \<Rightarrow> int) \<Rightarrow> unit proc" where
  "startup_repair E cfg starttime =
     bindM (attempt (RepairFinalizeIntents E cfg)) (\<lambda>_.
     bindM (attempt (EnsureTerminalEvents E cfg)) (\<lambda>_.
     bindM (attempt (SweepRunningToLost E cfg starttime)) (\<lambda>_. ret ())))"

end
