(* ===== verification/Safety.thy ===== *)
theory Safety
  imports Repair
begin

text \<open>
  Safety of the finalize protocol: whatever fails and wherever the daemon crashes, a mission
  row is only ever done when its events file holds a terminal event with the same outcome.
\<close>

section \<open>Rules for the effects\<close>

lemma WithWriterRetry_cases:
  assumes "WithWriterRetry env fn d = (r, d', ws)"
  shows "case r of Inl _ \<Rightarrow> d' = d | Inr x \<Rightarrow> fn d = Inr (x, d')"
  using retry_loop_spec [of 50 1 env fn d r d' ws] assms
  by (simp add: WithWriterRetry_def maxBackoff_def maxAttempts_def)

lemma triple_tx:
  assumes "F FOk" and "\<And>w x d'. P w \<Longrightarrow> fn (wd_db w) = Inr (x, d') \<Longrightarrow> Q x (w\<lparr>wd_db := d'\<rparr>)"
    and "\<And>w. P w \<Longrightarrow> E w"
  shows "triple P F (tx_retry fn) Q E"
  unfolding tx_retry_def
proof (rule triple_effect [where F = F, OF assms(1)])
  fix f w
  assume P: "P w"
  obtain r d ws where run: "WithWriterRetry (tx_env f) fn (wd_db w) = (r, d, ws)"
    by (cases "WithWriterRetry (tx_env f) fn (wd_db w)")
  have "case (sum_res r, w\<lparr>wd_db := d\<rparr>) of (Ret x, w') \<Rightarrow> Q x w' | (_, w') \<Rightarrow> E w'"
    using WithWriterRetry_cases [OF run] assms(2,3) P by (cases r) (auto simp: sum_res_def)
  with run assms(3) [OF P] show "case (case f of FCrash x \<Rightarrow> (Crash, w)
      | _ \<Rightarrow> (case WithWriterRetry (tx_env f) fn (wd_db w) of (r, d, _) \<Rightarrow> (sum_res r, w\<lparr>wd_db := d\<rparr>)))
    of (Ret x, w') \<Rightarrow> Q x w' | (_, w') \<Rightarrow> E w'"
    by (cases f) simp_all
qed

lemma triple_tx_once:
  assumes "F FOk" and "\<And>w x d'. P w \<Longrightarrow> fn (wd_db w) = Inr (x, d') \<Longrightarrow> Q x (w\<lparr>wd_db := d'\<rparr>)"
    and "\<And>w. P w \<Longrightarrow> E w"
  shows "triple P F (tx_once fn) Q E"
  unfolding tx_once_def
proof (rule triple_effect [where F = F, OF assms(1)])
  fix f w
  assume P: "P w"
  let ?t = "case tx_env f of [] \<Rightarrow> TxOk | (t, _) # _ \<Rightarrow> t"
  obtain r d where run: "WithWriter ?t fn (wd_db w) = (r, d)" by (cases "WithWriter ?t fn (wd_db w)")
  have "case (sum_res r, w\<lparr>wd_db := d\<rparr>) of (Ret x, w') \<Rightarrow> Q x w' | (_, w') \<Rightarrow> E w'"
    using WithWriter_error [of ?t fn "wd_db w" _ d] WithWriter_ok [of ?t fn "wd_db w" _ d] run assms(2,3) P
    by (cases r) (auto simp: sum_res_def)
  with run assms(3) [OF P] show "case (case f of FCrash x \<Rightarrow> (Crash, w)
      | _ \<Rightarrow> (case WithWriter ?t fn (wd_db w) of (r, d) \<Rightarrow> (sum_res r, w\<lparr>wd_db := d\<rparr>)))
    of (Ret x, w') \<Rightarrow> Q x w' | (_, w') \<Rightarrow> E w'"
    by (cases f) simp_all
qed

lemma triple_query:
  assumes "F FOk" and "\<And>w x. P w \<Longrightarrow> q (wd_db w) = Inr x \<Longrightarrow> Q x w" and "\<And>w. P w \<Longrightarrow> E w"
  shows "triple P F (query q) Q E"
  unfolding query_def
  by (rule triple_effect [where F = F, OF assms(1)])
    (auto simp: sum_res_def assms(2,3) split: fate.split sum.split)

text \<open>Assertions that do not look at the output files are kept by the file effects.\<close>

definition files_free :: "(world \<Rightarrow> bool) \<Rightarrow> bool" where
  "files_free P \<longleftrightarrow> (\<forall>w fl. P w \<longrightarrow> P (w\<lparr>wd_files := fl\<rparr>))"

lemma triple_remove: "F FOk \<Longrightarrow> files_free P \<Longrightarrow> triple P F (remove p) (\<lambda>_. P) P"
  unfolding remove_def by (rule triple_effect) (auto simp: files_free_def split: fate.split)

lemma triple_rename: "F FOk \<Longrightarrow> files_free P \<Longrightarrow> triple P F (rename a b) (\<lambda>_. P) P"
  unfolding rename_def by (rule triple_effect) (auto simp: files_free_def split: fate.split option.split)

lemma triple_stat: "F FOk \<Longrightarrow> triple P F (stat p) (\<lambda>_. P) P"
  unfolding stat_def by (rule triple_effect) (auto split: fate.split)

lemma triple_verify: "F FOk \<Longrightarrow> triple P F (verifyFinalSha p s) (\<lambda>_. P) P"
  unfolding verifyFinalSha_def
  by (simp add: triple_ret) (intro impI triple_effect; auto split: fate.split option.split)

lemma triple_trip: "(\<And>w k. P w \<Longrightarrow> P (w\<lparr>wd_critical := k\<rparr>)) \<Longrightarrow> triple P F (trip kind) (\<lambda>_. P) E"
  by (simp add: triple_def trip_def)

section \<open>Terminal events in a file\<close>

definition done_events :: "efile \<Rightarrow> fields set" where
  "done_events f = {m. \<exists>l \<in> set (scan_lines f). done_map l = Some m}"

lemma done_events_newline [simp]: "done_events (put_newline f) = done_events f"
  by (auto simp: done_events_def scan_lines_def put_newline_def split: option.splits)

lemma done_events_put_line: "ef_tail f = None \<Longrightarrow> done_events f \<subseteq> done_events (put_line ev n f)"
  by (auto simp: done_events_def scan_lines_def put_line_def)

lemma done_events_put_partial: "ef_tail f = None \<Longrightarrow> done_events f \<subseteq> done_events (put_partial ev m n f)"
  by (auto simp: done_events_def scan_lines_def put_partial_def put_line_def)

lemma done_events_healed [simp]: "done_events (wr_file (healed w)) = done_events (wr_file w)"
  by (simp add: healed_def)

text \<open>A writer holds the file, and any unterminated tail is known to it.\<close>

definition tail_known :: "writer \<Rightarrow> bool" where
  "tail_known w \<longleftrightarrow> (ef_tail (wr_file w) \<noteq> None \<longrightarrow> wr_pendingNewline w)"

lemma healed_tail: "tail_known w \<Longrightarrow> ef_tail (wr_file (healed w)) = None"
  by (auto simp: tail_known_def healed_def)

lemma Append_done_events:
  assumes "Append msize env kind fs sync w = (r, w')" and "tail_known w"
  shows "done_events (wr_file w) \<subseteq> done_events (wr_file w') \<and> tail_known w'"
  using assms(1)
proof (cases rule: Append_cases)
  case (torn n)
  with done_events_put_partial [OF healed_tail [OF assms(2)]] show ?thesis by (auto simp: tail_known_def)
next
  case written
  with done_events_put_line [OF healed_tail [OF assms(2)]] show ?thesis by (auto simp: tail_known_def)
qed (use assms(2) healed_tail [OF assms(2)] in \<open>simp_all add: tail_known_def\<close>)

lemma scan_done_in: "snd (scan_done (scan_lines f)) = Some m \<Longrightarrow> m \<in> done_events f"
  using scan_done_Some by (auto simp: done_events_def)

lemma AppendDoneIdempotent_keeps:
  assumes "AppendDoneIdempotent msize env fs sq w = (r, w')" and "tail_known w"
  shows "done_events (wr_file w) \<subseteq> done_events (wr_file w') \<and> tail_known w'"
  using assms(1)
proof (cases rule: AppendDoneIdempotent_cases)
  case (appended s q)
  from Append_done_events [OF appended(2)] assms(2) show ?thesis by (simp add: tail_known_def)
qed (use assms(2) in simp_all)

lemma AppendDoneIdempotent_matches:
  assumes "AppendDoneIdempotent msize env fs sq w = (Inr (), w')" and "json_wf (JObj fs)" and "tail_known w"
  obtains m where "m \<in> done_events (wr_file w')" and "doneEventsMatch m fs"
  using AppendDoneIdempotent_recorded [OF assms(1,2)] assms(3) scan_done_in
  by (metis tail_known_def)

text \<open>An event that matches has the same outcome.\<close>

lemma jsonValuesEqual_obj:
  "jsonValuesEqual (JObj m) (JObj n) \<Longrightarrow> mget m k = Some v \<Longrightarrow>
     jsonValuesEqual v (case mget n k of None \<Rightarrow> JNull | Some w \<Rightarrow> w)"
  by (subst (asm) jsonValuesEqual.simps) (auto simp: mget_def list_all_iff dest: map_of_SomeD)

lemma jsonValuesEqual_str: "jsonValuesEqual (JStr s) v \<longleftrightarrow> v = JStr s"
  by (subst jsonValuesEqual.simps) simp

lemma doneEventsMatch_outcome:
  assumes "doneEventsMatch m fs" and "mget fs ''outcome'' = Some (JStr out)"
  shows "mget m ''outcome'' = Some (JStr out)"
proof -
  have "mget (mput ''event'' (JStr ''done'') (mdel ''seq'' fs)) ''outcome'' = Some (JStr out)"
    using assms(2) by (simp add: mget_def)
  from jsonValuesEqual_obj [OF _ this] assms(1)
  have "(case mget (mdel ''seq'' m) ''outcome'' of None \<Rightarrow> JNull | Some w \<Rightarrow> w) = JStr out"
    unfolding doneEventsMatch_def jsonValuesEqual_str by blast
  then show ?thesis by (simp add: mget_def split: option.splits)
qed

section \<open>The invariant\<close>

definition published :: "world \<Rightarrow> bool" where
  "published w \<longleftrightarrow>
     (\<forall>m \<in> set (missions (wd_db w)). msn_Status m = StatusDone \<longrightarrow>
        (\<exists>f ev out. wd_events w (msn_ID m) = Some f \<and> ev \<in> done_events f \<and>
           msn_Outcome m = Some out \<and> mget ev ''outcome'' = Some (JStr out)))"

definition intent_ok :: "finalize_intent \<Rightarrow> bool" where
  "intent_ok i \<longleftrightarrow>
     (\<forall>ev. fi_DoneEvent i = Some ev \<longrightarrow> mget ev ''outcome'' = Some (JStr (fi_Outcome i)) \<and> json_wf (JObj ev))"

definition fin_inv :: "world \<Rightarrow> bool" where
  "fin_inv w \<longleftrightarrow> db_ok (wd_db w) \<and> published w \<and> (\<forall>i \<in> set (finalize_intents (wd_db w)). intent_ok i)"

definition holds_file :: "writer \<Rightarrow> string \<Rightarrow> world \<Rightarrow> bool" where
  "holds_file ew mid w \<longleftrightarrow> wd_events w mid = Some (wr_file ew) \<and> tail_known ew"

lemma files_free_inv [simp]: "files_free fin_inv" "files_free (\<lambda>w. fin_inv w \<and> holds_file ew mid w)"
  by (simp_all add: files_free_def fin_inv_def published_def holds_file_def)

lemma published_events:
  assumes "published w" and "\<And>g. wd_events w mid = Some g \<Longrightarrow> done_events g \<subseteq> done_events f"
  shows "published (w\<lparr>wd_events := (wd_events w)(mid := Some f)\<rparr>)"
  using assms unfolding published_def by fastforce

lemma fin_inv_events:
  assumes "fin_inv w" and "\<And>g. wd_events w mid = Some g \<Longrightarrow> done_events g \<subseteq> done_events f"
  shows "fin_inv (w\<lparr>wd_events := (wd_events w)(mid := Some f)\<rparr>)"
  using assms published_events by (simp add: fin_inv_def)

text \<open>A statement that neither finishes a mission nor writes an intent out of shape.\<close>

definition quiet :: "db \<Rightarrow> db \<Rightarrow> bool" where
  "quiet d d' \<longleftrightarrow> db_ok d' \<and> (\<forall>m \<in> set (missions d'). msn_Status m = StatusDone \<longrightarrow> m \<in> set (missions d)) \<and>
     ((\<forall>i \<in> set (finalize_intents d). intent_ok i) \<longrightarrow> (\<forall>i \<in> set (finalize_intents d'). intent_ok i))"

lemma quiet_inv: "fin_inv w \<Longrightarrow> quiet (wd_db w) d' \<Longrightarrow> fin_inv (w\<lparr>wd_db := d'\<rparr>)"
  by (auto simp: fin_inv_def published_def quiet_def)

section \<open>Statements\<close>

text \<open>What a statement on staging rows and refs leaves alone.\<close>

definition same_rows :: "db \<Rightarrow> db \<Rightarrow> bool" where
  "same_rows d d' \<longleftrightarrow> missions d' = missions d \<and> finalize_intents d' = finalize_intents d \<and> (db_ok d \<longrightarrow> db_ok d')"

lemma same_rows_refl [simp]: "same_rows d d"
  by (simp add: same_rows_def)

lemma same_rows_trans: "same_rows a b \<Longrightarrow> same_rows b c \<Longrightarrow> same_rows a c"
  by (simp add: same_rows_def)

lemma same_rows_fold: "(\<And>x d. same_rows d (g x d)) \<Longrightarrow> same_rows d (fold g xs d)"
  by (induction xs arbitrary: d) (auto intro: same_rows_trans)

lemma same_rows_each:
  assumes "\<And>x d d'. st x d = Inr ((), d') \<Longrightarrow> same_rows d d'" and "each_stmt st xs d = Inr ((), d')"
  shows "same_rows d d'"
  using assms(2)
proof (induction xs arbitrary: d)
  case (Cons x xs)
  then obtain d1 where "st x d = Inr ((), d1)" and "each_stmt st xs d1 = Inr ((), d')"
    by (auto split: sum.splits)
  with Cons.IH assms(1) same_rows_trans show ?case by blast
qed simp

lemma same_rows_staging:
  assumes "\<And>s. stg_StagingID (f s) = stg_StagingID s"
  shows "same_rows d (d\<lparr>staging_files := sql_update P f (staging_files d)\<rparr>)"
  using staging_update_db_ok [OF assms] by (simp add: same_rows_def)

lemma same_rows_mark:
  "same_rows d (mark_committing sid d)" "same_rows d (mark_deleting sid d)" "same_rows d (discard_output dd op d)"
  unfolding mark_committing_def mark_deleting_def discard_output_def by (rule same_rows_staging; simp)+

lemma same_rows_InsertStaging: "InsertStaging s d = Inr ((), d') \<Longrightarrow> same_rows d d'"
  using InsertStaging_db_ok [of s d "()" d']
  by (auto simp: same_rows_def InsertStaging_def split: option.splits)

lemma same_rows_InsertRef: "InsertRef r d = Inr ((), d') \<Longrightarrow> same_rows d d'"
  using InsertRef_db_ok [of r d "()" d']
  by (auto simp: same_rows_def InsertRef_def split: option.splits if_splits)

lemma same_rows_guarded:
  assumes "guarded_staging sid G f d = Inr ((), d')" and "\<And>s. stg_StagingID (f s) = stg_StagingID s"
  shows "same_rows d d'"
  using assms guarded_staging_db_ok [OF assms]
  by (auto simp: same_rows_def guarded_staging_def split: if_splits)

lemma same_rows_publish: "publish_output dd mid op d = Inr ((), d') \<Longrightarrow> same_rows d d'"
proof -
  assume "publish_output dd mid op d = Inr ((), d')"
  then obtain d1 where d1: "MarkStagingCompleteWithPath (co_StagingID op) (relPathFromDataDir dd (co_FinalPath op)) d = Inr ((), d1)"
    and d2: "InsertRef \<lparr>ref_MissionID = mid, ref_StagingID = co_StagingID op, ref_RefKind = RefOutput, ref_Role = co_Role op\<rparr> d1 = Inr ((), d')"
    by (auto simp: publish_output_def split: sum.splits)
  have "same_rows d d1" using d1 unfolding MarkStagingCompleteWithPath_def by (rule same_rows_guarded) simp
  with same_rows_InsertRef [OF d2] same_rows_trans show ?thesis by blast
qed

lemma same_rows_recalc: "RecalcStagingTTL sid p d = Inr (x, d') \<Longrightarrow> same_rows d d'"
  using set_expires_db_ok [of d sid]
  by (auto simp: RecalcStagingTTL_def set_expires_def same_rows_def Let_def split: sum.splits)

lemma same_rows_quiet: "same_rows d d' \<Longrightarrow> db_ok d \<Longrightarrow> quiet d d'"
  by (simp add: same_rows_def quiet_def)

lemma quiet_trans: "quiet a b \<Longrightarrow> quiet b c \<Longrightarrow> quiet a c"
  by (auto simp: quiet_def)

lemma InsertFinalizeIntent_rows:
  "InsertFinalizeIntent i d = Inr ((), d') \<Longrightarrow>
     missions d' = missions d \<and> set (finalize_intents d') = insert i (set (finalize_intents d))"
  by (auto simp: InsertFinalizeIntent_def sql_insert_def split: if_splits option.splits)

lemma quiet_InsertFinalizeIntent:
  "InsertFinalizeIntent i d = Inr ((), d') \<Longrightarrow> db_ok d \<Longrightarrow> intent_ok i \<Longrightarrow> quiet d d'"
  using InsertFinalizeIntent_rows [of i d d'] InsertFinalizeIntent_db_ok [of i d "()" d']
  by (simp add: quiet_def)

lemma phaseA2_split:
  assumes "phaseA2_stmt dd now outputs i d = Inr ((), d')"
  obtains d1 where "same_rows d d1" and "InsertFinalizeIntent i d1 = Inr ((), d')"
    and "each_stmt (\<lambda>op. InsertStaging (pending_row dd now op)) outputs d = Inr ((), d1)"
proof -
  from assms obtain d1 where e: "each_stmt (\<lambda>op. InsertStaging (pending_row dd now op)) outputs d = Inr ((), d1)"
    and "InsertFinalizeIntent i d1 = Inr ((), d')"
    by (auto simp: phaseA2_stmt_def split: sum.splits)
  moreover have "same_rows d d1" by (rule same_rows_each [OF _ e]) (rule same_rows_InsertStaging)
  ultimately show thesis using that by blast
qed

lemma quiet_phaseA2:
  assumes "phaseA2_stmt dd now outputs i d = Inr ((), d')" and "db_ok d" and "intent_ok i"
  shows "quiet d d'"
proof -
  obtain d1 where s: "same_rows d d1" and i: "InsertFinalizeIntent i d1 = Inr ((), d')"
    using phaseA2_split [OF assms(1)] by blast
  from s assms(2) have "db_ok d1" by (simp add: same_rows_def)
  with quiet_InsertFinalizeIntent [OF i] assms(3) same_rows_quiet [OF s assms(2)] quiet_trans show ?thesis by blast
qed

lemma intent_ok_phase [simp]: "intent_ok (i\<lparr>fi_Phase := p\<rparr>) = intent_ok i"
  by (simp add: intent_ok_def)

lemma quiet_UpdateFinalizePhase:
  assumes "UpdateFinalizePhase mid p d = Inr ((), d')" and "db_ok d"
  shows "quiet d d'"
  using assms UpdateFinalizePhase_db_ok [OF assms]
  by (auto simp: quiet_def UpdateFinalizePhase_def sql_update_def split: if_splits)

lemma quiet_phaseB1:
  assumes "phaseB1_stmt outputs mid d = Inr ((), d')" and "db_ok d"
  shows "quiet d d'"
proof -
  let ?d = "fold (\<lambda>op. mark_committing (co_StagingID op)) outputs d"
  have s: "same_rows d ?d" by (rule same_rows_fold) (rule same_rows_mark)
  with assms(2) have "db_ok ?d" by (simp add: same_rows_def)
  with quiet_UpdateFinalizePhase [of mid PhaseCommitting ?d d'] assms same_rows_quiet [OF s] quiet_trans
  show ?thesis unfolding phaseB1_stmt_def by blast
qed

lemma intents_update_db_ok:
  assumes "\<And>i. fi_MissionID (f i) = fi_MissionID i" and "db_ok d"
  shows "db_ok (d\<lparr>finalize_intents := sql_update P f (finalize_intents d)\<rparr>)"
proof -
  have ids: "map fi_MissionID (sql_update P f (finalize_intents d)) = map fi_MissionID (finalize_intents d)"
    by (simp add: sql_update_def assms(1))
  then have "fi_MissionID ` set (sql_update P f (finalize_intents d)) = fi_MissionID ` set (finalize_intents d)"
    by (metis set_map)
  with ids assms(2) show ?thesis by (simp add: db_ok_def)
qed

lemma quiet_revert:
  assumes "revert_stmt f mid outputs d = Inr ((), d')" and "db_ok d"
    and "\<And>i. fi_MissionID (f i) = fi_MissionID i" and "\<And>i. intent_ok (f i)"
  shows "quiet d d'"
proof -
  let ?d = "d\<lparr>finalize_intents := sql_update (\<lambda>i. fi_MissionID i = mid) f (finalize_intents d)\<rparr>"
  have q: "quiet d ?d"
    using intents_update_db_ok [OF assms(3,2)] assms(4) by (auto simp: quiet_def sql_update_def)
  have "same_rows ?d d'"
    using assms(1) same_rows_fold [of "\<lambda>op. mark_deleting (co_StagingID op)" ?d outputs] same_rows_mark(2)
    by (simp add: revert_stmt_def)
  then have "quiet ?d d'" using q by (intro same_rows_quiet) (simp_all add: quiet_def)
  with q quiet_trans show ?thesis by blast
qed

lemma DeleteFinalizeIntent_rows [simp]:
  "missions (DeleteFinalizeIntent mid d) = missions d"
  "set (finalize_intents (DeleteFinalizeIntent mid d)) = {i \<in> set (finalize_intents d). fi_MissionID i \<noteq> mid}"
  by (auto simp: DeleteFinalizeIntent_def sql_delete_def)

text \<open>The final transaction: the row of the intent's mission is finished, or it was not unfinished.\<close>

lemma commit_stmt_cases:
  assumes "commit_stmt dd i outputs fin d = Inr (gone, d')" and "db_ok d"
  shows "db_ok d' \<and>
    missions d' = (if gone then missions d
       else sql_update (\<lambda>m. msn_ID m = fi_MissionID i \<and> unfinished m) (finish_row i fin) (missions d)) \<and>
    set (finalize_intents d') = {j \<in> set (finalize_intents d). fi_MissionID j \<noteq> fi_MissionID i} \<and>
    (gone \<longleftrightarrow> \<not> (\<exists>m. find_mission (fi_MissionID i) d = Some m \<and> unfinished m))"
proof (cases "guarded_update (fi_MissionID i) unfinished (finish_row i fin) d")
  case (Inl e)
  have s: "same_rows d (fold (discard_output dd) outputs d)" by (rule same_rows_fold) (rule same_rows_mark)
  have "\<not> (\<exists>m. find_mission (fi_MissionID i) d = Some m \<and> unfinished m)"
    using Inl guarded_update_ok [OF db_ok_keyed(1) [OF assms(2)], of "fi_MissionID i" unfinished "finish_row i fin"]
    by auto
  with Inl assms s DeleteFinalizeIntent_db_ok [of "fold (discard_output dd) outputs d"] show ?thesis
    by (auto simp: commit_stmt_def same_rows_def)
next
  case (Inr p)
  then obtain d1 where g: "guarded_update (fi_MissionID i) unfinished (finish_row i fin) d = Inr ((), d1)"
    by (cases p) simp
  with assms(1) obtain d2 where e: "each_stmt (publish_output dd (fi_MissionID i)) outputs d1 = Inr ((), d2)"
    and d': "d' = DeleteFinalizeIntent (fi_MissionID i) d2" and gone: "\<not> gone"
    by (auto simp: commit_stmt_def split: sum.splits)
  have ok1: "db_ok d1"
    by (rule guarded_update_db_ok [OF g _ _ assms(2)]) (simp_all add: finish_row_def)
  have s: "same_rows d1 d2" using same_rows_each [OF same_rows_publish e] .
  note g' = iffD1 [OF guarded_update_ok [OF db_ok_keyed(1) [OF assms(2)]] g]
  with s ok1 d' gone DeleteFinalizeIntent_db_ok [of d2] show ?thesis
    by (auto simp: same_rows_def)
qed

section \<open>Procedures\<close>

text \<open>From here on any fate is allowed.\<close>

abbreviation any :: "fate \<Rightarrow> bool" where
  "any \<equiv> \<lambda>_. True"

abbreviation held :: "writer \<Rightarrow> string \<Rightarrow> world \<Rightarrow> bool" where
  "held ew mid \<equiv> \<lambda>w. fin_inv w \<and> holds_file ew mid w"

lemma inv_critical: "fin_inv w \<Longrightarrow> fin_inv (w\<lparr>wd_critical := k\<rparr>)"
  by (simp add: fin_inv_def published_def)

lemma held_critical: "held ew mid w \<Longrightarrow> held ew mid (w\<lparr>wd_critical := k\<rparr>)"
  by (simp add: inv_critical holds_file_def)

lemma open_inv: "triple fin_inv any (open_events mid) (\<lambda>ew. held ew mid) fin_inv"
  unfolding open_events_def
proof (rule triple_effect)
  fix f w
  assume inv: "fin_inv w"
  obtain r f' where o: "Open IoOk (wd_events w mid) = (r, f')" by (cases "Open IoOk (wd_events w mid)")
  have "case (sum_res r, w\<lparr>wd_events := (wd_events w)(mid := f')\<rparr>) of
      (Ret ew, w') \<Rightarrow> held ew mid w' | (_, w') \<Rightarrow> fin_inv w'"
  proof (cases "wd_events w mid")
    case None
    with o have "r = Inl ErrNotFound" "f' = None" by (simp_all add: Open_def)
    moreover have "(wd_events w)(mid := None) = wd_events w" using None by auto
    ultimately show ?thesis using inv by (simp add: sum_res_def)
  next
    case (Some g)
    have "f' = Some g \<or> f' = Some (put_newline g)"
      using o [unfolded Some] by (auto simp: Open_def terminateTornTail_def split: option.splits if_splits)
    then obtain h where h: "f' = Some h" "h = g \<or> h = put_newline g" by blast
    then have "fin_inv (w\<lparr>wd_events := (wd_events w)(mid := f')\<rparr>)"
      using fin_inv_events [OF inv, of mid h] Some by auto
    then show ?thesis
      using Open_cases [of IoOk g _ f'] o Some
      by (cases r) (auto simp: sum_res_def holds_file_def tail_known_def)
  qed
  with o inv show "case (case f of FCrash x \<Rightarrow> (Crash, w) | FErr x \<Rightarrow> (Err ErrIO, w)
      | _ \<Rightarrow> (case Open IoOk (wd_events w mid) of
           (r, f') \<Rightarrow> (sum_res r, w\<lparr>wd_events := (wd_events w)(mid := f')\<rparr>)))
    of (Ret ew, w') \<Rightarrow> held ew mid w' | (_, w') \<Rightarrow> fin_inv w'"
    by (cases f) simp_all
qed simp

definition recorded :: "fields \<Rightarrow> string \<Rightarrow> world \<Rightarrow> bool" where
  "recorded fs mid w \<longleftrightarrow> (\<exists>f m. wd_events w mid = Some f \<and> m \<in> done_events f \<and> doneEventsMatch m fs)"

lemma append_done_inv:
  assumes "json_wf (JObj fs)"
  shows "triple (held ew mid) any (append_done msize mid ew fs sq)
    (\<lambda>_ w. fin_inv w \<and> recorded fs mid w) fin_inv"
  unfolding append_done_def
proof (rule triple_effect)
  fix f w
  assume h: "held ew mid w"
  obtain r ew' where a: "AppendDoneIdempotent msize (write_io f) fs sq ew = (r, ew')"
    by (cases "AppendDoneIdempotent msize (write_io f) fs sq ew")
  from h have tk: "tail_known ew" and at: "wd_events w mid = Some (wr_file ew)" by (simp_all add: holds_file_def)
  let ?w = "w\<lparr>wd_events := (wd_events w)(mid := Some (wr_file ew'))\<rparr>"
  have inv: "fin_inv ?w"
    using h AppendDoneIdempotent_keeps [OF a tk] at by (intro fin_inv_events) auto
  have "recorded fs mid ?w" if "r = Inr ()"
    using AppendDoneIdempotent_matches [OF a [unfolded that] assms tk] by (auto simp: recorded_def)
  with inv a show "case (case AppendDoneIdempotent msize (write_io f) fs sq ew of
      (r, ew') \<Rightarrow> (case f of FCrash x \<Rightarrow> Crash | _ \<Rightarrow> (case r of Inl e \<Rightarrow> Err e | Inr _ \<Rightarrow> Ret ew'),
        w\<lparr>wd_events := (wd_events w)(mid := Some (wr_file ew'))\<rparr>))
    of (Ret x, w') \<Rightarrow> fin_inv w' \<and> recorded fs mid w' | (_, w') \<Rightarrow> fin_inv w'"
    by (cases f; cases r) simp_all
qed simp

lemma append_or_conflict_inv:
  assumes "json_wf (JObj fs)"
  shows "triple (held ew (fi_MissionID i)) any (append_or_conflict E ew i fs)
    (\<lambda>_ w. fin_inv w \<and> recorded fs (fi_MissionID i) w) fin_inv"
  unfolding append_or_conflict_def
proof (rule triple_bind)
  show "triple (held ew (fi_MissionID i)) any
      (attempt (append_done (fe_msize E) (fi_MissionID i) ew fs (fi_DoneSeq i)))
      (\<lambda>r w. fin_inv w \<and> (\<forall>x. r = Inr x \<longrightarrow> recorded fs (fi_MissionID i) w)) fin_inv"
    by (rule triple_attempt [where E' = fin_inv])
      (rule triple_conseq [OF append_done_inv [OF assms]], simp_all)
qed (auto split: sum.split intro!: triple_ret triple_err triple_bind [OF triple_trip] inv_critical)

lemma commit_inv:
  assumes "recorded fs (fi_MissionID i) w" and "mget fs ''outcome'' = Some (JStr (fi_Outcome i))"
    and "fin_inv w" and "commit_stmt dd i outputs fin (wd_db w) = Inr (gone, d')"
  shows "fin_inv (w\<lparr>wd_db := d'\<rparr>)"
proof -
  have ok: "db_ok (wd_db w)" using assms(3) by (simp add: fin_inv_def)
  note c = commit_stmt_cases [OF assms(4) ok]
  have "published (w\<lparr>wd_db := d'\<rparr>)"
    unfolding published_def
  proof (intro ballI impI)
    fix m
    assume m: "m \<in> set (missions (wd_db (w\<lparr>wd_db := d'\<rparr>)))" and st: "msn_Status m = StatusDone"
    show "\<exists>f ev out. wd_events (w\<lparr>wd_db := d'\<rparr>) (msn_ID m) = Some f \<and> ev \<in> done_events f \<and>
        msn_Outcome m = Some out \<and> mget ev ''outcome'' = Some (JStr out)"
    proof (cases "m \<in> set (missions (wd_db w))")
      case True
      with st assms(3) show ?thesis by (simp add: fin_inv_def published_def)
    next
      case False
      with m c obtain m0 where "m = finish_row i fin m0" "msn_ID m0 = fi_MissionID i"
        by (auto simp: sql_update_def split: if_splits)
      then have "msn_ID m = fi_MissionID i" "msn_Outcome m = Some (fi_Outcome i)"
        by (simp_all add: finish_row_def)
      with assms(1) doneEventsMatch_outcome [OF _ assms(2)] show ?thesis
        by (auto simp: recorded_def)
    qed
  qed
  with c assms(3) show ?thesis by (auto simp: fin_inv_def)
qed

lemma recalc_outputs_inv: "triple fin_inv any (recalc_outputs p outputs) (\<lambda>_. fin_inv) fin_inv"
  unfolding recalc_outputs_def
  by (rule triple_each)
    (auto intro!: triple_bind [where Q = "\<lambda>_. fin_inv"] triple_ret triple_tx_once quiet_inv
      triple_attempt [where E' = fin_inv] same_rows_quiet same_rows_recalc simp: fin_inv_def)

lemma extract_ok:
  assumes "extractDoneFields (fi_DoneEvent i) = Some fs" and "intent_ok i"
  shows "mget fs ''outcome'' = Some (JStr (fi_Outcome i))" and "json_wf (JObj fs)"
proof -
  from assms(1) obtain ev where ev: "fi_DoneEvent i = Some ev" and fs: "fs = mdel ''event'' (mdel ''seq'' ev)"
    by (auto simp: extractDoneFields_def)
  with assms(2) have o: "mget ev ''outcome'' = Some (JStr (fi_Outcome i))" and wf: "json_wf (JObj ev)"
    by (simp_all add: intent_ok_def)
  show "mget fs ''outcome'' = Some (JStr (fi_Outcome i))" using o by (simp add: fs mget_def)
  show "json_wf (JObj fs)" unfolding fs by (intro json_wf_mdel wf)
qed

lemma commitFinalize_inv:
  assumes "intent_ok i"
  shows "triple (held ew (fi_MissionID i)) any (commitFinalize E ew i outputs cfg) (\<lambda>_. fin_inv) fin_inv"
proof (cases "extractDoneFields (fi_DoneEvent i)")
  case None
  then show ?thesis by (auto simp: commitFinalize_def intro: triple_err)
next
  case (Some fs)
  note fs = extract_ok [OF Some assms]
  let ?fin = "if doneEventTimeFinished fs \<le> 0 then fe_now E else doneEventTimeFinished fs"
  have tx: "triple (\<lambda>w. fin_inv w \<and> recorded fs (fi_MissionID i) w) any
      (tx_retry (commit_stmt (fc_DataDir cfg) i outputs ?fin)) (\<lambda>_. fin_inv) fin_inv"
    by (rule triple_tx) (auto intro: commit_inv fs(1))
  show ?thesis
    unfolding commitFinalize_def Some option.case Let_def
    by (rule triple_bind [OF append_or_conflict_inv [OF fs(2)]], rule triple_bind [OF tx])
      (auto intro: triple_ret recalc_outputs_inv)
qed

lemma held_quiet: "held ew mid w \<Longrightarrow> quiet (wd_db w) d' \<Longrightarrow> held ew mid (w\<lparr>wd_db := d'\<rparr>)"
  by (simp add: quiet_inv holds_file_def)

lemma held_ok: "held ew mid w \<Longrightarrow> db_ok (wd_db w)"
  by (simp add: fin_inv_def)

lemma held_inv: "triple P F m Q (held ew mid) \<Longrightarrow> triple P F m Q fin_inv"
  by (erule triple_conseq) simp_all

lemma held_tx:
  assumes "\<And>d d'. db_ok d \<Longrightarrow> fn d = Inr ((), d') \<Longrightarrow> quiet d d'"
  shows "triple (held ew mid) any (tx_retry fn) (\<lambda>_. held ew mid) (held ew mid)"
proof (rule triple_tx)
  fix w and x :: unit and d'
  assume h: "held ew mid w" and run: "fn (wd_db w) = Inr (x, d')"
  from assms [OF held_ok [OF h]] run have "quiet (wd_db w) d'" by simp
  with h show "held ew mid (w\<lparr>wd_db := d'\<rparr>)" by (rule held_quiet)
qed simp_all

lemma remove_outputs_held: "triple (held ew mid) any (remove_outputs outputs) (\<lambda>_. held ew mid) fin_inv"
  unfolding remove_outputs_def
proof (rule triple_each)
  fix op
  have r: "triple (held ew mid) any (remove p) (\<lambda>_. held ew mid) fin_inv" for p
    by (rule held_inv, rule triple_remove) simp_all
  show "triple (held ew mid) any (bindM (remove (co_TmpPath op)) (\<lambda>_. remove (co_FinalPath op)))
      (\<lambda>_. held ew mid) fin_inv"
    by (rule triple_bind [OF r r])
qed

lemma event_outcome: "mget (withSeqAndEvent fs sq) ''outcome'' = mget fs ''outcome''"
  by (simp add: withSeqAndEvent_def event_of_def mget_def)

lemma event_wf: "json_wf (JObj fs) \<Longrightarrow> json_wf (JObj (withSeqAndEvent fs sq))"
  unfolding withSeqAndEvent_def event_of_def by (intro json_wf_mput) simp_all

definition raw_wf :: "raw_message option \<Rightarrow> bool" where
  "raw_wf r \<longleftrightarrow> json_wf (raw_or_null r)"

lemma raw_wf_simps [simp]: "raw_wf None" "raw_wf (Some m) = json_wf (raw_value m)"
  by (simp_all add: raw_wf_def raw_or_null_def)

lemma summarizeOutputs_wf: "json_wf (JObj (summarizeOutputs outs))"
proof -
  let ?f = "\<lambda>m op. mput (co_Role op) (JObj [(''staging_id'', JStr (co_StagingID op)),
    (''sha256'', JStr (co_Sha256 op)), (''size'', JInt (co_Size op))]) m"
  have "json_wf (JObj m) \<Longrightarrow> json_wf (JObj (foldl ?f m outs))" for m
  proof (induction outs arbitrary: m)
    case (Cons op outs)
    have "json_wf (JObj (?f m op))" by (intro json_wf_mput Cons.prems) simp
    with Cons.IH show ?case by simp
  qed simp
  then show ?thesis by (simp add: summarizeOutputs_def)
qed

lemma buildDoneFields_wf:
  assumes "raw_wf (or_Return out)" and "raw_wf (or_FailDetails out)"
  shows "json_wf (JObj (buildDoneFields out outputs nowMs ts pd))"
  unfolding buildDoneFields_def
  by (intro put_if_wf) (use assms summarizeOutputs_wf in \<open>simp_all add: raw_wf_def\<close>)

lemma failed_intent_ok: "intent_ok (failed_intent reason msg sq (revert_fields now j reason msg) i)"
  by (simp add: intent_ok_def failed_intent_def event_outcome event_wf revert_fields_def
      buildDoneFields_get buildDoneFields_wf outcome_zero_def del: json_wf_simps)

lemma revertFailedCommit_inv:
  "triple (held ew (fi_MissionID i)) any (revertFailedCommit E ew i outputs cfg reason cause) (\<lambda>_. fin_inv) fin_inv"
proof -
  define fr where "fr = (if reason = [] then ''output_commit_failed'' else reason)"
  define upd where "upd = failed_intent fr cause (wrap64 (wr_seq ew + 1)) (revert_fields (fe_now E) i fr cause)"
  have ok: "intent_ok (upd j)" for j unfolding upd_def by (rule failed_intent_ok)
  have id: "fi_MissionID (upd j) = fi_MissionID j" for j by (simp add: upd_def failed_intent_def)
  have tx: "triple (held ew (fi_MissionID i)) any (tx_retry (revert_stmt upd (fi_MissionID i) outputs))
      (\<lambda>_. held ew (fi_MissionID i)) fin_inv"
    by (rule held_inv, rule held_tx, erule quiet_revert) (simp_all add: id ok)
  have "intent_ok ((upd i)\<lparr>fi_FailMessage := nullStr cause\<rparr>)" using ok [of i] by (simp add: intent_ok_def)
  from commitFinalize_inv [OF this, of ew E "[]" cfg]
  have c: "triple (held ew (fi_MissionID i)) any
      (commitFinalize E ew ((upd i)\<lparr>fi_FailMessage := nullStr cause\<rparr>) [] cfg) (\<lambda>_. fin_inv) fin_inv"
    by (simp add: id)
  show ?thesis
    unfolding revertFailedCommit_def Let_def fr_def [symmetric] upd_def [symmetric]
    by (rule triple_bind [OF remove_outputs_held triple_bind [OF tx c]])
qed

lemma rename_outputs_held: "triple (held ew mid) any (rename_outputs outputs) (\<lambda>_. held ew mid) fin_inv"
proof (induction outputs)
  case (Cons op ops)
  have "triple (held ew mid) any (attempt (rename (co_TmpPath op) (co_FinalPath op))) (\<lambda>_. held ew mid) fin_inv"
    by (rule triple_attempt [where E' = "held ew mid"], rule triple_rename) simp_all
  then show ?case
    unfolding rename_outputs.simps
    by (rule triple_bind) (auto split: sum.split intro: triple_ret Cons.IH)
qed (auto intro: triple_ret)

lemma phase_B_inv:
  assumes "intent_ok i"
  shows "triple (held ew (fi_MissionID i)) any (phase_B E ew i outputs cfg) (\<lambda>_. fin_inv) fin_inv"
proof -
  have tx: "triple (held ew (fi_MissionID i)) any (tx_retry (phaseB1_stmt outputs (fi_MissionID i)))
      (\<lambda>_. held ew (fi_MissionID i)) fin_inv"
    by (rule held_inv, rule held_tx, rule quiet_phaseB1) simp_all
  show ?thesis
    unfolding phase_B_def
    by (rule triple_bind [OF tx triple_bind [OF rename_outputs_held]])
      (auto split: option.split prod.split intro: revertFailedCommit_inv commitFinalize_inv [OF assms])
qed

lemma remove_tmp_inv: "triple fin_inv any (remove_tmp outputs) (\<lambda>_. fin_inv) fin_inv"
  unfolding remove_tmp_def by (rule triple_each) (rule triple_remove; simp)

lemma raw_wf_cap:
  assumes "raw_wf (or_Return out)" and "raw_wf (or_FailDetails out)"
  shows "raw_wf (or_Return (capOutcome out cfg))" and "raw_wf (or_FailDetails (capOutcome out cfg))"
proof -
  have a: "raw_wf (or_Return (cap_return cfg out)) \<and> raw_wf (or_FailDetails (cap_return cfg out))"
    using assms by (simp add: cap_return_def Let_def)
  have b: "raw_wf (or_Return (drop_return x))" "or_FailDetails (drop_return x) = or_FailDetails x"
    if "raw_wf (or_Return x)" for x using that by (simp_all add: drop_return_def)
  have c: "or_Return (cap_message cfg x) = or_Return x" "or_FailDetails (cap_message cfg x) = or_FailDetails x" for x
    by (simp_all add: cap_message_def)
  have d: "or_Return (cap_details cfg x) = or_Return x"
    "raw_wf (or_FailDetails x) \<Longrightarrow> raw_wf (or_FailDetails (cap_details cfg x))" for x
    by (simp_all add: cap_details_def details_marker_def)
  show "raw_wf (or_Return (capOutcome out cfg))" "raw_wf (or_FailDetails (capOutcome out cfg))"
    using a b c d by (simp_all add: capOutcome_def)
qed

lemma intent_of_ok:
  assumes "raw_wf (or_Return r)" and "raw_wf (or_FailDetails r)"
  shows "intent_ok (intent_of inp r outputs cfg now sq)"
  using buildDoneFields_wf [OF assms]
  by (simp add: intent_ok_def intent_of_def event_outcome event_wf buildDoneFields_get del: json_wf_simps)

lemma triple_weaken_pre: "triple P F m Q E \<Longrightarrow> (\<And>w. P' w \<Longrightarrow> P w) \<Longrightarrow> triple P' F m Q E"
  by (rule triple_conseq [where P' = P and Q' = Q and E' = E]) simp_all

lemma Finalize_inv:
  assumes "raw_wf (or_Return (fin_Outcome inp))" and "raw_wf (or_FailDetails (fin_Outcome inp))"
  shows "triple fin_inv any (Finalize E inp cfg) (\<lambda>_. fin_inv) fin_inv"
proof (cases "ShardPath (fin_MissionID inp)")
  case (Inl e)
  then show ?thesis by (auto simp: Finalize_def intro: triple_err)
next
  case (Inr sh)
  define r where "r = capOutcome (fin_Outcome inp) cfg"
  define outs where "outs = (if or_Outcome r \<noteq> ''success'' \<and> fin_Outputs inp \<noteq> [] then [] else fin_Outputs inp)"
  let ?i = "\<lambda>ew. intent_of inp r outs cfg (fe_now E) (wrap64 (wr_seq ew + 1))"
  have ok: "intent_ok (?i ew)" for ew unfolding r_def by (intro intent_of_ok raw_wf_cap assms)
  have mid: "fi_MissionID (?i ew) = fin_MissionID inp" for ew by (simp add: intent_of_def)
  have tx: "triple (held ew (fin_MissionID inp)) any (attempt (tx_retry (phaseA2_stmt (fc_DataDir cfg) (fe_now E) outs (?i ew))))
      (\<lambda>_. held ew (fin_MissionID inp)) fin_inv" for ew
    by (rule triple_attempt [where E' = "held ew (fin_MissionID inp)"], rule held_tx, erule quiet_phaseA2)
      (simp, rule ok, simp_all)
  have go: "triple (held ew (fin_MissionID inp)) any
      (case a2 of Inl e \<Rightarrow> bindM (remove_tmp outs) (\<lambda>_. err e)
        | Inr x \<Rightarrow> if outs = [] then commitFinalize E ew (?i ew) [] cfg else phase_B E ew (?i ew) outs cfg)
      (\<lambda>_. fin_inv) fin_inv" for a2 ew
    using commitFinalize_inv [OF ok [of ew], of ew E "[]" cfg] phase_B_inv [OF ok [of ew], of ew E outs cfg]
    by (auto simp: mid split: sum.split
        intro!: triple_bind [OF triple_weaken_pre [OF remove_tmp_inv]] triple_err)
  have rest: "triple fin_inv any (bindM (open_events (fin_MissionID inp)) (\<lambda>ew.
      bindM (attempt (tx_retry (phaseA2_stmt (fc_DataDir cfg) (fe_now E) outs (?i ew)))) (\<lambda>a2.
        case a2 of Inl e \<Rightarrow> bindM (remove_tmp outs) (\<lambda>_. err e)
        | Inr x \<Rightarrow> if outs = [] then commitFinalize E ew (?i ew) [] cfg else phase_B E ew (?i ew) outs cfg)))
      (\<lambda>_. fin_inv) fin_inv"
    by (rule triple_bind [OF open_inv triple_bind [OF tx go]])
  have first: "triple fin_inv any (if or_Outcome r \<noteq> ''success'' \<and> fin_Outputs inp \<noteq> []
      then remove_tmp (fin_Outputs inp) else ret ()) (\<lambda>_. fin_inv) fin_inv"
    by (auto intro: remove_tmp_inv triple_ret)
  show ?thesis
    unfolding Finalize_def Inr sum.case Let_def r_def [symmetric] outs_def [symmetric]
    by (rule triple_bind [OF first rest])
qed

subsection \<open>Killing a queued mission\<close>

lemma kill_intent_ok: "intent_ok (kill_intent mid lane reason now sq)"
proof -
  have "json_wf (JObj (kill_fields now reason msg)) \<and> mget (kill_fields now reason msg) ''outcome'' = Some (JStr ''killed'')" for msg
    unfolding kill_fields_def by (intro conjI put_if_wf) (simp_all add: put_if_get, simp add: mget_def)
  then show ?thesis
    by (simp add: intent_ok_def kill_intent_def event_outcome event_wf del: json_wf_simps)
qed

lemma kill_stmt_insert: "kill_stmt i d = Inr ((), d') \<Longrightarrow> InsertFinalizeIntent i d = Inr ((), d')"
  by (auto simp: kill_stmt_def split: option.splits sum.splits if_splits)

lemma KillQueued_inv: "triple fin_inv any (KillQueued E dataDir mid lane reason) (\<lambda>_. fin_inv) fin_inv"
proof (cases "reason = [] \<or> (\<exists>e. ShardPath mid = Inl e)")
  case True
  then show ?thesis by (auto simp: KillQueued_def intro: triple_err)
next
  case False
  then obtain sh where sh: "ShardPath mid = Inr sh" and ne: "reason \<noteq> []" by (cases "ShardPath mid") auto
  let ?i = "\<lambda>ew. kill_intent mid lane reason (fe_now E) (wrap64 (wr_seq ew + 1))"
  have tx: "triple (held ew mid) any (tx_once (kill_stmt (?i ew))) (\<lambda>_. held ew mid) fin_inv" for ew
  proof (rule triple_tx_once)
    fix w and x :: unit and d'
    assume h: "held ew mid w" and run: "kill_stmt (?i ew) (wd_db w) = Inr (x, d')"
    then have "InsertFinalizeIntent (?i ew) (wd_db w) = Inr ((), d')" using kill_stmt_insert by simp
    from quiet_InsertFinalizeIntent [OF this held_ok [OF h] kill_intent_ok] h
    show "held ew mid (w\<lparr>wd_db := d'\<rparr>)" by (intro held_quiet)
  qed simp_all
  have c: "triple (held ew mid) any (commitFinalize E ew (?i ew) [] (kill_config dataDir)) (\<lambda>_. fin_inv) fin_inv" for ew
    using commitFinalize_inv [OF kill_intent_ok [of mid lane reason "fe_now E" "wrap64 (wr_seq ew + 1)"], of ew E "[]" "kill_config dataDir"]
    by (simp add: kill_intent_def)
  show ?thesis
    unfolding KillQueued_def sh sum.case if_not_P [OF ne] Let_def
    by (rule triple_bind [OF open_inv triple_bind [OF tx c]])
qed

subsection \<open>Startup repair\<close>

lemma create_running_inv: "triple fin_inv any (create_running E mid) (\<lambda>_. fin_inv) fin_inv"
  unfolding create_running_def
proof (rule triple_effect)
  fix f w
  assume inv: "fin_inv w"
  let ?app = "\<lambda>lw. Append (fe_msize E) (IoOk, lw, True) KindRunning [(''time'', JInt (fe_now E))] False"
  have keep: "fin_inv (case Create (wd_events w mid) of Inl _ \<Rightarrow> w
      | Inr wr \<Rightarrow> if b then w else case ?app lw wr of (_, wr') \<Rightarrow> w\<lparr>wd_events := (wd_events w)(mid := Some (wr_file wr'))\<rparr>)" for b lw
    using inv by (auto simp: Create_def split: option.split prod.split intro!: fin_inv_events)
  then show "case (let crash = (case f of FCrash _ \<Rightarrow> True | _ \<Rightarrow> False);
         io = (case f of FErr n \<Rightarrow> Some n | FCrash n \<Rightarrow> Some n | _ \<Rightarrow> None);
         lw = (case io of Some (Suc n) \<Rightarrow> IoErr n | _ \<Rightarrow> IoOk)
     in (if crash then Crash else Ret (),
         case Create (wd_events w mid) of Inl _ \<Rightarrow> w
         | Inr wr \<Rightarrow> if io = Some 0 then w
             else case ?app lw wr of (_, wr') \<Rightarrow> w\<lparr>wd_events := (wd_events w)(mid := Some (wr_file wr'))\<rparr>))
    of (Ret x, w') \<Rightarrow> fin_inv w' | (_, w') \<Rightarrow> fin_inv w'"
    unfolding Let_def by (simp only: prod.case res.case split: if_split) simp
qed simp

lemma ensureEventsFile_inv: "triple fin_inv any (ensureEventsFile E mid) (\<lambda>_. fin_inv) fin_inv"
  unfolding ensureEventsFile_def
  by (rule triple_bind [where Q = "\<lambda>_. fin_inv"], rule triple_attempt [where E' = fin_inv],
      rule triple_conseq [OF open_inv])
    (auto split: sum.split intro: triple_ret create_running_inv)

lemma open_or_recreate_inv: "triple fin_inv any (open_or_recreate E mid) (\<lambda>ew. held ew mid) fin_inv"
  unfolding open_or_recreate_def
proof (rule triple_bind [where Q = "\<lambda>r w. fin_inv w \<and> (\<forall>ew. r = Inr ew \<longrightarrow> held ew mid w)"])
  show "triple fin_inv any (attempt (open_events mid)) (\<lambda>r w. fin_inv w \<and> (\<forall>ew. r = Inr ew \<longrightarrow> held ew mid w)) fin_inv"
    by (rule triple_attempt [where E' = fin_inv], rule triple_conseq [OF open_inv]) simp_all
next
  fix r
  have again: "triple fin_inv any (bindM (ensureEventsFile E mid) (\<lambda>_. open_events mid)) (\<lambda>ew. held ew mid) fin_inv"
    by (rule triple_bind [OF ensureEventsFile_inv open_inv])
  show "triple (\<lambda>w. fin_inv w \<and> (\<forall>ew. r = Inr ew \<longrightarrow> held ew mid w)) any
      (case r of Inl e \<Rightarrow> if e = ErrNotFound then bindM (ensureEventsFile E mid) (\<lambda>_. open_events mid) else err e
        | Inr ew \<Rightarrow> ret ew) (\<lambda>ew. held ew mid) fin_inv"
    by (cases r) (auto intro: triple_err triple_ret triple_weaken_pre [OF again])
qed

lemma unmarshal_held: "triple (held ew mid) any (unmarshalIntentOutputs raw dd) (\<lambda>_. held ew mid) fin_inv"
proof (cases raw)
  case None
  have "triple (held ew mid) any (trip k) (\<lambda>_. held ew mid) fin_inv" for k
    by (rule triple_trip) (rule held_critical)
  with None show ?thesis
    unfolding unmarshalIntentOutputs_def by (auto intro: triple_bind triple_ret)
qed (auto simp: unmarshalIntentOutputs_def intro: triple_ret)

lemma query_held: "triple (held ew mid) any (query q) (\<lambda>_. held ew mid) fin_inv"
  by (rule triple_query) simp_all

lemma reentry_inv:
  assumes "intent_ok i"
  shows "triple (held ew (fi_MissionID i)) any (CommitFromIntent E ew i cfg) (\<lambda>_. fin_inv) fin_inv"
    and "triple (held ew (fi_MissionID i)) any (ContinuePhaseB E ew i cfg) (\<lambda>_. fin_inv) fin_inv"
    and "triple (held ew (fi_MissionID i)) any (RevertIntentToFailed E ew i cfg reason msg) (\<lambda>_. fin_inv) fin_inv"
  unfolding CommitFromIntent_def ContinuePhaseB_def RevertIntentToFailed_def
  by (rule triple_bind [OF query_held triple_bind [OF unmarshal_held]];
      auto intro: commitFinalize_inv [OF assms] phase_B_inv [OF assms] revertFailedCommit_inv)+

lemma missing_tmp_held: "triple (held ew mid) any (missing_tmp ops) (\<lambda>_. held ew mid) fin_inv"
proof (induction ops)
  case (Cons op ops)
  have s: "triple (held ew mid) any (stat p) (\<lambda>_. held ew mid) fin_inv" for p
    by (rule held_inv, rule triple_stat) simp
  show ?case
    unfolding missing_tmp.simps by (rule triple_bind [OF s]) (auto intro: triple_ret Cons.IH)
qed (auto intro: triple_ret)

lemma catch_up_held: "triple (held ew mid) any (catch_up E ops) (\<lambda>_. held ew mid) fin_inv"
proof (induction ops)
  case (Cons op ops)
  have s: "triple (held ew mid) any (stat p) (\<lambda>_. held ew mid) fin_inv"
    and v: "triple (held ew mid) any (verifyFinalSha p h) (\<lambda>_. held ew mid) fin_inv"
    and rm: "triple (held ew mid) any (remove p) (\<lambda>_. held ew mid) fin_inv"
    and rt: "triple (held ew mid) any (ret ()) (\<lambda>_. held ew mid) fin_inv" for p h
    by (rule held_inv, rule triple_stat, simp, rule held_inv, rule triple_verify, simp)
      (auto intro: held_inv [OF triple_remove [where P = "held ew mid"]] triple_ret)
  have rn: "triple (held ew mid) any (attempt (rename a b)) (\<lambda>_. held ew mid) fin_inv" for a b
    by (rule triple_attempt [where E' = "held ew mid"], rule triple_rename) simp_all
  note go = triple_bind [OF rm Cons.IH] triple_bind [OF rt Cons.IH]
  show ?case
    unfolding catch_up.simps
    by (rule triple_bind [OF s triple_bind [OF s]])
      (auto intro!: triple_ret triple_bind [OF v] triple_bind [OF rn] Cons.IH go split: sum.split)
qed (auto intro: triple_ret)

lemma held_limits: "held (SetLimits l ew) mid w = held ew mid w"
  by (simp add: holds_file_def SetLimits_def tail_known_def)

lemma repairOne_inv:
  assumes "intent_ok i"
  shows "triple fin_inv any (repairOne E cfg i) (\<lambda>_. fin_inv) fin_inv"
proof (cases "ShardPath (fi_MissionID i)")
  case (Inl e)
  then show ?thesis by (auto simp: repairOne_def intro: triple_err)
next
  case (Inr sh)
  have pre: "triple (held ew (fi_MissionID i)) any m (\<lambda>_. fin_inv) fin_inv"
    if "triple (held (SetLimits (rc_limits cfg) ew) (fi_MissionID i)) any m (\<lambda>_. fin_inv) fin_inv" for ew m
    using that by (simp add: held_limits)
  show ?thesis
    unfolding repairOne_def Inr sum.case Let_def
    by (rule triple_bind [OF open_or_recreate_inv], rule pre)
      (auto split: finalize_phase.split option.split prod.split
        intro!: reentry_inv [OF assms] triple_bind [OF missing_tmp_held] triple_bind [OF catch_up_held]
        simp del: catch_up.simps missing_tmp.simps)
qed

lemma RepairFinalizeIntents_inv: "triple fin_inv any (RepairFinalizeIntents E cfg) (\<lambda>_. fin_inv) fin_inv"
  unfolding RepairFinalizeIntents_def
proof (rule triple_bind [where Q = "\<lambda>is w. fin_inv w \<and> (\<forall>i \<in> set is. intent_ok i)"])
  show "triple fin_inv any (query (\<lambda>d. Inr (QueryAllFinalizeIntents d)))
      (\<lambda>is w. fin_inv w \<and> (\<forall>i \<in> set is. intent_ok i)) fin_inv"
    by (rule triple_query) (auto simp: QueryAllFinalizeIntents_def fin_inv_def)
next
  fix intents
  let ?one = "\<lambda>i. bindM (attempt (repairOne E cfg i)) (\<lambda>r. case r of
      Inl e \<Rightarrow> if e = ErrTerminalEventConflict then trip ''terminal_event_conflict'' else ret ()
    | Inr _ \<Rightarrow> ret ())"
  have one: "triple fin_inv any (?one i) (\<lambda>_. fin_inv) fin_inv" if "intent_ok i" for i
    by (rule triple_bind [where Q = "\<lambda>_. fin_inv"], rule triple_attempt [where E' = fin_inv],
        rule repairOne_inv [OF that])
      (auto split: sum.split intro: triple_ret triple_trip inv_critical)
  show "triple (\<lambda>w. fin_inv w \<and> (\<forall>i \<in> set intents. intent_ok i)) any (each ?one intents) (\<lambda>_. fin_inv) fin_inv"
  proof (rule triple_pure [where b = "\<forall>i \<in> set intents. intent_ok i"])
    assume "\<forall>i \<in> set intents. intent_ok i"
    then have "triple fin_inv any (each ?one intents) (\<lambda>_. fin_inv) fin_inv"
      using one by (intro triple_each) blast
    then show "triple (\<lambda>w. fin_inv w \<and> (\<forall>i \<in> set intents. intent_ok i)) any (each ?one intents) (\<lambda>_. fin_inv) fin_inv"
      by (rule triple_weaken_pre) simp
  qed simp
qed

lemma SweepRunningToLost_inv: "triple fin_inv any (SweepRunningToLost E cfg st) (\<lambda>_. fin_inv) fin_inv"
  unfolding SweepRunningToLost_def
proof (rule triple_bind [where Q = "\<lambda>_. fin_inv"])
  show "triple fin_inv any (query (\<lambda>d. Inr (lost_rows d))) (\<lambda>_. fin_inv) fin_inv"
    by (rule triple_query) simp_all
next
  fix pending
  have fin: "triple fin_inv any (Finalize E (lost_inputs st m) c) (\<lambda>_. fin_inv) fin_inv" for m c
    by (rule Finalize_inv) (simp_all add: lost_inputs_def outcome_zero_def)
  have att: "triple fin_inv any (attempt (Finalize E (lost_inputs st m) c)) (\<lambda>_. fin_inv) fin_inv" for m c
    by (rule triple_attempt [where E' = fin_inv], rule fin) simp_all
  show "triple fin_inv any (each (\<lambda>m. bindM (ensureEventsFile E (msn_ID m)) (\<lambda>_.
      bindM (attempt (Finalize E (lost_inputs st m) (rc_fin cfg\<lparr>fc_TTL := zero_policy\<rparr>))) (\<lambda>_. ret ()))) pending)
      (\<lambda>_. fin_inv) fin_inv"
    by (rule triple_each, rule triple_bind [OF ensureEventsFile_inv triple_bind [OF att]]) (rule triple_ret)
qed

lemma append_event_inv: "triple (held ew mid) any (append_event E mid ew kind fs) (\<lambda>_. fin_inv) fin_inv"
  unfolding append_event_def
proof (rule triple_effect)
  fix f w
  assume h: "held ew mid w"
  obtain r ew' where a: "Append (fe_msize E) (write_io f) kind fs True ew = (r, ew')"
    by (cases "Append (fe_msize E) (write_io f) kind fs True ew")
  from h Append_done_events [OF a] have "fin_inv (w\<lparr>wd_events := (wd_events w)(mid := Some (wr_file ew'))\<rparr>)"
    by (intro fin_inv_events) (auto simp: holds_file_def)
  with a show "case (case Append (fe_msize E) (write_io f) kind fs True ew of
      (r, ew') \<Rightarrow> (case f of FCrash x \<Rightarrow> Crash | _ \<Rightarrow> (case r of Inl e \<Rightarrow> Err e | Inr _ \<Rightarrow> Ret ()),
        w\<lparr>wd_events := (wd_events w)(mid := Some (wr_file ew'))\<rparr>))
    of (Ret x, w') \<Rightarrow> fin_inv w' | (_, w') \<Rightarrow> fin_inv w'"
    by (cases f; cases r) simp_all
qed simp

lemma EnsureTerminalEvents_inv: "triple fin_inv any (EnsureTerminalEvents E cfg) (\<lambda>_. fin_inv) fin_inv"
proof -
  have q: "triple fin_inv any (query r) (\<lambda>_. fin_inv) fin_inv" for r :: "db \<Rightarrow> error + 'a"
    by (rule triple_query) simp_all
  have app: "triple fin_inv any (appendReconstructedDone E cfg mid) (\<lambda>_. fin_inv) fin_inv" for mid
    unfolding appendReconstructedDone_def
    by (rule triple_bind [OF q triple_bind [OF q triple_bind [OF ensureEventsFile_inv triple_bind [OF open_inv]]]])
      (rule triple_weaken_pre [OF append_event_inv], simp add: holds_file_def SetLimits_def tail_known_def)
  have ctx: "triple fin_inv any ctx_check (\<lambda>_. fin_inv) fin_inv"
    unfolding ctx_check_def by (rule triple_effect) (auto split: fate.split)
  have probe: "triple fin_inv any (probe_tail mid n) (\<lambda>_. fin_inv) fin_inv" for mid n
    unfolding probe_tail_def by (rule triple_effect) (auto split: fate.split)
  have att: "triple fin_inv any (bindM (attempt (appendReconstructedDone E cfg mid)) (\<lambda>_. ret ())) (\<lambda>_. fin_inv) fin_inv" for mid
    by (rule triple_bind [where Q = "\<lambda>_. fin_inv"], rule triple_attempt [where E' = fin_inv], rule app)
      (auto intro: triple_ret)
  have one: "triple fin_inv any (ensure_terminal E cfg mid) (\<lambda>_. fin_inv) fin_inv" for mid
    unfolding ensure_terminal_def
    by (rule triple_bind [OF ctx])
      (auto split: sum.split option.split bool.split intro!: triple_ret triple_bind [OF probe] att)
  show ?thesis
    unfolding EnsureTerminalEvents_def by (rule triple_bind [OF q triple_each]) (rule one)
qed

lemma startup_repair_inv: "triple fin_inv any (startup_repair E cfg st) (\<lambda>_. fin_inv) fin_inv"
proof -
  have att: "triple fin_inv any m (\<lambda>_. fin_inv) fin_inv \<Longrightarrow> triple fin_inv any (attempt m) (\<lambda>_. fin_inv) fin_inv"
    for m :: "unit proc"
    by (rule triple_attempt [where E' = fin_inv]) simp_all
  show ?thesis
    unfolding startup_repair_def
    by (rule triple_bind [OF att [OF RepairFinalizeIntents_inv]
          triple_bind [OF att [OF EnsureTerminalEvents_inv]
            triple_bind [OF att [OF SweepRunningToLost_inv] triple_ret]]]) simp
qed

end
