(* ===== verification/Apply.thy ===== *)
theory Apply
  imports Lane Safety
begin

text \<open>
  Declarative configuration (\<^verbatim>\<open>internal/apply\<close> and the lane handlers of
  \<^verbatim>\<open>internal/server/handlers/admin.go\<close>): the applied state and its stored form, the diff, apply
  with its merge, pause provenance, conflict checks and forced pruning, the replay at startup,
  and the pause and continue endpoints.  Apply acts on the world of the finalize protocol and on
  the lane manager, which lives in memory: its outcome carries the manager, on errors too.
\<close>

section \<open>The applied state\<close>

record LaneCfg =
  lc_Concurrency :: int
  lc_Paused :: bool
  lc_PausedBy :: string

definition PausedByYAML :: string where
  "PausedByYAML = ''yaml''"

definition PausedByCtl :: string where
  "PausedByCtl = ''ctl''"

text \<open>A nil slice is \<open>None\<close>: \<^verbatim>\<open>reflect.DeepEqual\<close> tells it from an empty one.\<close>

record RuntimeCfg =
  ru_MissionPathTemplate :: string
  ru_CommandTemplate :: "string list option"
  ru_ValidateMissionFile :: bool

record AppliedState =
  as_MissionDir :: string
  as_Labels :: "string list option"
  as_Lanes :: "(string \<times> LaneCfg) list"
  as_Runtime :: RuntimeCfg

definition zero_lane :: LaneCfg where
  "zero_lane = \<lparr>lc_Concurrency = 0, lc_Paused = False, lc_PausedBy = []\<rparr>"

definition zero_runtime :: RuntimeCfg where
  "zero_runtime = \<lparr>ru_MissionPathTemplate = [], ru_CommandTemplate = None, ru_ValidateMissionFile = False\<rparr>"

definition zero_state :: AppliedState where
  "zero_state = \<lparr>as_MissionDir = [], as_Labels = None, as_Lanes = [], as_Runtime = zero_runtime\<rparr>"

section \<open>Its stored form\<close>

text \<open>\<^verbatim>\<open>json.Marshal\<close> of the structs, with their \<^verbatim>\<open>omitempty\<close> fields.\<close>

definition strs_json :: "string list option \<Rightarrow> json" where
  "strs_json xs = (case xs of None \<Rightarrow> JNull | Some ss \<Rightarrow> JArr (map JStr ss))"

definition lane_json :: "LaneCfg \<Rightarrow> json" where
  "lane_json c = JObj
     ([(''concurrency'', JInt (lc_Concurrency c))] @
      (if lc_Paused c then [(''paused'', JBool True)] else []) @
      (if lc_PausedBy c \<noteq> [] then [(''paused_by'', JStr (lc_PausedBy c))] else []))"

definition runtime_json :: "RuntimeCfg \<Rightarrow> json" where
  "runtime_json r = JObj
     ((if ru_MissionPathTemplate r \<noteq> [] then [(''mission_path_template'', JStr (ru_MissionPathTemplate r))] else []) @
      (case ru_CommandTemplate r of
         Some (c # cs) \<Rightarrow> [(''command_template'', strs_json (Some (c # cs)))] | _ \<Rightarrow> []) @
      [(''validate_mission_file'', JBool (ru_ValidateMissionFile r))])"

definition state_json :: "AppliedState \<Rightarrow> json" where
  "state_json s = JObj
     [(''mission_dir'', JStr (as_MissionDir s)), (''labels'', strs_json (as_Labels s)),
      (''lanes'', JObj (map (\<lambda>(n, c). (n, lane_json c)) (as_Lanes s))),
      (''runtime'', runtime_json (as_Runtime s))]"

text \<open>
  \<^verbatim>\<open>json.Unmarshal\<close> into the structs.  An element or a map value that is null decodes to the
  zero value.  The daemon only decodes what it stored, where no member occurs twice.
\<close>

definition conv_bool :: "json \<Rightarrow> bool option" where
  "conv_bool v = (case v of JBool b \<Rightarrow> Some b | _ \<Rightarrow> None)"

definition conv_strs :: "json \<Rightarrow> string list option option" where
  "conv_strs v =
     (case v of
        JArr xs \<Rightarrow> map_option Some (all_some (\<lambda>x. if x = JNull then Some [] else conv_str x) xs)
      | _ \<Rightarrow> None)"

definition conv_lane :: "json \<Rightarrow> LaneCfg option" where
  "conv_lane v =
     (case v of
        JNull \<Rightarrow> Some zero_lane
      | JObj m \<Rightarrow>
          (case (dec_with conv_i64 0 ''concurrency'' m, dec_with conv_bool False ''paused'' m,
                 dec_with conv_str [] ''paused_by'' m) of
             (Some n, Some p, Some b) \<Rightarrow> Some \<lparr>lc_Concurrency = n, lc_Paused = p, lc_PausedBy = b\<rparr>
           | _ \<Rightarrow> None)
      | _ \<Rightarrow> None)"

definition conv_lanes :: "json \<Rightarrow> (string \<times> LaneCfg) list option" where
  "conv_lanes v =
     (case v of
        JObj m \<Rightarrow>
          map_option (\<lambda>cs. fold (\<lambda>(n, c) acc. mput n c acc) cs [])
            (all_some (\<lambda>(n, x). map_option (\<lambda>c. (n, c)) (conv_lane x)) m)
      | _ \<Rightarrow> None)"

definition conv_runtime :: "json \<Rightarrow> RuntimeCfg option" where
  "conv_runtime v =
     (case v of
        JObj m \<Rightarrow>
          (case (dec_with conv_str [] ''mission_path_template'' m, dec_with conv_strs None ''command_template'' m,
                 dec_with conv_bool False ''validate_mission_file'' m) of
             (Some p, Some c, Some b) \<Rightarrow>
               Some \<lparr>ru_MissionPathTemplate = p, ru_CommandTemplate = c, ru_ValidateMissionFile = b\<rparr>
           | _ \<Rightarrow> None)
      | _ \<Rightarrow> None)"

definition state_of_json :: "json \<Rightarrow> AppliedState option" where
  "state_of_json v =
     (case v of
        JNull \<Rightarrow> Some zero_state
      | JObj m \<Rightarrow>
          (case (dec_with conv_str [] ''mission_dir'' m, dec_with conv_strs None ''labels'' m,
                 dec_with conv_lanes [] ''lanes'' m, dec_with conv_runtime zero_runtime ''runtime'' m) of
             (Some d, Some l, Some ls, Some r) \<Rightarrow>
               Some \<lparr>as_MissionDir = d, as_Labels = l, as_Lanes = ls, as_Runtime = r\<rparr>
           | _ \<Rightarrow> None)
      | _ \<Rightarrow> None)"

definition unmarshal_state :: "applied_config \<Rightarrow> error + AppliedState" where
  "unmarshal_state c =
     (case Option.bind (ac_Data c) state_of_json of None \<Rightarrow> Inl ErrJSON | Some s \<Rightarrow> Inr s)"

section \<open>The diff\<close>

record Diff =
  df_MissionDirChanged :: bool
  df_LabelsChanged :: bool
  df_RuntimeChanged :: bool
  df_LanesAdded :: "string list"
  df_LanesRemoved :: "string list"
  df_LanesResized :: "string list"

definition ComputeDiff :: "AppliedState \<Rightarrow> AppliedState \<Rightarrow> Diff" where
  "ComputeDiff current desired =
     \<lparr>df_MissionDirChanged = (as_MissionDir current \<noteq> as_MissionDir desired),
      df_LabelsChanged = (as_Labels current \<noteq> as_Labels desired),
      df_RuntimeChanged = (as_Runtime current \<noteq> as_Runtime desired),
      df_LanesAdded =
        map fst (filter (\<lambda>(n, _). map_of (as_Lanes current) n = None) (as_Lanes desired)),
      df_LanesRemoved =
        map fst (filter (\<lambda>(n, _). map_of (as_Lanes desired) n = None) (as_Lanes current)),
      df_LanesResized =
        map fst (filter (\<lambda>(n, dc). case map_of (as_Lanes current) n of
              None \<Rightarrow> False
            | Some cc \<Rightarrow> lc_Concurrency cc \<noteq> lc_Concurrency dc \<or> lc_Paused cc \<noteq> lc_Paused dc)
          (as_Lanes desired))\<rparr>"

section \<open>Apply\<close>

record Options =
  op_Force :: bool
  op_Prune :: bool
  op_ForcePrune :: bool
  op_Source :: string
  op_DataDir :: string
  op_Killer :: bool

record Result =
  rs_Diff :: Diff
  rs_Started :: "string list"
  rs_Stopped :: "string list"
  rs_Resized :: "string list"

datatype apply_error = Conflict string "string list" | Failed error

definition merge_lanes :: "bool \<Rightarrow> AppliedState \<Rightarrow> AppliedState \<Rightarrow> AppliedState" where
  "merge_lanes prune current desired =
     (if prune then desired
      else desired\<lparr>as_Lanes := as_Lanes desired @
             filter (\<lambda>(n, _). map_of (as_Lanes desired) n = None) (as_Lanes current)\<rparr>)"

definition pause_state :: "LaneCfg option \<Rightarrow> LaneCfg \<Rightarrow> LaneCfg" where
  "pause_state cur want =
     (let held = (case cur of None \<Rightarrow> False | Some c \<Rightarrow> lc_Paused c);
          by' = (case cur of None \<Rightarrow> [] | Some c \<Rightarrow> lc_PausedBy c)
      in if \<not> lc_Paused want
         then (if held \<and> by' \<noteq> PausedByYAML then want\<lparr>lc_Paused := True, lc_PausedBy := PausedByCtl\<rparr>
               else want\<lparr>lc_PausedBy := []\<rparr>)
         else (if held \<and> by' = PausedByCtl then want\<lparr>lc_PausedBy := PausedByCtl\<rparr>
               else want\<lparr>lc_PausedBy := PausedByYAML\<rparr>))"

definition reconcile_pauses :: "AppliedState \<Rightarrow> AppliedState \<Rightarrow> AppliedState" where
  "reconcile_pauses current desired =
     desired\<lparr>as_Lanes := map (\<lambda>(n, c). (n, pause_state (map_of (as_Lanes current) n) c)) (as_Lanes desired)\<rparr>"

text \<open>The counts ignore a query error: it reads as zero.\<close>

definition count_query :: "(mission \<Rightarrow> bool) \<Rightarrow> bool proc" where
  "count_query P =
     bindM (attempt (query (\<lambda>d. Inr (filter P (missions d))))) (\<lambda>r.
       ret (case r of Inl _ \<Rightarrow> False | Inr ms \<Rightarrow> ms \<noteq> []))"

definition hasQueuedOrRunning :: "bool proc" where
  "hasQueuedOrRunning = count_query (\<lambda>m. msn_Status m \<in> {StatusQueued, StatusRunning})"

definition hasActiveInLane :: "string \<Rightarrow> bool proc" where
  "hasActiveInLane lane =
     count_query (\<lambda>m. msn_Lane m = lane \<and> msn_Status m \<in> {StatusQueued, StatusRunning})"

fun blocked_lanes :: "string list \<Rightarrow> string list proc" where
  "blocked_lanes [] = ret []"
| "blocked_lanes (n # ns) =
     bindM (hasActiveInLane n) (\<lambda>a. bindM (blocked_lanes ns) (\<lambda>bs. ret (if a then n # bs else bs)))"

definition lane_rows :: "string \<Rightarrow> status \<Rightarrow> string list proc" where
  "lane_rows lane st =
     query (\<lambda>d. Inr (map msn_ID (filter (\<lambda>m. msn_Lane m = lane \<and> msn_Status m = st) (missions d))))"

definition kill_queued_row :: "fin_env \<Rightarrow> string \<Rightarrow> string \<Rightarrow> unit proc" where
  "kill_queued_row E dataDir mid =
     bindM (attempt (query (GetMission mid))) (\<lambda>r.
       case r of
         Inl e \<Rightarrow> if e = ErrNotFound then ret () else err e
       | Inr m \<Rightarrow>
           bindM (attempt (KillQueued E dataDir (msn_ID m) (msn_Lane m) ''lane_removed'')) (\<lambda>k.
             case k of
               Inl e \<Rightarrow> if e = ErrMissionNotQueued then ret () else err e
             | Inr _ \<Rightarrow> ret ()))"

text \<open>The error that ended it, if any, and the running missions it signalled, in order.\<close>

fun terminateLaneMissions ::
  "fin_env \<Rightarrow> string \<Rightarrow> bool \<Rightarrow> string list \<Rightarrow> (error option \<times> string list) proc" where
  "terminateLaneMissions E dataDir killer [] = ret (None, [])"
| "terminateLaneMissions E dataDir killer (name # lanes) =
     bindM (attempt (bindM (lane_rows name StatusQueued) (each (kill_queued_row E dataDir)))) (\<lambda>r.
       case r of
         Inl e \<Rightarrow> ret (Some e, [])
       | Inr _ \<Rightarrow>
           bindM (if killer then attempt (lane_rows name StatusRunning) else ret (Inr [])) (\<lambda>q.
             case q of
               Inl e \<Rightarrow> ret (Some e, [])
             | Inr ids \<Rightarrow>
                 bindM (terminateLaneMissions E dataDir killer lanes) (\<lambda>(e, sent).
                   ret (e, ids @ sent))))"

definition specs_of :: "AppliedState \<Rightarrow> LaneSpec list" where
  "specs_of s =
     map (\<lambda>(n, c). \<lparr>sp_Name = n, sp_Concurrency = lc_Concurrency c, sp_Paused = lc_Paused c\<rparr>) (as_Lanes s)"

definition mark_removing :: "string list \<Rightarrow> manager \<Rightarrow> manager" where
  "mark_removing names mg = fold (\<lambda>n mg. snd (MarkLaneRemoving n mg)) names mg"

type_synonym apply_outcome = "(apply_error + Result) \<times> manager \<times> string list"

definition applied_row :: "fin_env \<Rightarrow> Options \<Rightarrow> AppliedState \<Rightarrow> applied_config" where
  "applied_row E opts s = \<lparr>ac_Data = Some (state_json s), ac_AppliedAt = fe_now E,
     ac_Source = (if op_Source opts = [] then None else Some (op_Source opts))\<rparr>"

text \<open>Steps 5 and 6: persist, then reconcile the manager; a failed write stops the removed lanes.\<close>

definition apply_persist ::
  "fin_env \<Rightarrow> Options \<Rightarrow> Diff \<Rightarrow> bool \<Rightarrow> AppliedState \<Rightarrow> manager \<Rightarrow> string list \<Rightarrow> apply_outcome proc" where
  "apply_persist E opts diff pruning desired mg sent =
     bindM (attempt (tx_once (\<lambda>d. Inr ((), SetAppliedConfig (applied_row E opts desired) d)))) (\<lambda>r.
       ret (case r of
              Inl e \<Rightarrow> (Inl (Failed e), if pruning then StopLanes (df_LanesRemoved diff) mg else mg, sent)
            | Inr _ \<Rightarrow>
                (case manager_Apply (specs_of desired) mg of
                   ((started, stopped, resized), mg') \<Rightarrow>
                     (Inr \<lparr>rs_Diff = diff, rs_Started = started, rs_Stopped = stopped, rs_Resized = resized\<rparr>,
                      mg', sent))))"

text \<open>Step 4a and what follows.\<close>

definition apply_prune ::
  "fin_env \<Rightarrow> Options \<Rightarrow> Diff \<Rightarrow> AppliedState \<Rightarrow> manager \<Rightarrow> apply_outcome proc" where
  "apply_prune E opts diff desired mg =
     (if op_ForcePrune opts \<and> df_LanesRemoved diff \<noteq> [] then
        (if op_DataDir opts = [] then ret (Inl (Failed ErrDataDirRequired), mg, [])
         else
           let mg' = mark_removing (df_LanesRemoved diff) mg
           in bindM (terminateLaneMissions E (op_DataDir opts) (op_Killer opts) (df_LanesRemoved diff)) (\<lambda>(e, sent).
                case e of
                  Some x \<Rightarrow> ret (Inl (Failed x), StopLanes (df_LanesRemoved diff) mg', sent)
                | None \<Rightarrow> apply_persist E opts diff True desired mg' sent))
      else apply_persist E opts diff False desired mg [])"

definition apply_from ::
  "fin_env \<Rightarrow> Options \<Rightarrow> AppliedState \<Rightarrow> AppliedState \<Rightarrow> manager \<Rightarrow> apply_outcome proc" where
  "apply_from E opts current wanted mg =
     (let desired = reconcile_pauses current (merge_lanes (op_Prune opts) current wanted);
          diff = ComputeDiff current desired
      in bindM (if (df_RuntimeChanged diff \<or> df_MissionDirChanged diff) \<and> \<not> op_Force opts
                then hasQueuedOrRunning else ret False) (\<lambda>active.
           if active then
             ret (Inl (Conflict ''runtime_or_mission_dir_changed_with_active_missions'' []), mg, [])
           else
             bindM (if \<not> op_ForcePrune opts \<and> df_LanesRemoved diff \<noteq> []
                    then blocked_lanes (df_LanesRemoved diff) else ret []) (\<lambda>blocked.
               if blocked \<noteq> [] then ret (Inl (Conflict ''lanes_with_active_missions'' blocked), mg, [])
               else apply_prune E opts diff desired mg)))"

definition Apply :: "fin_env \<Rightarrow> Options \<Rightarrow> AppliedState \<Rightarrow> manager \<Rightarrow> apply_outcome proc" where
  "Apply E opts wanted mg =
     bindM (attempt (query GetAppliedConfig)) (\<lambda>r.
       case r of
         Inl e \<Rightarrow> if e = ErrNotFound then apply_from E opts zero_state wanted mg
                   else ret (Inl (Failed e), mg, [])
       | Inr c \<Rightarrow>
           (case unmarshal_state c of
              Inl e \<Rightarrow> ret (Inl (Failed e), mg, [])
            | Inr current \<Rightarrow> apply_from E opts current wanted mg))"

section \<open>Replay, pause and continue\<close>

definition ReplayFromDB :: "manager \<Rightarrow> (error option \<times> manager) proc" where
  "ReplayFromDB mg =
     bindM (attempt (query GetAppliedConfig)) (\<lambda>r.
       case r of
         Inl e \<Rightarrow> ret (if e = ErrNotFound then None else Some e, mg)
       | Inr c \<Rightarrow>
           (case unmarshal_state c of
              Inl e \<Rightarrow> ret (Some e, mg)
            | Inr s \<Rightarrow> ret (None, snd (manager_Apply (specs_of s) mg))))"

definition setLanePausedInConfig :: "string \<Rightarrow> bool \<Rightarrow> unit stmt" where
  "setLanePausedInConfig name paused d =
     (case GetAppliedConfig d of
        Inl e \<Rightarrow> if e = ErrNotFound then Inr ((), d) else Inl e
      | Inr c \<Rightarrow>
          (case unmarshal_state c of
             Inl e \<Rightarrow> Inl e
           | Inr s \<Rightarrow>
               (case map_of (as_Lanes s) name of
                  None \<Rightarrow> Inr ((), d)
                | Some l \<Rightarrow>
                    let nextBy = (if paused then PausedByCtl else [])
                    in if lc_Paused l = paused \<and> lc_PausedBy l = nextBy then Inr ((), d)
                       else Inr ((), SetAppliedConfig (c\<lparr>ac_Data := Some (state_json (s\<lparr>as_Lanes :=
                              mput name (l\<lparr>lc_Paused := paused, lc_PausedBy := nextBy\<rparr>) (as_Lanes s)\<rparr>))\<rparr>) d))))"

text \<open>The two endpoints: the runner first, then the stored state, with the runner rolled back on failure.\<close>

definition admin_PauseLane :: "string \<Rightarrow> manager \<Rightarrow> (error option \<times> manager) proc" where
  "admin_PauseLane name mg =
     (case PauseLane name mg of
        (Inl e, _) \<Rightarrow> ret (Some e, mg)
      | (Inr _, mg1) \<Rightarrow>
          bindM (attempt (tx_once (setLanePausedInConfig name True))) (\<lambda>r.
            ret (case r of Inl e \<Rightarrow> (Some e, snd (ContinueLane name mg1)) | Inr _ \<Rightarrow> (None, mg1))))"

definition admin_ContinueLane :: "string \<Rightarrow> manager \<Rightarrow> (error option \<times> manager) proc" where
  "admin_ContinueLane name mg =
     (case ContinueLane name mg of
        (Inl e, _) \<Rightarrow> ret (Some e, mg)
      | (Inr _, mg1) \<Rightarrow>
          bindM (attempt (tx_once (setLanePausedInConfig name False))) (\<lambda>r.
            ret (case r of Inl e \<Rightarrow> (Some e, snd (PauseLane name mg1)) | Inr _ \<Rightarrow> (None, mg1))))"

section \<open>The stored form round-trips\<close>

definition state_ok :: "AppliedState \<Rightarrow> bool" where
  "state_ok s \<longleftrightarrow> distinct (map fst (as_Lanes s)) \<and> (\<forall>c \<in> set (map snd (as_Lanes s)). in_i64 (lc_Concurrency c)) \<and>
     ru_CommandTemplate (as_Runtime s) \<noteq> Some []"

lemmas decode_literals = dec_with_def members_of_def key_matches_def lower_char_def Let_def

lemma conv_lane_json: "in_i64 (lc_Concurrency c) \<Longrightarrow> conv_lane (lane_json c) = Some c"
  by (simp add: conv_lane_def lane_json_def decode_literals conv_i64_def conv_bool_def conv_str_def)

lemma conv_strs_json: "conv_strs (JArr (map JStr ss)) = Some (Some ss)"
proof -
  have "all_some (\<lambda>x. if x = JNull then Some [] else conv_str x) (map JStr ss) = Some (map (\<lambda>x. x) ss)"
    by (rule all_some_map) (simp add: conv_str_def)
  then show ?thesis by (simp add: conv_strs_def)
qed

lemma fold_mput_append:
  "distinct (map fst (acc @ cs)) \<Longrightarrow> fold (\<lambda>(n, c) acc. mput n c acc) cs acc = acc @ cs"
proof (induction cs arbitrary: acc)
  case (Cons p cs)
  obtain n c where p: "p = (n, c)" by (cases p)
  with Cons.prems have "n \<notin> set (map fst acc)" by auto
  with p Cons.IH [of "acc @ [(n, c)]"] Cons.prems show ?case by (simp add: mput_fresh)
qed simp

lemma conv_lanes_json:
  assumes "distinct (map fst ls)" and "\<forall>c \<in> set (map snd ls). in_i64 (lc_Concurrency c)"
  shows "conv_lanes (JObj (map (\<lambda>(n, c). (n, lane_json c)) ls)) = Some ls"
proof -
  have "all_some (\<lambda>(n, x). map_option (\<lambda>c. (n, c)) (conv_lane x)) (map (\<lambda>(n, c). (n, lane_json c)) ls) =
      Some (map (\<lambda>p. p) ls)"
    by (rule all_some_map) (use assms(2) in \<open>force simp: conv_lane_json\<close>)
  with fold_mput_append [of "[]" ls] assms(1) show ?thesis by (simp add: conv_lanes_def)
qed

lemma conv_runtime_json: "ru_CommandTemplate r \<noteq> Some [] \<Longrightarrow> conv_runtime (runtime_json r) = Some r"
  by (cases "ru_CommandTemplate r"; cases "the (ru_CommandTemplate r)")
    (simp_all add: conv_runtime_def runtime_json_def decode_literals strs_json_def conv_str_def conv_bool_def
      conv_strs_json [of "_ # _", simplified])

lemma state_round_trip:
  assumes "state_ok s"
  shows "state_of_json (state_json s) = Some s"
proof -
  have "conv_lanes (JObj (map (\<lambda>(n, c). (n, lane_json c)) (as_Lanes s))) = Some (as_Lanes s)"
    and "conv_runtime (runtime_json (as_Runtime s)) = Some (as_Runtime s)"
    using assms by (simp_all add: state_ok_def conv_lanes_json conv_runtime_json)
  moreover have "runtime_json (as_Runtime s) \<noteq> JNull" by (simp add: runtime_json_def)
  ultimately show ?thesis
    by (cases "as_Labels s")
      (simp_all add: state_of_json_def state_json_def decode_literals strs_json_def conv_str_def conv_strs_json)
qed

lemma unmarshal_applied_row: "state_ok s \<Longrightarrow> unmarshal_state (applied_row E opts s) = Inr s"
  by (simp add: unmarshal_state_def applied_row_def state_round_trip)

section \<open>What a returning apply has done\<close>

lemma bindM_Ret:
  assumes "bindM m k fs w = (Ret y, fs', w')"
  obtains x fs1 w1 where "m fs w = (Ret x, fs1, w1)" and "k x fs1 w1 = (Ret y, fs', w')"
  using assms by (auto simp: bindM_def split: prod.splits res.splits)

lemma ret_Ret [simp]: "ret x fs w = (Ret y, fs', w') \<longleftrightarrow> y = x \<and> fs' = fs \<and> w' = w"
  by (auto simp: ret_def)

lemma attempt_query:
  assumes "attempt (query q) fs w = (Ret r, fs', w')"
  shows "w' = w \<and> (case r of Inr x \<Rightarrow> q (wd_db w) = Inr x | Inl _ \<Rightarrow> True)"
  using assms
  by (auto simp: attempt_def query_def effect_def sum_res_def split: prod.splits fate.splits sum.splits)

lemma count_query_frame: "count_query P fs w = (Ret b, fs', w') \<Longrightarrow> w' = w"
  unfolding count_query_def by (elim bindM_Ret) (auto dest: attempt_query)

lemma blocked_lanes_frame: "blocked_lanes ns fs w = (Ret bs, fs', w') \<Longrightarrow> w' = w"
  by (induction ns arbitrary: fs bs fs')
    (auto elim!: bindM_Ret simp: hasActiveInLane_def dest!: count_query_frame)

text \<open>The stored state a world has, and the state an apply asks for.\<close>

definition stored_state :: "db \<Rightarrow> AppliedState option" where
  "stored_state d =
     (case config_row d of
        None \<Rightarrow> Some zero_state
      | Some c \<Rightarrow> (case unmarshal_state c of Inl _ \<Rightarrow> None | Inr s \<Rightarrow> Some s))"

definition desired_state :: "Options \<Rightarrow> AppliedState \<Rightarrow> AppliedState \<Rightarrow> AppliedState" where
  "desired_state opts current wanted = reconcile_pauses current (merge_lanes (op_Prune opts) current wanted)"

text \<open>The manager an outcome leaves: the diff says which lanes it had marked.\<close>

definition marked :: "Options \<Rightarrow> Diff \<Rightarrow> manager \<Rightarrow> manager" where
  "marked opts diff mg = (if op_ForcePrune opts then mark_removing (df_LanesRemoved diff) mg else mg)"

lemma apply_persist_Ret:
  assumes "apply_persist E opts diff pruning desired mg sent fs w = (Ret (r, mg', sent'), fs', w')"
  shows "case r of
      Inr res \<Rightarrow> config_row (wd_db w') = Some (applied_row E opts desired) \<and> rs_Diff res = diff \<and>
        mg' = snd (manager_Apply (specs_of desired) mg)
    | Inl _ \<Rightarrow> mg' = (if pruning then StopLanes (df_LanesRemoved diff) mg else mg)"
  using assms unfolding apply_persist_def
  by (elim bindM_Ret)
    (auto simp: attempt_def tx_once_def effect_def sum_res_def WithWriter_def SetAppliedConfig_def
      split: prod.splits fate.splits sum.splits list.splits tx_fate.splits)

lemma apply_prune_Ret:
  assumes "apply_prune E opts diff desired mg fs w = (Ret (r, mg', sent), fs', w')"
  shows "case r of
      Inr res \<Rightarrow> config_row (wd_db w') = Some (applied_row E opts desired) \<and> rs_Diff res = diff \<and>
        mg' = snd (manager_Apply (specs_of desired) (marked opts diff mg))
    | Inl _ \<Rightarrow> mg' = mg \<or> mg' = StopLanes (df_LanesRemoved diff) (marked opts diff mg)"
proof (cases "op_ForcePrune opts \<and> df_LanesRemoved diff \<noteq> []")
  case True
  then have mk: "marked opts diff mg = mark_removing (df_LanesRemoved diff) mg" by (simp add: marked_def)
  show ?thesis
  proof (cases "op_DataDir opts = []")
    case False
    with True assms obtain e sent0 fs1 w1 where
      rest: "(case e of
          Some x \<Rightarrow> ret (Inl (Failed x), StopLanes (df_LanesRemoved diff) (mark_removing (df_LanesRemoved diff) mg), sent0)
        | None \<Rightarrow> apply_persist E opts diff True desired (mark_removing (df_LanesRemoved diff) mg) sent0)
          fs1 w1 = (Ret (r, mg', sent), fs', w')"
      by (auto simp: apply_prune_def Let_def elim!: bindM_Ret)
    then show ?thesis unfolding mk
      by (cases e) (auto dest!: apply_persist_Ret split: sum.splits)
  qed (use True assms in \<open>auto simp: apply_prune_def\<close>)
next
  case False
  then have "marked opts diff mg = mg" by (auto simp: marked_def mark_removing_def)
  with False assms show ?thesis
    by (auto simp: apply_prune_def dest!: apply_persist_Ret split: sum.splits)
qed

lemma Apply_Ret:
  assumes "Apply E opts wanted mg fs w = (Ret (r, mg', sent), fs', w')"
  shows "(\<exists>e. r = Inl e \<and> mg' = mg \<and> w' = w) \<or>
    (\<exists>cur fs1. stored_state (wd_db w) = Some cur \<and>
       apply_prune E opts (ComputeDiff cur (desired_state opts cur wanted)) (desired_state opts cur wanted) mg fs1 w =
         (Ret (r, mg', sent), fs', w'))"
proof -
  have from_state: "(\<exists>e. r = Inl e \<and> mg' = mg \<and> w' = w) \<or>
      (\<exists>fs1. apply_prune E opts (ComputeDiff cur (desired_state opts cur wanted)) (desired_state opts cur wanted) mg fs1 w =
         (Ret (r, mg', sent), fs', w'))"
    if "apply_from E opts cur wanted mg fs0 w = (Ret (r, mg', sent), fs', w')" for cur fs0
    using that unfolding apply_from_def desired_state_def Let_def
    by (elim bindM_Ret)
      (auto elim!: bindM_Ret simp: hasQueuedOrRunning_def split: if_splits
        dest!: count_query_frame blocked_lanes_frame)
  from assms obtain q fs1 w1 where read: "attempt (query GetAppliedConfig) fs w = (Ret q, fs1, w1)"
    and rest: "(case q of
         Inl e \<Rightarrow> if e = ErrNotFound then apply_from E opts zero_state wanted mg else ret (Inl (Failed e), mg, [])
       | Inr c \<Rightarrow> (case unmarshal_state c of
              Inl e \<Rightarrow> ret (Inl (Failed e), mg, [])
            | Inr current \<Rightarrow> apply_from E opts current wanted mg)) fs1 w1 = (Ret (r, mg', sent), fs', w')"
    unfolding Apply_def by (elim bindM_Ret)
  show ?thesis
  proof (cases q)
    case (Inr c)
    with attempt_query [OF read] have c: "config_row (wd_db w) = Some c" "w1 = w"
      by (auto simp: GetAppliedConfig_def split: option.splits)
    show ?thesis
      using rest Inr c from_state by (cases "unmarshal_state c") (auto simp: stored_state_def)
  next
    case (Inl e)
    with attempt_query [OF read] have w1: "w1 = w" by simp
    have nf: "e = ErrNotFound \<Longrightarrow> stored_state (wd_db w) = Some zero_state"
      using read Inl
      by (auto simp: attempt_def query_def effect_def sum_res_def stored_state_def GetAppliedConfig_def
          split: prod.splits fate.splits sum.splits option.splits)
    show ?thesis
      using rest Inl w1 from_state nf by (cases "e = ErrNotFound") auto
  qed
qed

section \<open>Persisted and running configuration agree\<close>

text \<open>The limits and pause flags of a manager's lanes.\<close>

definition lanes_view :: "manager \<Rightarrow> string \<Rightarrow> (int \<times> bool) option" where
  "lanes_view mg n = map_option (\<lambda>r. (rn_Concurrency r, rn_paused r)) (map_of (mg_runners mg) n)"

definition config_view :: "AppliedState \<Rightarrow> string \<Rightarrow> (int \<times> bool) option" where
  "config_view s n = map_option (\<lambda>c. (lc_Concurrency c, lc_Paused c)) (map_of (as_Lanes s) n)"

lemma specs_of_wanted:
  assumes "distinct (map fst (as_Lanes s))"
  shows "map_of (wanted_of (specs_of s)) n =
    map_option (\<lambda>c. \<lparr>sp_Name = n, sp_Concurrency = lc_Concurrency c, sp_Paused = lc_Paused c\<rparr>) (map_of (as_Lanes s) n)"
proof -
  let ?sp = "\<lambda>(n, c). \<lparr>sp_Name = n, sp_Concurrency = lc_Concurrency c, sp_Paused = lc_Paused c\<rparr>"
  have eq: "map (\<lambda>s. (sp_Name s, s)) (specs_of s) = map (\<lambda>(n, c). (n, ?sp (n, c))) (as_Lanes s)"
    by (simp add: specs_of_def case_prod_beta)
  have "distinct (map fst (map (\<lambda>(n, c). (n, ?sp (n, c))) (as_Lanes s)))"
    using assms by (simp add: case_prod_beta comp_def)
  moreover have "distinct (map fst (rev (map (\<lambda>(n, c). (n, ?sp (n, c))) (as_Lanes s))))"
    using assms by (simp add: case_prod_beta comp_def rev_map [symmetric])
  ultimately have "map_of (rev (map (\<lambda>(n, c). (n, ?sp (n, c))) (as_Lanes s))) =
      map_of (map (\<lambda>(n, c). (n, ?sp (n, c))) (as_Lanes s))"
    by (subst map_of_inject_set) simp_all
  moreover have "map_of (map (\<lambda>(n, c). (n, ?sp (n, c))) ls) n = map_option (\<lambda>c. ?sp (n, c)) (map_of ls n)"
    for ls :: "(string \<times> LaneCfg) list"
    by (induction ls) auto
  ultimately show ?thesis by (simp add: wanted_of_map eq)
qed

lemma manager_Apply_view:
  assumes "distinct (map fst (as_Lanes s))"
  shows "lanes_view (snd (manager_Apply (specs_of s) mg)) = config_view s"
proof
  fix n
  obtain st sp rz mg' where run: "manager_Apply (specs_of s) mg = ((st, sp, rz), mg')"
    by (metis surj_pair)
  from manager_Apply_lanes [OF run, of n] specs_of_wanted [OF assms, of n]
  have "map_of (mg_runners mg') n = map_option (\<lambda>c. lane_after n \<lparr>sp_Name = n, sp_Concurrency = lc_Concurrency c,
      sp_Paused = lc_Paused c\<rparr> (map_of (mg_runners mg) n)) (map_of (as_Lanes s) n)"
    by (simp add: option.map_comp comp_def)
  with run show "lanes_view (snd (manager_Apply (specs_of s) mg)) n = config_view s n"
    by (cases "map_of (as_Lanes s) n"; cases "map_of (mg_runners mg) n")
      (simp_all add: lanes_view_def config_view_def lane_after_def reconcile_runner_frame start_runner_frame)
qed

text \<open>A decoded state has each lane once, with limits that fit in 64 bits.\<close>

definition lanes_ok :: "(string \<times> LaneCfg) list \<Rightarrow> bool" where
  "lanes_ok ls \<longleftrightarrow> distinct (map fst ls) \<and> (\<forall>c \<in> snd ` set ls. in_i64 (lc_Concurrency c))"

lemma dec_with_ok:
  assumes "dec_with conv zero field m = Some x" and "P zero" and "\<And>v y. conv v = Some y \<Longrightarrow> P y"
  shows "P x"
proof -
  let ?step = "\<lambda>acc v. case acc of None \<Rightarrow> None | Some a \<Rightarrow> (if v = JNull then Some a else conv v)"
  have none: "foldl ?step None vs = None" for vs by (induction vs) simp_all
  have "foldl ?step (Some z) vs = Some x \<Longrightarrow> P z \<Longrightarrow> P x" for z vs
  proof (induction vs arbitrary: z)
    case (Cons v vs)
    then show ?case
      by (cases "v = JNull"; cases "conv v") (auto simp: none dest: assms(3))
  qed simp
  from this [of zero "members_of field m"] assms(1,2) show ?thesis by (simp add: dec_with_def)
qed

lemma dec_i64_ok: "dec_with conv_i64 0 field m = Some n \<Longrightarrow> in_i64 n"
  by (erule dec_with_ok) (auto simp: conv_i64_def in_i64_def maxInt64_def split: json.splits if_splits)

lemma conv_lane_ok: "conv_lane v = Some c \<Longrightarrow> in_i64 (lc_Concurrency c)"
  by (auto simp: conv_lane_def zero_lane_def in_i64_def maxInt64_def split: json.splits option.splits
      dest!: dec_i64_ok)

lemma mput_in: "p \<in> set (mput k v m) \<Longrightarrow> p = (k, v) \<or> p \<in> set m"
  by (induction k v m rule: mput.induct) (auto split: if_splits)

lemma fold_mput_ok:
  "lanes_ok acc \<Longrightarrow> (\<forall>c \<in> snd ` set cs. in_i64 (lc_Concurrency c)) \<Longrightarrow>
   lanes_ok (fold (\<lambda>(n, c) acc. mput n c acc) cs acc)"
proof (induction cs arbitrary: acc)
  case (Cons p cs)
  obtain n c where p: "p = (n, c)" by (cases p)
  with Cons.prems have "lanes_ok (mput n c acc)" by (auto simp: lanes_ok_def dest!: mput_in)
  with Cons p show ?case by simp
qed simp

lemma conv_lanes_ok:
  assumes "conv_lanes v = Some ls"
  shows "lanes_ok ls"
proof -
  from assms obtain m cs where cs: "all_some (\<lambda>(n, x). map_option (\<lambda>c. (n, c)) (conv_lane x)) m = Some cs"
    and ls: "ls = fold (\<lambda>(n, c) acc. mput n c acc) cs []"
    by (auto simp: conv_lanes_def split: json.splits)
  have "in_i64 (lc_Concurrency c)" if "(n, c) \<in> set cs" for n c
    using all_some_in [OF cs that] by (auto dest: conv_lane_ok)
  then show ?thesis unfolding ls by (intro fold_mput_ok) (auto simp: lanes_ok_def)
qed

lemma state_of_json_ok: "state_of_json v = Some s \<Longrightarrow> lanes_ok (as_Lanes s)"
  by (auto simp: state_of_json_def zero_state_def split: json.splits option.splits
      dest!: dec_with_ok [where P = lanes_ok] conv_lanes_ok)
    (auto simp: lanes_ok_def)

lemma stored_state_ok: "stored_state d = Some s \<Longrightarrow> lanes_ok (as_Lanes s)"
  by (auto simp: stored_state_def unmarshal_state_def zero_state_def lanes_ok_def
      split: option.splits sum.splits Option.bind_splits dest: state_of_json_ok [unfolded lanes_ok_def])

lemma desired_state_lanes:
  "map_of (as_Lanes (desired_state opts cur wanted)) n =
     map_option (pause_state (map_of (as_Lanes cur) n))
       (case map_of (as_Lanes wanted) n of
          Some c \<Rightarrow> Some c
        | None \<Rightarrow> if op_Prune opts then None else map_of (as_Lanes cur) n)"
proof -
  have 1: "map_of (map (\<lambda>(n, c). (n, f n c)) ls) n = map_option (f n) (map_of ls n)"
    for f and ls :: "(string \<times> LaneCfg) list"
    by (induction ls) auto
  show ?thesis
    by (auto simp: desired_state_def reconcile_pauses_def merge_lanes_def 1
        map_of_filter_keys [of "\<lambda>n. map_of (as_Lanes wanted) n = None"] map_add_def split: option.splits)
qed

lemma desired_state_ok:
  assumes "lanes_ok (as_Lanes cur)" and "state_ok wanted"
  shows "state_ok (desired_state opts cur wanted)"
proof -
  have conc: "lc_Concurrency (pause_state c d) = lc_Concurrency d" for c d by (simp add: pause_state_def Let_def)
  have "distinct (map fst (as_Lanes (merge_lanes (op_Prune opts) cur wanted)))"
    using assms distinct_map_filter [of fst "as_Lanes cur"]
    by (force simp: merge_lanes_def lanes_ok_def state_ok_def map_of_eq_None_iff)
  moreover have "\<forall>c \<in> snd ` set (as_Lanes (merge_lanes (op_Prune opts) cur wanted)). in_i64 (lc_Concurrency c)"
    using assms by (auto simp: merge_lanes_def lanes_ok_def state_ok_def)
  ultimately show ?thesis
    using assms(2)
    by (auto simp: state_ok_def desired_state_def reconcile_pauses_def case_prod_beta comp_def conc merge_lanes_def)
qed

section \<open>No lane is left half removed\<close>

lemma IsLaneRemoving_alt:
  "IsLaneRemoving n mg \<longleftrightarrow> (\<exists>r. map_of (mg_runners mg) n = Some r \<and> rn_removing r)"
  by (simp add: IsLaneRemoving_def IsRemoving_def split: option.split)

lemma mark_removing_other:
  "n \<notin> set names \<Longrightarrow> map_of (mg_runners (mark_removing names mg)) n = map_of (mg_runners mg) n"
  by (induction names arbitrary: mg)
    (auto simp: mark_removing_def MarkLaneRemoving_def on_lane_def split: option.split)

lemma StopLanes_lanes:
  "map_of (mg_runners (StopLanes names mg)) n = (if n \<in> set names then None else map_of (mg_runners mg) n)"
  by (simp add: StopLanes_def Let_def map_of_filter_keys [of "\<lambda>n. n \<notin> set names"])

lemma manager_Apply_removing:
  assumes "distinct (map fst (as_Lanes s))" and "IsLaneRemoving n (snd (manager_Apply (specs_of s) mg))"
  shows "map_of (as_Lanes s) n \<noteq> None \<and> IsLaneRemoving n mg"
proof -
  obtain st sp rz mg' where run: "manager_Apply (specs_of s) mg = ((st, sp, rz), mg')"
    by (metis surj_pair)
  have keep: "rn_removing (reconcile_runner t r) = rn_removing r" for t r
    by (simp add: reconcile_runner_def runner_ops Let_def)
  have fresh: "\<not> rn_removing (start_runner m t)" for m t
    by (simp add: start_runner_def Start_def new_runner_def Pause_def Let_def)
  from manager_Apply_lanes [OF run, of n] specs_of_wanted [OF assms(1), of n] assms(2) run show ?thesis
    by (auto simp: IsLaneRemoving_alt lane_after_def keep fresh split: option.splits)
qed

lemma removed_lanes:
  "n \<in> set (df_LanesRemoved (ComputeDiff cur des)) \<longleftrightarrow> map_of (as_Lanes cur) n \<noteq> None \<and> map_of (as_Lanes des) n = None"
  by (force simp: ComputeDiff_def map_of_eq_None_iff)

lemma Apply_no_zombies:
  assumes "Apply E opts wanted mg fs w = (Ret (r, mg', sent), fs', w')" and "state_ok wanted"
    and "\<And>n. \<not> IsLaneRemoving n mg"
  shows "\<not> IsLaneRemoving n mg'"
  using Apply_Ret [OF assms(1)]
proof (elim disjE exE conjE)
  fix e
  assume "mg' = mg"
  with assms(3) show ?thesis by simp
next
  fix cur fs1
  define des where "des = desired_state opts cur wanted"
  define diff where "diff = ComputeDiff cur des"
  assume cur: "stored_state (wd_db w) = Some cur"
    and run: "apply_prune E opts (ComputeDiff cur (desired_state opts cur wanted)) (desired_state opts cur wanted) mg fs1 w =
      (Ret (r, mg', sent), fs', w')"
  have des_ok: "distinct (map fst (as_Lanes des))"
    using desired_state_ok [OF stored_state_ok [OF cur] assms(2), of opts] by (simp add: des_def state_ok_def)
  have mk: "IsLaneRemoving m (marked opts diff mg) \<Longrightarrow> m \<in> set (df_LanesRemoved diff)" for m
    using assms(3) [of m] mark_removing_other [of m "df_LanesRemoved diff" mg]
    by (cases "m \<in> set (df_LanesRemoved diff)") (auto simp: marked_def IsLaneRemoving_alt split: if_splits)
  note res = apply_prune_Ret [OF run, folded des_def, folded diff_def]
  show ?thesis
  proof (cases r)
    case (Inr x)
    with res have mg': "mg' = snd (manager_Apply (specs_of des) (marked opts diff mg))" by simp
    show ?thesis
    proof
      assume "IsLaneRemoving n mg'"
      from manager_Apply_removing [OF des_ok this [unfolded mg']] mk [of n]
      show False by (auto simp: diff_def removed_lanes)
    qed
  next
    case (Inl e)
    with res have "mg' = mg \<or> mg' = StopLanes (df_LanesRemoved diff) (marked opts diff mg)" by simp
    with assms(3) mk [of n] show ?thesis
      by (auto simp: IsLaneRemoving_alt StopLanes_lanes split: if_splits)
  qed
qed

section \<open>Replay, conflicts and the published invariant\<close>

lemma ReplayFromDB_view:
  assumes "config_row (wd_db w) = Some (applied_row E opts s)" and "state_ok s"
  shows "\<exists>mg'. ReplayFromDB mg [] w = (Ret (None, mg'), [], w) \<and> lanes_view mg' = config_view s"
proof -
  have "attempt (query GetAppliedConfig) [] w = (Ret (Inr (applied_row E opts s)), [], w)"
    using assms(1) by (simp add: attempt_def query_def effect_def next_fate_def sum_res_def GetAppliedConfig_def)
  then have "ReplayFromDB mg [] w = (Ret (None, snd (manager_Apply (specs_of s) mg)), [], w)"
    by (simp add: ReplayFromDB_def bindM_def unmarshal_applied_row [OF assms(2)] ret_def)
  with manager_Apply_view [of s mg] assms(2) show ?thesis by (simp add: state_ok_def)
qed

lemma Apply_persisted:
  assumes "Apply E opts wanted mg fs w = (Ret (Inr res, mg', sent), fs', w')" and "state_ok wanted"
  obtains cur where "stored_state (wd_db w) = Some cur" and "state_ok (desired_state opts cur wanted)"
    and "config_row (wd_db w') = Some (applied_row E opts (desired_state opts cur wanted))"
    and "rs_Diff res = ComputeDiff cur (desired_state opts cur wanted)"
    and "lanes_view mg' = config_view (desired_state opts cur wanted)"
proof -
  from Apply_Ret [OF assms(1)] obtain cur fs1 where cur: "stored_state (wd_db w) = Some cur"
    and run: "apply_prune E opts (ComputeDiff cur (desired_state opts cur wanted)) (desired_state opts cur wanted) mg fs1 w =
      (Ret (Inr res, mg', sent), fs', w')"
    by auto
  have ok: "state_ok (desired_state opts cur wanted)"
    by (rule desired_state_ok [OF stored_state_ok [OF cur] assms(2)])
  from apply_prune_Ret [OF run] manager_Apply_view [of "desired_state opts cur wanted"] ok cur show thesis
    by (intro that [of cur]) (auto simp: state_ok_def)
qed

text \<open>With no query error, the conflict checks see every active mission.\<close>

lemma count_query_calm: "count_query P [] w = (Ret (\<exists>m \<in> set (missions (wd_db w)). P m), [], w)"
  by (auto simp: count_query_def bindM_def attempt_def query_def effect_def next_fate_def sum_res_def ret_def
      filter_empty_conv)

lemma blocked_lanes_calm:
  "\<exists>bs. blocked_lanes ns [] w = (Ret bs, [], w) \<and>
    set bs = {n \<in> set ns. \<exists>m \<in> set (missions (wd_db w)). msn_Lane m = n \<and> msn_Status m \<in> {StatusQueued, StatusRunning}}"
proof (induction ns)
  case (Cons n ns)
  then show ?case
    by (auto simp: bindM_def hasActiveInLane_def count_query_calm ret_def)
qed (simp add: ret_def)

lemma Apply_calm_blocked:
  assumes "Apply E opts wanted mg [] w = (Ret (Inr res, mg', sent), fs', w')" and "\<not> op_ForcePrune opts"
    and "stored_state (wd_db w) = Some cur"
    and "n \<in> set (df_LanesRemoved (ComputeDiff cur (desired_state opts cur wanted)))"
    and "m \<in> set (missions (wd_db w))" and "msn_Lane m = n"
  shows "msn_Status m \<notin> {StatusQueued, StatusRunning}"
proof
  let ?removed = "df_LanesRemoved (ComputeDiff cur (desired_state opts cur wanted))"
  assume active: "msn_Status m \<in> {StatusQueued, StatusRunning}"
  have read: "\<exists>q. attempt (query GetAppliedConfig) [] w = (Ret q, [], w) \<and> q = GetAppliedConfig (wd_db w)"
    by (simp add: attempt_def query_def effect_def next_fate_def sum_res_def split: sum.split)
  have from_cur: "apply_from E opts cur wanted mg [] w = (Ret (Inr res, mg', sent), fs', w')"
    using assms(1,3) read
    by (auto simp: Apply_def bindM_def stored_state_def GetAppliedConfig_def split: option.splits sum.splits)
  obtain bs where bs: "blocked_lanes ?removed [] w = (Ret bs, [], w)"
    and set_bs: "set bs = {n \<in> set ?removed. \<exists>m \<in> set (missions (wd_db w)). msn_Lane m = n \<and>
        msn_Status m \<in> {StatusQueued, StatusRunning}}"
    using blocked_lanes_calm by blast
  from set_bs assms(4-6) active have "bs \<noteq> []" by force
  moreover from assms(4) have "?removed \<noteq> []" by auto
  ultimately show False
    using from_cur assms(2) bs
    by (auto simp: apply_from_def bindM_def Let_def desired_state_def hasQueuedOrRunning_def count_query_calm ret_def
        split: if_splits)
qed

text \<open>An apply that may change the runtime and removes idle lanes only goes through.\<close>

lemma apply_persist_calm:
  "\<exists>res mg' w'. apply_persist E opts diff False des mg [] [] w = (Ret (Inr res, mg', []), [], w')"
proof -
  have tx: "attempt (tx_once (\<lambda>d. Inr ((), SetAppliedConfig c d))) [] w =
      (Ret (Inr ()), [], w\<lparr>wd_db := SetAppliedConfig c (wd_db w)\<rparr>)" for c
    by (simp add: attempt_def tx_once_def effect_def next_fate_def tx_env_def WithWriter_TxOk sum_res_def)
  obtain st sp rz mg' where "manager_Apply (specs_of des) mg = ((st, sp, rz), mg')" by (metis surj_pair)
  then show ?thesis by (simp add: apply_persist_def bindM_def tx ret_def)
qed

lemma Apply_reads:
  assumes "stored_state (wd_db w) = Some cur"
  shows "Apply E opts wanted mg [] w = apply_from E opts cur wanted mg [] w"
proof -
  have "attempt (query GetAppliedConfig) [] w = (Ret (GetAppliedConfig (wd_db w)), [], w)"
    by (simp add: attempt_def query_def effect_def next_fate_def sum_res_def split: sum.split)
  with assms show ?thesis
    by (cases "config_row (wd_db w)")
      (auto simp: Apply_def bindM_def stored_state_def GetAppliedConfig_def split: sum.splits)
qed

lemma Apply_calm_returns:
  assumes "stored_state (wd_db w) = Some cur" and "op_Force opts" and "\<not> op_ForcePrune opts"
    and "\<And>m. m \<in> set (missions (wd_db w)) \<Longrightarrow>
      msn_Lane m \<in> set (df_LanesRemoved (ComputeDiff cur (desired_state opts cur wanted))) \<Longrightarrow>
      msn_Status m \<notin> {StatusQueued, StatusRunning}"
  shows "\<exists>res mg' w'. Apply E opts wanted mg [] w = (Ret (Inr res, mg', []), [], w')"
proof -
  define des where "des = desired_state opts cur wanted"
  define diff where "diff = ComputeDiff cur des"
  obtain bs where bs: "blocked_lanes (df_LanesRemoved diff) [] w = (Ret bs, [], w)"
    and set_bs: "set bs = {n \<in> set (df_LanesRemoved diff). \<exists>m \<in> set (missions (wd_db w)). msn_Lane m = n \<and>
        msn_Status m \<in> {StatusQueued, StatusRunning}}"
    using blocked_lanes_calm by blast
  have "bs = []"
  proof (rule ccontr)
    assume "bs \<noteq> []"
    then obtain n where "n \<in> set bs" by (cases bs) auto
    with set_bs assms(4) show False by (auto simp: diff_def des_def)
  qed
  with bs assms(2,3) have "apply_from E opts cur wanted mg [] w = apply_persist E opts diff False des mg [] [] w"
    unfolding apply_from_def desired_state_def [symmetric] Let_def diff_def des_def
    by (simp add: bindM_def ret_def apply_prune_def)
  with apply_persist_calm Apply_reads [OF assms(1)] show ?thesis by metis
qed

text \<open>Apply, forced pruning included, keeps every terminal state published.\<close>

lemma attempt_inv: "triple fin_inv any m (\<lambda>_. fin_inv) fin_inv \<Longrightarrow> triple fin_inv any (attempt m) (\<lambda>_. fin_inv) fin_inv"
  by (rule triple_attempt [where E' = fin_inv]) simp_all

lemma query_fin_inv: "triple fin_inv any (query q) (\<lambda>_. fin_inv) fin_inv"
  by (rule triple_query) simp_all

lemma bind_fin_inv:
  "triple fin_inv any m (\<lambda>_. fin_inv) fin_inv \<Longrightarrow> (\<And>x. triple fin_inv any (k x) (\<lambda>_. fin_inv) fin_inv) \<Longrightarrow>
   triple fin_inv any (bindM m k) (\<lambda>_. fin_inv) fin_inv"
  by (rule triple_bind [where Q = "\<lambda>_. fin_inv"])

lemma ret_fin_inv: "triple fin_inv any (ret x) (\<lambda>_. fin_inv) fin_inv"
  by (rule triple_ret)

lemma err_fin_inv: "triple fin_inv any (err e) (\<lambda>_. fin_inv) fin_inv"
  by (rule triple_err)

lemmas fin_inv_rules = attempt_inv query_fin_inv bind_fin_inv ret_fin_inv err_fin_inv KillQueued_inv triple_each

lemma config_tx_inv: "triple fin_inv any (tx_once (\<lambda>d. Inr ((), SetAppliedConfig c d))) (\<lambda>_. fin_inv) fin_inv"
proof (rule triple_tx_once)
  fix w and x :: unit and d'
  assume inv: "fin_inv w" and "Inr ((), SetAppliedConfig c (wd_db w)) = (Inr (x, d') :: error + unit \<times> db)"
  then have "quiet (wd_db w) d'"
    using SetAppliedConfig_db_ok [of "wd_db w" c] by (auto simp: quiet_def fin_inv_def SetAppliedConfig_def)
  with inv show "fin_inv (w\<lparr>wd_db := d'\<rparr>)" by (rule quiet_inv)
qed simp_all

lemma count_query_inv: "triple fin_inv any (count_query P) (\<lambda>_. fin_inv) fin_inv"
  unfolding count_query_def by (intro fin_inv_rules)

lemma blocked_lanes_inv: "triple fin_inv any (blocked_lanes ns) (\<lambda>_. fin_inv) fin_inv"
  by (induction ns) (auto simp: hasActiveInLane_def intro!: fin_inv_rules count_query_inv)

lemma kill_queued_row_inv: "triple fin_inv any (kill_queued_row E dataDir mid) (\<lambda>_. fin_inv) fin_inv"
  unfolding kill_queued_row_def
  by (intro bind_fin_inv attempt_inv query_fin_inv) (auto split: sum.split intro!: fin_inv_rules)

lemma terminate_inv: "triple fin_inv any (terminateLaneMissions E dataDir killer lanes) (\<lambda>_. fin_inv) fin_inv"
proof (induction lanes)
  case (Cons n ns)
  then show ?case
    unfolding terminateLaneMissions.simps lane_rows_def
    by (intro bind_fin_inv attempt_inv query_fin_inv triple_each kill_queued_row_inv)
      (auto split: sum.split prod.split intro!: fin_inv_rules)
qed (simp add: ret_fin_inv)

lemma apply_persist_inv: "triple fin_inv any (apply_persist E opts diff p des mg sent) (\<lambda>_. fin_inv) fin_inv"
  unfolding apply_persist_def by (intro bind_fin_inv attempt_inv config_tx_inv ret_fin_inv)

lemma apply_prune_inv: "triple fin_inv any (apply_prune E opts diff des mg) (\<lambda>_. fin_inv) fin_inv"
  by (auto simp: apply_prune_def Let_def split: prod.split option.split
      intro!: bind_fin_inv terminate_inv ret_fin_inv apply_persist_inv)

lemma apply_from_inv: "triple fin_inv any (apply_from E opts cur wanted mg) (\<lambda>_. fin_inv) fin_inv"
  unfolding apply_from_def Let_def
  by (intro bind_fin_inv)
    (auto simp: hasQueuedOrRunning_def intro!: bind_fin_inv ret_fin_inv count_query_inv blocked_lanes_inv apply_prune_inv)

lemma Apply_inv: "triple fin_inv any (Apply E opts wanted mg) (\<lambda>_. fin_inv) fin_inv"
  unfolding Apply_def
  by (intro bind_fin_inv attempt_inv query_fin_inv)
    (auto split: sum.split intro!: ret_fin_inv apply_from_inv)

section \<open>Pause provenance\<close>

lemma pause_state_ctl:
  "lc_Paused c \<Longrightarrow> lc_PausedBy c = PausedByCtl \<Longrightarrow>
   lc_Paused (pause_state (Some c) d) \<and> lc_PausedBy (pause_state (Some c) d) = PausedByCtl"
  by (simp add: pause_state_def PausedByCtl_def PausedByYAML_def Let_def)

lemma pause_state_yaml:
  "\<not> lc_Paused c \<or> lc_PausedBy c = PausedByYAML \<Longrightarrow> lc_Paused (pause_state (Some c) d) = lc_Paused d"
  by (auto simp: pause_state_def PausedByCtl_def PausedByYAML_def Let_def)

lemma pause_state_new: "lc_Paused (pause_state None d) = lc_Paused d"
  by (simp add: pause_state_def Let_def)

text \<open>
  A pause stored without its origin is treated as the operator's when the apply asks for the
  lane to run, but becomes the file's own when the apply does not mention the lane.
\<close>

lemma legacy_pause_becomes_yaml:
  "lc_Paused c \<Longrightarrow> lc_PausedBy c = [] \<Longrightarrow> map_of (as_Lanes cur) n = Some c \<Longrightarrow> map_of (as_Lanes wanted) n = None \<Longrightarrow>
   \<not> op_Prune opts \<Longrightarrow>
   map_of (as_Lanes (desired_state opts cur wanted)) n = Some (c\<lparr>lc_PausedBy := PausedByYAML\<rparr>)"
  by (simp add: desired_state_lanes pause_state_def PausedByCtl_def Let_def)

text \<open>
  The rollback of a failed pause continues the lane, also one that was paused before the call.
\<close>

lemma pause_rollback_continues:
  assumes "map_of (mg_runners mg) n = Some r" and "rn_paused r"
  shows "\<exists>e mg' fs' w'. admin_PauseLane n mg [FErr 10] w = (Ret (Some e, mg'), fs', w') \<and>
    (\<exists>r'. map_of (mg_runners mg') n = Some r' \<and> \<not> rn_paused r')"
proof -
  have "\<exists>e. attempt (tx_once (setLanePausedInConfig n True)) [FErr 10] w = (Ret (Inl e), [], w)"
    by (auto simp: attempt_def tx_once_def effect_def next_fate_def tx_env_def WithWriter_def sum_res_def
        split: sum.split)
  with assms show ?thesis
    by (auto simp: admin_PauseLane_def PauseLane_def ContinueLane_def on_lane_def bindM_def ret_def Pause_def Resume_def Notify_def)
qed

lemma setLanePaused_stored:
  assumes "setLanePausedInConfig n True d = Inr ((), d')" and "stored_state d = Some s" and "state_ok s"
    and "map_of (as_Lanes s) n = Some l" and "config_row d \<noteq> None"
  shows "\<exists>s' l'. stored_state d' = Some s' \<and> map_of (as_Lanes s') n = Some l' \<and>
    lc_Paused l' \<and> lc_PausedBy l' = PausedByCtl"
proof -
  from assms(2,5) obtain c where c: "config_row d = Some c" "unmarshal_state c = Inr s"
    by (auto simp: stored_state_def split: option.splits sum.splits)
  let ?l = "l\<lparr>lc_Paused := True, lc_PausedBy := PausedByCtl\<rparr>"
  let ?s = "s\<lparr>as_Lanes := mput n ?l (as_Lanes s)\<rparr>"
  have "in_i64 (lc_Concurrency ?l)"
    using assms(3,4) by (auto simp: state_ok_def dest!: map_of_SomeD)
  then have "state_ok ?s" using assms(3) by (auto simp: state_ok_def dest!: mput_in)
  from state_round_trip [OF this] assms(1,2,4) c show ?thesis
    by (auto simp: setLanePausedInConfig_def GetAppliedConfig_def stored_state_def unmarshal_state_def Let_def
        SetAppliedConfig_def split: if_splits)
qed

lemma admin_PauseLane_done:
  assumes "admin_PauseLane n mg fs w = (Ret (None, mg'), fs', w')"
  shows "setLanePausedInConfig n True (wd_db w) = Inr ((), wd_db w')"
proof -
  obtain r mg1 where "PauseLane n mg = (r, mg1)" by (cases "PauseLane n mg")
  with assms show ?thesis
    by (cases r)
      (auto simp: admin_PauseLane_def attempt_def tx_once_def effect_def sum_res_def
        elim!: bindM_Ret dest!: WithWriter_ok split: prod.splits fate.splits sum.splits)
qed

end
