(* ===== verification/Cleanup.thy ===== *)
theory Cleanup
  imports Repair
begin

text \<open>
  The background cleaners (\<^verbatim>\<open>internal/cleanup\<close>) and the upload lock they consult
  (\<^verbatim>\<open>internal/stagingstore\<close>): the retention sweep of missions, the staging garbage collector with
  its tombstones, and the orphan scan of the data directory.  Durations are in nanoseconds, as
  in the configuration.  The tickers, pauses and cancellation between batches are left out: a
  run that stops early is a run with a crash there.
\<close>

section \<open>The upload lock\<close>

text \<open>
  An entry is the time of the last progress; a holder is known by the number its acquisition
  got, which stands for the entry pointer its release closure captured.
\<close>

record upload_lock =
  ul_entries :: "(string \<times> nat \<times> int) list"
  ul_next :: nat
  ul_idle :: int

definition TryAcquire :: "int \<Rightarrow> string \<Rightarrow> upload_lock \<Rightarrow> nat option \<times> upload_lock" where
  "TryAcquire now i u =
     (if map_of (ul_entries u) i \<noteq> None then (None, u)
      else (Some (ul_next u),
            u\<lparr>ul_entries := (i, ul_next u, now) # ul_entries u, ul_next := Suc (ul_next u)\<rparr>))"

text \<open>The release closure deletes the entry of its id, whichever acquisition it belongs to.\<close>

definition release_lock :: "string \<Rightarrow> upload_lock \<Rightarrow> upload_lock" where
  "release_lock i u = u\<lparr>ul_entries := mdel i (ul_entries u)\<rparr>"

definition Touch :: "int \<Rightarrow> string \<Rightarrow> upload_lock \<Rightarrow> upload_lock" where
  "Touch now i u =
     u\<lparr>ul_entries := map (\<lambda>(j, h, t). (j, h, if j = i then now else t)) (ul_entries u)\<rparr>"

definition IsLocked :: "upload_lock \<Rightarrow> string \<Rightarrow> bool" where
  "IsLocked u i \<longleftrightarrow> map_of (ul_entries u) i \<noteq> None"

text \<open>The idle entries are removed; their holders' callbacks fire, each once.\<close>

definition Sweep :: "int \<Rightarrow> upload_lock \<Rightarrow> nat list \<times> upload_lock" where
  "Sweep now u =
     (let idle = (\<lambda>(_, _, t). now - t \<ge> ul_idle u)
      in (map (fst \<circ> snd) (filter idle (ul_entries u)),
          u\<lparr>ul_entries := filter (Not \<circ> idle) (ul_entries u)\<rparr>))"

section \<open>Mission retention\<close>

record cleanup_cfg =
  cl_DataDir :: string
  cl_SuccessTTL :: int
  cl_FailedTTL :: int
  cl_ExecSuccessTTL :: int
  cl_ExecFailedTTL :: int
  cl_LostCleanupGrace :: int
  cl_StagingTTL :: int
  cl_DownloadedGrace :: int
  cl_MaxBatches :: int

definition cutoff :: "int \<Rightarrow> int \<Rightarrow> int" where
  "cutoff nowMs ttl = wrap64 (nowMs - milliseconds ttl)"

definition mission_ttl :: "cleanup_cfg \<Rightarrow> mission \<Rightarrow> int" where
  "mission_ttl c m =
     (if msn_Outcome m = Some ''success''
      then (if msn_Kind m = KindMission then cl_SuccessTTL c else cl_ExecSuccessTTL c)
      else if msn_Outcome m = Some ''lost''
      then wrap64 ((if msn_Kind m = KindMission then cl_FailedTTL c else cl_ExecFailedTTL c) + cl_LostCleanupGrace c)
      else (if msn_Kind m = KindMission then cl_FailedTTL c else cl_ExecFailedTTL c))"

definition expired :: "cleanup_cfg \<Rightarrow> int \<Rightarrow> mission \<Rightarrow> bool" where
  "expired c nowMs m \<longleftrightarrow>
     msn_Status m = StatusDone \<and> msn_Outcome m \<noteq> None \<and>
     (case msn_TimeFinishedMs m of None \<Rightarrow> False | Some t \<Rightarrow> t < cutoff nowMs (mission_ttl c m))"

definition mark_missions_deleting :: "string list \<Rightarrow> db \<Rightarrow> db" where
  "mark_missions_deleting ids d =
     fold (\<lambda>i d. d\<lparr>missions := sql_update (\<lambda>m. msn_ID m = i \<and> msn_Status m = StatusDone)
       (\<lambda>m. m\<lparr>msn_Status := StatusDeleting\<rparr>) (missions d)\<rparr>) ids d"

definition drain_query :: "db \<Rightarrow> string list" where
  "drain_query d =
     take 1000 (map msn_ID (filter (\<lambda>m. msn_Status m = StatusDeleting \<and> \<not> has_intent (msn_ID m) d) (missions d)))"

definition expired_query :: "cleanup_cfg \<Rightarrow> int \<Rightarrow> db \<Rightarrow> string list" where
  "expired_query c nowMs d =
     take 1000 (map msn_ID (sort_key (\<lambda>m. the (msn_TimeFinishedMs m))
       (filter (\<lambda>m. expired c nowMs m \<and> \<not> has_intent (msn_ID m) d) (missions d))))"

definition pickVictims :: "cleanup_cfg \<Rightarrow> int \<Rightarrow> string list proc" where
  "pickVictims c nowMs =
     bindM (query (\<lambda>d. Inr (drain_query d))) (\<lambda>deletingIDs.
       if deletingIDs \<noteq> [] then ret deletingIDs
       else bindM (query (\<lambda>d. Inr (expired_query c nowMs d))) (\<lambda>newIDs.
         if newIDs = [] then ret []
         else bindM (tx_once (\<lambda>d. Inr ((), mark_missions_deleting newIDs d))) (\<lambda>_. ret newIDs)))"

text \<open>\<^verbatim>\<open>os.Remove\<close> of an events file and \<^verbatim>\<open>os.RemoveAll\<close> of a directory, errors ignored.\<close>

definition remove_events :: "string \<Rightarrow> unit proc" where
  "remove_events mid = effect (\<lambda>f w. case f of
       FCrash _ \<Rightarrow> (Crash, w)
     | FErr _ \<Rightarrow> (Ret (), w)
     | _ \<Rightarrow> (Ret (), w\<lparr>wd_events := (wd_events w)(mid := None)\<rparr>))"

definition remove_all :: "string \<Rightarrow> unit proc" where
  "remove_all dir = effect (\<lambda>f w. case f of
       FCrash _ \<Rightarrow> (Crash, w)
     | FErr _ \<Rightarrow> (Ret (), w)
     | _ \<Rightarrow> (Ret (), w\<lparr>wd_files := (\<lambda>p. if p = dir \<or> has_prefix p (dir @ ''/'') then None else wd_files w p)\<rparr>))"

definition remove_mission_files :: "string \<Rightarrow> string \<Rightarrow> unit proc" where
  "remove_mission_files dataDir mid =
     (case ShardPath mid of
        Inl _ \<Rightarrow> ret ()
      | Inr shard \<Rightarrow>
          let outDir = path_join (path_join dataDir ''output'') shard
          in bindM (each (\<lambda>sfx. remove (path_join outDir (mid @ sfx))) [''-stdout'', ''-stderr'', ''-combined'']) (\<lambda>_.
             bindM (remove_events mid) (\<lambda>_.
             remove_all (path_join (path_join dataDir ''work'') mid))))"

definition cleanup_ttl :: "cleanup_cfg \<Rightarrow> ttl_policy" where
  "cleanup_ttl c = \<lparr>ttl_MissionSuccess = cl_SuccessTTL c, ttl_MissionFailed = cl_FailedTTL c,
     ttl_ExecSuccess = cl_ExecSuccessTTL c, ttl_ExecFailed = cl_ExecFailedTTL c,
     ttl_StagingTTL = cl_StagingTTL c, ttl_DownloadGrace = cl_DownloadedGrace c\<rparr>"

definition recalc_row :: "cleanup_cfg \<Rightarrow> string \<Rightarrow> unit proc" where
  "recalc_row c sid = bindM (attempt (tx_once (RecalcStagingTTL sid (cleanup_ttl c)))) (\<lambda>_. ret ())"

definition processBatch :: "cleanup_cfg \<Rightarrow> string list \<Rightarrow> unit proc" where
  "processBatch c victims =
     bindM (each (remove_mission_files (cl_DataDir c)) victims) (\<lambda>_.
     bindM (attempt (tx_once (\<lambda>d. Inr (StagingIDsForMissions victims d, DeleteMissions victims d)))) (\<lambda>r.
       case r of
         Inl _ \<Rightarrow> ret ()
       | Inr affected \<Rightarrow> each (recalc_row c) affected))"

fun run_batches :: "cleanup_cfg \<Rightarrow> (nat \<Rightarrow> int) \<Rightarrow> nat \<Rightarrow> unit proc" where
  "run_batches c clock 0 = ret ()"
| "run_batches c clock (Suc n) =
     bindM (attempt (pickVictims c (clock n))) (\<lambda>r.
       case r of
         Inl _ \<Rightarrow> ret ()
       | Inr victims \<Rightarrow>
           if victims = [] then ret ()
           else bindM (processBatch c victims) (\<lambda>_. run_batches c clock n))"

text \<open>The clock gives the time each batch reads.\<close>

definition MissionCleaner_RunOnce :: "cleanup_cfg \<Rightarrow> (nat \<Rightarrow> int) \<Rightarrow> unit proc" where
  "MissionCleaner_RunOnce c clock =
     run_batches c clock (if cl_MaxBatches c \<le> 0 then 1000 else nat (cl_MaxBatches c))"

section \<open>Staging garbage collection\<close>

record gc_cfg =
  gc_cleanup :: cleanup_cfg
  gc_GracePeriod :: int
  gc_BatchSize :: int

definition gracePeriod :: "gc_cfg \<Rightarrow> int" where
  "gracePeriod g = (if gc_GracePeriod g > 0 then gc_GracePeriod g else 60 * 1000000000)"

definition batchSize :: "gc_cfg \<Rightarrow> int" where
  "batchSize g = (if gc_BatchSize g > 0 then gc_BatchSize g else 1000)"

definition drainNeedsRecalc :: "gc_cfg \<Rightarrow> unit proc" where
  "drainNeedsRecalc g =
     bindM (attempt (query (\<lambda>d. Inr (FindStagingNeedingRecalc (batchSize g) d)))) (\<lambda>r.
       case r of Inl _ \<Rightarrow> ret () | Inr sids \<Rightarrow> each (recalc_row (gc_cleanup g)) sids)"

definition expired_staging :: "gc_cfg \<Rightarrow> int \<Rightarrow> db \<Rightarrow> (string \<times> staging_state) list" where
  "expired_staging g nowMs d =
     take (nat (batchSize g)) (map (\<lambda>s. (stg_StagingID s, stg_State s))
       (filter (\<lambda>s. 0 < stg_TimeExpiresMs s \<and> stg_TimeExpiresMs s \<le> nowMs \<and>
                    stg_State s \<in> {StagingUploading, StagingComplete}) (staging_files d)))"

definition expireTTLs :: "gc_cfg \<Rightarrow> int \<Rightarrow> (string \<Rightarrow> bool) \<Rightarrow> unit proc" where
  "expireTTLs g nowMs locked =
     bindM (attempt (query (\<lambda>d. Inr (expired_staging g nowMs d)))) (\<lambda>r.
       case r of
         Inl _ \<Rightarrow> ret ()
       | Inr pending \<Rightarrow>
           each (\<lambda>(sid, st). if st = StagingUploading \<and> locked sid then ret ()
             else bindM (attempt (tx_once (MarkStagingDeletingIfExpired sid nowMs))) (\<lambda>_. ret ())) pending)"

text \<open>
  Moving a file to the tombstone directory and setting its modification time.  A fate with a
  positive count has moved the file but failed to set the time, which stays at the count less one.
\<close>

definition tombstone :: "string \<Rightarrow> string \<Rightarrow> int \<Rightarrow> unit proc" where
  "tombstone src sid nowMs = effect (\<lambda>f w.
     let moved = (\<lambda>t. w\<lparr>wd_files := (wd_files w)(src := None), wd_tomb := wd_tomb w @ [(sid, False, t)]\<rparr>)
     in case f of
       FCrash _ \<Rightarrow> (Crash, w)
     | FErr n \<Rightarrow> (Ret (), if n = 0 \<or> wd_files w src = None then w else moved (int n - 1))
     | _ \<Rightarrow> (Ret (), if wd_files w src = None then w else moved nowMs))"

definition tomb_exists :: "string \<Rightarrow> bool proc" where
  "tomb_exists sid = effect (\<lambda>f w. case f of
       FCrash _ \<Rightarrow> (Crash, w)
     | FErr _ \<Rightarrow> (Ret False, w)
     | _ \<Rightarrow> (Ret (sid \<in> fst ` set (wd_tomb w)), w))"

text \<open>\<^verbatim>\<open>os.Stat\<close> tested for not-exist: an error of another kind counts as present.\<close>

definition src_missing :: "string \<Rightarrow> bool proc" where
  "src_missing p = effect (\<lambda>f w. case f of
       FCrash _ \<Rightarrow> (Crash, w)
     | FErr _ \<Rightarrow> (Ret False, w)
     | _ \<Rightarrow> (Ret (wd_files w p = None), w))"

definition tombstone_row :: "string \<Rightarrow> int \<Rightarrow> string \<times> string \<Rightarrow> unit proc" where
  "tombstone_row dataDir nowMs = (\<lambda>(sid, path).
     bindM (tomb_exists sid) (\<lambda>there.
       if there then ret ()
       else bindM (src_missing (path_join dataDir path)) (\<lambda>missing.
         if missing
         then bindM (attempt (tx_once (DeleteStagingWhere (\<lambda>s. stg_StagingID s = sid)))) (\<lambda>_. ret ())
         else tombstone (path_join dataDir path) sid nowMs)))"

definition tombstoneDeleting :: "gc_cfg \<Rightarrow> int \<Rightarrow> unit proc" where
  "tombstoneDeleting g nowMs =
     bindM (attempt (query (\<lambda>d. Inr (take (nat (batchSize g)) (map (\<lambda>s. (stg_StagingID s, stg_Path s))
         (filter (\<lambda>s. stg_State s = StagingDeleting) (staging_files d))))))) (\<lambda>r.
       case r of
         Inl _ \<Rightarrow> ret ()
       | Inr pending \<Rightarrow> each (tombstone_row (cl_DataDir (gc_cleanup g)) nowMs) pending)"

definition unlink_tomb :: "string \<Rightarrow> bool proc" where
  "unlink_tomb sid = effect (\<lambda>f w. case f of
       FCrash _ \<Rightarrow> (Crash, w)
     | FErr _ \<Rightarrow> (Ret False, w)
     | _ \<Rightarrow> (Ret True, w\<lparr>wd_tomb := filter (\<lambda>(n, _). n \<noteq> sid) (wd_tomb w)\<rparr>))"

definition read_tombs :: "(string \<times> bool \<times> int) list proc" where
  "read_tombs = effect (\<lambda>f w. case f of
       FCrash _ \<Rightarrow> (Crash, w) | FErr _ \<Rightarrow> (Err ErrIO, w) | _ \<Rightarrow> (Ret (wd_tomb w), w))"

definition unlink_row :: "int \<Rightarrow> string \<times> bool \<times> int \<Rightarrow> unit proc" where
  "unlink_row limit = (\<lambda>(name, isDir, mtime).
     if isDir \<or> \<not> ValidateUUIDv7 name \<or> mtime > limit then ret ()
     else bindM (unlink_tomb name) (\<lambda>gone.
       if gone
       then bindM (attempt (tx_once (DeleteStagingWhere (\<lambda>s. stg_StagingID s = name \<and> stg_State s = StagingDeleting)))) (\<lambda>_. ret ())
       else ret ()))"

definition unlinkOldTombstones :: "gc_cfg \<Rightarrow> int \<Rightarrow> unit proc" where
  "unlinkOldTombstones g nowMs =
     bindM (attempt read_tombs) (\<lambda>r.
       case r of
         Inl _ \<Rightarrow> ret ()
       | Inr entries \<Rightarrow> each (unlink_row (nowMs - milliseconds (gracePeriod g))) entries)"

definition StagingGC_RunOnce :: "gc_cfg \<Rightarrow> int \<Rightarrow> (string \<Rightarrow> bool) \<Rightarrow> unit proc" where
  "StagingGC_RunOnce g nowMs locked =
     bindM (drainNeedsRecalc g) (\<lambda>_.
     bindM (expireTTLs g nowMs locked) (\<lambda>_.
     bindM (tombstoneDeleting g nowMs) (\<lambda>_.
     unlinkOldTombstones g nowMs)))"

section \<open>Orphan scan\<close>

text \<open>
  The names the scan removes from a directory listing of files with their modification times.
  The existence queries answer \<open>None\<close> on an error, and the file is kept.
\<close>

definition row_exists :: "(string \<Rightarrow> bool option) \<Rightarrow> string \<Rightarrow> bool" where
  "row_exists ask i = (case ask i of None \<Rightarrow> True | Some b \<Rightarrow> b)"

definition scanOutput :: "(string \<Rightarrow> bool option) \<Rightarrow> int \<Rightarrow> (string \<times> int) list \<Rightarrow> string list" where
  "scanOutput ask limit entries =
     map fst (filter (\<lambda>(n, mtime). ValidateUUIDv7 (output_owner n) \<and> \<not> mtime > limit \<and>
       \<not> row_exists ask (output_owner n)) entries)"

definition scanWork :: "(string \<Rightarrow> bool option) \<Rightarrow> int \<Rightarrow> (string \<times> bool \<times> int) list \<Rightarrow> string list" where
  "scanWork ask limit entries =
     map fst (filter (\<lambda>(n, isDir, mtime). isDir \<and> ValidateUUIDv7 n \<and> \<not> mtime > limit \<and> \<not> row_exists ask n) entries)"

definition scanStaging :: "(string \<Rightarrow> bool option) \<Rightarrow> int \<Rightarrow> (string \<times> int) list \<Rightarrow> string list" where
  "scanStaging ask limit entries =
     map fst (filter (\<lambda>(n, mtime). ValidateUUIDv7 (staging_owner n) \<and> \<not> mtime > limit \<and>
       \<not> row_exists ask (staging_owner n)) entries)"

end
