(* ===== verification/Retention.thy ===== *)
theory Retention
  imports Cleanup Safety
begin

text \<open>
  What the cleaners may remove.  The retention sweep deletes only missions past their retention
  that carry no finalize intent, and keeps every remaining done mission published; the staging
  collector leaves alone every row that is in use, unexpired or locked by an upload.  Both hold
  whatever fails and wherever the daemon crashes.
\<close>

section \<open>The upload lock\<close>

lemma TryAcquire_locked: "TryAcquire now i u = (Some h, u') \<Longrightarrow> \<not> IsLocked u i \<and> IsLocked u' i \<and> fst (TryAcquire now' i u') = None"
  by (auto simp: TryAcquire_def IsLocked_def split: if_splits)

lemma Sweep_fires:
  assumes "Sweep now u = (fired, u')"
  shows "(h \<in> set fired \<longleftrightarrow> (\<exists>i t. (i, h, t) \<in> set (ul_entries u) \<and> now - t \<ge> ul_idle u)) \<and>
    set (ul_entries u') = {(i, h, t) \<in> set (ul_entries u). now - t < ul_idle u}"
  using assms by (force simp: Sweep_def Let_def)

text \<open>
  A release that comes after the sweep has dropped its entry removes the entry of whoever
  acquired the id since.
\<close>

lemma late_release_unlocks_other:
  "let u0 = \<lparr>ul_entries = [], ul_next = 0, ul_idle = 10\<rparr>;
       (first, u1) = TryAcquire 0 ''a'' u0;
       (fired, u2) = Sweep 10 u1;
       (second, u3) = TryAcquire 11 ''a'' u2
   in first = Some 0 \<and> fired = [0] \<and> second = Some 1 \<and> IsLocked u3 ''a'' \<and> \<not> IsLocked (release_lock ''a'' u3) ''a''"
  by (simp add: TryAcquire_def Sweep_def IsLocked_def release_lock_def)

section \<open>Missions protected by retention\<close>

text \<open>What identifies a row and decides its retention: everything but the restart link.\<close>

definition core :: "mission \<Rightarrow> mission" where
  "core m = m\<lparr>msn_RestartedFrom := None\<rparr>"

lemma core_eqD:
  assumes "core m = core m'"
  shows "msn_ID m = msn_ID m'" "msn_Status m = msn_Status m'" "expired c t m = expired c t m'"
proof -
  have 1: "msn_ID m = msn_ID m' \<and> msn_Status m = msn_Status m' \<and> msn_Outcome m = msn_Outcome m' \<and>
      msn_Kind m = msn_Kind m' \<and> msn_TimeFinishedMs m = msn_TimeFinishedMs m'"
    using assms by (cases m; cases m') (simp add: core_def)
  then show "msn_ID m = msn_ID m'" "msn_Status m = msn_Status m'" by simp_all
  from 1 have "mission_ttl c m = mission_ttl c m'" by (simp add: mission_ttl_def)
  with 1 show "expired c t m = expired c t m'" by (simp add: expired_def split: option.split)
qed

lemma core_clear [simp]: "core (clear_restarted ids m) = core m"
  by (simp add: core_def clear_restarted_def split: option.split)

definition retained :: "cleanup_cfg \<Rightarrow> (nat \<Rightarrow> int) \<Rightarrow> db \<Rightarrow> mission \<Rightarrow> bool" where
  "retained c clock d m \<longleftrightarrow>
     has_intent (msn_ID m) d \<or> (msn_Status m \<noteq> StatusDeleting \<and> (\<forall>n. \<not> expired c (clock n) m))"

text \<open>Every retained row of the start is still there, with its intent.\<close>

definition keeps :: "cleanup_cfg \<Rightarrow> (nat \<Rightarrow> int) \<Rightarrow> db \<Rightarrow> db \<Rightarrow> bool" where
  "keeps c clock d0 d \<longleftrightarrow>
     (\<forall>m \<in> set (missions d0). retained c clock d0 m \<longrightarrow>
        (\<exists>m' \<in> set (missions d). core m' = core m) \<and> (has_intent (msn_ID m) d0 \<longrightarrow> has_intent (msn_ID m) d))"

lemma keeps_refl: "keeps c clock d d"
  by (auto simp: keeps_def)

definition safe_victims :: "cleanup_cfg \<Rightarrow> (nat \<Rightarrow> int) \<Rightarrow> db \<Rightarrow> db \<Rightarrow> string list \<Rightarrow> bool" where
  "safe_victims c clock d0 d vs \<longleftrightarrow>
     (\<forall>m \<in> set (missions d0). retained c clock d0 m \<longrightarrow> msn_ID m \<notin> set vs) \<and>
     (\<forall>m \<in> set (missions d). msn_ID m \<in> set vs \<longrightarrow> msn_Status m \<noteq> StatusDone)"

lemma keyed_unique: "keyed msn_ID ms \<Longrightarrow> a \<in> set ms \<Longrightarrow> b \<in> set ms \<Longrightarrow> msn_ID a = msn_ID b \<Longrightarrow> a = b"
  by (meson distinct_map inj_on_eq_iff)

lemma not_retained:
  assumes "keeps c clock d0 d" and "db_ok d" and "v \<in> set (missions d)" and "\<not> has_intent (msn_ID v) d"
    and "msn_Status v = StatusDeleting \<or> expired c (clock n) v" and "m \<in> set (missions d0)" and "msn_ID m = msn_ID v"
  shows "\<not> retained c clock d0 m"
proof
  assume r: "retained c clock d0 m"
  with assms(1,6) obtain m' where m': "m' \<in> set (missions d)" "core m' = core m"
    and i: "has_intent (msn_ID m) d0 \<longrightarrow> has_intent (msn_ID m) d" by (auto simp: keeps_def)
  have "m' = v"
    using keyed_unique [OF db_ok_keyed(1) [OF assms(2)] m'(1) assms(3)] core_eqD(1) [OF m'(2)] assms(7) by simp
  with r i assms(4,5,7) core_eqD(2,3) [OF m'(2)] show False by (auto simp: retained_def)
qed

section \<open>The retention sweep\<close>

text \<open>The invariant of the sweep: the published invariant, and every retained row kept.\<close>

definition sweep_inv :: "cleanup_cfg \<Rightarrow> (nat \<Rightarrow> int) \<Rightarrow> db \<Rightarrow> world \<Rightarrow> bool" where
  "sweep_inv c clock d0 w \<longleftrightarrow> fin_inv w \<and> keeps c clock d0 (wd_db w)"

lemma sweep_inv_db_ok: "sweep_inv c clock d0 w \<Longrightarrow> db_ok (wd_db w)"
  by (simp add: sweep_inv_def fin_inv_def)

lemma mark_rows:
  "missions (mark_missions_deleting ids d) =
     map (\<lambda>m. if msn_ID m \<in> set ids \<and> msn_Status m = StatusDone then m\<lparr>msn_Status := StatusDeleting\<rparr> else m) (missions d) \<and>
   finalize_intents (mark_missions_deleting ids d) = finalize_intents d \<and>
   (db_ok d \<longrightarrow> db_ok (mark_missions_deleting ids d))"
proof (induction ids arbitrary: d)
  case Nil
  then show ?case by (simp add: mark_missions_deleting_def)
next
  case (Cons i ids)
  let ?d = "d\<lparr>missions := sql_update (\<lambda>m. msn_ID m = i \<and> msn_Status m = StatusDone)
       (\<lambda>m. m\<lparr>msn_Status := StatusDeleting\<rparr>) (missions d)\<rparr>"
  have "db_ok d \<Longrightarrow> db_ok ?d" by (rule db_ok_missions_update) simp_all
  with Cons.IH [of ?d] show ?case by (auto simp: mark_missions_deleting_def sql_update_def)
qed

lemma mark_quiet: "db_ok d \<Longrightarrow> quiet d (mark_missions_deleting ids d)"
  using mark_rows [of ids d] by (auto simp: quiet_def)

lemma mark_keeps:
  assumes "keeps c clock d0 d" and "\<And>m. m \<in> set (missions d0) \<Longrightarrow> retained c clock d0 m \<Longrightarrow> msn_ID m \<notin> set ids"
  shows "keeps c clock d0 (mark_missions_deleting ids d)"
  unfolding keeps_def
proof (intro ballI impI)
  fix m
  assume m: "m \<in> set (missions d0)" "retained c clock d0 m"
  with assms(1) obtain m' where m': "m' \<in> set (missions d)" "core m' = core m"
    and i: "has_intent (msn_ID m) d0 \<longrightarrow> has_intent (msn_ID m) d" by (auto simp: keeps_def)
  from assms(2) [OF m] core_eqD(1) [OF m'(2)] have "msn_ID m' \<notin> set ids" by simp
  with m'(1) have "m' \<in> set (missions (mark_missions_deleting ids d))" using mark_rows [of ids d] by auto
  with m'(2) i mark_rows [of ids d]
  show "(\<exists>m' \<in> set (missions (mark_missions_deleting ids d)). core m' = core m) \<and>
      (has_intent (msn_ID m) d0 \<longrightarrow> has_intent (msn_ID m) (mark_missions_deleting ids d))"
    by (auto simp: has_intent_def)
qed

lemma drain_victims:
  assumes "keeps c clock d0 d" and "db_ok d"
  shows "safe_victims c clock d0 d (drain_query d)"
proof -
  have row: "\<exists>m \<in> set (missions d). msn_ID m = v \<and> msn_Status m = StatusDeleting \<and> \<not> has_intent v d"
    if "v \<in> set (drain_query d)" for v
    using that by (auto simp: drain_query_def dest!: in_set_takeD)
  show ?thesis
    unfolding safe_victims_def
  proof (intro conjI ballI impI)
    fix m
    assume "m \<in> set (missions d0)" and "retained c clock d0 m"
    then show "msn_ID m \<notin> set (drain_query d)" using row not_retained [OF assms] by metis
  next
    fix m
    assume "m \<in> set (missions d)" and "msn_ID m \<in> set (drain_query d)"
    then show "msn_Status m \<noteq> StatusDone"
      using row keyed_unique [OF db_ok_keyed(1) [OF assms(2)]] by fastforce
  qed
qed

lemma expired_victims:
  assumes "keeps c clock d0 d" and "db_ok d" and "m \<in> set (missions d0)" and "retained c clock d0 m"
  shows "msn_ID m \<notin> set (expired_query c (clock n) d)"
proof
  assume "msn_ID m \<in> set (expired_query c (clock n) d)"
  then obtain v where "v \<in> set (missions d)" "msn_ID v = msn_ID m" "expired c (clock n) v" "\<not> has_intent (msn_ID v) d"
    by (auto simp: expired_query_def dest!: in_set_takeD)
  with not_retained [OF assms(1,2)] assms(3,4) show False by metis
qed

definition armed :: "cleanup_cfg \<Rightarrow> (nat \<Rightarrow> int) \<Rightarrow> db \<Rightarrow> string list \<Rightarrow> world \<Rightarrow> bool" where
  "armed c clock d0 vs w \<longleftrightarrow> sweep_inv c clock d0 w \<and> safe_victims c clock d0 (wd_db w) vs"

lemma armed_sweep: "armed c clock d0 vs w \<Longrightarrow> sweep_inv c clock d0 w"
  by (simp add: armed_def)

lemma pickVictims_inv:
  "triple (sweep_inv c clock d0) any (pickVictims c (clock n)) (\<lambda>vs. armed c clock d0 vs) (sweep_inv c clock d0)"
  unfolding pickVictims_def
proof (rule triple_bind [where Q = "\<lambda>del w. armed c clock d0 del w"])
  show "triple (sweep_inv c clock d0) any (query (\<lambda>d. Inr (drain_query d)))
      (\<lambda>del w. armed c clock d0 del w) (sweep_inv c clock d0)"
    by (rule triple_query) (auto simp: armed_def sweep_inv_def fin_inv_def intro!: drain_victims)
next
  fix del
  let ?safe = "\<lambda>new w. sweep_inv c clock d0 w \<and> (\<forall>m \<in> set (missions d0). retained c clock d0 m \<longrightarrow> msn_ID m \<notin> set new)"
  have q: "triple (armed c clock d0 del) any (query (\<lambda>d. Inr (expired_query c (clock n) d))) ?safe (sweep_inv c clock d0)"
    by (rule triple_query) (auto simp: armed_def sweep_inv_def fin_inv_def dest: expired_victims)
  have m: "triple (?safe new) any (tx_once (\<lambda>d. Inr ((), mark_missions_deleting new d)))
      (\<lambda>_. armed c clock d0 new) (sweep_inv c clock d0)" for new
  proof (rule triple_tx_once)
    fix w and x :: unit and d'
    assume s: "?safe new w" and "Inr ((), mark_missions_deleting new (wd_db w)) = (Inr (x, d') :: error + unit \<times> db)"
    then have d': "d' = mark_missions_deleting new (wd_db w)" by simp
    have ok: "db_ok (wd_db w)" using s sweep_inv_db_ok by blast
    have "fin_inv (w\<lparr>wd_db := d'\<rparr>)"
      using s quiet_inv [OF _ mark_quiet [OF ok]] by (simp add: d' sweep_inv_def)
    moreover have "keeps c clock d0 d'" unfolding d' using s by (intro mark_keeps) (auto simp: sweep_inv_def)
    ultimately show "armed c clock d0 new (w\<lparr>wd_db := d'\<rparr>)"
      using s mark_rows [of new "wd_db w"] by (auto simp: armed_def sweep_inv_def safe_victims_def d')
  qed auto
  show "triple (armed c clock d0 del) any (if del \<noteq> [] then ret del
      else bindM (query (\<lambda>d. Inr (expired_query c (clock n) d))) (\<lambda>newIDs.
        if newIDs = [] then ret [] else bindM (tx_once (\<lambda>d. Inr ((), mark_missions_deleting newIDs d))) (\<lambda>_. ret newIDs)))
      (\<lambda>vs. armed c clock d0 vs) (sweep_inv c clock d0)"
  proof (cases "del = []")
    case True
    have k: "triple (?safe new) any (if new = [] then ret []
        else bindM (tx_once (\<lambda>d. Inr ((), mark_missions_deleting new d))) (\<lambda>_. ret new))
        (\<lambda>vs. armed c clock d0 vs) (sweep_inv c clock d0)" for new
    proof (cases "new = []")
      case True
      then show ?thesis by (auto simp: armed_def safe_victims_def intro: triple_ret)
    next
      case False
      then show ?thesis unfolding if_not_P [OF False] by (intro triple_bind [OF m] triple_ret)
    qed
    from True triple_bind [OF q k] show ?thesis by simp
  next
    case False
    then show ?thesis by (simp add: triple_ret)
  qed
qed

lemma armed_files_free: "files_free (armed c clock d0 vs)"
  by (simp add: files_free_def armed_def sweep_inv_def fin_inv_def published_def)

lemma remove_mission_files_inv:
  assumes "v \<in> set vs"
  shows "triple (armed c clock d0 vs) any (remove_mission_files dir v) (\<lambda>_. armed c clock d0 vs) (sweep_inv c clock d0)"
proof -
  have weak: "triple (armed c clock d0 vs) any m (\<lambda>_. armed c clock d0 vs) (armed c clock d0 vs) \<Longrightarrow>
      triple (armed c clock d0 vs) any m (\<lambda>_. armed c clock d0 vs) (sweep_inv c clock d0)" for m :: "unit proc"
    by (erule triple_conseq) (auto dest: armed_sweep)
  have ev: "triple (armed c clock d0 vs) any (remove_events v) (\<lambda>_. armed c clock d0 vs) (armed c clock d0 vs)"
    unfolding remove_events_def
    by (rule triple_effect)
      (use assms in \<open>auto simp: armed_def sweep_inv_def fin_inv_def published_def safe_victims_def split: fate.split\<close>)
  have all: "triple (armed c clock d0 vs) any (remove_all p) (\<lambda>_. armed c clock d0 vs) (armed c clock d0 vs)" for p
    unfolding remove_all_def
    by (rule triple_effect) (use armed_files_free [of c clock d0 vs] in \<open>auto simp: files_free_def split: fate.split\<close>)
  have "triple (armed c clock d0 vs) any (remove_mission_files dir v) (\<lambda>_. armed c clock d0 vs) (armed c clock d0 vs)"
    unfolding remove_mission_files_def
    by (auto simp: Let_def split: sum.split intro!: triple_ret triple_bind [OF _ triple_bind [OF ev all]] triple_each
        triple_remove armed_files_free simp del: each.simps)
  then show ?thesis by (rule weak)
qed

lemma delete_keeps:
  assumes "keeps c clock d0 d" and "safe_victims c clock d0 d vs"
  shows "keeps c clock d0 (DeleteMissions vs d)"
proof (cases "vs = []")
  case False
  show ?thesis
    unfolding keeps_def
  proof (intro ballI impI)
    fix m
    assume m: "m \<in> set (missions d0)" "retained c clock d0 m"
    with assms(1) obtain m' where m': "m' \<in> set (missions d)" "core m' = core m"
      and i: "has_intent (msn_ID m) d0 \<longrightarrow> has_intent (msn_ID m) d" by (auto simp: keeps_def)
    from m assms(2) have out: "msn_ID m \<notin> set vs" by (simp add: safe_victims_def)
    with core_eqD(1) [OF m'(2)] m'(1) False
    have "clear_restarted vs m' \<in> set (missions (DeleteMissions vs d))"
      by (auto simp: DeleteMissions_def Let_def sql_delete_def)
    moreover have "has_intent (msn_ID m) d \<Longrightarrow> has_intent (msn_ID m) (DeleteMissions vs d)"
      using out False by (auto simp: has_intent_def DeleteMissions_def Let_def sql_delete_def)
    ultimately show "(\<exists>m' \<in> set (missions (DeleteMissions vs d)). core m' = core m) \<and>
        (has_intent (msn_ID m) d0 \<longrightarrow> has_intent (msn_ID m) (DeleteMissions vs d))"
      using m'(2) i by (metis core_clear)
  qed
qed (use assms(1) in \<open>simp add: DeleteMissions_def\<close>)

lemma delete_fin_inv:
  assumes "fin_inv w"
  shows "fin_inv (w\<lparr>wd_db := DeleteMissions vs (wd_db w)\<rparr>)"
proof -
  have cl: "msn_Status (clear_restarted vs m) = msn_Status m" "msn_Outcome (clear_restarted vs m) = msn_Outcome m" for m
    by (simp_all add: clear_restarted_def split: option.split)
  from assms DeleteMissions_db_ok [of "wd_db w" vs] show ?thesis
    by (auto simp: fin_inv_def published_def DeleteMissions_def Let_def sql_delete_def cl)
qed

lemma recalc_row_inv: "triple (sweep_inv c clock d0) any (recalc_row c' sid) (\<lambda>_. sweep_inv c clock d0) (sweep_inv c clock d0)"
  unfolding recalc_row_def
proof (rule triple_bind [where Q = "\<lambda>_. sweep_inv c clock d0"], rule triple_attempt [where E' = "sweep_inv c clock d0"], rule triple_tx_once)
  fix w x d'
  assume inv: "sweep_inv c clock d0 w" and run: "RecalcStagingTTL sid (cleanup_ttl c') (wd_db w) = Inr (x, d')"
  from same_rows_recalc [OF run] have rows: "same_rows (wd_db w) d'" .
  from same_rows_quiet [OF rows sweep_inv_db_ok [OF inv]] inv have "fin_inv (w\<lparr>wd_db := d'\<rparr>)"
    by (simp add: sweep_inv_def quiet_inv)
  with inv rows show "sweep_inv c clock d0 (w\<lparr>wd_db := d'\<rparr>)"
    by (simp add: sweep_inv_def keeps_def same_rows_def has_intent_def)
qed (simp_all add: triple_ret)

lemma processBatch_inv:
  "triple (armed c clock d0 vs) any (processBatch c vs) (\<lambda>_. sweep_inv c clock d0) (sweep_inv c clock d0)"
  unfolding processBatch_def
proof (rule triple_bind [where Q = "\<lambda>_. armed c clock d0 vs"])
  show "triple (armed c clock d0 vs) any (each (remove_mission_files (cl_DataDir c)) vs)
      (\<lambda>_. armed c clock d0 vs) (sweep_inv c clock d0)"
    by (rule triple_each) (rule remove_mission_files_inv)
next
  have tx: "triple (armed c clock d0 vs) any (attempt (tx_once (\<lambda>d. Inr (StagingIDsForMissions vs d, DeleteMissions vs d))))
      (\<lambda>_. sweep_inv c clock d0) (sweep_inv c clock d0)"
  proof (rule triple_attempt [where E' = "sweep_inv c clock d0"], rule triple_tx_once)
    fix w x d'
    assume a: "armed c clock d0 vs w"
      and "Inr (StagingIDsForMissions vs (wd_db w), DeleteMissions vs (wd_db w)) = (Inr (x, d') :: error + string list \<times> db)"
    then show "sweep_inv c clock d0 (w\<lparr>wd_db := d'\<rparr>)"
      by (auto simp: armed_def sweep_inv_def delete_keeps delete_fin_inv)
  qed (auto dest: armed_sweep)
  have rest: "triple (sweep_inv c clock d0) any (case r of Inl _ \<Rightarrow> ret () | Inr affected \<Rightarrow> each (recalc_row c) affected)
      (\<lambda>_. sweep_inv c clock d0) (sweep_inv c clock d0)" for r :: "error + string list"
    by (cases r) (simp_all add: triple_ret triple_each recalc_row_inv)
  show "triple (armed c clock d0 vs) any (bindM (attempt (tx_once (\<lambda>d. Inr (StagingIDsForMissions vs d, DeleteMissions vs d))))
      (\<lambda>r. case r of Inl _ \<Rightarrow> ret () | Inr affected \<Rightarrow> each (recalc_row c) affected))
      (\<lambda>_. sweep_inv c clock d0) (sweep_inv c clock d0)"
    by (rule triple_bind [OF tx rest])
qed

lemma run_batches_inv:
  "triple (sweep_inv c clock d0) any (run_batches c clock n) (\<lambda>_. sweep_inv c clock d0) (sweep_inv c clock d0)"
proof (induction n)
  case (Suc n)
  have pick: "triple (sweep_inv c clock d0) any (attempt (pickVictims c (clock n)))
      (\<lambda>r w. sweep_inv c clock d0 w \<and> (\<forall>vs. r = Inr vs \<longrightarrow> armed c clock d0 vs w)) (sweep_inv c clock d0)"
  proof (rule triple_attempt [where E' = "sweep_inv c clock d0"])
    show "triple (sweep_inv c clock d0) any (pickVictims c (clock n))
        (\<lambda>x w. sweep_inv c clock d0 w \<and> (\<forall>vs. Inr x = (Inr vs :: error + string list) \<longrightarrow> armed c clock d0 vs w)) (sweep_inv c clock d0)"
      by (rule triple_conseq [OF pickVictims_inv]) (auto simp: armed_def)
  qed auto
  have go: "triple (\<lambda>w. sweep_inv c clock d0 w \<and> (\<forall>vs. r = Inr vs \<longrightarrow> armed c clock d0 vs w)) any
      (case r of Inl _ \<Rightarrow> ret () | Inr vs \<Rightarrow> if vs = [] then ret () else bindM (processBatch c vs) (\<lambda>_. run_batches c clock n))
      (\<lambda>_. sweep_inv c clock d0) (sweep_inv c clock d0)" for r :: "error + string list"
  proof (cases r)
    case (Inr vs)
    have "triple (armed c clock d0 vs) any (bindM (processBatch c vs) (\<lambda>_. run_batches c clock n))
        (\<lambda>_. sweep_inv c clock d0) (sweep_inv c clock d0)"
      by (rule triple_bind [OF processBatch_inv Suc.IH])
    with Inr show ?thesis
      by (auto intro: triple_ret elim!: triple_weaken_pre)
  qed (auto intro: triple_ret)
  from triple_bind [OF pick go] show ?case by simp
qed (simp add: triple_ret)

lemma MissionCleaner_inv:
  "triple (sweep_inv c clock d0) any (MissionCleaner_RunOnce c clock) (\<lambda>_. sweep_inv c clock d0) (sweep_inv c clock d0)"
  unfolding MissionCleaner_RunOnce_def by (rule run_batches_inv)

section \<open>Staging rows the collector spares\<close>

text \<open>The expiry the collector will act on: a zeroed one is recomputed first.\<close>

definition due :: "ttl_policy \<Rightarrow> db \<Rightarrow> staging_file \<Rightarrow> int" where
  "due p d s = (if stg_TimeExpiresMs s = 0 then compute_expires p (ref_missions (stg_StagingID s) d) s else stg_TimeExpiresMs s)"

definition spared :: "ttl_policy \<Rightarrow> int \<Rightarrow> (string \<Rightarrow> bool) \<Rightarrow> db \<Rightarrow> staging_file \<Rightarrow> bool" where
  "spared p nowMs locked d s \<longleftrightarrow>
     stg_State s \<in> {StagingPendingOutput, StagingCommitting} \<or>
     (stg_State s = StagingUploading \<and> locked (stg_StagingID s)) \<or>
     (stg_State s \<in> {StagingUploading, StagingComplete} \<and> \<not> (0 < due p d s \<and> due p d s \<le> nowMs))"

text \<open>A spared row stays, up to the recomputation of a zeroed expiry.\<close>

definition same_staging :: "ttl_policy \<Rightarrow> db \<Rightarrow> staging_file \<Rightarrow> staging_file \<Rightarrow> bool" where
  "same_staging p d s s' \<longleftrightarrow> s' = s \<or> (stg_TimeExpiresMs s = 0 \<and> s' = s\<lparr>stg_TimeExpiresMs := due p d s\<rparr>)"

definition spares :: "ttl_policy \<Rightarrow> int \<Rightarrow> (string \<Rightarrow> bool) \<Rightarrow> db \<Rightarrow> db \<Rightarrow> bool" where
  "spares p nowMs locked d0 d \<longleftrightarrow>
     missions d = missions d0 \<and> staging_refs d = staging_refs d0 \<and>
     (\<forall>s \<in> set (staging_files d0). spared p nowMs locked d0 s \<longrightarrow>
        (\<exists>s' \<in> set (staging_files d). same_staging p d0 s s'))"

lemma spares_refl: "spares p nowMs locked d d"
  by (auto simp: spares_def same_staging_def)

lemma same_staging_simps:
  assumes "same_staging p d s s'"
  shows "stg_StagingID s' = stg_StagingID s" "stg_State s' = stg_State s" "stg_Path s' = stg_Path s"
    "stg_TimeExpiresMs s' = stg_TimeExpiresMs s \<or> stg_TimeExpiresMs s' = due p d s"
    "stg_TimeExpiresMs s \<noteq> 0 \<longrightarrow> s' = s"
  using assms by (auto simp: same_staging_def)

text \<open>A statement that leaves the rows of the spared ids alone.\<close>

definition untouched :: "ttl_policy \<Rightarrow> int \<Rightarrow> (string \<Rightarrow> bool) \<Rightarrow> db \<Rightarrow> string \<Rightarrow> bool" where
  "untouched p nowMs locked d0 sid \<longleftrightarrow>
     (\<forall>s \<in> set (staging_files d0). spared p nowMs locked d0 s \<longrightarrow> stg_StagingID s \<noteq> sid)"

lemma untouched_same:
  "untouched p nowMs locked d0 sid \<Longrightarrow> s \<in> set (staging_files d0) \<Longrightarrow> spared p nowMs locked d0 s \<Longrightarrow>
   same_staging p d0 s s' \<Longrightarrow> stg_StagingID s' \<noteq> sid"
  by (metis same_staging_simps(1) untouched_def)

lemma spares_other:
  assumes "spares p nowMs locked d0 d" and "missions d' = missions d" and "staging_refs d' = staging_refs d"
    and "\<And>s s'. s \<in> set (staging_files d0) \<Longrightarrow> spared p nowMs locked d0 s \<Longrightarrow> s' \<in> set (staging_files d) \<Longrightarrow>
      same_staging p d0 s s' \<Longrightarrow> s' \<in> set (staging_files d')"
  shows "spares p nowMs locked d0 d'"
  using assms by (fastforce simp: spares_def)

definition gc_inv :: "ttl_policy \<Rightarrow> int \<Rightarrow> (string \<Rightarrow> bool) \<Rightarrow> db \<Rightarrow> world \<Rightarrow> bool" where
  "gc_inv p nowMs locked d0 w \<longleftrightarrow> fin_inv w \<and> spares p nowMs locked d0 (wd_db w)"

lemma gc_inv_step:
  assumes "gc_inv p nowMs locked d0 w" and "same_rows (wd_db w) d'" and "spares p nowMs locked d0 d'"
  shows "gc_inv p nowMs locked d0 (w\<lparr>wd_db := d'\<rparr>)"
proof -
  have "db_ok (wd_db w)" using assms(1) by (simp add: gc_inv_def fin_inv_def)
  from quiet_inv [OF _ same_rows_quiet [OF assms(2) this]] assms(1,3) show ?thesis by (simp add: gc_inv_def)
qed

lemma staging_unique:
  "db_ok d \<Longrightarrow> a \<in> set (staging_files d) \<Longrightarrow> b \<in> set (staging_files d) \<Longrightarrow> stg_StagingID a = stg_StagingID b \<Longrightarrow> a = b"
  using db_ok_keyed(3) [of d] by (meson distinct_map inj_on_eq_iff)

lemma compute_expires_cong:
  "stg_TimeCreatedMs s = stg_TimeCreatedMs t \<Longrightarrow> stg_DownloadedAt s = stg_DownloadedAt t \<Longrightarrow>
   compute_expires p ms s = compute_expires p ms t"
  by (simp add: compute_expires_def split: prod.split)

lemma recalc_spares:
  assumes "RecalcStagingTTL sid p d = Inr (x, d')" and "spares p nowMs locked d0 d" and "db_ok d"
    and zero: "\<And>s. s \<in> set (staging_files d0) \<Longrightarrow> spared p nowMs locked d0 s \<Longrightarrow> stg_StagingID s = sid \<Longrightarrow> stg_TimeExpiresMs s = 0"
  shows "spares p nowMs locked d0 d'"
proof -
  from assms(1) obtain st where st: "find_staging sid d = Some st"
    and d': "d' = set_expires sid (compute_expires p (ref_missions sid d) st) d"
    by (auto simp: RecalcStagingTTL_def GetStaging_def Let_def split: option.splits)
  from assms(2) have rows: "missions d = missions d0" "staging_refs d = staging_refs d0" by (simp_all add: spares_def)
  have refs: "ref_missions sid d = ref_missions sid d0" by (simp add: ref_missions_def rows)
  let ?e = "compute_expires p (ref_missions sid d) st"
  let ?f = "\<lambda>t. if stg_StagingID t = sid \<and> stg_State t \<in> {StagingUploading, StagingComplete}
      then t\<lparr>stg_TimeExpiresMs := ?e\<rparr> else t"
  have files: "staging_files d' = map ?f (staging_files d)"
    by (simp add: d' set_expires_def sql_update_def)
  have "same_staging p d0 s (?f s')"
    if s: "s \<in> set (staging_files d0)" "spared p nowMs locked d0 s" and s': "s' \<in> set (staging_files d)" "same_staging p d0 s s'"
    for s s'
  proof (cases "stg_StagingID s = sid")
    case False
    with same_staging_simps(1) [OF s'(2)] s' show ?thesis by simp
  next
    case True
    have "st = s'"
      using staging_unique [OF assms(3), of st s'] s'(1) st same_staging_simps(1) [OF s'(2)] True
      by (auto simp: find_staging_def dest: sql_find_Some_in)
    moreover have z: "stg_TimeExpiresMs s = 0" by (rule zero [OF s True])
    moreover have "compute_expires p (ref_missions sid d0) s' = compute_expires p (ref_missions sid d0) s"
      using s'(2) by (intro compute_expires_cong) (auto simp: same_staging_def)
    ultimately have "?e = due p d0 s" using True refs by (simp add: due_def)
    moreover have "s'\<lparr>stg_TimeExpiresMs := due p d0 s\<rparr> = s\<lparr>stg_TimeExpiresMs := due p d0 s\<rparr>"
      using s'(2) by (auto simp: same_staging_def)
    ultimately show ?thesis using s'(2) z by (simp add: same_staging_def)
  qed
  then have "\<exists>s'' \<in> set (staging_files d'). same_staging p d0 s s''"
    if "s \<in> set (staging_files d0)" "spared p nowMs locked d0 s" for s
    using that assms(2) unfolding files spares_def set_map by blast
  with rows show ?thesis by (simp add: spares_def d' set_expires_def)
qed

section \<open>The collector's passes\<close>

lemma triple_ignored:
  assumes "triple P any m (\<lambda>_. P) P"
  shows "triple P any (bindM (attempt m) (\<lambda>_. ret ())) (\<lambda>_. P) P"
  by (rule triple_bind [where Q = "\<lambda>_. P"], rule triple_attempt [where E' = P], rule assms) (simp_all add: triple_ret)

text \<open>A pass: a query whose error ends it, then one procedure per row that the query's fact justifies.\<close>

lemma triple_pass:
  assumes "\<And>w. P w \<Longrightarrow> list_all R (q (wd_db w))" and "\<And>x. R x \<Longrightarrow> triple P any (f x) (\<lambda>_. P) P"
  shows "triple P any (bindM (attempt (query (\<lambda>d. Inr (q d)))) (\<lambda>r. case r of Inl _ \<Rightarrow> ret () | Inr xs \<Rightarrow> each f xs)) (\<lambda>_. P) P"
proof -
  let ?Q = "\<lambda>r w. P w \<and> (case r of Inl _ \<Rightarrow> True | Inr xs \<Rightarrow> list_all R xs)"
  have q: "triple P any (attempt (query (\<lambda>d. Inr (q d)))) (\<lambda>r. ?Q r) P"
    by (rule triple_attempt [where E' = P], rule triple_query) (use assms(1) in auto)
  have rest: "triple (?Q r) any (case r of Inl _ \<Rightarrow> ret () | Inr xs \<Rightarrow> each f xs) (\<lambda>_. P) P" for r :: "error + 'a list"
  proof (cases r)
    case (Inr xs)
    show ?thesis
    proof (rule triple_pure [where b = "list_all R xs"])
      assume "list_all R xs"
      then have "triple P any (each f xs) (\<lambda>_. P) P" using assms(2) by (intro triple_each) (auto simp: list_all_iff)
      then have "triple (?Q r) any (each f xs) (\<lambda>_. P) P" by (rule triple_weaken_pre) simp
      with Inr show "triple (?Q r) any (case r of Inl _ \<Rightarrow> ret () | Inr xs \<Rightarrow> each f xs) (\<lambda>_. P) P" by simp
    qed (simp add: Inr)
  qed (auto intro: triple_ret)
  show ?thesis by (rule triple_bind [OF q rest])
qed

lemma gc_inv_ok: "gc_inv p nowMs locked d0 w \<Longrightarrow> db_ok (wd_db w)"
  by (simp add: gc_inv_def fin_inv_def)

lemma gc_inv_row:
  assumes "gc_inv p nowMs locked d0 w" and "s \<in> set (staging_files d0)" and "spared p nowMs locked d0 s"
    and "t \<in> set (staging_files (wd_db w))" and "stg_StagingID t = stg_StagingID s"
  shows "same_staging p d0 s t"
proof -
  from assms(1-3) obtain s' where "s' \<in> set (staging_files (wd_db w))" "same_staging p d0 s s'"
    by (auto simp: gc_inv_def spares_def)
  with staging_unique [OF gc_inv_ok [OF assms(1)]] assms(4,5) same_staging_simps(1) show ?thesis by metis
qed

lemma drain_gc:
  "triple (gc_inv (cleanup_ttl (gc_cleanup g)) nowMs locked d0) any (drainNeedsRecalc g)
     (\<lambda>_. gc_inv (cleanup_ttl (gc_cleanup g)) nowMs locked d0) (gc_inv (cleanup_ttl (gc_cleanup g)) nowMs locked d0)"
  (is "triple ?I any _ _ _")
  unfolding drainNeedsRecalc_def
proof (rule triple_pass)
  let ?p = "cleanup_ttl (gc_cleanup g)"
  let ?R = "\<lambda>sid. \<forall>s \<in> set (staging_files d0). spared ?p nowMs locked d0 s \<longrightarrow> stg_StagingID s = sid \<longrightarrow> stg_TimeExpiresMs s = 0"
  show "list_all ?R (FindStagingNeedingRecalc (batchSize g) (wd_db w))" if "?I w" for w
  proof (unfold list_all_iff, intro ballI impI)
    fix sid s
    assume "sid \<in> set (FindStagingNeedingRecalc (batchSize g) (wd_db w))"
    then obtain t where "t \<in> set (staging_files (wd_db w))" "stg_StagingID t = sid" "stg_TimeExpiresMs t = 0"
      by (auto simp: FindStagingNeedingRecalc_def Let_def split: if_splits dest!: in_set_takeD)
    moreover assume "s \<in> set (staging_files d0)" "spared ?p nowMs locked d0 s" "stg_StagingID s = sid"
    ultimately show "stg_TimeExpiresMs s = 0"
      using gc_inv_row [OF that] same_staging_simps(5) by metis
  qed
  show "triple ?I any (recalc_row (gc_cleanup g) sid) (\<lambda>_. ?I) ?I" if "?R sid" for sid
    unfolding recalc_row_def
  proof (rule triple_ignored, rule triple_tx_once)
    fix w x d'
    assume inv: "?I w" and run: "RecalcStagingTTL sid ?p (wd_db w) = Inr (x, d')"
    have "spares ?p nowMs locked d0 d'"
      by (rule recalc_spares [OF run _ gc_inv_ok [OF inv]]) (use that inv in \<open>auto simp: gc_inv_def\<close>)
    with inv same_rows_recalc [OF run] show "?I (w\<lparr>wd_db := d'\<rparr>)" by (intro gc_inv_step)
  qed simp_all
qed

lemma mark_expired_rows:
  assumes "MarkStagingDeletingIfExpired sid nowMs d = Inr ((), d')"
  shows "same_rows d d' \<and> staging_refs d' = staging_refs d \<and>
    (\<forall>s \<in> set (staging_files d). stg_StagingID s \<noteq> sid \<longrightarrow> s \<in> set (staging_files d'))"
proof (cases "d' = d")
  case False
  with assms have run: "guarded_staging sid (\<lambda>s. stg_State s \<in> {StagingUploading, StagingComplete} \<and>
      0 < stg_TimeExpiresMs s \<and> stg_TimeExpiresMs s \<le> nowMs) (\<lambda>s. s\<lparr>stg_State := StagingDeleting\<rparr>) d = Inr ((), d')"
    by (auto simp: MarkStagingDeletingIfExpired_def split: sum.splits if_splits)
  from same_rows_guarded [OF run] run show ?thesis
    by (auto simp: guarded_staging_def sql_update_def split: if_splits)
qed simp

lemma delete_rows:
  assumes "DeleteStagingWhere P d = Inr ((), d')"
  shows "same_rows d d' \<and> staging_refs d' = staging_refs d \<and>
    (\<forall>s \<in> set (staging_files d). \<not> P s \<longrightarrow> s \<in> set (staging_files d'))"
  using assms DeleteStagingWhere_db_ok [OF assms]
  by (auto simp: DeleteStagingWhere_def same_rows_def sql_delete_def split: if_splits)

text \<open>A statement that leaves in place every row other than those no spared row can be.\<close>

lemma gc_stmt:
  assumes "\<And>d d'. fn d = Inr ((), d') \<Longrightarrow> same_rows d d' \<and> staging_refs d' = staging_refs d \<and>
      (\<forall>s \<in> set (staging_files d). \<not> T s \<longrightarrow> s \<in> set (staging_files d'))"
    and "\<And>s s'. s \<in> set (staging_files d0) \<Longrightarrow> spared p nowMs locked d0 s \<Longrightarrow> same_staging p d0 s s' \<Longrightarrow> \<not> T s'"
  shows "triple (gc_inv p nowMs locked d0) any (bindM (attempt (tx_once fn)) (\<lambda>_. ret ()))
    (\<lambda>_. gc_inv p nowMs locked d0) (gc_inv p nowMs locked d0)"
proof (rule triple_ignored, rule triple_tx_once)
  fix w and x :: unit and d'
  assume inv: "gc_inv p nowMs locked d0 w" and run: "fn (wd_db w) = Inr (x, d')"
  then have r: "same_rows (wd_db w) d' \<and> staging_refs d' = staging_refs (wd_db w) \<and>
      (\<forall>s \<in> set (staging_files (wd_db w)). \<not> T s \<longrightarrow> s \<in> set (staging_files d'))"
    using assms(1) by simp
  have "spares p nowMs locked d0 d'"
    by (rule spares_other [of p nowMs locked d0 "wd_db w"])
      (use inv r assms(2) in \<open>auto simp: gc_inv_def same_rows_def\<close>)
  with inv r show "gc_inv p nowMs locked d0 (w\<lparr>wd_db := d'\<rparr>)" by (intro gc_inv_step) simp_all
qed simp_all

lemma expire_gc:
  "triple (gc_inv p nowMs locked d0) any (expireTTLs g nowMs locked) (\<lambda>_. gc_inv p nowMs locked d0) (gc_inv p nowMs locked d0)"
  (is "triple ?I any _ _ _")
  unfolding expireTTLs_def
proof (rule triple_pass)
  let ?R = "\<lambda>(sid, st). (st = StagingUploading \<and> locked sid) \<or> untouched p nowMs locked d0 sid"
  show "list_all ?R (expired_staging g nowMs (wd_db w))" if inv: "?I w" for w
  proof (unfold list_all_iff, intro ballI, clarify)
    fix sid st
    assume "(sid, st) \<in> set (expired_staging g nowMs (wd_db w))" and open': "\<not> untouched p nowMs locked d0 sid"
    then obtain t where t: "t \<in> set (staging_files (wd_db w))" "stg_StagingID t = sid" "stg_State t = st"
        "0 < stg_TimeExpiresMs t" "stg_TimeExpiresMs t \<le> nowMs" "st \<in> {StagingUploading, StagingComplete}"
      by (auto simp: expired_staging_def dest!: in_set_takeD)
    from open' obtain s where s: "s \<in> set (staging_files d0)" "spared p nowMs locked d0 s" "stg_StagingID s = sid"
      by (auto simp: untouched_def)
    from gc_inv_row [OF inv s(1,2) t(1)] t(2) s(3) have same: "same_staging p d0 s t" by simp
    have "stg_TimeExpiresMs t = due p d0 s"
      using same t(4) by (auto simp: same_staging_def due_def split: if_splits)
    with t same_staging_simps(2) [OF same] s(2,3)
    show "st = StagingUploading \<and> locked sid" by (auto simp: spared_def)
  qed
  show "triple ?I any (case x of (sid, st) \<Rightarrow> if st = StagingUploading \<and> locked sid then ret ()
      else bindM (attempt (tx_once (MarkStagingDeletingIfExpired sid nowMs))) (\<lambda>_. ret ())) (\<lambda>_. ?I) ?I" if R: "?R x" for x
  proof -
    obtain sid st where x: "x = (sid, st)" by (cases x)
    have "triple ?I any (bindM (attempt (tx_once (MarkStagingDeletingIfExpired sid nowMs))) (\<lambda>_. ret ())) (\<lambda>_. ?I) ?I"
      if "untouched p nowMs locked d0 sid"
      by (rule gc_stmt [where T = "\<lambda>s. stg_StagingID s = sid", OF mark_expired_rows untouched_same [OF that]])
    with R x show ?thesis by (auto intro: triple_ret)
  qed
qed

lemma gc_inv_files: "gc_inv p nowMs locked d0 w \<Longrightarrow> gc_inv p nowMs locked d0 (w\<lparr>wd_files := f, wd_tomb := t\<rparr>)"
  "gc_inv p nowMs locked d0 w \<Longrightarrow> gc_inv p nowMs locked d0 (w\<lparr>wd_tomb := t\<rparr>)"
  by (simp_all add: gc_inv_def fin_inv_def published_def)

lemma tombstone_gc:
  "triple (gc_inv p nowMs locked d0) any (tombstoneDeleting g now') (\<lambda>_. gc_inv p nowMs locked d0) (gc_inv p nowMs locked d0)"
  (is "triple ?I any _ _ _")
  unfolding tombstoneDeleting_def
proof (rule triple_pass)
  let ?R = "\<lambda>(sid, path :: string). untouched p nowMs locked d0 sid"
  show "list_all ?R (take (nat (batchSize g)) (map (\<lambda>s. (stg_StagingID s, stg_Path s))
         (filter (\<lambda>s. stg_State s = StagingDeleting) (staging_files (wd_db w)))))" if inv: "?I w" for w
  proof -
    have "untouched p nowMs locked d0 (stg_StagingID t)"
      if "t \<in> set (staging_files (wd_db w))" "stg_State t = StagingDeleting" for t
      unfolding untouched_def
    proof (intro ballI impI notI)
      fix s
      assume s: "s \<in> set (staging_files d0)" "spared p nowMs locked d0 s" "stg_StagingID s = stg_StagingID t"
      from same_staging_simps(2) [OF gc_inv_row [OF inv s(1,2) that(1) s(3) [symmetric]]] that(2) s(2)
      show False by (auto simp: spared_def)
    qed
    then show ?thesis by (auto simp: list_all_iff dest!: in_set_takeD)
  qed
  show "triple ?I any (tombstone_row (cl_DataDir (gc_cleanup g)) now' x) (\<lambda>_. ?I) ?I" if R: "?R x" for x
  proof -
    obtain sid path where x: "x = (sid, path)" by (cases x)
    have ex: "triple ?I any (tomb_exists sid) (\<lambda>_. ?I) ?I" "triple ?I any (src_missing q) (\<lambda>_. ?I) ?I" for q
      unfolding tomb_exists_def src_missing_def by (rule triple_effect; auto split: fate.split)+
    have mv: "triple ?I any (tombstone q sid now') (\<lambda>_. ?I) ?I" for q
      unfolding tombstone_def by (rule triple_effect) (auto simp: Let_def gc_inv_files split: fate.split)
    have del: "triple ?I any (bindM (attempt (tx_once (DeleteStagingWhere (\<lambda>s. stg_StagingID s = sid)))) (\<lambda>_. ret ())) (\<lambda>_. ?I) ?I"
      by (rule gc_stmt [where T = "\<lambda>s. stg_StagingID s = sid", OF delete_rows untouched_same])
        (use R x in simp_all)
    have inner: "triple ?I any (if there then ret () else bindM (src_missing q) (\<lambda>missing.
        if missing then bindM (attempt (tx_once (DeleteStagingWhere (\<lambda>s. stg_StagingID s = sid)))) (\<lambda>_. ret ())
        else tombstone q sid now')) (\<lambda>_. ?I) ?I" for there q
      by (auto intro!: triple_ret triple_bind [OF ex(2)] del mv)
    show ?thesis unfolding tombstone_row_def x prod.case by (rule triple_bind [OF ex(1) inner])
  qed
qed

lemma unlink_gc:
  "triple (gc_inv p nowMs locked d0) any (unlinkOldTombstones g now') (\<lambda>_. gc_inv p nowMs locked d0) (gc_inv p nowMs locked d0)"
  (is "triple ?I any _ _ _")
proof -
  have rd: "triple ?I any (attempt read_tombs) (\<lambda>_. ?I) ?I"
    unfolding read_tombs_def by (rule triple_attempt [where E' = ?I], rule triple_effect) (auto split: fate.split)
  have row: "triple ?I any (unlink_row limit e) (\<lambda>_. ?I) ?I" for limit e
  proof -
    obtain name isDir mtime where e: "e = (name, isDir, mtime)" by (cases e)
    have un: "triple ?I any (unlink_tomb name) (\<lambda>_. ?I) ?I"
      unfolding unlink_tomb_def by (rule triple_effect) (auto simp: gc_inv_files split: fate.split)
    have del: "triple ?I any (bindM (attempt (tx_once (DeleteStagingWhere (\<lambda>s. stg_StagingID s = name \<and> stg_State s = StagingDeleting)))) (\<lambda>_. ret ())) (\<lambda>_. ?I) ?I"
      by (rule gc_stmt [where T = "\<lambda>s. stg_StagingID s = name \<and> stg_State s = StagingDeleting", OF delete_rows])
        (auto simp: spared_def dest: same_staging_simps(2))
    have "triple ?I any (if gone then bindM (attempt (tx_once (DeleteStagingWhere (\<lambda>s. stg_StagingID s = name \<and> stg_State s = StagingDeleting)))) (\<lambda>_. ret ())
        else ret ()) (\<lambda>_. ?I) ?I" for gone
      using del by (auto intro: triple_ret)
    from triple_bind [OF un this] show ?thesis by (auto simp: unlink_row_def e intro: triple_ret)
  qed
  have "triple ?I any (case r of Inl _ \<Rightarrow> ret () | Inr entries \<Rightarrow> each (unlink_row limit) entries) (\<lambda>_. ?I) ?I"
    for r :: "error + (string \<times> bool \<times> int) list" and limit
    by (cases r) (auto intro: triple_ret triple_each row)
  then show ?thesis unfolding unlinkOldTombstones_def by (rule triple_bind [OF rd])
qed

lemma StagingGC_inv:
  "triple (gc_inv (cleanup_ttl (gc_cleanup g)) nowMs locked d0) any (StagingGC_RunOnce g nowMs locked)
     (\<lambda>_. gc_inv (cleanup_ttl (gc_cleanup g)) nowMs locked d0) (gc_inv (cleanup_ttl (gc_cleanup g)) nowMs locked d0)"
  unfolding StagingGC_RunOnce_def
  by (rule triple_bind [OF drain_gc triple_bind [OF expire_gc triple_bind [OF tombstone_gc unlink_gc]]])

end
