(* ===== verification/Dispatch.thy ===== *)
theory Dispatch
  imports Fingerprint Names Apply Retention
begin

text \<open>
  The dispatch endpoints \<^verbatim>\<open>POST /v1/dispatch\<close> and \<^verbatim>\<open>POST /v1/exec/dispatch\<close>
  (\<^verbatim>\<open>internal/server/handlers/dispatch.go\<close>, \<^verbatim>\<open>exec_dispatch.go\<close>): the whole handler from the
  request to its reply, on the world of the finalize protocol and the lane manager.  A reply is
  its status, its error code and its Retry-After header; messages, details, log lines and the
  fsync of directories are left out.  The body is what \<^verbatim>\<open>encoding/json\<close> makes of it.  What other
  requests and the cleaners do between the checks of a handler and its transaction is an
  argument, a function on the world.
\<close>

section \<open>Requests and replies\<close>

datatype 'a body = TooLarge | BadJSON | Body 'a

datatype reply =
    WriteError nat string "nat option"
  | WriteJSON nat string string

fun reply_status :: "reply \<Rightarrow> nat" where
  "reply_status (WriteError n _ _) = n"
| "reply_status (WriteJSON n _ _) = n"

text \<open>\<^verbatim>\<open>WriteDBError\<close> and \<^verbatim>\<open>WriteIOError\<close>; a missing file answers 410.\<close>

definition WriteDBError :: "nat \<Rightarrow> reply" where
  "WriteDBError n = WriteError n ''db_error'' None"

definition WriteIOError :: "nat \<Rightarrow> error \<Rightarrow> reply" where
  "WriteIOError n e = (if e = ErrNotFound then WriteError 410 ''gone'' None else WriteError n ''io_error'' None)"

fun status_str :: "status \<Rightarrow> string" where
  "status_str StatusQueued = ''queued''"
| "status_str StatusRunning = ''running''"
| "status_str StatusDone = ''done''"
| "status_str StatusDeleting = ''deleting''"

record file_ref =
  rf_Role :: string
  rf_StagingID :: string

record DispatchRequest =
  dr_Mission :: string
  dr_Lane :: string
  dr_Input :: "json option"
  dr_Files :: "file_ref list"
  dr_Timeout :: string

section \<open>What the handlers are given\<close>

text \<open>
  The functions of the standard library they call, the configuration, the drain flag, the last
  disk measurement and the clock.
\<close>

record handler_env =
  he_lib :: go_lib
  he_float :: float_lib
  he_sha :: "string \<Rightarrow> string"
  he_ParseDuration :: "string \<Rightarrow> int option"
  he_marshal :: "json \<Rightarrow> string"
  he_msize :: "fields \<Rightarrow> nat"
  he_now :: int
  he_IsDraining :: bool
  he_DiskUsage :: "int option"
  he_DataDir :: string
  he_MaxDataDirSize :: int
  he_MaxMissionInputSize :: int
  he_MaxQueuePerLane :: int
  he_MaxQueueTotal :: int
  he_limits :: limits
  he_ttl :: ttl_policy
  he_AllowShell :: bool
  he_MaxInputsPerExec :: int
  he_MaxOutputsPerExec :: int
  he_MaxScriptSize :: int

definition over_quota :: "handler_env \<Rightarrow> bool" where
  "over_quota H \<longleftrightarrow> he_MaxDataDirSize H > 0 \<and>
     (case he_DiskUsage H of None \<Rightarrow> False | Some n \<Rightarrow> n > he_MaxDataDirSize H)"

text \<open>\<^verbatim>\<open>parseOptionalDuration\<close>: milliseconds, \<open>Inr None\<close> for an empty text, an error for a bad or negative one.\<close>

definition parseOptionalDuration :: "handler_env \<Rightarrow> string \<Rightarrow> unit + int option" where
  "parseOptionalDuration H s =
     (if s = [] then Inr None
      else case he_ParseDuration H s of
             None \<Rightarrow> Inl ()
           | Some d \<Rightarrow> if d < 0 then Inl () else Inr (Some (milliseconds d)))"

fun firstDuplicate_from :: "string list \<Rightarrow> string list \<Rightarrow> string" where
  "firstDuplicate_from seen [] = []"
| "firstDuplicate_from seen (k # ks) = (if k \<in> set seen then k else firstDuplicate_from (k # seen) ks)"

definition firstDuplicate :: "string list \<Rightarrow> string" where
  "firstDuplicate = firstDuplicate_from []"

definition fileRoles :: "file_ref list \<Rightarrow> string list" where
  "fileRoles fs = map rf_Role fs"

section \<open>Effects of the handlers\<close>

definition others :: "(world \<Rightarrow> world) \<Rightarrow> unit proc" where
  "others g fs w = (Ret (), fs, g w)"

text \<open>\<^verbatim>\<open>os.MkdirAll\<close>; the directories themselves are not part of the world.\<close>

definition mkdirAll :: "unit proc" where
  "mkdirAll = effect (\<lambda>f w. case f of
       FCrash _ \<Rightarrow> (Crash, w)
     | FErr n \<Rightarrow> (Err (if n = 2 then ErrNotFound else ErrIO), w)
     | _ \<Rightarrow> (Ret (), w))"

text \<open>\<^verbatim>\<open>eventfile.Create\<close>: \<open>None\<close> when the file exists; a crash may come after the file was made.\<close>

definition create_events :: "string \<Rightarrow> writer option proc" where
  "create_events mid = effect (\<lambda>f w. case f of
       FErr n \<Rightarrow> (Err (if n = 2 then ErrNotFound else ErrIO), w)
     | _ \<Rightarrow>
        (case Create (wd_events w mid) of
           Inl _ \<Rightarrow> (case f of FCrash _ \<Rightarrow> Crash | _ \<Rightarrow> Ret None, w)
         | Inr ew \<Rightarrow>
             (case f of FCrash n \<Rightarrow> (Crash, if n = 0 then w else w\<lparr>wd_events := (wd_events w)(mid := Some (wr_file ew))\<rparr>)
              | _ \<Rightarrow> (Ret (Some ew), w\<lparr>wd_events := (wd_events w)(mid := Some (wr_file ew))\<rparr>))))"

definition append_line :: "(fields \<Rightarrow> nat) \<Rightarrow> string \<Rightarrow> event_kind \<Rightarrow> fields \<Rightarrow> writer \<Rightarrow> writer proc" where
  "append_line msize mid kind fs ew = effect (\<lambda>f w.
     case Append msize (write_io f) kind fs True ew of
       (r, ew') \<Rightarrow>
         (case f of FCrash _ \<Rightarrow> Crash
          | _ \<Rightarrow> (case r of Inl e \<Rightarrow> Err e | Inr _ \<Rightarrow> Ret ew'),
          w\<lparr>wd_events := (wd_events w)(mid := Some (wr_file ew'))\<rparr>))"

definition cleanupOrphanMissionFiles :: "string \<Rightarrow> string \<Rightarrow> string \<Rightarrow> unit proc" where
  "cleanupOrphanMissionFiles dataDir outDir mid =
     bindM (remove_events mid) (\<lambda>_.
     bindM (each (\<lambda>sfx. remove (path_join outDir (mid @ sfx))) [''-stdout'', ''-stderr'', ''-combined'']) (\<lambda>_.
     remove_all (path_join (path_join dataDir ''work'') mid)))"

definition output_dir :: "string \<Rightarrow> string \<Rightarrow> string" where
  "output_dir dataDir mid =
     path_join (path_join dataDir ''output'') (case ShardPath mid of Inl _ \<Rightarrow> [] | Inr s \<Rightarrow> s)"

text \<open>
  The events file is made before the row: an existing one is an orphan of a crash, removed
  once.  The queued event is appended and synced; if that fails the file is removed again.
\<close>

definition open_queued :: "handler_env \<Rightarrow> string \<Rightarrow> (reply + writer) proc" where
  "open_queued H mid =
     bindM (attempt (create_events mid)) (\<lambda>r.
       case r of
         Inl e \<Rightarrow> ret (Inl (WriteIOError 500 e))
       | Inr (Some ew) \<Rightarrow> ret (Inr ew)
       | Inr None \<Rightarrow>
           bindM (cleanupOrphanMissionFiles (he_DataDir H) (output_dir (he_DataDir H) mid) mid) (\<lambda>_.
           bindM (attempt (create_events mid)) (\<lambda>r2.
             case r2 of
               Inl e \<Rightarrow> ret (Inl (WriteIOError 500 e))
             | Inr (Some ew) \<Rightarrow> ret (Inr ew)
             | Inr None \<Rightarrow> ret (Inl (WriteIOError 500 ErrIO)))))"

definition write_queued :: "handler_env \<Rightarrow> string \<Rightarrow> fields \<Rightarrow> (reply + unit) proc" where
  "write_queued H mid fs =
     bindM (attempt mkdirAll) (\<lambda>r.
       case r of
         Inl e \<Rightarrow> ret (Inl (WriteIOError 500 e))
       | Inr _ \<Rightarrow>
           bindM (open_queued H mid) (\<lambda>opened.
             case opened of
               Inl rep \<Rightarrow> ret (Inl rep)
             | Inr ew \<Rightarrow>
                 bindM (attempt (append_line (he_msize H) mid KindQueued fs (SetLimits (he_limits H) ew))) (\<lambda>a.
                   case a of
                     Inl e \<Rightarrow> bindM (remove_events mid) (\<lambda>_. ret (Inl (WriteIOError 500 e)))
                   | Inr _ \<Rightarrow> ret (Inr ()))))"

section \<open>The transaction\<close>

definition seq_stmt :: "unit stmt \<Rightarrow> unit stmt \<Rightarrow> unit stmt" where
  "seq_stmt a b d = (case a d of Inl e \<Rightarrow> Inl e | Inr (_, d') \<Rightarrow> b d')"

definition guard_stmt :: "(db \<Rightarrow> bool) \<Rightarrow> error \<Rightarrow> unit stmt" where
  "guard_stmt P e d = (if P d then Inr ((), d) else Inl e)"

definition recalc_stmt :: "ttl_policy \<Rightarrow> string \<Rightarrow> unit stmt" where
  "recalc_stmt p sid d = (case RecalcStagingTTL sid p d of Inl e \<Rightarrow> Inl e | Inr (_, d') \<Rightarrow> Inr ((), d'))"

definition is_complete :: "string \<Rightarrow> db \<Rightarrow> bool" where
  "is_complete sid d = (case find_staging sid d of None \<Rightarrow> False | Some s \<Rightarrow> stg_State s = StagingComplete)"

text \<open>A row as the handlers insert it, every column they do not set at its zero value.\<close>

definition queued_row :: "string \<Rightarrow> kind \<Rightarrow> string \<Rightarrow> string \<Rightarrow> string \<Rightarrow> string \<Rightarrow> int \<Rightarrow> int option \<Rightarrow> mission" where
  "queued_row mid kind lane name input fp nowMs timeoutMs =
     \<lparr>msn_ID = mid, msn_Kind = kind, msn_Lane = lane, msn_MissionName = name, msn_DisplayName = None,
      msn_GroupID = None, msn_Status = StatusQueued, msn_Outcome = None, msn_FailReason = None,
      msn_FailMessage = None, msn_FailDetails = None, msn_ExitCode = None, msn_Signal = None,
      msn_PID = None, msn_PGID = None, msn_ProcStarttime = None, msn_Input = input,
      msn_InputFingerprint = fp, msn_ReturnValue = None, msn_TruncatedStdout = False,
      msn_TruncatedStderr = False, msn_TimeCreatedMs = nowMs, msn_TimeStartedMs = None,
      msn_TimeFinishedMs = None, msn_TimeoutMs = timeoutMs, msn_RestartedFrom = None\<rparr>"

definition insert_refs :: "staging_ref list \<Rightarrow> unit stmt" where
  "insert_refs rs = each_stmt InsertRef rs"

definition runtime_of :: "handler_env \<Rightarrow> string \<Rightarrow> AppliedState \<Rightarrow> runtime_row" where
  "runtime_of H mid s =
     \<lparr>rt_MissionID = mid, rt_MissionDir = as_MissionDir s,
      rt_CommandTemplate = he_marshal H (strs_json (ru_CommandTemplate (as_Runtime s))),
      rt_MissionPathTemplate = ru_MissionPathTemplate (as_Runtime s),
      rt_ValidateMissionFile = ru_ValidateMissionFile (as_Runtime s)\<rparr>"

definition input_ref :: "string \<Rightarrow> FileRef \<Rightarrow> staging_ref" where
  "input_ref mid f = \<lparr>ref_MissionID = mid, ref_StagingID = fr_StagingID f, ref_RefKind = RefInput, ref_Role = fr_Role f\<rparr>"

text \<open>
  The checks made again under the writer lock (no such row yet, the lane not being removed, the
  staged files still complete), then the row, its refs, its runtime snapshot and the expiry of
  the staged files.
\<close>

definition dispatch_tx :: "handler_env \<Rightarrow> bool \<Rightarrow> mission \<Rightarrow> FileRef list \<Rightarrow> AppliedState \<Rightarrow> unit stmt" where
  "dispatch_tx H removing m files applied =
     seq_stmt (guard_stmt (\<lambda>d. find_mission (msn_ID m) d = None) ErrMissionCollision)
    (seq_stmt (guard_stmt (\<lambda>_. \<not> removing) ErrLaneRemovingInTx)
    (seq_stmt (guard_stmt (\<lambda>d. list_all (\<lambda>f. is_complete (fr_StagingID f) d) files) ErrStagingRefMissedInTx)
    (seq_stmt (InsertMission m)
    (seq_stmt (insert_refs (map (input_ref (msn_ID m)) files))
    (seq_stmt (InsertRuntime (runtime_of H (msn_ID m) applied))
      (each_stmt (\<lambda>f. recalc_stmt (he_ttl H) (fr_StagingID f)) files))))))"

section \<open>POST /v1/dispatch\<close>

text \<open>The checks on the request alone.\<close>

definition dispatch_gates :: "handler_env \<Rightarrow> string \<Rightarrow> DispatchRequest body \<Rightarrow> reply + DispatchRequest" where
  "dispatch_gates H key body =
     (if he_IsDraining H then Inl (WriteError 503 ''draining'' (Some 30))
      else if over_quota H then Inl (WriteError 503 ''disk_quota_exceeded'' (Some 30))
      else if \<not> ValidateUUIDv7 key then Inl (WriteError 400 ''bad_request'' None)
      else case body of
             TooLarge \<Rightarrow> Inl (WriteError 413 ''payload_too_large'' None)
           | BadJSON \<Rightarrow> Inl (WriteError 400 ''bad_request'' None)
           | Body req \<Rightarrow>
               if \<not> ValidateMissionName (dr_Mission req) \<or> \<not> ValidateLaneName (dr_Lane req)
               then Inl (WriteError 400 ''bad_request'' None)
               else Inr req)"

text \<open>The canonical input, \<^verbatim>\<open>null\<close> when it is absent, and the timeout.\<close>

definition dispatch_input :: "handler_env \<Rightarrow> DispatchRequest \<Rightarrow> reply + string \<times> int option" where
  "dispatch_input H req =
     (case (case dr_Input req of None \<Rightarrow> Some ''null'' | Some v \<Rightarrow> CanonicalizeInput (he_float H) v) of
        None \<Rightarrow> Inl (WriteError 400 ''bad_request'' None)
      | Some c \<Rightarrow>
          (case parseOptionalDuration H (dr_Timeout req) of
             Inl _ \<Rightarrow> Inl (WriteError 400 ''bad_request'' None)
           | Inr t \<Rightarrow> Inr (c, t)))"

datatype resolve_error = RefMalformed | RefUnavailable

fun resolveStagingMetadata :: "handler_env \<Rightarrow> file_ref list \<Rightarrow> (resolve_error + FileRef list) proc" where
  "resolveStagingMetadata H [] = ret (Inr [])"
| "resolveStagingMetadata H (f # fs) =
     (if ValidateRoleKey (he_lib H) (rf_Role f) \<noteq> None \<or> \<not> ValidateUUIDv7 (rf_StagingID f)
      then ret (Inl RefMalformed)
      else bindM (attempt (query (GetStaging (rf_StagingID f)))) (\<lambda>r.
             case r of
               Inl _ \<Rightarrow> ret (Inl RefUnavailable)
             | Inr st \<Rightarrow>
                 if stg_State st \<noteq> StagingComplete then ret (Inl RefUnavailable)
                 else bindM (resolveStagingMetadata H fs) (\<lambda>q.
                        ret (case q of
                               Inl e \<Rightarrow> Inl e
                             | Inr out \<Rightarrow> Inr (\<lparr>fr_Role = rf_Role f, fr_StagingID = rf_StagingID f,
                                   fr_Sha256 = stg_Sha256 st, fr_Size = stg_Size st\<rparr> # out)))))"

text \<open>A retry whose staged files are gone is answered from the stored row alone.\<close>

definition replay_unavailable :: "string \<Rightarrow> reply proc" where
  "replay_unavailable mid =
     bindM (attempt (query (GetMission mid))) (\<lambda>r.
       ret (case r of
              Inr m \<Rightarrow>
                if msn_Status m = StatusDeleting then WriteError 410 ''mission_deleting'' None
                else WriteJSON 200 mid (status_str (msn_Status m))
            | Inl e \<Rightarrow>
                if e = ErrNotFound then WriteError 400 ''unknown_staging_ref'' None else WriteDBError 500))"

definition replay_reply :: "string \<Rightarrow> string \<Rightarrow> mission \<Rightarrow> reply" where
  "replay_reply mid fp m =
     (if msn_InputFingerprint m = fp \<and> msn_Status m \<noteq> StatusDeleting then WriteJSON 200 mid (status_str (msn_Status m))
      else if msn_InputFingerprint m = fp then WriteError 410 ''mission_deleting'' None
      else WriteError 409 ''idempotency_conflict'' None)"

definition readApplied :: "AppliedState option proc" where
  "readApplied =
     bindM (attempt (query GetAppliedConfig)) (\<lambda>r.
       ret (case r of
              Inl _ \<Rightarrow> None
            | Inr c \<Rightarrow> (case unmarshal_state c of Inl _ \<Rightarrow> None | Inr s \<Rightarrow> Some s)))"

text \<open>Readiness: applied lanes, the lane among them and not being removed.\<close>

definition lane_ready :: "manager \<Rightarrow> string \<Rightarrow> (reply + AppliedState) proc" where
  "lane_ready mg lane =
     bindM readApplied (\<lambda>a.
       ret (case a of
              None \<Rightarrow> Inl (WriteError 412 ''no_lanes_configured'' None)
            | Some s \<Rightarrow>
                if as_Lanes s = [] then Inl (WriteError 412 ''no_lanes_configured'' None)
                else if map_of (as_Lanes s) lane = None then Inl (WriteError 400 ''unknown_lane'' None)
                else if IsLaneRemoving lane mg then Inl (WriteError 503 ''lane_removing'' (Some 5))
                else Inr s))"

text \<open>The queue limits; a count that fails is taken as zero.\<close>

definition count_live :: "(mission \<Rightarrow> bool) \<Rightarrow> int proc" where
  "count_live P =
     bindM (attempt (query (\<lambda>d. Inr (int (length (filter (\<lambda>m. P m \<and> unfinished m) (missions d))))))) (\<lambda>r.
       ret (case r of Inl _ \<Rightarrow> 0 | Inr n \<Rightarrow> n))"

definition backpressure :: "handler_env \<Rightarrow> string \<Rightarrow> reply option proc" where
  "backpressure H lane =
     bindM (if he_MaxQueuePerLane H > 0 then count_live (\<lambda>m. msn_Lane m = lane) else ret 0) (\<lambda>n.
       if he_MaxQueuePerLane H > 0 \<and> n \<ge> he_MaxQueuePerLane H
       then ret (Some (WriteError 503 ''queue_full'' (Some 5)))
       else bindM (if he_MaxQueueTotal H > 0 then count_live (\<lambda>_. True) else ret 0) (\<lambda>t.
              ret (if he_MaxQueueTotal H > 0 \<and> t \<ge> he_MaxQueueTotal H
                   then Some (WriteError 503 ''queue_full'' (Some 5)) else None)))"

definition queued_fields :: "string \<Rightarrow> int \<Rightarrow> string \<Rightarrow> string \<Rightarrow> fields" where
  "queued_fields mid nowMs lane name =
     [(''mission_id'', JStr mid), (''time_created'', JInt nowMs), (''lane'', JStr lane), (''mission'', JStr name)]"

definition insert_error_reply :: "error \<Rightarrow> reply" where
  "insert_error_reply e =
     (if e = ErrStagingRefMissedInTx then WriteError 400 ''unknown_staging_ref'' None
      else if e = ErrLaneRemovingInTx then WriteError 503 ''lane_removing'' (Some 5)
      else WriteDBError 500)"

text \<open>File first, then the row; \<open>mg\<close> is the manager as the transaction sees it.\<close>

definition dispatch_commit ::
  "handler_env \<Rightarrow> (world \<Rightarrow> world) \<Rightarrow> manager \<Rightarrow> mission \<Rightarrow> FileRef list \<Rightarrow> AppliedState \<Rightarrow> (reply \<times> manager) proc" where
  "dispatch_commit H g mg m files applied =
     bindM (write_queued H (msn_ID m) (queued_fields (msn_ID m) (he_now H) (msn_Lane m) (msn_MissionName m))) (\<lambda>q.
       case q of
         Inl rep \<Rightarrow> ret (rep, mg)
       | Inr _ \<Rightarrow>
           bindM (others g) (\<lambda>_.
           bindM (attempt (tx_once (dispatch_tx H (IsLaneRemoving (msn_Lane m) mg) m files applied))) (\<lambda>r.
             case r of
               Inl e \<Rightarrow>
                 bindM (cleanupOrphanMissionFiles (he_DataDir H) (output_dir (he_DataDir H) (msn_ID m)) (msn_ID m)) (\<lambda>_.
                   ret (insert_error_reply e, mg))
             | Inr _ \<Rightarrow> ret (WriteJSON 202 (msn_ID m) ''queued'', manager_Notify (msn_Lane m) mg))))"

text \<open>From the resolved files on: fingerprint, replay, input size, readiness, queue limits.\<close>

definition dispatch_new ::
  "handler_env \<Rightarrow> (world \<Rightarrow> world) \<Rightarrow> manager \<Rightarrow> manager \<Rightarrow> string \<Rightarrow> DispatchRequest \<Rightarrow> string \<Rightarrow> int option \<Rightarrow>
   FileRef list \<Rightarrow> string \<Rightarrow> (reply \<times> manager) proc" where
  "dispatch_new H g mg mg' mid req canonInput timeoutMs files fp =
     (if int (length canonInput) > he_MaxMissionInputSize H then ret (WriteError 413 ''payload_too_large'' None, mg')
      else bindM (lane_ready mg (dr_Lane req)) (\<lambda>a.
             case a of
               Inl rep \<Rightarrow> ret (rep, mg')
             | Inr applied \<Rightarrow>
                 bindM (backpressure H (dr_Lane req)) (\<lambda>b.
                   case b of
                     Some rep \<Rightarrow> ret (rep, mg')
                   | None \<Rightarrow>
                       dispatch_commit H g mg'
                         (queued_row mid KindMission (dr_Lane req) (dr_Mission req) canonInput fp (he_now H) timeoutMs)
                         files applied)))"

definition dispatch_resolved ::
  "handler_env \<Rightarrow> (world \<Rightarrow> world) \<Rightarrow> manager \<Rightarrow> manager \<Rightarrow> string \<Rightarrow> DispatchRequest \<Rightarrow> string \<Rightarrow> int option \<Rightarrow>
   FileRef list \<Rightarrow> (reply \<times> manager) proc" where
  "dispatch_resolved H g mg mg' mid req canonInput timeoutMs files =
     (if firstDuplicate (fileRoles (dr_Files req)) \<noteq> [] then ret (WriteError 400 ''duplicate_role'' None, mg')
      else case Mission (he_float H) (he_sha H)
                  \<lparr>mi_Lane = dr_Lane req, mi_Mission = dr_Mission req, mi_InputCanonical = canonInput,
                   mi_TimeoutMs = timeoutMs, mi_Files = files\<rparr> of
             None \<Rightarrow> ret (WriteError 500 ''internal'' None, mg')
           | Some fp \<Rightarrow>
               bindM (attempt (query (GetMission mid))) (\<lambda>r.
                 case r of
                   Inr m \<Rightarrow> ret (replay_reply mid fp m, mg')
                 | Inl e \<Rightarrow>
                     if e \<noteq> ErrNotFound then ret (WriteDBError 500, mg')
                     else dispatch_new H g mg mg' mid req canonInput timeoutMs files fp))"

definition Dispatch ::
  "handler_env \<Rightarrow> (world \<Rightarrow> world) \<Rightarrow> manager \<Rightarrow> manager \<Rightarrow> string \<Rightarrow> DispatchRequest body \<Rightarrow> (reply \<times> manager) proc" where
  "Dispatch H g mg mg' key body =
     (case dispatch_gates H key body of
        Inl rep \<Rightarrow> ret (rep, mg')
      | Inr req \<Rightarrow>
          (case dispatch_input H req of
             Inl rep \<Rightarrow> ret (rep, mg')
           | Inr (canonInput, timeoutMs) \<Rightarrow>
               bindM (resolveStagingMetadata H (dr_Files req)) (\<lambda>r.
                 case r of
                   Inl RefMalformed \<Rightarrow> ret (WriteError 400 ''bad_request'' None, mg')
                 | Inl RefUnavailable \<Rightarrow> bindM (replay_unavailable key) (\<lambda>rep. ret (rep, mg'))
                 | Inr files \<Rightarrow> dispatch_resolved H g mg mg' key req canonInput timeoutMs files)))"

end
