(* ===== verification/ExecDispatch.thy ===== *)
theory ExecDispatch
  imports Dispatch
begin

text \<open>
  \<^verbatim>\<open>POST /v1/exec/dispatch\<close> (\<^verbatim>\<open>internal/server/handlers/exec_dispatch.go\<close>): the numbered steps of
  the handler in order, with the effects of the dispatch endpoint.  The audit line is left out.
\<close>

section \<open>Requests\<close>

record exec_file_ref =
  xf_Key :: string
  xf_StagingID :: string

record ExecRequest =
  xr_Lane :: string
  xr_Command :: "string list"
  xr_Script :: "string option"
  xr_In :: "exec_file_ref list"
  xr_Out :: "string list"
  xr_Stdin :: string
  xr_StdinStagingID :: string
  xr_Timeout :: string
  xr_GroupID :: string
  xr_DisplayName :: string

definition execInKeys :: "exec_file_ref list \<Rightarrow> string list" where
  "execInKeys fs = map xf_Key fs"

definition validStdinModes :: "string list" where
  "validStdinModes = ['''', ''none'', ''single'', ''broadcast'']"

text \<open>\<^verbatim>\<open>json.Marshal\<close> of the request, the stored input.\<close>

definition exec_json :: "ExecRequest \<Rightarrow> json" where
  "exec_json r = JObj
     ([(''lane'', JStr (xr_Lane r)), (''command'', JArr (map JStr (xr_Command r)))] @
      (case xr_Script r of None \<Rightarrow> [] | Some s \<Rightarrow> [(''script'', JObj [(''staging_id'', JStr s)])]) @
      (if xr_In r = [] then [] else
         [(''in'', JArr (map (\<lambda>f. JObj [(''key'', JStr (xf_Key f)), (''staging_id'', JStr (xf_StagingID f))]) (xr_In r)))]) @
      (if xr_Out r = [] then [] else [(''out'', JArr (map (\<lambda>k. JObj [(''key'', JStr k)]) (xr_Out r)))]) @
      (if xr_Stdin r = [] then [] else [(''stdin'', JStr (xr_Stdin r))]) @
      (if xr_StdinStagingID r = [] then [] else [(''stdin_staging_id'', JStr (xr_StdinStagingID r))]) @
      (if xr_Timeout r = [] then [] else [(''timeout'', JStr (xr_Timeout r))]) @
      (if xr_GroupID r = [] then [] else [(''group_id'', JStr (xr_GroupID r))]) @
      (if xr_DisplayName r = [] then [] else [(''display_name'', JStr (xr_DisplayName r))]))"

section \<open>Steps 0 to 13\<close>

abbreviation bad_request :: "reply" where
  "bad_request \<equiv> WriteError 400 ''bad_request'' None"

text \<open>Steps 5 to 10: keys, duplicates, counts and the shell guard.\<close>

definition exec_key_checks :: "handler_env \<Rightarrow> ExecRequest \<Rightarrow> reply option" where
  "exec_key_checks H req =
     (if list_ex (\<lambda>k. ValidateRoleKey (he_lib H) k \<noteq> None) (execInKeys (xr_In req) @ xr_Out req)
      then Some (WriteError 400 ''invalid_key'' None)
      else if firstDuplicate (execInKeys (xr_In req)) \<noteq> [] \<or> firstDuplicate (xr_Out req) \<noteq> []
      then Some (WriteError 400 ''duplicate_key'' None)
      else if (he_MaxInputsPerExec H > 0 \<and> int (length (xr_In req)) > he_MaxInputsPerExec H) \<or>
              (he_MaxOutputsPerExec H > 0 \<and> int (length (xr_Out req)) > he_MaxOutputsPerExec H)
      then Some (WriteError 400 ''too_many_files'' None)
      else if \<not> he_AllowShell H \<and> IsShellForm (xr_Command req)
      then Some (WriteError 400 ''shell_form_disabled'' None)
      else None)"

text \<open>Steps 11 and 12: the stdin mode and the form of the staging ids.\<close>

definition exec_stdin_checks :: "ExecRequest \<Rightarrow> reply option" where
  "exec_stdin_checks req =
     (let mode = (if xr_Stdin req = [] then ''none'' else xr_Stdin req)
      in if xr_Stdin req \<notin> set validStdinModes then Some bad_request
         else if mode = ''none'' \<and> xr_StdinStagingID req \<noteq> [] then Some bad_request
         else if mode \<noteq> ''none'' \<and> xr_StdinStagingID req = [] then Some bad_request
         else if mode \<noteq> ''none'' \<and> \<not> ValidateUUIDv7 (xr_StdinStagingID req)
         then Some (WriteError 400 ''invalid_staging_id'' None)
         else if (case xr_Script req of None \<Rightarrow> False | Some s \<Rightarrow> \<not> ValidateUUIDv7 s)
         then Some (WriteError 400 ''invalid_staging_id'' None)
         else if list_ex (\<lambda>f. \<not> ValidateUUIDv7 (xf_StagingID f)) (xr_In req)
         then Some (WriteError 400 ''invalid_staging_id'' None)
         else None)"

definition exec_name_checks :: "ExecRequest \<Rightarrow> bool" where
  "exec_name_checks req \<longleftrightarrow>
     (xr_GroupID req = [] \<or> ValidateUUIDv7 (xr_GroupID req)) \<and> length (xr_DisplayName req) \<le> 256 \<and>
     list_all (\<lambda>b. 32 \<le> (of_char b :: nat) \<and> (of_char b :: nat) \<noteq> 127) (xr_DisplayName req)"

text \<open>All checks on the request alone, with the timeout they yield.\<close>

definition exec_gates :: "handler_env \<Rightarrow> string \<Rightarrow> ExecRequest body \<Rightarrow> reply + ExecRequest \<times> int option" where
  "exec_gates H key body =
     (if he_IsDraining H then Inl (WriteError 503 ''draining'' (Some 30))
      else if over_quota H then Inl (WriteError 503 ''disk_quota_exceeded'' (Some 30))
      else if \<not> ValidateUUIDv7 key then Inl bad_request
      else case body of
             TooLarge \<Rightarrow> Inl (WriteError 413 ''payload_too_large'' None)
           | BadJSON \<Rightarrow> Inl bad_request
           | Body req \<Rightarrow>
               if xr_Lane req = [] \<or> xr_Command req = [] then Inl bad_request
               else case exec_key_checks H req of
                      Some rep \<Rightarrow> Inl rep
                    | None \<Rightarrow>
                        (case exec_stdin_checks req of
                           Some rep \<Rightarrow> Inl rep
                         | None \<Rightarrow>
                             (case parseOptionalDuration H (xr_Timeout req) of
                                Inl _ \<Rightarrow> Inl bad_request
                              | Inr t \<Rightarrow> if exec_name_checks req then Inr (req, t) else Inl bad_request)))"

section \<open>Staging metadata and fingerprint\<close>

text \<open>Every staging id of the request once: script, inputs, stdin.\<close>

definition exec_ids :: "ExecRequest \<Rightarrow> string list" where
  "exec_ids req =
     (case xr_Script req of None \<Rightarrow> [] | Some s \<Rightarrow> [s]) @ map xf_StagingID (xr_In req) @
     (if xr_StdinStagingID req = [] then [] else [xr_StdinStagingID req])"

type_synonym staging_meta = "(string \<times> staging_file) list"

fun fetch_loop :: "string list \<Rightarrow> staging_meta \<Rightarrow> (reply + staging_meta) proc" where
  "fetch_loop [] out = ret (Inr out)"
| "fetch_loop (i # is) out =
     (if map_of out i \<noteq> None then fetch_loop is out
      else bindM (attempt (query (GetStaging i))) (\<lambda>r.
             case r of
               Inl e \<Rightarrow> ret (Inl (if e = ErrNotFound then WriteError 400 ''unknown_staging_ref'' None
                                 else WriteError 500 ''internal'' None))
             | Inr st \<Rightarrow>
                 if stg_State st \<noteq> StagingComplete then ret (Inl (WriteError 400 ''unknown_staging_ref'' None))
                 else fetch_loop is (out @ [(i, st)])))"

definition fetchStagingMeta :: "ExecRequest \<Rightarrow> (reply + staging_meta) proc" where
  "fetchStagingMeta req = fetch_loop (exec_ids req) []"

definition computeExecFingerprint :: "handler_env \<Rightarrow> ExecRequest \<Rightarrow> staging_meta \<Rightarrow> int option \<Rightarrow> string option" where
  "computeExecFingerprint H req meta timeoutMs =
     Exec (he_float H) (he_sha H)
       \<lparr>ei_Lane = xr_Lane req, ei_Command = xr_Command req,
        ei_Script = map_option (\<lambda>s. (s, case map_of meta s of None \<Rightarrow> [] | Some st \<Rightarrow> stg_Sha256 st)) (xr_Script req),
        ei_In = map (\<lambda>f. \<lparr>ef_Key = xf_Key f, ef_StagingID = xf_StagingID f,
                   ef_Sha256 = (case map_of meta (xf_StagingID f) of None \<Rightarrow> [] | Some st \<Rightarrow> stg_Sha256 st),
                   ef_Size = (case map_of meta (xf_StagingID f) of None \<Rightarrow> 0 | Some st \<Rightarrow> stg_Size st)\<rparr>) (xr_In req),
        ei_Out = xr_Out req, ei_Stdin = xr_Stdin req, ei_StdinStagingID = xr_StdinStagingID req,
        ei_TimeoutMs = timeoutMs, ei_GroupID = xr_GroupID req, ei_DisplayName = xr_DisplayName req\<rparr>"

definition script_too_large :: "handler_env \<Rightarrow> ExecRequest \<Rightarrow> staging_meta \<Rightarrow> bool" where
  "script_too_large H req meta \<longleftrightarrow>
     (case xr_Script req of
        None \<Rightarrow> False
      | Some s \<Rightarrow> he_MaxScriptSize H > 0 \<and>
          (case map_of meta s of None \<Rightarrow> False | Some st \<Rightarrow> stg_Size st > he_MaxScriptSize H))"

section \<open>The transaction and the handler\<close>

definition exec_row :: "handler_env \<Rightarrow> string \<Rightarrow> ExecRequest \<Rightarrow> string \<Rightarrow> int option \<Rightarrow> mission" where
  "exec_row H mid req fp timeoutMs =
     (queued_row mid KindExec (xr_Lane req) ''exec'' (he_marshal H (exec_json req)) fp (he_now H) timeoutMs)
       \<lparr>msn_DisplayName := nullStr (xr_DisplayName req), msn_GroupID := nullStr (xr_GroupID req)\<rparr>"

definition exec_refs :: "string \<Rightarrow> ExecRequest \<Rightarrow> staging_ref list" where
  "exec_refs mid req =
     (case xr_Script req of None \<Rightarrow> []
      | Some s \<Rightarrow> [\<lparr>ref_MissionID = mid, ref_StagingID = s, ref_RefKind = RefScript, ref_Role = []\<rparr>]) @
     map (\<lambda>f. \<lparr>ref_MissionID = mid, ref_StagingID = xf_StagingID f, ref_RefKind = RefInput, ref_Role = xf_Key f\<rparr>) (xr_In req) @
     (if xr_StdinStagingID req = [] then []
      else [\<lparr>ref_MissionID = mid, ref_StagingID = xr_StdinStagingID req, ref_RefKind = RefInput, ref_Role = ''__stdin__''\<rparr>])"

definition exec_tx :: "handler_env \<Rightarrow> mission \<Rightarrow> staging_ref list \<Rightarrow> string list \<Rightarrow> unit stmt" where
  "exec_tx H m refs sids =
     seq_stmt (guard_stmt (\<lambda>d. find_mission (msn_ID m) d = None) ErrMissionCollision)
    (seq_stmt (guard_stmt (\<lambda>d. list_all (\<lambda>s. is_complete s d) sids) ErrStagingRefMissedInTx)
    (seq_stmt (InsertMission m)
    (seq_stmt (insert_refs refs)
      (each_stmt (recalc_stmt (he_ttl H)) sids))))"

definition exec_fields :: "string \<Rightarrow> int \<Rightarrow> string \<Rightarrow> fields" where
  "exec_fields mid nowMs lane = [(''mission_id'', JStr mid), (''time_created'', JInt nowMs), (''lane'', JStr lane)]"

definition exec_commit ::
  "handler_env \<Rightarrow> (world \<Rightarrow> world) \<Rightarrow> manager \<Rightarrow> mission \<Rightarrow> staging_ref list \<Rightarrow> string list \<Rightarrow> (reply \<times> manager) proc" where
  "exec_commit H g mg m refs sids =
     bindM (write_queued H (msn_ID m) (exec_fields (msn_ID m) (he_now H) (msn_Lane m))) (\<lambda>q.
       case q of
         Inl rep \<Rightarrow> ret (rep, mg)
       | Inr _ \<Rightarrow>
           bindM (others g) (\<lambda>_.
           bindM (attempt (tx_once (exec_tx H m refs sids))) (\<lambda>r.
             case r of
               Inl e \<Rightarrow> bindM (remove_events (msn_ID m)) (\<lambda>_. ret (insert_error_reply e, mg))
             | Inr _ \<Rightarrow> ret (WriteJSON 202 (msn_ID m) ''queued'', manager_Notify (msn_Lane m) mg))))"

definition exec_new ::
  "handler_env \<Rightarrow> (world \<Rightarrow> world) \<Rightarrow> manager \<Rightarrow> manager \<Rightarrow> string \<Rightarrow> ExecRequest \<Rightarrow> int option \<Rightarrow> staging_meta \<Rightarrow>
   string \<Rightarrow> (reply \<times> manager) proc" where
  "exec_new H g mg mg' mid req timeoutMs meta fp =
     bindM (attempt (query (GetMission mid))) (\<lambda>r.
       case r of
         Inr m \<Rightarrow> ret (replay_reply mid fp m, mg')
       | Inl e \<Rightarrow>
           if e \<noteq> ErrNotFound then ret (WriteError 500 ''internal'' None, mg')
           else bindM (lane_ready mg (xr_Lane req)) (\<lambda>a.
                  case a of
                    Inl rep \<Rightarrow> ret (rep, mg')
                  | Inr _ \<Rightarrow> exec_commit H g mg' (exec_row H mid req fp timeoutMs) (exec_refs mid req) (map fst meta)))"

definition ExecDispatch ::
  "handler_env \<Rightarrow> (world \<Rightarrow> world) \<Rightarrow> manager \<Rightarrow> manager \<Rightarrow> string \<Rightarrow> ExecRequest body \<Rightarrow> (reply \<times> manager) proc" where
  "ExecDispatch H g mg mg' key body =
     (case exec_gates H key body of
        Inl rep \<Rightarrow> ret (rep, mg')
      | Inr (req, timeoutMs) \<Rightarrow>
          bindM (fetchStagingMeta req) (\<lambda>r.
            case r of
              Inl rep \<Rightarrow> ret (rep, mg')
            | Inr meta \<Rightarrow>
                if script_too_large H req meta then ret (WriteError 400 ''script_too_large'' None, mg')
                else case computeExecFingerprint H req meta timeoutMs of
                       None \<Rightarrow> ret (WriteError 500 ''internal'' None, mg')
                     | Some fp \<Rightarrow> exec_new H g mg mg' key req timeoutMs meta fp))"

end
