(* ===== verification/Enqueue.thy ===== *)
theory Enqueue
  imports ExecDispatch
begin

text \<open>
  What the handlers that queue a mission have in common: the transaction adds exactly one row
  with its references and keeps its staged files from the collector, the events file with its
  queued event is there before the row is, and whatever fails before the transaction commits
  leaves the database as it was.
\<close>

section \<open>Sequenced statements\<close>

lemma seq_stmt_Inr: "seq_stmt a b d = Inr (u, d') \<longleftrightarrow> (\<exists>d1. a d = Inr ((), d1) \<and> b d1 = Inr (u, d'))"
  by (auto simp: seq_stmt_def split: sum.splits)

lemma guard_stmt_Inr: "guard_stmt P e d = Inr (u, d') \<longleftrightarrow> P d \<and> d' = d"
  by (auto simp: guard_stmt_def)

lemmas stmt_Inr = seq_stmt_Inr guard_stmt_Inr

lemma each_stmt_Cons_Inr:
  "each_stmt st (x # xs) d = Inr (u, d') \<longleftrightarrow> (\<exists>d1. st x d = Inr ((), d1) \<and> each_stmt st xs d1 = Inr (u, d'))"
  by (auto split: sum.splits)

lemma each_stmt_map: "each_stmt st (map f xs) d = each_stmt (\<lambda>x. st (f x)) xs d"
  by (induction xs arbitrary: d) (simp_all split: sum.split)

lemma InsertMission_rows:
  "InsertMission m d = Inr (u, d') \<Longrightarrow> d' = d\<lparr>missions := missions d @ [m]\<rparr> \<and> find_mission (msn_ID m) d = None"
  by (auto simp: InsertMission_def sql_insert_def find_mission_def split: option.splits if_splits)

lemma InsertRuntime_rows:
  "InsertRuntime r d = Inr (u, d') \<Longrightarrow> d' = d\<lparr>mission_runtime := mission_runtime d @ [r]\<rparr>"
  by (auto simp: InsertRuntime_def sql_insert_def split: option.splits if_splits)

lemma insert_refs_rows:
  "insert_refs rs d = Inr (u, d') \<Longrightarrow>
     d' = d\<lparr>staging_refs := staging_refs d @ rs\<rparr> \<and> (db_ok d \<longrightarrow> db_ok d')"
  unfolding insert_refs_def
proof (induction rs arbitrary: d)
  case (Cons r rs)
  then obtain d1 where d1: "InsertRef r d = Inr ((), d1)" and rest: "each_stmt InsertRef rs d1 = Inr (u, d')"
    by (auto simp: each_stmt_Cons_Inr simp del: each_stmt.simps)
  have "d1 = d\<lparr>staging_refs := staging_refs d @ [r]\<rparr>"
    using d1 by (auto simp: InsertRef_def sql_insert_def split: option.splits if_splits)
  with Cons.IH [OF rest] InsertRef_db_ok [OF d1] show ?case by auto
qed simp

section \<open>Pinning the staged files\<close>

text \<open>Recalculations change nothing but expiry times.\<close>

definition only_expiry :: "db \<Rightarrow> db \<Rightarrow> bool" where
  "only_expiry d d' \<longleftrightarrow>
     missions d' = missions d \<and> mission_runtime d' = mission_runtime d \<and> finalize_intents d' = finalize_intents d \<and>
     staging_refs d' = staging_refs d \<and> config_row d' = config_row d \<and> (db_ok d \<longrightarrow> db_ok d') \<and>
     (\<forall>i. map_option (\<lambda>s. s\<lparr>stg_TimeExpiresMs := 0\<rparr>) (find_staging i d') =
          map_option (\<lambda>s. s\<lparr>stg_TimeExpiresMs := 0\<rparr>) (find_staging i d))"

lemma only_expiry_refl [simp]: "only_expiry d d"
  by (simp add: only_expiry_def)

lemma only_expiry_trans: "only_expiry a b \<Longrightarrow> only_expiry b c \<Longrightarrow> only_expiry a c"
  by (simp add: only_expiry_def)

lemma recalc_only_expiry: "recalc_stmt p sid d = Inr (u, d') \<Longrightarrow> only_expiry d d'"
proof -
  assume "recalc_stmt p sid d = Inr (u, d')"
  then obtain e where e: "RecalcStagingTTL sid p d = Inr (e, d')"
    by (auto simp: recalc_stmt_def split: sum.splits)
  then have d': "d' = set_expires sid e d" by (auto simp: RecalcStagingTTL_def Let_def split: sum.splits)
  have "map_option (\<lambda>s. s\<lparr>stg_TimeExpiresMs := 0\<rparr>) (find_staging i d') =
      map_option (\<lambda>s. s\<lparr>stg_TimeExpiresMs := 0\<rparr>) (find_staging i d)" for i
    unfolding d' set_expires_find by (cases "find_staging i d") simp_all
  with d' RecalcStagingTTL_db_ok [OF e] show ?thesis by (simp add: only_expiry_def set_expires_def)
qed

lemma recalc_each_only_expiry: "each_stmt (recalc_stmt p) sids d = Inr (u, d') \<Longrightarrow> only_expiry d d'"
proof (induction sids arbitrary: d)
  case (Cons i js)
  then show ?case
    unfolding each_stmt_Cons_Inr using recalc_only_expiry only_expiry_trans by blast
qed simp

definition pinned :: "string \<Rightarrow> db \<Rightarrow> bool" where
  "pinned sid d \<longleftrightarrow> (\<exists>s. find_staging sid d = Some s \<and> stg_State s = StagingComplete \<and> stg_TimeExpiresMs s = maxInt64)"

definition wanted_by :: "mission \<Rightarrow> string \<Rightarrow> db \<Rightarrow> bool" where
  "wanted_by m sid d \<longleftrightarrow> active m \<and> m \<in> set (ref_missions sid d) \<and> is_complete sid d"

lemma wanted_only_expiry: "only_expiry d d' \<Longrightarrow> wanted_by m sid d' = wanted_by m sid d"
proof -
  assume o: "only_expiry d d'"
  have "ref_missions sid d' = ref_missions sid d" using o by (simp add: only_expiry_def ref_missions_def)
  moreover have "is_complete sid d' = is_complete sid d"
  proof -
    from o have "map_option (\<lambda>s. s\<lparr>stg_TimeExpiresMs := 0\<rparr>) (find_staging sid d') =
        map_option (\<lambda>s. s\<lparr>stg_TimeExpiresMs := 0\<rparr>) (find_staging sid d)" by (simp add: only_expiry_def)
    then show ?thesis
      by (cases "find_staging sid d"; cases "find_staging sid d'")
        (auto simp: is_complete_def dest: arg_cong [where f = stg_State])
  qed
  ultimately show ?thesis by (simp add: wanted_by_def)
qed

lemma recalc_pins:
  assumes "recalc_stmt p sid d = Inr (u, d')" and "wanted_by m i d" and "i = sid \<or> pinned i d"
  shows "pinned i d'"
proof -
  obtain e where e: "RecalcStagingTTL sid p d = Inr (e, d')"
    using assms(1) by (auto simp: recalc_stmt_def split: sum.splits)
  then have d': "d' = set_expires sid e d" by (auto simp: RecalcStagingTTL_def Let_def split: sum.splits)
  from assms(2) obtain s where s: "find_staging i d = Some s" "stg_State s = StagingComplete"
    by (auto simp: wanted_by_def is_complete_def split: option.splits)
  show ?thesis
  proof (cases "i = sid")
    case True
    with e s assms(2) have "e = maxInt64"
      by (auto simp: RecalcStagingTTL_def GetStaging_def Let_def compute_expires_spec wanted_by_def)
    with RecalcStagingTTL_stored [OF e, of s] s True show ?thesis by (simp add: pinned_def)
  next
    case False
    with find_staging_id [OF s(1)] have "find_staging i d' = Some s" by (simp add: d' set_expires_find s(1))
    with False assms(3) s(1) show ?thesis by (simp add: pinned_def)
  qed
qed

lemma recalc_each_pins:
  assumes "each_stmt (recalc_stmt p) sids d = Inr (u, d')" and "wanted_by m i d" and "i \<in> set sids \<or> pinned i d"
  shows "pinned i d'"
  using assms
proof (induction sids arbitrary: d)
  case (Cons j js)
  then obtain d1 where d1: "recalc_stmt p j d = Inr ((), d1)" and rest: "each_stmt (recalc_stmt p) js d1 = Inr (u, d')"
    by (auto simp: each_stmt_Cons_Inr simp del: each_stmt.simps)
  have w: "wanted_by m i d1" using wanted_only_expiry [OF recalc_only_expiry [OF d1]] Cons.prems(2) by simp
  have "i \<in> set js \<or> pinned i d1"
    using recalc_pins [OF d1 Cons.prems(2)] Cons.prems(3) by auto
  with Cons.IH [OF rest w] show ?case .
qed simp

section \<open>Queued rows\<close>

text \<open>
  What a transaction that queues a mission does: exactly one row is added, with its refs, every
  staged file it refers to is complete and kept from the collector, and nothing else changes but
  expiry times and the runtime snapshots.
\<close>

definition enqueued :: "mission \<Rightarrow> staging_ref list \<Rightarrow> db \<Rightarrow> db \<Rightarrow> bool" where
  "enqueued m refs d d' \<longleftrightarrow>
     db_ok d' \<and> find_mission (msn_ID m) d = None \<and> missions d' = missions d @ [m] \<and>
     staging_refs d' = staging_refs d @ refs \<and> finalize_intents d' = finalize_intents d \<and>
     config_row d' = config_row d \<and> list_all (\<lambda>r. pinned (ref_StagingID r) d') refs \<and>
     (\<forall>i. map_option (\<lambda>s. s\<lparr>stg_TimeExpiresMs := 0\<rparr>) (find_staging i d') =
          map_option (\<lambda>s. s\<lparr>stg_TimeExpiresMs := 0\<rparr>) (find_staging i d))"

lemma enqueued_find: "enqueued m refs d d' \<Longrightarrow> find_mission (msn_ID m) d' = Some m"
  by (simp add: enqueued_def find_mission_def)

lemma enqueued_quiet:
  assumes "enqueued m refs d d'" and "msn_Status m = StatusQueued"
  shows "quiet d d'"
  using assms by (auto simp: enqueued_def quiet_def)

lemma pinned_runtime [simp]: "pinned i (d\<lparr>mission_runtime := r\<rparr>) = pinned i d"
  by (simp add: pinned_def find_staging_def)

lemma enqueued_runtime:
  "enqueued m refs d d' \<Longrightarrow> InsertRuntime r d' = Inr (u, d'') \<Longrightarrow> enqueued m refs d d''"
  using InsertRuntime_rows [of r d' u d''] InsertRuntime_db_ok [of r d' u d'']
  by (auto simp: enqueued_def find_staging_def)

lemma enqueue_core:
  assumes ok: "db_ok d" and q: "msn_Status m = StatusQueued"
    and ins: "InsertMission m d = Inr ((), d1)" and refs: "insert_refs refs d1 = Inr ((), d2)"
    and rt: "db_ok d3" "d3 = d2\<lparr>mission_runtime := rs\<rparr>"
    and rec: "each_stmt (recalc_stmt p) sids d3 = Inr (u, d4)"
    and own: "list_all (\<lambda>r. ref_MissionID r = msn_ID m \<and> ref_StagingID r \<in> set sids) refs"
    and comp: "list_all (\<lambda>s. is_complete s d) sids"
  shows "enqueued m refs d d4"
proof -
  note i = InsertMission_rows [OF ins] and r = insert_refs_rows [OF refs]
  have d3: "missions d3 = missions d @ [m]" "staging_refs d3 = staging_refs d @ refs"
    "finalize_intents d3 = finalize_intents d" "config_row d3 = config_row d" "staging_files d3 = staging_files d"
    using i r rt(2) by simp_all
  note e = recalc_each_only_expiry [OF rec]
  have "pinned (ref_StagingID x) d4" if "x \<in> set refs" for x
  proof (rule recalc_each_pins [OF rec, of m])
    from own that have x: "ref_MissionID x = msn_ID m" "ref_StagingID x \<in> set sids" by (auto simp: list_all_iff)
    then show "ref_StagingID x \<in> set sids \<or> pinned (ref_StagingID x) d3" by simp
    have "m \<in> set (ref_missions (ref_StagingID x) d3)"
      using d3 that x by (auto simp: ref_missions_iff)
    moreover have "is_complete (ref_StagingID x) d3"
      using comp x(2) d3 by (auto simp: list_all_iff is_complete_def find_staging_def)
    ultimately show "wanted_by m (ref_StagingID x) d3" using q by (simp add: wanted_by_def active_def)
  qed
  with d3 e rt(1) i show ?thesis
    by (simp add: enqueued_def only_expiry_def list_all_iff find_staging_def)
qed

lemma dispatch_tx_enqueues:
  assumes tx: "dispatch_tx H removing m files applied d = Inr (u, d')" and ok: "db_ok d" and q: "msn_Status m = StatusQueued"
  shows "enqueued m (map (input_ref (msn_ID m)) files) d d' \<and> \<not> removing \<and>
    runtime_of H (msn_ID m) applied \<in> set (mission_runtime d')"
proof -
  from tx obtain d1 d2 d3 where comp: "list_all (\<lambda>f. is_complete (fr_StagingID f) d) files" and "\<not> removing"
    and ins: "InsertMission m d = Inr ((), d1)" and refs: "insert_refs (map (input_ref (msn_ID m)) files) d1 = Inr ((), d2)"
    and rt: "InsertRuntime (runtime_of H (msn_ID m) applied) d2 = Inr ((), d3)"
    and rec: "each_stmt (recalc_stmt (he_ttl H)) (map fr_StagingID files) d3 = Inr (u, d')"
    by (auto simp: dispatch_tx_def stmt_Inr each_stmt_map)
  have "db_ok d3"
    using ok InsertMission_db_ok [OF ins] insert_refs_rows [OF refs] InsertRuntime_db_ok [OF rt] by blast
  have "enqueued m (map (input_ref (msn_ID m)) files) d d'"
    by (rule enqueue_core [OF ok q ins refs \<open>db_ok d3\<close> _ rec])
      (use InsertRuntime_rows [OF rt] comp in \<open>auto simp: list_all_iff input_ref_def\<close>)
  moreover have "runtime_of H (msn_ID m) applied \<in> set (mission_runtime d')"
    using recalc_each_only_expiry [OF rec] InsertRuntime_rows [OF rt] by (simp add: only_expiry_def)
  ultimately show ?thesis using \<open>\<not> removing\<close> by blast
qed

section \<open>Rules for the handlers\<close>

text \<open>A precondition may be split over a fact that does not depend on the world.\<close>

lemma triple_keep: "triple P any (query q) (\<lambda>_. P) P"
  by (rule triple_query) simp_all

lemma triple_attempt_keep: "triple P any m (\<lambda>_. P) P \<Longrightarrow> triple P any (attempt m) (\<lambda>_. P) P"
  by (rule triple_attempt) simp_all

lemma triple_weaken: "triple P any m (\<lambda>_. P) P \<Longrightarrow> (\<And>w. P w \<Longrightarrow> E w) \<Longrightarrow> triple P any m (\<lambda>_. P) E"
  by (rule triple_conseq)

lemma triple_bind_weak:
  assumes "triple P any m Q E'" and "\<And>w. E' w \<Longrightarrow> E w" and "\<And>x. triple (Q x) any (k x) R E"
  shows "triple P any (bindM m k) R E"
  by (rule triple_bind [OF triple_conseq [OF assms(1)] assms(3)]) (use assms(2) in simp_all)

lemma triple_ask:
  assumes "\<And>x. triple P any (k x) Q E" and "\<And>w. P w \<Longrightarrow> E w"
  shows "triple P any (bindM (attempt (query q)) k) Q E"
  by (rule triple_bind [OF triple_weaken [OF triple_attempt_keep [OF triple_keep]] assms(1)]) (rule assms(2))

section \<open>The events file of a new mission\<close>

text \<open>
  \<open>vacant D mid\<close>: the invariant holds, the database satisfies \<open>D\<close> and has no row \<open>mid\<close>.  The
  events file of \<open>mid\<close> may then be written and removed freely.
\<close>

definition vacant :: "(db \<Rightarrow> bool) \<Rightarrow> string \<Rightarrow> world \<Rightarrow> bool" where
  "vacant D mid w \<longleftrightarrow> fin_inv w \<and> D (wd_db w) \<and> find_mission mid (wd_db w) = None"

lemma vacant_events: "vacant D mid w \<Longrightarrow> vacant D mid (w\<lparr>wd_events := (wd_events w)(mid := x)\<rparr>)"
proof -
  assume v: "vacant D mid w"
  then have "msn_ID m \<noteq> mid" if "m \<in> set (missions (wd_db w))" for m
    using that find_mission_in [of mid "wd_db w"] by (auto simp: vacant_def)
  with v show ?thesis by (simp add: vacant_def fin_inv_def published_def)
qed

lemma vacant_files [simp]: "files_free (vacant D mid)"
  by (simp add: files_free_def vacant_def fin_inv_def published_def)

lemma remove_events_vacant: "triple (vacant D mid) any (remove_events mid) (\<lambda>_. vacant D mid) (vacant D mid)"
  unfolding remove_events_def by (rule triple_effect) (auto simp: vacant_events split: fate.split)

lemma remove_all_files: "files_free P \<Longrightarrow> triple P any (remove_all dir) (\<lambda>_. P) P"
  unfolding remove_all_def by (rule triple_effect) (auto simp: files_free_def split: fate.split)

lemma cleanup_vacant:
  "triple (vacant D mid) any (cleanupOrphanMissionFiles dataDir outDir mid) (\<lambda>_. vacant D mid) (vacant D mid)"
  unfolding cleanupOrphanMissionFiles_def
  by (intro triple_bind [OF remove_events_vacant] triple_bind [where Q = "\<lambda>_. vacant D mid"] triple_each
      triple_remove remove_all_files) simp_all

lemma mkdirAll_keep: "triple P any mkdirAll (\<lambda>_. P) P"
  unfolding mkdirAll_def by (rule triple_effect) (auto split: fate.split)

definition made :: "writer \<Rightarrow> string \<Rightarrow> world \<Rightarrow> bool" where
  "made ew mid w \<longleftrightarrow> ew = new_writer empty_file \<and> wd_events w mid = Some empty_file"

lemma create_vacant:
  "triple (vacant D mid) any (create_events mid)
     (\<lambda>r w. vacant D mid w \<and> (\<forall>ew. r = Some ew \<longrightarrow> made ew mid w)) (vacant D mid)"
  unfolding create_events_def
  by (rule triple_effect)
    (auto simp: Create_def vacant_events made_def new_writer_def split: fate.split option.split)

text \<open>The file as the queued event leaves it: one complete line, the event with number 1.\<close>

definition noted :: "fields \<Rightarrow> string \<Rightarrow> world \<Rightarrow> bool" where
  "noted fs mid w \<longleftrightarrow>
     (\<exists>f l. wd_events w mid = Some f \<and> ef_lines f = [l] \<and> ef_tail f = None \<and>
        el_body l = Some (JObj (event_of KindQueued 1 fs)))"

lemma append_noted:
  "triple (\<lambda>w. vacant D mid w \<and> made ew mid w) any (append_line msize mid KindQueued fs (SetLimits L ew))
     (\<lambda>_ w. vacant D mid w \<and> noted fs mid w) (vacant D mid)"
  unfolding append_line_def
proof (rule triple_effect)
  fix f w
  assume w: "vacant D mid w \<and> made ew mid w"
  obtain r ew' where a: "Append msize (write_io f) KindQueued fs True (SetLimits L ew) = (r, ew')"
    by (cases "Append msize (write_io f) KindQueued fs True (SetLimits L ew)")
  have "r = Inr s \<Longrightarrow> ef_lines (wr_file ew') = [\<lparr>el_body = Some (JObj (event_of KindQueued 1 fs)), el_size = msize (event_of KindQueued 1 fs) + 1\<rparr>] \<and> ef_tail (wr_file ew') = None" for s
    using a w by (auto simp: Append_def made_def SetLimits_def new_writer_def empty_file_def put_line_def isLifecycle_def Let_def
        wrap64_def split: prod.splits io.splits if_splits)
  then show "case (case Append msize (write_io f) KindQueued fs True (SetLimits L ew) of
       (r, ew') \<Rightarrow> (case f of FCrash _ \<Rightarrow> Crash | _ \<Rightarrow> (case r of Inl e \<Rightarrow> Err e | Inr _ \<Rightarrow> Ret ew'),
          w\<lparr>wd_events := (wd_events w)(mid := Some (wr_file ew'))\<rparr>))
     of (Ret x, w') \<Rightarrow> vacant D mid w' \<and> noted fs mid w' | (_, w') \<Rightarrow> vacant D mid w'"
    using w vacant_events [of D mid w] a by (auto simp: noted_def split: fate.split sum.split)
qed simp

definition refused :: "reply \<Rightarrow> bool" where
  "refused rep \<longleftrightarrow> reply_status rep \<noteq> 202"

lemma refused_simps [simp]: "refused (WriteError n c t) \<longleftrightarrow> n \<noteq> 202" "refused (WriteJSON n i s) \<longleftrightarrow> n \<noteq> 202"
  "refused (WriteIOError 500 e)" "refused (WriteDBError 500)"
  by (simp_all add: refused_def WriteIOError_def WriteDBError_def)

lemma open_vacant:
  "triple (vacant D mid) any (open_queued H mid)
     (\<lambda>r w. vacant D mid w \<and> (case r of Inl rep \<Rightarrow> refused rep | Inr ew \<Rightarrow> made ew mid w)) (vacant D mid)"
proof -
  let ?Q = "\<lambda>r w. vacant D mid w \<and> (\<forall>ew. r = Inr (Some ew) \<longrightarrow> made ew mid w)"
  have create: "triple (vacant D mid) any (attempt (create_events mid)) ?Q (vacant D mid)"
    by (rule triple_attempt [OF triple_conseq [OF create_vacant]]) auto
  show ?thesis
    unfolding open_queued_def
    by (intro triple_bind [OF create] triple_bind [OF cleanup_vacant])
      (auto split: sum.split option.split intro!: triple_ret triple_bind [OF create] triple_bind [OF triple_conseq [OF cleanup_vacant]])
qed

lemma write_queued_vacant:
  "triple (vacant D mid) any (write_queued H mid fs)
     (\<lambda>r w. vacant D mid w \<and> (case r of Inl rep \<Rightarrow> refused rep | Inr _ \<Rightarrow> noted fs mid w)) (vacant D mid)"
  unfolding write_queued_def
proof (rule triple_bind [OF triple_attempt_keep [OF mkdirAll_keep]])
  fix r :: "error + unit"
  have append: "triple (\<lambda>w. vacant D mid w \<and> made ew mid w) any
     (bindM (attempt (append_line (he_msize H) mid KindQueued fs (SetLimits (he_limits H) ew))) (\<lambda>a.
        case a of Inl e \<Rightarrow> bindM (remove_events mid) (\<lambda>_. ret (Inl (WriteIOError 500 e))) | Inr _ \<Rightarrow> ret (Inr ())))
     (\<lambda>r w. vacant D mid w \<and> (case r of Inl rep \<Rightarrow> refused rep | Inr _ \<Rightarrow> noted fs mid w)) (vacant D mid)" for ew
  proof (rule triple_bind [where Q = "\<lambda>a w. vacant D mid w \<and> ((\<exists>x. a = Inr x) \<longrightarrow> noted fs mid w)"])
    show "triple (\<lambda>w. vacant D mid w \<and> made ew mid w) any
       (attempt (append_line (he_msize H) mid KindQueued fs (SetLimits (he_limits H) ew)))
       (\<lambda>a w. vacant D mid w \<and> ((\<exists>x. a = Inr x) \<longrightarrow> noted fs mid w)) (vacant D mid)"
      by (rule triple_attempt [OF triple_conseq [OF append_noted [of D mid ew]]]) auto
    fix a :: "error + writer"
    show "triple (\<lambda>w. vacant D mid w \<and> ((\<exists>x. a = Inr x) \<longrightarrow> noted fs mid w)) any
       (case a of Inl e \<Rightarrow> bindM (remove_events mid) (\<lambda>_. ret (Inl (WriteIOError 500 e))) | Inr _ \<Rightarrow> ret (Inr ()))
       (\<lambda>r w. vacant D mid w \<and> (case r of Inl rep \<Rightarrow> refused rep | Inr _ \<Rightarrow> noted fs mid w)) (vacant D mid)"
      by (cases a) (auto intro!: triple_ret triple_bind [OF remove_events_vacant])
  qed
  show "triple (vacant D mid) any (case r of Inl e \<Rightarrow> ret (Inl (WriteIOError 500 e))
       | Inr _ \<Rightarrow> bindM (open_queued H mid) (\<lambda>opened. case opened of
            Inl rep \<Rightarrow> ret (Inl rep)
          | Inr ew \<Rightarrow> bindM (attempt (append_line (he_msize H) mid KindQueued fs (SetLimits (he_limits H) ew))) (\<lambda>a.
              case a of Inl e \<Rightarrow> bindM (remove_events mid) (\<lambda>_. ret (Inl (WriteIOError 500 e))) | Inr _ \<Rightarrow> ret (Inr ()))))
     (\<lambda>r w. vacant D mid w \<and> (case r of Inl rep \<Rightarrow> refused rep | Inr _ \<Rightarrow> noted fs mid w)) (vacant D mid)"
  proof (cases r)
    case (Inr u)
    show ?thesis unfolding Inr sum.case
      by (rule triple_bind [OF open_vacant], rename_tac opened, case_tac opened)
        (simp_all add: append triple_ret)
  qed (simp add: triple_ret)
qed

section \<open>Commit\<close>

text \<open>
  What the handlers assume of other requests while they run: the invariant and \<open>D\<close> are kept, and
  the row and the events file of the mission at hand are left alone.  Requests for the same id
  are kept out by the key lock.
\<close>

definition steady :: "(db \<Rightarrow> bool) \<Rightarrow> string \<Rightarrow> (world \<Rightarrow> world) \<Rightarrow> bool" where
  "steady D mid g \<longleftrightarrow>
     (\<forall>w. fin_inv w \<longrightarrow> D (wd_db w) \<longrightarrow>
        fin_inv (g w) \<and> D (wd_db (g w)) \<and> find_mission mid (wd_db (g w)) = find_mission mid (wd_db w) \<and>
        wd_events (g w) mid = wd_events w mid)"

lemma others_steady:
  "steady D mid g \<Longrightarrow> triple (\<lambda>w. vacant D mid w \<and> noted fs mid w) any (others g) (\<lambda>_ w. vacant D mid w \<and> noted fs mid w) E"
  by (auto simp: triple_def others_def steady_def vacant_def noted_def)

definition created :: "(db \<Rightarrow> bool) \<Rightarrow> fields \<Rightarrow> mission \<Rightarrow> staging_ref list \<Rightarrow> world \<Rightarrow> bool" where
  "created D fs m refs w \<longleftrightarrow> fin_inv w \<and> noted fs (msn_ID m) w \<and> (\<exists>d. D d \<and> enqueued m refs d (wd_db w))"

lemma tx_creates:
  assumes tx: "\<And>d u d'. tx d = Inr (u, d') \<Longrightarrow> db_ok d \<Longrightarrow> enqueued m refs d d'" and q: "msn_Status m = StatusQueued"
  shows "triple (\<lambda>w. vacant D (msn_ID m) w \<and> noted fs (msn_ID m) w) any (attempt (tx_once tx))
     (\<lambda>r w. case r of Inl _ \<Rightarrow> vacant D (msn_ID m) w | Inr _ \<Rightarrow> created D fs m refs w) (vacant D (msn_ID m))"
proof (rule triple_attempt [where E' = "vacant D (msn_ID m)"])
  show "triple (\<lambda>w. vacant D (msn_ID m) w \<and> noted fs (msn_ID m) w) any (tx_once tx)
     (\<lambda>x w. case Inr x of Inl _ \<Rightarrow> vacant D (msn_ID m) w | Inr _ \<Rightarrow> created D fs m refs w) (vacant D (msn_ID m))"
  proof (rule triple_tx_once)
    fix w x d'
    assume w: "vacant D (msn_ID m) w \<and> noted fs (msn_ID m) w" and t: "tx (wd_db w) = Inr (x, d')"
    then have e: "enqueued m refs (wd_db w) d'" by (intro tx) (auto simp: vacant_def fin_inv_def)
    have "fin_inv (w\<lparr>wd_db := d'\<rparr>)"
      using w quiet_inv [OF _ enqueued_quiet [OF e q]] by (simp add: vacant_def)
    with e w show "case Inr x of Inl _ \<Rightarrow> vacant D (msn_ID m) (w\<lparr>wd_db := d'\<rparr>)
        | Inr _ \<Rightarrow> created D fs m refs (w\<lparr>wd_db := d'\<rparr>)"
      by (auto simp: created_def noted_def vacant_def)
  qed simp_all
qed simp_all

abbreviation outcome_of :: "(db \<Rightarrow> bool) \<Rightarrow> fields \<Rightarrow> mission \<Rightarrow> staging_ref list \<Rightarrow> reply \<times> manager \<Rightarrow> world \<Rightarrow> bool" where
  "outcome_of D fs m refs p w \<equiv> (if refused (fst p) then vacant D (msn_ID m) w else created D fs m refs w)"

lemma refused_insert [simp]: "refused (insert_error_reply e)"
  by (simp add: insert_error_reply_def)

lemma dispatch_commit_outcome:
  assumes "steady D (msn_ID m) g" and "msn_Status m = StatusQueued"
  shows "triple (vacant D (msn_ID m)) any (dispatch_commit H g mg m files applied)
     (outcome_of D (queued_fields (msn_ID m) (he_now H) (msn_Lane m) (msn_MissionName m)) m (map (input_ref (msn_ID m)) files))
     (vacant D (msn_ID m))"
  unfolding dispatch_commit_def
proof (rule triple_bind [OF write_queued_vacant])
  let ?fs = "queued_fields (msn_ID m) (he_now H) (msn_Lane m) (msn_MissionName m)"
  fix r :: "reply + unit"
  show "triple (\<lambda>w. vacant D (msn_ID m) w \<and> (case r of Inl rep \<Rightarrow> refused rep | Inr _ \<Rightarrow> noted ?fs (msn_ID m) w)) any
     (case r of Inl rep \<Rightarrow> ret (rep, mg) | Inr _ \<Rightarrow>
        bindM (others g) (\<lambda>_.
        bindM (attempt (tx_once (dispatch_tx H (IsLaneRemoving (msn_Lane m) mg) m files applied))) (\<lambda>r.
          case r of
            Inl e \<Rightarrow> bindM (cleanupOrphanMissionFiles (he_DataDir H) (output_dir (he_DataDir H) (msn_ID m)) (msn_ID m)) (\<lambda>_.
                   ret (insert_error_reply e, mg))
          | Inr _ \<Rightarrow> ret (WriteJSON 202 (msn_ID m) ''queued'', manager_Notify (msn_Lane m) mg))))
     (outcome_of D ?fs m (map (input_ref (msn_ID m)) files)) (vacant D (msn_ID m))"
  proof (cases r)
    case (Inr u)
    have tx: "enqueued m (map (input_ref (msn_ID m)) files) d d'"
      if "dispatch_tx H (IsLaneRemoving (msn_Lane m) mg) m files applied d = Inr (u, d')" "db_ok d" for d u d'
      using dispatch_tx_enqueues [OF that assms(2)] by blast
    show ?thesis unfolding Inr
      by (auto simp del: cleanup_vacant intro!: triple_bind [OF others_steady [OF assms(1)]] triple_bind [OF tx_creates [OF tx assms(2)]]
          triple_bind [OF cleanup_vacant] triple_ret split: sum.split)
  qed (auto intro!: triple_ret)
qed

section \<open>POST /v1/dispatch\<close>

text \<open>What the staging rows say of the files of a request.\<close>

definition resolved_as :: "handler_env \<Rightarrow> db \<Rightarrow> file_ref \<Rightarrow> FileRef \<Rightarrow> bool" where
  "resolved_as H d f r \<longleftrightarrow>
     ValidateRoleKey (he_lib H) (rf_Role f) = None \<and> ValidateUUIDv7 (rf_StagingID f) \<and>
     fr_Role r = rf_Role f \<and> fr_StagingID r = rf_StagingID f \<and>
     (\<exists>s. find_staging (rf_StagingID f) d = Some s \<and> stg_State s = StagingComplete \<and>
        fr_Sha256 r = stg_Sha256 s \<and> fr_Size r = stg_Size s)"

abbreviation resolved :: "handler_env \<Rightarrow> db \<Rightarrow> file_ref list \<Rightarrow> FileRef list \<Rightarrow> bool" where
  "resolved H d fs files \<equiv> list_all2 (resolved_as H d) fs files"

text \<open>The row and the resolved files a request stands for.\<close>

definition dispatched :: "(db \<Rightarrow> bool) \<Rightarrow> handler_env \<Rightarrow> string \<Rightarrow> DispatchRequest \<Rightarrow> mission \<Rightarrow> FileRef list \<Rightarrow> bool" where
  "dispatched D H key req m files \<longleftrightarrow>
     (\<exists>d. D d \<and> resolved H d (dr_Files req) files) \<and> firstDuplicate (fileRoles (dr_Files req)) = [] \<and>
     (\<exists>inp t fp. dispatch_input H req = Inr (inp, t) \<and>
        Mission (he_float H) (he_sha H) \<lparr>mi_Lane = dr_Lane req, mi_Mission = dr_Mission req,
          mi_InputCanonical = inp, mi_TimeoutMs = t, mi_Files = files\<rparr> = Some fp \<and>
        m = queued_row key KindMission (dr_Lane req) (dr_Mission req) inp fp (he_now H) t)"

abbreviation base :: "(db \<Rightarrow> bool) \<Rightarrow> world \<Rightarrow> bool" where
  "base D w \<equiv> fin_inv w \<and> D (wd_db w)"

lemma ask_staging:
  assumes "\<And>x. triple (\<lambda>w. P w \<and> (\<forall>s. x = Inr s \<longrightarrow> find_staging i (wd_db w) = Some s)) any (k x) Q E"
    and "\<And>w. P w \<Longrightarrow> E w"
  shows "triple P any (bindM (attempt (query (GetStaging i))) k) Q E"
proof (rule triple_bind [OF _ assms(1)])
  show "triple P any (attempt (query (GetStaging i)))
     (\<lambda>x w. P w \<and> (\<forall>s. x = Inr s \<longrightarrow> find_staging i (wd_db w) = Some s)) E"
    by (rule triple_attempt [where E' = P], rule triple_query)
      (use assms(2) in \<open>auto simp: GetStaging_def split: option.splits\<close>)
qed

lemma resolve_keep:
  "triple P any (resolveStagingMetadata H fs)
     (\<lambda>r w. P w \<and> (case r of Inl _ \<Rightarrow> True | Inr files \<Rightarrow> resolved H (wd_db w) fs files)) P"
proof (induction fs arbitrary: P)
  case Nil
  show ?case by (simp add: triple_ret)
next
  case (Cons f fs)
  show ?case
  proof (cases "ValidateRoleKey (he_lib H) (rf_Role f) \<noteq> None \<or> \<not> ValidateUUIDv7 (rf_StagingID f)")
    case False
    have rest: "triple (\<lambda>w. P w \<and> find_staging (rf_StagingID f) (wd_db w) = Some st) any
       (bindM (resolveStagingMetadata H fs) (\<lambda>q. ret (case q of Inl e \<Rightarrow> Inl e
          | Inr out \<Rightarrow> Inr (\<lparr>fr_Role = rf_Role f, fr_StagingID = rf_StagingID f,
              fr_Sha256 = stg_Sha256 st, fr_Size = stg_Size st\<rparr> # out))))
       (\<lambda>r w. P w \<and> (case r of Inl _ \<Rightarrow> True | Inr files \<Rightarrow> resolved H (wd_db w) (f # fs) files)) P"
      if "stg_State st = StagingComplete" for st
      by (rule triple_bind_weak [OF Cons.IH [of "\<lambda>w. P w \<and> find_staging (rf_StagingID f) (wd_db w) = Some st"]])
        (use False that in \<open>auto intro!: triple_ret simp: resolved_as_def split: sum.split\<close>)
    show ?thesis
      unfolding resolveStagingMetadata.simps if_not_P [OF False]
    proof (rule ask_staging)
      fix x
      show "triple (\<lambda>w. P w \<and> (\<forall>s. x = Inr s \<longrightarrow> find_staging (rf_StagingID f) (wd_db w) = Some s)) any
         (case x of Inl _ \<Rightarrow> ret (Inl RefUnavailable)
          | Inr st \<Rightarrow> if stg_State st \<noteq> StagingComplete then ret (Inl RefUnavailable)
              else bindM (resolveStagingMetadata H fs) (\<lambda>q. ret (case q of Inl e \<Rightarrow> Inl e
                | Inr out \<Rightarrow> Inr (\<lparr>fr_Role = rf_Role f, fr_StagingID = rf_StagingID f,
                    fr_Sha256 = stg_Sha256 st, fr_Size = stg_Size st\<rparr> # out))))
         (\<lambda>r w. P w \<and> (case r of Inl _ \<Rightarrow> True | Inr files \<Rightarrow> resolved H (wd_db w) (f # fs) files)) P"
        by (cases x) (auto intro!: triple_ret rest)
    qed simp
  qed (simp add: triple_ret)
qed

lemma lookup_vacant:
  "triple (base D) any (attempt (query (GetMission mid)))
     (\<lambda>r w. base D w \<and> (r = Inl ErrNotFound \<longrightarrow> vacant D mid w)) (base D)"
proof (rule tripleI)
  fix fs w r fs' w'
  assume "base D w" "attempt (query (GetMission mid)) fs w = (r, fs', w')"
  then show "list_all any fs' \<and> (case r of Ret r \<Rightarrow> base D w' \<and> (r = Inl ErrNotFound \<longrightarrow> vacant D mid w') | _ \<Rightarrow> base D w')"
    by (auto simp: attempt_def query_def effect_def next_fate_def sum_res_def GetMission_def vacant_def list_all_iff
        split: list.splits fate.splits option.splits res.splits prod.splits)
qed

lemma readApplied_keep: "triple P any readApplied (\<lambda>_. P) P"
  unfolding readApplied_def by (intro triple_ask triple_ret) simp_all

lemma lane_ready_keep:
  "triple P any (lane_ready mg lane) (\<lambda>r w. P w \<and> (case r of Inl rep \<Rightarrow> refused rep | Inr _ \<Rightarrow> True)) P"
  unfolding lane_ready_def by (rule triple_bind [OF readApplied_keep]) (auto intro!: triple_ret split: option.split)

lemma count_live_keep: "triple P any (count_live Q) (\<lambda>_. P) P"
  unfolding count_live_def by (intro triple_ask triple_ret) simp_all

lemma backpressure_keep:
  "triple P any (backpressure H lane) (\<lambda>r w. P w \<and> (case r of None \<Rightarrow> True | Some rep \<Rightarrow> refused rep)) P"
  unfolding backpressure_def
  by (intro triple_bind [where Q = "\<lambda>_. P"]) (auto intro!: triple_ret count_live_keep triple_bind [where Q = "\<lambda>_. P"])

lemma vacant_base: "vacant D mid w \<Longrightarrow> base D w"
  by (simp add: vacant_def)

definition dispatch_outcome ::
  "(db \<Rightarrow> bool) \<Rightarrow> handler_env \<Rightarrow> string \<Rightarrow> DispatchRequest \<Rightarrow> reply \<times> manager \<Rightarrow> world \<Rightarrow> bool" where
  "dispatch_outcome D H key req p w \<longleftrightarrow>
     (if refused (fst p) then base D w
      else \<exists>m files. dispatched D H key req m files \<and>
             created D (queued_fields key (he_now H) (dr_Lane req) (dr_Mission req)) m (map (input_ref key) files) w)"

lemma outcome_refused: "base D w \<Longrightarrow> refused rep \<Longrightarrow> dispatch_outcome D H key req (rep, mg) w"
  by (simp add: dispatch_outcome_def)

lemma outcome_base: "base D w \<and> refused (fst p) \<Longrightarrow> dispatch_outcome D H key req p w"
  by (simp add: dispatch_outcome_def)

lemma dispatch_new_outcome:
  assumes st: "steady D key g" and d: "dispatched D H key req m files"
    and m: "m = queued_row key KindMission (dr_Lane req) (dr_Mission req) inp fp (he_now H) t"
  shows "triple (vacant D key) any (dispatch_new H g mg mg' key req inp t files fp) (dispatch_outcome D H key req) (base D)"
proof -
  have id: "msn_ID m = key" "msn_Status m = StatusQueued" "msn_Lane m = dr_Lane req" "msn_MissionName m = dr_Mission req"
    by (simp_all add: m queued_row_def)
  have commit: "triple (vacant D key) any (dispatch_commit H g mg' m files applied) (dispatch_outcome D H key req) (base D)" for applied
    by (rule triple_conseq [OF dispatch_commit_outcome [of D m g H mg' files applied, unfolded id, OF st refl]])
      (use d in \<open>auto simp: vacant_base dispatch_outcome_def split: if_splits\<close>)
  show ?thesis
    unfolding dispatch_new_def m [symmetric]
    by (auto intro!: triple_ret triple_bind_weak [OF lane_ready_keep [of "vacant D key"]]
        triple_bind_weak [OF backpressure_keep [of "vacant D key"]] commit
        outcome_base simp: vacant_base dest: vacant_base split: sum.split option.split)
qed

lemma dispatch_resolved_outcome:
  assumes st: "steady D key g" and inp: "dispatch_input H req = Inr (inp, t)"
    and files: "D d" "resolved H d (dr_Files req) files"
  shows "triple (base D) any (dispatch_resolved H g mg mg' key req inp t files) (dispatch_outcome D H key req) (base D)"
proof -
  let ?in = "\<lparr>mi_Lane = dr_Lane req, mi_Mission = dr_Mission req, mi_InputCanonical = inp, mi_TimeoutMs = t, mi_Files = files\<rparr>"
  have step: "triple (\<lambda>w. base D w \<and> (r = Inl ErrNotFound \<longrightarrow> vacant D key w)) any
     (case r of Inr m \<Rightarrow> ret (replay_reply key fp m, mg')
      | Inl e \<Rightarrow> if e \<noteq> ErrNotFound then ret (WriteDBError 500, mg') else dispatch_new H g mg mg' key req inp t files fp)
     (dispatch_outcome D H key req) (base D)"
    if "firstDuplicate (fileRoles (dr_Files req)) = []" "Mission (he_float H) (he_sha H) ?in = Some fp" for fp r
  proof -
    let ?m = "queued_row key KindMission (dr_Lane req) (dr_Mission req) inp fp (he_now H) t"
    have "dispatched D H key req ?m files" using inp files that by (auto simp: dispatched_def)
    then have new: "triple (\<lambda>w. base D w \<and> vacant D key w) any (dispatch_new H g mg mg' key req inp t files fp)
        (dispatch_outcome D H key req) (base D)"
      by (intro triple_conseq [OF dispatch_new_outcome [OF st _ refl]]) simp_all
    show ?thesis
    proof (cases r)
      case (Inl e)
      show ?thesis
      proof (cases "e = ErrNotFound")
        case True
        show ?thesis unfolding Inl True by (simp only: sum.case if_False simp_thms new)
      qed (use Inl in \<open>auto intro!: triple_ret outcome_base\<close>)
    qed (auto intro!: triple_ret outcome_base simp: replay_reply_def)
  qed
  show ?thesis
    unfolding dispatch_resolved_def
    by (auto intro!: triple_ret outcome_base triple_bind [OF lookup_vacant] step split: option.split)
qed

lemma replay_unavailable_refused:
  "triple P any (replay_unavailable key) (\<lambda>rep w. P w \<and> refused rep) P"
  unfolding replay_unavailable_def by (intro triple_ask) (auto intro!: triple_ret split: sum.split)

lemma Dispatch_outcome:
  assumes st: "steady D key g"
  shows "triple (base D) any (Dispatch H g mg mg' key body)
     (\<lambda>p w. (\<exists>req. body = Body req \<and> dispatch_outcome D H key req p w) \<or> (base D w \<and> refused (fst p))) (base D)"
proof (cases "dispatch_gates H key body")
  case (Inl rep)
  then have "refused rep"
    by (auto simp: dispatch_gates_def split: if_splits body.splits)
  with Inl show ?thesis by (simp add: Dispatch_def triple_ret)
next
  case (Inr req)
  then have body: "body = Body req" by (auto simp: dispatch_gates_def split: if_splits body.splits)
  have "triple (base D) any (Dispatch H g mg mg' key body) (dispatch_outcome D H key req) (base D)"
  proof (cases "dispatch_input H req")
    case inl: (Inl rep)
    then have "refused rep" by (auto simp: dispatch_input_def split: option.splits sum.splits)
    with Inr inl show ?thesis by (simp add: Dispatch_def triple_ret outcome_base)
  next
    case inp: (Inr p)
    obtain c t where p: "p = (c, t)" by (cases p)
    have files: "triple (\<lambda>w. base D w \<and> resolved H (wd_db w) (dr_Files req) files) any (dispatch_resolved H g mg mg' key req c t files)
       (dispatch_outcome D H key req) (base D)" for files
    proof (rule triple_pure [where b = "\<exists>d. D d \<and> resolved H d (dr_Files req) files"])
      assume "\<exists>d. D d \<and> resolved H d (dr_Files req) files"
      then show "triple (\<lambda>w. base D w \<and> resolved H (wd_db w) (dr_Files req) files) any (dispatch_resolved H g mg mg' key req c t files)
          (dispatch_outcome D H key req) (base D)"
        by (auto intro!: triple_conseq [OF dispatch_resolved_outcome [OF st inp [unfolded p]]])
    qed auto
    show ?thesis
      unfolding Dispatch_def Inr inp p sum.case prod.case
    proof (rule triple_bind [OF resolve_keep])
      fix r
      show "triple (\<lambda>w. base D w \<and> (case r of Inl _ \<Rightarrow> True | Inr files \<Rightarrow> resolved H (wd_db w) (dr_Files req) files)) any
         (case r of Inl RefMalformed \<Rightarrow> ret (WriteError 400 ''bad_request'' None, mg')
          | Inl RefUnavailable \<Rightarrow> bindM (replay_unavailable key) (\<lambda>rep. ret (rep, mg'))
          | Inr files \<Rightarrow> dispatch_resolved H g mg mg' key req c t files) (dispatch_outcome D H key req) (base D)"
      proof (cases r)
        case (Inl e)
        show ?thesis unfolding Inl
          by (cases e) (auto intro!: triple_ret outcome_base triple_bind [OF replay_unavailable_refused])
      qed (simp only: sum.case files)
    qed
  qed
  with body show ?thesis by (elim triple_conseq) auto
qed

section \<open>POST /v1/exec/dispatch\<close>

definition exec_dispatched :: "handler_env \<Rightarrow> string \<Rightarrow> ExecRequest \<Rightarrow> mission \<Rightarrow> bool" where
  "exec_dispatched H key req m \<longleftrightarrow>
     (\<exists>t meta fp. parseOptionalDuration H (xr_Timeout req) = Inr t \<and> set (map fst meta) = set (exec_ids req) \<and>
        computeExecFingerprint H req meta t = Some fp \<and> m = exec_row H key req fp t)"

lemma exec_tx_enqueues:
  assumes tx: "exec_tx H m refs sids d = Inr (u, d')" and ok: "db_ok d" and q: "msn_Status m = StatusQueued"
    and own: "list_all (\<lambda>r. ref_MissionID r = msn_ID m \<and> ref_StagingID r \<in> set sids) refs"
  shows "enqueued m refs d d'"
proof -
  from tx obtain d1 d2 where comp: "list_all (\<lambda>s. is_complete s d) sids"
    and ins: "InsertMission m d = Inr ((), d1)" and refs: "insert_refs refs d1 = Inr ((), d2)"
    and rec: "each_stmt (recalc_stmt (he_ttl H)) sids d2 = Inr (u, d')"
    by (auto simp: exec_tx_def stmt_Inr)
  have "db_ok d2" using ok InsertMission_db_ok [OF ins] insert_refs_rows [OF refs] by blast
  show ?thesis
    by (rule enqueue_core [OF ok q ins refs \<open>db_ok d2\<close> _ rec own comp, of "mission_runtime d2"]) simp
qed

lemma exec_refs_own: "set sids = set (exec_ids req) \<Longrightarrow>
  list_all (\<lambda>r. ref_MissionID r = mid \<and> ref_StagingID r \<in> set sids) (exec_refs mid req)"
  by (auto simp: exec_refs_def exec_ids_def list_all_iff split: option.splits if_splits)

lemma fetch_loop_keep:
  "triple P any (fetch_loop is out) (\<lambda>r w. P w \<and> (case r of Inl rep \<Rightarrow> refused rep
     | Inr meta \<Rightarrow> set (map fst meta) = set (map fst out) \<union> set is)) P"
proof (induction "is" arbitrary: out)
  case Nil
  show ?case by (simp add: triple_ret)
next
  case (Cons i js)
  have seen: "map_of out i \<noteq> None \<Longrightarrow> i \<in> fst ` set out" by (simp add: map_of_eq_None_iff)
  show ?case
  proof (cases "map_of out i = None")
    case False
    then have eq: "set (map fst out) \<union> set (i # js) = set (map fst out) \<union> set js" using seen by auto
    show ?thesis unfolding eq using Cons.IH [of out] False by simp
  next
    case True
    have "triple P any (fetch_loop js (out @ [(i, st)])) (\<lambda>r w. P w \<and> (case r of Inl rep \<Rightarrow> refused rep
       | Inr meta \<Rightarrow> set (map fst meta) = set (map fst out) \<union> set (i # js))) P" for st
      by (rule triple_conseq [OF Cons.IH [of "out @ [(i, st)]"]]) (auto split: sum.splits)
    with True show ?thesis by (auto intro!: triple_ask triple_ret split: sum.split)
  qed
qed

definition exec_outcome ::
  "(db \<Rightarrow> bool) \<Rightarrow> handler_env \<Rightarrow> string \<Rightarrow> ExecRequest \<Rightarrow> reply \<times> manager \<Rightarrow> world \<Rightarrow> bool" where
  "exec_outcome D H key req p w \<longleftrightarrow>
     (if refused (fst p) then base D w
      else \<exists>m. exec_dispatched H key req m \<and>
             created D (exec_fields key (he_now H) (xr_Lane req)) m (exec_refs key req) w)"

lemma exec_outcome_base: "base D w \<and> refused (fst p) \<Longrightarrow> exec_outcome D H key req p w"
  by (simp add: exec_outcome_def)

lemma exec_commit_outcome:
  assumes st: "steady D (msn_ID m) g" and q: "msn_Status m = StatusQueued"
    and own: "list_all (\<lambda>r. ref_MissionID r = msn_ID m \<and> ref_StagingID r \<in> set sids) refs"
  shows "triple (vacant D (msn_ID m)) any (exec_commit H g mg m refs sids)
     (outcome_of D (exec_fields (msn_ID m) (he_now H) (msn_Lane m)) m refs) (vacant D (msn_ID m))"
  unfolding exec_commit_def
proof (rule triple_bind [OF write_queued_vacant])
  let ?fs = "exec_fields (msn_ID m) (he_now H) (msn_Lane m)"
  fix r :: "reply + unit"
  show "triple (\<lambda>w. vacant D (msn_ID m) w \<and> (case r of Inl rep \<Rightarrow> refused rep | Inr _ \<Rightarrow> noted ?fs (msn_ID m) w)) any
     (case r of Inl rep \<Rightarrow> ret (rep, mg) | Inr _ \<Rightarrow>
        bindM (others g) (\<lambda>_.
        bindM (attempt (tx_once (exec_tx H m refs sids))) (\<lambda>r.
          case r of
            Inl e \<Rightarrow> bindM (remove_events (msn_ID m)) (\<lambda>_. ret (insert_error_reply e, mg))
          | Inr _ \<Rightarrow> ret (WriteJSON 202 (msn_ID m) ''queued'', manager_Notify (msn_Lane m) mg))))
     (outcome_of D ?fs m refs) (vacant D (msn_ID m))"
  proof (cases r)
    case (Inr u)
    have tx: "enqueued m refs d d'" if "exec_tx H m refs sids d = Inr (u, d')" "db_ok d" for d u d'
      by (rule exec_tx_enqueues [OF that q own])
    show ?thesis unfolding Inr
      by (auto intro!: triple_bind [OF others_steady [OF st]] triple_bind [OF tx_creates [OF tx q]]
          triple_bind [OF remove_events_vacant] triple_ret split: sum.split)
  qed (auto intro!: triple_ret)
qed

lemma exec_new_outcome:
  assumes st: "steady D key g" and t: "parseOptionalDuration H (xr_Timeout req) = Inr t"
    and meta: "set (map fst meta) = set (exec_ids req)" and fp: "computeExecFingerprint H req meta t = Some fp"
  shows "triple (base D) any (exec_new H g mg mg' key req t meta fp) (exec_outcome D H key req) (base D)"
proof -
  let ?m = "exec_row H key req fp t"
  have d: "exec_dispatched H key req ?m" using t meta fp by (auto simp: exec_dispatched_def)
  have id: "msn_ID ?m = key" "msn_Status ?m = StatusQueued" "msn_Lane ?m = xr_Lane req"
    by (simp_all add: exec_row_def queued_row_def)
  have commit: "triple (vacant D key) any (exec_commit H g mg' ?m (exec_refs key req) (map fst meta)) (exec_outcome D H key req) (base D)"
    by (rule triple_conseq [OF exec_commit_outcome [of D ?m g, unfolded id, OF st refl exec_refs_own [OF meta]]])
      (use d in \<open>auto simp: vacant_base exec_outcome_def split: if_splits\<close>)
  have ready: "triple (vacant D key) any (bindM (lane_ready mg (xr_Lane req)) (\<lambda>a.
       case a of Inl rep \<Rightarrow> ret (rep, mg')
       | Inr _ \<Rightarrow> exec_commit H g mg' ?m (exec_refs key req) (map fst meta))) (exec_outcome D H key req) (base D)"
    by (rule triple_bind_weak [OF lane_ready_keep [of "vacant D key"]])
      (auto intro!: triple_ret exec_outcome_base commit dest: vacant_base split: sum.split)
  have new: "triple (\<lambda>w. base D w \<and> vacant D key w) any (bindM (lane_ready mg (xr_Lane req)) (\<lambda>a.
       case a of Inl rep \<Rightarrow> ret (rep, mg')
       | Inr _ \<Rightarrow> exec_commit H g mg' ?m (exec_refs key req) (map fst meta))) (exec_outcome D H key req) (base D)"
    by (rule triple_conseq [OF ready]) simp_all
  show ?thesis
    unfolding exec_new_def
  proof (rule triple_bind [OF lookup_vacant])
    fix r
    show "triple (\<lambda>w. base D w \<and> (r = Inl ErrNotFound \<longrightarrow> vacant D key w)) any
       (case r of Inr m \<Rightarrow> ret (replay_reply key fp m, mg')
        | Inl e \<Rightarrow> if e \<noteq> ErrNotFound then ret (WriteError 500 ''internal'' None, mg')
            else bindM (lane_ready mg (xr_Lane req)) (\<lambda>a. case a of Inl rep \<Rightarrow> ret (rep, mg')
               | Inr _ \<Rightarrow> exec_commit H g mg' ?m (exec_refs key req) (map fst meta)))
       (exec_outcome D H key req) (base D)"
    proof (cases r)
      case (Inl e)
      show ?thesis
      proof (cases "e = ErrNotFound")
        case True
        show ?thesis unfolding Inl True by (simp only: sum.case if_False simp_thms new)
      qed (use Inl in \<open>auto intro!: triple_ret exec_outcome_base\<close>)
    qed (auto intro!: triple_ret exec_outcome_base simp: replay_reply_def)
  qed
qed

lemma ExecDispatch_outcome:
  assumes st: "steady D key g"
  shows "triple (base D) any (ExecDispatch H g mg mg' key body)
     (\<lambda>p w. (\<exists>req. body = Body req \<and> exec_outcome D H key req p w) \<or> (base D w \<and> refused (fst p))) (base D)"
proof (cases "exec_gates H key body")
  case (Inl rep)
  then have "refused rep"
    by (auto simp: exec_gates_def exec_key_checks_def exec_stdin_checks_def Let_def
        split: if_splits body.splits option.splits sum.splits)
  with Inl show ?thesis by (simp add: ExecDispatch_def triple_ret)
next
  case (Inr p)
  then obtain req t where p: "p = (req, t)" and body: "body = Body req"
    and t: "parseOptionalDuration H (xr_Timeout req) = Inr t"
    by (cases p) (auto simp: exec_gates_def split: if_splits body.splits option.splits sum.splits)
  have "triple (base D) any (ExecDispatch H g mg mg' key body) (exec_outcome D H key req) (base D)"
    unfolding ExecDispatch_def Inr p sum.case prod.case fetchStagingMeta_def
  proof (rule triple_bind [OF fetch_loop_keep])
    fix r
    show "triple (\<lambda>w. base D w \<and> (case r of Inl rep \<Rightarrow> refused rep
         | Inr meta \<Rightarrow> set (map fst meta) = set (map fst []) \<union> set (exec_ids req))) any
       (case r of Inl rep \<Rightarrow> ret (rep, mg') | Inr meta \<Rightarrow>
          if script_too_large H req meta then ret (WriteError 400 ''script_too_large'' None, mg')
          else case computeExecFingerprint H req meta t of
             None \<Rightarrow> ret (WriteError 500 ''internal'' None, mg')
           | Some fp \<Rightarrow> exec_new H g mg mg' key req t meta fp) (exec_outcome D H key req) (base D)"
    proof (cases r)
      case (Inr meta)
      show ?thesis
        unfolding Inr sum.case
      proof (rule triple_pure [where b = "set (map fst meta) = set (exec_ids req)"])
        assume meta: "set (map fst meta) = set (exec_ids req)"
        have "triple (base D) any (exec_new H g mg mg' key req t meta fp) (exec_outcome D H key req) (base D)"
          if "computeExecFingerprint H req meta t = Some fp" for fp
          by (rule exec_new_outcome [OF st t meta that])
        with meta show "triple (\<lambda>w. base D w \<and> set (map fst meta) = set (map fst []) \<union> set (exec_ids req)) any
          (if script_too_large H req meta then ret (WriteError 400 ''script_too_large'' None, mg')
           else case computeExecFingerprint H req meta t of
             None \<Rightarrow> ret (WriteError 500 ''internal'' None, mg')
           | Some fp \<Rightarrow> exec_new H g mg mg' key req t meta fp) (exec_outcome D H key req) (base D)"
          by (auto intro!: triple_ret exec_outcome_base split: option.split)
      qed simp
    qed (auto intro!: triple_ret exec_outcome_base)
  qed
  with body show ?thesis by (elim triple_conseq) auto
qed

section \<open>Retries\<close>

text \<open>An undisturbed query.\<close>

lemma calm_ask [simp]: "bindM (attempt (query q)) k [] w = k (q (wd_db w)) [] w"
  by (simp add: bindM_def attempt_def query_def effect_def next_fate_def sum_res_def split: sum.split)

lemma calm_ret [simp]: "ret x [] w = (Ret x, [], w)"
  by (simp add: ret_def)

text \<open>A retry resolves the same files, or finds one of them gone.\<close>

definition same_content :: "FileRef list \<Rightarrow> db \<Rightarrow> bool" where
  "same_content files d \<longleftrightarrow>
     (\<forall>r \<in> set files. \<forall>s. find_staging (fr_StagingID r) d = Some s \<longrightarrow> stg_State s = StagingComplete \<longrightarrow>
        stg_Sha256 s = fr_Sha256 r \<and> stg_Size s = fr_Size r)"

lemma resolve_again:
  assumes "resolved H d fs files" and "same_content files (wd_db w)"
  shows "resolveStagingMetadata (H\<lparr>he_now := n\<rparr>) fs [] w \<in> {(Ret (Inr files), [], w), (Ret (Inl RefUnavailable), [], w)}"
  using assms
proof (induction fs files rule: list_all2_induct)
  case Nil
  then show ?case by simp
next
  case (Cons f fs r files)
  then have r: "resolved_as H d f r" and rest: "resolveStagingMetadata (H\<lparr>he_now := n\<rparr>) fs [] w \<in>
      {(Ret (Inr files), [], w), (Ret (Inl RefUnavailable), [], w)}"
    by (auto simp: same_content_def)
  show ?case
  proof (cases "GetStaging (rf_StagingID f) (wd_db w)")
    case (Inl e)
    with r show ?thesis by (simp add: resolved_as_def)
  next
    case (Inr st)
    then have st: "find_staging (fr_StagingID r) (wd_db w) = Some st"
      using r by (auto simp: GetStaging_def resolved_as_def split: option.splits)
    show ?thesis
    proof (cases "stg_State st = StagingComplete")
      case True
      with st Cons.prems have "\<lparr>fr_Role = rf_Role f, fr_StagingID = rf_StagingID f,
          fr_Sha256 = stg_Sha256 st, fr_Size = stg_Size st\<rparr> = r"
        using r by (simp add: same_content_def resolved_as_def)
      with rest True Inr r show ?thesis
        by (auto simp: resolved_as_def bindM_def [of "resolveStagingMetadata (H\<lparr>he_now := n\<rparr>) fs"])
    qed (use Inr r in \<open>simp add: resolved_as_def\<close>)
  qed
qed

lemma Dispatch_again:
  assumes gates: "dispatch_gates H key (Body req) = Inr req" and d: "dispatched D H key req m files"
    and row: "find_mission key (wd_db w) = Some m'" and fp: "msn_InputFingerprint m' = msn_InputFingerprint m"
    and same: "same_content files (wd_db w)"
  shows "Dispatch (H\<lparr>he_now := n\<rparr>) g mg mg' key (Body req) [] w =
    (Ret (if msn_Status m' = StatusDeleting then WriteError 410 ''mission_deleting'' None
          else WriteJSON 200 key (status_str (msn_Status m')), mg'), [], w)"
proof -
  let ?H = "H\<lparr>he_now := n\<rparr>"
  from d obtain d0 inp t fp0 where res: "resolved H d0 (dr_Files req) files"
    and dup: "firstDuplicate (fileRoles (dr_Files req)) = []" and inp: "dispatch_input H req = Inr (inp, t)"
    and mission: "Mission (he_float H) (he_sha H) \<lparr>mi_Lane = dr_Lane req, mi_Mission = dr_Mission req,
          mi_InputCanonical = inp, mi_TimeoutMs = t, mi_Files = files\<rparr> = Some fp0"
    and m: "msn_InputFingerprint m = fp0"
    by (auto simp: dispatched_def queued_row_def)
  have "over_quota ?H = over_quota H" by (cases "he_DiskUsage H") (simp_all add: over_quota_def)
  then have "dispatch_gates ?H key (Body req) = dispatch_gates H key (Body req)"
    by (simp add: dispatch_gates_def)
  moreover have "parseOptionalDuration ?H s = parseOptionalDuration H s" for s
    by (cases "he_ParseDuration H s") (simp_all add: parseOptionalDuration_def)
  then have "dispatch_input ?H req = dispatch_input H req"
    by (cases "dr_Input req") (simp_all add: dispatch_input_def split: option.split)
  ultimately have start: "dispatch_gates ?H key (Body req) = Inr req" "dispatch_input ?H req = Inr (inp, t)"
    using gates inp by simp_all
  have get: "GetMission key (wd_db w) = Inr m'" using row by (simp add: GetMission_def)
  then have gone: "replay_unavailable key [] w = (Ret (if msn_Status m' = StatusDeleting
      then WriteError 410 ''mission_deleting'' None else WriteJSON 200 key (status_str (msn_Status m'))), [], w)"
    by (simp add: replay_unavailable_def)
  from resolve_again [OF res same, of n] show ?thesis
    using get gone dup mission fp m
    by (auto simp: Dispatch_def start bindM_def [of "resolveStagingMetadata ?H (dr_Files req)"]
        dispatch_resolved_def replay_reply_def bindM_def [of "replay_unavailable key"] ret_def)
qed

text \<open>
  What the rely condition rules out.  When the row appears while the handler writes its events
  file (the two dispatch endpoints have a key lock each), the transaction refuses the second
  row, and the cleanup removes the events file of the mission that is there.
\<close>

lemma collision_removes_events:
  assumes "write_queued H (msn_ID m) (queued_fields (msn_ID m) (he_now H) (msn_Lane m) (msn_MissionName m)) [] w = (Ret (Inr ()), [], w1)"
    and "find_mission (msn_ID m) (wd_db (g w1)) \<noteq> None"
  shows "\<exists>w'. dispatch_commit H g mg m files applied [] w = (Ret (WriteDBError 500, mg), [], w') \<and>
    wd_db w' = wd_db (g w1) \<and> wd_events w' (msn_ID m) = None"
proof -
  have "dispatch_tx H removing m files applied (wd_db (g w1)) = Inl ErrMissionCollision" for removing
    using assms(2) by (auto simp: dispatch_tx_def seq_stmt_def [of "guard_stmt (\<lambda>d. find_mission (msn_ID m) d = None) ErrMissionCollision"] guard_stmt_def)
  then show ?thesis
    using assms(1)
    by (simp add: dispatch_commit_def bindM_def others_def attempt_def tx_once_def effect_def next_fate_def tx_env_def
        WithWriter_def sum_res_def ret_def cleanupOrphanMissionFiles_def remove_events_def remove_def remove_all_def
        insert_error_reply_def WriteDBError_def)
qed

section \<open>Contents of staged files\<close>

text \<open>\<open>C\<close> is the content, as hash and size, of the staged file with a given id.\<close>

definition contents :: "(string \<Rightarrow> string \<times> int) \<Rightarrow> db \<Rightarrow> bool" where
  "contents C d \<longleftrightarrow> (\<forall>i s. find_staging i d = Some s \<longrightarrow> stg_State s = StagingComplete \<longrightarrow> (stg_Sha256 s, stg_Size s) = C i)"

lemma contents_same: "dispatched (contents C) H key req m files \<Longrightarrow> contents C d \<Longrightarrow> same_content files d"
proof -
  assume "dispatched (contents C) H key req m files" and d: "contents C d"
  then obtain d0 where d0: "contents C d0" "resolved H d0 (dr_Files req) files" by (auto simp: dispatched_def)
  have "(fr_Sha256 r, fr_Size r) = C (fr_StagingID r)" if "r \<in> set files" for r
  proof -
    from that d0(2) obtain f where "resolved_as H d0 f r" by (auto simp: list_all2_conv_all_nth in_set_conv_nth)
    with d0(1) show ?thesis by (auto simp: resolved_as_def contents_def)
  qed
  with d show ?thesis by (auto simp: same_content_def contents_def) (metis Pair_inject)+
qed

section \<open>Acceptance\<close>

text \<open>An undisturbed request that passes every check is accepted.\<close>

lemma calm_tx: "tx (wd_db w) = Inr (x, d') \<Longrightarrow> tx_once tx [] w = (Ret x, [], w\<lparr>wd_db := d'\<rparr>)"
  by (simp add: tx_once_def effect_def next_fate_def tx_env_def WithWriter_TxOk sum_res_def)

definition line_ok :: "handler_env \<Rightarrow> fields \<Rightarrow> bool" where
  "line_ok H fs \<longleftrightarrow> lim_MaxEventLineSize (he_limits H) \<le> 0 \<or>
     int (he_msize H (event_of KindQueued 1 fs)) + 1 \<le> lim_MaxEventLineSize (he_limits H)"

lemma write_queued_calm:
  assumes "wd_events w mid = None" and "line_ok H fs"
  shows "\<exists>w'. write_queued H mid fs [] w = (Ret (Inr ()), [], w') \<and> wd_db w' = wd_db w"
  using assms
  by (auto simp: write_queued_def open_queued_def bindM_def attempt_def mkdirAll_def create_events_def append_line_def
      effect_def next_fate_def Create_def ret_def Append_def SetLimits_def new_writer_def empty_file_def write_io_def
      isLifecycle_def Let_def line_ok_def wrap64_def)

definition applied_in :: "db \<Rightarrow> AppliedState \<Rightarrow> bool" where
  "applied_in d s \<longleftrightarrow> (\<exists>c. config_row d = Some c \<and> unmarshal_state c = Inr s)"

lemma lane_ready_calm:
  assumes "applied_in (wd_db w) s" and "map_of (as_Lanes s) lane \<noteq> None" and "\<not> IsLaneRemoving lane mg"
  shows "lane_ready mg lane [] w = (Ret (Inr s), [], w)"
proof -
  have "as_Lanes s \<noteq> []" using assms(2) by auto
  moreover have "readApplied [] w = (Ret (Some s), [], w)"
    using assms(1) by (auto simp: applied_in_def readApplied_def GetAppliedConfig_def)
  ultimately show ?thesis using assms(2,3) by (simp add: lane_ready_def bindM_def [of readApplied])
qed

definition queue_room :: "handler_env \<Rightarrow> string \<Rightarrow> db \<Rightarrow> bool" where
  "queue_room H lane d \<longleftrightarrow>
     (he_MaxQueuePerLane H > 0 \<longrightarrow> int (length (filter (\<lambda>m. msn_Lane m = lane \<and> unfinished m) (missions d))) < he_MaxQueuePerLane H) \<and>
     (he_MaxQueueTotal H > 0 \<longrightarrow> int (length (filter unfinished (missions d))) < he_MaxQueueTotal H)"

lemma backpressure_calm: "queue_room H lane (wd_db w) \<Longrightarrow> backpressure H lane [] w = (Ret None, [], w)"
proof -
  assume room: "queue_room H lane (wd_db w)"
  have count: "count_live P [] w = (Ret (int (length (filter (\<lambda>m. P m \<and> unfinished m) (missions (wd_db w))))), [], w)" for P
    by (simp add: count_live_def)
  show ?thesis using room by (auto simp: backpressure_def queue_room_def bindM_def count)
qed

lemma Dispatch_accepts:
  assumes gates: "dispatch_gates H key (Body req) = Inr req" and inp: "dispatch_input H req = Inr (inp, t)"
    and res: "resolveStagingMetadata H (dr_Files req) [] w = (Ret (Inr files), [], w)"
    and dup: "firstDuplicate (fileRoles (dr_Files req)) = []"
    and fp: "Mission (he_float H) (he_sha H) \<lparr>mi_Lane = dr_Lane req, mi_Mission = dr_Mission req,
        mi_InputCanonical = inp, mi_TimeoutMs = t, mi_Files = files\<rparr> = Some fp"
    and new: "find_mission key (wd_db w) = None" "wd_events w key = None"
    and size: "int (length inp) \<le> he_MaxMissionInputSize H"
    and lane: "applied_in (wd_db w) s" "map_of (as_Lanes s) (dr_Lane req) \<noteq> None" "\<not> IsLaneRemoving (dr_Lane req) mg"
      "\<not> IsLaneRemoving (dr_Lane req) mg'"
    and room: "queue_room H (dr_Lane req) (wd_db w)" and line: "line_ok H (queued_fields key (he_now H) (dr_Lane req) (dr_Mission req))"
    and tx: "dispatch_tx H False (queued_row key KindMission (dr_Lane req) (dr_Mission req) inp fp (he_now H) t) files s (wd_db w) = Inr ((), d')"
  shows "\<exists>w'. Dispatch H id mg mg' key (Body req) [] w = (Ret (WriteJSON 202 key ''queued'', manager_Notify (dr_Lane req) mg'), [], w') \<and>
    wd_db w' = d'"
proof -
  let ?m = "queued_row key KindMission (dr_Lane req) (dr_Mission req) inp fp (he_now H) t"
  have m: "msn_ID ?m = key" "msn_Lane ?m = dr_Lane req" "msn_MissionName ?m = dr_Mission req" by (simp_all add: queued_row_def)
  obtain w1 where w1: "write_queued H key (queued_fields key (he_now H) (dr_Lane req) (dr_Mission req)) [] w = (Ret (Inr ()), [], w1)"
      "wd_db w1 = wd_db w" using write_queued_calm [OF new(2) line] by blast
  have tx1: "tx_once (dispatch_tx H False ?m files s) [] w1 = (Ret (), [], w1\<lparr>wd_db := d'\<rparr>)"
    by (rule calm_tx) (simp add: w1(2) tx)
  have "dispatch_commit H id mg' ?m files s [] w =
      (Ret (WriteJSON 202 key ''queued'', manager_Notify (dr_Lane req) mg'), [], w1\<lparr>wd_db := d'\<rparr>)"
    unfolding dispatch_commit_def m
    by (simp add: bindM_def w1(1) others_def lane(4) attempt_def tx1 m)
  moreover have "GetMission key (wd_db w) = Inl ErrNotFound" using new(1) by (simp add: GetMission_def)
  ultimately show ?thesis
    using size
    by (auto simp: Dispatch_def gates inp bindM_def [of "resolveStagingMetadata H (dr_Files req)"] res dispatch_resolved_def dup fp dispatch_new_def
        bindM_def [of "lane_ready mg (dr_Lane req)"] lane_ready_calm [OF lane(1-3)]
        bindM_def [of "backpressure H (dr_Lane req)"] backpressure_calm [OF room])
qed

section \<open>Keys in use\<close>

text \<open>A request whose key already names a mission changes nothing, whatever fails.\<close>

lemma in_use_reply: "refused (replay_reply key fp m)"
  by (simp add: replay_reply_def)

definition in_use :: "string \<Rightarrow> world \<Rightarrow> world \<Rightarrow> bool" where
  "in_use key w0 w \<longleftrightarrow> w = w0 \<and> find_mission key (wd_db w) \<noteq> None"

lemma in_use_same: "in_use key w0 w \<Longrightarrow> w = w0"
  by (simp add: in_use_def)

lemma lookup_used:
  "triple (in_use key w0) any (attempt (query (GetMission key)))
     (\<lambda>r w. w = w0 \<and> r \<noteq> Inl ErrNotFound) (\<lambda>w. w = w0)"
proof (rule tripleI)
  fix fs w r fs' w'
  assume "in_use key w0 w" "attempt (query (GetMission key)) fs w = (r, fs', w')"
  then show "list_all any fs' \<and> (case r of Ret r \<Rightarrow> w' = w0 \<and> r \<noteq> Inl ErrNotFound | _ \<Rightarrow> w' = w0)"
    by (auto simp: in_use_def attempt_def query_def effect_def next_fate_def sum_res_def GetMission_def list_all_iff
        split: list.splits fate.splits option.splits res.splits prod.splits)
qed

lemma Dispatch_used:
  "triple (in_use key w0) any (Dispatch H g mg mg' key b)
     (\<lambda>p w. w = w0 \<and> refused (fst p)) (\<lambda>w. w = w0)"
  (is "triple ?P any _ ?Q ?E")
proof (cases "dispatch_gates H key b")
  case (Inl rep)
  then have "refused rep" by (auto simp: dispatch_gates_def split: if_splits body.splits)
  with Inl show ?thesis by (auto simp: Dispatch_def in_use_def intro!: triple_ret)
next
  case (Inr req)
  show ?thesis
  proof (cases "dispatch_input H req")
    case inl: (Inl rep)
    then have "refused rep" by (auto simp: dispatch_input_def split: option.splits sum.splits)
    with Inr inl show ?thesis by (auto simp: Dispatch_def in_use_def intro!: triple_ret)
  next
    case inp: (Inr p)
    have found: "triple (\<lambda>w. w = w0 \<and> r \<noteq> Inl ErrNotFound) any
       (case r of Inr m \<Rightarrow> ret (replay_reply key fp m, mg')
        | Inl e \<Rightarrow> if e \<noteq> ErrNotFound then ret (WriteDBError 500, mg') else k) ?Q ?E" for r fp k
      by (cases r) (auto intro!: triple_ret simp: in_use_reply triple_def ret_def)
    have resolved: "triple ?P any (dispatch_resolved H g mg mg' key req c t files) ?Q ?E" for c t files
      unfolding dispatch_resolved_def
      by (auto intro!: triple_ret triple_bind [OF lookup_used] found dest!: in_use_same split: option.split)
    have gone: "triple ?P any (replay_unavailable key) (\<lambda>rep w. w = w0 \<and> refused rep) ?E"
      by (rule triple_conseq [OF replay_unavailable_refused [of ?P]]) (auto simp: in_use_def)
    have keep: "triple ?P any (resolveStagingMetadata H (dr_Files req)) (\<lambda>_. ?P) ?E"
      by (rule triple_conseq [OF resolve_keep [of ?P]]) (auto simp: in_use_def)
    show ?thesis
      unfolding Dispatch_def Inr inp sum.case
      by (cases p, simp only: prod.case)
        (auto intro!: triple_bind [OF keep] triple_ret triple_bind [OF gone] resolved dest!: in_use_same split: sum.split resolve_error.split)
  qed
qed

text \<open>A request that is accepted has passed the checks on its key and names.\<close>

lemma Dispatch_accepted_gates:
  assumes "Dispatch H g mg mg' key b fs w = (Ret (rep, mg1), fs', w')" and "reply_status rep = 202"
  shows "\<exists>req. b = Body req \<and> dispatch_gates H key b = Inr req"
proof (cases "dispatch_gates H key b")
  case (Inl r)
  then have "refused r" by (auto simp: dispatch_gates_def split: if_splits body.splits)
  with Inl assms show ?thesis by (simp add: Dispatch_def ret_def refused_def)
next
  case (Inr req)
  then show ?thesis by (auto simp: dispatch_gates_def split: if_splits body.splits)
qed

lemma gates_names:
  "dispatch_gates H key b = Inr req \<Longrightarrow>
     ValidateUUIDv7 key \<and> ValidateMissionName (dr_Mission req) \<and> ValidateLaneName (dr_Lane req)"
  by (auto simp: dispatch_gates_def split: if_splits body.splits)

end
