(* ===== verification/Lifecycle.thy ===== *)
theory Lifecycle
  imports Enqueue
begin

text \<open>
  The mission control endpoints (\<^verbatim>\<open>internal/server/handlers/missions_restart.go\<close>,
  \<^verbatim>\<open>missions_delete.go\<close>, \<^verbatim>\<open>missions_kill.go\<close>, \<^verbatim>\<open>missions_bulk.go\<close>, \<^verbatim>\<open>kindgate.go\<close>) and the kill
  channels of the running missions (\<^verbatim>\<open>internal/runtime/runtime.go\<close>).  As in the dispatch
  endpoints, what other requests do while a handler runs is an argument.
\<close>

section \<open>Kill channels\<close>

text \<open>\<^verbatim>\<open>killChs\<close>: a channel with a buffer of one per mission that runs.\<close>

type_synonym kill_chs = "string \<rightharpoonup> ExternalKillReason option"

definition preSpawnRegister :: "string \<Rightarrow> kill_chs \<Rightarrow> kill_chs" where
  "preSpawnRegister mid rt = (case rt mid of None \<Rightarrow> rt(mid \<mapsto> None) | Some _ \<Rightarrow> rt)"

text \<open>\<^verbatim>\<open>spawn\<close> uses the channel or makes one, and removes it when the mission has run.\<close>

definition spawn_unregister :: "string \<Rightarrow> kill_chs \<Rightarrow> kill_chs" where
  "spawn_unregister mid rt = rt(mid := None)"

definition SignalKill :: "string \<Rightarrow> ExternalKillReason \<Rightarrow> kill_chs \<Rightarrow> bool \<times> kill_chs" where
  "SignalKill mid reason rt =
     (case rt mid of
        None \<Rightarrow> (False, rt)
      | Some None \<Rightarrow> (True, rt(mid \<mapsto> Some reason))
      | Some (Some _) \<Rightarrow> (False, rt))"

definition IsRunning :: "string \<Rightarrow> kill_chs \<Rightarrow> bool" where
  "IsRunning mid rt \<longleftrightarrow> rt mid \<noteq> None"

section \<open>Outcomes and the kind gate\<close>

record opOutcome =
  oc_Status :: nat
  oc_ErrorCode :: string
  oc_NewID :: string
  oc_StatusName :: string

definition op_zero :: opOutcome where
  "op_zero = \<lparr>oc_Status = 0, oc_ErrorCode = [], oc_NewID = [], oc_StatusName = []\<rparr>"

definition op_error :: "nat \<Rightarrow> string \<Rightarrow> opOutcome" where
  "op_error n code = op_zero\<lparr>oc_Status := n, oc_ErrorCode := code\<rparr>"

definition dbErrorOutcome :: opOutcome where
  "dbErrorOutcome = op_error 500 ''db_error''"

datatype scope = ScopeAdmin | ScopeDispatch | ScopeExec

text \<open>The identity in the request context, and whether its scope allows the kind of the mission.\<close>

definition kindAllowedForCtx :: "scope option \<Rightarrow> mission \<Rightarrow> bool \<times> bool" where
  "kindAllowedForCtx ctx m =
     (case ctx of
        None \<Rightarrow> (False, True)
      | Some ScopeAdmin \<Rightarrow> (True, False)
      | Some ScopeDispatch \<Rightarrow> (msn_Kind m = KindMission, False)
      | Some ScopeExec \<Rightarrow> (msn_Kind m = KindExec, False))"

definition gateKindForMission :: "scope option \<Rightarrow> mission \<Rightarrow> opOutcome" where
  "gateKindForMission ctx m =
     (case kindAllowedForCtx ctx m of
        (allowed, missing) \<Rightarrow>
          if missing then op_error 500 ''internal''
          else if allowed then op_zero
          else op_error 403 ''forbidden_kind'')"

section \<open>Restart\<close>

definition live_refs :: "staging_ref list \<Rightarrow> staging_ref list" where
  "live_refs refs = filter (\<lambda>r. ref_RefKind r \<noteq> RefOutput) refs"

definition restart_row :: "string \<Rightarrow> int \<Rightarrow> mission \<Rightarrow> mission" where
  "restart_row newID nowMs old =
     (queued_row newID (msn_Kind old) (msn_Lane old) (msn_MissionName old) (msn_Input old)
        (msn_InputFingerprint old) nowMs (msn_TimeoutMs old))
       \<lparr>msn_DisplayName := msn_DisplayName old, msn_GroupID := msn_GroupID old,
        msn_RestartedFrom := Some (msn_ID old)\<rparr>"

definition copy_runtime :: "string \<Rightarrow> string \<Rightarrow> unit stmt" where
  "copy_runtime old newID d =
     (case GetRuntime old d of Inl e \<Rightarrow> Inl e | Inr r \<Rightarrow> InsertRuntime (r\<lparr>rt_MissionID := newID\<rparr>) d)"

definition restart_tx :: "handler_env \<Rightarrow> string \<Rightarrow> mission \<Rightarrow> staging_ref list \<Rightarrow> unit stmt" where
  "restart_tx H newID old refs =
     seq_stmt (guard_stmt (\<lambda>d. list_all (\<lambda>r. is_complete (ref_StagingID r) d) refs) ErrStagingRefMissedInTx)
    (seq_stmt (InsertMission (restart_row newID (he_now H) old))
    (seq_stmt (insert_refs (map (\<lambda>r. r\<lparr>ref_MissionID := newID\<rparr>) refs))
    (seq_stmt (each_stmt (recalc_stmt (he_ttl H)) (map ref_StagingID refs))
      (if msn_Kind old = KindMission then copy_runtime (msn_ID old) newID else (\<lambda>d. Inr ((), d))))))"

definition restart_fields :: "string \<Rightarrow> int \<Rightarrow> string \<Rightarrow> fields" where
  "restart_fields newID nowMs old =
     [(''time_created'', JInt nowMs), (''mission_id'', JStr newID), (''restarted_from'', JStr old)]"

text \<open>The events file of the new mission; unlike a dispatch, an existing file is an error.\<close>

definition restart_queued :: "handler_env \<Rightarrow> string \<Rightarrow> fields \<Rightarrow> opOutcome option proc" where
  "restart_queued H mid fs =
     bindM (attempt mkdirAll) (\<lambda>r.
       case r of
         Inl _ \<Rightarrow> ret (Some (op_error 500 ''io_error''))
       | Inr _ \<Rightarrow>
           bindM (attempt (create_events mid)) (\<lambda>c.
             case c of
               Inl _ \<Rightarrow> ret (Some (op_error 500 ''io_error''))
             | Inr None \<Rightarrow> ret (Some (op_error 500 ''io_error''))
             | Inr (Some ew) \<Rightarrow>
                 bindM (attempt (append_line (he_msize H) mid KindQueued fs (SetLimits (he_limits H) ew))) (\<lambda>a.
                   case a of
                     Inl _ \<Rightarrow> bindM (remove_events mid) (\<lambda>_. ret (Some (op_error 500 ''internal'')))
                   | Inr _ \<Rightarrow> ret None)))"

text \<open>The staged inputs, checked before the transaction too; a lookup that fails counts as expired.\<close>

fun refs_complete :: "staging_ref list \<Rightarrow> bool proc" where
  "refs_complete [] = ret True"
| "refs_complete (r # rs) =
     bindM (attempt (query (GetStaging (ref_StagingID r)))) (\<lambda>q.
       case q of
         Inl _ \<Rightarrow> ret False
       | Inr st \<Rightarrow> if stg_State st \<noteq> StagingComplete then ret False else refs_complete rs)"

definition restart_commit ::
  "handler_env \<Rightarrow> (world \<Rightarrow> world) \<Rightarrow> manager \<Rightarrow> string \<Rightarrow> mission \<Rightarrow> staging_ref list \<Rightarrow> (opOutcome \<times> manager) proc" where
  "restart_commit H g mg newID old refs =
     bindM (restart_queued H newID (restart_fields newID (he_now H) (msn_ID old))) (\<lambda>q.
       case q of
         Some out \<Rightarrow> ret (out, mg)
       | None \<Rightarrow>
           bindM (others g) (\<lambda>_.
           bindM (attempt (tx_once (restart_tx H newID old refs))) (\<lambda>r.
             case r of
               Inl e \<Rightarrow>
                 bindM (remove_events newID) (\<lambda>_.
                   ret (if e = ErrStagingRefMissedInTx then op_error 409 ''input_artifacts_expired'' else dbErrorOutcome, mg))
             | Inr _ \<Rightarrow> ret (op_zero\<lparr>oc_Status := 201, oc_NewID := newID\<rparr>, manager_Notify (msn_Lane old) mg))))"

definition restart_checked ::
  "handler_env \<Rightarrow> (world \<Rightarrow> world) \<Rightarrow> manager \<Rightarrow> string \<Rightarrow> mission \<Rightarrow> (opOutcome \<times> manager) proc" where
  "restart_checked H g mg newID old =
     bindM readApplied (\<lambda>applied.
       if (case applied of None \<Rightarrow> False | Some s \<Rightarrow> map_of (as_Lanes s) (msn_Lane old) = None)
       then ret (op_error 400 ''unknown_lane'', mg)
       else bindM (attempt (query (\<lambda>d. Inr (RefsByMission (msn_ID old) d)))) (\<lambda>r.
              case r of
                Inl _ \<Rightarrow> ret (dbErrorOutcome, mg)
              | Inr refs \<Rightarrow>
                  bindM (refs_complete (live_refs refs)) (\<lambda>ok.
                    if \<not> ok then ret (op_error 409 ''input_artifacts_expired'', mg)
                    else case ShardPath newID of
                           Inl _ \<Rightarrow> ret (op_error 500 ''shard_error'', mg)
                         | Inr _ \<Rightarrow> restart_commit H g mg newID old (live_refs refs))))"

text \<open>\<open>newID\<close> is the identifier the generator hands out.\<close>

definition restartOne ::
  "handler_env \<Rightarrow> scope option \<Rightarrow> (world \<Rightarrow> world) \<Rightarrow> manager \<Rightarrow> string \<Rightarrow> string \<Rightarrow> (opOutcome \<times> manager) proc" where
  "restartOne H ctx g mg newID mid =
     (if \<not> ValidateUUIDv7 mid then ret (op_error 400 ''bad_request'', mg)
      else bindM (attempt (query (GetMission mid))) (\<lambda>r.
             case r of
               Inl e \<Rightarrow> ret (if e = ErrNotFound then op_error 404 ''not_found'' else dbErrorOutcome, mg)
             | Inr old \<Rightarrow>
                 if msn_Status old = StatusDeleting then ret (op_error 409 ''mission_deleting'', mg)
                 else if oc_Status (gateKindForMission ctx old) \<noteq> 0 then ret (gateKindForMission ctx old, mg)
                 else if msn_Status old \<noteq> StatusDone then ret (op_error 409 ''mission_not_done'', mg)
                 else restart_checked H g mg newID old))"

section \<open>Delete\<close>

definition markMissionDeleting :: "string \<Rightarrow> unit stmt" where
  "markMissionDeleting mid d =
     Inr ((), d\<lparr>missions := sql_update (\<lambda>m. msn_ID m = mid \<and> msn_Status m \<in> {StatusQueued, StatusDone})
        (\<lambda>m. m\<lparr>msn_Status := StatusDeleting\<rparr>) (missions d)\<rparr>)"

datatype ctx_err = Canceled | DeadlineExceeded

datatype wait_end = Finalized | ForceDeleteTimeout | CtxErr ctx_err | WaitErr error

text \<open>
  What a poll meets: what happened in the world before it, the clock when it compares it with the
  deadline, and whether the request was given up before the next poll.
\<close>

record wait_env =
  we_others :: "nat \<Rightarrow> world \<Rightarrow> world"
  we_now :: "nat \<Rightarrow> int"
  we_done :: "nat \<Rightarrow> ctx_err option"

fun wait_loop :: "wait_env \<Rightarrow> string \<Rightarrow> int \<Rightarrow> nat \<Rightarrow> nat \<Rightarrow> wait_end option proc" where
  "wait_loop W mid deadline k 0 = ret None"
| "wait_loop W mid deadline k (Suc fuel) =
     bindM (others (we_others W k)) (\<lambda>_.
     bindM (attempt (query (GetMission mid))) (\<lambda>r.
       case r of
         Inl e \<Rightarrow> ret (Some (WaitErr e))
       | Inr cur \<Rightarrow>
           if msn_Status cur = StatusDone then ret (Some Finalized)
           else if \<not> we_now W k < deadline then ret (Some ForceDeleteTimeout)
           else case we_done W k of
                  Some c \<Rightarrow> ret (Some (CtxErr c))
                | None \<Rightarrow> wait_loop W mid deadline (Suc k) fuel))"

definition wait_timeout :: "int \<Rightarrow> int" where
  "wait_timeout timeout = (if timeout = 0 then 30000000000 else timeout)"

definition wait_poll :: "int \<Rightarrow> int" where
  "wait_poll poll = (if poll = 0 then 50000000 else poll)"

text \<open>As many polls as fit before the deadline, and the one that sees it passed.\<close>

definition wait_fuel :: "int \<Rightarrow> int \<Rightarrow> nat" where
  "wait_fuel timeout poll = nat (wait_timeout timeout div wait_poll poll) + 2"

definition waitForFinalize :: "wait_env \<Rightarrow> string \<Rightarrow> int \<Rightarrow> int \<Rightarrow> int \<Rightarrow> wait_end option proc" where
  "waitForFinalize W mid start timeout poll =
     wait_loop W mid (start + wait_timeout timeout) 0 (wait_fuel timeout poll)"

text \<open>\<open>Some op_zero\<close> when the mission finalized; \<open>None\<close> while it still waits.\<close>

definition forceKillAndAwaitFinalize ::
  "wait_env \<Rightarrow> kill_chs \<Rightarrow> string \<Rightarrow> int \<Rightarrow> int \<Rightarrow> int \<Rightarrow> (opOutcome option \<times> kill_chs) proc" where
  "forceKillAndAwaitFinalize W rt mid start timeout poll =
     (case SignalKill mid KillForceDelete rt of
        (sent, rt') \<Rightarrow>
          if \<not> sent then ret (Some (op_error 500 ''internal''), rt')
          else bindM (waitForFinalize W mid start timeout poll) (\<lambda>e.
                 ret (case e of
                        None \<Rightarrow> None
                      | Some Finalized \<Rightarrow> Some op_zero
                      | Some ForceDeleteTimeout \<Rightarrow> Some (op_error 504 ''force_delete_timeout'')
                      | Some (CtxErr Canceled) \<Rightarrow> Some (op_error 499 ''client_closed'')
                      | Some _ \<Rightarrow> Some dbErrorOutcome, rt')))"

record delete_env =
  de_ctx :: "scope option"
  de_wait :: wait_env
  de_start :: int
  de_ForceDeleteTimeout :: int
  de_ForceDeletePoll :: int
  de_others :: "world \<Rightarrow> world"

definition mark_reply :: "delete_env \<Rightarrow> string \<Rightarrow> opOutcome proc" where
  "mark_reply X mid =
     bindM (others (de_others X)) (\<lambda>_.
     bindM (attempt (tx_once (markMissionDeleting mid))) (\<lambda>r.
       ret (case r of
              Inl _ \<Rightarrow> dbErrorOutcome
            | Inr _ \<Rightarrow> op_zero\<lparr>oc_Status := 202, oc_StatusName := ''deletion_pending''\<rparr>)))"

definition deleteOne :: "delete_env \<Rightarrow> kill_chs \<Rightarrow> string \<Rightarrow> bool \<Rightarrow> (opOutcome option \<times> kill_chs) proc" where
  "deleteOne X rt mid force =
     (if \<not> ValidateUUIDv7 mid then ret (Some (op_error 400 ''bad_request''), rt)
      else bindM (attempt (query (GetMission mid))) (\<lambda>r.
             case r of
               Inl e \<Rightarrow> ret (Some (if e = ErrNotFound then op_error 404 ''not_found'' else dbErrorOutcome), rt)
             | Inr m \<Rightarrow>
                 if msn_Status m = StatusDeleting
                 then ret (Some (op_zero\<lparr>oc_Status := 202, oc_StatusName := ''deletion_pending''\<rparr>), rt)
                 else if oc_Status (gateKindForMission (de_ctx X) m) \<noteq> 0 then ret (Some (gateKindForMission (de_ctx X) m), rt)
                 else if msn_Status m = StatusRunning then
                   (if \<not> force then ret (Some (op_error 409 ''mission_running''), rt)
                    else bindM (forceKillAndAwaitFinalize (de_wait X) rt mid (de_start X)
                           (de_ForceDeleteTimeout X) (de_ForceDeletePoll X)) (\<lambda>(out, rt').
                           case out of
                             None \<Rightarrow> ret (None, rt')
                           | Some res \<Rightarrow>
                               if oc_Status res \<noteq> 0 then ret (Some res, rt')
                               else bindM (mark_reply X mid) (\<lambda>res'. ret (Some res', rt'))))
                 else bindM (mark_reply X mid) (\<lambda>res. ret (Some res, rt))))"

section \<open>Kill\<close>

definition Kill ::
  "fin_env \<Rightarrow> string \<Rightarrow> scope option \<Rightarrow> kill_chs \<Rightarrow> string \<Rightarrow> (reply \<times> kill_chs) proc" where
  "Kill E dataDir ctx rt mid =
     (if \<not> ValidateUUIDv7 mid then ret (WriteError 400 ''bad_request'' None, rt)
      else bindM (attempt (query (GetMission mid))) (\<lambda>r.
             case r of
               Inl e \<Rightarrow> ret (if e = ErrNotFound then WriteError 404 ''not_found'' None else WriteDBError 500, rt)
             | Inr m \<Rightarrow>
                 let gate = gateKindForMission ctx m
                 in if oc_Status gate \<noteq> 0 then ret (WriteError (oc_Status gate) (oc_ErrorCode gate) None, rt)
                    else case msn_Status m of
                           StatusDone \<Rightarrow> ret (WriteError 409 ''mission_done'' None, rt)
                         | StatusDeleting \<Rightarrow> ret (WriteError 409 ''mission_deleting'' None, rt)
                         | StatusQueued \<Rightarrow>
                             bindM (attempt (KillQueued E dataDir mid (msn_Lane m) ''killed_by_api'')) (\<lambda>k.
                               ret (case k of
                                      Inl e \<Rightarrow> if e = ErrMissionNotQueued then WriteError 409 ''mission_state_changed'' None
                                               else WriteDBError 500
                                    | Inr _ \<Rightarrow> WriteJSON 200 mid ''killed'', rt))
                         | StatusRunning \<Rightarrow>
                             (case SignalKill mid KillByAPI rt of
                                (sent, rt') \<Rightarrow>
                                  if sent then ret (WriteJSON 200 mid ''kill_sent'', rt')
                                  else bindM (attempt (query (GetMission mid))) (\<lambda>q.
                                         ret (case q of
                                                Inr cur \<Rightarrow>
                                                  if msn_Status cur = StatusDone then WriteError 409 ''mission_done'' None
                                                  else if msn_Status cur = StatusDeleting then WriteError 409 ''mission_deleting'' None
                                                  else WriteError 500 ''internal'' None
                                              | Inl _ \<Rightarrow> WriteError 500 ''internal'' None, rt')))))"

section \<open>Bulk operations\<close>

record bulkResultItem =
  bi_ID :: string
  bi_OK :: bool
  bi_Error :: string
  bi_MissionID :: string
  bi_Status :: string

definition maxBulkIDs :: nat where
  "maxBulkIDs = 1000"

definition decodeBulk :: "(string list \<times> bool) body \<Rightarrow> reply + string list \<times> bool" where
  "decodeBulk b =
     (case b of
        TooLarge \<Rightarrow> Inl (WriteError 413 ''payload_too_large'' None)
      | BadJSON \<Rightarrow> Inl (WriteError 400 ''bad_request'' None)
      | Body (ids, force) \<Rightarrow>
          if ids = [] \<or> length ids > maxBulkIDs then Inl (WriteError 400 ''bad_request'' None)
          else Inr (ids, force))"

definition restartToBulk :: "string \<Rightarrow> opOutcome \<Rightarrow> bulkResultItem" where
  "restartToBulk mid res =
     (if oc_Status res \<ge> 400
      then \<lparr>bi_ID = mid, bi_OK = False, bi_Error = oc_ErrorCode res, bi_MissionID = [], bi_Status = []\<rparr>
      else \<lparr>bi_ID = mid, bi_OK = True, bi_Error = [], bi_MissionID = oc_NewID res, bi_Status = []\<rparr>)"

definition deleteToBulk :: "string \<Rightarrow> opOutcome \<Rightarrow> bulkResultItem" where
  "deleteToBulk mid res =
     (if oc_Status res \<ge> 400
      then \<lparr>bi_ID = mid, bi_OK = False, bi_Error = oc_ErrorCode res, bi_MissionID = [], bi_Status = []\<rparr>
      else \<lparr>bi_ID = mid, bi_OK = True, bi_Error = [], bi_MissionID = [], bi_Status = oc_StatusName res\<rparr>)"

text \<open>The \<open>k\<close>-th restart draws the identifier \<open>newIDs k\<close>.\<close>

fun restart_each ::
  "handler_env \<Rightarrow> scope option \<Rightarrow> (world \<Rightarrow> world) \<Rightarrow> (nat \<Rightarrow> string) \<Rightarrow> nat \<Rightarrow> manager \<Rightarrow> string list \<Rightarrow>
   (bulkResultItem list \<times> manager) proc" where
  "restart_each H ctx g newIDs k mg [] = ret ([], mg)"
| "restart_each H ctx g newIDs k mg (mid # ids) =
     bindM (restartOne H ctx g mg (newIDs k) mid) (\<lambda>(res, mg1).
     bindM (restart_each H ctx g newIDs (Suc k) mg1 ids) (\<lambda>(items, mg2). ret (restartToBulk mid res # items, mg2)))"

definition BulkRestart ::
  "handler_env \<Rightarrow> scope option \<Rightarrow> (world \<Rightarrow> world) \<Rightarrow> (nat \<Rightarrow> string) \<Rightarrow> manager \<Rightarrow> (string list \<times> bool) body \<Rightarrow>
   ((reply + bulkResultItem list) \<times> manager) proc" where
  "BulkRestart H ctx g newIDs mg b =
     (case decodeBulk b of
        Inl rep \<Rightarrow> ret (Inl rep, mg)
      | Inr (ids, _) \<Rightarrow> bindM (restart_each H ctx g newIDs 0 mg ids) (\<lambda>(items, mg'). ret (Inr items, mg')))"

fun delete_each :: "(nat \<Rightarrow> delete_env) \<Rightarrow> kill_chs \<Rightarrow> nat \<Rightarrow> string list \<Rightarrow> bool \<Rightarrow> (bulkResultItem list option \<times> kill_chs) proc" where
  "delete_each X rt k [] force = ret (Some [], rt)"
| "delete_each X rt k (mid # ids) force =
     bindM (deleteOne (X k) rt mid force) (\<lambda>(res, rt1).
       case res of
         None \<Rightarrow> ret (None, rt1)
       | Some out \<Rightarrow>
           bindM (delete_each X rt1 (Suc k) ids force) (\<lambda>(items, rt2).
             ret (map_option (\<lambda>l. deleteToBulk mid out # l) items, rt2)))"

definition BulkDelete ::
  "(nat \<Rightarrow> delete_env) \<Rightarrow> kill_chs \<Rightarrow> (string list \<times> bool) body \<Rightarrow> ((reply + bulkResultItem list) option \<times> kill_chs) proc" where
  "BulkDelete X rt b =
     (case decodeBulk b of
        Inl rep \<Rightarrow> ret (Some (Inl rep), rt)
      | Inr (ids, force) \<Rightarrow>
          bindM (delete_each X rt 0 ids force) (\<lambda>(items, rt'). ret (map_option Inr items, rt')))"

section \<open>Restarted missions\<close>

lemma copy_runtime_rows:
  "copy_runtime old newID d = Inr (u, d') \<Longrightarrow> \<exists>r. InsertRuntime r d = Inr (u, d') \<and> rt_MissionID r = newID"
  by (auto simp: copy_runtime_def split: sum.splits)

abbreviation new_refs :: "string \<Rightarrow> staging_ref list \<Rightarrow> staging_ref list" where
  "new_refs newID refs \<equiv> map (\<lambda>r. r\<lparr>ref_MissionID := newID\<rparr>) refs"

lemma restart_row_simps [simp]:
  "msn_ID (restart_row newID now old) = newID" "msn_Status (restart_row newID now old) = StatusQueued"
  by (simp_all add: restart_row_def queued_row_def)

lemma restart_tx_enqueues:
  assumes tx: "restart_tx H newID old refs d = Inr (u, d')" and ok: "db_ok d"
  shows "enqueued (restart_row newID (he_now H) old) (new_refs newID refs) d d'"
proof -
  let ?m = "restart_row newID (he_now H) old"
  from tx obtain d1 d2 d3 where comp: "list_all (\<lambda>r. is_complete (ref_StagingID r) d) refs"
    and ins: "InsertMission ?m d = Inr ((), d1)" and refs: "insert_refs (new_refs newID refs) d1 = Inr ((), d2)"
    and rec: "each_stmt (recalc_stmt (he_ttl H)) (map ref_StagingID refs) d2 = Inr ((), d3)"
    and rt: "(if msn_Kind old = KindMission then copy_runtime (msn_ID old) newID else (\<lambda>d. Inr ((), d))) d3 = Inr (u, d')"
    by (auto simp: restart_tx_def stmt_Inr)
  have "db_ok d2" using ok InsertMission_db_ok [OF ins] insert_refs_rows [OF refs] by blast
  have e: "enqueued ?m (new_refs newID refs) d d3"
    by (rule enqueue_core [OF ok _ ins refs \<open>db_ok d2\<close> _ rec, of "mission_runtime d2"])
      (use comp in \<open>auto simp: list_all_iff\<close>)
  show ?thesis
  proof (cases "msn_Kind old = KindMission")
    case True
    with rt obtain r where "InsertRuntime r d3 = Inr (u, d')" using copy_runtime_rows by fastforce
    with e show ?thesis by (rule enqueued_runtime)
  qed (use e rt in simp)
qed

text \<open>Every outcome but 201 is a refusal.\<close>

definition op_refused :: "opOutcome \<Rightarrow> bool" where
  "op_refused out \<longleftrightarrow> oc_Status out \<noteq> 201"

lemma op_refused_simps [simp]:
  "op_refused (op_error n c) \<longleftrightarrow> n \<noteq> 201" "op_refused dbErrorOutcome" "\<not> op_refused (op_zero\<lparr>oc_Status := 201, oc_NewID := i\<rparr>)"
  by (simp_all add: op_refused_def op_error_def dbErrorOutcome_def op_zero_def)

lemma restart_queued_vacant:
  "triple (vacant D mid) any (restart_queued H mid fs)
     (\<lambda>r w. vacant D mid w \<and> (case r of Some out \<Rightarrow> op_refused out | None \<Rightarrow> noted fs mid w)) (vacant D mid)"
proof -
  have create: "triple (vacant D mid) any (attempt (create_events mid))
      (\<lambda>r w. vacant D mid w \<and> (\<forall>ew. r = Inr (Some ew) \<longrightarrow> made ew mid w)) (vacant D mid)"
    by (rule triple_attempt [OF triple_conseq [OF create_vacant]]) auto
  have append: "triple (\<lambda>w. vacant D mid w \<and> made ew mid w) any
      (attempt (append_line (he_msize H) mid KindQueued fs (SetLimits (he_limits H) ew)))
      (\<lambda>a w. vacant D mid w \<and> ((\<exists>x. a = Inr x) \<longrightarrow> noted fs mid w)) (vacant D mid)" for ew
    by (rule triple_attempt [OF triple_conseq [OF append_noted [of D mid ew]]]) auto
  show ?thesis
    unfolding restart_queued_def
    by (intro triple_bind [OF triple_attempt_keep [OF mkdirAll_keep]])
      (auto intro!: triple_ret triple_bind [OF create] triple_bind [OF append] triple_bind [OF remove_events_vacant]
        split: sum.split option.split)
qed

text \<open>What a restart that succeeded did.\<close>

definition restarted :: "(db \<Rightarrow> bool) \<Rightarrow> handler_env \<Rightarrow> string \<Rightarrow> string \<Rightarrow> world \<Rightarrow> bool" where
  "restarted D H newID mid w \<longleftrightarrow>
     (\<exists>old refs. msn_ID old = mid \<and> msn_Status old = StatusDone \<and> (\<exists>d. D d \<and> find_mission mid d = Some old \<and> refs = live_refs (RefsByMission mid d)) \<and>
        created D (restart_fields newID (he_now H) mid) (restart_row newID (he_now H) old) (new_refs newID refs) w)"

lemma restart_commit_outcome:
  assumes st: "steady D newID g"
  shows "triple (vacant D newID) any (restart_commit H g mg newID old refs)
     (\<lambda>p w. if op_refused (fst p) then vacant D newID w
        else created D (restart_fields newID (he_now H) (msn_ID old)) (restart_row newID (he_now H) old) (new_refs newID refs) w)
     (vacant D newID)"
  unfolding restart_commit_def
proof (rule triple_bind [OF restart_queued_vacant])
  let ?fs = "restart_fields newID (he_now H) (msn_ID old)" and ?m = "restart_row newID (he_now H) old"
  let ?post = "\<lambda>p w. if op_refused (fst p) then vacant D newID w else created D ?fs ?m (new_refs newID refs) w"
  fix r
  have tx: "triple (\<lambda>w. vacant D newID w \<and> noted ?fs newID w) any (attempt (tx_once (restart_tx H newID old refs)))
     (\<lambda>r w. case r of Inl _ \<Rightarrow> vacant D newID w | Inr _ \<Rightarrow> created D ?fs ?m (new_refs newID refs) w) (vacant D newID)"
    by (rule tx_creates [of "restart_tx H newID old refs" ?m "new_refs newID refs" D ?fs,
        unfolded restart_row_simps, OF restart_tx_enqueues refl])
  show "triple (\<lambda>w. vacant D newID w \<and> (case r of Some out \<Rightarrow> op_refused out | None \<Rightarrow> noted ?fs newID w)) any
     (case r of Some out \<Rightarrow> ret (out, mg) | None \<Rightarrow>
        bindM (others g) (\<lambda>_.
        bindM (attempt (tx_once (restart_tx H newID old refs))) (\<lambda>r.
          case r of
            Inl e \<Rightarrow> bindM (remove_events newID) (\<lambda>_.
              ret (if e = ErrStagingRefMissedInTx then op_error 409 ''input_artifacts_expired'' else dbErrorOutcome, mg))
          | Inr _ \<Rightarrow> ret (op_zero\<lparr>oc_Status := 201, oc_NewID := newID\<rparr>, manager_Notify (msn_Lane old) mg))))
     ?post (vacant D newID)"
    by (cases r) (auto intro!: triple_ret triple_bind [OF others_steady [OF st]] triple_bind [OF tx]
        triple_bind [OF remove_events_vacant] split: sum.split)
qed

lemma refs_complete_keep: "triple P any (refs_complete rs) (\<lambda>_. P) P"
  by (induction rs) (auto intro!: triple_ret triple_ask split: sum.split)

text \<open>A query whose answer is remembered while the world stays as it is.\<close>

lemma triple_asked:
  assumes "\<And>x. triple (\<lambda>w. P w \<and> (\<forall>y. x = Inr y \<longrightarrow> q (wd_db w) = Inr y)) any (k x) Q E" and "\<And>w. P w \<Longrightarrow> E w"
  shows "triple P any (bindM (attempt (query q)) k) Q E"
proof (rule triple_bind [OF _ assms(1)])
  show "triple P any (attempt (query q)) (\<lambda>x w. P w \<and> (\<forall>y. x = Inr y \<longrightarrow> q (wd_db w) = Inr y)) E"
    by (rule triple_attempt [where E' = P], rule triple_query) (use assms(2) in auto)
qed

definition restart_outcome :: "(db \<Rightarrow> bool) \<Rightarrow> handler_env \<Rightarrow> string \<Rightarrow> string \<Rightarrow> opOutcome \<times> manager \<Rightarrow> world \<Rightarrow> bool" where
  "restart_outcome D H newID mid p w \<longleftrightarrow> (if op_refused (fst p) then vacant D newID w else restarted D H newID mid w)"

lemma restart_outcome_refused: "vacant D newID w \<Longrightarrow> op_refused out \<Longrightarrow> restart_outcome D H newID mid (out, mg) w"
  by (simp add: restart_outcome_def)

lemma restart_checked_outcome:
  assumes st: "steady D newID g" and old: "msn_ID old = mid" "msn_Status old = StatusDone"
  shows "triple (\<lambda>w. vacant D newID w \<and> find_mission mid (wd_db w) = Some old) any (restart_checked H g mg newID old)
     (restart_outcome D H newID mid) (vacant D newID)"
proof -
  let ?P = "\<lambda>w. vacant D newID w \<and> find_mission mid (wd_db w) = Some old"
  have commit: "triple (\<lambda>w. ?P w \<and> RefsByMission mid (wd_db w) = refs) any (restart_commit H g mg newID old (live_refs refs))
      (restart_outcome D H newID mid) (vacant D newID)" for refs
  proof (rule triple_pure [where b = "\<exists>d. D d \<and> find_mission mid d = Some old \<and> RefsByMission mid d = refs"])
    assume d: "\<exists>d. D d \<and> find_mission mid d = Some old \<and> RefsByMission mid d = refs"
    show "triple (\<lambda>w. ?P w \<and> RefsByMission mid (wd_db w) = refs) any (restart_commit H g mg newID old (live_refs refs))
      (restart_outcome D H newID mid) (vacant D newID)"
      by (rule triple_conseq [OF restart_commit_outcome [OF st, of H mg old "live_refs refs"]])
        (use d old in \<open>auto simp: restart_outcome_def restarted_def split: if_splits\<close>)
  qed (auto simp: vacant_def)
  have refs: "triple (\<lambda>w. ?P w \<and> (\<forall>y. x = Inr y \<longrightarrow> RefsByMission mid (wd_db w) = y)) any
     (case x of Inl _ \<Rightarrow> ret (dbErrorOutcome, mg)
      | Inr refs \<Rightarrow> bindM (refs_complete (live_refs refs)) (\<lambda>ok.
          if \<not> ok then ret (op_error 409 ''input_artifacts_expired'', mg)
          else case ShardPath newID of Inl _ \<Rightarrow> ret (op_error 500 ''shard_error'', mg)
            | Inr _ \<Rightarrow> restart_commit H g mg newID old (live_refs refs)))
     (restart_outcome D H newID mid) (vacant D newID)" for x :: "error + staging_ref list"
  proof (cases x)
    case (Inr refs)
    show ?thesis unfolding Inr using commit [of refs]
      by (auto intro!: triple_ret restart_outcome_refused triple_bind_weak [OF refs_complete_keep] simp: conj_assoc split: sum.split)
  qed (auto intro!: triple_ret restart_outcome_refused)
  show ?thesis
    unfolding restart_checked_def
    by (rule triple_bind_weak [OF readApplied_keep])
      (use refs old in \<open>auto intro!: triple_ret restart_outcome_refused triple_asked\<close>)
qed

lemma gate_refused: "op_refused (gateKindForMission ctx m) \<or> oc_Status (gateKindForMission ctx m) = 0"
  by (auto simp: gateKindForMission_def op_zero_def split: prod.split)

lemma restartOne_outcome:
  assumes st: "steady D newID g"
  shows "triple (vacant D newID) any (restartOne H ctx g mg newID mid) (restart_outcome D H newID mid) (vacant D newID)"
proof -
  have step: "triple (\<lambda>w. vacant D newID w \<and> GetMission mid (wd_db w) = Inr old) any
      (if msn_Status old = StatusDeleting then ret (op_error 409 ''mission_deleting'', mg)
       else if oc_Status (gateKindForMission ctx old) \<noteq> 0 then ret (gateKindForMission ctx old, mg)
       else if msn_Status old \<noteq> StatusDone then ret (op_error 409 ''mission_not_done'', mg)
       else restart_checked H g mg newID old) (restart_outcome D H newID mid) (vacant D newID)" for old
  proof (rule triple_pure [where b = "msn_ID old = mid"])
    assume "msn_ID old = mid"
    then have "triple (\<lambda>w. vacant D newID w \<and> GetMission mid (wd_db w) = Inr old) any (restart_checked H g mg newID old)
       (restart_outcome D H newID mid) (vacant D newID)" if "msn_Status old = StatusDone"
      by (rule triple_weaken_pre [OF restart_checked_outcome [OF st _ that]]) (auto simp: GetMission_def split: option.splits)
    then show "triple (\<lambda>w. vacant D newID w \<and> GetMission mid (wd_db w) = Inr old) any
      (if msn_Status old = StatusDeleting then ret (op_error 409 ''mission_deleting'', mg)
       else if oc_Status (gateKindForMission ctx old) \<noteq> 0 then ret (gateKindForMission ctx old, mg)
       else if msn_Status old \<noteq> StatusDone then ret (op_error 409 ''mission_not_done'', mg)
       else restart_checked H g mg newID old) (restart_outcome D H newID mid) (vacant D newID)"
      using gate_refused [of ctx old] by (auto intro!: triple_ret restart_outcome_refused)
  qed (auto simp: GetMission_def find_mission_def split: option.splits dest: sql_find_Some_in)
  have ask: "triple (\<lambda>w. vacant D newID w \<and> (\<forall>y. x = Inr y \<longrightarrow> GetMission mid (wd_db w) = Inr y)) any
     (case x of Inl e \<Rightarrow> ret (if e = ErrNotFound then op_error 404 ''not_found'' else dbErrorOutcome, mg)
      | Inr old \<Rightarrow>
         if msn_Status old = StatusDeleting then ret (op_error 409 ''mission_deleting'', mg)
         else if oc_Status (gateKindForMission ctx old) \<noteq> 0 then ret (gateKindForMission ctx old, mg)
         else if msn_Status old \<noteq> StatusDone then ret (op_error 409 ''mission_not_done'', mg)
         else restart_checked H g mg newID old) (restart_outcome D H newID mid) (vacant D newID)" for x
  proof (cases x)
    case (Inr old)
    show ?thesis unfolding Inr using step [of old] by simp
  qed (auto intro!: triple_ret restart_outcome_refused)
  show ?thesis
    unfolding restartOne_def by (auto intro!: triple_ret restart_outcome_refused triple_asked ask)
qed

text \<open>A bulk restart: the drawn identifiers are new and different from each other.\<close>

definition unused :: "(nat \<Rightarrow> string) \<Rightarrow> nat \<Rightarrow> db \<Rightarrow> bool" where
  "unused newIDs k d \<longleftrightarrow> (\<forall>j \<ge> k. find_mission (newIDs j) d = None)"

lemma unused_next:
  assumes "inj newIDs" and "unused newIDs k d" and "missions d' = missions d @ [m]" and "msn_ID m = newIDs k"
  shows "unused newIDs (Suc k) d'"
proof -
  have "newIDs j \<noteq> newIDs k" if "Suc k \<le> j" for j using that injD [OF assms(1), of j k] by auto
  with assms(2-) show ?thesis by (fastforce simp: unused_def find_mission_def)
qed

lemma restart_each_inv:
  assumes inj: "inj newIDs" and st: "\<And>k. steady (unused newIDs k) (newIDs k) g"
  shows "triple (base (unused newIDs k)) any (restart_each H ctx g newIDs k mg ids) (\<lambda>_. fin_inv) fin_inv"
proof (induction ids arbitrary: k mg)
  case Nil
  show ?case by (auto intro: triple_ret)
next
  case (Cons mid ids)
  have one: "triple (base (unused newIDs k)) any (restartOne H ctx g mg (newIDs k) mid) (\<lambda>_. base (unused newIDs (Suc k))) fin_inv"
  proof (rule triple_conseq [OF restartOne_outcome [OF st]])
    fix w p
    show "base (unused newIDs k) w \<Longrightarrow> vacant (unused newIDs k) (newIDs k) w" by (simp add: vacant_def unused_def)
    show "vacant (unused newIDs k) (newIDs k) w \<Longrightarrow> fin_inv w" by (simp add: vacant_def)
    assume o: "restart_outcome (unused newIDs k) H (newIDs k) mid p w"
    show "base (unused newIDs (Suc k)) w"
    proof (cases "op_refused (fst p)")
      case True
      with o show ?thesis by (simp add: restart_outcome_def vacant_def unused_def)
    next
      case False
      with o show ?thesis
        using unused_next [OF inj] by (auto simp: restart_outcome_def restarted_def created_def enqueued_def)
    qed
  qed
  show ?case
    by (auto intro!: triple_bind [OF one] triple_bind [OF Cons.IH] triple_ret split: prod.split)
qed

section \<open>Deleted missions\<close>

definition delete_marked :: "string \<Rightarrow> db \<Rightarrow> db" where
  "delete_marked mid d = snd (projr (markMissionDeleting mid d))"

lemma markMissionDeleting_eq: "markMissionDeleting mid d = Inr ((), delete_marked mid d)"
  by (simp add: delete_marked_def markMissionDeleting_def)

interpretation mark_deleting: key_preserving msn_ID "\<lambda>m. m\<lparr>msn_Status := StatusDeleting\<rparr>"
  by unfold_locales simp

lemma delete_marked_rows:
  "find_mission i (delete_marked mid d) =
     map_option (\<lambda>m. if i = mid \<and> msn_Status m \<in> {StatusQueued, StatusDone} then m\<lparr>msn_Status := StatusDeleting\<rparr> else m)
       (find_mission i d)"
  by (cases "find_mission i d")
    (auto simp: delete_marked_def markMissionDeleting_def find_mission_def mark_deleting.find_update dest: sql_find_Some_in)

lemma marked_quiet: "db_ok d \<Longrightarrow> quiet d (delete_marked mid d)"
  using db_ok_missions_update [of "\<lambda>m. m\<lparr>msn_Status := StatusDeleting\<rparr>" d]
  by (auto simp: quiet_def delete_marked_def markMissionDeleting_def sql_update_def)

lemma delete_marked_inv: "fin_inv w \<Longrightarrow> fin_inv (w\<lparr>wd_db := delete_marked mid (wd_db w)\<rparr>)"
  by (rule quiet_inv) (simp_all add: marked_quiet fin_inv_def)

text \<open>What the handler assumes of other requests.\<close>

definition harmless :: "(db \<Rightarrow> bool) \<Rightarrow> (world \<Rightarrow> world) \<Rightarrow> bool" where
  "harmless D g \<longleftrightarrow> (\<forall>w. base D w \<longrightarrow> base D (g w))"

lemma others_harmless: "harmless D g \<Longrightarrow> triple (base D) any (others g) (\<lambda>_. base D) E"
  by (simp add: triple_def others_def harmless_def)

lemma wait_loop_keep:
  assumes "\<And>k. harmless D (we_others W k)"
  shows "triple (base D) any (wait_loop W mid deadline k fuel) (\<lambda>_. base D) (base D)"
  by (induction fuel arbitrary: k)
    (auto intro!: triple_ret triple_bind [OF others_harmless [OF assms]] triple_ask split: sum.split option.split)

text \<open>With a clock that advances at least by the polling interval the loop comes to an end.\<close>

lemma wait_loop_ends:
  assumes "k \<le> n" and "n < k + fuel" and "deadline \<le> we_now W n"
  shows "triple (\<lambda>_. True) any (wait_loop W mid deadline k fuel) (\<lambda>r _. r \<noteq> None) (\<lambda>_. True)"
  using assms
proof (induction fuel arbitrary: k)
  case (Suc fuel)
  have rest: "triple (\<lambda>_. True) any (wait_loop W mid deadline (Suc k) fuel) (\<lambda>r _. r \<noteq> None) (\<lambda>_. True)"
    if "we_now W k < deadline"
  proof (rule Suc.IH)
    show "Suc k \<le> n" using that Suc.prems(1,3) by (cases "k = n") auto
  qed (use Suc.prems in auto)
  have "triple (\<lambda>_. True) any (others (we_others W k)) (\<lambda>_ _. True) (\<lambda>_. True)"
    by (simp add: triple_def others_def)
  then show ?case
    using rest by (auto intro!: triple_ret triple_bind triple_ask split: sum.split option.split)
qed simp

definition clock_law :: "wait_env \<Rightarrow> int \<Rightarrow> int \<Rightarrow> bool" where
  "clock_law W start poll \<longleftrightarrow> (\<forall>k. start + int k * wait_poll poll \<le> we_now W k)"

lemma waitForFinalize_ends:
  assumes "0 \<le> timeout" and "0 \<le> poll" and "clock_law W start poll"
  shows "triple (\<lambda>_. True) any (waitForFinalize W mid start timeout poll) (\<lambda>r _. r \<noteq> None) (\<lambda>_. True)"
  unfolding waitForFinalize_def
proof (rule wait_loop_ends)
  let ?t = "wait_timeout timeout" and ?p = "wait_poll poll"
  let ?n = "nat (?t div ?p) + 1"
  have p: "0 < ?p" "0 \<le> ?t" using assms by (auto simp: wait_poll_def wait_timeout_def)
  have "?t = ?t div ?p * ?p + ?t mod ?p" by simp
  also have "\<dots> < ?t div ?p * ?p + ?p" using pos_mod_bound [OF p(1), of ?t] by (intro add_strict_left_mono)
  finally have "?t < (?t div ?p + 1) * ?p" by (simp add: algebra_simps)
  then have "?t \<le> int ?n * ?p" using p by (simp add: pos_imp_zdiv_nonneg_iff add.commute)
  also have "start + int ?n * ?p \<le> we_now W ?n" using assms(3) by (simp only: clock_law_def)
  finally show "start + ?t \<le> we_now W ?n" by simp
qed (simp_all add: wait_fuel_def)

text \<open>A delete marks the mission, or leaves the database as it was.\<close>

definition deleted_or_kept :: "(db \<Rightarrow> bool) \<Rightarrow> string \<Rightarrow> opOutcome option \<Rightarrow> world \<Rightarrow> bool" where
  "deleted_or_kept D mid out w \<longleftrightarrow>
     fin_inv w \<and> (D (wd_db w) \<or> (out \<noteq> None \<and> oc_Status (the out) = 202 \<and> (\<exists>d. D d \<and> wd_db w = delete_marked mid d)))"

lemma kept [simp]: "fin_inv w \<Longrightarrow> D (wd_db w) \<Longrightarrow> deleted_or_kept D mid out w"
  by (simp add: deleted_or_kept_def)

lemma mark_reply_outcome:
  assumes "harmless D (de_others X)"
  shows "triple (base D) any (mark_reply X mid) (\<lambda>out. deleted_or_kept D mid (Some out)) (base D)"
proof -
  have mark: "triple (base D) any (attempt (tx_once (markMissionDeleting mid)))
     (\<lambda>r w. case r of Inl _ \<Rightarrow> base D w | Inr _ \<Rightarrow> fin_inv w \<and> (\<exists>d. D d \<and> wd_db w = delete_marked mid d)) (base D)"
  proof (rule triple_attempt [where E' = "base D"])
    show "triple (base D) any (tx_once (markMissionDeleting mid))
       (\<lambda>x w. case Inr x of Inl _ \<Rightarrow> base D w | Inr _ \<Rightarrow> fin_inv w \<and> (\<exists>d. D d \<and> wd_db w = delete_marked mid d)) (base D)"
      by (rule triple_tx_once)
        (auto simp: markMissionDeleting_eq intro!: delete_marked_inv)
  qed simp_all
  show ?thesis
    unfolding mark_reply_def
    by (auto intro!: triple_bind [OF others_harmless [OF assms]] triple_bind [OF mark] triple_ret
        simp: deleted_or_kept_def op_zero_def split: sum.splits)
qed

lemma forceKill_keep:
  assumes "\<And>k. harmless D (we_others W k)"
  shows "triple (base D) any (forceKillAndAwaitFinalize W rt mid start timeout poll) (\<lambda>_. base D) (base D)"
  unfolding forceKillAndAwaitFinalize_def waitForFinalize_def
  by (auto intro!: triple_ret triple_bind [OF wait_loop_keep [OF assms]] split: prod.split)

lemma deleteOne_outcome:
  assumes "\<And>k. harmless D (we_others (de_wait X) k)" and "harmless D (de_others X)"
  shows "triple (base D) any (deleteOne X rt mid force) (\<lambda>p. deleted_or_kept D mid (fst p)) (base D)"
proof -
  note mark = triple_bind [OF mark_reply_outcome [OF assms(2)]]
  have kill: "triple (base D) any (case out of None \<Rightarrow> ret (None, rt')
      | Some res \<Rightarrow> if oc_Status res \<noteq> 0 then ret (Some res, rt')
          else bindM (mark_reply X mid) (\<lambda>res'. ret (Some res', rt')))
      (\<lambda>p. deleted_or_kept D mid (fst p)) (base D)" for out rt'
    by (auto intro!: triple_ret mark split: option.split)
  show ?thesis
    unfolding deleteOne_def
    by (auto intro!: triple_ret mark triple_ask triple_bind [OF forceKill_keep [OF assms(1)]] kill split: sum.split)
qed

lemma deleteOne_returns:
  assumes "0 \<le> de_ForceDeleteTimeout X" and "0 \<le> de_ForceDeletePoll X"
    and "clock_law (de_wait X) (de_start X) (de_ForceDeletePoll X)"
  shows "triple (\<lambda>_. True) any (deleteOne X rt mid force) (\<lambda>p _. fst p \<noteq> None) (\<lambda>_. True)"
proof -
  have mark: "triple (\<lambda>_. True) any (mark_reply X mid) (\<lambda>_ _. True) (\<lambda>_. True)"
    by (simp add: triple_def split: prod.split res.split) (simp add: list_all_iff)
  have kill: "triple (\<lambda>_. True) any (forceKillAndAwaitFinalize (de_wait X) rt mid (de_start X)
      (de_ForceDeleteTimeout X) (de_ForceDeletePoll X)) (\<lambda>p _. fst p \<noteq> None) (\<lambda>_. True)"
    unfolding forceKillAndAwaitFinalize_def
    by (auto intro!: triple_ret triple_bind [OF waitForFinalize_ends [OF assms]] split: prod.split option.split wait_end.split ctx_err.split)
  show ?thesis
    unfolding deleteOne_def
    by (auto intro!: triple_ret triple_ask triple_bind [OF kill] triple_bind [OF mark] split: sum.split option.split prod.split)
qed

text \<open>
  A queued mission that the lane picks up between the read and the update stays as it is, and
  the request is answered as if it were being deleted.
\<close>

lemma delete_misses_pickup:
  assumes "find_mission mid (wd_db (de_others X w)) = Some m" and "msn_Status m = StatusRunning" and "db_ok (wd_db (de_others X w))"
  shows "\<exists>w'. mark_reply X mid [] w = (Ret (op_zero\<lparr>oc_Status := 202, oc_StatusName := ''deletion_pending''\<rparr>), [], w') \<and>
    find_mission mid (wd_db w') = Some m"
  using delete_marked_rows [of mid mid "wd_db (de_others X w)"] assms
  by (simp add: mark_reply_def bindM_def others_def attempt_def tx_once_def effect_def next_fate_def tx_env_def
      WithWriter_TxOk sum_res_def ret_def markMissionDeleting_eq)

section \<open>Killed missions\<close>

lemma Kill_inv: "triple fin_inv any (Kill E dataDir ctx rt mid) (\<lambda>_. fin_inv) fin_inv"
  unfolding Kill_def
  by (auto intro!: triple_ret triple_ask triple_bind [OF triple_attempt_keep [OF KillQueued_inv]]
      simp: Let_def split: sum.split status.split prod.split)

end
