(* ===== verification/StagingApi.thy ===== *)
theory StagingApi
  imports Lifecycle
begin

text \<open>
  The endpoints of the staging store other than the upload
  (\<^verbatim>\<open>internal/server/handlers/staging.go\<close>): delete, download, status, listing and lookup by
  content, on the world of the finalize protocol.  What other requests, the lanes and the
  cleaners do while a handler runs is an argument, as in the mission endpoints.
\<close>

section \<open>Texts of a request\<close>

text \<open>\<^verbatim>\<open>strconv.ParseInt(s, 10, 64)\<close>; \<^verbatim>\<open>strconv.Atoi\<close> is the same on a 64-bit platform.\<close>

definition ParseInt64 :: "string \<Rightarrow> int option" where
  "ParseInt64 s =
     (let (neg, ds) = (case s of [] \<Rightarrow> (False, [])
                       | c # cs \<Rightarrow> if c = CHR ''+'' then (False, cs) else if c = CHR ''-'' then (True, cs) else (False, s));
          v = (if neg then - int (dec_val ds) else int (dec_val ds))
      in if ds = [] \<or> \<not> list_all is_digit ds \<or> \<not> in_i64 v then None else Some v)"

definition sha256Regex :: "string \<Rightarrow> bool" where
  "sha256Regex s \<longleftrightarrow> length s = 64 \<and> list_all hex_char s"

definition ToLower :: "string \<Rightarrow> string" where
  "ToLower s = map lower_char s"

section \<open>Delete\<close>

text \<open>A reply: 202 deletion pending, or an error with the missions its details name.\<close>

datatype delete_reply = DeletionPending | DeleteError nat string "string list"

fun distinct_from :: "string list \<Rightarrow> staging_ref list \<Rightarrow> string list" where
  "distinct_from seen [] = []"
| "distinct_from seen (r # rs) =
     (if ref_MissionID r \<in> set seen then distinct_from seen rs
      else ref_MissionID r # distinct_from (ref_MissionID r # seen) rs)"

definition distinctMissionIDs :: "staging_ref list \<Rightarrow> string list" where
  "distinctMissionIDs = distinct_from []"

definition mission_runs :: "db \<Rightarrow> string \<Rightarrow> bool" where
  "mission_runs d mid = (case find_mission mid d of None \<Rightarrow> False | Some m \<Rightarrow> msn_Status m = StatusRunning)"

text \<open>The missions that stand against the delete when its transaction looks.\<close>

definition conflictMissions :: "bool \<Rightarrow> string \<Rightarrow> db \<Rightarrow> string list" where
  "conflictMissions force sid d =
     (let ms = distinctMissionIDs (RefsByStaging sid d)
      in if force then filter (mission_runs d) ms else ms)"

definition staging_delete_tx :: "bool \<Rightarrow> string \<Rightarrow> unit stmt" where
  "staging_delete_tx force sid =
     seq_stmt (guard_stmt (\<lambda>d. conflictMissions force sid d = []) ErrStagingDeleteConflict)
    (seq_stmt (\<lambda>d. if force then each_stmt markMissionDeleting (distinctMissionIDs (RefsByStaging sid d)) d
                   else Inr ((), d))
      (MarkStagingDeleting sid))"

text \<open>What the handler meets: one wait per mission it kills, and the others before its transaction.\<close>

record sdelete_env =
  sd_wait :: "string \<Rightarrow> wait_env"
  sd_start :: "string \<Rightarrow> int"
  sd_ForceDeleteTimeout :: int
  sd_ForceDeletePoll :: int
  sd_others :: "world \<Rightarrow> world"

text \<open>The kill pass: \<open>Inr ()\<close> when every running mission has finalized, \<open>Inl None\<close> while it waits.\<close>

fun kill_pass :: "sdelete_env \<Rightarrow> kill_chs \<Rightarrow> string list \<Rightarrow> ((delete_reply option + unit) \<times> kill_chs) proc" where
  "kill_pass X rt [] = ret (Inr (), rt)"
| "kill_pass X rt (mid # mids) =
     bindM (attempt (query (GetMission mid))) (\<lambda>r.
       case r of
         Inl e \<Rightarrow> if e = ErrNotFound then kill_pass X rt mids
                  else ret (Inl (Some (DeleteError 500 ''db_error'' [])), rt)
       | Inr m \<Rightarrow>
           if msn_Status m \<noteq> StatusRunning then kill_pass X rt mids
           else bindM (forceKillAndAwaitFinalize (sd_wait X mid) rt mid (sd_start X mid)
                  (sd_ForceDeleteTimeout X) (sd_ForceDeletePoll X)) (\<lambda>(out, rt').
                  case out of
                    None \<Rightarrow> ret (Inl None, rt')
                  | Some res \<Rightarrow>
                      if oc_Status res \<noteq> 0
                      then ret (Inl (Some (DeleteError (oc_Status res) (oc_ErrorCode res) [])), rt')
                      else kill_pass X rt' mids))"

text \<open>The transaction and the reply; a conflict rolls back, so its missions are read off the database.\<close>

definition delete_commit :: "sdelete_env \<Rightarrow> string \<Rightarrow> bool \<Rightarrow> delete_reply proc" where
  "delete_commit X sid force =
     bindM (others (sd_others X)) (\<lambda>_.
     bindM (attempt (tx_once (staging_delete_tx force sid))) (\<lambda>r fs w.
       (Ret (case r of
               Inr _ \<Rightarrow> DeletionPending
             | Inl e \<Rightarrow>
                 if e = ErrStagingDeleteConflict
                 then DeleteError 409 ''staging_in_use'' (conflictMissions force sid (wd_db w))
                 else if e = ErrStagingFinalizing then DeleteError 409 ''staging_finalizing'' []
                 else DeleteError 500 ''db_error'' []), fs, w)))"

text \<open>The handler once it has read the row and its refs.\<close>

definition delete_referenced ::
  "sdelete_env \<Rightarrow> kill_chs \<Rightarrow> string \<Rightarrow> bool \<Rightarrow> staging_ref list \<Rightarrow> (delete_reply option \<times> kill_chs) proc" where
  "delete_referenced X rt sid force refs =
     (if refs \<noteq> [] \<and> \<not> force
      then ret (Some (DeleteError 409 ''staging_in_use'' (distinctMissionIDs refs)), rt)
      else bindM (if force then kill_pass X rt (distinctMissionIDs refs) else ret (Inr (), rt)) (\<lambda>(k, rt').
        case k of
          Inl out \<Rightarrow> ret (out, rt')
        | Inr _ \<Rightarrow> bindM (delete_commit X sid force) (\<lambda>out. ret (Some out, rt'))))"

text \<open>\<^verbatim>\<open>strings.EqualFold\<close> with "true", none of whose letters folds to a letter outside ASCII.\<close>

definition force_param :: "string \<Rightarrow> bool" where
  "force_param s \<longleftrightarrow> ToLower s = ''true''"

definition staging_Delete ::
  "sdelete_env \<Rightarrow> kill_chs \<Rightarrow> string \<Rightarrow> string \<Rightarrow> (delete_reply option \<times> kill_chs) proc" where
  "staging_Delete X rt sid force_text =
     (let force = force_param force_text
      in if \<not> ValidateUUIDv7 sid then ret (Some (DeleteError 400 ''bad_request'' []), rt)
      else bindM (attempt (query (GetStaging sid))) (\<lambda>r.
        case r of
          Inl e \<Rightarrow> ret (Some (if e = ErrNotFound then DeleteError 404 ''not_found'' []
                               else DeleteError 500 ''db_error'' []), rt)
        | Inr sf \<Rightarrow>
            if stg_State sf = StagingDeleting then ret (Some DeletionPending, rt)
            else bindM (attempt (query (\<lambda>d. Inr (RefsByStaging sid d)))) (\<lambda>q.
              case q of
                Inl _ \<Rightarrow> ret (Some (DeleteError 500 ''db_error'' []), rt)
              | Inr refs \<Rightarrow>
                  delete_referenced X rt sid force refs)))"

section \<open>Download\<close>

datatype served_from = FromStore | FromTombstone

datatype get_reply = GetError nat string | Served nat served_from string

text \<open>\<^verbatim>\<open>os.Open\<close> of the file, and of the tombstone when the collector has moved it there.\<close>

definition open_if :: "(world \<Rightarrow> bool) \<Rightarrow> unit proc" where
  "open_if there = effect (\<lambda>f w. case f of
       FCrash _ \<Rightarrow> (Crash, w)
     | FErr _ \<Rightarrow> (Err ErrIO, w)
     | _ \<Rightarrow> (if there w then Ret () else Err ErrNotFound, w))"

definition open_staged :: "string \<Rightarrow> string \<Rightarrow> string \<Rightarrow> served_from proc" where
  "open_staged dataDir path sid =
     bindM (attempt (open_if (\<lambda>w. wd_files w (path_join dataDir path) \<noteq> None))) (\<lambda>r.
       case r of
         Inr _ \<Rightarrow> ret FromStore
       | Inl e \<Rightarrow>
           if e = ErrNotFound
           then bindM (open_if (\<lambda>w. sid \<in> fst ` set (wd_tomb w))) (\<lambda>_. ret FromTombstone)
           else err e)"

definition mark_downloaded :: "string \<Rightarrow> int \<Rightarrow> unit stmt" where
  "mark_downloaded sid now d =
     Inr ((), d\<lparr>staging_files := sql_update (\<lambda>s. stg_StagingID s = sid \<and> stg_DownloadedAt s = None)
        (\<lambda>s. s\<lparr>stg_DownloadedAt := Some now\<rparr>) (staging_files d)\<rparr>)"

text \<open>
  \<open>served\<close> is the status \<^verbatim>\<open>http.ServeContent\<close> writes for the request's Range and conditional
  headers.
\<close>

definition staging_Get :: "string \<Rightarrow> int \<Rightarrow> nat \<Rightarrow> string \<Rightarrow> get_reply proc" where
  "staging_Get dataDir now served sid =
     (if \<not> ValidateUUIDv7 sid then ret (GetError 400 ''bad_request'')
      else bindM (attempt (query (GetStaging sid))) (\<lambda>r.
        case r of
          Inl e \<Rightarrow> ret (if e = ErrNotFound then GetError 404 ''not_found'' else GetError 500 ''db_error'')
        | Inr sf \<Rightarrow>
            (case stg_State sf of
               StagingUploading \<Rightarrow> ret (GetError 409 ''staging_uploading'')
             | StagingDeleting \<Rightarrow> ret (GetError 410 ''deleting'')
             | StagingComplete \<Rightarrow>
                 bindM (attempt (open_staged dataDir (stg_Path sf) sid)) (\<lambda>f.
                   case f of
                     Inl e \<Rightarrow> ret (if e = ErrNotFound then GetError 410 ''gone'' else GetError 500 ''io_error'')
                   | Inr c \<Rightarrow>
                       bindM (if served = 200 \<and> stg_DownloadedAt sf = None
                              then bindM (attempt (tx_once (mark_downloaded sid now))) (\<lambda>_. ret ()) else ret ()) (\<lambda>_.
                       ret (Served served c (stg_Sha256 sf))))
             | _ \<Rightarrow> ret (GetError 500 ''internal''))))"

section \<open>Status, listing and lookup\<close>

datatype head_reply = HeadStatus nat "(string \<times> string) list"

fun state_text :: "staging_state \<Rightarrow> string" where
  "state_text StagingUploading = ''uploading''"
| "state_text StagingPendingOutput = ''pending_output''"
| "state_text StagingCommitting = ''committing''"
| "state_text StagingComplete = ''complete''"
| "state_text StagingDeleting = ''deleting''"

definition head_headers :: "staging_file \<Rightarrow> (string \<times> string) list" where
  "head_headers sf =
     (''X-Letts-Sha256'', stg_Sha256 sf) #
     (case stg_State sf of
        StagingComplete \<Rightarrow>
          [(''Content-Length'', itoa (stg_Size sf)), (''X-Letts-Upload-Status'', ''complete'')]
      | StagingUploading \<Rightarrow>
          [(''X-Letts-Upload-Status'', ''incomplete''), (''X-Letts-Bytes-Received'', itoa (stg_BytesReceived sf)),
           (''X-Letts-Total-Size'', itoa (stg_Size sf))]
      | StagingDeleting \<Rightarrow> [(''X-Letts-Upload-Status'', ''deleting'')]
      | st \<Rightarrow> [(''X-Letts-Upload-Status'', state_text st)])"

definition staging_Head :: "string \<Rightarrow> db \<Rightarrow> head_reply" where
  "staging_Head sid d =
     (if \<not> ValidateUUIDv7 sid then HeadStatus 400 []
      else case GetStaging sid d of
             Inl e \<Rightarrow> HeadStatus (if e = ErrNotFound then 404 else 500) []
           | Inr sf \<Rightarrow> HeadStatus 200 (head_headers sf))"

datatype list_reply = ListError nat string | Listed "(staging_file \<times> staging_ref) list" "staging_cursor option"

text \<open>
  The query parameters: the cursor as \<^verbatim>\<open>decodeStagingCursor\<close> makes it (base64 and JSON), the
  others as texts.
\<close>

record list_query =
  lq_mission_id :: string
  lq_ref_kind :: string
  lq_limit :: string
  lq_cursor :: "unit + staging_cursor option"

definition ref_kind_of :: "string \<Rightarrow> ref_kind option option" where
  "ref_kind_of s =
     (if s = [] then Some None else if s = ''input'' then Some (Some RefInput)
      else if s = ''output'' then Some (Some RefOutput) else if s = ''script'' then Some (Some RefScript) else None)"

definition list_limit :: "string \<Rightarrow> int option" where
  "list_limit s =
     (if s = [] then Some 100
      else case ParseInt64 s of None \<Rightarrow> None | Some v \<Rightarrow> if v \<le> 0 then None else Some (min v 1000))"

definition staging_page ::
  "string \<Rightarrow> ref_kind option \<Rightarrow> staging_cursor option \<Rightarrow> int \<Rightarrow> db \<Rightarrow> (staging_file \<times> staging_ref) list \<times> staging_cursor option" where
  "staging_page mid kind cur limit d =
     (let rows = ListStagingByMission mid kind cur (limit + 1) d
      in if int (length rows) > limit
         then let last = fst (rows ! nat (limit - 1))
              in (take (nat limit) rows,
                  Some \<lparr>scur_TimeCreatedMs = stg_TimeCreatedMs last, scur_StagingID = stg_StagingID last\<rparr>)
         else (rows, None))"

definition staging_List :: "list_query \<Rightarrow> db \<Rightarrow> list_reply" where
  "staging_List q d =
     (if lq_mission_id q = [] \<or> \<not> ValidateUUIDv7 (lq_mission_id q) then ListError 400 ''bad_request''
      else case ref_kind_of (lq_ref_kind q) of
        None \<Rightarrow> ListError 400 ''bad_request''
      | Some kind \<Rightarrow>
          (case list_limit (lq_limit q) of
             None \<Rightarrow> ListError 400 ''bad_request''
           | Some limit \<Rightarrow>
               (case lq_cursor q of
                  Inl _ \<Rightarrow> ListError 400 ''bad_request''
                | Inr cur \<Rightarrow> (case staging_page (lq_mission_id q) kind cur limit d of (rows, next) \<Rightarrow> Listed rows next))))"

datatype content_reply = ContentError nat string | Found string string int

definition staging_ByContent :: "int \<Rightarrow> string \<Rightarrow> string \<Rightarrow> db \<Rightarrow> content_reply" where
  "staging_ByContent maxUpload sha_text size_text d =
     (let sha = ToLower sha_text
      in if \<not> sha256Regex sha then ContentError 400 ''bad_request''
      else if size_text = [] then ContentError 400 ''bad_request''
      else case ParseInt64 size_text of
             None \<Rightarrow> ContentError 400 ''bad_request''
           | Some sz \<Rightarrow>
               if sz \<le> 0 then ContentError 400 ''bad_request''
               else if maxUpload > 0 \<and> sz > maxUpload then ContentError 400 ''bad_request''
               else (case LookupStagingByContent sha sz d of
                      Inl e \<Rightarrow> if e = ErrNotFound then ContentError 404 ''not_found'' else ContentError 500 ''db_error''
                    | Inr sf \<Rightarrow> Found (stg_StagingID sf) (stg_Sha256 sf) (stg_Size sf)))"

section \<open>What a delete does\<close>

lemma distinct_from_set: "set (distinct_from seen rs) = ref_MissionID ` set rs - set seen"
  by (induction rs arbitrary: seen) auto

lemma distinct_from_distinct: "distinct (distinct_from seen rs)"
  by (induction rs arbitrary: seen) (auto simp: distinct_from_set)

lemma distinctMissionIDs_set [simp]: "set (distinctMissionIDs rs) = ref_MissionID ` set rs"
  by (simp add: distinctMissionIDs_def distinct_from_set)

text \<open>Whether a mission of the database refers to a staging row.\<close>

definition refers :: "string \<Rightarrow> db \<Rightarrow> string \<Rightarrow> bool" where
  "refers sid d mid \<longleftrightarrow> (\<exists>r \<in> set (staging_refs d). ref_StagingID r = sid \<and> ref_MissionID r = mid)"

lemma refers_ids: "refers sid d mid \<longleftrightarrow> mid \<in> set (distinctMissionIDs (RefsByStaging sid d))"
  by (auto simp: refers_def RefsByStaging_def)

lemma conflictMissions_none:
  "conflictMissions force sid d = [] \<longleftrightarrow>
     (\<forall>mid. refers sid d mid \<longrightarrow> force \<and> \<not> mission_runs d mid)"
  by (cases "distinctMissionIDs (RefsByStaging sid d)")
    (auto simp: conflictMissions_def Let_def refers_ids filter_empty_conv)

lemma each_mark:
  "each_stmt markMissionDeleting mids d =
     Inr ((), d\<lparr>missions := sql_update (\<lambda>m. msn_ID m \<in> set mids \<and> msn_Status m \<in> {StatusQueued, StatusDone})
        (\<lambda>m. m\<lparr>msn_Status := StatusDeleting\<rparr>) (missions d)\<rparr>)"
proof (induction mids arbitrary: d)
  case Nil
  show ?case by (simp add: sql_update_def)
next
  case (Cons mid mids)
  have "each_stmt markMissionDeleting (mid # mids) d = each_stmt markMissionDeleting mids (delete_marked mid d)"
    by (simp add: markMissionDeleting_eq)
  then show ?case
    unfolding Cons.IH by (simp only:)
      (auto simp: delete_marked_def markMissionDeleting_def sql_update_def
        intro!: arg_cong [where f = "\<lambda>ms. d\<lparr>missions := ms\<rparr>"])
qed

text \<open>
  The effect of an accepted delete: no mission that refers to the row runs, those still queued
  or done are marked, the row is marked, and nothing else changes.
\<close>

definition staging_removed :: "bool \<Rightarrow> string \<Rightarrow> db \<Rightarrow> db \<Rightarrow> bool" where
  "staging_removed force sid d d' \<longleftrightarrow>
     (\<forall>m \<in> set (missions d). refers sid d (msn_ID m) \<longrightarrow> force \<and> msn_Status m \<noteq> StatusRunning) \<and>
     missions d' = map (\<lambda>m. if refers sid d (msn_ID m) then m\<lparr>msn_Status := StatusDeleting\<rparr> else m) (missions d) \<and>
     (\<exists>s. find_staging sid d = Some s \<and> stg_State s \<in> {StagingUploading, StagingComplete, StagingDeleting}) \<and>
     staging_files d' = map (\<lambda>s. if stg_StagingID s = sid then s\<lparr>stg_State := StagingDeleting\<rparr> else s) (staging_files d) \<and>
     staging_refs d' = staging_refs d \<and> finalize_intents d' = finalize_intents d \<and>
     mission_runtime d' = mission_runtime d \<and> config_row d' = config_row d"

lemma MarkStagingDeleting_cases:
  assumes "db_ok d"
  shows "MarkStagingDeleting sid d = Inr ((), d') \<longleftrightarrow>
    (\<exists>s. find_staging sid d = Some s \<and> stg_State s \<in> {StagingUploading, StagingComplete, StagingDeleting}) \<and>
    d' = d\<lparr>staging_files := map (\<lambda>s. if stg_StagingID s = sid then s\<lparr>stg_State := StagingDeleting\<rparr> else s) (staging_files d)\<rparr>"
proof (cases "find_staging sid d")
  case None
  then have "sql_find stg_StagingID sid (staging_files d) = None" by (simp add: find_staging_def)
  with assms None show ?thesis
    by (simp add: MarkStagingDeleting_def guarded_staging_def sql_affected_key db_ok_keyed GetStaging_def)
next
  case (Some s)
  have only: "t = s" if "t \<in> set (staging_files d)" "stg_StagingID t = sid" for t
    using Some that sql_find_in [OF db_ok_keyed(3) [OF assms], of t] by (simp add: find_staging_def)
  have same: "map (\<lambda>s. if stg_StagingID s = sid then s\<lparr>stg_State := StagingDeleting\<rparr> else s) (staging_files d) = staging_files d"
    if "stg_State s = StagingDeleting"
    using only that by (auto intro!: map_idI)
  have upd: "sql_update (\<lambda>s. stg_StagingID s = sid \<and> stg_State s \<in> {StagingUploading, StagingComplete})
      (\<lambda>s. s\<lparr>stg_State := StagingDeleting\<rparr>) (staging_files d) =
      map (\<lambda>s. if stg_StagingID s = sid then s\<lparr>stg_State := StagingDeleting\<rparr> else s) (staging_files d)"
    if "stg_State s \<in> {StagingUploading, StagingComplete}"
    using only that by (auto simp: sql_update_def)
  from assms Some only same upd show ?thesis
    by (cases "stg_State s")
      (auto simp: MarkStagingDeleting_def guarded_staging_def sql_affected_key db_ok_keyed GetStaging_def find_staging_def)
qed

lemma marked_all:
  assumes "\<forall>m \<in> set ms. R (msn_ID m) \<longrightarrow> msn_Status m \<noteq> StatusRunning"
  shows "sql_update (\<lambda>m. R (msn_ID m) \<and> msn_Status m \<in> {StatusQueued, StatusDone}) (\<lambda>m. m\<lparr>msn_Status := StatusDeleting\<rparr>) ms =
    map (\<lambda>m. if R (msn_ID m) then m\<lparr>msn_Status := StatusDeleting\<rparr> else m) ms"
  unfolding sql_update_def
proof (rule map_cong [OF refl])
  fix m
  assume "m \<in> set ms"
  with assms show "(if R (msn_ID m) \<and> msn_Status m \<in> {StatusQueued, StatusDone} then m\<lparr>msn_Status := StatusDeleting\<rparr> else m) =
      (if R (msn_ID m) then m\<lparr>msn_Status := StatusDeleting\<rparr> else m)"
    by (cases "msn_Status m") auto
qed

lemma no_conflict_rows:
  assumes "db_ok d" and "conflictMissions force sid d = []"
  shows "\<forall>m \<in> set (missions d). refers sid d (msn_ID m) \<longrightarrow> force \<and> msn_Status m \<noteq> StatusRunning"
proof (intro ballI impI)
  fix m
  assume m: "m \<in> set (missions d)" and "refers sid d (msn_ID m)"
  with assms(2) have "force \<and> \<not> mission_runs d (msn_ID m)" by (simp add: conflictMissions_none)
  moreover have "find_mission (msn_ID m) d = Some m"
    using m db_ok_keyed(1) [OF assms(1)] by (simp add: find_mission_def sql_find_in)
  ultimately show "force \<and> msn_Status m \<noteq> StatusRunning" by (simp add: mission_runs_def)
qed

lemma not_force_no_refs:
  assumes "db_ok d" and "conflictMissions False sid d = []"
  shows "\<not> refers sid d mid"
  using assms(2) by (simp add: conflictMissions_none)

lemma staging_delete_tx_removed:
  assumes ok: "db_ok d" and run: "staging_delete_tx force sid d = Inr ((), d')"
  shows "staging_removed force sid d d'"
proof -
  define d1 where "d1 = d\<lparr>missions := map (\<lambda>m. if refers sid d (msn_ID m) then m\<lparr>msn_Status := StatusDeleting\<rparr> else m) (missions d)\<rparr>"
  from run have free: "conflictMissions force sid d = []"
    by (auto simp: staging_delete_tx_def seq_stmt_def guard_stmt_def split: if_splits)
  note rows = no_conflict_rows [OF ok free]
  have mid: "(if force then each_stmt markMissionDeleting (distinctMissionIDs (RefsByStaging sid d)) d else Inr ((), d)) = Inr ((), d1)"
  proof (cases force)
    case True
    show ?thesis
      using True marked_all [of "missions d" "refers sid d"] rows
      by (simp add: each_mark d1_def refers_ids del: distinctMissionIDs_set)
  next
    case False
    with free not_force_no_refs [OF ok] show ?thesis by (simp add: d1_def)
  qed
  have ok1: "db_ok d1"
    unfolding d1_def sql_update_def [symmetric] by (rule db_ok_missions_update) (simp_all add: ok)
  from run free mid have "MarkStagingDeleting sid d1 = Inr ((), d')"
    by (simp add: staging_delete_tx_def seq_stmt_def guard_stmt_def)
  with MarkStagingDeleting_cases [OF ok1] rows show ?thesis
    by (auto simp: staging_removed_def d1_def find_staging_def)
qed

lemma staging_removed_db_ok:
  assumes "staging_removed force sid d d'" and "db_ok d"
  shows "db_ok d'"
proof -
  define d1 where "d1 = d\<lparr>missions := missions d'\<rparr>"
  have "missions d' = sql_update (\<lambda>m. refers sid d (msn_ID m)) (\<lambda>m. m\<lparr>msn_Status := StatusDeleting\<rparr>) (missions d)"
    using assms(1) by (simp add: staging_removed_def sql_update_def)
  with assms(2) have "db_ok d1" unfolding d1_def by (simp add: db_ok_missions_update)
  then have "db_ok (d1\<lparr>staging_files := sql_update (\<lambda>s. stg_StagingID s = sid) (\<lambda>s. s\<lparr>stg_State := StagingDeleting\<rparr>) (staging_files d1)\<rparr>)"
    by (rule staging_update_db_ok [rotated]) simp
  also have "d1\<lparr>staging_files := sql_update (\<lambda>s. stg_StagingID s = sid) (\<lambda>s. s\<lparr>stg_State := StagingDeleting\<rparr>) (staging_files d1)\<rparr> = d'"
    using assms(1) by (simp add: d1_def staging_removed_def sql_update_def)
  finally show ?thesis .
qed

lemma staging_removed_inv:
  assumes "fin_inv w" and "staging_removed force sid (wd_db w) d'"
  shows "fin_inv (w\<lparr>wd_db := d'\<rparr>)"
proof (rule quiet_inv [OF assms(1)])
  have "db_ok d'" using staging_removed_db_ok [OF assms(2)] assms(1) by (simp add: fin_inv_def)
  moreover have "m \<in> set (missions (wd_db w))" if "m \<in> set (missions d')" "msn_Status m = StatusDone" for m
    using assms(2) that by (auto simp: staging_removed_def split: if_splits)
  ultimately show "quiet (wd_db w) d'" using assms(2) by (auto simp: quiet_def staging_removed_def)
qed

text \<open>An accepted delete has removed the row, or found it being deleted; any other reply keeps the database.\<close>

definition removed_or_kept :: "(db \<Rightarrow> bool) \<Rightarrow> bool \<Rightarrow> string \<Rightarrow> delete_reply option \<Rightarrow> world \<Rightarrow> bool" where
  "removed_or_kept D force sid out w \<longleftrightarrow>
     fin_inv w \<and>
     (D (wd_db w) \<and> (out = Some DeletionPending \<longrightarrow> (\<exists>s. find_staging sid (wd_db w) = Some s \<and> stg_State s = StagingDeleting))
      \<or> out = Some DeletionPending \<and> (\<exists>d. D d \<and> staging_removed force sid d (wd_db w)))"

lemma removed_or_kept_error [simp]: "base D w \<Longrightarrow> out \<noteq> Some DeletionPending \<Longrightarrow> removed_or_kept D force sid out w"
  by (simp add: removed_or_kept_def)

definition undecided :: "(db \<Rightarrow> bool) \<Rightarrow> (delete_reply option + unit) \<times> kill_chs \<Rightarrow> world \<Rightarrow> bool" where
  "undecided D p w \<longleftrightarrow> base D w \<and> fst p \<noteq> Inl (Some DeletionPending)"

lemma kill_pass_keep:
  assumes "\<And>mid k. harmless D (we_others (sd_wait X mid) k)"
  shows "triple (base D) any (kill_pass X rt mids)
     (undecided D) (base D)"
proof (induction mids arbitrary: rt)
  case Nil
  show ?case by (auto intro!: triple_ret simp: undecided_def)
next
  case (Cons mid mids)
  have stop: "triple (base D) any (ret (Inl out, rt')) (undecided D) (base D)" if "out \<noteq> Some DeletionPending" for out rt'
    using that by (auto intro!: triple_ret simp: undecided_def)
  show ?case
    by (auto intro!: triple_ask stop Cons.IH triple_bind [OF forceKill_keep [OF assms]] split: sum.split option.split)
qed

lemma delete_commit_outcome:
  assumes "harmless D (sd_others X)"
  shows "triple (base D) any (delete_commit X sid force) (\<lambda>out. removed_or_kept D force sid (Some out)) (base D)"
proof -
  have tx: "triple (base D) any (attempt (tx_once (staging_delete_tx force sid)))
     (\<lambda>r w. case r of Inl _ \<Rightarrow> base D w | Inr _ \<Rightarrow> removed_or_kept D force sid (Some DeletionPending) w) (base D)"
  proof (rule triple_attempt [where E' = "base D"])
    show "triple (base D) any (tx_once (staging_delete_tx force sid))
       (\<lambda>x w. case Inr x of Inl _ \<Rightarrow> base D w | Inr _ \<Rightarrow> removed_or_kept D force sid (Some DeletionPending) w) (base D)"
    proof (rule triple_tx_once)
      fix w x d'
      assume w: "base D w" and "staging_delete_tx force sid (wd_db w) = Inr (x, d')"
      then have "staging_removed force sid (wd_db w) d'"
        using staging_delete_tx_removed [of "wd_db w" force sid d'] by (simp add: fin_inv_def)
      with w staging_removed_inv [of w force sid d']
      show "case Inr x of Inl _ \<Rightarrow> base D (w\<lparr>wd_db := d'\<rparr>) | Inr _ \<Rightarrow> removed_or_kept D force sid (Some DeletionPending) (w\<lparr>wd_db := d'\<rparr>)"
        by (auto simp: removed_or_kept_def)
    qed simp_all
  qed simp_all
  show ?thesis
    unfolding delete_commit_def
    by (rule triple_bind [OF others_harmless [OF assms]], rule triple_bind [OF tx])
      (auto simp: triple_def split: sum.splits)
qed

lemma delete_referenced_outcome:
  assumes "\<And>mid k. harmless D (we_others (sd_wait X mid) k)" and "harmless D (sd_others X)"
  shows "triple (base D) any (delete_referenced X rt sid force refs) (\<lambda>p. removed_or_kept D force sid (fst p)) (base D)"
proof -
  let ?post = "\<lambda>p. removed_or_kept D force sid (fst p)"
  have commit: "triple (base D) any (bindM (delete_commit X sid force) (\<lambda>out. ret (Some out, rt'))) ?post (base D)" for rt'
    by (rule triple_bind [OF delete_commit_outcome [OF assms(2)]]) (auto intro: triple_ret)
  have pass: "triple (base D) any (if force then kill_pass X rt mids else ret (Inr (), rt)) (undecided D) (base D)" for mids
    using triple_ret [of "base D" "undecided D" "(Inr (), rt)"] by (auto intro!: kill_pass_keep assms simp: undecided_def)
  have "triple (undecided D p) any (case p of (k, rt') \<Rightarrow> case k of Inl out \<Rightarrow> ret (out, rt')
      | Inr _ \<Rightarrow> bindM (delete_commit X sid force) (\<lambda>out. ret (Some out, rt'))) ?post (base D)" for p
    by (cases p; cases "fst p") (auto intro!: triple_ret triple_weaken_pre [OF commit] simp: undecided_def)
  from triple_bind [OF pass this] show ?thesis
    by (auto simp: delete_referenced_def intro!: triple_ret)
qed

lemma staging_Delete_outcome:
  assumes "\<And>mid k. harmless D (we_others (sd_wait X mid) k)" and "harmless D (sd_others X)"
  shows "triple (base D) any (staging_Delete X rt sid force_text)
     (\<lambda>p. removed_or_kept D (force_param force_text) sid (fst p)) (base D)"
proof -
  let ?post = "\<lambda>p. removed_or_kept D (force_param force_text) sid (fst p)"
  have ask: "triple (base D) any (bindM (attempt (query (\<lambda>d. Inr (RefsByStaging sid d)))) (\<lambda>q.
      case q of Inl _ \<Rightarrow> ret (Some (DeleteError 500 ''db_error'' []), rt)
      | Inr refs \<Rightarrow> delete_referenced X rt sid (force_param force_text) refs)) ?post (base D)"
    by (rule triple_ask) (auto intro!: triple_ret delete_referenced_outcome assms split: sum.split)
  show ?thesis
    unfolding staging_Delete_def Let_def
    by (auto intro!: triple_ret ask_staging triple_weaken_pre [OF ask] split: sum.split) (simp add: removed_or_kept_def)
qed

section \<open>Downloads, pages and lookups\<close>

lemma mark_downloaded_quiet: "db_ok d \<Longrightarrow> mark_downloaded sid now d = Inr ((), d') \<Longrightarrow> quiet d d'"
  using staging_update_db_ok [of "\<lambda>s. s\<lparr>stg_DownloadedAt := Some now\<rparr>" d] by (auto simp: mark_downloaded_def quiet_def)

lemma open_if_keep: "triple P any (open_if there) (\<lambda>_. P) P"
  unfolding open_if_def by (rule triple_effect) (auto split: fate.split)

lemma open_staged_keep: "triple P any (open_staged dataDir path sid) (\<lambda>_. P) P"
  unfolding open_staged_def
  by (auto intro!: triple_bind [OF triple_attempt_keep [OF open_if_keep]] triple_bind [OF open_if_keep] triple_ret triple_err
      split: sum.split)

lemma staging_Get_keep:
  assumes mark: "served = 200 \<Longrightarrow> triple P any (tx_once (mark_downloaded sid now)) (\<lambda>_. P) P"
  shows "triple P any (staging_Get dataDir now served sid) (\<lambda>_. P) P"
proof -
  note open_it = triple_bind [OF triple_attempt_keep [OF open_staged_keep]]
  have plain: "triple P any (bindM (ret ()) (\<lambda>_. ret x)) (\<lambda>_. P) P" for x :: get_reply
    by (rule triple_bind [where Q = "\<lambda>_. P"]) (auto intro: triple_ret)
  have noted: "triple P any (bindM (bindM (attempt (tx_once (mark_downloaded sid now))) (\<lambda>_. ret ())) (\<lambda>_. ret x)) (\<lambda>_. P) P"
    if "served = 200" for x :: get_reply
    by (rule triple_bind [OF triple_ignored [OF mark [OF that]]]) (auto intro: triple_ret)
  show ?thesis
    unfolding staging_Get_def
    by (auto intro!: triple_ask open_it plain noted triple_ret split: sum.split staging_state.split)
qed

lemma staging_Get_inv: "triple fin_inv any (staging_Get dataDir now served sid) (\<lambda>_. fin_inv) fin_inv"
proof (rule staging_Get_keep, rule triple_tx_once)
  show "fin_inv (w\<lparr>wd_db := d'\<rparr>)" if "fin_inv w" "mark_downloaded sid now (wd_db w) = Inr (x, d')" for w x d'
    using that mark_downloaded_quiet [of "wd_db w" sid now d'] quiet_inv [of w d'] by (simp add: fin_inv_def)
qed simp_all

text \<open>A range, a not-modified answer or a refused range is no download.\<close>

lemma partial_Get_keeps: "served \<noteq> 200 \<Longrightarrow> triple P any (staging_Get dataDir now served sid) (\<lambda>_. P) P"
  by (rule staging_Get_keep) simp

text \<open>
  The cursor names a staging file, not a ref: when a mission refers to a file twice, the refs
  that a page leaves out are on no later page.
\<close>

lemma later_refs_skipped:
  assumes "staging_page mid kind (Some c) limit d = (rows, next)" and "(s, r) \<in> set rows"
  shows "(stg_TimeCreatedMs s, stg_StagingID s) < (scur_TimeCreatedMs c, scur_StagingID c)"
  using assms
  by (auto simp: staging_page_def ListStagingByMission_def Let_def split: if_splits dest!: in_set_takeD)

lemma ByContent_found:
  assumes "staging_ByContent maxUpload sha_text size_text d = Found sid sha sz"
  shows "\<exists>s \<in> set (staging_files d). stg_StagingID s = sid \<and> stg_State s = StagingComplete \<and>
    stg_Sha256 s = sha \<and> sha = ToLower sha_text \<and> stg_Size s = sz \<and> ParseInt64 size_text = Some sz"
  using assms
  by (auto simp: staging_ByContent_def LookupStagingByContent_def Let_def find_Some_iff split: if_splits option.splits sum.splits)

section \<open>Numbers read back\<close>

lemma nat_str_head: "hd (nat_str n) \<noteq> CHR ''+'' \<and> hd (nat_str n) \<noteq> CHR ''-''"
  using nat_str_digits [of n] by (cases "nat_str n") (auto simp: is_digit_def)

lemma ParseInt64_itoa: "in_i64 i \<Longrightarrow> ParseInt64 (itoa i) = Some i"
proof (cases "i < 0")
  case True
  assume "in_i64 i"
  with True nat_str_digits [of "nat (- i)"] dec_val_nat_str [of "nat (- i)"] show ?thesis by (simp add: ParseInt64_def itoa_def)
next
  case False
  assume "in_i64 i"
  with False nat_str_digits [of "nat i"] dec_val_nat_str [of "nat i"] nat_str_head [of "nat i"] show ?thesis
    by (cases "nat_str (nat i)") (auto simp: ParseInt64_def itoa_def)
qed

end
