(* ===== verification/Upload.thy ===== *)
theory Upload
  imports StagingApi
begin

text \<open>
  The resumable upload \<^verbatim>\<open>PUT /v1/staging/{id}\<close> (\<^verbatim>\<open>internal/server/handlers/staging.go\<close>): the whole
  handler from its headers to its reply, on the database, the files with their bytes and the
  upload lock.  Every action of the handler is a point where other requests and the collector
  may act first, where it may fail and where the daemon may stop; the reads of the body are a
  list, and the daemon stops when it is used up.  The hash is a parameter, the hexadecimal text
  of the SHA-256 of the bytes.  Read deadlines show as the read error they cause; the fsync of
  directories is left out.
\<close>

section \<open>Header texts\<close>

text \<open>The UTF-8 encodings of the runes \<^verbatim>\<open>unicode.IsSpace\<close> accepts.\<close>

definition space_runes :: "string list" where
  "space_runes =
     [[CHR 0x09], [CHR 0x0A], [CHR 0x0B], [CHR 0x0C], [CHR 0x0D], [CHR 0x20],
      [CHR 0xC2, CHR 0x85], [CHR 0xC2, CHR 0xA0], [CHR 0xE1, CHR 0x9A, CHR 0x80]] @
     map (\<lambda>n. [CHR 0xE2, CHR 0x80, char_of (n :: nat)]) [0x80..<0x8B] @
     [[CHR 0xE2, CHR 0x80, CHR 0xA8], [CHR 0xE2, CHR 0x80, CHR 0xA9], [CHR 0xE2, CHR 0x80, CHR 0xAF],
      [CHR 0xE2, CHR 0x81, CHR 0x9F], [CHR 0xE3, CHR 0x80, CHR 0x80]]"

primrec trim_front :: "string list \<Rightarrow> nat \<Rightarrow> string \<Rightarrow> string" where
  "trim_front spaces 0 s = s"
| "trim_front spaces (Suc n) s =
     (case List.find (has_prefix s) spaces of None \<Rightarrow> s | Some r \<Rightarrow> trim_front spaces n (drop (length r) s))"

definition TrimSpace :: "string \<Rightarrow> string" where
  "TrimSpace s =
     (let t = trim_front space_runes (length s) s
      in rev (trim_front (map rev space_runes) (length t) (rev t)))"

text \<open>\<^verbatim>\<open>strings.SplitN(s, sep, 2)\<close> with a one-byte separator; \<open>None\<close> when there is only one part.\<close>

definition split2 :: "char \<Rightarrow> string \<Rightarrow> (string \<times> string) option" where
  "split2 c s = (if c \<in> set s then Some (takeWhile (\<lambda>x. x \<noteq> c) s, tl (dropWhile (\<lambda>x. x \<noteq> c) s)) else None)"

definition parseContentRange :: "string \<Rightarrow> (int \<times> int \<times> int) option" where
  "parseContentRange text =
     (let cr = TrimSpace text
      in if \<not> has_prefix cr ''bytes '' then None
      else case split2 (CHR ''/'') (drop 6 cr) of
        None \<Rightarrow> None
      | Some (rng, total_text) \<Rightarrow>
          (case split2 (CHR ''-'') rng of
             None \<Rightarrow> None
           | Some (start_text, end_text) \<Rightarrow>
               (case (ParseInt64 start_text, ParseInt64 end_text, ParseInt64 total_text) of
                  (Some start, Some fin, Some tot) \<Rightarrow>
                    if start < 0 \<or> fin < start \<or> tot \<le> 0 \<or> fin \<ge> tot then None else Some (start, fin, tot)
                | _ \<Rightarrow> None)))"

section \<open>Requests, configuration and the world\<close>

record put_request =
  pr_ContentEncoding :: string
  pr_id :: string
  pr_Sha256 :: string
  pr_ContentRange :: string
  pr_ContentLength :: int

record upload_cfg =
  uc_DataDir :: string
  uc_MaxDataDirSize :: int
  uc_MaxStagingUploadSize :: int
  uc_MaxIncompleteUploads :: int
  uc_MaxIncompleteBytes :: int
  uc_StagingTTL :: int

definition stagingTTLMs :: "upload_cfg \<Rightarrow> int" where
  "stagingTTLMs C = (if uc_StagingTTL C \<le> 0 then 3600000 else milliseconds (uc_StagingTTL C))"

text \<open>
  The files: the directory gives the file at a path, a file is its bytes, and an open file is
  known by the upload that holds it.
\<close>

record upload_world =
  uw_db :: db
  uw_dir :: "string \<Rightarrow> nat option"
  uw_data :: "nat \<Rightarrow> string"
  uw_next :: nat
  uw_open :: "nat \<Rightarrow> string option"
  uw_lock :: upload_lock

definition staging_path :: "string \<Rightarrow> string" where
  "staging_path sid = (case ShardPath sid of Inl _ \<Rightarrow> ''staging/'' @ sid | Inr shard \<Rightarrow> ''staging/'' @ shard @ ''/'' @ sid)"

definition staging_abs :: "upload_cfg \<Rightarrow> string \<Rightarrow> string" where
  "staging_abs C sid = path_join (uc_DataDir C) (staging_path sid)"

section \<open>What a request meets\<close>

datatype put_point =
    AtGet | AtStat | AtMkdir | AtCount | AtInsert | AtOpen | AtPrefix | AtSync | AtMark | AtRemove | AtComplete

datatype fault = NoFault | Fails error | Crashes

datatype write_fate = WriteOk | WriteFails nat error | WriteCrashes nat

datatype read_end = ReadMore | ReadEOF | ReadDeadline | ReadFails error

text \<open>
  One read of the body: the bytes and how it ended, what others did before it and before the
  progress update, the write, the update, the clock and the disk usage when it is probed.
\<close>

record read_step =
  rd_others :: "upload_world \<Rightarrow> upload_world"
  rd_bytes :: string
  rd_end :: read_end
  rd_write :: write_fate
  rd_between :: "upload_world \<Rightarrow> upload_world"
  rd_progress :: bool
  rd_now :: int
  rd_usage :: int

record put_env =
  pe_sha :: "string \<Rightarrow> string"
  pe_usage :: "int option"
  pe_lock_now :: int
  pe_now :: int
  pe_done_now :: int
  pe_others :: "put_point \<Rightarrow> upload_world \<Rightarrow> upload_world"
  pe_fault :: "put_point \<Rightarrow> fault"
  pe_reads :: "read_step list"

text \<open>\<open>Stopped\<close>: the daemon stopped, and no reply was sent.\<close>

datatype put_end = Replied reply | Stopped

definition at_point ::
  "put_env \<Rightarrow> put_point \<Rightarrow> (error \<Rightarrow> reply) \<Rightarrow> (upload_world \<Rightarrow> put_end \<times> upload_world) \<Rightarrow> upload_world \<Rightarrow> put_end \<times> upload_world" where
  "at_point E p failed k w =
     (let w1 = pe_others E p w
      in case pe_fault E p of
           Crashes \<Rightarrow> (Stopped, w1)
         | Fails e \<Rightarrow> (Replied (failed e), w1)
         | NoFault \<Rightarrow> k w1)"

section \<open>Before the body\<close>

text \<open>The checks of the headers: a refusal, or the declared hash, the start and the total.\<close>

definition put_gate :: "upload_cfg \<Rightarrow> int option \<Rightarrow> put_request \<Rightarrow> reply + string \<times> int \<times> int" where
  "put_gate C usage q =
     (let ce = TrimSpace (pr_ContentEncoding q);
          declared = ToLower (pr_Sha256 q);
          bad = WriteError 400 ''bad_request'' None;
          rng = (if pr_ContentRange q \<noteq> []
                   then map_option (\<lambda>(s, e, t). (s, Some e, t)) (parseContentRange (pr_ContentRange q))
                   else if pr_ContentLength q < 0 then None else Some (0, None, pr_ContentLength q))
      in if ce \<noteq> [] \<and> ToLower ce \<noteq> ''identity'' then Inl (WriteError 415 ''unsupported_media_type'' None)
      else if uc_MaxDataDirSize C > 0 \<and> (case usage of None \<Rightarrow> False | Some u \<Rightarrow> u > uc_MaxDataDirSize C)
      then Inl (WriteError 503 ''disk_quota_exceeded'' (Some 30))
      else if \<not> ValidateUUIDv7 (pr_id q) then Inl bad
      else if \<not> sha256Regex declared then Inl bad
      else case rng of
        None \<Rightarrow> Inl bad
      | Some (start, fin, tot) \<Rightarrow>
          if tot \<le> 0 then Inl bad
          else if (case fin of None \<Rightarrow> False
                   | Some e \<Rightarrow> pr_ContentLength q \<ge> 0 \<and> e \<noteq> wrap64 (start + pr_ContentLength q - 1)) then Inl bad
          else if uc_MaxStagingUploadSize C > 0 \<and> tot > uc_MaxStagingUploadSize C
          then Inl (WriteError 413 ''payload_too_large'' None)
          else if uc_MaxDataDirSize C > 0 \<and> tot > uc_MaxDataDirSize C
          then Inl (WriteError 503 ''disk_quota_exceeded'' (Some 30))
          else Inr (declared, start, tot))"

text \<open>\<open>None\<close> is an error: a cap reached, or a sum SQLite cannot hold.\<close>

definition enforceIncompleteLimits :: "upload_cfg \<Rightarrow> db \<Rightarrow> unit option" where
  "enforceIncompleteLimits C d =
     (let rows = filter (\<lambda>s. stg_State s = StagingUploading) (staging_files d);
          n = int (length rows);
          tot = sum_list (map stg_BytesReceived rows)
      in if \<not> in_i64 tot then None
      else if uc_MaxIncompleteUploads C > 0 \<and> n \<ge> uc_MaxIncompleteUploads C then None
      else if uc_MaxIncompleteBytes C > 0 \<and> tot \<ge> uc_MaxIncompleteBytes C then None
      else Some ())"

definition verifyPartialFile :: "string \<Rightarrow> int \<Rightarrow> upload_world \<Rightarrow> bool" where
  "verifyPartialFile path expected w =
     (case uw_dir w path of
        None \<Rightarrow> expected = 0
      | Some i \<Rightarrow> int (length (uw_data w i)) = expected)"

definition upload_row :: "upload_cfg \<Rightarrow> int \<Rightarrow> string \<Rightarrow> string \<Rightarrow> int \<Rightarrow> staging_file" where
  "upload_row C now sid declared tot =
     \<lparr>stg_StagingID = sid, stg_State = StagingUploading, stg_Sha256 = declared, stg_Size = tot,
      stg_BytesReceived = 0, stg_Path = staging_path sid, stg_TimeCreatedMs = now, stg_TimeUpdatedMs = now,
      stg_TimeExpiresMs = wrap64 (now + stagingTTLMs C), stg_DownloadedAt = None\<rparr>"

section \<open>The body\<close>

text \<open>A write at the offset of the file, or at its end for a file opened to append.\<close>

definition write_bytes :: "bool \<Rightarrow> nat \<Rightarrow> string \<Rightarrow> string \<Rightarrow> string" where
  "write_bytes app off chunk s =
     (if app then s @ chunk
      else take off (s @ replicate (off - length s) (CHR 0x00)) @ chunk @ drop (off + length chunk) s)"

definition write_file :: "bool \<Rightarrow> nat \<Rightarrow> nat \<Rightarrow> string \<Rightarrow> upload_world \<Rightarrow> upload_world" where
  "write_file app i off chunk w =
     w\<lparr>uw_data := (uw_data w)(i := write_bytes app off chunk (uw_data w i))\<rparr>"

text \<open>A statement whose error is ignored.\<close>

definition try_stmt :: "unit stmt \<Rightarrow> upload_world \<Rightarrow> upload_world" where
  "try_stmt st w = (case st (uw_db w) of Inl _ \<Rightarrow> w | Inr (_, d) \<Rightarrow> w\<lparr>uw_db := d\<rparr>)"

text \<open>The row is marked deleting and the file removed, whether or not that succeeds.\<close>

definition discard :: "put_env \<Rightarrow> upload_cfg \<Rightarrow> string \<Rightarrow> reply \<Rightarrow> upload_world \<Rightarrow> put_end \<times> upload_world" where
  "discard E C sid answer w =
     (let w1 = pe_others E AtMark w
      in if pe_fault E AtMark = Crashes then (Stopped, w1)
      else let w2 = (if pe_fault E AtMark = NoFault then try_stmt (MarkStagingDeleting sid) w1 else w1);
               w3 = pe_others E AtRemove w2
           in if pe_fault E AtRemove = Crashes then (Stopped, w3)
           else (Replied answer,
                 if pe_fault E AtRemove = NoFault then w3\<lparr>uw_dir := (uw_dir w3)(staging_abs C sid := None)\<rparr> else w3))"

definition quotaCheckInterval :: int where
  "quotaCheckInterval = 16 * 2 ^ 20"

text \<open>The state of the loop: bytes written, bytes hashed, bytes since the last quota check.\<close>

type_synonym put_state = "int \<times> string \<times> int"

definition put_progress :: "upload_cfg \<Rightarrow> string \<Rightarrow> read_step \<Rightarrow> int \<Rightarrow> upload_world \<Rightarrow> upload_world" where
  "put_progress C sid r written w =
     (let w1 = w\<lparr>uw_lock := Touch (rd_now r) sid (uw_lock w)\<rparr>;
          w2 = rd_between r w1
      in if rd_progress r
         then try_stmt (UpdateStagingProgress sid written (rd_now r) (wrap64 (rd_now r + stagingTTLMs C))) w2
         else w2)"

definition quota_reached :: "put_env \<Rightarrow> upload_cfg \<Rightarrow> int \<Rightarrow> read_step \<Rightarrow> bool \<times> bool" where
  "quota_reached E C since r =
     (let probed = since \<ge> quotaCheckInterval \<and> uc_MaxDataDirSize C > 0 \<and> pe_usage E \<noteq> None
      in (probed, probed \<and> rd_usage r \<ge> uc_MaxDataDirSize C))"

text \<open>How the loop goes on after a read that ended in one of the four ways.\<close>

definition after_read ::
  "put_env \<Rightarrow> upload_cfg \<Rightarrow> string \<Rightarrow> (int \<Rightarrow> string \<Rightarrow> upload_world \<Rightarrow> put_end \<times> upload_world) \<Rightarrow>
   (put_state \<Rightarrow> upload_world \<Rightarrow> put_end \<times> upload_world) \<Rightarrow> read_step \<Rightarrow> put_state \<Rightarrow> upload_world \<Rightarrow> put_end \<times> upload_world" where
  "after_read E C sid finish again r st w =
     (case rd_end r of
        ReadEOF \<Rightarrow> (case st of (written, hashed, _) \<Rightarrow> finish written hashed w)
      | ReadDeadline \<Rightarrow> discard E C sid (WriteError 408 ''upload_idle_timeout'' None) w
      | ReadFails e \<Rightarrow> (Replied (WriteIOError 500 e), w)
      | ReadMore \<Rightarrow> again st w)"

fun put_loop ::
  "put_env \<Rightarrow> upload_cfg \<Rightarrow> string \<Rightarrow> int \<Rightarrow> bool \<Rightarrow> nat \<Rightarrow> (int \<Rightarrow> string \<Rightarrow> upload_world \<Rightarrow> put_end \<times> upload_world) \<Rightarrow>
   read_step list \<Rightarrow> put_state \<Rightarrow> upload_world \<Rightarrow> put_end \<times> upload_world" where
  "put_loop E C sid tot app i finish [] (written, hashed, since) w =
     (if written < tot then (Stopped, w) else finish written hashed w)"
| "put_loop E C sid tot app i finish (r # rs) (written, hashed, since) w =
     (if \<not> written < tot then finish written hashed w
      else
        let chunk = take (nat (tot - written)) (rd_bytes r);
            w0 = rd_others r w;
            onward = after_read E C sid finish (put_loop E C sid tot app i finish rs) r
        in if chunk = [] then onward (written, hashed, since) w0
        else case rd_write r of
          WriteCrashes n \<Rightarrow> (Stopped, write_file app i (nat written) (take n chunk) w0)
        | WriteFails n e \<Rightarrow> (Replied (WriteIOError 500 e), write_file app i (nat written) (take n chunk) w0)
        | WriteOk \<Rightarrow>
            let written' = written + int (length chunk);
                since' = since + int (length chunk);
                w1 = put_progress C sid r written' (write_file app i (nat written) chunk w0)
            in (case quota_reached E C since' r of
                  (probed, full) \<Rightarrow>
                    if full then discard E C sid (WriteError 503 ''disk_quota_exceeded'' None) w1
                    else onward (written', hashed @ chunk, if probed then 0 else since') w1))"

text \<open>After the body: the file is synced, the length and the hash compared, the row completed.\<close>

definition put_finish ::
  "put_env \<Rightarrow> upload_cfg \<Rightarrow> string \<Rightarrow> string \<Rightarrow> int \<Rightarrow> int \<Rightarrow> string \<Rightarrow> upload_world \<Rightarrow> put_end \<times> upload_world" where
  "put_finish E C sid declared tot written hashed =
     at_point E AtSync (WriteIOError 500) (\<lambda>w.
       if written \<noteq> tot then (Replied (WriteError 400 ''incomplete_upload'' None), w)
       else if pe_sha E hashed \<noteq> declared
       then discard E C sid (WriteError 409 ''content_mismatch'' None) w
       else at_point E AtComplete (\<lambda>_. WriteDBError 500) (\<lambda>w.
         case MarkStagingComplete sid (pe_sha E hashed) tot (pe_done_now E) (wrap64 (pe_done_now E + stagingTTLMs C)) (uw_db w) of
           Inl _ \<Rightarrow> (Replied (WriteDBError 500), w)
         | Inr (_, d) \<Rightarrow> (Replied (WriteJSON 201 sid (pe_sha E hashed)), w\<lparr>uw_db := d\<rparr>)) w)"

section \<open>The handler\<close>

text \<open>The body once the file is open; its descriptor is closed at the end.\<close>

definition close_file :: "nat \<Rightarrow> put_end \<times> upload_world \<Rightarrow> put_end \<times> upload_world" where
  "close_file i p = (fst p, (snd p)\<lparr>uw_open := (uw_open (snd p))(i := None)\<rparr>)"

definition put_stream ::
  "put_env \<Rightarrow> upload_cfg \<Rightarrow> string \<Rightarrow> string \<Rightarrow> int \<Rightarrow> bool \<Rightarrow> nat \<Rightarrow> int \<Rightarrow> string \<Rightarrow> upload_world \<Rightarrow> put_end \<times> upload_world" where
  "put_stream E C sid declared tot app i written hashed =
     put_loop E C sid tot app i (put_finish E C sid declared tot) (pe_reads E) (written, hashed, 0)"

text \<open>A resumed upload hashes what the file has; the file is opened by its path once more.\<close>

definition put_resume ::
  "put_env \<Rightarrow> upload_cfg \<Rightarrow> string \<Rightarrow> string \<Rightarrow> int \<Rightarrow> nat \<Rightarrow> int \<Rightarrow> upload_world \<Rightarrow> put_end \<times> upload_world" where
  "put_resume E C sid declared tot i received w =
     (if received > 0
      then at_point E AtPrefix (WriteIOError 500) (\<lambda>w.
             case uw_dir w (staging_abs C sid) of
               None \<Rightarrow> (Replied (WriteIOError 500 ErrNotFound), w)
             | Some j \<Rightarrow> put_stream E C sid declared tot True i received (uw_data w j) w) w
      else put_stream E C sid declared tot True i 0 [] w)"

text \<open>The file is created or emptied for a new upload, and only opened for a resumed one.\<close>

definition create_file :: "upload_cfg \<Rightarrow> string \<Rightarrow> upload_world \<Rightarrow> nat \<times> upload_world" where
  "create_file C sid w =
     (case uw_dir w (staging_abs C sid) of
        Some i \<Rightarrow> (i, w\<lparr>uw_data := (uw_data w)(i := []), uw_open := (uw_open w)(i \<mapsto> sid)\<rparr>)
      | None \<Rightarrow> (uw_next w,
          w\<lparr>uw_dir := (uw_dir w)(staging_abs C sid \<mapsto> uw_next w), uw_data := (uw_data w)(uw_next w := []),
            uw_next := Suc (uw_next w), uw_open := (uw_open w)(uw_next w \<mapsto> sid)\<rparr>))"

definition put_open ::
  "put_env \<Rightarrow> upload_cfg \<Rightarrow> string \<Rightarrow> string \<Rightarrow> int \<Rightarrow> staging_file option \<Rightarrow> upload_world \<Rightarrow> put_end \<times> upload_world" where
  "put_open E C sid declared tot existing =
     at_point E AtOpen (WriteIOError 500) (\<lambda>w.
       case existing of
         None \<Rightarrow> (case create_file C sid w of (i, w1) \<Rightarrow> close_file i (put_stream E C sid declared tot False i 0 [] w1))
       | Some ex \<Rightarrow>
           (case uw_dir w (staging_abs C sid) of
              None \<Rightarrow> (Replied (WriteIOError 500 ErrNotFound), w)
            | Some i \<Rightarrow>
                close_file i (put_resume E C sid declared tot i (stg_BytesReceived ex)
                  (w\<lparr>uw_open := (uw_open w)(i \<mapsto> sid)\<rparr>))))"

definition put_insert ::
  "put_env \<Rightarrow> upload_cfg \<Rightarrow> string \<Rightarrow> string \<Rightarrow> int \<Rightarrow> upload_world \<Rightarrow> put_end \<times> upload_world" where
  "put_insert E C sid declared tot w =
     (let full = WriteError 503 ''incomplete_uploads_full'' None;
          insert_row = at_point E AtInsert (\<lambda>_. WriteDBError 500) (\<lambda>w.
            case InsertStaging (upload_row C (pe_now E) sid declared tot) (uw_db w) of
              Inl _ \<Rightarrow> (Replied (WriteDBError 500), w)
            | Inr (_, d) \<Rightarrow> put_open E C sid declared tot None (w\<lparr>uw_db := d\<rparr>))
      in if uc_MaxIncompleteUploads C \<le> 0 \<and> uc_MaxIncompleteBytes C \<le> 0 then insert_row w
      else at_point E AtCount (\<lambda>_. full) (\<lambda>w.
             case enforceIncompleteLimits C (uw_db w) of None \<Rightarrow> (Replied full, w) | Some _ \<Rightarrow> insert_row w) w)"

definition put_prepare ::
  "put_env \<Rightarrow> upload_cfg \<Rightarrow> string \<Rightarrow> string \<Rightarrow> int \<Rightarrow> staging_file option \<Rightarrow> upload_world \<Rightarrow> put_end \<times> upload_world" where
  "put_prepare E C sid declared tot existing =
     at_point E AtMkdir (WriteIOError 500) (\<lambda>w.
       case existing of
         None \<Rightarrow> put_insert E C sid declared tot w
       | Some _ \<Rightarrow> put_open E C sid declared tot existing w)"

definition put_existing ::
  "put_env \<Rightarrow> upload_cfg \<Rightarrow> string \<Rightarrow> string \<Rightarrow> int \<Rightarrow> int \<Rightarrow> staging_file \<Rightarrow> upload_world \<Rightarrow> put_end \<times> upload_world" where
  "put_existing E C sid declared start tot ex w =
     (if stg_Sha256 ex \<noteq> declared \<or> stg_Size ex \<noteq> tot
      then (Replied (WriteError 409 ''content_mismatch'' None), w)
      else case stg_State ex of
        StagingComplete \<Rightarrow> (Replied (WriteJSON 200 sid declared), w)
      | StagingUploading \<Rightarrow>
          at_point E AtStat (\<lambda>_. WriteError 416 ''range_not_satisfiable'' None) (\<lambda>w.
            if \<not> verifyPartialFile (staging_abs C sid) (stg_BytesReceived ex) w \<or> start \<noteq> stg_BytesReceived ex
            then (Replied (WriteError 416 ''range_not_satisfiable'' None), w)
            else put_prepare E C sid declared tot (Some ex) w) w
      | _ \<Rightarrow> (Replied (WriteError 409 ''conflict'' None), w))"

definition put_locked ::
  "put_env \<Rightarrow> upload_cfg \<Rightarrow> string \<Rightarrow> string \<Rightarrow> int \<Rightarrow> int \<Rightarrow> upload_world \<Rightarrow> put_end \<times> upload_world" where
  "put_locked E C sid declared start tot =
     at_point E AtGet (\<lambda>_. WriteDBError 500) (\<lambda>w.
       case find_staging sid (uw_db w) of
         Some ex \<Rightarrow> put_existing E C sid declared start tot ex w
       | None \<Rightarrow> if start \<noteq> 0 then (Replied (WriteError 416 ''range_not_satisfiable'' None), w)
                 else put_prepare E C sid declared tot None w)"

definition staging_Put :: "put_env \<Rightarrow> upload_cfg \<Rightarrow> put_request \<Rightarrow> upload_world \<Rightarrow> put_end \<times> upload_world" where
  "staging_Put E C q w =
     (case put_gate C (pe_usage E) q of
        Inl answer \<Rightarrow> (Replied answer, w)
      | Inr (declared, start, tot) \<Rightarrow>
          (case TryAcquire (pe_lock_now E) (pr_id q) (uw_lock w) of
             (None, _) \<Rightarrow> (Replied (WriteError 409 ''upload_in_progress'' None), w)
           | (Some _, u) \<Rightarrow>
               (case put_locked E C (pr_id q) declared start tot (w\<lparr>uw_lock := u\<rparr>) of
                  (answer, w') \<Rightarrow> (answer, w'\<lparr>uw_lock := release_lock (pr_id q) (uw_lock w')\<rparr>))))"

text \<open>The callback of the idle sweep: a row still uploading expires now.\<close>

definition idleAbort :: "string \<Rightarrow> int \<Rightarrow> unit stmt" where
  "idleAbort sid now d =
     Inr ((), d\<lparr>staging_files := sql_update (\<lambda>s. stg_StagingID s = sid \<and> stg_State s = StagingUploading)
        (\<lambda>s. s\<lparr>stg_TimeExpiresMs := now, stg_TimeUpdatedMs := now\<rparr>) (staging_files d)\<rparr>)"

section \<open>Integrity\<close>

definition in_state :: "staging_state \<Rightarrow> string \<Rightarrow> upload_world \<Rightarrow> bool" where
  "in_state st sid w \<longleftrightarrow> (\<exists>s. find_staging sid (uw_db w) = Some s \<and> stg_State s = st)"

text \<open>The bytes of a complete row are there, and have its hash and its size.\<close>

definition stored :: "(string \<Rightarrow> string) \<Rightarrow> upload_cfg \<Rightarrow> staging_file \<Rightarrow> upload_world \<Rightarrow> bool" where
  "stored sha C s w \<longleftrightarrow>
     (\<exists>i. uw_dir w (staging_abs C (stg_StagingID s)) = Some i \<and> sha (uw_data w i) = stg_Sha256 s \<and>
        int (length (uw_data w i)) = stg_Size s)"

definition servable :: "staging_file \<Rightarrow> bool" where
  "servable s \<longleftrightarrow> ValidateUUIDv7 (stg_StagingID s) \<and> stg_Path s = staging_path (stg_StagingID s) \<and> stg_State s = StagingComplete"

definition staged :: "(string \<Rightarrow> string) \<Rightarrow> upload_cfg \<Rightarrow> upload_world \<Rightarrow> bool" where
  "staged sha C w \<longleftrightarrow>
     db_ok (uw_db w) \<and>
     (\<forall>p q i. uw_dir w p = Some i \<and> uw_dir w q = Some i \<longrightarrow> p = q) \<and>
     (\<forall>p i. uw_dir w p = Some i \<longrightarrow> i < uw_next w) \<and>
     (\<forall>s \<in> set (staging_files (uw_db w)). servable s \<longrightarrow> stored sha C s w)"

text \<open>No complete row has the file.\<close>

definition free_file :: "upload_cfg \<Rightarrow> nat \<Rightarrow> upload_world \<Rightarrow> bool" where
  "free_file C i w \<longleftrightarrow>
     (\<forall>s \<in> set (staging_files (uw_db w)). servable s \<longrightarrow> uw_dir w (staging_abs C (stg_StagingID s)) \<noteq> Some i)"

text \<open>
  What an upload relies on while it holds its lock: others keep the files of complete rows,
  start and complete no upload of this id, leave its file alone while its row is uploading, and
  give the file it holds open to no complete row.
\<close>

definition calm :: "(string \<Rightarrow> string) \<Rightarrow> upload_cfg \<Rightarrow> string \<Rightarrow> (upload_world \<Rightarrow> upload_world) \<Rightarrow> bool" where
  "calm sha C sid g \<longleftrightarrow>
     (\<forall>w. staged sha C w \<longrightarrow>
        staged sha C (g w) \<and>
        (in_state StagingComplete sid (g w) \<longrightarrow> in_state StagingComplete sid w) \<and>
        (in_state StagingUploading sid (g w) \<longrightarrow>
           in_state StagingUploading sid w \<and> uw_dir (g w) (staging_abs C sid) = uw_dir w (staging_abs C sid) \<and>
           (\<forall>i. uw_dir w (staging_abs C sid) = Some i \<longrightarrow> uw_data (g w) i = uw_data w i)) \<and>
        (\<forall>i. uw_open w i = Some sid \<and> i < uw_next w \<and> free_file C i w \<longrightarrow>
           uw_open (g w) i = Some sid \<and> i < uw_next (g w) \<and> free_file C i (g w)))"

definition calm_env :: "put_env \<Rightarrow> upload_cfg \<Rightarrow> string \<Rightarrow> bool" where
  "calm_env E C sid \<longleftrightarrow>
     (\<forall>p. calm (pe_sha E) C sid (pe_others E p)) \<and>
     list_all (\<lambda>r. calm (pe_sha E) C sid (rd_others r) \<and> calm (pe_sha E) C sid (rd_between r)) (pe_reads E)"

lemma staging_abs_inj:
  assumes "ValidateUUIDv7 a" and "ValidateUUIDv7 b" and "staging_abs C a = staging_abs C b"
  shows "a = b"
proof -
  have "length a = length b" using assms(1,2) by (simp add: ValidateUUIDv7_def)
  moreover from assms have "(uc_DataDir C @ ''/staging/'' @ take 2 a @ ''/'' @ take 2 (drop 2 a) @ ''/'') @ a =
      (uc_DataDir C @ ''/staging/'' @ take 2 b @ ''/'' @ take 2 (drop 2 b) @ ''/'') @ b"
    by (simp add: staging_abs_def staging_path_def ShardPath_def path_join_def has_prefix_def)
  ultimately show ?thesis by (simp add: append_eq_append_conv)
qed

text \<open>The upload's own invariant: it has not completed.\<close>

definition pending :: "(string \<Rightarrow> string) \<Rightarrow> upload_cfg \<Rightarrow> string \<Rightarrow> upload_world \<Rightarrow> bool" where
  "pending sha C sid w \<longleftrightarrow> staged sha C w \<and> \<not> in_state StagingComplete sid w"

text \<open>While the row is uploading, the file has what the request believes it has.\<close>

definition tracks :: "(string \<Rightarrow> string) \<Rightarrow> upload_cfg \<Rightarrow> string \<Rightarrow> nat \<Rightarrow> (string \<Rightarrow> bool) \<Rightarrow> upload_world \<Rightarrow> bool" where
  "tracks sha C sid i B w \<longleftrightarrow>
     pending sha C sid w \<and> uw_open w i = Some sid \<and> i < uw_next w \<and> free_file C i w \<and>
     (in_state StagingUploading sid w \<longrightarrow> uw_dir w (staging_abs C sid) = Some i \<and> B (uw_data w i))"

definition verified :: "(string \<Rightarrow> string) \<Rightarrow> upload_cfg \<Rightarrow> string \<Rightarrow> int \<Rightarrow> upload_world \<Rightarrow> bool" where
  "verified sha C sid received w \<longleftrightarrow>
     pending sha C sid w \<and> (in_state StagingUploading sid w \<longrightarrow> verifyPartialFile (staging_abs C sid) received w)"

lemma stagedD:
  assumes "staged sha C w"
  shows "db_ok (uw_db w)" and "uw_dir w p = Some i \<Longrightarrow> uw_dir w q = Some i \<Longrightarrow> p = q"
    and "uw_dir w p = Some i \<Longrightarrow> i < uw_next w"
    and "s \<in> set (staging_files (uw_db w)) \<Longrightarrow> servable s \<Longrightarrow> stored sha C s w"
  using assms unfolding staged_def by blast+

lemma pending_staged: "pending sha C sid w \<Longrightarrow> staged sha C w"
  by (simp add: pending_def)

lemma verified_staged: "verified sha C sid n w \<Longrightarrow> staged sha C w"
  by (simp add: verified_def pending_def)

lemma tracks_pending: "tracks sha C sid i B w \<Longrightarrow> pending sha C sid w"
  by (simp add: tracks_def)

lemma calm_pending: "calm sha C sid g \<Longrightarrow> pending sha C sid w \<Longrightarrow> pending sha C sid (g w)"
  by (auto simp: calm_def pending_def)

lemma calm_tracks:
  assumes "calm sha C sid g" and "tracks sha C sid i B w"
  shows "tracks sha C sid i B (g w)"
proof -
  have w: "staged sha C w" and p: "pending sha C sid (g w)"
    using assms calm_pending by (auto simp: tracks_def pending_def)
  from assms(1) w have "in_state StagingUploading sid (g w) \<longrightarrow>
           in_state StagingUploading sid w \<and> uw_dir (g w) (staging_abs C sid) = uw_dir w (staging_abs C sid) \<and>
           (\<forall>i. uw_dir w (staging_abs C sid) = Some i \<longrightarrow> uw_data (g w) i = uw_data w i)"
    and "\<forall>i. uw_open w i = Some sid \<and> i < uw_next w \<and> free_file C i w \<longrightarrow>
           uw_open (g w) i = Some sid \<and> i < uw_next (g w) \<and> free_file C i (g w)"
    unfolding calm_def by blast+
  with assms(2) p show ?thesis by (auto simp: tracks_def)
qed

lemma calm_verified:
  assumes "calm sha C sid g" and "verified sha C sid n w"
  shows "verified sha C sid n (g w)"
proof -
  have w: "staged sha C w" and p: "pending sha C sid (g w)"
    using assms calm_pending by (auto simp: verified_def pending_def)
  from assms(1) w have "in_state StagingUploading sid (g w) \<longrightarrow>
           in_state StagingUploading sid w \<and> uw_dir (g w) (staging_abs C sid) = uw_dir w (staging_abs C sid) \<and>
           (\<forall>i. uw_dir w (staging_abs C sid) = Some i \<longrightarrow> uw_data (g w) i = uw_data w i)"
    unfolding calm_def by blast
  with assms(2) p show ?thesis by (auto simp: verified_def verifyPartialFile_def split: option.splits)
qed

text \<open>The file at the path of a pending upload belongs to no complete row.\<close>

lemma pending_free:
  assumes "pending sha C sid w" and "ValidateUUIDv7 sid" and "uw_dir w (staging_abs C sid) = Some i"
  shows "free_file C i w \<and> i < uw_next w"
proof -
  have st: "staged sha C w" and no: "\<not> in_state StagingComplete sid w" using assms(1) by (auto simp: pending_def)
  have "uw_dir w (staging_abs C (stg_StagingID s)) \<noteq> Some i"
    if s: "s \<in> set (staging_files (uw_db w))" "servable s" for s
  proof
    assume "uw_dir w (staging_abs C (stg_StagingID s)) = Some i"
    then have "staging_abs C (stg_StagingID s) = staging_abs C sid" using assms(3) by (rule stagedD(2) [OF st])
    with s(2) assms(2) have "stg_StagingID s = sid" using staging_abs_inj by (simp add: servable_def)
    then have "find_staging sid (uw_db w) = Some s"
      using sql_find_in [OF db_ok_keyed(3) [OF stagedD(1) [OF st]] s(1)] by (simp add: find_staging_def)
    with no s(2) show False by (simp add: in_state_def servable_def)
  qed
  with stagedD(3) [OF st assms(3)] show ?thesis by (simp add: free_file_def)
qed

section \<open>What the actions of an upload keep\<close>

text \<open>A change of the database that completes no row and starts no upload.\<close>

definition mild :: "db \<Rightarrow> db \<Rightarrow> bool" where
  "mild d d' \<longleftrightarrow> db_ok d' \<and>
     (\<forall>s \<in> set (staging_files d'). servable s \<longrightarrow> s \<in> set (staging_files d)) \<and>
     (\<forall>sid s. find_staging sid d' = Some s \<and> stg_State s \<in> {StagingUploading, StagingComplete} \<longrightarrow>
        (\<exists>t. find_staging sid d = Some t \<and> stg_State t = stg_State s))"

lemma mild_staged: "staged sha C w \<Longrightarrow> mild (uw_db w) d' \<Longrightarrow> staged sha C (w\<lparr>uw_db := d'\<rparr>)"
  by (simp add: staged_def mild_def stored_def)

lemma mild_in_state:
  assumes "mild (uw_db w) d'" and "st \<in> {StagingUploading, StagingComplete}" and "in_state st sid (w\<lparr>uw_db := d'\<rparr>)"
  shows "in_state st sid w"
proof -
  from assms(3) obtain s where s: "find_staging sid d' = Some s" "stg_State s = st" by (auto simp: in_state_def)
  with assms(2) have "find_staging sid d' = Some s \<and> stg_State s \<in> {StagingUploading, StagingComplete}" by simp
  with assms(1) have "\<exists>t. find_staging sid (uw_db w) = Some t \<and> stg_State t = stg_State s" unfolding mild_def by blast
  with s(2) show ?thesis by (simp add: in_state_def)
qed

lemma mild_pending: "pending sha C sid w \<Longrightarrow> mild (uw_db w) d' \<Longrightarrow> pending sha C sid (w\<lparr>uw_db := d'\<rparr>)"
  using mild_in_state [of w d' StagingComplete sid] by (auto simp: pending_def mild_staged)

lemma mild_tracks:
  assumes "tracks sha C sid i B w" and "mild (uw_db w) d'"
  shows "tracks sha C sid i B (w\<lparr>uw_db := d'\<rparr>)"
proof -
  have "free_file C i (w\<lparr>uw_db := d'\<rparr>)"
    using assms by (simp add: tracks_def free_file_def mild_def)
  then show ?thesis
    using assms mild_pending [OF tracks_pending [OF assms(1)] assms(2)] mild_in_state [OF assms(2), of StagingUploading sid]
    by (simp add: tracks_def)
qed

lemma update_mild:
  assumes "db_ok d" and "\<And>s. stg_StagingID (f s) = stg_StagingID s"
    and "\<And>s. P s \<Longrightarrow> stg_State (f s) \<noteq> StagingComplete"
    and "\<And>s. P s \<Longrightarrow> stg_State (f s) = StagingUploading \<Longrightarrow> stg_State s = StagingUploading"
  shows "mild d (d\<lparr>staging_files := sql_update P f (staging_files d)\<rparr>)"
proof -
  have loc: "key_preserving stg_StagingID f" using assms(2) by unfold_locales
  have find: "find_staging sid (d\<lparr>staging_files := sql_update P f (staging_files d)\<rparr>) =
      map_option (\<lambda>s. if P s then f s else s) (find_staging sid d)" for sid
    by (simp add: find_staging_def key_preserving.find_update [OF loc])
  have "s \<in> set (staging_files d)" if "s \<in> set (sql_update P f (staging_files d))" "servable s" for s
    using that assms(3) by (auto simp: sql_update_def servable_def split: if_splits)
  moreover have "\<exists>t. find_staging sid d = Some t \<and> stg_State t = stg_State s"
    if "find_staging sid (d\<lparr>staging_files := sql_update P f (staging_files d)\<rparr>) = Some s"
      "stg_State s \<in> {StagingUploading, StagingComplete}" for sid s
    using that assms(3,4) unfolding find by (auto split: if_splits)
  ultimately show ?thesis
    using staging_update_db_ok [OF assms(2,1), of P] by (auto simp: mild_def)
qed

lemma progress_mild:
  "db_ok d \<Longrightarrow> UpdateStagingProgress sid n now e d = Inr (u, d') \<Longrightarrow> mild d d'"
  by (auto simp: UpdateStagingProgress_def guarded_staging_def split: if_splits intro!: update_mild)

lemma deleting_mild:
  assumes "db_ok d" and "MarkStagingDeleting sid d = Inr (u, d')"
  shows "mild d d'"
proof -
  have "d' = d\<lparr>staging_files := sql_update (\<lambda>s. stg_StagingID s = sid) (\<lambda>s. s\<lparr>stg_State := StagingDeleting\<rparr>) (staging_files d)\<rparr>"
    using assms(2) MarkStagingDeleting_cases [OF assms(1), of sid d'] by (simp add: sql_update_def)
  moreover have "mild d (d\<lparr>staging_files := sql_update (\<lambda>s. stg_StagingID s = sid) (\<lambda>s. s\<lparr>stg_State := StagingDeleting\<rparr>) (staging_files d)\<rparr>)"
    by (rule update_mild [OF assms(1)]) simp_all
  ultimately show ?thesis by (simp only:)
qed

lemma mild_refl: "db_ok d \<Longrightarrow> mild d d"
  by (auto simp: mild_def)

lemma try_stmt_mild:
  assumes "\<And>u d'. st (uw_db w) = Inr (u, d') \<Longrightarrow> mild (uw_db w) d'" and "db_ok (uw_db w)"
  shows "\<exists>d'. try_stmt st w = w\<lparr>uw_db := d'\<rparr> \<and> mild (uw_db w) d'"
proof (cases "st (uw_db w)")
  case (Inl e)
  then show ?thesis using mild_refl [OF assms(2)] by (intro exI [of _ "uw_db w"]) (simp add: try_stmt_def)
next
  case (Inr p)
  then show ?thesis using assms(1) by (cases p) (auto simp: try_stmt_def)
qed

lemma try_progress_mild:
  "db_ok (uw_db w) \<Longrightarrow> \<exists>d'. try_stmt (UpdateStagingProgress sid n now e) w = w\<lparr>uw_db := d'\<rparr> \<and> mild (uw_db w) d'"
  by (rule try_stmt_mild) (auto intro: progress_mild)

lemma try_deleting_mild:
  "db_ok (uw_db w) \<Longrightarrow> \<exists>d'. try_stmt (MarkStagingDeleting sid) w = w\<lparr>uw_db := d'\<rparr> \<and> mild (uw_db w) d'"
  by (rule try_stmt_mild) (auto intro: deleting_mild)

text \<open>Writing to a file that no complete row has, and removing it.\<close>

lemma unlink_staged:
  assumes "pending sha C sid w" and "ValidateUUIDv7 sid"
  shows "staged sha C (w\<lparr>uw_dir := (uw_dir w)(staging_abs C sid := None)\<rparr>)"
proof -
  note st = pending_staged [OF assms(1)]
  have "stored sha C s (w\<lparr>uw_dir := (uw_dir w)(staging_abs C sid := None)\<rparr>)"
    if s: "s \<in> set (staging_files (uw_db w))" "servable s" for s
  proof -
    from stagedD(4) [OF st s] obtain i where i: "uw_dir w (staging_abs C (stg_StagingID s)) = Some i"
      "sha (uw_data w i) = stg_Sha256 s" "int (length (uw_data w i)) = stg_Size s" by (auto simp: stored_def)
    have "staging_abs C (stg_StagingID s) \<noteq> staging_abs C sid"
    proof
      assume eq: "staging_abs C (stg_StagingID s) = staging_abs C sid"
      then have "free_file C i w" using pending_free [OF assms, of i] i(1) by simp
      with s i(1) show False unfolding free_file_def by blast
    qed
    with i show ?thesis by (simp add: stored_def)
  qed
  with st show ?thesis by (simp add: staged_def)
qed


lemma write_file_tracks:
  assumes "tracks sha C sid i B w" and "\<And>b. B b \<Longrightarrow> B' (write_bytes app off chunk b)"
  shows "tracks sha C sid i B' (write_file app i off chunk w)"
proof -
  have st: "staged sha C w" and free: "free_file C i w" using assms(1) by (auto simp: tracks_def pending_def)
  have "stored sha C s (write_file app i off chunk w)"
    if "s \<in> set (staging_files (uw_db w))" "servable s" for s
    using stagedD(4) [OF st that] free that by (auto simp: stored_def write_file_def free_file_def)
  with st have "staged sha C (write_file app i off chunk w)"
    by (simp add: staged_def write_file_def)
  with assms show ?thesis
    by (auto simp: tracks_def pending_def in_state_def free_file_def write_file_def)
qed

lemma tracks_weaken: "tracks sha C sid i B w \<Longrightarrow> (\<And>b. B b \<Longrightarrow> B' b) \<Longrightarrow> tracks sha C sid i B' w"
  by (auto simp: tracks_def)

lemma tracks_lock [simp]: "tracks sha C sid i B (w\<lparr>uw_lock := u\<rparr>) = tracks sha C sid i B w"
  by (simp add: tracks_def pending_def staged_def stored_def in_state_def free_file_def)

lemma progress_tracks:
  assumes "tracks sha C sid i B w" and "calm sha C sid (rd_between r)"
  shows "tracks sha C sid i B (put_progress C sid r n w)"
proof -
  let ?w = "rd_between r (w\<lparr>uw_lock := Touch (rd_now r) sid (uw_lock w)\<rparr>)"
  have t: "tracks sha C sid i B ?w" by (rule calm_tracks [OF assms(2)]) (simp only: tracks_lock assms(1))
  have ok: "db_ok (uw_db ?w)" by (rule stagedD(1) [OF pending_staged [OF tracks_pending [OF t]]])
  obtain d' where d': "try_stmt (UpdateStagingProgress sid n (rd_now r) (wrap64 (rd_now r + stagingTTLMs C))) ?w = ?w\<lparr>uw_db := d'\<rparr>"
      "mild (uw_db ?w) d'"
    using try_progress_mild [OF ok] by blast
  from mild_tracks [OF t d'(2)] t show ?thesis by (simp only: put_progress_def Let_def d'(1) split: if_split) simp
qed

text \<open>The outcome of a request: the files are intact, and an accepted upload is there.\<close>

definition good :: "(string \<Rightarrow> string) \<Rightarrow> upload_cfg \<Rightarrow> string \<Rightarrow> string \<Rightarrow> int \<Rightarrow> put_end \<times> upload_world \<Rightarrow> bool" where
  "good sha C sid declared tot p \<longleftrightarrow>
     staged sha C (snd p) \<and>
     (\<forall>n j h. fst p = Replied (WriteJSON n j h) \<longrightarrow>
        j = sid \<and> h = declared \<and>
        (\<exists>s. find_staging sid (uw_db (snd p)) = Some s \<and> stg_State s = StagingComplete \<and>
           stg_Sha256 s = declared \<and> stg_Size s = tot \<and> (n = 201 \<longrightarrow> stored sha C s (snd p))))"

lemma good_stop [simp]: "staged sha C w \<Longrightarrow> good sha C sid declared tot (Stopped, w)"
  by (simp add: good_def)

lemma good_error [simp]: "staged sha C w \<Longrightarrow> good sha C sid declared tot (Replied (WriteError n c r), w)"
  by (simp add: good_def)

lemma good_io [simp]: "staged sha C w \<Longrightarrow> good sha C sid declared tot (Replied (WriteIOError n e), w)"
  by (simp add: WriteIOError_def)

lemma good_db [simp]: "staged sha C w \<Longrightarrow> good sha C sid declared tot (Replied (WriteDBError n), w)"
  by (simp add: WriteDBError_def)

lemma good_at_point:
  assumes "I w" and "\<And>w. I w \<Longrightarrow> I (pe_others E p w)" and "\<And>w. I w \<Longrightarrow> staged sha C w"
    and "\<And>w. I w \<Longrightarrow> good sha C sid declared tot (k w)"
    and "\<And>w e. staged sha C w \<Longrightarrow> good sha C sid declared tot (Replied (failed e), w)"
  shows "good sha C sid declared tot (at_point E p failed k w)"
  using assms by (auto simp: at_point_def Let_def split: fault.split)

lemma discard_good:
  assumes "\<And>p. calm sha C sid (pe_others E p)" and "pending sha C sid w" and "ValidateUUIDv7 sid"
    and answer: "\<And>w. staged sha C w \<Longrightarrow> good sha C sid declared tot (Replied answer, w)"
  shows "good sha C sid declared tot (discard E C sid answer w)"
proof -
  let ?w1 = "pe_others E AtMark w"
  let ?w2 = "if pe_fault E AtMark = NoFault then try_stmt (MarkStagingDeleting sid) ?w1 else ?w1"
  let ?w3 = "pe_others E AtRemove ?w2"
  have p1: "pending sha C sid ?w1" by (rule calm_pending [OF assms(1,2)])
  have ok: "db_ok (uw_db ?w1)" by (rule stagedD(1) [OF pending_staged [OF p1]])
  obtain d' where "try_stmt (MarkStagingDeleting sid) ?w1 = ?w1\<lparr>uw_db := d'\<rparr>" "mild (uw_db ?w1) d'"
    using try_deleting_mild [OF ok] by blast
  then have "pending sha C sid (try_stmt (MarkStagingDeleting sid) ?w1)" by (simp only: mild_pending [OF p1])
  with p1 have "pending sha C sid ?w2" by (simp split: if_split)
  then have p3: "pending sha C sid ?w3" by (rule calm_pending [OF assms(1)])
  have gone: "staged sha C (?w3\<lparr>uw_dir := (uw_dir ?w3)(staging_abs C sid := None)\<rparr>)"
    by (rule unlink_staged [OF p3 assms(3)])
  show ?thesis
    unfolding discard_def Let_def
    using pending_staged [OF p1] pending_staged [OF p3] gone answer by (simp split: if_split)
qed

text \<open>The row is completed only while it is uploading, and then the file is the one that was hashed.\<close>

lemma complete_good:
  assumes t: "tracks sha C sid i (\<lambda>b. b = hashed \<and> int (length b) = tot) w" and id: "ValidateUUIDv7 sid"
    and run: "MarkStagingComplete sid (sha hashed) tot now e (uw_db w) = Inr (u, d)"
  shows "good sha C sid (sha hashed) tot (Replied (WriteJSON 201 sid (sha hashed)), w\<lparr>uw_db := d\<rparr>)"
proof -
  let ?f = "\<lambda>s. s\<lparr>stg_State := StagingComplete, stg_Sha256 := sha hashed, stg_Size := tot,
      stg_BytesReceived := tot, stg_TimeUpdatedMs := now, stg_TimeExpiresMs := e\<rparr>"
  let ?P = "\<lambda>s. stg_StagingID s = sid \<and> stg_State s = StagingUploading"
  have st: "staged sha C w" by (rule pending_staged [OF tracks_pending [OF t]])
  note ok = stagedD(1) [OF st]
  from run have g: "guarded_staging sid (\<lambda>s. stg_State s = StagingUploading) ?f (uw_db w) = Inr ((), d)"
    by (simp add: MarkStagingComplete_def)
  from iffD1 [OF guarded_staging_ok [OF db_ok_keyed(3) [OF ok]] g] obtain s where
    s: "find_staging sid (uw_db w) = Some s" "stg_State s = StagingUploading"
    and d: "d = (uw_db w)\<lparr>staging_files := sql_update ?P ?f (staging_files (uw_db w))\<rparr>"
    by (elim conjE exE)
  from s have "in_state StagingUploading sid w" by (simp add: in_state_def)
  with t have disk: "uw_dir w (staging_abs C sid) = Some i" "uw_data w i = hashed" "int (length (uw_data w i)) = tot"
    by (auto simp: tracks_def)
  have done_row: "stored sha C (?f t) (w\<lparr>uw_db := d\<rparr>)" if "stg_StagingID t = sid" for t
    using that disk by (simp add: stored_def)
  have "stored sha C r (w\<lparr>uw_db := d\<rparr>)" if r: "r \<in> set (staging_files d)" "servable r" for r
  proof -
    from r(1) obtain t where t: "t \<in> set (staging_files (uw_db w))" "r = (if ?P t then ?f t else t)"
      by (auto simp: d sql_update_def)
    show ?thesis
    proof (cases "?P t")
      case True
      with t(2) done_row show ?thesis by simp
    next
      case False
      with t r(2) stagedD(4) [OF st t(1)] show ?thesis by (simp add: stored_def)
    qed
  qed
  with st guarded_staging_db_ok [OF g _ ok] have "staged sha C (w\<lparr>uw_db := d\<rparr>)" by (simp add: staged_def)
  moreover have "find_staging sid d = Some (?f s)"
    using guarded_staging_find [OF g, of sid] s find_staging_id [OF s(1)] by simp
  ultimately show ?thesis using done_row [OF find_staging_id [OF s(1)]] by (simp add: good_def)
qed

lemma put_finish_good:
  assumes calm: "\<And>p. calm (pe_sha E) C sid (pe_others E p)" and id: "ValidateUUIDv7 sid"
    and t: "tracks (pe_sha E) C sid i (\<lambda>b. b = hashed \<and> int (length b) = written) w"
  shows "good (pe_sha E) C sid declared tot (put_finish E C sid declared tot written hashed w)"
  unfolding put_finish_def
proof (rule good_at_point [where I = "tracks (pe_sha E) C sid i (\<lambda>b. b = hashed \<and> int (length b) = written)", OF t])
  let ?T = "tracks (pe_sha E) C sid i (\<lambda>b. b = hashed \<and> int (length b) = written)"
  fix w
  assume w: "?T w"
  show "?T (pe_others E AtSync w)" by (rule calm_tracks [OF calm w])
  note st = pending_staged [OF tracks_pending [OF w]]
  then show "staged (pe_sha E) C w" .
  have last: "good (pe_sha E) C sid declared tot (at_point E AtComplete (\<lambda>_. WriteDBError 500) (\<lambda>w.
         case MarkStagingComplete sid (pe_sha E hashed) tot (pe_done_now E) (wrap64 (pe_done_now E + stagingTTLMs C)) (uw_db w) of
           Inl _ \<Rightarrow> (Replied (WriteDBError 500), w)
         | Inr (_, d) \<Rightarrow> (Replied (WriteJSON 201 sid (pe_sha E hashed)), w\<lparr>uw_db := d\<rparr>)) w)"
    if eq: "written = tot" "pe_sha E hashed = declared"
  proof (rule good_at_point [where I = ?T, OF w])
    fix w
    assume w: "?T w"
    show "?T (pe_others E AtComplete w)" by (rule calm_tracks [OF calm w])
    show st: "staged (pe_sha E) C w" by (rule pending_staged [OF tracks_pending [OF w]])
    show "good (pe_sha E) C sid declared tot
      (case MarkStagingComplete sid (pe_sha E hashed) tot (pe_done_now E) (wrap64 (pe_done_now E + stagingTTLMs C)) (uw_db w) of
         Inl _ \<Rightarrow> (Replied (WriteDBError 500), w)
       | Inr (_, d) \<Rightarrow> (Replied (WriteJSON 201 sid (pe_sha E hashed)), w\<lparr>uw_db := d\<rparr>))"
      using complete_good [OF w [unfolded eq(1)] id] st eq(2) by (auto split: sum.split)
  qed simp
  show "good (pe_sha E) C sid declared tot
    (if written \<noteq> tot then (Replied (WriteError 400 ''incomplete_upload'' None), w)
     else if pe_sha E hashed \<noteq> declared then discard E C sid (WriteError 409 ''content_mismatch'' None) w
     else at_point E AtComplete (\<lambda>_. WriteDBError 500) (\<lambda>w.
         case MarkStagingComplete sid (pe_sha E hashed) tot (pe_done_now E) (wrap64 (pe_done_now E + stagingTTLMs C)) (uw_db w) of
           Inl _ \<Rightarrow> (Replied (WriteDBError 500), w)
         | Inr (_, d) \<Rightarrow> (Replied (WriteJSON 201 sid (pe_sha E hashed)), w\<lparr>uw_db := d\<rparr>)) w)"
    using st last discard_good [OF calm tracks_pending [OF w] id] by simp
qed simp

lemma write_bytes_tracked: "int (length b) = written \<Longrightarrow> write_bytes app (nat written) chunk b = b @ chunk"
  by (auto simp: write_bytes_def)

lemma put_loop_good:
  assumes calm: "\<And>p. calm (pe_sha E) C sid (pe_others E p)" and id: "ValidateUUIDv7 sid"
    and reads: "list_all (\<lambda>r. calm (pe_sha E) C sid (rd_others r) \<and> calm (pe_sha E) C sid (rd_between r)) rs"
    and t: "tracks (pe_sha E) C sid i (\<lambda>b. b = hashed \<and> int (length b) = written) w"
  shows "good (pe_sha E) C sid declared tot
    (put_loop E C sid tot app i (put_finish E C sid declared tot) rs (written, hashed, since) w)"
  using reads t
proof (induction rs arbitrary: written hashed since w)
  case Nil
  have st: "staged (pe_sha E) C w" by (rule pending_staged [OF tracks_pending [OF Nil(2)]])
  show ?case using put_finish_good [OF calm id Nil(2)] st by simp
next
  case (Cons r rs)
  let ?T = "\<lambda>h n. tracks (pe_sha E) C sid i (\<lambda>b. b = h \<and> int (length b) = n)"
  let ?chunk = "take (nat (tot - written)) (rd_bytes r)"
  let ?w0 = "rd_others r w"
  have rely: "calm (pe_sha E) C sid (rd_others r)" "calm (pe_sha E) C sid (rd_between r)"
    and rest: "list_all (\<lambda>r. calm (pe_sha E) C sid (rd_others r) \<and> calm (pe_sha E) C sid (rd_between r)) rs"
    using Cons.prems(1) by simp_all
  have t0: "?T hashed written ?w0" by (rule calm_tracks [OF rely(1) Cons.prems(2)])
  let ?next = "after_read E C sid (put_finish E C sid declared tot) (put_loop E C sid tot app i (put_finish E C sid declared tot) rs) r"
  have onward: "good (pe_sha E) C sid declared tot (?next (n, h, k) w')"
    if w': "?T h n w'" for n h k w'
    using put_finish_good [OF calm id w'] discard_good [OF calm tracks_pending [OF w'] id]
      pending_staged [OF tracks_pending [OF w']] Cons.IH [OF rest w'] by (simp add: after_read_def split: read_end.split)
  have partial: "staged (pe_sha E) C (write_file app i (nat written) c ?w0)" for c
    by (rule pending_staged [OF tracks_pending [OF write_file_tracks [OF t0, where B' = "\<lambda>_. True"]]]) simp
  have "?T (hashed @ ?chunk) (written + int (length ?chunk)) (write_file app i (nat written) ?chunk ?w0)"
    by (rule write_file_tracks [OF t0]) (auto simp: write_bytes_tracked simp del: take_append length_take)
  then have t1: "?T (hashed @ ?chunk) (written + int (length ?chunk))
      (put_progress C sid r (written + int (length ?chunk)) (write_file app i (nat written) ?chunk ?w0))"
    by (rule progress_tracks [OF _ rely(2)])
  have full: "good (pe_sha E) C sid declared tot (discard E C sid (WriteError 503 ''disk_quota_exceeded'' None)
      (put_progress C sid r (written + int (length ?chunk)) (write_file app i (nat written) ?chunk ?w0)))"
    using discard_good [OF calm tracks_pending [OF t1] id] by simp
  show ?case
  proof (cases "written < tot")
    case False
    then show ?thesis using put_finish_good [OF calm id Cons.prems(2)] by simp
  next
    case True
    show ?thesis
    proof (cases "?chunk = []")
      case empty: True
      with True onward [OF t0, of since] show ?thesis by (simp add: Let_def)
    next
      case False
      let ?w1 = "put_progress C sid r (written + int (length ?chunk)) (write_file app i (nat written) ?chunk ?w0)"
      let ?since = "since + int (length ?chunk)"
      obtain probed over where q: "quota_reached E C ?since r = (probed, over)" by (cases "quota_reached E C ?since r")
      have "good (pe_sha E) C sid declared tot (if over then discard E C sid (WriteError 503 ''disk_quota_exceeded'' None) ?w1
          else ?next (written + int (length ?chunk), hashed @ ?chunk, if probed then 0 else ?since) ?w1)"
        using full onward [OF t1] by (simp only: split: if_split) blast
      then show ?thesis
        using True False q partial by (simp add: Let_def del: length_take take_eq_Nil split: write_fate.split)
    qed
  qed
qed

lemma calm_envD:
  assumes "calm_env E C sid"
  shows "calm (pe_sha E) C sid (pe_others E p)"
    and "list_all (\<lambda>r. calm (pe_sha E) C sid (rd_others r) \<and> calm (pe_sha E) C sid (rd_between r)) (pe_reads E)"
  using assms by (auto simp: calm_env_def)

lemma close_good: "good sha C sid declared tot p \<Longrightarrow> good sha C sid declared tot (close_file i p)"
  by (auto simp: good_def close_file_def staged_def stored_def)

lemma put_stream_good:
  assumes "calm_env E C sid" and "ValidateUUIDv7 sid"
    and "tracks (pe_sha E) C sid i (\<lambda>b. b = hashed \<and> int (length b) = written) w"
  shows "good (pe_sha E) C sid declared tot (put_stream E C sid declared tot app i written hashed w)"
  unfolding put_stream_def by (rule put_loop_good [OF calm_envD(1) [OF assms(1)] assms(2) calm_envD(2) [OF assms(1)] assms(3)])

lemma put_resume_good:
  assumes env: "calm_env E C sid" and id: "ValidateUUIDv7 sid"
    and t: "tracks (pe_sha E) C sid i (\<lambda>b. int (length b) = received) w"
  shows "good (pe_sha E) C sid declared tot (put_resume E C sid declared tot i received w)"
proof (cases "received > 0")
  case True
  have "good (pe_sha E) C sid declared tot (at_point E AtPrefix (WriteIOError 500) (\<lambda>w.
      case uw_dir w (staging_abs C sid) of None \<Rightarrow> (Replied (WriteIOError 500 ErrNotFound), w)
      | Some j \<Rightarrow> put_stream E C sid declared tot True i received (uw_data w j) w) w)"
  proof (rule good_at_point [where I = "tracks (pe_sha E) C sid i (\<lambda>b. int (length b) = received)", OF t])
    fix w
    assume w: "tracks (pe_sha E) C sid i (\<lambda>b. int (length b) = received) w"
    show "tracks (pe_sha E) C sid i (\<lambda>b. int (length b) = received) (pe_others E AtPrefix w)"
      by (rule calm_tracks [OF calm_envD(1) [OF env] w])
    show st: "staged (pe_sha E) C w" by (rule pending_staged [OF tracks_pending [OF w]])
    have "tracks (pe_sha E) C sid i (\<lambda>b. b = uw_data w j \<and> int (length b) = received) w"
      if "uw_dir w (staging_abs C sid) = Some j" for j
      using w that by (simp add: tracks_def)
    from put_stream_good [OF env id this] st
    show "good (pe_sha E) C sid declared tot (case uw_dir w (staging_abs C sid) of
        None \<Rightarrow> (Replied (WriteIOError 500 ErrNotFound), w)
      | Some j \<Rightarrow> put_stream E C sid declared tot True i received (uw_data w j) w)"
      by (simp split: option.split)
  qed simp
  with True show ?thesis by (simp add: put_resume_def)
next
  case False
  have "tracks (pe_sha E) C sid i (\<lambda>b. b = [] \<and> int (length b) = 0) w"
    by (rule tracks_weaken [OF t]) (use False in auto)
  from put_stream_good [OF env id this] False show ?thesis by (simp add: put_resume_def)
qed

lemma create_file_tracks:
  assumes p: "pending sha C sid w" and id: "ValidateUUIDv7 sid" and run: "create_file C sid w = (i, w1)"
  shows "tracks sha C sid i (\<lambda>b. b = [] \<and> int (length b) = 0) w1"
proof (cases "uw_dir w (staging_abs C sid)")
  case (Some j)
  note free = pending_free [OF p id Some]
  from run Some have w1: "i = j" "w1 = w\<lparr>uw_data := (uw_data w)(i := []), uw_open := (uw_open w)(i \<mapsto> sid)\<rparr>"
    by (auto simp: create_file_def)
  have "stored sha C s w1" if "s \<in> set (staging_files (uw_db w))" "servable s" for s
    using stagedD(4) [OF pending_staged [OF p] that] free that by (auto simp: stored_def w1 free_file_def)
  with p have "pending sha C sid w1" by (simp add: pending_def staged_def w1 in_state_def)
  with free Some show ?thesis by (simp add: tracks_def w1 free_file_def)
next
  case None
  from run None have w1: "i = uw_next w" "w1 = w\<lparr>uw_dir := (uw_dir w)(staging_abs C sid \<mapsto> i), uw_data := (uw_data w)(i := []),
      uw_next := Suc (uw_next w), uw_open := (uw_open w)(i \<mapsto> sid)\<rparr>"
    by (auto simp: create_file_def)
  note st = pending_staged [OF p]
  have fresh: "uw_dir w q \<noteq> Some i" for q using stagedD(3) [OF st, of q i] by (auto simp: w1)
  have other: "staging_abs C (stg_StagingID s) \<noteq> staging_abs C sid"
    if s: "s \<in> set (staging_files (uw_db w))" "servable s" for s
    using stagedD(4) [OF st s] None by (auto simp: stored_def)
  have "stored sha C s w1" if s: "s \<in> set (staging_files (uw_db w))" "servable s" for s
  proof -
    from stagedD(4) [OF st s] obtain k where k: "uw_dir w (staging_abs C (stg_StagingID s)) = Some k"
      "sha (uw_data w k) = stg_Sha256 s" "int (length (uw_data w k)) = stg_Size s" by (auto simp: stored_def)
    have "k \<noteq> uw_next w" using k(1) fresh [of "staging_abs C (stg_StagingID s)"] w1(1) by auto
    with k other [OF s] show ?thesis by (simp add: stored_def w1)
  qed
  moreover have "q = r" if "uw_dir w1 q = Some k" "uw_dir w1 r = Some k" for q r k
    using that fresh [of q] fresh [of r] stagedD(2) [OF st, of q k r] by (simp add: w1(2) split: if_splits)
  moreover have "k < uw_next w1" if "uw_dir w1 q = Some k" for q k
    using that stagedD(3) [OF st, of q k] w1(1) by (simp add: w1(2) split: if_splits)
  moreover have db: "uw_db w1 = uw_db w" by (simp add: w1(2))
  ultimately have "staged sha C w1" unfolding staged_def db using stagedD(1) [OF st] by blast
  moreover have "free_file C i w1" using other fresh by (simp add: free_file_def w1)
  ultimately show ?thesis using p by (simp add: tracks_def pending_def w1 in_state_def)
qed

lemma put_open_new_good:
  assumes env: "calm_env E C sid" and id: "ValidateUUIDv7 sid" and p: "pending (pe_sha E) C sid w"
  shows "good (pe_sha E) C sid declared tot (put_open E C sid declared tot None w)"
  unfolding put_open_def
proof (rule good_at_point [where I = "pending (pe_sha E) C sid", OF p])
  fix w
  assume w: "pending (pe_sha E) C sid w"
  show "pending (pe_sha E) C sid (pe_others E AtOpen w)" by (rule calm_pending [OF calm_envD(1) [OF env] w])
  show "staged (pe_sha E) C w" by (rule pending_staged [OF w])
  obtain i w1 where c: "create_file C sid w = (i, w1)" by (cases "create_file C sid w")
  from close_good [OF put_stream_good [OF env id create_file_tracks [OF w id c]]]
  show "good (pe_sha E) C sid declared tot (case None of
      None \<Rightarrow> (case create_file C sid w of (i, w1) \<Rightarrow> close_file i (put_stream E C sid declared tot False i 0 [] w1))
    | Some ex \<Rightarrow> (case uw_dir w (staging_abs C sid) of None \<Rightarrow> (Replied (WriteIOError 500 ErrNotFound), w)
        | Some i \<Rightarrow> close_file i (put_resume E C sid declared tot i (stg_BytesReceived ex) (w\<lparr>uw_open := (uw_open w)(i \<mapsto> sid)\<rparr>))))"
    by (simp add: c)
qed simp

lemma put_open_resume_good:
  assumes env: "calm_env E C sid" and id: "ValidateUUIDv7 sid" and v: "verified (pe_sha E) C sid (stg_BytesReceived ex) w"
  shows "good (pe_sha E) C sid declared tot (put_open E C sid declared tot (Some ex) w)"
  unfolding put_open_def
proof (rule good_at_point [where I = "verified (pe_sha E) C sid (stg_BytesReceived ex)", OF v])
  fix w
  assume w: "verified (pe_sha E) C sid (stg_BytesReceived ex) w"
  show "verified (pe_sha E) C sid (stg_BytesReceived ex) (pe_others E AtOpen w)"
    by (rule calm_verified [OF calm_envD(1) [OF env] w])
  have p: "pending (pe_sha E) C sid w" using w by (simp add: verified_def)
  show st: "staged (pe_sha E) C w" by (rule pending_staged [OF p])
  have "tracks (pe_sha E) C sid i (\<lambda>b. int (length b) = stg_BytesReceived ex) (w\<lparr>uw_open := (uw_open w)(i \<mapsto> sid)\<rparr>)"
    if "uw_dir w (staging_abs C sid) = Some i" for i
    using pending_free [OF p id that] w that
    by (simp add: tracks_def verified_def pending_def staged_def stored_def in_state_def free_file_def verifyPartialFile_def)
  from close_good [OF put_resume_good [OF env id this]] st
  show "good (pe_sha E) C sid declared tot (case Some ex of
      None \<Rightarrow> (case create_file C sid w of (i, w1) \<Rightarrow> close_file i (put_stream E C sid declared tot False i 0 [] w1))
    | Some ex \<Rightarrow> (case uw_dir w (staging_abs C sid) of None \<Rightarrow> (Replied (WriteIOError 500 ErrNotFound), w)
        | Some i \<Rightarrow> close_file i (put_resume E C sid declared tot i (stg_BytesReceived ex) (w\<lparr>uw_open := (uw_open w)(i \<mapsto> sid)\<rparr>))))"
    by (simp split: option.split)
qed simp

lemma insert_pending:
  assumes st: "pending sha C sid w" and run: "InsertStaging (upload_row C now sid declared tot) (uw_db w) = Inr (u, d)"
  shows "pending sha C sid (w\<lparr>uw_db := d\<rparr>)"
proof -
  let ?r = "upload_row C now sid declared tot"
  from run obtain t where t: "sql_insert stg_StagingID ?r (staging_files (uw_db w)) = Some t"
    and d: "d = (uw_db w)\<lparr>staging_files := t\<rparr>"
    by (auto simp: InsertStaging_def split: option.splits)
  have rows: "t = staging_files (uw_db w) @ [?r]" using t by (auto simp: sql_insert_def split: if_splits)
  have up: "stg_State ?r = StagingUploading" "stg_StagingID ?r = sid" by (simp_all add: upload_row_def)
  have "stored sha C s (w\<lparr>uw_db := d\<rparr>)" if "s \<in> set (staging_files d)" "servable s" for s
    using that up stagedD(4) [OF pending_staged [OF st], of s] by (auto simp: d rows stored_def servable_def)
  then have "staged sha C (w\<lparr>uw_db := d\<rparr>)"
    using InsertStaging_db_ok [OF run] pending_staged [OF st] by (simp add: staged_def)
  moreover have "find_staging sid d = Some ?r" using sql_find_insert [OF t, of sid] up by (simp add: find_staging_def d)
  ultimately show ?thesis using up by (simp add: pending_def in_state_def)
qed

lemma insert_row_good:
  assumes env: "calm_env E C sid" and id: "ValidateUUIDv7 sid" and p: "pending (pe_sha E) C sid w"
  shows "good (pe_sha E) C sid declared tot (at_point E AtInsert (\<lambda>_. WriteDBError 500) (\<lambda>w.
      case InsertStaging (upload_row C (pe_now E) sid declared tot) (uw_db w) of
        Inl _ \<Rightarrow> (Replied (WriteDBError 500), w)
      | Inr (_, d) \<Rightarrow> put_open E C sid declared tot None (w\<lparr>uw_db := d\<rparr>)) w)"
proof (rule good_at_point [where I = "pending (pe_sha E) C sid", OF p])
  fix w
  assume w: "pending (pe_sha E) C sid w"
  show "pending (pe_sha E) C sid (pe_others E AtInsert w)" by (rule calm_pending [OF calm_envD(1) [OF env] w])
  show st: "staged (pe_sha E) C w" by (rule pending_staged [OF w])
  show "good (pe_sha E) C sid declared tot (case InsertStaging (upload_row C (pe_now E) sid declared tot) (uw_db w) of
        Inl _ \<Rightarrow> (Replied (WriteDBError 500), w)
      | Inr (_, d) \<Rightarrow> put_open E C sid declared tot None (w\<lparr>uw_db := d\<rparr>))"
    using st put_open_new_good [OF env id insert_pending [OF w]] by (auto split: sum.split)
qed simp

lemma put_insert_good:
  assumes env: "calm_env E C sid" and id: "ValidateUUIDv7 sid" and p: "pending (pe_sha E) C sid w"
  shows "good (pe_sha E) C sid declared tot (put_insert E C sid declared tot w)"
proof -
  note row = insert_row_good [OF env id]
  have "good (pe_sha E) C sid declared tot (at_point E AtCount (\<lambda>_. WriteError 503 ''incomplete_uploads_full'' None) (\<lambda>w.
      case enforceIncompleteLimits C (uw_db w) of None \<Rightarrow> (Replied (WriteError 503 ''incomplete_uploads_full'' None), w)
      | Some _ \<Rightarrow> at_point E AtInsert (\<lambda>_. WriteDBError 500) (\<lambda>w.
            case InsertStaging (upload_row C (pe_now E) sid declared tot) (uw_db w) of
              Inl _ \<Rightarrow> (Replied (WriteDBError 500), w)
            | Inr (_, d) \<Rightarrow> put_open E C sid declared tot None (w\<lparr>uw_db := d\<rparr>)) w) w)"
    by (rule good_at_point [where I = "pending (pe_sha E) C sid", OF p])
      (auto intro: calm_pending [OF calm_envD(1) [OF env]] pending_staged good_error [OF pending_staged] row split: option.split)
  with row [OF p] show ?thesis by (simp add: put_insert_def Let_def)
qed

lemma put_prepare_new_good:
  assumes env: "calm_env E C sid" and id: "ValidateUUIDv7 sid" and p: "pending (pe_sha E) C sid w"
  shows "good (pe_sha E) C sid declared tot (put_prepare E C sid declared tot None w)"
  unfolding put_prepare_def
  by (rule good_at_point [where I = "pending (pe_sha E) C sid", OF p])
    (auto intro: calm_pending [OF calm_envD(1) [OF env]] pending_staged put_insert_good [OF env id])

lemma put_prepare_resume_good:
  assumes env: "calm_env E C sid" and id: "ValidateUUIDv7 sid" and v: "verified (pe_sha E) C sid (stg_BytesReceived ex) w"
  shows "good (pe_sha E) C sid declared tot (put_prepare E C sid declared tot (Some ex) w)"
  unfolding put_prepare_def
  by (rule good_at_point [where I = "verified (pe_sha E) C sid (stg_BytesReceived ex)", OF v])
    (auto intro: calm_verified [OF calm_envD(1) [OF env]] verified_staged put_open_resume_good [OF env id])

lemma put_existing_good:
  assumes env: "calm_env E C sid" and id: "ValidateUUIDv7 sid" and st: "staged (pe_sha E) C w"
    and ex: "find_staging sid (uw_db w) = Some ex"
  shows "good (pe_sha E) C sid declared tot (put_existing E C sid declared start tot ex w)"
proof (cases "stg_State ex = StagingUploading")
  case True
  with st ex have p: "pending (pe_sha E) C sid w" by (simp add: pending_def in_state_def)
  have "good (pe_sha E) C sid declared tot (at_point E AtStat (\<lambda>_. WriteError 416 ''range_not_satisfiable'' None) (\<lambda>w.
      if \<not> verifyPartialFile (staging_abs C sid) (stg_BytesReceived ex) w \<or> start \<noteq> stg_BytesReceived ex
      then (Replied (WriteError 416 ''range_not_satisfiable'' None), w)
      else put_prepare E C sid declared tot (Some ex) w) w)"
    by (rule good_at_point [where I = "pending (pe_sha E) C sid", OF p])
      (auto intro: calm_pending [OF calm_envD(1) [OF env]] pending_staged good_error [OF pending_staged] put_prepare_resume_good [OF env id] simp: verified_def)
  with True st show ?thesis by (simp add: put_existing_def)
next
  case False
  then show ?thesis
    using st ex by (auto simp: put_existing_def good_def split: staging_state.split)
qed

lemma put_locked_good:
  assumes env: "calm_env E C sid" and id: "ValidateUUIDv7 sid" and st: "staged (pe_sha E) C w"
  shows "good (pe_sha E) C sid declared tot (put_locked E C sid declared start tot w)"
  unfolding put_locked_def
proof (rule good_at_point [where I = "staged (pe_sha E) C", OF st])
  fix w
  assume w: "staged (pe_sha E) C w"
  show "staged (pe_sha E) C (pe_others E AtGet w)" using calm_envD(1) [OF env, of AtGet] w by (simp add: calm_def)
  have new: "pending (pe_sha E) C sid w" if "find_staging sid (uw_db w) = None"
    using that w by (simp add: pending_def in_state_def)
  show "good (pe_sha E) C sid declared tot (case find_staging sid (uw_db w) of
      Some ex \<Rightarrow> put_existing E C sid declared start tot ex w
    | None \<Rightarrow> if start \<noteq> 0 then (Replied (WriteError 416 ''range_not_satisfiable'' None), w)
              else put_prepare E C sid declared tot None w)"
    using put_existing_good [OF env id w] put_prepare_new_good [OF env id new] w by (simp split: option.split)
qed simp_all

lemma staged_lock [simp]: "staged sha C (w\<lparr>uw_lock := u\<rparr>) = staged sha C w"
  by (simp add: staged_def stored_def)

text \<open>
  Whatever fails and wherever the daemon stops, a request keeps the files of the complete rows;
  one that is answered 201 has stored the bytes with the declared hash and size.
\<close>

lemma staging_Put_good:
  assumes env: "calm_env E C (pr_id q)" and st: "staged (pe_sha E) C w"
    and run: "staging_Put E C q w = (answer, w')"
  shows "staged (pe_sha E) C w' \<and>
    (\<forall>j h. answer = Replied (WriteJSON 201 j h) \<longrightarrow>
       (\<exists>s. find_staging (pr_id q) (uw_db w') = Some s \<and> stg_State s = StagingComplete \<and>
          stg_Sha256 s = ToLower (pr_Sha256 q) \<and> stored (pe_sha E) C s w'))"
proof (cases "put_gate C (pe_usage E) q")
  case (Inl refused)
  have "\<exists>n c r. refused = WriteError n c r"
    using Inl by (auto simp: put_gate_def Let_def split: if_splits option.splits)
  with Inl run st show ?thesis by (auto simp: staging_Put_def)
next
  case (Inr p)
  obtain declared start tot where p: "p = (declared, start, tot)" by (cases p)
  have gate: "ValidateUUIDv7 (pr_id q)" "declared = ToLower (pr_Sha256 q)"
    using Inr by (auto simp: p put_gate_def Let_def split: if_splits option.splits)
  obtain h u where lock: "TryAcquire (pe_lock_now E) (pr_id q) (uw_lock w) = (h, u)"
    by (cases "TryAcquire (pe_lock_now E) (pr_id q) (uw_lock w)")
  show ?thesis
  proof (cases h)
    case None
    with run Inr p lock st show ?thesis by (auto simp: staging_Put_def)
  next
    case (Some k)
    obtain a w2 where body: "put_locked E C (pr_id q) declared start tot (w\<lparr>uw_lock := u\<rparr>) = (a, w2)"
      by (cases "put_locked E C (pr_id q) declared start tot (w\<lparr>uw_lock := u\<rparr>)")
    have "good (pe_sha E) C (pr_id q) declared tot (a, w2)"
      using put_locked_good [OF env gate(1), of "w\<lparr>uw_lock := u\<rparr>" declared tot start] st body by simp
    moreover have "answer = a" "w' = w2\<lparr>uw_lock := release_lock (pr_id q) (uw_lock w2)\<rparr>"
      using run Inr p lock Some body by (simp_all add: staging_Put_def)
    ultimately show ?thesis using gate(2) by (auto simp: good_def stored_def)
  qed
qed

text \<open>Changes of the database that complete no row are among those an upload relies on.\<close>

lemma mild_calm:
  assumes "\<And>d. db_ok d \<Longrightarrow> mild d (f d)"
  shows "calm sha C sid (\<lambda>w. w\<lparr>uw_db := f (uw_db w)\<rparr>)"
  unfolding calm_def
proof (intro allI impI)
  fix w
  assume st: "staged sha C w"
  have m: "mild (uw_db w) (f (uw_db w))" by (rule assms [OF stagedD(1) [OF st]])
  have "free_file C i (w\<lparr>uw_db := f (uw_db w)\<rparr>)" if "free_file C i w" for i
    using m that by (simp add: free_file_def mild_def)
  with mild_staged [OF st m] mild_in_state [OF m]
  show "staged sha C (w\<lparr>uw_db := f (uw_db w)\<rparr>) \<and>
    (in_state StagingComplete sid (w\<lparr>uw_db := f (uw_db w)\<rparr>) \<longrightarrow> in_state StagingComplete sid w) \<and>
    (in_state StagingUploading sid (w\<lparr>uw_db := f (uw_db w)\<rparr>) \<longrightarrow> in_state StagingUploading sid w \<and>
       uw_dir (w\<lparr>uw_db := f (uw_db w)\<rparr>) (staging_abs C sid) = uw_dir w (staging_abs C sid) \<and>
       (\<forall>i. uw_dir w (staging_abs C sid) = Some i \<longrightarrow> uw_data (w\<lparr>uw_db := f (uw_db w)\<rparr>) i = uw_data w i)) \<and>
    (\<forall>i. uw_open w i = Some sid \<and> i < uw_next w \<and> free_file C i w \<longrightarrow>
       uw_open (w\<lparr>uw_db := f (uw_db w)\<rparr>) i = Some sid \<and> i < uw_next (w\<lparr>uw_db := f (uw_db w)\<rparr>) \<and>
       free_file C i (w\<lparr>uw_db := f (uw_db w)\<rparr>))"
    by simp
qed

lemma id_calm: "calm sha C sid id"
  by (simp add: calm_def)

text \<open>The idle sweep ends an upload's claim on the disk, and completes nothing.\<close>

lemma idleAbort_mild: "db_ok d \<Longrightarrow> idleAbort sid now d = Inr (u, d') \<Longrightarrow> mild d d'"
  by (auto simp: idleAbort_def intro!: update_mild)

section \<open>Content-Range read back\<close>

lemma trim_front_none:
  assumes "\<forall>r \<in> set spaces. r \<noteq> [] \<and> hd r \<noteq> hd s" and "s \<noteq> []"
  shows "trim_front spaces n s = s"
proof -
  have "\<not> has_prefix s r" if "r \<in> set spaces" for r
    using assms that by (cases r; cases s) (auto simp: has_prefix_def)
  then have "List.find (has_prefix s) spaces = None" by (auto simp: find_None_iff)
  then show ?thesis by (cases n) simp_all
qed

lemma TrimSpace_id:
  assumes "s \<noteq> []" and "hd s = CHR ''b''" and "is_digit (last s)"
  shows "TrimSpace s = s"
proof -
  have "trim_front space_runes (length s) s = s"
    by (rule trim_front_none) (use assms in \<open>auto simp: space_runes_def\<close>)
  moreover have "trim_front (map rev space_runes) (length s) (rev s) = rev s"
  proof (rule trim_front_none)
    have "\<forall>r \<in> set (map rev space_runes). r \<noteq> [] \<and> \<not> is_digit (hd r)"
      by (auto simp: space_runes_def is_digit_def)
    then show "\<forall>r \<in> set (map rev space_runes). r \<noteq> [] \<and> hd r \<noteq> hd (rev s)"
      using assms(1,3) hd_rev [of s] by auto
  qed (use assms in simp)
  ultimately show ?thesis by (simp add: TrimSpace_def)
qed

lemma split2_at: "c \<notin> set a \<Longrightarrow> split2 c (a @ c # b) = Some (a, b)"
  by (induction a) (auto simp: split2_def)

lemma itoa_digits:
  assumes "0 \<le> n"
  shows "list_all is_digit (itoa n)" and "itoa n \<noteq> []"
  using nat_str_digits [of "nat n"] assms by (simp_all add: itoa_def)

lemma itoa_no:
  assumes "0 \<le> n" and "\<not> is_digit c"
  shows "c \<notin> set (itoa n)"
  using itoa_digits(1) [OF assms(1)] assms(2) by (auto simp: list_all_iff)

definition range_text :: "int \<Rightarrow> int \<Rightarrow> int \<Rightarrow> string" where
  "range_text start fin tot = ''bytes '' @ itoa start @ ''-'' @ itoa fin @ ''/'' @ itoa tot"

lemma parseContentRange_text:
  assumes "0 \<le> start" and "start \<le> fin" and "fin < tot" and "tot \<le> maxInt64"
  shows "parseContentRange (range_text start fin tot) = Some (start, fin, tot)"
proof -
  let ?s = "range_text start fin tot"
  have "last (itoa tot) \<in> set (itoa tot)" by (rule last_in_set [OF itoa_digits(2)]) (use assms in simp)
  then have "is_digit (last (itoa tot))" using itoa_digits(1) [of tot] assms by (simp add: list_all_iff)
  then have trim: "TrimSpace ?s = ?s"
    using itoa_digits(2) [of tot] assms by (intro TrimSpace_id) (simp_all add: range_text_def)
  have no: "CHR ''-'' \<notin> set (itoa start)" "CHR ''/'' \<notin> set (itoa start @ ''-'' @ itoa fin)"
    using itoa_no [of start] itoa_no [of fin] assms by (simp_all add: is_digit_def)
  have "split2 (CHR ''/'') (drop 6 ?s) = Some (itoa start @ ''-'' @ itoa fin, itoa tot)"
    using split2_at [OF no(2), of "itoa tot"] by (simp add: range_text_def)
  moreover have "split2 (CHR ''-'') (itoa start @ ''-'' @ itoa fin) = Some (itoa start, itoa fin)"
    using split2_at [OF no(1), of "itoa fin"] by simp
  moreover have "in_i64 start" "in_i64 fin" "in_i64 tot" using assms by (simp_all add: in_i64_def maxInt64_def)
  moreover have "has_prefix ?s ''bytes ''" by (simp add: has_prefix_def range_text_def)
  ultimately show ?thesis
    using assms trim by (simp add: parseContentRange_def Let_def ParseInt64_itoa)
qed

lemma parseContentRange_bounds:
  assumes "parseContentRange s = Some (start, fin, tot)"
  shows "0 \<le> start \<and> start \<le> fin \<and> fin < tot \<and> tot \<le> maxInt64"
proof -
  have "in_i64 v" if "ParseInt64 t = Some v" for t v
    using that by (auto simp: ParseInt64_def Let_def split: prod.splits if_splits)
  then show ?thesis
    using assms by (fastforce simp: parseContentRange_def Let_def in_i64_def split: if_splits option.splits prod.splits)
qed

section \<open>An upload in chunks\<close>

text \<open>
  A client sends its data as a sequence of requests, each with the range it covers; nothing
  fails and nobody interferes.  A body arrives in any number of reads.
\<close>

definition undisturbed :: "(string \<Rightarrow> string) \<Rightarrow> int \<Rightarrow> read_step list \<Rightarrow> put_env" where
  "undisturbed sha now reads =
     \<lparr>pe_sha = sha, pe_usage = None, pe_lock_now = now, pe_now = now, pe_done_now = now,
      pe_others = \<lambda>_. id, pe_fault = \<lambda>_. NoFault, pe_reads = reads\<rparr>"

definition plain_read :: "int \<Rightarrow> string \<Rightarrow> read_end \<Rightarrow> read_step" where
  "plain_read now bytes how =
     \<lparr>rd_others = id, rd_bytes = bytes, rd_end = how, rd_write = WriteOk, rd_between = id,
      rd_progress = True, rd_now = now, rd_usage = 0\<rparr>"

lemma plain_read_fields [simp]:
  "rd_others (plain_read now b e) = id" "rd_bytes (plain_read now b e) = b" "rd_end (plain_read now b e) = e"
  "rd_write (plain_read now b e) = WriteOk" "rd_between (plain_read now b e) = id"
  "rd_progress (plain_read now b e) = True" "rd_now (plain_read now b e) = now"
  by (simp_all add: plain_read_def)

definition body_reads :: "int \<Rightarrow> string list \<Rightarrow> read_step list" where
  "body_reads now parts = map (\<lambda>b. plain_read now b ReadMore) parts @ [plain_read now [] ReadEOF]"

definition chunk_request :: "string \<Rightarrow> string \<Rightarrow> int \<Rightarrow> int \<Rightarrow> int \<Rightarrow> put_request" where
  "chunk_request sid declared start n tot =
     \<lparr>pr_ContentEncoding = [], pr_id = sid, pr_Sha256 = declared,
      pr_ContentRange = range_text start (start + n - 1) tot, pr_ContentLength = n\<rparr>"

fun send_chunks ::
  "(string \<Rightarrow> string) \<Rightarrow> upload_cfg \<Rightarrow> string \<Rightarrow> string \<Rightarrow> int \<Rightarrow> (int \<times> string list) list \<Rightarrow> int \<Rightarrow> upload_world \<Rightarrow> put_end list \<times> upload_world" where
  "send_chunks sha C sid declared tot [] start w = ([], w)"
| "send_chunks sha C sid declared tot ((now, parts) # chunks) start w =
     (let n = int (length (concat parts));
          (a, w1) = staging_Put (undisturbed sha now (body_reads now parts)) C (chunk_request sid declared start n tot) w;
          (as, w2) = send_chunks sha C sid declared tot chunks (start + n) w1
      in (a # as, w2))"

text \<open>The upload has the bytes \<open>b\<close> so far.\<close>

definition underway :: "upload_cfg \<Rightarrow> string \<Rightarrow> string \<Rightarrow> int \<Rightarrow> nat \<Rightarrow> string \<Rightarrow> upload_world \<Rightarrow> bool" where
  "underway C sid declared tot i b w \<longleftrightarrow>
     db_ok (uw_db w) \<and> uw_dir w (staging_abs C sid) = Some i \<and> uw_data w i = b \<and>
     (\<exists>s. find_staging sid (uw_db w) = Some s \<and> stg_State s = StagingUploading \<and> stg_Sha256 s = declared \<and>
        stg_Size s = tot \<and> stg_BytesReceived s = int (length b))"

lemma underway_lock [simp]: "underway C sid declared tot i b (w\<lparr>uw_lock := u\<rparr>) = underway C sid declared tot i b w"
  by (simp add: underway_def)

lemma underway_open [simp]: "underway C sid declared tot i b (w\<lparr>uw_open := u\<rparr>) = underway C sid declared tot i b w"
  by (simp add: underway_def)

lemma progress_underway:
  assumes "underway C sid declared tot i b w" and "int (length b) = written"
  shows "underway C sid declared tot i (b @ p)
    (put_progress C sid (plain_read now p how) (written + int (length p)) (write_file app i (nat written) p w))"
proof -
  let ?f = "\<lambda>s. s\<lparr>stg_BytesReceived := written + int (length p), stg_TimeUpdatedMs := now,
      stg_TimeExpiresMs := wrap64 (now + stagingTTLMs C)\<rparr>"
  let ?P = "\<lambda>s. stg_StagingID s = sid \<and> stg_State s = StagingUploading"
  let ?d = "(uw_db w)\<lparr>staging_files := sql_update ?P ?f (staging_files (uw_db w))\<rparr>"
  from assms(1) obtain s where s: "find_staging sid (uw_db w) = Some s" "stg_State s = StagingUploading"
    "stg_Sha256 s = declared" "stg_Size s = tot" and ok: "db_ok (uw_db w)"
    by (auto simp: underway_def)
  have g: "guarded_staging sid (\<lambda>s. stg_State s = StagingUploading) ?f (uw_db w) = Inr ((), ?d)"
    using s guarded_staging_ok [OF db_ok_keyed(3) [OF ok]] by blast
  have "find_staging sid ?d = Some (?f s)" using guarded_staging_find [OF g, of sid] s find_staging_id [OF s(1)] by simp
  moreover have "db_ok ?d" by (rule guarded_staging_db_ok [OF g _ ok]) simp
  moreover have "write_bytes app (nat written) p b = b @ p" by (rule write_bytes_tracked [OF assms(2)])
  ultimately show ?thesis
    using assms s g by (simp add: underway_def put_progress_def plain_read_def write_file_def try_stmt_def UpdateStagingProgress_def)
qed

lemma put_loop_plain:
  assumes "underway C sid declared tot i hashed w" and "int (length hashed) = written"
    and "written + int (length (concat parts)) \<le> tot" and "pe_usage E = None"
  shows "\<exists>w'. put_loop E C sid tot app i finish (body_reads now parts) (written, hashed, since) w =
      finish (written + int (length (concat parts))) (hashed @ concat parts) w' \<and>
    underway C sid declared tot i (hashed @ concat parts) w' "
  using assms(1-3)
proof (induction parts arbitrary: w hashed written since)
  case Nil
  then show ?case by (auto simp: body_reads_def plain_read_def after_read_def)
next
  case (Cons p parts)
  show ?case
  proof (cases "written < tot")
    case False
    with Cons.prems(3) have "int (length p) = 0" "int (length (concat parts)) = 0" unfolding concat.simps length_append of_nat_add by linarith+
    then have "p = []" "concat parts = []" by (simp_all only: of_nat_eq_0_iff length_0_conv)
    with False Cons.prems show ?thesis by (intro exI [of _ w]) (simp add: body_reads_def del: concat_eq_Nil_conv)
  next
    case True
    have chunk: "take (nat (tot - written)) p = p" using Cons.prems(3) by simp
    show ?thesis
    proof (cases "p = []")
      case empty: True
      from Cons.IH [OF Cons.prems(1,2), of since] Cons.prems(3) empty True show ?thesis
        by (simp add: body_reads_def plain_read_def after_read_def)
    next
      case False
      let ?w1 = "put_progress C sid (plain_read now p ReadMore) (written + int (length p)) (write_file app i (nat written) p w)"
      have u: "underway C sid declared tot i (hashed @ p) ?w1" by (rule progress_underway [OF Cons.prems(1,2)])
      have "put_loop E C sid tot app i finish (body_reads now (p # parts)) (written, hashed, since) w =
          put_loop E C sid tot app i finish (body_reads now parts) (written + int (length p), hashed @ p, since + int (length p)) ?w1"
        using True False chunk assms(4)
        by (simp add: body_reads_def Let_def quota_reached_def after_read_def)
      moreover have "int (length (hashed @ p)) = written + int (length p)" using Cons.prems(2) by simp
      ultimately show ?thesis
        using Cons.IH [OF u, of "written + int (length p)" "since + int (length p)"] Cons.prems(3) by (simp add: add.assoc)
    qed
  qed
qed

lemma at_point_plain [simp]: "at_point (undisturbed sha now rs) p failed k w = k w"
  by (simp add: at_point_def undisturbed_def)

text \<open>An upload that is over: the row is complete and the file has the data.\<close>

definition uploaded :: "upload_cfg \<Rightarrow> string \<Rightarrow> string \<Rightarrow> int \<Rightarrow> string \<Rightarrow> upload_world \<Rightarrow> bool" where
  "uploaded C sid declared tot b w \<longleftrightarrow>
     (\<exists>i. uw_dir w (staging_abs C sid) = Some i \<and> uw_data w i = b) \<and>
     (\<exists>s. find_staging sid (uw_db w) = Some s \<and> stg_State s = StagingComplete \<and> stg_Sha256 s = declared \<and> stg_Size s = tot)"

lemma uploaded_lock [simp]: "uploaded C sid declared tot b (w\<lparr>uw_lock := u\<rparr>) = uploaded C sid declared tot b w"
  by (simp add: uploaded_def)

lemma uploaded_open [simp]: "uploaded C sid declared tot b (w\<lparr>uw_open := u\<rparr>) = uploaded C sid declared tot b w"
  by (simp add: uploaded_def)

text \<open>What a request ends with: the upload goes on, or it is over.\<close>

definition chunk_done :: "(string \<Rightarrow> string) \<Rightarrow> upload_cfg \<Rightarrow> string \<Rightarrow> string \<Rightarrow> int \<Rightarrow> string \<Rightarrow> put_end \<times> upload_world \<Rightarrow> bool" where
  "chunk_done sha C sid declared tot b p \<longleftrightarrow>
     (if int (length b) = tot
      then fst p = Replied (WriteJSON 201 sid declared) \<and> uploaded C sid declared tot b (snd p)
      else fst p = Replied (WriteError 400 ''incomplete_upload'' None) \<and> (\<exists>i. underway C sid declared tot i b (snd p)))"

lemma put_finish_plain:
  assumes u: "underway C sid declared tot i b w" and hash: "int (length b) = tot \<longrightarrow> sha b = declared"
  shows "chunk_done sha C sid declared tot b
    (put_finish (undisturbed sha now rs) C sid declared tot (int (length b)) b w)"
proof (cases "int (length b) = tot")
  case False
  with u show ?thesis by (auto simp: chunk_done_def put_finish_def)
next
  case True
  let ?f = "\<lambda>s. s\<lparr>stg_State := StagingComplete, stg_Sha256 := declared, stg_Size := tot, stg_BytesReceived := tot,
      stg_TimeUpdatedMs := now, stg_TimeExpiresMs := wrap64 (now + stagingTTLMs C)\<rparr>"
  let ?d = "(uw_db w)\<lparr>staging_files := sql_update (\<lambda>s. stg_StagingID s = sid \<and> stg_State s = StagingUploading) ?f (staging_files (uw_db w))\<rparr>"
  from u obtain s where s: "find_staging sid (uw_db w) = Some s" "stg_State s = StagingUploading" and ok: "db_ok (uw_db w)"
    by (auto simp: underway_def)
  have g: "guarded_staging sid (\<lambda>s. stg_State s = StagingUploading) ?f (uw_db w) = Inr ((), ?d)"
    using s guarded_staging_ok [OF db_ok_keyed(3) [OF ok]] by blast
  have "find_staging sid ?d = Some (?f s)" using guarded_staging_find [OF g, of sid] s find_staging_id [OF s(1)] by simp
  with u have up: "uploaded C sid declared tot b (w\<lparr>uw_db := ?d\<rparr>)" by (simp add: uploaded_def underway_def)
  have "pe_sha (undisturbed sha now rs) b = declared" "pe_done_now (undisturbed sha now rs) = now"
    using hash True by (simp_all add: undisturbed_def)
  with g True up show ?thesis
    by (simp add: chunk_done_def put_finish_def MarkStagingComplete_def)
qed

lemma put_stream_plain:
  assumes "underway C sid declared tot i b w" and "int (length b) + int (length (concat parts)) \<le> tot"
    and "int (length (b @ concat parts)) = tot \<longrightarrow> sha (b @ concat parts) = declared"
  shows "chunk_done sha C sid declared tot (b @ concat parts)
    (put_stream (undisturbed sha now (body_reads now parts)) C sid declared tot app i (int (length b)) b w)"
proof -
  let ?E = "undisturbed sha now (body_reads now parts)"
  have "pe_usage ?E = None" "pe_reads ?E = body_reads now parts" by (simp_all add: undisturbed_def)
  with put_loop_plain [OF assms(1) refl assms(2), of ?E app "put_finish ?E C sid declared tot" now 0]
  obtain w' where "put_stream ?E C sid declared tot app i (int (length b)) b w =
      put_finish ?E C sid declared tot (int (length (b @ concat parts))) (b @ concat parts) w'"
    and "underway C sid declared tot i (b @ concat parts) w'"
    by (auto simp: put_stream_def)
  with put_finish_plain [OF this(2), of sha] assms(3) show ?thesis by simp
qed

lemma chunk_done_close: "chunk_done sha C sid declared tot b p \<Longrightarrow> chunk_done sha C sid declared tot b (close_file i p)"
  by (auto simp: chunk_done_def close_file_def)

lemma put_open_plain:
  assumes "underway C sid declared tot i b w" and "int (length b) + int (length (concat parts)) \<le> tot"
    and "int (length (b @ concat parts)) = tot \<longrightarrow> sha (b @ concat parts) = declared"
    and ex: "stg_BytesReceived ex = int (length b)"
  shows "chunk_done sha C sid declared tot (b @ concat parts)
    (put_open (undisturbed sha now (body_reads now parts)) C sid declared tot (Some ex) w)"
proof -
  let ?w = "w\<lparr>uw_open := (uw_open w)(i \<mapsto> sid)\<rparr>"
  have disk: "uw_dir w (staging_abs C sid) = Some i" "uw_data w i = b" using assms(1) by (simp_all add: underway_def)
  have "chunk_done sha C sid declared tot (b @ concat parts)
      (put_stream (undisturbed sha now (body_reads now parts)) C sid declared tot True i (int (length b)) b ?w)"
    using put_stream_plain [of C sid declared tot i b ?w parts sha now True] assms by simp
  then have "chunk_done sha C sid declared tot (b @ concat parts)
      (put_resume (undisturbed sha now (body_reads now parts)) C sid declared tot i (int (length b)) ?w)"
    using disk by (cases "b = []") (simp_all add: put_resume_def)
  from chunk_done_close [OF this] disk ex show ?thesis by (simp add: put_open_def)
qed

lemma put_existing_plain:
  assumes u: "underway C sid declared tot i b w" and "int (length b) + int (length (concat parts)) \<le> tot"
    and "int (length (b @ concat parts)) = tot \<longrightarrow> sha (b @ concat parts) = declared"
  shows "chunk_done sha C sid declared tot (b @ concat parts)
    (put_locked (undisturbed sha now (body_reads now parts)) C sid declared (int (length b)) tot w)"
proof -
  from u obtain ex where ex: "find_staging sid (uw_db w) = Some ex" "stg_State ex = StagingUploading"
    "stg_Sha256 ex = declared" "stg_Size ex = tot" "stg_BytesReceived ex = int (length b)"
    by (auto simp: underway_def)
  have "verifyPartialFile (staging_abs C sid) (int (length b)) w" using u by (simp add: verifyPartialFile_def underway_def)
  with put_open_plain [OF u, of parts sha ex now] assms(2,3) ex show ?thesis
    by (simp add: put_locked_def put_existing_def put_prepare_def)
qed

lemma create_file_underway:
  assumes "db_ok (uw_db w)" and "find_staging sid (uw_db w) = Some s" and "stg_State s = StagingUploading"
    and "stg_Sha256 s = declared" and "stg_Size s = tot" and "stg_BytesReceived s = 0"
  shows "\<exists>i w1. create_file C sid w = (i, w1) \<and> underway C sid declared tot i [] w1"
  using assms by (auto simp: create_file_def underway_def split: option.split)

definition admits :: "upload_cfg \<Rightarrow> db \<Rightarrow> bool" where
  "admits C d \<longleftrightarrow> uc_MaxIncompleteUploads C \<le> 0 \<and> uc_MaxIncompleteBytes C \<le> 0 \<or> enforceIncompleteLimits C d = Some ()"

lemma put_new_plain:
  assumes ok: "db_ok (uw_db w)" and new: "find_staging sid (uw_db w) = None" and room: "admits C (uw_db w)"
    and len: "int (length (concat parts)) \<le> tot"
    and hash: "int (length (concat parts)) = tot \<longrightarrow> sha (concat parts) = declared"
  shows "chunk_done sha C sid declared tot (concat parts)
    (put_locked (undisturbed sha now (body_reads now parts)) C sid declared 0 tot w)"
proof -
  let ?E = "undisturbed sha now (body_reads now parts)"
  let ?r = "upload_row C now sid declared tot"
  have r: "stg_StagingID ?r = sid" "stg_State ?r = StagingUploading" "stg_Sha256 ?r = declared" "stg_Size ?r = tot"
    "stg_BytesReceived ?r = 0" by (simp_all add: upload_row_def)
  obtain t where t: "sql_insert stg_StagingID ?r (staging_files (uw_db w)) = Some t"
    using new r by (auto simp: sql_insert_def find_staging_def)
  let ?w = "w\<lparr>uw_db := (uw_db w)\<lparr>staging_files := t\<rparr>\<rparr>"
  have ins: "InsertStaging ?r (uw_db w) = Inr ((), uw_db ?w)" by (simp add: InsertStaging_def t)
  have "find_staging sid (uw_db ?w) = Some ?r" using sql_find_insert [OF t, of sid] r by (simp add: find_staging_def)
  from create_file_underway [OF InsertStaging_db_ok [OF ins ok] this r(2-)]
  obtain i w1 where c: "create_file C sid ?w = (i, w1)" "underway C sid declared tot i [] w1" by blast
  have "chunk_done sha C sid declared tot (concat parts) (put_stream ?E C sid declared tot False i 0 [] w1)"
    using put_stream_plain [OF c(2), of parts sha now False] len hash by simp
  from chunk_done_close [OF this] c ins have
    "chunk_done sha C sid declared tot (concat parts) (put_open ?E C sid declared tot None ?w)"
    by (simp add: put_open_def)
  moreover have "pe_now ?E = now" by (simp add: undisturbed_def)
  ultimately show ?thesis
    using new room ins by (auto simp: put_locked_def put_prepare_def put_insert_def Let_def admits_def)
qed

text \<open>The configured limits leave room for the upload.\<close>

definition roomy :: "upload_cfg \<Rightarrow> int \<Rightarrow> bool" where
  "roomy C tot \<longleftrightarrow>
     (uc_MaxStagingUploadSize C > 0 \<longrightarrow> tot \<le> uc_MaxStagingUploadSize C) \<and>
     (uc_MaxDataDirSize C > 0 \<longrightarrow> tot \<le> uc_MaxDataDirSize C)"

lemma ToLower_hex: "sha256Regex s \<Longrightarrow> ToLower s = s"
  by (induction s rule: rev_induct) (auto simp: sha256Regex_def ToLower_def list_all_iff hex_char_def lower_char_def Let_def intro!: map_idI)

lemma put_gate_chunk:
  assumes "ValidateUUIDv7 sid" and "sha256Regex declared" and "roomy C tot"
    and "0 \<le> start" and "0 < n" and "start + n \<le> tot" and "tot \<le> maxInt64"
  shows "put_gate C None (chunk_request sid declared start n tot) = Inr (declared, start, tot)"
proof -
  have "parseContentRange (range_text start (start + n - 1) tot) = Some (start, start + n - 1, tot)"
    by (rule parseContentRange_text) (use assms in auto)
  moreover have "range_text start (start + n - 1) tot \<noteq> []" by (simp add: range_text_def)
  moreover have "TrimSpace [] = []" by (simp add: TrimSpace_def)
  moreover have "in_i64 (start + n - 1)" using assms by (simp add: in_i64_def maxInt64_def)
  ultimately show ?thesis
    using assms ToLower_hex [OF assms(2)]
    by (auto simp: put_gate_def chunk_request_def Let_def roomy_def)
qed

lemma staging_Put_chunk:
  assumes gate: "put_gate C None q = Inr (declared, start, tot)" and free: "\<not> IsLocked (uw_lock w) (pr_id q)"
    and body: "\<And>u. chunk_done sha C (pr_id q) declared tot b
      (put_locked (undisturbed sha now rs) C (pr_id q) declared start tot (w\<lparr>uw_lock := u\<rparr>))"
  shows "\<exists>a w'. staging_Put (undisturbed sha now rs) C q w = (a, w') \<and> chunk_done sha C (pr_id q) declared tot b (a, w') \<and>
    \<not> IsLocked (uw_lock w') (pr_id q)"
proof -
  obtain h u where lock: "TryAcquire now (pr_id q) (uw_lock w) = (Some h, u)"
    using free by (auto simp: TryAcquire_def IsLocked_def)
  obtain a w2 where run: "put_locked (undisturbed sha now rs) C (pr_id q) declared start tot (w\<lparr>uw_lock := u\<rparr>) = (a, w2)"
    by (cases "put_locked (undisturbed sha now rs) C (pr_id q) declared start tot (w\<lparr>uw_lock := u\<rparr>)")
  let ?w' = "w2\<lparr>uw_lock := release_lock (pr_id q) (uw_lock w2)\<rparr>"
  have "staging_Put (undisturbed sha now rs) C q w = (a, ?w')"
    using gate lock run by (simp add: staging_Put_def) (simp add: undisturbed_def)
  moreover have "chunk_done sha C (pr_id q) declared tot b (a, ?w')"
    using body [of u] run by (simp add: chunk_done_def split: if_splits)
  ultimately show ?thesis by (auto simp: IsLocked_def release_lock_def)
qed

text \<open>The replies: every chunk but the last is answered incomplete, the last is created.\<close>

definition chunk_replies :: "string \<Rightarrow> string \<Rightarrow> nat \<Rightarrow> put_end list" where
  "chunk_replies sid declared n =
     replicate (n - 1) (Replied (WriteError 400 ''incomplete_upload'' None)) @ [Replied (WriteJSON 201 sid declared)]"

abbreviation chunk_data :: "(int \<times> string list) list \<Rightarrow> string" where
  "chunk_data chunks \<equiv> concat (map (\<lambda>c. concat (snd c)) chunks)"

text \<open>The chunks that follow, when the upload has the bytes \<open>b\<close> and they complete it.\<close>

lemma chunks_resume:
  assumes "ValidateUUIDv7 sid" and "sha256Regex declared" and "roomy C tot" and "tot \<le> maxInt64"
    and "\<And>c. c \<in> set chunks \<Longrightarrow> concat (snd c) \<noteq> []" and "chunks \<noteq> []"
    and "int (length (b @ chunk_data chunks)) = tot" and "sha (b @ chunk_data chunks) = declared"
    and "underway C sid declared tot i b w" and "\<not> IsLocked (uw_lock w) sid"
  shows "\<exists>w'. send_chunks sha C sid declared tot chunks (int (length b)) w = (chunk_replies sid declared (length chunks), w') \<and>
    uploaded C sid declared tot (b @ chunk_data chunks) w'"
  using assms(5-)
proof (induction chunks arbitrary: b i w)
  case Nil
  then show ?case by simp
next
  case (Cons c chunks)
  obtain now parts where c: "c = (now, parts)" by (cases c)
  let ?p = "concat parts" and ?q = "chunk_request sid declared (int (length b)) (int (length (concat parts))) tot"
  have nonempty: "?p \<noteq> []" using Cons.prems(1) [of c] c by simp
  have total: "int (length b) + int (length ?p) + int (length (chunk_data chunks)) = tot" using Cons.prems(3) c by simp
  have rest: "chunks \<noteq> [] \<longleftrightarrow> int (length (b @ ?p)) \<noteq> tot"
  proof (cases chunks)
    case (Cons e es)
    have "concat (snd e) \<noteq> []" using Cons.prems(1) [of e] Cons by simp
    then have "length (concat (snd e)) \<noteq> 0" by (simp only: length_0_conv not_False_eq_True)
    moreover have "length (chunk_data chunks) = length (concat (snd e)) + length (chunk_data es)" by (simp add: Cons)
    ultimately have "int (length b) + int (length ?p) < tot" using total by linarith
    then show ?thesis using Cons by simp
  qed (use total in simp)
  have gate: "put_gate C None ?q = Inr (declared, int (length b), tot)"
    by (rule put_gate_chunk [OF assms(1-3)]) (use total nonempty assms(4) in \<open>auto\<close>)
  have hash: "int (length (b @ ?p)) = tot \<longrightarrow> sha (b @ ?p) = declared"
    using rest Cons.prems(4) c by auto
  have "chunk_done sha C sid declared tot (b @ ?p) (put_locked (undisturbed sha now (body_reads now parts)) C sid declared (int (length b)) tot (w\<lparr>uw_lock := u\<rparr>))" for u
    by (rule put_existing_plain [of C sid declared tot i]) (use Cons.prems(5) total hash in \<open>auto\<close>)
  with staging_Put_chunk [OF gate, of w sha "b @ ?p" now "body_reads now parts"] Cons.prems(6)
  obtain a w1 where put: "staging_Put (undisturbed sha now (body_reads now parts)) C ?q w = (a, w1)"
    and d: "chunk_done sha C sid declared tot (b @ ?p) (a, w1)" and free: "\<not> IsLocked (uw_lock w1) sid"
    by (auto simp: chunk_request_def)
  show ?case
  proof (cases "chunks = []")
    case True
    with d rest have "a = Replied (WriteJSON 201 sid declared)" "uploaded C sid declared tot (b @ ?p) w1"
      by (simp_all add: chunk_done_def)
    with True put c show ?thesis by (simp add: chunk_replies_def)
  next
    case False
    with d rest obtain j where a: "a = Replied (WriteError 400 ''incomplete_upload'' None)"
      and u: "underway C sid declared tot j (b @ ?p) w1"
      by (auto simp: chunk_done_def)
    from Cons.IH [OF _ False _ _ u free] Cons.prems(1,3,4) c
    obtain w' where "send_chunks sha C sid declared tot chunks (int (length (b @ ?p))) w1 = (chunk_replies sid declared (length chunks), w')"
      and up: "uploaded C sid declared tot (b @ chunk_data (c # chunks)) w'"
      by auto
    moreover have "chunk_replies sid declared (length (c # chunks)) = a # chunk_replies sid declared (length chunks)"
      using False a by (cases chunks) (simp_all add: chunk_replies_def)
    ultimately show ?thesis using put c by (simp add: Let_def)
  qed
qed

lemma chunks_upload:
  assumes "ValidateUUIDv7 sid" and "sha256Regex declared" and "roomy C tot" and "tot \<le> maxInt64"
    and ne: "\<And>c. c \<in> set chunks \<Longrightarrow> concat (snd c) \<noteq> []" and "chunks \<noteq> []"
    and len: "int (length (chunk_data chunks)) = tot" and hash: "sha (chunk_data chunks) = declared"
    and "db_ok (uw_db w)" and "find_staging sid (uw_db w) = None" and "admits C (uw_db w)" and "\<not> IsLocked (uw_lock w) sid"
  shows "\<exists>w'. send_chunks sha C sid declared tot chunks 0 w = (chunk_replies sid declared (length chunks), w') \<and>
    uploaded C sid declared tot (chunk_data chunks) w'"
proof -
  obtain now parts more where c: "chunks = (now, parts) # more" using assms(6) by (cases chunks) auto
  let ?p = "concat parts" and ?q = "chunk_request sid declared 0 (int (length (concat parts))) tot"
  have nonempty: "?p \<noteq> []" using ne [of "(now, parts)"] c by simp
  have total: "int (length ?p) + int (length (chunk_data more)) = tot" using len c by simp
  have gate: "put_gate C None ?q = Inr (declared, 0, tot)"
    by (rule put_gate_chunk [OF assms(1-3)]) (use total nonempty assms(4) in \<open>auto\<close>)
  have last: "more = [] \<longleftrightarrow> int (length ?p) = tot"
  proof (cases more)
    case (Cons e es)
    have "concat (snd e) \<noteq> []" using ne [of e] c Cons by simp
    then have "length (concat (snd e)) \<noteq> 0" by (simp only: length_0_conv not_False_eq_True)
    moreover have "length (chunk_data more) = length (concat (snd e)) + length (chunk_data es)" by (simp add: Cons)
    ultimately have "int (length ?p) < tot" using total by linarith
    then show ?thesis using Cons by simp
  qed (use total in simp)
  have "chunk_done sha C sid declared tot ?p (put_locked (undisturbed sha now (body_reads now parts)) C sid declared 0 tot (w\<lparr>uw_lock := u\<rparr>))" for u
    by (rule put_new_plain) (use assms total last hash c in \<open>auto\<close>)
  with staging_Put_chunk [OF gate, of w sha ?p now "body_reads now parts"] assms(12)
  obtain a w1 where put: "staging_Put (undisturbed sha now (body_reads now parts)) C ?q w = (a, w1)"
    and d: "chunk_done sha C sid declared tot ?p (a, w1)" and free: "\<not> IsLocked (uw_lock w1) sid"
    by (auto simp: chunk_request_def)
  show ?thesis
  proof (cases "more = []")
    case True
    with d last have "a = Replied (WriteJSON 201 sid declared)" "uploaded C sid declared tot ?p w1"
      by (simp_all add: chunk_done_def)
    with True put c show ?thesis by (simp add: chunk_replies_def)
  next
    case False
    with d last obtain j where a: "a = Replied (WriteError 400 ''incomplete_upload'' None)"
      and u: "underway C sid declared tot j ?p w1"
      by (auto simp: chunk_done_def)
    obtain w' where "send_chunks sha C sid declared tot more (int (length ?p)) w1 = (chunk_replies sid declared (length more), w')"
      and "uploaded C sid declared tot (?p @ chunk_data more) w'"
      using chunks_resume [OF assms(1-4) _ False _ _ u free, of sha] ne len hash c by auto
    moreover have "chunk_replies sid declared (length chunks) = a # chunk_replies sid declared (length more)"
      using False a c by (cases more) (simp_all add: chunk_replies_def)
    ultimately show ?thesis using put c by (simp add: Let_def)
  qed
qed

section \<open>Uploads that cannot be resumed\<close>

text \<open>
  When the file and the row disagree (the daemon stopped between a write and the progress
  update, or the update failed, which the loop ignores), every further request is refused, and
  leaves the row and the file as they are.
\<close>

lemma unsynced_refused:
  assumes "put_gate C None q = Inr (declared, start, tot)" and "\<not> IsLocked (uw_lock w) (pr_id q)"
    and "find_staging (pr_id q) (uw_db w) = Some ex" and "stg_State ex = StagingUploading"
    and "stg_Sha256 ex = declared" and "stg_Size ex = tot"
    and "\<not> verifyPartialFile (staging_abs C (pr_id q)) (stg_BytesReceived ex) w"
  shows "\<exists>w'. staging_Put (undisturbed sha now rs) C q w = (Replied (WriteError 416 ''range_not_satisfiable'' None), w') \<and>
    uw_db w' = uw_db w \<and> uw_dir w' = uw_dir w \<and> uw_data w' = uw_data w"
proof -
  obtain h u where lock: "TryAcquire now (pr_id q) (uw_lock w) = (Some h, u)"
    using assms(2) by (auto simp: TryAcquire_def IsLocked_def)
  have env: "pe_usage (undisturbed sha now rs) = None" "pe_lock_now (undisturbed sha now rs) = now"
    by (simp_all add: undisturbed_def)
  have "\<not> verifyPartialFile (staging_abs C (pr_id q)) (stg_BytesReceived ex) (w\<lparr>uw_lock := u\<rparr>)"
    using assms(7) by (simp add: verifyPartialFile_def split: option.splits)
  with assms lock env show ?thesis by (simp add: staging_Put_def put_locked_def put_existing_def)
qed

text \<open>
  A row without a file (the daemon stopped between the two) passes the check of the partial file,
  but the file is then opened without being created.
\<close>

lemma missing_file_refused:
  assumes "put_gate C None q = Inr (declared, 0, tot)" and "\<not> IsLocked (uw_lock w) (pr_id q)"
    and "find_staging (pr_id q) (uw_db w) = Some ex" and "stg_State ex = StagingUploading"
    and "stg_Sha256 ex = declared" and "stg_Size ex = tot" and "stg_BytesReceived ex = 0"
    and "uw_dir w (staging_abs C (pr_id q)) = None"
  shows "\<exists>w'. staging_Put (undisturbed sha now rs) C q w = (Replied (WriteError 410 ''gone'' None), w') \<and>
    uw_db w' = uw_db w \<and> uw_dir w' = uw_dir w \<and> uw_data w' = uw_data w"
proof -
  obtain h u where lock: "TryAcquire now (pr_id q) (uw_lock w) = (Some h, u)"
    using assms(2) by (auto simp: TryAcquire_def IsLocked_def)
  have env: "pe_usage (undisturbed sha now rs) = None" "pe_lock_now (undisturbed sha now rs) = now"
    by (simp_all add: undisturbed_def)
  with assms lock show ?thesis
    by (simp add: staging_Put_def put_locked_def put_existing_def put_prepare_def put_open_def verifyPartialFile_def WriteIOError_def)
qed

end
