(* ===== verification/Access.thy ===== *)
theory Access
  imports Upload "HOL-Library.Word"
begin

text \<open>
  What stands between a connection and a handler (\<^verbatim>\<open>internal/server/middleware\<close>): the address a
  request is attributed to (\<^verbatim>\<open>proxy.go\<close>), the backoff after failed authentication
  (\<^verbatim>\<open>bruteforce.go\<close>), the bearer tokens and their scopes (\<^verbatim>\<open>auth.go\<close>), the body limit
  (\<^verbatim>\<open>bodylimit.go\<close>) and the routes they guard (\<^verbatim>\<open>wireRoutes\<close> of \<^verbatim>\<open>cmd/dugdale/main.go\<close>).  Times are
  nanoseconds; a handler is a function of the request and the scope of its caller.  The parsers of
  addresses are arguments.
\<close>

unbundle bit_operations_syntax

section \<open>Requests\<close>

text \<open>
  The header fields the middleware reads, empty when absent, and the limit that
  \<^verbatim>\<open>http.MaxBytesReader\<close> puts on the body.
\<close>

record http_request =
  rq_RemoteAddr :: string
  rq_Authorization :: string
  rq_XForwardedFor :: string
  rq_ContentLength :: int
  rq_MaxBytes :: "int option"

text \<open>\<^verbatim>\<open>net.SplitHostPort\<close>, \<^verbatim>\<open>net.ParseIP\<close> and the networks of the configuration, each its \<^verbatim>\<open>Contains\<close>.\<close>

record net_lib =
  nl_SplitHostPort :: "string \<Rightarrow> string option"
  nl_ParseIP :: "string \<Rightarrow> string option"

text \<open>\<^verbatim>\<open>strings.SplitN(s, ",", 2)[0]\<close>.\<close>

definition before_comma :: "string \<Rightarrow> string" where
  "before_comma s = takeWhile (\<lambda>c. c \<noteq> CHR '','') s"

type_synonym IPNet = "string \<Rightarrow> bool"

definition inCIDRList :: "string \<Rightarrow> IPNet list \<Rightarrow> bool" where
  "inCIDRList ip cidrs \<longleftrightarrow> list_ex (\<lambda>n. n ip) cidrs"

definition ClientIP :: "net_lib \<Rightarrow> http_request \<Rightarrow> IPNet list \<Rightarrow> bool \<Rightarrow> string" where
  "ClientIP L r cidrs useXFF =
     (case nl_SplitHostPort L (rq_RemoteAddr r) of
        None \<Rightarrow> rq_RemoteAddr r
      | Some remoteHost \<Rightarrow>
          if \<not> useXFF then remoteHost
          else (case nl_ParseIP L remoteHost of
                  None \<Rightarrow> remoteHost
                | Some ip \<Rightarrow>
                    if \<not> inCIDRList ip cidrs then remoteHost
                    else if rq_XForwardedFor r = [] then remoteHost
                    else let candidate = TrimSpace (before_comma (rq_XForwardedFor r))
                         in if nl_ParseIP L candidate = None then remoteHost else candidate))"

section \<open>The brute-force tracker\<close>

record bfEntry =
  bf_count :: nat
  bf_nextAllowed :: int
  bf_updatedAt :: int

type_synonym tracker = "string \<rightharpoonup> bfEntry"

text \<open>The zero \<^verbatim>\<open>time.Time\<close>, and \<^verbatim>\<open>Time.Sub\<close>, which saturates.\<close>

definition zero_Time :: int where
  "zero_Time = - 62135596800000000000"

definition time_Sub :: "int \<Rightarrow> int \<Rightarrow> int" where
  "time_Sub t u = max (- (2 ^ 63)) (min (2 ^ 63 - 1) (t - u))"

definition CheckBlocked :: "int \<Rightarrow> int \<Rightarrow> string \<Rightarrow> tracker \<Rightarrow> int \<times> tracker" where
  "CheckBlocked ttl now key es =
     (if key = [] then (0, es)
      else case es key of
             None \<Rightarrow> (0, es)
           | Some e \<Rightarrow>
               if time_Sub now (bf_updatedAt e) > ttl then (0, es(key := None))
               else let d = time_Sub (bf_nextAllowed e) now in (if d > 0 then d else 0, es))"

abbreviation ms_ns :: int where
  "ms_ns \<equiv> 1000000"

fun backoff_loop :: "nat \<Rightarrow> int \<Rightarrow> int" where
  "backoff_loop 0 delay = delay"
| "backoff_loop (Suc i) delay =
     (if delay * 2 \<ge> 30000 * ms_ns then 30000 * ms_ns else backoff_loop i (delay * 2))"

definition RecordFailure :: "int \<Rightarrow> string \<Rightarrow> tracker \<Rightarrow> tracker" where
  "RecordFailure now key es =
     (if key = [] then es
      else let e = (case es key of
                      None \<Rightarrow> \<lparr>bf_count = 0, bf_nextAllowed = zero_Time, bf_updatedAt = zero_Time\<rparr>
                    | Some e \<Rightarrow> e);
               n = bf_count e + 1;
               e' = e\<lparr>bf_count := n, bf_updatedAt := now\<rparr>
           in es(key \<mapsto>
                (if n \<ge> 5 then e'\<lparr>bf_nextAllowed := now + backoff_loop (n - 5) (100 * ms_ns)\<rparr> else e')))"

definition RecordSuccess :: "string \<Rightarrow> tracker \<Rightarrow> tracker" where
  "RecordSuccess key es = (if key = [] then es else es(key := None))"

section \<open>Tokens\<close>

fun xor_fold :: "8 word \<Rightarrow> string \<Rightarrow> string \<Rightarrow> 8 word" where
  "xor_fold x (a # as) (b # bs) = xor_fold (x OR (of_char a XOR of_char b)) as bs"
| "xor_fold x _ _ = x"

definition constantTimeEq :: "string \<Rightarrow> string \<Rightarrow> bool" where
  "constantTimeEq a b = (if length a \<noteq> length b then False else xor_fold 0 a b = 0)"

definition contains :: "string list \<Rightarrow> string \<Rightarrow> bool" where
  "contains ts v = (if v = [] then False else list_ex (\<lambda>s. constantTimeEq s v) ts)"

text \<open>
  The configuration; the tracker is its time to live, when there is one, and its entries are part
  of the state of the gate, beside the counter of failed admin authentications and the world.
\<close>

record AuthConfig =
  ac_Dispatch :: "string list"
  ac_Exec :: "string list"
  ac_Admin :: "string list"
  ac_BruteForce :: "int option"
  ac_TrustedProxies :: "IPNet list"
  ac_UseXForwardedFor :: bool

record 'w gate =
  gt_entries :: tracker
  gt_adminFailures :: nat
  gt_world :: 'w

datatype 'r answer = Refused reply | Granted 'r

type_synonym ('w, 'r) handler = "http_request \<Rightarrow> scope option \<Rightarrow> 'w \<Rightarrow> 'r answer \<times> 'w"

definition tokenKnown :: "AuthConfig \<Rightarrow> string \<Rightarrow> bool" where
  "tokenKnown cfg tok \<longleftrightarrow> contains (ac_Dispatch cfg) tok \<or> contains (ac_Exec cfg) tok \<or> contains (ac_Admin cfg) tok"

definition scopeIncludesProtected :: "scope \<Rightarrow> scope list \<Rightarrow> bool" where
  "scopeIncludesProtected required allowed \<longleftrightarrow>
     required = ScopeAdmin \<or> required = ScopeExec \<or> list_ex (\<lambda>s. s = ScopeAdmin \<or> s = ScopeExec) allowed"

definition bfKey :: "net_lib \<Rightarrow> AuthConfig \<Rightarrow> http_request \<Rightarrow> string" where
  "bfKey L cfg r =
     (if ac_BruteForce cfg = None then []
      else ClientIP L r (ac_TrustedProxies cfg) (ac_UseXForwardedFor cfg))"

definition writeBruteForceBlocked :: "int \<Rightarrow> reply" where
  "writeBruteForceBlocked d =
     (let seconds = d div (1000 * ms_ns);
          seconds = (if d > 0 \<and> seconds * (1000 * ms_ns) < d then seconds + 1 else seconds);
          seconds = (if seconds < 1 then 1 else seconds)
      in WriteError 429 ''rate_limited'' (Some (nat seconds)))"

definition observeAdminAuthFailure :: "scope \<Rightarrow> 'w gate \<Rightarrow> 'w gate" where
  "observeAdminAuthFailure required g =
     (if required = ScopeAdmin then g\<lparr>gt_adminFailures := gt_adminFailures g + 1\<rparr> else g)"

definition observeAdminAuthFailureFor :: "scope list \<Rightarrow> 'w gate \<Rightarrow> 'w gate" where
  "observeAdminAuthFailureFor allowed g =
     (if ScopeAdmin \<in> set allowed then g\<lparr>gt_adminFailures := gt_adminFailures g + 1\<rparr> else g)"

definition serve :: "('w, 'r) handler \<Rightarrow> scope \<Rightarrow> http_request \<Rightarrow> 'w gate \<Rightarrow> 'r answer \<times> 'w gate" where
  "serve h sc r g = (case h r (Some sc) (gt_world g) of (x, w) \<Rightarrow> (x, g\<lparr>gt_world := w\<rparr>))"

definition bearer_prefix :: string where
  "bearer_prefix = ''Bearer ''"

text \<open>
  \<^verbatim>\<open>Auth\<close> and \<^verbatim>\<open>AuthEither\<close>.  The clock is read once by \<^verbatim>\<open>CheckBlocked\<close> and once by
  \<^verbatim>\<open>RecordFailure\<close>.
\<close>

definition Auth ::
  "net_lib \<Rightarrow> AuthConfig \<Rightarrow> scope \<Rightarrow> ('w, 'r) handler \<Rightarrow> int \<Rightarrow> int \<Rightarrow> http_request \<Rightarrow> 'w gate \<Rightarrow> 'r answer \<times> 'w gate"
where
  "Auth L cfg required h t0 t1 r g =
     (let protected = scopeIncludesProtected required [] \<and> ac_BruteForce cfg \<noteq> None;
          ttl = (case ac_BruteForce cfg of Some d \<Rightarrow> d | None \<Rightarrow> 0);
          key = (if protected then bfKey L cfg r else []);
          (d, es) = (if protected then CheckBlocked ttl t0 key (gt_entries g) else (0, gt_entries g));
          g = g\<lparr>gt_entries := es\<rparr>;
          recordFail = (\<lambda>g :: 'w gate. if protected then g\<lparr>gt_entries := RecordFailure t1 key (gt_entries g)\<rparr> else g);
          recordSuccess = (\<lambda>g :: 'w gate. if protected then g\<lparr>gt_entries := RecordSuccess key (gt_entries g)\<rparr> else g);
          unauthorized = (Refused (WriteError 401 ''unauthorized'' None), recordFail (observeAdminAuthFailure required g));
          hdr = rq_Authorization r
      in if d > 0 then (Refused (writeBruteForceBlocked d), g)
         else if hdr = [] then unauthorized
         else if \<not> has_prefix hdr bearer_prefix then unauthorized
         else let tok = TrimSpace (drop (length bearer_prefix) hdr)
              in if contains (ac_Admin cfg) tok then serve h ScopeAdmin r (recordSuccess g)
                 else if required = ScopeDispatch \<and> contains (ac_Dispatch cfg) tok then serve h ScopeDispatch r g
                 else if required = ScopeExec \<and> contains (ac_Exec cfg) tok then serve h ScopeExec r (recordSuccess g)
                 else if tokenKnown cfg tok then (Refused (WriteError 403 ''forbidden'' None), g)
                 else unauthorized)"

fun matching_scope :: "AuthConfig \<Rightarrow> string \<Rightarrow> scope list \<Rightarrow> scope option" where
  "matching_scope cfg tok [] = None"
| "matching_scope cfg tok (s # ss) =
     (case s of
        ScopeDispatch \<Rightarrow> if contains (ac_Dispatch cfg) tok then Some ScopeDispatch else matching_scope cfg tok ss
      | ScopeExec \<Rightarrow> if contains (ac_Exec cfg) tok then Some ScopeExec else matching_scope cfg tok ss
      | ScopeAdmin \<Rightarrow> matching_scope cfg tok ss)"

definition AuthEither ::
  "net_lib \<Rightarrow> AuthConfig \<Rightarrow> scope list \<Rightarrow> ('w, 'r) handler \<Rightarrow> int \<Rightarrow> int \<Rightarrow> http_request \<Rightarrow> 'w gate \<Rightarrow> 'r answer \<times> 'w gate"
where
  "AuthEither L cfg allowed h t0 t1 r g =
     (let protected = scopeIncludesProtected ScopeDispatch allowed \<and> ac_BruteForce cfg \<noteq> None;
          ttl = (case ac_BruteForce cfg of Some d \<Rightarrow> d | None \<Rightarrow> 0);
          key = (if protected then bfKey L cfg r else []);
          (d, es) = (if protected then CheckBlocked ttl t0 key (gt_entries g) else (0, gt_entries g));
          g = g\<lparr>gt_entries := es\<rparr>;
          recordFail = (\<lambda>g :: 'w gate. if protected then g\<lparr>gt_entries := RecordFailure t1 key (gt_entries g)\<rparr> else g);
          recordSuccess = (\<lambda>g :: 'w gate. if protected then g\<lparr>gt_entries := RecordSuccess key (gt_entries g)\<rparr> else g);
          unauthorized = (Refused (WriteError 401 ''unauthorized'' None), recordFail (observeAdminAuthFailureFor allowed g));
          hdr = rq_Authorization r
      in if d > 0 then (Refused (writeBruteForceBlocked d), g)
         else if hdr = [] then unauthorized
         else if \<not> has_prefix hdr bearer_prefix then unauthorized
         else let tok = TrimSpace (drop (length bearer_prefix) hdr)
              in if contains (ac_Admin cfg) tok then serve h ScopeAdmin r (recordSuccess g)
                 else case matching_scope cfg tok allowed of
                        Some s \<Rightarrow> serve h s r (recordSuccess g)
                      | None \<Rightarrow>
                          if tokenKnown cfg tok then (Refused (WriteError 403 ''forbidden'' None), g)
                          else unauthorized)"

definition BodyLimit :: "int \<Rightarrow> ('w, 'r) handler \<Rightarrow> ('w, 'r) handler" where
  "BodyLimit limit h = (\<lambda>r sc w.
     if rq_ContentLength r > limit then (Refused (WriteError 413 ''payload_too_large'' None), w)
     else h (r\<lparr>rq_MaxBytes := Some limit\<rparr>) sc w)"

section \<open>Routes\<close>

datatype guard = NoAuth | OneOf scope | EitherOf "scope list"

record route_limits =
  rl_ExecEnabled :: bool
  rl_MaxDispatchBodySize :: int
  rl_MaxExecBodySize :: int
  rl_MaxApplyBodySize :: int

text \<open>Every pattern with its guard and body limit, in the order they are registered.\<close>

definition wireRoutes :: "route_limits \<Rightarrow> (string \<times> guard \<times> int option) list" where
  "wireRoutes c =
    [(''POST /v1/dispatch'', OneOf ScopeDispatch, Some (rl_MaxDispatchBodySize c)),
     (if rl_ExecEnabled c then (''POST /v1/exec/dispatch'', OneOf ScopeExec, Some (rl_MaxExecBodySize c))
      else (''POST /v1/exec/dispatch'', NoAuth, None)),
     (''GET /v1/missions/{id}/events'', EitherOf [ScopeDispatch, ScopeExec], None),
     (''GET /v1/missions/{id}/output'', EitherOf [ScopeDispatch, ScopeExec], None),
     (''GET /v1/missions/{id}'', EitherOf [ScopeDispatch, ScopeExec], None),
     (''GET /v1/missions'', OneOf ScopeAdmin, None),
     (''POST /v1/missions/{id}/restart'', OneOf ScopeAdmin, None),
     (''POST /v1/missions/{id}/kill'', OneOf ScopeAdmin, Some (rl_MaxApplyBodySize c)),
     (''DELETE /v1/missions/{id}'', OneOf ScopeAdmin, None),
     (''POST /v1/missions/bulk-restart'', OneOf ScopeAdmin, Some (rl_MaxApplyBodySize c)),
     (''POST /v1/missions/bulk-delete'', OneOf ScopeAdmin, Some (rl_MaxApplyBodySize c)),
     (''POST /v1/admin/apply'', OneOf ScopeAdmin, Some (rl_MaxApplyBodySize c)),
     (''GET /v1/admin/state'', OneOf ScopeAdmin, None),
     (''POST /v1/admin/lanes/{name}/pause'', OneOf ScopeAdmin, None),
     (''POST /v1/admin/lanes/{name}/continue'', OneOf ScopeAdmin, None),
     (''GET /v1/dugdale'', EitherOf [ScopeDispatch, ScopeExec], None),
     (''GET /v1/lanes'', EitherOf [ScopeDispatch, ScopeExec], None),
     (''PUT /v1/staging/{id}'', EitherOf [ScopeDispatch, ScopeExec], None),
     (''HEAD /v1/staging/{id}'', EitherOf [ScopeDispatch, ScopeExec], None),
     (''GET /v1/staging/{id}'', EitherOf [ScopeDispatch, ScopeExec], None),
     (''DELETE /v1/staging/{id}'', OneOf ScopeAdmin, None),
     (''GET /v1/staging'', OneOf ScopeAdmin, None),
     (''GET /v1/staging/by-content/{sha}'', EitherOf [ScopeExec], None)]"

text \<open>
  A request on a registered pattern: the guard around the limited handler.  The stub that answers
  for the exec endpoint when exec is off is the only handler without a guard here.
\<close>

definition ExecDisabledStub :: "('w, 'r) handler" where
  "ExecDisabledStub = (\<lambda>r sc w. (Refused (WriteError 404 ''feature_disabled'' None), w))"

definition serve_route ::
  "net_lib \<Rightarrow> AuthConfig \<Rightarrow> string \<times> guard \<times> int option \<Rightarrow> ('w, 'r) handler \<Rightarrow> int \<Rightarrow> int \<Rightarrow> http_request \<Rightarrow> 'w gate
   \<Rightarrow> 'r answer \<times> 'w gate"
where
  "serve_route L cfg rt h t0 t1 r g =
     (case rt of (pat, gd, limit) \<Rightarrow>
        let h' = (case limit of None \<Rightarrow> h | Some n \<Rightarrow> BodyLimit n h)
        in case gd of
             NoAuth \<Rightarrow> (case ExecDisabledStub r None (gt_world g) of (x, w) \<Rightarrow> (x, g\<lparr>gt_world := w\<rparr>))
           | OneOf s \<Rightarrow> Auth L cfg s h' t0 t1 r g
           | EitherOf ss \<Rightarrow> AuthEither L cfg ss h' t0 t1 r g)"

section \<open>Tokens are compared as strings\<close>

lemma of_char_word_eq: "(of_char a :: 8 word) = of_char b \<longleftrightarrow> a = b"
proof
  assume "(of_char a :: 8 word) = of_char b"
  then have "(of_nat (of_char a :: nat) :: 8 word) = of_nat (of_char b :: nat)" by (simp only: of_nat_of_char)
  then have "take_bit 8 (of_char a :: nat) = take_bit 8 (of_char b :: nat)"
    by (simp only: word_of_nat_eq_iff) simp
  then have "(of_char a :: nat) = of_char b" by (simp add: take_bit_eq_mod)
  then show "a = b" by simp
qed simp

lemma or_zero_iff: "(x OR y :: 8 word) = 0 \<longleftrightarrow> x = 0 \<and> y = 0"
  by (auto simp: bit_eq_iff bit_or_iff)

lemma xor_zero_iff: "(x XOR y :: 8 word) = 0 \<longleftrightarrow> x = y"
  by (auto simp: bit_eq_iff bit_xor_iff)

lemma xor_fold_zero: "length a = length b \<Longrightarrow> xor_fold x a b = 0 \<longleftrightarrow> x = 0 \<and> a = b"
  by (induction x a b rule: xor_fold.induct) (auto simp: or_zero_iff xor_zero_iff of_char_word_eq)

lemma constantTimeEq_iff [simp]: "constantTimeEq a b \<longleftrightarrow> a = b"
  by (auto simp: constantTimeEq_def xor_fold_zero)

lemma contains_iff [simp]: "contains ts v \<longleftrightarrow> v \<noteq> [] \<and> v \<in> set ts"
  by (auto simp: contains_def list_ex_iff)

section \<open>Who is let through\<close>

text \<open>
  The single-scope guard is the other one with a single scope: a dispatch-only route has no
  tracker, so it makes no difference that only one of them clears it.
\<close>

lemma Auth_is_AuthEither: "Auth L cfg s h t0 t1 r g = AuthEither L cfg [s] h t0 t1 r g"
  by (cases s)
    (simp_all add: Auth_def AuthEither_def scopeIncludesProtected_def observeAdminAuthFailure_def
       observeAdminAuthFailureFor_def Let_def split: prod.splits)

definition tokens :: "AuthConfig \<Rightarrow> scope \<Rightarrow> string list" where
  "tokens cfg sc = (case sc of ScopeDispatch \<Rightarrow> ac_Dispatch cfg | ScopeExec \<Rightarrow> ac_Exec cfg | ScopeAdmin \<Rightarrow> ac_Admin cfg)"

definition bearer :: "http_request \<Rightarrow> string option" where
  "bearer r = (if has_prefix (rq_Authorization r) bearer_prefix
     then Some (TrimSpace (drop (length bearer_prefix) (rq_Authorization r))) else None)"

definition admitted :: "AuthConfig \<Rightarrow> scope list \<Rightarrow> http_request \<Rightarrow> scope \<Rightarrow> bool" where
  "admitted cfg allowed r sc \<longleftrightarrow>
     (\<exists>tok. bearer r = Some tok \<and> tok \<noteq> [] \<and> tok \<in> set (tokens cfg sc)) \<and> (sc = ScopeAdmin \<or> sc \<in> set allowed)"

definition watched :: "AuthConfig \<Rightarrow> scope list \<Rightarrow> bool" where
  "watched cfg allowed \<longleftrightarrow> (ScopeAdmin \<in> set allowed \<or> ScopeExec \<in> set allowed) \<and> ac_BruteForce cfg \<noteq> None"

definition backing_off :: "net_lib \<Rightarrow> AuthConfig \<Rightarrow> scope list \<Rightarrow> int \<Rightarrow> http_request \<Rightarrow> 'w gate \<Rightarrow> bool" where
  "backing_off L cfg allowed t0 r g \<longleftrightarrow>
     watched cfg allowed \<and> fst (CheckBlocked (the (ac_BruteForce cfg)) t0 (bfKey L cfg r) (gt_entries g)) > 0"

lemma matching_scope_Some:
  "matching_scope cfg tok ss = Some sc \<Longrightarrow> sc \<in> set ss \<and> tok \<noteq> [] \<and> tok \<in> set (tokens cfg sc)"
  by (induction ss) (auto simp: tokens_def split: scope.splits if_splits)

lemma matching_scope_None:
  "matching_scope cfg tok ss = None \<Longrightarrow> sc \<in> set ss \<Longrightarrow> sc \<noteq> ScopeAdmin \<Longrightarrow> tok = [] \<or> tok \<notin> set (tokens cfg sc)"
  by (induction ss) (auto simp: tokens_def split: scope.splits if_splits)

lemma protected_watched:
  "scopeIncludesProtected ScopeDispatch allowed \<and> ac_BruteForce cfg \<noteq> None \<longleftrightarrow> watched cfg allowed"
  by (auto simp: scopeIncludesProtected_def watched_def list_ex_iff)

text \<open>
  What the guard does with a request, in terms of who sent it: handed on with the scope of the
  token, refused for backing off, or refused for its token.
\<close>

definition passed :: "('w, 'r) handler \<Rightarrow> http_request \<Rightarrow> scope \<Rightarrow> 'w gate \<Rightarrow> 'r answer \<times> 'w gate \<Rightarrow> bool" where
  "passed h r sc g out \<longleftrightarrow> (fst out, gt_world (snd out)) = h r (Some sc) (gt_world g)"

lemma serve_passed: "gt_world g' = gt_world g \<Longrightarrow> passed h r sc g (serve h sc r g')"
  by (simp add: passed_def serve_def split: prod.split)

lemma empty_header: "rq_Authorization r = [] \<Longrightarrow> bearer r = None"
  by (simp add: bearer_def bearer_prefix_def has_prefix_def)

lemma tokenKnown_iff: "tokenKnown cfg tok \<longleftrightarrow> tok \<noteq> [] \<and> (\<exists>sc. tok \<in> set (tokens cfg sc))"
proof -
  have "(\<exists>sc. P sc) \<longleftrightarrow> P ScopeDispatch \<or> P ScopeExec \<or> P ScopeAdmin" for P
    by (metis scope.exhaust)
  then show ?thesis by (auto simp: tokenKnown_def tokens_def)
qed

definition failed_entries ::
  "net_lib \<Rightarrow> AuthConfig \<Rightarrow> scope list \<Rightarrow> int \<Rightarrow> int \<Rightarrow> http_request \<Rightarrow> tracker \<Rightarrow> tracker"
where
  "failed_entries L cfg allowed t0 t1 r es =
     (if watched cfg allowed
      then RecordFailure t1 (bfKey L cfg r) (snd (CheckBlocked (the (ac_BruteForce cfg)) t0 (bfKey L cfg r) es))
      else es)"

lemma AuthEither_cases:
  assumes out_def: "out = AuthEither L cfg allowed h t0 t1 r g"
  shows "backing_off L cfg allowed t0 r g \<and> (\<exists>n. fst out = Refused (WriteError 429 ''rate_limited'' (Some n)))
       \<and> gt_world (snd out) = gt_world g
       \<and> gt_entries (snd out) = snd (CheckBlocked (the (ac_BruteForce cfg)) t0 (bfKey L cfg r) (gt_entries g))
     \<or> \<not> backing_off L cfg allowed t0 r g \<and> (\<exists>sc. admitted cfg allowed r sc \<and> passed h r sc g out)
     \<or> \<not> backing_off L cfg allowed t0 r g \<and> (\<forall>sc. \<not> admitted cfg allowed r sc) \<and> gt_world (snd out) = gt_world g
       \<and> (if \<exists>tok. bearer r = Some tok \<and> tokenKnown cfg tok
          then fst out = Refused (WriteError 403 ''forbidden'' None)
          else fst out = Refused (WriteError 401 ''unauthorized'' None)
             \<and> gt_entries (snd out) = failed_entries L cfg allowed t0 t1 r (gt_entries g))"
proof -
  let ?key = "bfKey L cfg r"
  obtain d es where chk: "(if watched cfg allowed then CheckBlocked (case ac_BruteForce cfg of Some d \<Rightarrow> d | None \<Rightarrow> 0) t0
      (if watched cfg allowed then ?key else []) (gt_entries g) else (0, gt_entries g)) = (d, es)"
    by (meson surj_pair)
  have ttl: "watched cfg allowed \<Longrightarrow> (case ac_BruteForce cfg of Some d \<Rightarrow> d | None \<Rightarrow> 0) = the (ac_BruteForce cfg)"
    by (auto simp: watched_def)
  have d: "backing_off L cfg allowed t0 r g \<longleftrightarrow> d > 0"
    using chk ttl by (auto simp: backing_off_def split: if_splits)
  have es: "watched cfg allowed \<Longrightarrow> es = snd (CheckBlocked (the (ac_BruteForce cfg)) t0 ?key (gt_entries g))"
    "\<not> watched cfg allowed \<Longrightarrow> es = gt_entries g"
    using chk ttl by auto
  have wat: "d > 0 \<Longrightarrow> watched cfg allowed" using chk by (auto split: if_splits)
  note out = out_def [unfolded AuthEither_def protected_watched Let_def chk prod.case]
  show ?thesis
  proof (cases "d > 0")
    case True
    then show ?thesis using d es wat by (simp add: out writeBruteForceBlocked_def Let_def)
  next
    case nb: False
    show ?thesis
    proof (cases "bearer r")
      case None
      then have "rq_Authorization r = [] \<or> \<not> has_prefix (rq_Authorization r) bearer_prefix"
        by (auto simp: bearer_def split: if_splits)
      with nb d es None show ?thesis
        by (auto simp: out admitted_def failed_entries_def observeAdminAuthFailureFor_def)
    next
      case (Some tok)
      then have pre: "has_prefix (rq_Authorization r) bearer_prefix" "rq_Authorization r \<noteq> []"
        and tok: "TrimSpace (drop (length bearer_prefix) (rq_Authorization r)) = tok"
        using empty_header [of r] by (auto simp: bearer_def split: if_splits)
      note out' = out [unfolded tok, simplified pre, simplified]
      show ?thesis
      proof (cases "tok \<noteq> [] \<and> tok \<in> set (ac_Admin cfg)")
        case True
        then have "admitted cfg allowed r ScopeAdmin" by (simp add: admitted_def Some tokens_def)
        moreover have "passed h r ScopeAdmin g out" using True nb by (auto simp: out' intro: serve_passed)
        ultimately show ?thesis using nb d by blast
      next
        case na: False
        show ?thesis
        proof (cases "matching_scope cfg tok allowed")
          case (Some sc)
          then have "admitted cfg allowed r sc" using matching_scope_Some [OF Some] \<open>bearer r = Some tok\<close> by (simp add: admitted_def)
          moreover have "passed h r sc g out" using na nb Some by (auto simp: out' intro: serve_passed)
          ultimately show ?thesis using nb d by blast
        next
          case None
          have "\<not> admitted cfg allowed r sc" for sc
            using na matching_scope_None [OF None, of sc] \<open>bearer r = Some tok\<close>
            by (cases "sc = ScopeAdmin") (auto simp: admitted_def tokens_def)
          then show ?thesis using na nb d es None \<open>bearer r = Some tok\<close>
            by (auto simp: out' failed_entries_def observeAdminAuthFailureFor_def)
        qed
      qed
    qed
  qed
qed

fun guard_scopes :: "guard \<Rightarrow> scope list" where
  "guard_scopes NoAuth = []"
| "guard_scopes (OneOf s) = [s]"
| "guard_scopes (EitherOf ss) = ss"

abbreviation limited :: "int option \<Rightarrow> ('w, 'r) handler \<Rightarrow> ('w, 'r) handler" where
  "limited limit h \<equiv> (case limit of None \<Rightarrow> h | Some n \<Rightarrow> BodyLimit n h)"

lemma serve_route_guarded:
  "gd \<noteq> NoAuth \<Longrightarrow>
     serve_route L cfg (pat, gd, limit) h t0 t1 r g = AuthEither L cfg (guard_scopes gd) (limited limit h) t0 t1 r g"
  by (cases gd) (simp_all add: serve_route_def Auth_is_AuthEither)

lemma serve_route_open:
  "serve_route L cfg (pat, NoAuth, limit) h t0 t1 r g = (Refused (WriteError 404 ''feature_disabled'' None), g)"
  by (simp add: serve_route_def ExecDisabledStub_def)

text \<open>The routes that act on missions, lanes or staged files that are already there.\<close>

definition controlling :: "string \<Rightarrow> bool" where
  "controlling pat \<longleftrightarrow>
     has_prefix pat ''DELETE '' \<or> has_prefix pat ''POST '' \<and> pat \<noteq> ''POST /v1/dispatch'' \<and> pat \<noteq> ''POST /v1/exec/dispatch''"

lemma controlling_routes:
  "list_all (\<lambda>(pat, gd, limit). controlling pat \<longrightarrow> gd = OneOf ScopeAdmin) (wireRoutes c)"
  by (simp add: wireRoutes_def controlling_def has_prefix_def)

lemma controlling_routes_admin:
  "(pat, gd, limit) \<in> set (wireRoutes c) \<Longrightarrow> controlling pat \<Longrightarrow> gd = OneOf ScopeAdmin"
  using controlling_routes [of c] by (auto simp: list_all_iff)

lemma open_routes: "(pat, NoAuth, limit) \<in> set (wireRoutes c) \<Longrightarrow> pat = ''POST /v1/exec/dispatch'' \<and> \<not> rl_ExecEnabled c"
  by (auto simp: wireRoutes_def split: if_splits)

section \<open>How fast a client can guess\<close>

abbreviation max_backoff :: int where
  "max_backoff \<equiv> 30000 * ms_ns"

lemma backoff_loop_bounds: "0 \<le> delay \<Longrightarrow> delay \<le> max_backoff \<Longrightarrow> delay \<le> backoff_loop n delay \<and> backoff_loop n delay \<le> max_backoff"
proof (induction n delay rule: backoff_loop.induct)
  case (2 i delay)
  then show ?case by (cases "delay * 2 \<ge> max_backoff") auto
qed simp

lemma backoff_loop_max: "9 \<le> n \<Longrightarrow> backoff_loop n (100 * ms_ns) = max_backoff"
  using le_Suc_ex [of 9 n] by (auto simp: numeral_eq_Suc)

text \<open>
  Requests one after the other: each with the route it is for and the two readings of the clock.
\<close>

type_synonym arrival = "(string \<times> guard \<times> int option) \<times> int \<times> int \<times> http_request"

fun in_order :: "int \<Rightarrow> arrival list \<Rightarrow> int \<Rightarrow> bool" where
  "in_order s [] e \<longleftrightarrow> s \<le> e"
| "in_order s ((rt, t0, t1, r) # as) e \<longleftrightarrow> s \<le> t0 \<and> t0 \<le> t1 \<and> in_order t1 as e"

definition attributed :: "net_lib \<Rightarrow> AuthConfig \<Rightarrow> string \<Rightarrow> arrival \<Rightarrow> bool" where
  "attributed L cfg k a \<longleftrightarrow> (case a of ((pat, gd, limit), t0, t1, r) \<Rightarrow> watched cfg (guard_scopes gd) \<and> bfKey L cfg r = k)"

definition guess :: "AuthConfig \<Rightarrow> arrival \<Rightarrow> bool" where
  "guess cfg a \<longleftrightarrow> (case a of (rt, t0, t1, r) \<Rightarrow>
     case bearer r of None \<Rightarrow> True | Some tok \<Rightarrow> \<not> tokenKnown cfg tok)"

definition answer_arrival ::
  "net_lib \<Rightarrow> AuthConfig \<Rightarrow> (string \<Rightarrow> ('w, 'r) handler) \<Rightarrow> arrival \<Rightarrow> 'w gate \<Rightarrow> 'r answer \<times> 'w gate"
where
  "answer_arrival L cfg h a g = (case a of (rt, t0, t1, r) \<Rightarrow> serve_route L cfg rt (h (fst rt)) t0 t1 r g)"

fun guesses_heard ::
  "net_lib \<Rightarrow> AuthConfig \<Rightarrow> (string \<Rightarrow> ('w, 'r) handler) \<Rightarrow> string \<Rightarrow> arrival list \<Rightarrow> 'w gate \<Rightarrow> nat"
where
  "guesses_heard L cfg h k [] g = 0"
| "guesses_heard L cfg h k (a # as) g =
     (case answer_arrival L cfg h a g of (x, g') \<Rightarrow>
        (if attributed L cfg k a \<and> x = Refused (WriteError 401 ''unauthorized'' None) then 1 else 0)
        + guesses_heard L cfg h k as g')"

lemma CheckBlocked_other: "k \<noteq> key \<Longrightarrow> snd (CheckBlocked ttl now key es) k = es k"
  by (simp add: CheckBlocked_def Let_def split: option.split)

lemma RecordFailure_other: "k \<noteq> key \<Longrightarrow> RecordFailure now key es k = es k"
  by (simp add: RecordFailure_def Let_def)

lemma RecordSuccess_other: "k \<noteq> key \<Longrightarrow> RecordSuccess key es k = es k"
  by (simp add: RecordSuccess_def)

lemma serve_entries: "gt_entries (snd (serve h sc r g)) = gt_entries g"
  by (simp add: serve_def split: prod.split)

lemma AuthEither_other:
  assumes "\<not> (watched cfg allowed \<and> bfKey L cfg r = k)"
  shows "gt_entries (snd (AuthEither L cfg allowed h t0 t1 r g)) k = gt_entries g k"
proof -
  obtain d es where chk: "(if watched cfg allowed then CheckBlocked (case ac_BruteForce cfg of Some d \<Rightarrow> d | None \<Rightarrow> 0) t0
      (if watched cfg allowed then bfKey L cfg r else []) (gt_entries g) else (0, gt_entries g)) = (d, es)"
    by (meson surj_pair)
  have es: "es k = gt_entries g k"
    using chk assms CheckBlocked_other [of k "bfKey L cfg r"] by (auto split: if_splits) (metis snd_conv)
  note out = AuthEither_def [of L cfg allowed h t0 t1 r g, unfolded protected_watched Let_def chk prod.case]
  show ?thesis using es assms
    by (auto simp: out observeAdminAuthFailureFor_def serve_entries RecordFailure_other RecordSuccess_other
        split: option.split)
qed

lemma arrival_other:
  assumes "\<not> attributed L cfg k a" and "answer_arrival L cfg h a g = (x, g')"
  shows "gt_entries g' k = gt_entries g k"
proof -
  obtain pat gd limit t0 t1 r where a: "a = ((pat, gd, limit), t0, t1, r)" by (cases a) auto
  show ?thesis
  proof (cases "gd = NoAuth")
    case True
    with assms(2) a show ?thesis by (auto simp: answer_arrival_def serve_route_open)
  next
    case False
    from AuthEither_other [of cfg "guard_scopes gd" L r k "limited limit (h pat)" t0 t1 g] assms a False
    show ?thesis by (simp add: answer_arrival_def attributed_def serve_route_guarded)
  qed
qed

text \<open>A guess is turned away while the key backs off, and otherwise it is counted.\<close>

lemma time_Sub_signs: "time_Sub t u > 0 \<longleftrightarrow> t > u" "0 \<le> d \<Longrightarrow> t - u \<le> d \<Longrightarrow> \<not> time_Sub t u > d"
  by (auto simp: time_Sub_def)

lemma arrival_guess:
  assumes a: "a = ((pat, gd, limit), t0, t1, r)" and att: "attributed L cfg k a" and gs: "guess cfg a"
    and k: "k \<noteq> []" and ttl: "ac_BruteForce cfg = Some ttl" and run: "answer_arrival L cfg h a g = (x, g')"
  obtains
    (blocked) "x \<noteq> Refused (WriteError 401 ''unauthorized'' None)" "gt_entries g' k = gt_entries g k"
  | (counted) e where "x = Refused (WriteError 401 ''unauthorized'' None)" "gt_entries g' k = Some e"
      "bf_updatedAt e = t1" "bf_count e \<ge> 1" "bf_count e \<ge> 5 \<Longrightarrow> bf_nextAllowed e = t1 + backoff_loop (bf_count e - 5) (100 * ms_ns)"
      "\<And>e'. gt_entries g k = Some e' \<Longrightarrow> 0 \<le> ttl \<Longrightarrow> t0 - bf_updatedAt e' \<le> ttl \<Longrightarrow>
         bf_count e = Suc (bf_count e') \<and> bf_nextAllowed e' \<le> t0"
proof -
  let ?S = "guard_scopes gd"
  have w: "watched cfg ?S" and key: "bfKey L cfg r = k" using att a by (auto simp: attributed_def)
  have "gd \<noteq> NoAuth" using w by (auto simp: watched_def)
  then have out: "(x, g') = AuthEither L cfg ?S (limited limit (h pat)) t0 t1 r g"
    using run a by (simp add: answer_arrival_def serve_route_guarded)
  have unknown: "\<And>tok. bearer r = Some tok \<Longrightarrow> \<not> tokenKnown cfg tok" using gs a by (simp add: guess_def)
  then have no: "\<not> admitted cfg ?S r sc" for sc by (auto simp: admitted_def tokenKnown_iff)
  from AuthEither_cases [OF out] no unknown consider
    (B) "backing_off L cfg ?S t0 r g" "\<exists>n. x = Refused (WriteError 429 ''rate_limited'' (Some n))"
      "gt_entries g' = snd (CheckBlocked ttl t0 k (gt_entries g))"
  | (C) "\<not> backing_off L cfg ?S t0 r g" "x = Refused (WriteError 401 ''unauthorized'' None)"
      "gt_entries g' = failed_entries L cfg ?S t0 t1 r (gt_entries g)"
    using ttl key by (auto split: if_splits)
  then show thesis
  proof cases
    case B
    then show thesis using w ttl key
      by (intro blocked) (auto simp: backing_off_def CheckBlocked_def Let_def split: option.splits if_splits)
  next
    case C
    then have g': "gt_entries g' = RecordFailure t1 k (snd (CheckBlocked ttl t0 k (gt_entries g)))"
      using w ttl key by (simp add: failed_entries_def)
    have na: "bf_nextAllowed e' \<le> t0" if "gt_entries g k = Some e'" "0 \<le> ttl" "t0 - bf_updatedAt e' \<le> ttl" for e'
      using C(1) w ttl key k that by (auto simp: backing_off_def CheckBlocked_def Let_def time_Sub_signs split: if_splits)
    obtain e where e: "gt_entries g' k = Some e" using k by (simp add: g' RecordFailure_def Let_def)
    show thesis
      by (rule counted [OF C(2) e])
        (use e k na in \<open>auto simp: g' RecordFailure_def CheckBlocked_def Let_def time_Sub_signs split: option.splits if_splits\<close>)
  qed
qed

lemma in_order_le: "in_order s as e \<Longrightarrow> s \<le> e"
  by (induction s as e rule: in_order.induct) auto

text \<open>
  From a counted failure on, the thirteenth and every later one is followed by a pause: once the
  count has reached 13 the next guesses are half a minute apart.
\<close>

lemma guesses_after:
  assumes "gt_entries g k = Some e" and "in_order s as E" and "E - bf_updatedAt e \<le> ttl" and "0 \<le> ttl"
    and "bf_count e \<ge> 13 \<Longrightarrow> bf_nextAllowed e \<le> s + max_backoff"
    and "ac_BruteForce cfg = Some ttl" and "k \<noteq> []"
    and "\<And>a. a \<in> set as \<Longrightarrow> attributed L cfg k a \<Longrightarrow> guess cfg a" and "bf_updatedAt e \<le> s"
  shows "max_backoff * (int (guesses_heard L cfg h k as g) - 1 - max 0 (13 - int (bf_count e)))
     \<le> E - (if bf_count e \<ge> 13 then max s (bf_nextAllowed e) else s)"
  using assms
proof (induction as arbitrary: g e s)
  case Nil
  then show ?case by auto
next
  case (Cons a as)
  obtain pat gd limit t0 t1 r where a: "a = ((pat, gd, limit), t0, t1, r)" by (cases a) auto
  obtain x g' where run: "answer_arrival L cfg h a g = (x, g')" by fastforce
  have ord: "s \<le> t0" "t0 \<le> t1" "in_order t1 as E" using Cons.prems(2) a by auto
  have tE: "t1 \<le> E" using ord(3) by (rule in_order_le)
  have gs: "\<And>a. a \<in> set as \<Longrightarrow> attributed L cfg k a \<Longrightarrow> guess cfg a" using Cons.prems(8) by auto
  have same: ?case
    if "gt_entries g' k = gt_entries g k" "\<not> (attributed L cfg k a \<and> x = Refused (WriteError 401 ''unauthorized'' None))"
  proof -
    have "gt_entries g' k = Some e" using that(1) Cons.prems(1) by simp
    from Cons.IH [OF this ord(3) Cons.prems(3,4) _ Cons.prems(6,7) gs] Cons.prems(5,9) ord that(2) run
    show ?thesis by (auto split: if_splits)
  qed
  show ?case
  proof (cases "attributed L cfg k a")
    case False
    then show ?thesis using same arrival_other [OF False run] by blast
  next
    case True
    have g: "guess cfg a" using Cons.prems(8) True by simp
    show ?thesis
    proof (cases rule: arrival_guess [OF a True g Cons.prems(7,6) run, case_names blocked counted])
      case blocked
      then show ?thesis using same by blast
    next
      case (counted e')
      have old: "bf_count e' = Suc (bf_count e)" "bf_nextAllowed e \<le> t0"
        using counted(6) [OF Cons.prems(1,4)] Cons.prems(3) ord tE by auto
      let ?b = "backoff_loop (bf_count e' - 5) (100 * ms_ns)"
      have b: "100 * ms_ns \<le> ?b" "?b \<le> max_backoff" using backoff_loop_bounds [of "100 * ms_ns" "bf_count e' - 5"] by auto
      have bmax: "bf_count e' \<ge> 14 \<Longrightarrow> ?b = max_backoff" by (rule backoff_loop_max) simp
      have na: "bf_count e' \<ge> 13 \<Longrightarrow> bf_nextAllowed e' = t1 + ?b" using counted(5) by simp
      have IH: "max_backoff * (int (guesses_heard L cfg h k as g') - 1 - max 0 (13 - int (bf_count e')))
          \<le> E - (if bf_count e' \<ge> 13 then max t1 (bf_nextAllowed e') else t1)"
        by (rule Cons.IH [OF counted(2) ord(3) _ Cons.prems(4) _ Cons.prems(6,7) gs])
          (use counted(3) tE Cons.prems(4) na b ord Cons.prems(3,9) in auto)
      have N: "guesses_heard L cfg h k (a # as) g = Suc (guesses_heard L cfg h k as g')"
        using run True counted(1) by simp
      consider "bf_count e \<ge> 13" | "bf_count e = 12" | "bf_count e < 12" by linarith
      then show ?thesis
        by cases (use IH N old na b bmax ord in \<open>auto simp: algebra_simps max_def split: if_splits\<close>)
    qed
  qed
qed

lemma guesses_bounded:
  assumes "in_order s as E" and "E - s \<le> ttl"
    and "ac_BruteForce cfg = Some ttl" and "k \<noteq> []"
    and "\<And>a. a \<in> set as \<Longrightarrow> attributed L cfg k a \<Longrightarrow> guess cfg a"
  shows "max_backoff * (int (guesses_heard L cfg h k as g) - 14) \<le> E - s"
  using assms
proof (induction as arbitrary: g s)
  case (Cons a as)
  obtain pat gd limit t0 t1 r where a: "a = ((pat, gd, limit), t0, t1, r)" by (cases a) auto
  obtain x g' where run: "answer_arrival L cfg h a g = (x, g')" by fastforce
  have ord: "s \<le> t0" "t0 \<le> t1" "in_order t1 as E" using Cons.prems(1) a by auto
  have tE: "t1 \<le> E" using ord(3) by (rule in_order_le)
  have gs: "\<And>a. a \<in> set as \<Longrightarrow> attributed L cfg k a \<Longrightarrow> guess cfg a" using Cons.prems(5) by auto
  have same: ?case if "\<not> (attributed L cfg k a \<and> x = Refused (WriteError 401 ''unauthorized'' None))"
    using Cons.IH [OF ord(3) _ Cons.prems(3,4) gs, of g'] Cons.prems(2) ord that run by (auto split: if_splits)
  show ?case
  proof (cases "attributed L cfg k a")
    case True
    have g: "guess cfg a" using Cons.prems(5) True by simp
    show ?thesis
    proof (cases rule: arrival_guess [OF a True g Cons.prems(4,3) run, case_names blocked counted])
      case (counted e)
      let ?b = "backoff_loop (bf_count e - 5) (100 * ms_ns)"
      have b: "?b \<le> max_backoff" using backoff_loop_bounds [of "100 * ms_ns" "bf_count e - 5"] by auto
      have "max_backoff * (int (guesses_heard L cfg h k as g') - 1 - max 0 (13 - int (bf_count e)))
          \<le> E - (if bf_count e \<ge> 13 then max t1 (bf_nextAllowed e) else t1)"
        by (rule guesses_after [OF counted(2) ord(3) _ _ _ Cons.prems(3,4) gs])
          (use counted(3,5) ord tE Cons.prems(2) b in auto)
      moreover have "guesses_heard L cfg h k (a # as) g = Suc (guesses_heard L cfg h k as g')"
        using run True counted(1) by simp
      ultimately show ?thesis using counted(4) ord by (auto simp: algebra_simps max_def split: if_splits)
    qed (use same in blast)
  qed (use same in blast)
qed simp

end
