(* ===== verification/Listing.thy ===== *)
theory Listing
  imports Missions
begin

text \<open>
  Listing missions (\<^verbatim>\<open>ListMissions\<close> in \<^verbatim>\<open>internal/storage/missions.go\<close> and the pages of
  \<^verbatim>\<open>MissionsHandler.List\<close>): the name filters are LIKE patterns over escaped user input, the
  pages are keyset cursors.  The escaped patterns match exactly the names that contain (or
  start with) the user's text up to ASCII case, and following the cursors yields the whole
  listing, each row once.
\<close>

section \<open>Pattern matching\<close>

text \<open>SQL LIKE with ESCAPE backslash; like SQLite it ignores the case of ASCII letters.\<close>

datatype like_tok = LAny | LOne | LLit char

fun like_tokens :: "string \<Rightarrow> like_tok list" where
  "like_tokens [] = []"
| "like_tokens [c] = [if c = CHR ''%'' then LAny else if c = CHR ''_'' then LOne else LLit c]"
| "like_tokens (c # c' # s) =
     (if c = CHR 0x5C then LLit c' # like_tokens s
      else if c = CHR ''%'' then LAny # like_tokens (c' # s)
      else if c = CHR ''_'' then LOne # like_tokens (c' # s)
      else LLit c # like_tokens (c' # s))"

fun like_match :: "like_tok list \<Rightarrow> string \<Rightarrow> bool" where
  "like_match [] s = (s = [])"
| "like_match (LLit c # p) [] = False"
| "like_match (LLit c # p) (x # s) = (lower_char c = lower_char x \<and> like_match p s)"
| "like_match (LOne # p) [] = False"
| "like_match (LOne # p) (x # s) = like_match p s"
| "like_match (LAny # p) [] = like_match p []"
| "like_match (LAny # p) (x # s) = (like_match p (x # s) \<or> like_match (LAny # p) s)"

definition escapeLikePattern :: "string \<Rightarrow> string" where
  "escapeLikePattern s =
     concat (map (\<lambda>c. if c \<in> {CHR 0x5C, CHR ''%'', CHR ''_''} then [CHR 0x5C, c] else [c]) s)"

fun status_text :: "status \<Rightarrow> string" where
  "status_text StatusQueued = ''queued''"
| "status_text StatusRunning = ''running''"
| "status_text StatusDone = ''done''"
| "status_text StatusDeleting = ''deleting''"

fun kind_text :: "kind \<Rightarrow> string" where
  "kind_text KindMission = ''mission''"
| "kind_text KindExec = ''exec''"

record list_filter =
  lf_Status :: string
  lf_Outcome :: string
  lf_Lane :: string
  lf_Mission :: string
  lf_MissionPrefix :: string
  lf_Kind :: string
  lf_GroupID :: string
  lf_RestartedFrom :: string
  lf_Order :: string
  lf_SinceMs :: int
  lf_UntilMs :: int

record cursor =
  cur_TimeCreatedMs :: int
  cur_TimeFinishedMs :: int
  cur_MissionID :: string

abbreviation lf_Finished :: "list_filter \<Rightarrow> bool" where
  "lf_Finished f \<equiv> lf_Order f = ''finished''"

text \<open>The conjunction of the WHERE conditions, each present only when its filter is set.\<close>

definition list_where :: "list_filter \<Rightarrow> cursor option \<Rightarrow> mission \<Rightarrow> bool" where
  "list_where f after m \<longleftrightarrow>
     (lf_Kind f \<noteq> [] \<longrightarrow> kind_text (msn_Kind m) = lf_Kind f) \<and>
     (lf_GroupID f \<noteq> [] \<longrightarrow> msn_GroupID m = Some (lf_GroupID f)) \<and>
     (lf_RestartedFrom f \<noteq> [] \<longrightarrow> msn_RestartedFrom m = Some (lf_RestartedFrom f)) \<and>
     (if lf_Status f \<noteq> [] then status_text (msn_Status m) = lf_Status f else msn_Status m \<noteq> StatusDeleting) \<and>
     (lf_Outcome f \<noteq> [] \<longrightarrow> msn_Outcome m = Some (lf_Outcome f)) \<and>
     (lf_Lane f \<noteq> [] \<longrightarrow> msn_Lane m = lf_Lane f) \<and>
     (lf_Mission f \<noteq> [] \<longrightarrow>
        like_match (like_tokens (''%'' @ escapeLikePattern (lf_Mission f) @ ''%'')) (msn_MissionName m)) \<and>
     (lf_MissionPrefix f \<noteq> [] \<longrightarrow>
        like_match (like_tokens (escapeLikePattern (lf_MissionPrefix f) @ ''%'')) (msn_MissionName m)) \<and>
     (lf_Finished f \<longrightarrow> msn_TimeFinishedMs m \<noteq> None) \<and>
     (0 < lf_SinceMs f \<longrightarrow> lf_SinceMs f \<le> msn_TimeCreatedMs m) \<and>
     (0 < lf_UntilMs f \<longrightarrow> msn_TimeCreatedMs m < lf_UntilMs f) \<and>
     (case after of
        None \<Rightarrow> True
      | Some c \<Rightarrow>
          if lf_Finished f
          then (case msn_TimeFinishedMs m of
                  None \<Rightarrow> False
                | Some t \<Rightarrow> (t, msn_ID m) < (cur_TimeFinishedMs c, cur_MissionID c))
          else (msn_TimeCreatedMs m, msn_ID m) < (cur_TimeCreatedMs c, cur_MissionID c))"

definition list_key :: "list_filter \<Rightarrow> mission \<Rightarrow> int \<times> string" where
  "list_key f m =
     (if lf_Finished f then (case msn_TimeFinishedMs m of None \<Rightarrow> 0 | Some t \<Rightarrow> t, msn_ID m)
      else (msn_TimeCreatedMs m, msn_ID m))"

text \<open>A negative LIMIT is no limit in SQLite.\<close>

definition sql_limit :: "int \<Rightarrow> 'a list \<Rightarrow> 'a list" where
  "sql_limit n xs = (if n < 0 then xs else take (nat n) xs)"

definition ListMissions :: "list_filter \<Rightarrow> cursor option \<Rightarrow> int \<Rightarrow> db \<Rightarrow> mission list" where
  "ListMissions f after limit d =
     sql_limit limit (rev (sort_key (list_key f) (filter (list_where f after) (missions d))))"

text \<open>
  One page of the listing endpoint (\<^verbatim>\<open>MissionsHandler.List\<close>): it asks for one row more than the
  limit and, when that row exists, hands out a cursor at the last row of the page.  \<open>all_pages\<close>
  is a client following the cursors, with the number of requests it is ready to make.
\<close>

definition cursor_of :: "list_filter \<Rightarrow> mission \<Rightarrow> cursor" where
  "cursor_of f m =
     (if lf_Finished f
      then \<lparr>cur_TimeCreatedMs = 0,
            cur_TimeFinishedMs = (case msn_TimeFinishedMs m of None \<Rightarrow> 0 | Some t \<Rightarrow> t),
            cur_MissionID = msn_ID m\<rparr>
      else \<lparr>cur_TimeCreatedMs = msn_TimeCreatedMs m, cur_TimeFinishedMs = 0,
            cur_MissionID = msn_ID m\<rparr>)"

definition list_page ::
  "list_filter \<Rightarrow> cursor option \<Rightarrow> nat \<Rightarrow> db \<Rightarrow> mission list \<times> cursor option" where
  "list_page f after limit d =
     (let rows = ListMissions f after (int limit + 1) d
      in if length rows > limit then (take limit rows, Some (cursor_of f (rows ! (limit - 1))))
         else (rows, None))"

fun all_pages :: "nat \<Rightarrow> list_filter \<Rightarrow> cursor option \<Rightarrow> nat \<Rightarrow> db \<Rightarrow> mission list option" where
  "all_pages 0 f after limit d = None"
| "all_pages (Suc n) f after limit d =
     (case list_page f after limit d of
        (rows, None) \<Rightarrow> Some rows
      | (rows, Some c) \<Rightarrow> map_option (\<lambda>rest. rows @ rest) (all_pages n f (Some c) limit d))"

section \<open>Escaped patterns match the text itself\<close>

abbreviation folded :: "string \<Rightarrow> string" where
  "folded s \<equiv> map lower_char s"

lemma like_tokens_escape:
  "like_tokens (escapeLikePattern s @ t) = map LLit s @ like_tokens t"
proof (induction s)
  case Nil
  then show ?case by (simp add: escapeLikePattern_def)
next
  case (Cons c s)
  have plain: "c \<notin> {CHR 0x5C, CHR ''%'', CHR ''_''} \<Longrightarrow> like_tokens (c # u) = LLit c # like_tokens u" for u
    by (cases u) auto
  show ?case
    using Cons plain [of "escapeLikePattern s @ t"] by (auto simp: escapeLikePattern_def)
qed

lemma like_match_lits:
  "like_match (map LLit p @ q) s \<longleftrightarrow>
     (\<exists>u v. s = u @ v \<and> folded u = folded p \<and> like_match q v)"
proof (induction p arbitrary: s)
  case Nil
  then show ?case by simp
next
  case (Cons c p)
  show ?case
  proof (cases s)
    case Nil
    then show ?thesis by auto
  next
    case (Cons x s')
    have "(\<exists>u v. x # s' = u @ v \<and> folded u = folded (c # p) \<and> like_match q v) \<longleftrightarrow>
        lower_char c = lower_char x \<and> (\<exists>u v. s' = u @ v \<and> folded u = folded p \<and> like_match q v)"
      by (auto simp: Cons_eq_append_conv) (metis append_Cons list.simps(9))
    then show ?thesis using Cons Cons.IH by simp
  qed
qed

lemma like_match_LAny: "like_match (LAny # p) s \<longleftrightarrow> (\<exists>u v. s = u @ v \<and> like_match p v)"
proof (induction s)
  case Nil
  then show ?case by simp
next
  case (Cons x s)
  have "(\<exists>u v. x # s = u @ v \<and> like_match p v) \<longleftrightarrow>
      like_match p (x # s) \<or> (\<exists>u v. s = u @ v \<and> like_match p v)"
    by (auto simp: Cons_eq_append_conv)
  then show ?case using Cons by simp
qed

lemma like_match_LAny_end: "like_match [LAny] s"
  by (auto simp: like_match_LAny)

lemma like_tokens_percent: "like_tokens (CHR ''%'' # s) = LAny # like_tokens s"
  by (cases s) auto

lemma like_substring:
  "like_match (like_tokens (''%'' @ escapeLikePattern p @ ''%'')) s \<longleftrightarrow>
     (\<exists>u m v. s = u @ m @ v \<and> folded m = folded p)"
proof -
  have "like_tokens (''%'' @ escapeLikePattern p @ ''%'') = LAny # map LLit p @ [LAny]"
    using like_tokens_escape [of p "''%''"] by (simp add: like_tokens_percent)
  then show ?thesis by (auto simp: like_match_LAny like_match_lits like_match_LAny_end)
qed

lemma like_prefix:
  "like_match (like_tokens (escapeLikePattern p @ ''%'')) s \<longleftrightarrow>
     (\<exists>m v. s = m @ v \<and> folded m = folded p)"
  using like_tokens_escape [of p "''%''"]
  by (auto simp: like_match_lits like_match_LAny_end)

section \<open>Pages\<close>

lemma list_where_after:
  assumes "list_where f after l"
  shows "list_where f (Some (cursor_of f l)) m \<longleftrightarrow> list_where f None m \<and> list_key f m < list_key f l"
  using assms
  by (auto simp: list_where_def cursor_of_def list_key_def split: option.splits)

lemma list_where_mono: "list_where f after m \<Longrightarrow> list_where f None m"
  by (auto simp: list_where_def)

text \<open>The listing after a cursor is the rest of the listing.\<close>

definition listing :: "list_filter \<Rightarrow> db \<Rightarrow> mission list" where
  "listing f d = rev (sort_key (list_key f) (filter (list_where f None) (missions d)))"

lemma listing_after:
  assumes "list_where f None l"
  shows "rev (sort_key (list_key f) (filter (list_where f (Some (cursor_of f l))) (missions d))) =
    filter (\<lambda>m. list_key f m < list_key f l) (listing f d)"
proof -
  have "filter (\<lambda>m. list_where f (Some (cursor_of f l)) m) (missions d) =
      filter (\<lambda>m. list_key f m < list_key f l) (filter (list_where f None) (missions d))"
    by (simp add: fun_eq_iff list_where_after [OF assms] cong: filter_cong)
  then show ?thesis
    by (simp only: listing_def filter_sort [symmetric] rev_filter)
qed

lemma listing_descending:
  assumes "keyed msn_ID (missions d)"
  shows "sorted_wrt (\<lambda>a b. list_key f b < list_key f a) (listing f d)"
proof -
  let ?xs = "sort_key (list_key f) (filter (list_where f None) (missions d))"
  have inj: "list_key f a = list_key f b \<Longrightarrow> msn_ID a = msn_ID b" for a b
    by (auto simp: list_key_def split: if_splits)
  have "distinct (map msn_ID (filter (list_where f None) (missions d)))"
    using assms by (rule distinct_map_filter)
  then have "distinct (map msn_ID ?xs)"
    by (simp add: distinct_map)
  then have "distinct (map (list_key f) ?xs)"
    by (auto simp: distinct_map inj_on_def dest: inj)
  moreover have "sorted (map (list_key f) ?xs)" by simp
  ultimately have "sorted_wrt (<) (map (list_key f) ?xs)"
    using strict_sorted_iff by blast
  then show ?thesis by (simp add: listing_def sorted_wrt_map sorted_wrt_rev)
qed

lemma filter_below_drop:
  assumes "sorted_wrt (\<lambda>a b. k b < (k a :: 'b :: linorder)) xs" and "0 < n" and "n \<le> length xs"
  shows "filter (\<lambda>m. k m < k (xs ! (n - 1))) xs = drop n xs"
proof -
  let ?p = "\<lambda>m. k m < k (xs ! (n - 1))"
  have lt: "k (xs ! j) < k (xs ! i)" if "i < j" "j < length xs" for i j
    using assms(1) that by (simp add: sorted_wrt_iff_nth_less)
  have "\<not> ?p m" if m: "m \<in> set (take n xs)" for m
  proof -
    from m obtain i where "i < n" and i: "m = xs ! i" using assms(3) by (auto simp: in_set_conv_nth)
    then have "i = n - 1 \<or> i < n - 1" and "n - 1 < length xs" using assms(2,3) by arith+
    with i lt [of i "n - 1"] show ?thesis by (auto dest: less_asym)
  qed
  then have "filter ?p (take n xs) = []" by (simp add: filter_empty_conv)
  moreover have "?p m" if m: "m \<in> set (drop n xs)" for m
  proof -
    from m obtain i where i: "i < length (drop n xs)" "m = drop n xs ! i"
      by (metis in_set_conv_nth)
    then have "i + n < length xs" and "m = xs ! (i + n)" by (simp_all add: add.commute)
    with lt [of "n - 1" "i + n"] assms(2) show ?thesis by auto
  qed
  then have "filter ?p (drop n xs) = drop n xs" by simp
  ultimately show ?thesis
    using filter_append [of ?p "take n xs" "drop n xs"] by simp
qed

lemma ListMissions_unlimited: "ListMissions f None (- 1) d = listing f d"
  by (simp add: ListMissions_def listing_def sql_limit_def)

text \<open>\<open>rest_of\<close> is the listing after an optional cursor, as the pages see it.\<close>

definition rest_of :: "list_filter \<Rightarrow> cursor option \<Rightarrow> db \<Rightarrow> mission list" where
  "rest_of f after d = rev (sort_key (list_key f) (filter (list_where f after) (missions d)))"

lemma list_page_eq:
  "list_page f after limit d =
     (let rest = rest_of f after d
      in if limit < length rest then (take limit rest, Some (cursor_of f (rest ! (limit - 1))))
         else (rest, None))"
  by (auto simp: list_page_def ListMissions_def sql_limit_def rest_of_def Let_def nat_add_distrib min_def)

lemma rest_of_cursor:
  assumes "keyed msn_ID (missions d)" and "rest_of f after d = drop k (listing f d)"
    and "0 < limit" and "limit < length (rest_of f after d)"
  shows "rest_of f (Some (cursor_of f (rest_of f after d ! (limit - 1)))) d = drop (k + limit) (listing f d)"
proof -
  let ?xs = "listing f d"
  let ?l = "rest_of f after d ! (limit - 1)"
  have len: "k + limit < length ?xs" using assms(2,4) by simp
  then have l: "?l = ?xs ! (k + limit - 1)" using assms(2,3) by (simp add: add.commute)
  have "?l \<in> set ?xs" unfolding l using len by (intro nth_mem) arith
  then have "list_where f None ?l" by (simp add: listing_def)
  then have "rest_of f (Some (cursor_of f ?l)) d = filter (\<lambda>m. list_key f m < list_key f ?l) ?xs"
    unfolding rest_of_def by (rule listing_after)
  also have "\<dots> = drop (k + limit) ?xs"
    unfolding l
    by (rule filter_below_drop) (use listing_descending [OF assms(1)] assms(3) len in auto)
  finally show ?thesis .
qed

lemma all_pages_from:
  assumes "keyed msn_ID (missions d)" and "0 < limit"
    and "rest_of f after d = drop k (listing f d)" and "length (rest_of f after d) < n"
  shows "all_pages n f after limit d = Some (drop k (listing f d))"
  using assms(3,4)
proof (induction n arbitrary: after k)
  case 0
  then show ?case by simp
next
  case (Suc n)
  show ?case
  proof (cases "limit < length (rest_of f after d)")
    case False
    with Suc.prems show ?thesis by (simp add: list_page_eq Let_def)
  next
    case True
    let ?c = "cursor_of f (rest_of f after d ! (limit - 1))"
    have next_rest: "rest_of f (Some ?c) d = drop (k + limit) (listing f d)"
      by (rule rest_of_cursor [OF assms(1) Suc.prems(1) assms(2) True])
    then have "length (rest_of f (Some ?c) d) < n"
      using Suc.prems True assms(2) by simp
    with next_rest have "all_pages n f (Some ?c) limit d = Some (drop (k + limit) (listing f d))"
      by (rule Suc.IH)
    moreover have "take limit (drop k (listing f d)) @ drop (k + limit) (listing f d) = drop k (listing f d)"
      by (metis append_take_drop_id drop_drop add.commute)
    ultimately show ?thesis
      using True Suc.prems(1) by (simp add: list_page_eq Let_def)
  qed
qed

lemma length_listing: "length (listing f d) \<le> length (missions d)"
  by (simp add: listing_def)

end
