(* ===== verification/Views.thy ===== *)
theory Views
  imports Access Listing
begin

text \<open>
  The read-only endpoints: a mission and the listing (\<^verbatim>\<open>internal/server/handlers/missions_get.go\<close>),
  its events (\<^verbatim>\<open>events.go\<close>) and its captured output (\<^verbatim>\<open>output.go\<close>), the summaries (\<^verbatim>\<open>inspect.go\<close>) and
  readiness (\<^verbatim>\<open>health.go\<close>), behind the kind gate (\<^verbatim>\<open>kindgate.go\<close>).  What they share is that a token
  for missions learns nothing of exec jobs, and the other way round.
\<close>

section \<open>The kind gate\<close>

text \<open>\<open>None\<close> lets the request through.\<close>

definition RequireKindForScope :: "scope option \<Rightarrow> mission \<Rightarrow> reply option" where
  "RequireKindForScope ctx m =
     (let (allowed, missingIdentity) = kindAllowedForCtx ctx m
      in if missingIdentity then Some (WriteError 500 ''internal'' None)
         else if allowed then None
         else Some (WriteError 403 ''forbidden_kind'' None))"

text \<open>The empty text is no filter.\<close>

definition kindFilterForCtx :: "scope option \<Rightarrow> string" where
  "kindFilterForCtx ctx =
     (case ctx of
        None \<Rightarrow> []
      | Some ScopeDispatch \<Rightarrow> kind_text KindMission
      | Some ScopeExec \<Rightarrow> kind_text KindExec
      | Some ScopeAdmin \<Rightarrow> [])"

section \<open>A mission\<close>

text \<open>The JSON object of a mission; an absent member is \<open>None\<close>.\<close>

record file_entry =
  fe_role :: string
  fe_staging_id :: string
  fe_sha256 :: string
  fe_size :: int

record mission_response =
  mr_mission_id :: string
  mr_kind :: string
  mr_lane :: string
  mr_mission_name :: string
  mr_status :: string
  mr_input_fingerprint :: string
  mr_truncated_stdout :: bool
  mr_truncated_stderr :: bool
  mr_time_created :: int
  mr_input :: "string option"
  mr_display_name :: "string option"
  mr_group_id :: "string option"
  mr_outcome :: "string option"
  mr_fail_reason :: "string option"
  mr_fail_message :: "string option"
  mr_fail_details :: "raw_message option"
  mr_exit_code :: "int option"
  mr_signal :: "string option"
  mr_pid :: "int option"
  mr_return :: "raw_message option"
  mr_time_started :: "int option"
  mr_time_finished :: "int option"
  mr_duration_ms :: "int option"
  mr_timeout_ms :: "int option"
  mr_restarted_from :: "string option"
  mr_inputs :: "file_entry list"
  mr_outputs :: "string \<rightharpoonup> file_entry"

text \<open>A staging row that cannot be read is skipped.\<close>

fun join_refs ::
  "staging_ref list \<Rightarrow> file_entry list \<Rightarrow> (string \<rightharpoonup> file_entry) \<Rightarrow> (file_entry list \<times> (string \<rightharpoonup> file_entry)) proc"
where
  "join_refs [] inputs outputs = ret (inputs, outputs)"
| "join_refs (r # rs) inputs outputs =
     bindM (attempt (query (GetStaging (ref_StagingID r)))) (\<lambda>q.
       case q of
         Inl _ \<Rightarrow> join_refs rs inputs outputs
       | Inr st \<Rightarrow>
           let entry = \<lparr>fe_role = ref_Role r, fe_staging_id = ref_StagingID r, fe_sha256 = stg_Sha256 st, fe_size = stg_Size st\<rparr>
           in case ref_RefKind r of
                RefInput \<Rightarrow> join_refs rs (inputs @ [entry]) outputs
              | RefOutput \<Rightarrow> join_refs rs inputs (outputs(ref_Role r \<mapsto> entry))
              | RefScript \<Rightarrow> join_refs rs inputs outputs)"

definition buildMissionResponse :: "mission \<Rightarrow> mission_response proc" where
  "buildMissionResponse m =
     bindM (query (\<lambda>d. Inr (RefsByMission (msn_ID m) d))) (\<lambda>refs.
     bindM (join_refs refs [] Map.empty) (\<lambda>(inputs, outputs).
     ret \<lparr>mr_mission_id = msn_ID m, mr_kind = kind_text (msn_Kind m), mr_lane = msn_Lane m,
          mr_mission_name = msn_MissionName m, mr_status = status_text (msn_Status m),
          mr_input_fingerprint = msn_InputFingerprint m,
          mr_truncated_stdout = msn_TruncatedStdout m, mr_truncated_stderr = msn_TruncatedStderr m,
          mr_time_created = msn_TimeCreatedMs m,
          mr_input = (if msn_Input m = [] then None else Some (msn_Input m)),
          mr_display_name = msn_DisplayName m, mr_group_id = msn_GroupID m, mr_outcome = msn_Outcome m,
          mr_fail_reason = msn_FailReason m, mr_fail_message = msn_FailMessage m,
          mr_fail_details = msn_FailDetails m, mr_exit_code = msn_ExitCode m, mr_signal = msn_Signal m,
          mr_pid = msn_PID m, mr_return = msn_ReturnValue m,
          mr_time_started = msn_TimeStartedMs m, mr_time_finished = msn_TimeFinishedMs m,
          mr_duration_ms = (case (msn_TimeFinishedMs m, msn_TimeStartedMs m) of
                              (Some f, Some s) \<Rightarrow> Some (wrap64 (f - s)) | _ \<Rightarrow> None),
          mr_timeout_ms = msn_TimeoutMs m, mr_restarted_from = msn_RestartedFrom m,
          mr_inputs = inputs, mr_outputs = outputs\<rparr>))"

text \<open>
  The first half of the three endpoints of a mission: they differ in the reply for a row that is
  being deleted.
\<close>

definition visible_mission :: "reply \<Rightarrow> scope option \<Rightarrow> string \<Rightarrow> (reply + mission) proc" where
  "visible_mission deleting ctx mid =
     bindM (attempt (query (GetMission mid))) (\<lambda>r.
       case r of
         Inl e \<Rightarrow> ret (Inl (if e = ErrNotFound then WriteError 404 ''not_found'' None else WriteDBError 500))
       | Inr m \<Rightarrow>
           if msn_Status m = StatusDeleting then ret (Inl deleting)
           else case RequireKindForScope ctx m of
                  Some rep \<Rightarrow> ret (Inl rep)
                | None \<Rightarrow> ret (Inr m))"

definition GetByID :: "scope option \<Rightarrow> string \<Rightarrow> mission_response answer proc" where
  "GetByID ctx mid =
     (if \<not> ValidateUUIDv7 mid then ret (Refused (WriteError 400 ''invalid_id'' None))
      else bindM (visible_mission (WriteError 404 ''not_found'' None) ctx mid) (\<lambda>v.
        case v of
          Inl rep \<Rightarrow> ret (Refused rep)
        | Inr m \<Rightarrow> bindM (attempt (buildMissionResponse m)) (\<lambda>b.
            case b of Inl _ \<Rightarrow> ret (Refused (WriteDBError 500)) | Inr resp \<Rightarrow> ret (Granted resp))))"

section \<open>The listing\<close>

text \<open>The query parameters as texts; the cursor as \<^verbatim>\<open>decodeCursor\<close> makes it (base64 and JSON).\<close>

record missions_query =
  mq_filter :: list_filter
  mq_order :: string
  mq_since :: string
  mq_until :: string
  mq_limit :: string
  mq_cursor :: "unit + cursor option"

definition list_order :: "string \<Rightarrow> string option" where
  "list_order s = (if s = [] \<or> s = ''created'' then Some ''created'' else if s = ''finished'' then Some ''finished'' else None)"

definition list_time :: "string \<Rightarrow> int option" where
  "list_time s = (if s = [] then Some 0 else ParseInt64 s)"

fun build_all :: "mission list \<Rightarrow> mission_response list proc" where
  "build_all [] = ret []"
| "build_all (m # ms) = bindM (buildMissionResponse m) (\<lambda>x. bindM (build_all ms) (\<lambda>xs. ret (x # xs)))"

definition List_missions :: "missions_query \<Rightarrow> (mission_response list \<times> cursor option) answer proc" where
  "List_missions q =
     (case (list_order (mq_order q), list_time (mq_since q), list_time (mq_until q), list_limit (mq_limit q), mq_cursor q) of
        (Some order, Some since, Some til, Some limit, Inr cur) \<Rightarrow>
          let f = (mq_filter q)\<lparr>lf_Order := order, lf_SinceMs := since, lf_UntilMs := til\<rparr>
          in bindM (attempt (query (\<lambda>d. Inr (list_page f cur (nat limit) d)))) (\<lambda>r.
               case r of
                 Inl _ \<Rightarrow> ret (Refused (WriteDBError 500))
               | Inr (rows, next) \<Rightarrow>
                   bindM (attempt (build_all rows)) (\<lambda>b.
                     case b of Inl _ \<Rightarrow> ret (Refused (WriteDBError 500)) | Inr rs \<Rightarrow> ret (Granted (rs, next))))
      | _ \<Rightarrow> ret (Refused (WriteError 400 ''bad_request'' None)))"

section \<open>Events\<close>

text \<open>
  The lines that are sent: without follow what the file holds, with follow what it holds and
  gains, one list per poll.
\<close>

definition EventsHandler_Stream ::
  "scope option \<Rightarrow> string \<Rightarrow> string \<Rightarrow> string \<Rightarrow> eline list list \<Rightarrow> (error + eline list \<times> stream_end) answer proc"
where
  "EventsHandler_Stream ctx mid follow_text from_text polls =
     (if \<not> ValidateUUIDv7 mid then ret (Refused (WriteError 400 ''invalid_id'' None))
      else bindM (visible_mission (WriteError 410 ''mission_deleting'' None) ctx mid) (\<lambda>v.
        case v of
          Inl rep \<Rightarrow> ret (Refused rep)
        | Inr m \<Rightarrow>
            let follow = (force_param follow_text \<and> msn_Status m \<noteq> StatusDone)
            in case (if from_text = [] then Some 0 else ParseInt64 from_text) of
                 None \<Rightarrow> ret (Refused (WriteError 400 ''invalid_from'' None))
               | Some from \<Rightarrow>
                   (case ShardPath mid of
                      Inl _ \<Rightarrow> ret (Refused (WriteError 500 ''shard_error'' None))
                    | Inr _ \<Rightarrow>
                        if follow then ret (Granted (Inr (StreamFollow from polls)))
                        else (\<lambda>fs w. (Ret (Granted (Stream from (wd_events w mid))), fs, w)))))"

section \<open>Captured output\<close>

definition streamSpec :: "string \<Rightarrow> (string \<times> string) option" where
  "streamSpec s =
     (if s = ''stdout'' then Some (''-stdout'', ''application/octet-stream'')
      else if s = ''stderr'' then Some (''-stderr'', ''application/octet-stream'')
      else if s = ''combined'' then Some (''-combined'', ''application/x-ndjson'')
      else None)"

text \<open>
  What the handler meets while it streams, by the number of the turn of its loops: whether the
  file can be opened, the bytes of the open file (\<open>None\<close> for a read error), the mission, and
  whether the client has gone.
\<close>

record output_env =
  oe_open :: "nat \<Rightarrow> error + unit"
  oe_bytes :: "nat \<Rightarrow> string option"
  oe_mission :: "nat \<Rightarrow> error + mission"
  oe_gone :: "nat \<Rightarrow> bool"

definition read_chunk :: "nat \<Rightarrow> string \<Rightarrow> string" where
  "read_chunk pos c = take 32768 (drop pos c)"

definition mission_ended :: "error + mission \<Rightarrow> bool" where
  "mission_ended q = (case q of Inl _ \<Rightarrow> False | Inr m \<Rightarrow> msn_Status m = StatusDone \<or> msn_Status m = StatusDeleting)"

text \<open>
  The loops, each turn with one unit of fuel; the result is what has been sent, \<open>None\<close> when the
  fuel ran out first.
\<close>

fun drainAndFlush :: "nat \<Rightarrow> output_env \<Rightarrow> nat \<Rightarrow> string \<Rightarrow> string option" where
  "drainAndFlush 0 X k sent = None"
| "drainAndFlush (Suc fuel) X k sent =
     (case oe_bytes X k of
        None \<Rightarrow> Some sent
      | Some c \<Rightarrow>
          if read_chunk (length sent) c = [] then Some sent
          else if oe_gone X k then Some sent
          else drainAndFlush fuel X (Suc k) (sent @ read_chunk (length sent) c))"

fun copy_loop :: "nat \<Rightarrow> output_env \<Rightarrow> bool \<Rightarrow> nat \<Rightarrow> string \<Rightarrow> string option" where
  "copy_loop 0 X follow k sent = None"
| "copy_loop (Suc fuel) X follow k sent =
     (case oe_bytes X k of
        None \<Rightarrow> Some sent
      | Some c \<Rightarrow>
          if read_chunk (length sent) c \<noteq> []
          then (if oe_gone X k then Some sent
                else copy_loop fuel X follow (Suc k) (sent @ read_chunk (length sent) c))
          else if \<not> follow then Some sent
          else if oe_gone X k then Some sent
          else if isl (oe_mission X k) \<or> mission_ended (oe_mission X k) then drainAndFlush fuel X (Suc k) sent
          else copy_loop fuel X follow (Suc k) sent)"

fun await_file :: "nat \<Rightarrow> output_env \<Rightarrow> nat \<Rightarrow> string option" where
  "await_file 0 X k = None"
| "await_file (Suc fuel) X k =
     (if oe_gone X k then Some []
      else case oe_open X k of
             Inr _ \<Rightarrow> copy_loop fuel X True (Suc k) []
           | Inl e \<Rightarrow>
               if e \<noteq> ErrNotFound then Some []
               else if mission_ended (oe_mission X k) \<or> isl (oe_mission X k) then Some []
               else await_file fuel X (Suc k))"

definition OutputHandler_Stream ::
  "nat \<Rightarrow> output_env \<Rightarrow> scope option \<Rightarrow> string \<Rightarrow> string \<Rightarrow> string \<Rightarrow> (string \<times> string option) answer proc"
where
  "OutputHandler_Stream fuel X ctx mid stream follow_text =
     (if \<not> ValidateUUIDv7 mid then ret (Refused (WriteError 400 ''invalid_id'' None))
      else case streamSpec stream of
        None \<Rightarrow> ret (Refused (WriteError 400 ''bad_request'' None))
      | Some (suffix, contentType) \<Rightarrow>
          bindM (visible_mission (WriteError 410 ''mission_deleting'' None) ctx mid) (\<lambda>v.
            case v of
              Inl rep \<Rightarrow> ret (Refused rep)
            | Inr m \<Rightarrow>
                let follow = force_param follow_text
                in case ShardPath mid of
                     Inl _ \<Rightarrow> ret (Refused (WriteError 500 ''shard_error'' None))
                   | Inr _ \<Rightarrow>
                       (case oe_open X 0 of
                          Inr _ \<Rightarrow> ret (Granted (contentType, copy_loop fuel X follow 1 []))
                        | Inl e \<Rightarrow>
                            if e \<noteq> ErrNotFound then ret (Refused (WriteIOError 500 e))
                            else if \<not> follow then ret (Granted (contentType, Some []))
                            else ret (Granted (contentType, await_file fuel X 1)))))"

section \<open>Summaries and readiness\<close>

record dugdale_view =
  dv_applied_at :: "int option"
  dv_queued :: nat
  dv_running :: nat

definition count_rows :: "string \<Rightarrow> (mission \<Rightarrow> bool) \<Rightarrow> db \<Rightarrow> nat" where
  "count_rows kindFilter P d =
     length (filter (\<lambda>m. P m \<and> (kindFilter \<noteq> [] \<longrightarrow> kind_text (msn_Kind m) = kindFilter)) (missions d))"

definition Inspect_Dugdale :: "scope option \<Rightarrow> dugdale_view answer proc" where
  "Inspect_Dugdale ctx =
     bindM (attempt (query GetAppliedConfig)) (\<lambda>r.
       case (case r of Inr c \<Rightarrow> Inr (Some (ac_AppliedAt c)) | Inl e \<Rightarrow> if e = ErrNotFound then Inr None else Inl e) of
         Inl _ \<Rightarrow> ret (Refused (WriteDBError 500))
       | Inr applied \<Rightarrow>
           bindM (attempt (query (\<lambda>d. Inr (count_rows (kindFilterForCtx ctx) (\<lambda>m. msn_Status m = StatusQueued) d,
                                            count_rows (kindFilterForCtx ctx) (\<lambda>m. msn_Status m = StatusRunning) d)))) (\<lambda>q.
             case q of
               Inl _ \<Rightarrow> ret (Refused (WriteDBError 500))
             | Inr (nq, nr) \<Rightarrow> ret (Granted \<lparr>dv_applied_at = applied, dv_queued = nq, dv_running = nr\<rparr>)))"

record laneInfo =
  li_Name :: string
  li_Concurrency :: int
  li_Paused :: bool
  li_Queued :: nat
  li_Running :: nat

definition Inspect_Lanes :: "manager \<Rightarrow> scope option \<Rightarrow> laneInfo list answer proc" where
  "Inspect_Lanes mg ctx =
     bindM (attempt (query (\<lambda>d. Inr (map (\<lambda>s.
         \<lparr>li_Name = sp_Name s, li_Concurrency = sp_Concurrency s, li_Paused = sp_Paused s,
          li_Queued = count_rows (kindFilterForCtx ctx) (\<lambda>m. msn_Lane m = sp_Name s \<and> msn_Status m = StatusQueued) d,
          li_Running = count_rows (kindFilterForCtx ctx) (\<lambda>m. msn_Lane m = sp_Name s \<and> msn_Status m = StatusRunning) d\<rparr>)
         (CurrentLanes mg))))) (\<lambda>q.
       case q of Inl _ \<Rightarrow> ret (Refused (WriteDBError 500)) | Inr infos \<Rightarrow> ret (Granted infos))"

definition Readyz :: "bool \<Rightarrow> int answer proc" where
  "Readyz draining = (\<lambda>fs w.
     if wd_critical w \<noteq> [] then (Ret (Refused (WriteError 503 ''awaiting_manual_repair'' None)), fs, w)
     else if draining then (Ret (Refused (WriteError 503 ''awaiting_drain'' (Some 30))), fs, w)
     else bindM (attempt (query GetAppliedConfig)) (\<lambda>r.
            case r of
              Inl e \<Rightarrow> ret (Refused (if e = ErrNotFound then WriteError 503 ''awaiting_apply'' None else WriteDBError 503))
            | Inr c \<Rightarrow> ret (Granted (ac_AppliedAt c))) fs w)"

section \<open>Following the output of a mission to its end\<close>

text \<open>
  The file only grows, can be read and is there when the mission has ended, by which time it is
  complete; the mission ends by turn \<open>K\<close> and the client stays.
\<close>

definition output_settles :: "output_env \<Rightarrow> nat \<Rightarrow> string \<Rightarrow> bool" where
  "output_settles X K final \<longleftrightarrow>
     (\<forall>k. \<exists>c c'. oe_bytes X k = Some c \<and> oe_bytes X (Suc k) = Some (c @ c')) \<and>
     (\<forall>k. \<not> oe_gone X k \<and> \<not> isl (oe_mission X k) \<and> (oe_open X k = Inr () \<or> oe_open X k = Inl ErrNotFound)) \<and>
     (\<forall>k. mission_ended (oe_mission X k) \<longrightarrow> oe_open X k = Inr () \<and> (\<forall>j \<ge> k. oe_bytes X j = Some final)) \<and>
     mission_ended (oe_mission X K) \<and> (\<forall>k \<ge> K. mission_ended (oe_mission X k))"

lemma output_prefix:
  assumes "output_settles X K final"
  shows "\<exists>c c'. oe_bytes X k = Some c \<and> final = c @ c'"
proof (cases "K \<le> k")
  case True
  with assms show ?thesis by (auto simp: output_settles_def)
next
  case False
  have "\<exists>c c'. oe_bytes X k = Some c \<and> oe_bytes X (k + n) = Some (c @ c')" for n
  proof (induction n)
    case 0
    obtain c where "oe_bytes X k = Some c" using assms unfolding output_settles_def by blast
    then show ?case by (auto intro: exI [of _ "[]"])
  next
    case (Suc n)
    then obtain c c' where "oe_bytes X k = Some c" "oe_bytes X (k + n) = Some (c @ c')" by blast
    moreover obtain d d' where "oe_bytes X (k + n) = Some d" "oe_bytes X (Suc (k + n)) = Some (d @ d')"
      using assms unfolding output_settles_def by blast
    ultimately show ?case by auto
  qed
  from this [of "K - k"] False assms show ?thesis by (auto simp: output_settles_def)
qed

lemma read_chunk_nil: "read_chunk (length sent) (sent @ rest) = [] \<longleftrightarrow> rest = []"
  by (simp add: read_chunk_def)

lemma read_chunk_next: "\<exists>rest'. rest = read_chunk (length sent) (sent @ rest) @ rest'"
  by (simp add: read_chunk_def) (metis append_take_drop_id)

lemma copy_loop_complete:
  assumes "output_settles X K final" and "oe_bytes X k = Some (sent @ rest)"
    and "(K - k) + (length final - length sent) + 2 \<le> fuel"
  shows "copy_loop fuel X True k sent = Some final"
  using assms(2,3)
proof (induction fuel arbitrary: k sent rest)
  case (Suc fuel)
  have grow: "\<And>k. \<exists>c c'. oe_bytes X k = Some c \<and> oe_bytes X (Suc k) = Some (c @ c')"
    and calm: "\<And>k. \<not> oe_gone X k" "\<And>k. \<not> isl (oe_mission X k)"
    and ended: "\<And>k j. mission_ended (oe_mission X k) \<Longrightarrow> k \<le> j \<Longrightarrow> oe_bytes X j = Some final"
    and by_K: "\<And>k. K \<le> k \<Longrightarrow> mission_ended (oe_mission X k)"
    using assms(1) by (auto simp: output_settles_def)
  obtain more where next_bytes: "oe_bytes X (Suc k) = Some (sent @ rest @ more)"
    using grow [of k] Suc.prems(1) by auto
  let ?chunk = "read_chunk (length sent) (sent @ rest)"
  show ?case
  proof (cases "?chunk = []")
    case False
    obtain rest' where rest': "rest = ?chunk @ rest'" using read_chunk_next by blast
    have "length (sent @ ?chunk) \<le> length final"
      using output_prefix [OF assms(1), of k] Suc.prems(1) rest' by (metis append_assoc length_append le_add1 option.inject)
    then have "(K - Suc k) + (length final - length (sent @ ?chunk)) + 2 \<le> fuel"
      using Suc.prems(2) False by (cases ?chunk) auto
    then have "copy_loop fuel X True (Suc k) (sent @ ?chunk) = Some final"
      using next_bytes rest' by (intro Suc.IH [of _ _ "rest' @ more"]) (metis append_assoc, simp)
    then show ?thesis using Suc.prems(1) False calm by simp
  next
    case True
    then have "rest = []" by (simp add: read_chunk_nil)
    show ?thesis
    proof (cases "mission_ended (oe_mission X k)")
      case ended_k: True
      have "oe_bytes X k = Some final" "oe_bytes X (Suc k) = Some final" using ended [OF ended_k] by auto
      moreover obtain n where "fuel = Suc n" using Suc.prems(2) by (cases fuel) auto
      ultimately show ?thesis using Suc.prems(1) \<open>rest = []\<close> calm ended_k
        by (simp add: read_chunk_def)
    next
      case False
      then have "k < K" using by_K by (meson not_le)
      then have "copy_loop fuel X True (Suc k) sent = Some final"
        using Suc.prems(2) next_bytes by (intro Suc.IH [of _ _ "rest @ more"]) auto
      then show ?thesis using Suc.prems(1) True False calm by simp
    qed
  qed
qed simp

lemma copy_loop_start:
  assumes "output_settles X K final" and "(K - k) + length final + 2 \<le> fuel"
  shows "copy_loop fuel X True k [] = Some final"
  using output_prefix [OF assms(1), of k] assms by (auto intro: copy_loop_complete)

lemma await_file_complete:
  assumes "output_settles X K final" and "(K - k) + length final + 3 \<le> fuel"
  shows "await_file fuel X k = Some final"
  using assms(2)
proof (induction fuel arbitrary: k)
  case (Suc fuel)
  have calm: "\<not> oe_gone X k" "\<not> isl (oe_mission X k)" "oe_open X k = Inr () \<or> oe_open X k = Inl ErrNotFound"
    using assms(1) by (auto simp: output_settles_def)
  show ?case
  proof (cases "oe_open X k = Inr ()")
    case True
    then show ?thesis using calm copy_loop_start [OF assms(1), of "Suc k" fuel] Suc.prems by simp
  next
    case False
    then have "\<not> mission_ended (oe_mission X k)" using assms(1) by (auto simp: output_settles_def)
    moreover from this have "k < K" using assms(1) by (metis not_le output_settles_def)
    ultimately show ?thesis using False calm Suc.IH [of "Suc k"] Suc.prems by auto
  qed
qed simp

section \<open>Isolation of the two kinds\<close>

text \<open>
  Two worlds look the same to a scope when they have the same rows and files for the kind of
  mission it may see, and of the others the same identifiers, marked for deletion or not.
\<close>

definition may_see :: "scope \<Rightarrow> mission \<Rightarrow> bool" where
  "may_see sc m \<longleftrightarrow> sc = ScopeAdmin \<or> sc = ScopeDispatch \<and> msn_Kind m = KindMission \<or> sc = ScopeExec \<and> msn_Kind m = KindExec"

definition alike :: "scope \<Rightarrow> mission \<Rightarrow> mission \<Rightarrow> bool" where
  "alike sc m m' \<longleftrightarrow>
     msn_ID m = msn_ID m' \<and> msn_Kind m = msn_Kind m' \<and>
     (msn_Status m = StatusDeleting \<longleftrightarrow> msn_Status m' = StatusDeleting) \<and> (may_see sc m \<longrightarrow> m = m')"

definition looks_same :: "scope \<Rightarrow> world \<Rightarrow> world \<Rightarrow> bool" where
  "looks_same sc w w' \<longleftrightarrow>
     list_all2 (alike sc) (missions (wd_db w)) (missions (wd_db w')) \<and>
     config_row (wd_db w) = config_row (wd_db w') \<and>
     staging_files (wd_db w) = staging_files (wd_db w') \<and>
     (\<forall>m \<in> set (missions (wd_db w)). may_see sc m \<longrightarrow>
        RefsByMission (msn_ID m) (wd_db w) = RefsByMission (msn_ID m) (wd_db w') \<and>
        wd_events w (msn_ID m) = wd_events w' (msn_ID m))"

text \<open>A procedure that reads both worlds alike and changes neither.\<close>

definition agree :: "world \<Rightarrow> world \<Rightarrow> 'a proc \<Rightarrow> bool" where
  "agree w w' m \<longleftrightarrow> (\<forall>fs. \<exists>r fs'. m fs w = (r, fs', w) \<and> m fs w' = (r, fs', w'))"

lemma agree_ret: "agree w w' (ret x)"
  by (simp add: agree_def ret_def)

lemma agree_query: "q (wd_db w) = q (wd_db w') \<Longrightarrow> agree w w' (query q)"
  by (auto simp: agree_def query_def effect_def next_fate_def split: list.splits fate.splits)

lemma agree_attempt: "agree w w' m \<Longrightarrow> agree w w' (attempt m)"
proof -
  assume ag: "agree w w' m"
  have "\<exists>r fs'. attempt m fs w = (r, fs', w) \<and> attempt m fs w' = (r, fs', w')" for fs
  proof -
    obtain r fs' where "m fs w = (r, fs', w)" "m fs w' = (r, fs', w')" using ag unfolding agree_def by blast
    then show ?thesis by (cases r) (auto simp: attempt_def)
  qed
  then show ?thesis by (simp add: agree_def)
qed

lemma agree_bind:
  assumes "agree w w' m" and "\<And>fs fs' x. m fs w = (Ret x, fs', w) \<Longrightarrow> agree w w' (k x)"
  shows "agree w w' (bindM m k)"
proof -
  have "\<exists>r fs'. bindM m k fs w = (r, fs', w) \<and> bindM m k fs w' = (r, fs', w')" for fs
  proof -
    obtain r fs1 where run: "m fs w = (r, fs1, w)" "m fs w' = (r, fs1, w')" using assms(1) unfolding agree_def by blast
    show ?thesis
    proof (cases r)
      case (Ret x)
      with assms(2) run have "agree w w' (k x)" by blast
      with run Ret show ?thesis by (auto simp: bindM_def agree_def)
    qed (use run in \<open>auto simp: bindM_def\<close>)
  qed
  then show ?thesis by (simp add: agree_def)
qed

lemmas agree_intros = agree_ret agree_attempt agree_bind

lemma agree_join_refs:
  assumes "staging_files (wd_db w) = staging_files (wd_db w')"
  shows "agree w w' (join_refs rs inputs outputs)"
proof (induction rs arbitrary: inputs outputs)
  case (Cons r rs)
  have "GetStaging (ref_StagingID r) (wd_db w) = GetStaging (ref_StagingID r) (wd_db w')"
    using assms by (simp add: GetStaging_def find_staging_def)
  then show ?case using Cons
    by (auto simp: Let_def intro!: agree_intros agree_query split: sum.split ref_kind.split)
qed (simp add: agree_ret)

lemma agree_build:
  assumes "staging_files (wd_db w) = staging_files (wd_db w')"
    and "RefsByMission (msn_ID m) (wd_db w) = RefsByMission (msn_ID m) (wd_db w')"
  shows "agree w w' (buildMissionResponse m)"
proof -
  have refs: "agree w w' (query (\<lambda>d. Inr (RefsByMission (msn_ID m) d)))"
    by (rule agree_query) (simp add: assms(2))
  show ?thesis
    unfolding buildMissionResponse_def
    by (rule agree_bind [OF refs], rule agree_bind [OF agree_join_refs [OF assms(1)]])
      (simp only: split_beta agree_ret)
qed

lemma alike_ID: "alike sc m m' \<Longrightarrow> msn_ID m = msn_ID m'"
  by (simp add: alike_def)

lemma find_alike:
  "list_all2 (alike sc) ms ms' \<Longrightarrow>
     rel_option (alike sc) (find (\<lambda>m. msn_ID m = mid) ms) (find (\<lambda>m. msn_ID m = mid) ms')"
  by (induction rule: list_all2_induct) (simp_all add: alike_ID)

lemma kindAllowed_may_see: "kindAllowedForCtx (Some sc) m = (may_see sc m, False)"
  by (cases sc) (auto simp: kindAllowedForCtx_def may_see_def)

lemma gate_may_see:
  "RequireKindForScope (Some sc) m = (if may_see sc m then None else Some (WriteError 403 ''forbidden_kind'' None))"
  by (simp add: RequireKindForScope_def kindAllowed_may_see)

definition verdict :: "reply \<Rightarrow> scope \<Rightarrow> error + mission \<Rightarrow> reply + mission" where
  "verdict del sc r =
     (case r of
        Inl e \<Rightarrow> Inl (if e = ErrNotFound then WriteError 404 ''not_found'' None else WriteDBError 500)
      | Inr m \<Rightarrow>
          if msn_Status m = StatusDeleting then Inl del
          else if may_see sc m then Inr m else Inl (WriteError 403 ''forbidden_kind'' None))"

lemma visible_mission_verdict:
  "visible_mission del (Some sc) mid = bindM (attempt (query (GetMission mid))) (\<lambda>r. ret (verdict del sc r))"
  unfolding visible_mission_def gate_may_see
  by (rule arg_cong [of _ _ "bindM _"]) (auto simp: verdict_def fun_eq_iff split: sum.split)

lemma attempt_query_fate:
  "attempt (query q) fs w =
     (case next_fate fs of (f, fs') \<Rightarrow>
        (case f of FCrash _ \<Rightarrow> Crash | FErr n \<Rightarrow> Ret (Inl (ErrSqlite (int n))) | _ \<Rightarrow> Ret (q (wd_db w)), fs', w))"
  by (cases "q (wd_db w)") (simp_all add: attempt_def query_def effect_def sum_res_def split: prod.split fate.split)

lemma verdict_alike:
  assumes "alike sc m m'"
  shows "verdict del sc (Inr m) = verdict del sc (Inr m')"
proof (cases "may_see sc m")
  case True
  then have "m = m'" using assms unfolding alike_def by blast
  then show ?thesis by (simp only:)
next
  case False
  have kind: "msn_Kind m = msn_Kind m'" and st: "msn_Status m = StatusDeleting \<longleftrightarrow> msn_Status m' = StatusDeleting"
    using assms unfolding alike_def by blast+
  have "\<not> may_see sc m'" using False unfolding may_see_def kind .
  with False st show ?thesis unfolding verdict_def by simp
qed

lemma agree_visible_mission:
  assumes "looks_same sc w w'"
  shows "agree w w' (visible_mission del (Some sc) mid)"
proof -
  have "rel_option (alike sc) (find_mission mid (wd_db w)) (find_mission mid (wd_db w'))"
    using assms by (simp add: looks_same_def find_mission_def sql_find_def find_alike)
  then have "verdict del sc (GetMission mid (wd_db w)) = verdict del sc (GetMission mid (wd_db w'))"
    by (cases "find_mission mid (wd_db w)"; cases "find_mission mid (wd_db w')")
      (simp_all add: GetMission_def verdict_alike)
  then show ?thesis
    by (simp add: agree_def visible_mission_verdict bindM_def attempt_query_fate ret_def split: prod.split fate.split)
qed

lemma visible_mission_Inr:
  assumes "visible_mission del (Some sc) mid fs w = (Ret (Inr m), fs', w)"
  shows "m \<in> set (missions (wd_db w))" and "may_see sc m" and "msn_ID m = mid"
proof -
  have "verdict del sc (GetMission mid (wd_db w)) = Inr m"
    using assms by (auto simp: visible_mission_verdict bindM_def attempt_query_fate ret_def verdict_def [of _ _ "Inl _"]
        split: prod.splits fate.splits if_splits)
  then have "find_mission mid (wd_db w) = Some m" "may_see sc m"
    by (auto simp: verdict_def GetMission_def split: option.splits if_splits)
  then show "m \<in> set (missions (wd_db w))" "may_see sc m" "msn_ID m = mid"
    by (auto simp: find_mission_def sql_find_def find_Some_iff)
qed

lemma filter_may_see: "(kindFilterForCtx (Some sc) \<noteq> [] \<longrightarrow> kind_text (msn_Kind m) = kindFilterForCtx (Some sc)) \<longleftrightarrow> may_see sc m"
  by (cases sc; cases "msn_Kind m") (simp_all add: kindFilterForCtx_def may_see_def)

lemma count_rows_alike:
  assumes "looks_same sc w w'"
  shows "count_rows (kindFilterForCtx (Some sc)) P (wd_db w) = count_rows (kindFilterForCtx (Some sc)) P (wd_db w')"
proof -
  have "filter (\<lambda>m. P m \<and> may_see sc m) ms = filter (\<lambda>m. P m \<and> may_see sc m) ms'" if "list_all2 (alike sc) ms ms'" for ms ms'
    using that
  proof (induction rule: list_all2_induct)
    case (Cons m ms m' ms')
    show ?case
    proof (cases "may_see sc m")
      case True
      then have "m = m'" using Cons.hyps unfolding alike_def by blast
      then show ?thesis using Cons.IH by (simp only: filter.simps)
    next
      case False
      have kind: "msn_Kind m = msn_Kind m'" using Cons.hyps unfolding alike_def by blast
      have "\<not> may_see sc m'" using False unfolding may_see_def kind .
      with False show ?thesis using Cons.IH by simp
    qed
  qed simp
  then show ?thesis using assms unfolding count_rows_def filter_may_see looks_same_def by metis
qed

lemma agree_events:
  assumes "wd_events w mid = wd_events w' mid"
  shows "agree w w' (\<lambda>fs w. (Ret (Granted (Stream from (wd_events w mid))), fs, w))"
  by (simp add: agree_def assms)

text \<open>Whatever the database does, no answer tells two such worlds apart.\<close>

lemma GetByID_agree:
  assumes "looks_same sc w w'"
  shows "agree w w' (GetByID (Some sc) mid)"
proof -
  have "agree w w' (case v of Inl rep \<Rightarrow> ret (Refused rep)
        | Inr m \<Rightarrow> bindM (attempt (buildMissionResponse m)) (\<lambda>b.
            case b of Inl _ \<Rightarrow> ret (Refused (WriteDBError 500)) | Inr resp \<Rightarrow> ret (Granted resp)))"
    if run: "visible_mission del (Some sc) mid fs w = (Ret v, fs', w)" for del v fs fs'
  proof (cases v)
    case (Inr m)
    have "agree w w' (buildMissionResponse m)"
      using assms visible_mission_Inr [OF run [unfolded Inr]] by (intro agree_build) (auto simp: looks_same_def)
    then show ?thesis unfolding Inr sum.case
      by (rule agree_bind [OF agree_attempt]) (simp add: agree_ret split: sum.split)
  qed (simp add: agree_ret)
  then show ?thesis unfolding GetByID_def
    by (simp add: agree_ret agree_bind [OF agree_visible_mission [OF assms]])
qed

lemma EventsHandler_agree:
  assumes "looks_same sc w w'"
  shows "agree w w' (EventsHandler_Stream (Some sc) mid follow_text from_text polls)"
proof -
  have ev: "wd_events w mid = wd_events w' mid" if "visible_mission del (Some sc) mid fs w = (Ret (Inr m), fs', w)" for del m fs fs'
    using assms visible_mission_Inr [OF that] by (auto simp: looks_same_def)
  show ?thesis unfolding EventsHandler_Stream_def Let_def
    by (auto intro!: agree_ret agree_bind [OF agree_visible_mission [OF assms]] agree_events ev split: sum.split option.split)
qed

lemma OutputHandler_agree:
  assumes "looks_same sc w w'"
  shows "agree w w' (OutputHandler_Stream fuel X (Some sc) mid stream follow_text)"
  unfolding OutputHandler_Stream_def Let_def
  by (auto intro!: agree_ret agree_bind [OF agree_visible_mission [OF assms]] split: sum.split option.split)

lemma Dugdale_agree:
  assumes "looks_same sc w w'"
  shows "agree w w' (Inspect_Dugdale (Some sc))"
proof -
  have cfg: "agree w w' (attempt (query GetAppliedConfig))"
    using assms by (intro agree_attempt agree_query) (simp add: GetAppliedConfig_def looks_same_def)
  show ?thesis unfolding Inspect_Dugdale_def
    by (rule agree_bind [OF cfg])
      (auto intro!: agree_ret agree_bind agree_attempt agree_query simp: count_rows_alike [OF assms] split: sum.split)
qed

lemma Lanes_agree:
  assumes "looks_same sc w w'"
  shows "agree w w' (Inspect_Lanes mg (Some sc))"
  unfolding Inspect_Lanes_def
  by (auto intro!: agree_ret agree_bind agree_attempt agree_query simp: count_rows_alike [OF assms] split: sum.split)

text \<open>What an endpoint promises: it answers by what the scope of its caller may see, and only reads.\<close>

locale isolated =
  fixes h :: "scope \<Rightarrow> 'a proc"
  assumes blind: "looks_same sc w w' \<Longrightarrow> agree w w' (h sc)"
begin

lemma same_answer: "looks_same sc w w' \<Longrightarrow> fst (h sc fs w) = fst (h sc fs w')"
  using blind [of sc w w'] unfolding agree_def by (metis fst_conv)

lemma only_reads: "snd (snd (h sc fs w)) = w"
proof -
  have "looks_same sc w w" by (simp add: looks_same_def alike_def list_all2_same)
  from blind [OF this] show ?thesis unfolding agree_def by (metis snd_conv)
qed

end

interpretation mission_view: isolated "\<lambda>sc. GetByID (Some sc) mid" for mid
  by unfold_locales (rule GetByID_agree)

interpretation events_view: isolated "\<lambda>sc. EventsHandler_Stream (Some sc) mid follow_text from_text polls"
  for mid follow_text from_text polls
  by unfold_locales (rule EventsHandler_agree)

interpretation output_view: isolated "\<lambda>sc. OutputHandler_Stream fuel X (Some sc) mid stream follow_text"
  for fuel X mid stream follow_text
  by unfold_locales (rule OutputHandler_agree)

interpretation summary_view: isolated "\<lambda>sc. Inspect_Dugdale (Some sc)"
  by unfold_locales (rule Dugdale_agree)

interpretation lanes_view: isolated "\<lambda>sc. Inspect_Lanes mg (Some sc)" for mg
  by unfold_locales (rule Lanes_agree)

text \<open>A follower of the output of a mission that ends receives all of it.\<close>

lemma OutputHandler_follow:
  assumes "output_settles X K final" and "K + length final + 3 \<le> fuel"
    and "ValidateUUIDv7 mid" and "streamSpec stream = Some (suffix, ct)" and "force_param follow_text"
    and "find_mission mid (wd_db w) = Some m" and "msn_Status m \<noteq> StatusDeleting" and "may_see sc m"
  shows "OutputHandler_Stream fuel X (Some sc) mid stream follow_text [] w = (Ret (Granted (ct, Some final)), [], w)"
proof -
  have vis: "visible_mission del (Some sc) mid [] w = (Ret (Inr m), [], w)" for del
    using assms(6,7,8)
    by (simp add: visible_mission_verdict bindM_def attempt_query_fate next_fate_def ret_def GetMission_def verdict_def)
  have "oe_open X 0 = Inr () \<or> oe_open X 0 = Inl ErrNotFound" using assms(1) by (auto simp: output_settles_def)
  moreover have "copy_loop fuel X True 1 [] = Some final" "await_file fuel X 1 = Some final"
    using assms(1,2) by (auto intro: copy_loop_start await_file_complete)
  moreover have "\<exists>s. ShardPath mid = Inr s" using assms(3) by (simp add: ShardPath_def)
  ultimately show ?thesis using assms(3,4,5) vis
    by (auto simp: OutputHandler_Stream_def bindM_def ret_def)
qed

end
