(* ===== verification/Client.thy ===== *)
theory Client
  imports Upload
begin

text \<open>
  The client library (\<^verbatim>\<open>pkg/lettsclient\<close>): the retry policies (\<^verbatim>\<open>retry.go\<close>, \<^verbatim>\<open>client.go\<close>), the dispatch
  of a mission (\<^verbatim>\<open>dispatch.go\<close>) and the upload of a file (\<^verbatim>\<open>staging.go\<close>, \<^verbatim>\<open>upload.go\<close>) over a network that
  may lose a request, lose its reply or cut the reply short.  A policy is given the single attempt
  as a function of its number and of the state of the rest of the system.
\<close>

section \<open>Errors\<close>

text \<open>\<^verbatim>\<open>HTTPError\<close> with its status and code; the others are what \<^verbatim>\<open>http.Client\<close> and the JSON decoder report.\<close>

datatype client_error = NetError | DecodeError | HTTPError nat string

definition definitiveServerCodes :: "string list" where
  "definitiveServerCodes =
     [''queue_full'', ''draining'', ''disk_quota_exceeded'', ''lane_removing'', ''no_lanes_configured'']"

section \<open>Waiting\<close>

definition DefaultBackoffMs :: "int list" where
  "DefaultBackoffMs = [100, 500, 2000]"

definition backoffFor :: "int list \<Rightarrow> nat \<Rightarrow> int" where
  "backoffFor BackoffMs n =
     (let cadence = (if BackoffMs = [] then DefaultBackoffMs else BackoffMs);
          n = (if n \<ge> length cadence then length cadence - 1 else n)
      in cadence ! n * 1000000)"

text \<open>
  The pause for \<open>d\<close> nanoseconds, with the random number that was drawn below the bound and the
  sign; a bound of at least one keeps \<^verbatim>\<open>rand.Int64N\<close> from panicking.
\<close>

definition jitter_bound :: "int \<Rightarrow> int" where
  "jitter_bound d = (if d div 5 < 1 then 1 else d div 5)"

definition sleepWithJitter :: "int \<Rightarrow> int \<Rightarrow> bool \<Rightarrow> int" where
  "sleepWithJitter d drawn negative =
     (if d \<le> 0 then 0 else d + (if negative then - drawn else drawn))"

section \<open>Retry\<close>

text \<open>
  The loop of both policies: attempts \<open>i\<close>, \<open>i + 1\<close>, \<dots> until one succeeds, fails with an error
  that \<open>stop\<close> takes as final, or \<open>n\<close> have been made.  The result has the pauses, without jitter.
\<close>

fun attempts_from ::
  "(client_error \<Rightarrow> bool) \<Rightarrow> (nat \<Rightarrow> int) \<Rightarrow> (nat \<Rightarrow> 's \<Rightarrow> (client_error + 'a) \<times> 's) \<Rightarrow> nat \<Rightarrow> nat \<Rightarrow> client_error \<Rightarrow> 's
   \<Rightarrow> (client_error + 'a) \<times> 's \<times> int list"
where
  "attempts_from stop backoff send 0 i lastErr s = (Inl lastErr, s, [])"
| "attempts_from stop backoff send (Suc n) i lastErr s =
     (case send i s of
        (Inr x, s') \<Rightarrow> (Inr x, s', [])
      | (Inl e, s') \<Rightarrow>
          if stop e then (Inl e, s', [])
          else case attempts_from stop backoff send n (Suc i) e s' of
                 (r, s'', waits) \<Rightarrow> (r, s'', if n > 0 then backoff i # waits else waits))"

definition sticky_stop :: "client_error \<Rightarrow> bool" where
  "sticky_stop e = (case e of HTTPError status code \<Rightarrow> status < 500 \<or> code \<in> set definitiveServerCodes | _ \<Rightarrow> False)"

definition RetryClient_DoJSON ::
  "int \<Rightarrow> int list \<Rightarrow> (nat \<Rightarrow> 's \<Rightarrow> (client_error + 'a) \<times> 's) \<Rightarrow> 's \<Rightarrow> (client_error + 'a) \<times> 's \<times> int list"
where
  "RetryClient_DoJSON MaxRetries BackoffMs send s =
     attempts_from sticky_stop (backoffFor BackoffMs) send (if MaxRetries < 1 then 1 else nat MaxRetries) 0 NetError s"

definition stickyRetry ::
  "(nat \<Rightarrow> 's \<Rightarrow> (client_error + 'a) \<times> 's) \<Rightarrow> 's \<Rightarrow> (client_error + 'a) \<times> 's \<times> int list"
where
  "stickyRetry = RetryClient_DoJSON 3 DefaultBackoffMs"

datatype http_method = GET | HEAD | POST | PUT | DELETE

definition readRetryAttempts :: nat where
  "readRetryAttempts = 2"

definition Client_DoJSON ::
  "bool \<Rightarrow> http_method \<Rightarrow> bool \<Rightarrow> (nat \<Rightarrow> 's \<Rightarrow> (client_error + 'a) \<times> 's) \<Rightarrow> 's \<Rightarrow> (client_error + 'a) \<times> 's \<times> int list"
where
  "Client_DoJSON retryReads method hasBody once s =
     attempts_from (\<lambda>e. case e of HTTPError status _ \<Rightarrow> status < 500 | _ \<Rightarrow> False) (\<lambda>_. 200 * 1000000) once
       (if retryReads \<and> \<not> hasBody \<and> (method = GET \<or> method = HEAD) then readRetryAttempts else 1) 0 NetError s"

section \<open>Dispatch\<close>

text \<open>What becomes of a request and its reply on the way.\<close>

datatype network = NeverArrives | ReplyLost | ReplyCut | ReplyArrives

text \<open>
  \<^verbatim>\<open>doJSONOnce\<close> and \<^verbatim>\<open>decodeHTTPError\<close> on a reply of the dispatch endpoint: an error reply whose body is
  cut short has no code.
\<close>

fun decode_reply :: "bool \<Rightarrow> reply \<Rightarrow> client_error + string \<times> string" where
  "decode_reply trunc (WriteError n code _) = Inl (HTTPError n (if trunc then [] else code))"
| "decode_reply trunc (WriteJSON n mid st) =
     (if n div 100 \<noteq> 2 then Inl (HTTPError n []) else if trunc then Inl DecodeError else Inr (mid, st))"

text \<open>
  One attempt: what others do before it, what the daemon meets while it serves it, and the
  network.  A daemon that crashes drops the connection.  The state is the world and the replies
  the daemon has written so far.
\<close>

record attempt_env =
  at_before :: "world \<Rightarrow> world"
  at_handler :: handler_env
  at_others :: "world \<Rightarrow> world"
  at_manager :: manager
  at_manager' :: manager
  at_fates :: "fate list"
  at_network :: network

definition post_dispatch ::
  "string \<Rightarrow> DispatchRequest body \<Rightarrow> attempt_env \<Rightarrow> world \<times> reply list \<Rightarrow>
   (client_error + string \<times> string) \<times> world \<times> reply list"
where
  "post_dispatch key b A s =
     (case s of (w, replies) \<Rightarrow>
        let w = at_before A w
        in if at_network A = NeverArrives then (Inl NetError, w, replies)
           else case Dispatch (at_handler A) (at_others A) (at_manager A) (at_manager' A) key b (at_fates A) w of
                  (Ret (rep, _), _, w') \<Rightarrow>
                    (if at_network A = ReplyLost then Inl NetError else decode_reply (at_network A = ReplyCut) rep,
                     w', replies @ [rep])
                | (_, _, w') \<Rightarrow> (Inl NetError, w', replies))"

definition lettsclient_Dispatch ::
  "string \<Rightarrow> DispatchRequest body \<Rightarrow> (nat \<Rightarrow> attempt_env) \<Rightarrow> world \<Rightarrow>
   (client_error + string \<times> string) \<times> (world \<times> reply list) \<times> int list"
where
  "lettsclient_Dispatch key b A w = stickyRetry (\<lambda>i. post_dispatch key b (A i)) (w, [])"

section \<open>What the replies of the endpoint say\<close>

text \<open>An error has a status of at least 400; a success names the key and there is a row.\<close>

definition honest :: "string \<Rightarrow> reply \<Rightarrow> world \<Rightarrow> bool" where
  "honest key rep w \<longleftrightarrow>
     (case rep of
        WriteError n _ _ \<Rightarrow> 400 \<le> n
      | WriteJSON n mid _ \<Rightarrow> mid = key \<and> (n = 202 \<or> n = 200 \<and> find_mission key (wd_db w) \<noteq> None))"

abbreviation anyhow :: "world \<Rightarrow> bool" where
  "anyhow w \<equiv> True"

lemma triple_anyhow: "triple P any m (\<lambda>_. anyhow) anyhow"
  by (auto simp: triple_def list_all_iff split: prod.split res.split)

lemma honest_errors [simp]:
  "honest key (WriteError n c t) w \<longleftrightarrow> 400 \<le> n" "honest key (WriteDBError 500) w" "honest key (WriteIOError 500 e) w"
  "honest key (insert_error_reply e) w"
  by (simp_all add: honest_def WriteDBError_def WriteIOError_def insert_error_reply_def)

definition says :: "string \<Rightarrow> reply + 'a \<Rightarrow> bool" where
  "says key q \<longleftrightarrow> (\<forall>rep. q = Inl rep \<longrightarrow> (\<forall>w. honest key rep w))"

lemma says_simps [simp]: "says key (Inr x)" "says key (Inl rep) \<longleftrightarrow> (\<forall>w. honest key rep w)"
  by (simp_all add: says_def)

lemma open_queued_honest: "triple anyhow any (open_queued H mid) (\<lambda>q _. says key q) anyhow"
proof -
  have again: "triple anyhow any (bindM (attempt (create_events mid)) (\<lambda>r2.
             case r2 of
               Inl e \<Rightarrow> ret (Inl (WriteIOError 500 e))
             | Inr (Some ew) \<Rightarrow> ret (Inr ew)
             | Inr None \<Rightarrow> ret (Inl (WriteIOError 500 ErrIO)))) (\<lambda>q _. says key q) anyhow"
    by (rule triple_bind [OF triple_anyhow]) (auto intro!: triple_ret split: sum.split option.split)
  show ?thesis
    unfolding open_queued_def
    by (rule triple_bind [OF triple_anyhow])
      (auto intro!: triple_ret triple_bind [OF triple_anyhow again] split: sum.split option.split)
qed

lemma write_queued_honest: "triple anyhow any (write_queued H mid fs) (\<lambda>q _. says key q) anyhow"
proof -
  have rest: "triple (\<lambda>_. says key opened) any (case opened of
               Inl rep \<Rightarrow> ret (Inl rep)
             | Inr ew \<Rightarrow>
                 bindM (attempt (append_line (he_msize H) mid KindQueued fs (SetLimits (he_limits H) ew))) (\<lambda>a.
                   case a of
                     Inl e \<Rightarrow> bindM (remove_events mid) (\<lambda>_. ret (Inl (WriteIOError 500 e)))
                   | Inr _ \<Rightarrow> ret (Inr ()))) (\<lambda>q _. says key q) anyhow" for opened :: "reply + writer"
    by (cases opened) (auto intro!: triple_ret triple_bind [OF triple_anyhow] split: sum.split)
  show ?thesis
    unfolding write_queued_def
    by (rule triple_bind [OF triple_anyhow])
      (auto intro!: triple_ret triple_bind [OF open_queued_honest rest] split: sum.split)
qed

lemma lane_ready_honest: "triple anyhow any (lane_ready mg lane) (\<lambda>q _. says key q) anyhow"
  unfolding lane_ready_def
  by (rule triple_bind [OF triple_anyhow]) (auto intro!: triple_ret split: option.split)

lemma backpressure_honest:
  "triple anyhow any (backpressure H lane) (\<lambda>q _. \<forall>rep. q = Some rep \<longrightarrow> (\<forall>w. honest key rep w)) anyhow"
  unfolding backpressure_def
  by (rule triple_bind [OF triple_anyhow]) (auto intro!: triple_ret triple_bind [OF triple_anyhow] split: if_splits)

lemma dispatch_commit_honest:
  "msn_ID m = key \<Longrightarrow> triple anyhow any (dispatch_commit H g mg m files applied) (\<lambda>p w. honest key (fst p) w) anyhow"
  unfolding dispatch_commit_def
  by (rule triple_bind [OF write_queued_honest [where key = key]])
    (auto intro!: triple_ret triple_bind [OF triple_anyhow] simp: honest_def [of _ "WriteJSON _ _ _"] split: sum.split)

lemma dispatch_new_honest:
  "triple anyhow any (dispatch_new H g mg mg' key req inp t files fp) (\<lambda>p w. honest key (fst p) w) anyhow"
proof -
  have commit: "triple P any (dispatch_commit H g mg' (queued_row key k l n i f now t) files s) (\<lambda>p w. honest key (fst p) w) anyhow"
    for P k l n i f now t s
    by (rule triple_conseq [OF dispatch_commit_honest]) (simp_all add: queued_row_def)
  have bp: "triple P any (backpressure H lane) (\<lambda>q _. \<forall>rep. q = Some rep \<longrightarrow> (\<forall>w. honest key rep w)) anyhow" for P lane
    by (rule triple_conseq [OF backpressure_honest [where key = key]]) simp_all
  have room: "triple P any (bindM (backpressure H lane) (\<lambda>b.
        case b of Some rep \<Rightarrow> ret (rep, mg') | None \<Rightarrow> dispatch_commit H g mg' (queued_row key k l n i f now t) files s))
      (\<lambda>p w. honest key (fst p) w) anyhow" for P lane k l n i f now t s
    by (rule triple_bind [OF bp]) (auto intro!: triple_ret commit split: option.split)
  have ready: "triple (\<lambda>_. says key a) any (case a of Inl rep \<Rightarrow> ret (rep, mg') | Inr applied \<Rightarrow> bindM (backpressure H lane) (\<lambda>b.
        case b of Some rep \<Rightarrow> ret (rep, mg') | None \<Rightarrow> dispatch_commit H g mg' (queued_row key k l n i f now t) files applied))
      (\<lambda>p w. honest key (fst p) w) anyhow" for a lane k l n i f now t
    by (cases a) (auto intro!: triple_ret room)
  show ?thesis
    unfolding dispatch_new_def
    by (cases "int (length inp) > he_MaxMissionInputSize H")
      (simp_all add: triple_ret triple_bind [OF lane_ready_honest ready])
qed

lemma Dispatch_honest: "triple anyhow any (Dispatch H g mg mg' key b) (\<lambda>p w. honest key (fst p) w) anyhow"
proof (cases "dispatch_gates H key b")
  case (Inl rep)
  then have "honest key rep w" for w by (auto simp: dispatch_gates_def split: if_splits body.splits)
  with Inl show ?thesis by (simp add: Dispatch_def triple_ret)
next
  case (Inr req)
  have found: "GetMission key d = Inr m \<longleftrightarrow> find_mission key d = Some m" for d m
    by (simp add: GetMission_def split: option.split)
  have resolved: "triple anyhow any (dispatch_resolved H g mg mg' key req c t files) (\<lambda>p w. honest key (fst p) w) anyhow" for c t files
    unfolding dispatch_resolved_def
    by (auto intro!: triple_ret triple_asked triple_conseq [OF dispatch_new_honest]
        simp: found replay_reply_def honest_def [of _ "WriteJSON _ _ _"] split: option.split sum.split)
  have gone: "triple anyhow any (bindM (replay_unavailable key) (\<lambda>rep. ret (rep, mg'))) (\<lambda>p w. honest key (fst p) w) anyhow"
    by (rule triple_bind [where Q = "honest key"], unfold replay_unavailable_def)
      (auto intro!: triple_ret triple_asked simp: found honest_def [of _ "WriteJSON _ _ _"] split: sum.split)
  show ?thesis
  proof (cases "dispatch_input H req")
    case inl: (Inl rep)
    then have "honest key rep w" for w by (auto simp: dispatch_input_def split: option.splits sum.splits)
    with Inr inl show ?thesis by (simp add: Dispatch_def triple_ret)
  next
    case inp: (Inr p)
    show ?thesis
      unfolding Dispatch_def Inr inp sum.case
      by (cases p, simp only: prod.case)
        (auto intro!: triple_bind [OF triple_anyhow] triple_ret gone resolved split: sum.split resolve_error.split)
  qed
qed

section \<open>A dispatch creates at most one mission\<close>

lemma attempts_from_inv:
  assumes step: "\<And>i s r s'. I s \<Longrightarrow> send i s = (r, s') \<Longrightarrow> I s' \<and> (\<forall>x. r = Inr x \<longrightarrow> Q x s')"
    and "I s" and "attempts_from stop backoff send n i e s = (r, s', waits)"
  shows "I s' \<and> (\<forall>x. r = Inr x \<longrightarrow> Q x s')"
  using assms(2,3)
proof (induction n arbitrary: i e s r s' waits)
  case (Suc n)
  obtain r1 s1 where run: "send i s = (r1, s1)" by fastforce
  show ?case
  proof (cases r1)
    case (Inl e1)
    show ?thesis
    proof (cases "stop e1")
      case False
      with Suc.prems(2) run Inl obtain w2 where "attempts_from stop backoff send n (Suc i) e1 s1 = (r, s', w2)"
        by (auto split: prod.splits)
      with Suc.IH step [OF Suc.prems(1) run] show ?thesis by blast
    qed (use Suc.prems run Inl step [OF Suc.prems(1) run] in auto)
  qed (use Suc.prems run step [OF Suc.prems(1) run] in auto)
qed auto

lemma attempts_from_waits:
  "attempts_from stop backoff send n i e s = (r, s', waits) \<Longrightarrow> \<exists>k. waits = map backoff [i..<i + k] \<and> (k < n \<or> k = 0)"
proof (induction n arbitrary: i e s r s' waits)
  case (Suc n)
  obtain r1 s1 where run: "send i s = (r1, s1)" by fastforce
  show ?case
  proof (cases "waits = []")
    case False
    with Suc.prems run obtain e1 w2 where rest: "attempts_from stop backoff send n (Suc i) e1 s1 = (r, s', w2)"
      and n: "n > 0" and w: "waits = backoff i # w2"
      by (auto split: prod.splits sum.splits if_splits dest: Suc.IH)
    from Suc.IH [OF rest] obtain k where k: "w2 = map backoff [Suc i..<Suc i + k]" "k < n \<or> k = 0" by blast
    moreover have "[i..<i + Suc k] = i # [Suc i..<Suc i + k]" by (subst upt_conv_Cons) (simp_all del: upt_Suc)
    ultimately have "waits = map backoff [i..<i + Suc k]" by (simp add: w del: upt_Suc)
    with k(2) n show ?thesis by (intro exI [of _ "Suc k"]) auto
  qed auto
qed simp

definition accepted :: "reply list \<Rightarrow> nat" where
  "accepted replies = length (filter (\<lambda>rep. reply_status rep = 202) replies)"

lemma accepted_simps [simp]: "accepted [] = 0" "accepted (xs @ [x]) = accepted xs + (if reply_status x = 202 then 1 else 0)"
  by (simp_all add: accepted_def)

definition once_inv :: "string \<Rightarrow> world \<times> reply list \<Rightarrow> bool" where
  "once_inv key s \<longleftrightarrow>
     fin_inv (fst s) \<and> accepted (snd s) = (if find_mission key (wd_db (fst s)) = None then 0 else 1)"

text \<open>What others do around an attempt leaves the row of the key and its events file alone.\<close>

definition left_alone :: "string \<Rightarrow> attempt_env \<Rightarrow> bool" where
  "left_alone key A \<longleftrightarrow> steady (\<lambda>_. True) key (at_before A) \<and> steady (\<lambda>_. True) key (at_others A)"

lemma Dispatch_once:
  assumes inv: "fin_inv w" and st: "steady (\<lambda>_. True) key g" and run: "Dispatch H g mg mg' key b fs w = (r, fs', w')"
  shows "fin_inv w' \<and>
    (if find_mission key (wd_db w) \<noteq> None then w' = w \<and> (\<forall>rep mg1. r = Ret (rep, mg1) \<longrightarrow> reply_status rep \<noteq> 202)
     else if \<exists>rep mg1. r = Ret (rep, mg1) \<and> reply_status rep = 202 then find_mission key (wd_db w') \<noteq> None
     else find_mission key (wd_db w') = None)"
proof -
  have fs: "list_all any fs" by (simp add: list_all_iff)
  show ?thesis
  proof (cases "find_mission key (wd_db w)")
    case None
    let ?D = "\<lambda>d. find_mission key d = None"
    have "steady ?D key g" using st by (simp add: steady_def)
    from tripleD [OF Dispatch_outcome [OF this] _ fs run] None inv
    have "case r of Ret p \<Rightarrow> (\<exists>req. b = Body req \<and> dispatch_outcome ?D H key req p w') \<or> base ?D w' \<and> refused (fst p)
        | _ \<Rightarrow> base ?D w'" by (auto split: res.splits)
    moreover have "fin_inv w' \<and> (if refused (fst p) then ?D (wd_db w') else \<not> ?D (wd_db w'))"
      if "dispatch_outcome ?D H key req p w'" for req p
      using that by (auto simp: dispatch_outcome_def created_def dispatched_def queued_row_def dest!: enqueued_find split: if_splits)
    ultimately show ?thesis using None by (cases r) (fastforce simp: refused_def split: if_splits)+
  next
    case (Some m)
    with tripleD [OF Dispatch_used [of key w H g mg mg' b] _ fs run] inv show ?thesis
      by (auto simp: in_use_def refused_def split: res.splits)
  qed
qed

lemma post_dispatch_once:
  assumes "left_alone key A" and inv: "once_inv key s" and run: "post_dispatch key b A s = (r, s')"
  shows "once_inv key s' \<and> (\<forall>x. r = Inr x \<longrightarrow> fst x = key \<and> find_mission key (wd_db (fst s')) \<noteq> None)"
proof -
  obtain w replies where s: "s = (w, replies)" by (cases s)
  let ?w = "at_before A w"
  have st: "steady (\<lambda>_. True) key (at_before A)" "steady (\<lambda>_. True) key (at_others A)"
    using assms(1) by (simp_all add: left_alone_def)
  have w: "fin_inv ?w" "find_mission key (wd_db ?w) = find_mission key (wd_db w)"
    and acc: "accepted replies = (if find_mission key (wd_db w) = None then 0 else 1)"
    using st(1) inv by (auto simp: steady_def once_inv_def s)
  show ?thesis
  proof (cases "at_network A = NeverArrives")
    case True
    then show ?thesis using run w acc by (auto simp: post_dispatch_def s once_inv_def)
  next
    case False
    obtain q fs' w' where D: "Dispatch (at_handler A) (at_others A) (at_manager A) (at_manager' A) key b (at_fates A) ?w = (q, fs', w')"
      by (metis prod_cases3)
    note once = Dispatch_once [OF w(1) st(2) D]
    have fs: "list_all any (at_fates A)" by (simp add: list_all_iff)
    have hon: "honest key rep w'" if "q = Ret (rep, mg1)" for rep mg1
      using tripleD [OF Dispatch_honest _ fs D] that by simp
    have dec: "fst x = key \<and> (reply_status rep = 202 \<or> find_mission key (wd_db w') \<noteq> None)"
      if "q = Ret (rep, mg1)" "decode_reply c rep = Inr x" for rep mg1 c x
      using hon [OF that(1)] that(2) by (cases rep) (auto simp: honest_def split: if_splits)
    show ?thesis
    proof (cases q)
      case (Ret p)
      obtain rep mg1 where p: "p = (rep, mg1)" by (cases p)
      show ?thesis using run False D once acc w(2) Ret p dec [of rep mg1]
        by (auto simp: post_dispatch_def s once_inv_def split: if_splits)
    qed (use run False D once acc w(2) in \<open>auto simp: post_dispatch_def s once_inv_def split: if_splits\<close>)
  qed
qed

lemma client_dispatch:
  assumes "\<And>i. left_alone key (A i)" and "fin_inv w" and "find_mission key (wd_db w) = None"
    and "lettsclient_Dispatch key b A w = (r, (w', replies), waits)"
  shows "once_inv key (w', replies) \<and> (\<forall>x. r = Inr x \<longrightarrow> fst x = key \<and> find_mission key (wd_db w') \<noteq> None)"
proof -
  have "once_inv key (w, [])" using assms(2,3) by (simp add: once_inv_def)
  from attempts_from_inv [where I = "once_inv key" and Q = "\<lambda>x s. fst x = key \<and> find_mission key (wd_db (fst s)) \<noteq> None",
      OF post_dispatch_once [OF assms(1)] this] assms(4)
  show ?thesis by (fastforce simp: lettsclient_Dispatch_def stickyRetry_def RetryClient_DoJSON_def)
qed

text \<open>At most three attempts, with at most 600 ms of pauses before jitter, which is at most a fifth.\<close>

lemma sticky_waits:
  assumes "stickyRetry send s = (r, s', waits)"
  shows "length waits \<le> 2 \<and> sum_list waits \<le> 600 * 1000000"
proof -
  obtain k where k: "waits = map (backoffFor DefaultBackoffMs) [0..<k]" "k < 3"
    using attempts_from_waits [of sticky_stop "backoffFor DefaultBackoffMs" send 3 0 NetError s] assms
    by (auto simp: stickyRetry_def RetryClient_DoJSON_def)
  then consider "k = 0" | "k = 1" | "k = 2" by linarith
  then show ?thesis
    by cases (simp_all add: k(1) backoffFor_def DefaultBackoffMs_def numeral_2_eq_2)
qed

lemma jitter_within_fifth:
  "5 \<le> d \<Longrightarrow> 0 \<le> drawn \<Longrightarrow> drawn < jitter_bound d \<Longrightarrow> 5 * \<bar>sleepWithJitter d drawn neg - d\<bar> < d"
  by (auto simp: sleepWithJitter_def jitter_bound_def split: if_splits)

section \<open>Uploading a file\<close>

datatype StagingUploadStatus = HeadNotFound | HeadComplete | HeadIncomplete

record StagingHead =
  sh_Status :: StagingUploadStatus
  sh_SHA256 :: string
  sh_TotalSize :: int
  sh_BytesReceived :: int

definition header_get :: "(string \<times> string) list \<Rightarrow> string \<Rightarrow> string" where
  "header_get hs k = (case map_of hs k of None \<Rightarrow> [] | Some v \<Rightarrow> v)"

text \<open>A number in a header; one that does not parse leaves the field at zero.\<close>

definition header_int :: "(string \<times> string) list \<Rightarrow> string \<Rightarrow> int" where
  "header_int hs k = (case ParseInt64 (header_get hs k) of None \<Rightarrow> 0 | Some n \<Rightarrow> n)"

definition HeadStaging :: "head_reply \<Rightarrow> client_error + StagingHead" where
  "HeadStaging rep =
     (case rep of HeadStatus n hs \<Rightarrow>
        let none = \<lparr>sh_Status = HeadNotFound, sh_SHA256 = [], sh_TotalSize = 0, sh_BytesReceived = 0\<rparr>;
            head = none\<lparr>sh_SHA256 := header_get hs ''X-Letts-Sha256''\<rparr>;
            st = header_get hs ''X-Letts-Upload-Status''
        in if n = 404 then Inr none
           else if n div 100 \<noteq> 2 then Inl (HTTPError n [])
           else if st = ''complete''
           then Inr (head\<lparr>sh_Status := HeadComplete, sh_TotalSize := header_int hs ''Content-Length''\<rparr>)
           else if st = ''incomplete''
           then Inr (head\<lparr>sh_Status := HeadIncomplete, sh_BytesReceived := header_int hs ''X-Letts-Bytes-Received'',
                  sh_TotalSize := header_int hs ''X-Letts-Total-Size''\<rparr>)
           else Inr (head\<lparr>sh_Status := HeadNotFound\<rparr>))"

text \<open>
  One PUT: what others do before it, what the daemon meets for the body it is sent, and the
  network.  A body of a 2xx reply is not looked at.
\<close>

record put_attempt =
  pa_before :: "upload_world \<Rightarrow> upload_world"
  pa_env :: "string \<Rightarrow> put_env"
  pa_network :: network

definition put_once :: "upload_cfg \<Rightarrow> put_request \<Rightarrow> string \<Rightarrow> put_attempt \<Rightarrow> upload_world \<Rightarrow> (client_error + unit) \<times> upload_world" where
  "put_once C q sent A w =
     (let w1 = pa_before A w
      in if pa_network A = NeverArrives then (Inl NetError, w1)
         else case staging_Put (pa_env A sent) C q w1 of
                (Stopped, w2) \<Rightarrow> (Inl NetError, w2)
              | (Replied rep, w2) \<Rightarrow>
                  (if pa_network A = ReplyLost then Inl NetError
                   else if reply_status rep div 100 = 2 then Inr ()
                   else case rep of
                          WriteError n code _ \<Rightarrow> Inl (HTTPError n (if pa_network A = ReplyCut then [] else code))
                        | WriteJSON n _ _ \<Rightarrow> Inl (HTTPError n []), w2))"

text \<open>
  The body of attempt \<open>i\<close>: the first reads the file from where the caller left it, the others
  from its start, each at most as many bytes as were announced.
\<close>

definition sent_body :: "string \<Rightarrow> nat \<Rightarrow> nat \<Rightarrow> string" where
  "sent_body content offset i = take (length content - offset) (drop (if i = 0 then offset else 0) content)"

definition stagingPutMaxAttempts :: nat where
  "stagingPutMaxAttempts = 3"

definition doStagingPut ::
  "upload_cfg \<Rightarrow> put_request \<Rightarrow> string \<Rightarrow> nat \<Rightarrow> (nat \<Rightarrow> put_attempt) \<Rightarrow> upload_world \<Rightarrow>
   (client_error + unit) \<times> upload_world \<times> int list"
where
  "doStagingPut C q content offset A w =
     attempts_from (\<lambda>e. case e of HTTPError status _ \<Rightarrow> status < 500 | _ \<Rightarrow> False) (backoffFor DefaultBackoffMs)
       (\<lambda>i. put_once C q (sent_body content offset i) (A i)) stagingPutMaxAttempts 0 NetError w"

datatype upload_error = CannotOpen | HeadFailed client_error | PutFailed client_error | OtherSha | OtherSize | BadOffset

text \<open>A length of 0 with a body present is sent as unknown, which the daemon sees as -1.\<close>

definition PutStagingInitial ::
  "upload_cfg \<Rightarrow> string \<Rightarrow> string \<Rightarrow> string \<Rightarrow> (nat \<Rightarrow> put_attempt) \<Rightarrow> upload_world \<Rightarrow> (upload_error + unit) \<times> upload_world"
where
  "PutStagingInitial C sid hexSum content A w =
     (let n = int (length content)
      in case doStagingPut C \<lparr>pr_ContentEncoding = [], pr_id = sid, pr_Sha256 = hexSum, pr_ContentRange = [],
                pr_ContentLength = (if n = 0 then -1 else n)\<rparr> content 0 A w of
           (Inl e, w', _) \<Rightarrow> (Inl (PutFailed e), w')
         | (Inr _, w', _) \<Rightarrow> (Inr (), w'))"

definition PutStagingResume ::
  "upload_cfg \<Rightarrow> string \<Rightarrow> string \<Rightarrow> string \<Rightarrow> int \<Rightarrow> (nat \<Rightarrow> put_attempt) \<Rightarrow> upload_world \<Rightarrow> (upload_error + unit) \<times> upload_world"
where
  "PutStagingResume C sid hexSum content offset A w =
     (let n = int (length content)
      in if offset \<ge> n \<or> offset < 0 then (Inl BadOffset, w)
         else case doStagingPut C (chunk_request sid hexSum offset (n - offset) n) content (nat offset) A w of
                (Inl e, w', _) \<Rightarrow> (Inl (PutFailed e), w')
              | (Inr _, w', _) \<Rightarrow> (Inr (), w'))"

definition UploadFile ::
  "(string \<Rightarrow> string) \<Rightarrow> upload_cfg \<Rightarrow> string \<Rightarrow> string option \<Rightarrow> network \<Rightarrow> (nat \<Rightarrow> put_attempt) \<Rightarrow> upload_world \<Rightarrow>
   (upload_error + string \<times> string \<times> int) \<times> upload_world"
where
  "UploadFile sha C sid localFile headNet A w =
     (case localFile of
        None \<Rightarrow> (Inl CannotOpen, w)
      | Some content \<Rightarrow>
          let n = int (length content);
              hexSum = sha content;
              finish = (\<lambda>(r, w'). (case r of Inl e \<Rightarrow> Inl e | Inr _ \<Rightarrow> Inr (sid, hexSum, n), w'))
          in case (if headNet = NeverArrives \<or> headNet = ReplyLost then Inl NetError else HeadStaging (staging_Head sid (uw_db w))) of
               Inl e \<Rightarrow> (Inl (HeadFailed e), w)
             | Inr head \<Rightarrow>
                 (case sh_Status head of
                    HeadNotFound \<Rightarrow> finish (PutStagingInitial C sid hexSum content A w)
                  | HeadComplete \<Rightarrow>
                      if sh_SHA256 head \<noteq> [] \<and> sh_SHA256 head \<noteq> hexSum then (Inl OtherSha, w)
                      else (Inr (sid, hexSum, n), w)
                  | HeadIncomplete \<Rightarrow>
                      if sh_SHA256 head \<noteq> [] \<and> sh_SHA256 head \<noteq> hexSum then (Inl OtherSha, w)
                      else if sh_TotalSize head \<noteq> 0 \<and> sh_TotalSize head \<noteq> n then (Inl OtherSize, w)
                      else if sh_BytesReceived head < 0 then (Inl BadOffset, w)
                      else finish (PutStagingResume C sid hexSum content (sh_BytesReceived head) A w)))"

text \<open>A success of the endpoint, 200 included, comes with a complete row of the announced hash.\<close>

definition arrived :: "(string \<Rightarrow> string) \<Rightarrow> upload_cfg \<Rightarrow> string \<Rightarrow> string \<Rightarrow> upload_world \<Rightarrow> bool" where
  "arrived sha C sid hexSum w \<longleftrightarrow>
     (\<exists>s. find_staging sid (uw_db w) = Some s \<and> stg_State s = StagingComplete \<and>
        (servable s \<longrightarrow> stg_Sha256 s = hexSum \<and> stored sha C s w))"

lemma staged_servable: "staged sha C w \<Longrightarrow> find_staging sid (uw_db w) = Some s \<Longrightarrow> servable s \<Longrightarrow> stored sha C s w"
  by (auto simp: staged_def find_staging_def dest: sql_find_Some_in)

text \<open>No error of the endpoint has a status that reads as a success.\<close>

definition stern :: "put_end \<times> upload_world \<Rightarrow> bool" where
  "stern p \<longleftrightarrow> (\<forall>n c t. fst p = Replied (WriteError n c t) \<longrightarrow> 400 \<le> n)"

lemma stern_simps [simp]:
  "stern (Stopped, w)" "stern (Replied (WriteJSON n j h), w)" "stern (Replied (WriteError n c t), w) \<longleftrightarrow> 400 \<le> n"
  "stern (Replied (WriteDBError 500), w)" "stern (Replied (WriteIOError 500 e), w)"
  by (simp_all add: stern_def WriteDBError_def WriteIOError_def)

lemma stern_at_point:
  "(\<And>e w. stern (Replied (failed e), w)) \<Longrightarrow> (\<And>w. stern (k w)) \<Longrightarrow> stern (at_point E p failed k w)"
  by (simp add: at_point_def Let_def split: fault.split)

lemma stern_discard: "400 \<le> n \<Longrightarrow> stern (discard E C sid (WriteError n c t) w)"
  by (simp add: discard_def Let_def)

lemma stern_close: "stern p \<Longrightarrow> stern (close_file i p)"
  by (simp add: stern_def close_file_def)

lemma stern_finish: "stern (put_finish E C sid declared tot written hashed w)"
  unfolding put_finish_def
  by (intro stern_at_point) (auto intro!: stern_at_point stern_discard split: sum.split)

lemma stern_loop:
  "(\<And>n h w. stern (finish n h w)) \<Longrightarrow> stern (put_loop E C sid tot app i finish rs st w)"
proof (induction rs arbitrary: st w)
  case Nil
  then show ?case by (cases st) simp
next
  case (Cons r rs)
  have after: "stern (after_read E C sid finish (put_loop E C sid tot app i finish rs) r st w)" for st w
    using Cons by (auto simp: after_read_def stern_discard split: read_end.split prod.split)
  obtain written hashed since where st: "st = (written, hashed, since)" by (cases st)
  show ?case unfolding st using Cons.prems
    by (auto simp: Let_def after stern_discard split: write_fate.split prod.split)
qed

lemma stern_open: "stern (put_open E C sid declared tot existing w)"
proof -
  have stream: "stern (put_stream E C sid declared tot app i n h w)" for app i n h w
    unfolding put_stream_def by (rule stern_loop [OF stern_finish])
  have resume: "stern (put_resume E C sid declared tot i n w)" for i n w
    unfolding put_resume_def by (auto intro!: stern_at_point stream split: option.split)
  show ?thesis unfolding put_open_def
    by (intro stern_at_point) (auto intro!: stern_close stream resume split: option.split prod.split)
qed

lemma stern_prepare: "stern (put_prepare E C sid declared tot existing w)"
proof -
  have "stern (put_insert E C sid declared tot w)" for w
    unfolding put_insert_def Let_def
    by (auto intro!: stern_at_point stern_open split: option.split sum.split)
  then show ?thesis unfolding put_prepare_def
    by (intro stern_at_point) (auto intro!: stern_open split: option.split)
qed

lemma put_locked_stern: "stern (put_locked E C sid declared start tot w)"
proof -
  have "stern (put_existing E C sid declared start tot ex w)" for ex w
    unfolding put_existing_def by (auto intro!: stern_at_point stern_prepare split: staging_state.split)
  then show ?thesis unfolding put_locked_def
    by (intro stern_at_point) (auto intro!: stern_prepare split: option.split)
qed

lemma staging_Put_success:
  assumes env: "calm_env E C (pr_id q)" and st: "staged (pe_sha E) C w" and run: "staging_Put E C q w = (Replied rep, w')"
    and ok: "reply_status rep div 100 = 2"
  shows "arrived (pe_sha E) C (pr_id q) (ToLower (pr_Sha256 q)) w'"
proof (cases "put_gate C (pe_usage E) q")
  case (Inl answer)
  then have "reply_status answer div 100 \<noteq> 2"
    by (auto simp: put_gate_def Let_def split: if_splits option.splits)
  with Inl run ok show ?thesis by (simp add: staging_Put_def)
next
  case (Inr p)
  obtain declared start tot where p: "p = (declared, start, tot)" by (cases p)
  have gate: "ValidateUUIDv7 (pr_id q)" "declared = ToLower (pr_Sha256 q)"
    using Inr by (auto simp: p put_gate_def Let_def split: if_splits option.splits)
  obtain h u where lock: "TryAcquire (pe_lock_now E) (pr_id q) (uw_lock w) = (h, u)" by fastforce
  obtain k where h: "h = Some k" using run ok Inr p lock by (cases h) (auto simp: staging_Put_def)
  obtain a w2 where body: "put_locked E C (pr_id q) declared start tot (w\<lparr>uw_lock := u\<rparr>) = (a, w2)" by fastforce
  have a: "a = Replied rep" "w' = w2\<lparr>uw_lock := release_lock (pr_id q) (uw_lock w2)\<rparr>"
    using run Inr p lock h body by (auto simp: staging_Put_def)
  have good: "good (pe_sha E) C (pr_id q) declared tot (Replied rep, w2)"
    using put_locked_good [OF env gate(1), of "w\<lparr>uw_lock := u\<rparr>" declared tot start] st body a(1) by simp
  have "\<exists>n j h. rep = WriteJSON n j h"
    using put_locked_stern [of E C "pr_id q" declared start tot "w\<lparr>uw_lock := u\<rparr>"] body a(1) ok
    by (cases rep) (auto simp: stern_def)
  moreover have "stored (pe_sha E) C s (w2\<lparr>uw_lock := l\<rparr>) = stored (pe_sha E) C s w2" for s l by (simp add: stored_def)
  ultimately show ?thesis using good gate(2) a(2)
    by (auto simp: good_def arrived_def) (metis staged_servable)
qed

text \<open>What the client relies on: others keep the files of complete rows and the uploads they do not own.\<close>

definition calm_attempts :: "(string \<Rightarrow> string) \<Rightarrow> upload_cfg \<Rightarrow> string \<Rightarrow> (nat \<Rightarrow> put_attempt) \<Rightarrow> bool" where
  "calm_attempts sha C sid A \<longleftrightarrow>
     (\<forall>i w. staged sha C w \<longrightarrow> staged sha C (pa_before (A i) w)) \<and>
     (\<forall>i b. calm_env (pa_env (A i) b) C sid \<and> pe_sha (pa_env (A i) b) = sha)"

lemma put_once_good:
  assumes "calm_attempts sha C sid A" and "pr_id q = sid" and "staged sha C w" and "put_once C q b (A i) w = (r, w')"
  shows "staged sha C w' \<and> (\<forall>x. r = Inr x \<longrightarrow> arrived sha C sid (ToLower (pr_Sha256 q)) w')"
proof -
  let ?E = "pa_env (A i) b" and ?w = "pa_before (A i) w"
  have env: "calm_env ?E C (pr_id q)" "pe_sha ?E = sha" and w: "staged (pe_sha ?E) C ?w"
    using assms(1-3) by (auto simp: calm_attempts_def)
  obtain a w2 where run: "staging_Put ?E C q ?w = (a, w2)" by fastforce
  have st: "staged sha C w2" using staging_Put_good [OF env(1) w run] env(2) by simp
  show ?thesis
  proof (cases a)
    case (Replied rep)
    have "arrived sha C sid (ToLower (pr_Sha256 q)) w2" if "reply_status rep div 100 = 2"
      using staging_Put_success [OF env(1) w _ that] run Replied env(2) assms(2) by simp
    with assms(4) run Replied st w env(2) show ?thesis
      by (auto simp: put_once_def Let_def split: if_splits reply.splits)
  qed (use assms(4) run st w env(2) in \<open>auto simp: put_once_def Let_def split: if_splits\<close>)
qed

lemma doStagingPut_good:
  assumes "calm_attempts sha C sid A" and "pr_id q = sid" and "staged sha C w"
    and "doStagingPut C q content offset A w = (r, w', waits)"
  shows "staged sha C w' \<and> (\<forall>x. r = Inr x \<longrightarrow> arrived sha C sid (ToLower (pr_Sha256 q)) w')"
  using assms(4) unfolding doStagingPut_def
  by (rule attempts_from_inv [where I = "staged sha C" and Q = "\<lambda>_ w. arrived sha C sid (ToLower (pr_Sha256 q)) w", rotated 2])
    (use put_once_good [OF assms(1,2)] assms(3) in blast)+

text \<open>An upload that the client reports as done is there, whichever way it went.\<close>

lemma UploadFile_stored:
  assumes hex: "\<And>b. sha256Regex (sha b)" and calm: "calm_attempts sha C sid A" and st: "staged sha C w"
    and run: "UploadFile sha C sid (Some content) net A w = (Inr res, w')"
  shows "res = (sid, sha content, int (length content)) \<and> staged sha C w' \<and> arrived sha C sid (sha content) w'"
proof -
  have low: "ToLower (sha content) = sha content" by (rule ToLower_hex [OF hex])
  have put: "staged sha C w1 \<and> arrived sha C sid (sha content) w1"
    if "doStagingPut C q content off A w = (Inr x, w1, ws)" "pr_id q = sid" "pr_Sha256 q = sha content" for q off x w1 ws
    using doStagingPut_good [OF calm that(2) st that(1)] low that(3) by simp
  obtain head where head: "HeadStaging (staging_Head sid (uw_db w)) = Inr head"
    using run by (auto simp: UploadFile_def Let_def split: sum.splits if_splits)
  have there: "arrived sha C sid (sha content) w"
    if complete: "sh_Status head = HeadComplete" and same: "sh_SHA256 head = [] \<or> sh_SHA256 head = sha content"
  proof -
    obtain s where s: "find_staging sid (uw_db w) = Some s" and hd: "HeadStaging (HeadStatus 200 (head_headers s)) = Inr head"
      using head complete by (auto simp: staging_Head_def GetStaging_def HeadStaging_def Let_def split: if_splits option.splits)
    have comp: "stg_State s = StagingComplete" and sha: "sh_SHA256 head = stg_Sha256 s"
      using hd complete by (cases "stg_State s"; auto simp: HeadStaging_def head_headers_def header_get_def Let_def)+
    have "stg_Sha256 s = sha content \<and> stored sha C s w" if sv: "servable s"
    proof -
      have "stored sha C s w" by (rule staged_servable [OF st s sv])
      moreover from this obtain b where "sha b = stg_Sha256 s" by (auto simp: stored_def)
      then have "stg_Sha256 s \<noteq> []" using hex [of b] by (auto simp: sha256Regex_def)
      ultimately show ?thesis using sha same by auto
    qed
    with s comp show ?thesis by (auto simp: arrived_def)
  qed
  show ?thesis
    using run head there put st
    by (auto simp: UploadFile_def PutStagingInitial_def PutStagingResume_def chunk_request_def Let_def
        split: if_splits StagingUploadStatus.splits prod.splits sum.splits)
qed

text \<open>
  A retry of a resumed upload sends the start of the file under the range of its end; an upload
  whose bytes have all arrived, but which was not completed, cannot be finished.
\<close>

lemma resumed_retry_sends_start:
  "0 < i \<Longrightarrow> offset \<le> length content \<Longrightarrow> sent_body content offset i = take (length content - offset) content"
  by (simp add: sent_body_def)

lemma full_upload_refused:
  assumes "ValidateUUIDv7 sid" and "find_staging sid (uw_db w) = Some s" and "stg_State s = StagingUploading"
    and "stg_Sha256 s = sha content" and "stg_Size s = int (length content)" and "stg_BytesReceived s = stg_Size s"
    and "in_i64 (stg_Size s)"
  shows "UploadFile sha C sid (Some content) ReplyArrives A w = (Inl BadOffset, w)"
  using assms
  by (simp add: UploadFile_def staging_Head_def GetStaging_def HeadStaging_def head_headers_def header_get_def
      header_int_def ParseInt64_itoa PutStagingResume_def Let_def)

end
