(* ===== verification/Recovery.thy ===== *)
theory Recovery
  imports Safety
begin

text \<open>
  Recovery: a finalize that was cut short anywhere, by an error or a crash, leaves a world from
  which startup repair finishes the mission, with a terminal event that agrees with the row and
  no output left in a Phase-B state.
\<close>

section \<open>The events file\<close>

text \<open>An event whose line fits the scanner and the configured limit.\<close>

definition line_fits :: "(fields \<Rightarrow> nat) \<Rightarrow> nat \<Rightarrow> fields \<Rightarrow> bool" where
  "line_fits msize cap fs \<longleftrightarrow>
     (\<forall>s. in_i64 s \<longrightarrow> msize (event_of KindDone s fs) + 1 \<le> maxScanLineSize \<and>
        (cap = 0 \<or> msize (event_of KindDone s fs) + 1 \<le> cap))"

lemma scan_fits_newline [simp]: "scan_fits f \<Longrightarrow> scan_fits (put_newline f)"
  by (auto simp: scan_fits_def put_newline_def maxScanLineSize_def split: option.splits)

lemma scan_fits_healed: "scan_fits (wr_file w) \<Longrightarrow> scan_fits (wr_file (healed w))"
  by (simp add: healed_def)

lemma scan_fits_put_line:
  "scan_fits f \<Longrightarrow> ef_tail f = None \<Longrightarrow> n \<le> maxScanLineSize \<Longrightarrow> scan_fits (put_line ev n f)"
  by (auto simp: scan_fits_def put_line_def)

lemma scan_fits_put_partial:
  "scan_fits f \<Longrightarrow> ef_tail f = None \<Longrightarrow> m \<le> maxScanLineSize \<Longrightarrow> scan_fits (put_partial ev m n f)"
  using scan_fits_put_line [of f m ev] by (auto simp: put_partial_def scan_fits_def)

lemma done_events_put_line_sub:
  "ef_tail f = None \<Longrightarrow> done_events (put_line (event_of KindDone s fs) n f) \<subseteq> insert (event_of KindDone s fs) (done_events f)"
  by (auto simp: done_events_def scan_lines_def put_line_def)

lemma done_events_put_partial_sub:
  "ef_tail f = None \<Longrightarrow> done_events (put_partial (event_of KindDone s fs) m n f) \<subseteq> insert (event_of KindDone s fs) (done_events f)"
  using done_events_put_line_sub [of f s fs m]
  by (auto simp: put_partial_def done_events_def scan_lines_def split: if_splits)

lemma Append_done_fits:
  assumes "Append msize env KindDone fs sync w = (r, w')" and "tail_known w" and "scan_fits (wr_file w)"
    and "line_fits msize cap fs"
  shows "scan_fits (wr_file w') \<and> (\<exists>s. done_events (wr_file w') \<subseteq> insert (event_of KindDone s fs) (done_events (wr_file w)))"
proof -
  let ?s = "wrap64 (wr_seq w + 1)"
  note h = scan_fits_healed [OF assms(3)] healed_tail [OF assms(2)]
  have n: "msize (event_of KindDone ?s fs) + 1 \<le> maxScanLineSize"
    using assms(4) in_i64_wrap64 unfolding line_fits_def by blast
  show ?thesis
    using assms(1)
  proof (cases rule: Append_cases)
    case (torn k)
    with scan_fits_put_partial [OF h n] done_events_put_partial_sub [OF h(2), of ?s fs] show ?thesis
      by (intro conjI exI [of _ ?s]) simp_all
  next
    case written
    with scan_fits_put_line [OF h n] done_events_put_line_sub [OF h(2), of ?s fs] show ?thesis
      by (intro conjI exI [of _ ?s]) simp_all
  qed (use assms(3) h in auto)
qed

text \<open>All terminal events of a file agree with the given fields.\<close>

definition agrees :: "fields \<Rightarrow> efile \<Rightarrow> bool" where
  "agrees fs f \<longleftrightarrow> scan_fits f \<and> (\<forall>m \<in> done_events f. doneEventsMatch m fs)"

lemma AppendDoneIdempotent_agrees:
  assumes "AppendDoneIdempotent msize env fs sq w = (r, w')" and "tail_known w" and "agrees fs (wr_file w)"
    and "line_fits msize cap fs" and "json_wf (JObj fs)"
  shows "agrees fs (wr_file w')"
  using assms(1)
proof (cases rule: AppendDoneIdempotent_cases)
  case (appended s q)
  have "scan_fits (wr_file w')" and "\<exists>s. done_events (wr_file w') \<subseteq> insert (event_of KindDone s fs) (done_events (wr_file w))"
    using Append_done_fits [OF appended(2) _ _ assms(4)] assms(2,3) by (simp_all add: tail_known_def agrees_def)
  with assms(3) doneEventsMatch_event [OF assms(5)] show ?thesis by (auto simp: agrees_def)
qed (use assms(3) in simp_all)

lemma Append_done_total:
  assumes "lim_MaxEventLineSize (wr_limits w) = cap" and "line_fits msize cap fs"
  shows "\<exists>s w'. Append msize (IoOk, IoOk, True) KindDone fs True w = (Inr s, w')"
proof -
  have n: "cap = 0 \<or> msize (event_of KindDone (wrap64 (wr_seq w + 1)) fs) + 1 \<le> cap"
    using assms(2) in_i64_wrap64 unfolding line_fits_def by blast
  then show ?thesis using assms(1) by (auto simp: Append_def Let_def)
qed

lemma AppendDoneIdempotent_total:
  assumes "agrees fs (wr_file w)" and "lim_MaxEventLineSize (wr_limits w) = cap" and "line_fits msize cap fs"
  shows "\<exists>w'. AppendDoneIdempotent msize (IoOk, IoOk, True) fs sq w = (Inr (), w')"
proof -
  obtain ls ex where sd: "scan_done (scan_lines (wr_file w)) = (ls, ex)"
    by (cases "scan_done (scan_lines (wr_file w))")
  show ?thesis
  proof (cases ex)
    case (Some m)
    with sd scan_done_in [of "wr_file w" m] assms(1) show ?thesis
      by (simp add: AppendDoneIdempotent_def agrees_def)
  next
    case None
    have "\<exists>s w'. Append msize (IoOk, IoOk, True) KindDone fs True (w\<lparr>wr_seq := q\<rparr>) = (Inr s, w')" for q
      by (rule Append_done_total) (use assms(2,3) in simp_all)
    then obtain s w' where "Append msize (IoOk, IoOk, True) KindDone fs True
        (w\<lparr>wr_seq := wrap64 ((if sq \<le> ls then wrap64 (ls + 1) else sq) - 1)\<rparr>) = (Inr s, w')" by blast
    with None sd assms(1) show ?thesis
      by (simp add: AppendDoneIdempotent_def agrees_def Let_def)
  qed
qed

section \<open>The transactions succeed\<close>

abbreviation in_phase_B :: "staging_file \<Rightarrow> bool" where
  "in_phase_B s \<equiv> stg_State s \<in> {StagingPendingOutput, StagingCommitting}"

definition out_ready :: "string \<Rightarrow> db \<Rightarrow> CollectedOutput \<Rightarrow> bool" where
  "out_ready mid d op \<longleftrightarrow>
     (\<exists>s. find_staging (co_StagingID op) d = Some s \<and> in_phase_B s) \<and>
     (mid, RefOutput, co_Role op) \<notin> ref_role_key ` set (staging_refs d)"

definition outs_ready :: "string \<Rightarrow> CollectedOutput list \<Rightarrow> db \<Rightarrow> bool" where
  "outs_ready mid outs d \<longleftrightarrow>
     distinct (map co_StagingID outs) \<and> distinct (map co_Role outs) \<and> (\<forall>op \<in> set outs. out_ready mid d op)"

text \<open>No row among the given ids is left in a Phase-B state.\<close>

definition settled :: "string set \<Rightarrow> db \<Rightarrow> bool" where
  "settled sids d \<longleftrightarrow> (\<forall>sid \<in> sids. \<forall>s. find_staging sid d = Some s \<longrightarrow> \<not> in_phase_B s)"

lemma settled_union:
  assumes "settled A d'" and "\<And>sid. sid \<notin> A \<Longrightarrow> find_staging sid d' = find_staging sid d" and "settled (S - A) d"
  shows "settled S d'"
  unfolding settled_def
proof (intro ballI allI impI)
  fix sid s
  assume "sid \<in> S" and "find_staging sid d' = Some s"
  with assms show "\<not> in_phase_B s" unfolding settled_def by (cases "sid \<in> A") (metis, metis DiffI)
qed

interpretation complete_update: key_preserving stg_StagingID "\<lambda>s. s\<lparr>stg_State := StagingComplete, stg_Path := p\<rparr>" for p
  by unfold_locales simp

interpretation deleting_update: key_preserving stg_StagingID "\<lambda>s. s\<lparr>stg_State := StagingDeleting\<rparr>"
  by unfold_locales simp

interpretation committing_update: key_preserving stg_StagingID "\<lambda>s. s\<lparr>stg_State := StagingCommitting\<rparr>"
  by unfold_locales simp

lemma publish_output_ok:
  assumes "out_ready mid d op" and "find_mission mid d \<noteq> None" and "db_ok d"
  shows "\<exists>d'. publish_output dd mid op d = Inr ((), d') \<and>
    (\<forall>sid. find_staging sid d' = (if sid = co_StagingID op
        then map_option (\<lambda>s. s\<lparr>stg_State := StagingComplete, stg_Path := relPathFromDataDir dd (co_FinalPath op)\<rparr>) (find_staging sid d)
        else find_staging sid d)) \<and>
    set (staging_refs d') = insert \<lparr>ref_MissionID = mid, ref_StagingID = co_StagingID op, ref_RefKind = RefOutput, ref_Role = co_Role op\<rparr> (set (staging_refs d))"
proof -
  let ?p = "relPathFromDataDir dd (co_FinalPath op)"
  let ?t = "sql_update (\<lambda>s. stg_StagingID s = co_StagingID op \<and> in_phase_B s)
      (\<lambda>s. s\<lparr>stg_State := StagingComplete, stg_Path := ?p\<rparr>) (staging_files d)"
  let ?d = "d\<lparr>staging_files := ?t\<rparr>"
  let ?r = "\<lparr>ref_MissionID = mid, ref_StagingID = co_StagingID op, ref_RefKind = RefOutput, ref_Role = co_Role op\<rparr>"
  from assms(1) obtain s where s: "find_staging (co_StagingID op) d = Some s" "in_phase_B s"
    and fresh: "(mid, RefOutput, co_Role op) \<notin> ref_role_key ` set (staging_refs d)"
    by (auto simp: out_ready_def)
  have m: "MarkStagingCompleteWithPath (co_StagingID op) ?p d = Inr ((), ?d)"
    unfolding MarkStagingCompleteWithPath_def
    using guarded_staging_ok [OF db_ok_keyed(3) [OF assms(3)]] s by blast
  have look: "find_staging sid ?d = map_option (\<lambda>s. if stg_StagingID s = co_StagingID op \<and> in_phase_B s
      then s\<lparr>stg_State := StagingComplete, stg_Path := ?p\<rparr> else s) (find_staging sid d)" for sid
    by (simp add: find_staging_def complete_update.find_update)
  have eff: "find_staging sid ?d = (if sid = co_StagingID op
      then map_option (\<lambda>s. s\<lparr>stg_State := StagingComplete, stg_Path := ?p\<rparr>) (find_staging sid d)
      else find_staging sid d)" for sid
    using look [of sid] s find_staging_id [of sid d] by (cases "find_staging sid d") auto
  have "sql_insert ref_role_key ?r (staging_refs d) = Some (staging_refs d @ [?r])"
    using fresh by (simp add: sql_insert_def sql_find_None_iff ref_role_key_def)
  then have ins: "sql_insert ref_role_key ?r (staging_refs ?d) = Some (staging_refs d @ [?r])" by simp
  have fm: "(find_mission mid ?d = None) = False" using assms(2) by (simp add: find_mission_def)
  have fs: "(find_staging (co_StagingID op) ?d = None) = False" unfolding eff using s by simp
  have i: "InsertRef ?r ?d = Inr ((), ?d\<lparr>staging_refs := staging_refs d @ [?r]\<rparr>)"
    unfolding InsertRef_def staging_ref.simps fm fs ins by simp
  have "publish_output dd mid op d = Inr ((), ?d\<lparr>staging_refs := staging_refs d @ [?r]\<rparr>)"
    unfolding publish_output_def m sum.case prod.case i ..
  moreover have "find_staging sid (?d\<lparr>staging_refs := staging_refs d @ [?r]\<rparr>) = find_staging sid ?d" for sid
    by (simp add: find_staging_def)
  ultimately show ?thesis
    by (intro exI [of _ "?d\<lparr>staging_refs := staging_refs d @ [?r]\<rparr>"] conjI allI) (simp_all only: eff, simp)
qed

lemma publish_all_ok:
  assumes "outs_ready mid outs d" and "find_mission mid d \<noteq> None" and "db_ok d"
  shows "\<exists>d'. each_stmt (publish_output dd mid) outs d = Inr ((), d') \<and> same_rows d d' \<and>
    (\<forall>sid. sid \<notin> co_StagingID ` set outs \<longrightarrow> find_staging sid d' = find_staging sid d) \<and>
    settled (co_StagingID ` set outs) d'"
  using assms
proof (induction outs arbitrary: d)
  case (Cons op outs)
  then have "out_ready mid d op" by (simp add: outs_ready_def)
  from publish_output_ok [OF this Cons.prems(2,3), of dd] obtain d1 where
    p: "publish_output dd mid op d = Inr ((), d1)"
    and st: "\<And>sid. find_staging sid d1 = (if sid = co_StagingID op
        then map_option (\<lambda>s. s\<lparr>stg_State := StagingComplete, stg_Path := relPathFromDataDir dd (co_FinalPath op)\<rparr>) (find_staging sid d)
        else find_staging sid d)"
    and rf: "set (staging_refs d1) = insert \<lparr>ref_MissionID = mid, ref_StagingID = co_StagingID op, ref_RefKind = RefOutput, ref_Role = co_Role op\<rparr> (set (staging_refs d))"
    by blast
  have same: "same_rows d d1" by (rule same_rows_publish [OF p])
  have new: "co_StagingID op \<notin> co_StagingID ` set outs" and newr: "co_Role op \<notin> co_Role ` set outs"
    using Cons.prems(1) by (simp_all add: outs_ready_def)
  have "out_ready mid d1 q" if q: "q \<in> set outs" for q
  proof -
    from q new newr have ne: "co_StagingID q \<noteq> co_StagingID op" "co_Role q \<noteq> co_Role op"
      by (metis image_eqI)+
    from q Cons.prems(1) have "out_ready mid d q" by (simp add: outs_ready_def)
    with ne st [of "co_StagingID q"] rf show ?thesis by (simp add: out_ready_def ref_role_key_def)
  qed
  then have "outs_ready mid outs d1" using Cons.prems(1) by (simp add: outs_ready_def)
  moreover have "find_mission mid d1 \<noteq> None" and "db_ok d1"
    using same Cons.prems(2,3) by (simp_all add: same_rows_def find_mission_def)
  ultimately obtain d' where e: "each_stmt (publish_output dd mid) outs d1 = Inr ((), d')"
    and s2: "same_rows d1 d'" and keep: "\<forall>sid. sid \<notin> co_StagingID ` set outs \<longrightarrow> find_staging sid d' = find_staging sid d1"
    and sett: "settled (co_StagingID ` set outs) d'"
    using Cons.IH [of d1] by blast
  have "settled (co_StagingID ` set (op # outs)) d'"
    using sett keep new st by (auto simp: settled_def)
  with p e same s2 keep st show ?case
    by (intro exI [of _ d']) (auto intro: same_rows_trans)
qed (simp add: settled_def)

lemma commit_stmt_ok:
  assumes "outs_ready (fi_MissionID i) outs d" and "find_mission (fi_MissionID i) d = Some m" and "unfinished m"
    and "db_ok d" and "settled (sids - co_StagingID ` set outs) d"
  shows "\<exists>d'. commit_stmt dd i outs fin d = Inr (False, d') \<and> db_ok d' \<and>
    find_mission (fi_MissionID i) d' = Some (finish_row i fin m) \<and> find_intent (fi_MissionID i) d' = None \<and>
    settled sids d'"
proof -
  let ?mid = "fi_MissionID i"
  obtain d1 where g: "guarded_update ?mid unfinished (finish_row i fin) d = Inr ((), d1)"
    using guarded_update_ok [OF db_ok_keyed(1) [OF assms(4)]] assms(2,3) by blast
  note d1 = iffD1 [OF guarded_update_ok [OF db_ok_keyed(1) [OF assms(4)]] g]
  have m1: "find_mission ?mid d1 = Some (finish_row i fin m)"
    using guarded_update_find [OF g, of ?mid] assms(2,3) sql_find_Some_in [of msn_ID ?mid "missions d" m]
    by (simp add: finish_row_def find_mission_def)
  have st1: "find_staging sid d1 = find_staging sid d" and rf1: "staging_refs d1 = staging_refs d" for sid
    using d1 by (simp_all add: find_staging_def)
  have ok1: "db_ok d1" by (rule guarded_update_db_ok [OF g _ _ assms(4)]) (simp_all add: finish_row_def)
  have "outs_ready ?mid outs d1" using assms(1) by (simp add: outs_ready_def out_ready_def st1 rf1)
  from publish_all_ok [OF this _ ok1, of dd] m1 obtain d2 where
    e: "each_stmt (publish_output dd ?mid) outs d1 = Inr ((), d2)" and s: "same_rows d1 d2"
    and keep: "\<forall>sid. sid \<notin> co_StagingID ` set outs \<longrightarrow> find_staging sid d2 = find_staging sid d1"
    and sett: "settled (co_StagingID ` set outs) d2" by auto
  let ?d' = "DeleteFinalizeIntent ?mid d2"
  have run: "commit_stmt dd i outs fin d = Inr (False, ?d')"
    unfolding commit_stmt_def g by (simp add: e)
  have "find_staging sid ?d' = find_staging sid d2" for sid by (simp add: find_staging_def DeleteFinalizeIntent_def)
  moreover have "settled sids d2"
    by (rule settled_union [OF sett _ assms(5)]) (use keep st1 in simp)
  ultimately have "settled sids ?d'" by (simp add: settled_def)
  moreover have "find_mission ?mid ?d' = Some (finish_row i fin m)"
    using s m1 by (simp add: same_rows_def find_mission_def)
  moreover have "find_intent ?mid ?d' = None"
    by (auto simp: find_intent_def sql_find_None_iff)
  moreover have "db_ok ?d'" using s ok1 DeleteFinalizeIntent_db_ok by (simp add: same_rows_def)
  ultimately show ?thesis using run by blast
qed

section \<open>Worlds from which a mission can be finished\<close>

text \<open>
  The environment, the configuration, the limit on event lines (0 for none), the mission and
  the staging ids of its outputs.
\<close>

record recovery =
  rx_env :: fin_env
  rx_cfg :: FinalizeConfig
  rx_cap :: nat
  rx_mid :: string
  rx_sids :: "string set"

text \<open>The reasons and messages a revert can carry.\<close>

definition revert_causes :: "fin_env \<Rightarrow> CollectedOutput list \<Rightarrow> (string \<times> string) set" where
  "revert_causes E outs =
     (\<Union>op \<in> set outs.
        {(''output_commit_failed'', ''tmp missing for '' @ co_Role op),
         (''output_commit_corrupt'', ''missing declared sha for '' @ co_Role op),
         (''output_commit_corrupt'', ''sha mismatch for '' @ co_Role op),
         (''output_commit_corrupt'', ''tmp+final missing for '' @ co_Role op)} \<union>
        (\<Union>e. {(''output_commit_failed'', ''rename '' @ co_TmpPath op @ '': '' @ fe_errtext E e),
              (''output_commit_failed'', ''rename failed for '' @ co_Role op @ '': '' @ fe_errtext E e),
              (''output_commit_corrupt'', ''sha verify error for '' @ co_Role op @ '': '' @ fe_errtext E e)}))"

lemma revert_causes_in:
  assumes "op \<in> set outs"
  shows "(''output_commit_failed'', ''tmp missing for '' @ co_Role op) \<in> revert_causes E outs"
    and "(''output_commit_corrupt'', ''missing declared sha for '' @ co_Role op) \<in> revert_causes E outs"
    and "(''output_commit_corrupt'', ''sha mismatch for '' @ co_Role op) \<in> revert_causes E outs"
    and "(''output_commit_corrupt'', ''tmp+final missing for '' @ co_Role op) \<in> revert_causes E outs"
  unfolding revert_causes_def
  by (rule UN_I [OF assms], rule UnI1, simp only: insert_iff simp_thms)+

lemma revert_causes_err:
  assumes "op \<in> set outs"
  shows "(''output_commit_failed'', ''rename '' @ co_TmpPath op @ '': '' @ fe_errtext E e) \<in> revert_causes E outs"
    and "(''output_commit_failed'', ''rename failed for '' @ co_Role op @ '': '' @ fe_errtext E e) \<in> revert_causes E outs"
    and "(''output_commit_corrupt'', ''sha verify error for '' @ co_Role op @ '': '' @ fe_errtext E e) \<in> revert_causes E outs"
  unfolding revert_causes_def
  by (rule UN_I [OF assms], rule UnI2, rule UN_I [of e, OF UNIV_I], simp only: insert_iff simp_thms)+

abbreviation fits :: "recovery \<Rightarrow> fields \<Rightarrow> bool" where
  "fits X fs \<equiv> line_fits (fe_msize (rx_env X)) (rx_cap X) fs"

definition sized :: "recovery \<Rightarrow> finalize_intent \<Rightarrow> CollectedOutput list \<Rightarrow> bool" where
  "sized X i outs \<longleftrightarrow>
     (\<forall>fs. extractDoneFields (fi_DoneEvent i) = Some fs \<longrightarrow> fits X fs) \<and>
     (\<forall>(r, c) \<in> revert_causes (rx_env X) outs. fits X (revert_fields (fe_now (rx_env X)) i r c))"

text \<open>Files that exist hold what the intent declares, and no two outputs share a path.\<close>

definition intact :: "CollectedOutput list \<Rightarrow> world \<Rightarrow> bool" where
  "intact outs w \<longleftrightarrow> distinct (map co_TmpPath outs @ map co_FinalPath outs) \<and>
     (\<forall>op \<in> set outs. co_Sha256 op \<noteq> [] \<and>
        wd_files w (co_TmpPath op) \<in> {None, Some (co_Sha256 op)} \<and>
        wd_files w (co_FinalPath op) \<in> {None, Some (co_Sha256 op)})"

definition placed :: "CollectedOutput list \<Rightarrow> world \<Rightarrow> bool" where
  "placed outs w \<longleftrightarrow> (\<forall>op \<in> set outs. wd_files w (co_FinalPath op) = Some (co_Sha256 op))"

definition has_outputs :: "recovery \<Rightarrow> finalize_intent \<Rightarrow> CollectedOutput list \<Rightarrow> bool" where
  "has_outputs X i outs \<longleftrightarrow>
     (\<exists>xs. fi_Outputs i = Some xs \<and> outs = decodeIntentOutputsForDataDir xs (fc_DataDir (rx_cfg X)))"

definition pend_db :: "recovery \<Rightarrow> finalize_intent \<Rightarrow> CollectedOutput list \<Rightarrow> db \<Rightarrow> bool" where
  "pend_db X i outs d \<longleftrightarrow>
     db_ok d \<and> (\<exists>m. find_mission (rx_mid X) d = Some m \<and> unfinished m) \<and>
     find_intent (rx_mid X) d = Some i \<and> outs_ready (rx_mid X) outs d \<and>
     settled (rx_sids X - co_StagingID ` set outs) d"

definition pend :: "recovery \<Rightarrow> finalize_intent \<Rightarrow> CollectedOutput list \<Rightarrow> fields \<Rightarrow> world \<Rightarrow> bool" where
  "pend X i outs fs w \<longleftrightarrow>
     pend_db X i outs (wd_db w) \<and> intent_ok i \<and> extractDoneFields (fi_DoneEvent i) = Some fs \<and>
     has_outputs X i outs \<and> sized X i outs \<and> intact outs w"

text \<open>Once the terminal event is in the file, every output is in place.\<close>

definition file_ready :: "finalize_intent \<Rightarrow> CollectedOutput list \<Rightarrow> world \<Rightarrow> bool" where
  "file_ready i outs w \<longleftrightarrow> outs = [] \<or> fi_Phase i = PhaseCommitting \<and> placed outs w"

definition recoverable :: "recovery \<Rightarrow> world \<Rightarrow> bool" where
  "recoverable X w \<longleftrightarrow>
     (\<exists>i outs fs f. pend X i outs fs w \<and> wd_events w (rx_mid X) = Some f \<and> agrees fs f \<and>
        (done_events f = {} \<or> file_ready i outs w))"

definition finished :: "recovery \<Rightarrow> world \<Rightarrow> bool" where
  "finished X w \<longleftrightarrow>
     db_ok (wd_db w) \<and> find_intent (rx_mid X) (wd_db w) = None \<and> settled (rx_sids X) (wd_db w) \<and>
     (\<exists>m out f ev. find_mission (rx_mid X) (wd_db w) = Some m \<and> msn_Status m = StatusDone \<and>
        msn_Outcome m = Some out \<and> wd_events w (rx_mid X) = Some f \<and> ev \<in> done_events f \<and>
        mget ev ''outcome'' = Some (JStr out))"

definition idle :: "recovery \<Rightarrow> world \<Rightarrow> bool" where
  "idle X w \<longleftrightarrow>
     db_ok (wd_db w) \<and> (\<exists>m. find_mission (rx_mid X) (wd_db w) = Some m \<and> unfinished m) \<and>
     find_intent (rx_mid X) (wd_db w) = None \<and> settled (rx_sids X) (wd_db w) \<and>
     (\<exists>f. wd_events w (rx_mid X) = Some f \<and> scan_fits f \<and> done_events f = {})"

definition safe_world :: "recovery \<Rightarrow> world \<Rightarrow> bool" where
  "safe_world X w \<longleftrightarrow> idle X w \<or> recoverable X w \<or> finished X w"

lemma critical_free:
  "recoverable X w \<Longrightarrow> recoverable X (w\<lparr>wd_critical := k\<rparr>)"
  "pend X i outs fs w \<Longrightarrow> pend X i outs fs (w\<lparr>wd_critical := k\<rparr>)"
  by (auto simp: recoverable_def pend_def intact_def file_ready_def placed_def)

text \<open>The intent as a caller holds it may differ from the stored one in phase and message.\<close>

definition like :: "finalize_intent \<Rightarrow> finalize_intent \<Rightarrow> bool" where
  "like i j \<longleftrightarrow> fi_MissionID i = fi_MissionID j \<and> fi_DoneEvent i = fi_DoneEvent j \<and> fi_Outcome i = fi_Outcome j \<and>
     fi_ExitCode i = fi_ExitCode j \<and> fi_Signal i = fi_Signal j"

lemma pend_mid: "pend X i outs fs w \<Longrightarrow> fi_MissionID i = rx_mid X"
  by (auto simp: pend_def pend_db_def find_intent_def dest: sql_find_Some_in)

lemma extract_event:
  assumes "mget fs ''seq'' = None" and "mget fs ''event'' = None"
  shows "extractDoneFields (Some (withSeqAndEvent fs s)) = Some fs"
proof -
  from assms have k: "''seq'' \<notin> set (map fst fs)" "''event'' \<notin> set (map fst fs)"
    by (simp_all add: mget_def map_of_eq_None_iff)
  then show ?thesis
    by (simp add: extractDoneFields_def withSeqAndEvent_def event_of_def mdel_mput_other mdel_fresh)
qed

subsection \<open>Phase B's first transaction\<close>

lemma mark_committing_find:
  "find_staging sid (fold (\<lambda>op. mark_committing (co_StagingID op)) outs d) =
     map_option (\<lambda>s. if sid \<in> co_StagingID ` set outs \<and> stg_State s = StagingPendingOutput
        then s\<lparr>stg_State := StagingCommitting\<rparr> else s) (find_staging sid d)"
proof (induction outs arbitrary: d)
  case (Cons op outs)
  have one: "find_staging sid (mark_committing (co_StagingID op) d) =
      map_option (\<lambda>s. if stg_StagingID s = co_StagingID op \<and> stg_State s = StagingPendingOutput
        then s\<lparr>stg_State := StagingCommitting\<rparr> else s) (find_staging sid d)"
    by (simp add: mark_committing_def find_staging_def committing_update.find_update)
  show ?case
    using find_staging_id [of sid d]
    by (cases "find_staging sid d") (auto simp: Cons.IH one)
qed (simp add: option.map_ident)

lemma mark_deleting_find:
  "find_staging sid (fold (\<lambda>op. mark_deleting (co_StagingID op)) outs d) =
     map_option (\<lambda>s. if sid \<in> co_StagingID ` set outs then s\<lparr>stg_State := StagingDeleting\<rparr> else s) (find_staging sid d)"
proof (induction outs arbitrary: d)
  case (Cons op outs)
  have one: "find_staging sid (mark_deleting (co_StagingID op) d) =
      map_option (\<lambda>s. if stg_StagingID s = co_StagingID op then s\<lparr>stg_State := StagingDeleting\<rparr> else s) (find_staging sid d)"
    by (simp add: mark_deleting_def find_staging_def deleting_update.find_update)
  show ?case
    using find_staging_id [of sid d]
    by (cases "find_staging sid d") (auto simp: Cons.IH one)
qed (simp add: option.map_ident)

lemma fold_refs:
  "staging_refs (fold (\<lambda>op. mark_committing (co_StagingID op)) outs d) = staging_refs d"
  "staging_refs (fold (\<lambda>op. mark_deleting (co_StagingID op)) outs d) = staging_refs d"
  by (induction outs arbitrary: d) (simp_all add: mark_committing_def mark_deleting_def)

lemma phaseB1_ok:
  assumes "pend_db X i outs d"
  shows "\<exists>d'. phaseB1_stmt outs (rx_mid X) d = Inr ((), d') \<and> pend_db X (i\<lparr>fi_Phase := PhaseCommitting\<rparr>) outs d'"
proof -
  let ?d = "fold (\<lambda>op. mark_committing (co_StagingID op)) outs d"
  let ?f = "\<lambda>i. i\<lparr>fi_Phase := PhaseCommitting\<rparr>"
  let ?d' = "?d\<lparr>finalize_intents := sql_update (\<lambda>i. fi_MissionID i = rx_mid X) ?f (finalize_intents ?d)\<rparr>"
  from assms have ok: "db_ok d" and i: "find_intent (rx_mid X) d = Some i" by (simp_all add: pend_db_def)
  have s: "same_rows d ?d" by (rule same_rows_fold) (rule same_rows_mark)
  have i': "find_intent (rx_mid X) ?d = Some i" using s i by (simp add: find_intent_def same_rows_def)
  have id: "fi_MissionID i = rx_mid X" using i by (auto simp: find_intent_def dest: sql_find_Some_in)
  have "sql_affected (\<lambda>i. fi_MissionID i = rx_mid X) (finalize_intents ?d) \<noteq> 0"
    using i' by (auto simp: sql_affected_eq_0 find_intent_def dest!: sql_find_Some_in)
  then have run: "phaseB1_stmt outs (rx_mid X) d = Inr ((), ?d')"
    by (simp add: phaseB1_stmt_def UpdateFinalizePhase_def)
  have st: "find_staging sid ?d' = find_staging sid ?d" for sid by (simp add: find_staging_def)
  have "find_intent (rx_mid X) ?d' = Some (?f i)"
    using i' id by (simp add: find_intent_def phase_update.find_update)
  moreover have "db_ok ?d'" using UpdateFinalizePhase_db_ok [of "rx_mid X" PhaseCommitting ?d "()" ?d'] run s ok
    by (simp add: phaseB1_stmt_def same_rows_def)
  moreover have "find_mission (rx_mid X) ?d' = find_mission (rx_mid X) d"
    using s by (simp add: find_mission_def same_rows_def)
  moreover have "outs_ready (rx_mid X) outs ?d'"
  proof -
    have "out_ready (rx_mid X) ?d' op" if r: "out_ready (rx_mid X) d op" for op
    proof -
      from r obtain s where s: "find_staging (co_StagingID op) d = Some s" "in_phase_B s"
        by (auto simp: out_ready_def)
      then have "\<exists>s'. find_staging (co_StagingID op) ?d' = Some s' \<and> in_phase_B s'"
        unfolding st mark_committing_find by simp
      with r show ?thesis by (simp add: out_ready_def fold_refs)
    qed
    with assms show ?thesis by (simp add: pend_db_def outs_ready_def)
  qed
  moreover have "settled (rx_sids X - co_StagingID ` set outs) ?d'"
    using assms by (auto simp: pend_db_def settled_def st mark_committing_find)
  ultimately show ?thesis using run assms unfolding pend_db_def by auto
qed

subsection \<open>The revert transaction\<close>

lemma revert_ok:
  assumes "pend_db X i outs d" and "\<And>j. fi_MissionID (upd j) = fi_MissionID j"
  shows "\<exists>d'. revert_stmt upd (rx_mid X) outs d = Inr ((), d') \<and> pend_db X (upd i) [] d'"
proof -
  let ?d = "d\<lparr>finalize_intents := sql_update (\<lambda>i. fi_MissionID i = rx_mid X) upd (finalize_intents d)\<rparr>"
  let ?d' = "fold (\<lambda>op. mark_deleting (co_StagingID op)) outs ?d"
  from assms(1) have ok: "db_ok d" and i: "find_intent (rx_mid X) d = Some i" by (simp_all add: pend_db_def)
  have loc: "key_preserving fi_MissionID upd" using assms(2) by unfold_locales
  have s: "same_rows ?d ?d'" by (rule same_rows_fold) (rule same_rows_mark)
  have ok': "db_ok ?d" by (rule intents_update_db_ok [OF assms(2) ok])
  have id: "fi_MissionID i = rx_mid X" using i by (auto simp: find_intent_def dest: sql_find_Some_in)
  have "find_intent (rx_mid X) ?d = Some (upd i)"
    using i id by (simp add: find_intent_def key_preserving.find_update [OF loc])
  then have "find_intent (rx_mid X) ?d' = Some (upd i)" using s by (simp add: find_intent_def same_rows_def)
  moreover have "find_mission (rx_mid X) ?d' = find_mission (rx_mid X) d"
    using s by (simp add: find_mission_def same_rows_def)
  moreover have "settled (rx_sids X) ?d'"
  proof (rule settled_union [where A = "co_StagingID ` set outs" and d = d])
    show "settled (co_StagingID ` set outs) ?d'" by (auto simp: settled_def mark_deleting_find)
    show "settled (rx_sids X - co_StagingID ` set outs) d" using assms(1) by (simp add: pend_db_def)
    show "find_staging sid ?d' = find_staging sid d" if "sid \<notin> co_StagingID ` set outs" for sid
      using that by (simp add: mark_deleting_find option.map_ident) (simp add: find_staging_def)
  qed
  moreover have "revert_stmt upd (rx_mid X) outs d = Inr ((), ?d')" by (simp add: revert_stmt_def)
  moreover have "db_ok ?d'" using s ok' by (simp add: same_rows_def)
  ultimately show ?thesis using assms(1) by (auto simp: pend_db_def outs_ready_def)
qed

section \<open>Rules for effects that succeed unless disturbed\<close>

lemma triple_effect_total:
  assumes "F FOk" and "\<And>w. P w \<Longrightarrow> (case step FOk w of (Ret x, w') \<Rightarrow> Q x w' | _ \<Rightarrow> False)"
    and "\<And>f w. F f \<Longrightarrow> f \<noteq> FOk \<Longrightarrow> P w \<Longrightarrow> (case step f w of (Ret x, w') \<Rightarrow> Q x w' | (_, w') \<Rightarrow> E w')"
  shows "triple P F (effect step) Q E"
proof (rule triple_effect [where F = F, OF assms(1)])
  fix f w
  assume "F f" and "P w"
  show "case step f w of (Ret x, w') \<Rightarrow> Q x w' | (_, w') \<Rightarrow> E w'"
  proof (cases "f = FOk")
    case True
    with assms(2) [OF \<open>P w\<close>] show ?thesis by (auto split: prod.splits res.splits)
  next
    case False
    show ?thesis by (rule assms(3) [OF \<open>F f\<close> False \<open>P w\<close>])
  qed
qed

lemma WithWriterRetry_ok: "fn d = Inr (x, d') \<Longrightarrow> WithWriterRetry [] fn d = (Inr x, d', [])"
  by (simp add: WithWriterRetry_def retry_loop.simps [of "Suc 0"] WithWriter_TxOk)

lemma triple_tx_total:
  assumes "F FOk" and "\<And>w. P w \<Longrightarrow> \<exists>x d'. fn (wd_db w) = Inr (x, d') \<and> Q x (w\<lparr>wd_db := d'\<rparr>)"
    and "\<And>f w. F f \<Longrightarrow> f \<noteq> FOk \<Longrightarrow> P w \<Longrightarrow> E w"
  shows "triple P F (tx_retry fn) Q E"
  unfolding tx_retry_def
proof (rule triple_effect_total [where F = F, OF assms(1)])
  fix w
  assume "P w"
  from assms(2) [OF this] obtain x d' where "fn (wd_db w) = Inr (x, d')" "Q x (w\<lparr>wd_db := d'\<rparr>)" by blast
  then show "case (case FOk of FCrash x \<Rightarrow> (Crash, w)
      | _ \<Rightarrow> (case WithWriterRetry (tx_env FOk) fn (wd_db w) of (r, d, _) \<Rightarrow> (sum_res r, w\<lparr>wd_db := d\<rparr>)))
    of (Ret x, w') \<Rightarrow> Q x w' | _ \<Rightarrow> False"
    by (simp add: tx_env_def WithWriterRetry_ok sum_res_def)
next
  fix f w
  assume f: "F f" "f \<noteq> FOk" and P: "P w"
  obtain r d ws where run: "WithWriterRetry (tx_env f) fn (wd_db w) = (r, d, ws)"
    by (cases "WithWriterRetry (tx_env f) fn (wd_db w)")
  have "case (sum_res r, w\<lparr>wd_db := d\<rparr>) of (Ret x, w') \<Rightarrow> Q x w' | (_, w') \<Rightarrow> E w'"
    using WithWriterRetry_cases [OF run] assms(2) [OF P] assms(3) [OF f P] by (cases r) (auto simp: sum_res_def)
  with run assms(3) [OF f P] show "case (case f of FCrash x \<Rightarrow> (Crash, w)
      | _ \<Rightarrow> (case WithWriterRetry (tx_env f) fn (wd_db w) of (r, d, _) \<Rightarrow> (sum_res r, w\<lparr>wd_db := d\<rparr>)))
    of (Ret x, w') \<Rightarrow> Q x w' | (_, w') \<Rightarrow> E w'"
    by (cases f) simp_all
qed

text \<open>Catching the error of a single effect: only a crash stops it.\<close>

lemma triple_attempt_effect:
  assumes "F FOk"
    and "\<And>f w. F f \<Longrightarrow> P w \<Longrightarrow> (case step f w of (Ret x, w') \<Rightarrow> Q (Inr x) w' | (Err e, w') \<Rightarrow> Q (Inl e) w' | (Crash, w') \<Rightarrow> E w')"
  shows "triple P F (attempt (effect step)) Q E"
proof -
  let ?step = "\<lambda>f w. case step f w of (Ret x, w') \<Rightarrow> (Ret (Inr x), w') | (Err e, w') \<Rightarrow> (Ret (Inl e), w') | (Crash, w') \<Rightarrow> (Crash, w')"
  have eq: "attempt (effect step) = effect ?step"
    by (intro ext) (simp add: attempt_def effect_def split: prod.split res.split)
  show ?thesis
    unfolding eq
  proof (rule triple_effect [where F = F, OF assms(1)])
    fix f w
    assume "F f" and "P w"
    from assms(2) [OF this] show "case ?step f w of (Ret x, w') \<Rightarrow> Q x w' | (_, w') \<Rightarrow> E w'"
      by (cases "step f w"; cases "fst (step f w)") auto
  qed
qed

section \<open>The protocol, stopped or not\<close>

definition ready :: "recovery \<Rightarrow> writer \<Rightarrow> finalize_intent \<Rightarrow> CollectedOutput list \<Rightarrow> fields \<Rightarrow> world \<Rightarrow> bool" where
  "ready X ew i outs fs w \<longleftrightarrow>
     pend X i outs fs w \<and> holds_file ew (rx_mid X) w \<and> agrees fs (wr_file ew) \<and>
     lim_MaxEventLineSize (wr_limits ew) \<in> {0, rx_cap X}"

lemma ready_recoverable:
  "ready X ew i outs fs w \<Longrightarrow> done_events (wr_file ew) = {} \<or> file_ready i outs w \<Longrightarrow> recoverable X w"
  unfolding ready_def recoverable_def holds_file_def by blast

text \<open>
  \<open>F\<close> are the fates allowed and \<open>Ex\<close> what must hold of a world where the protocol stopped
  short; whenever another fate than success is possible, every safe world will do.
\<close>

locale stoppable =
  fixes X :: recovery and F :: "fate \<Rightarrow> bool" and Ex :: "world \<Rightarrow> bool"
  assumes F_ok: "F FOk" and stop: "F f \<Longrightarrow> f \<noteq> FOk \<Longrightarrow> safe_world X w \<Longrightarrow> Ex w"
begin

lemma stop_recoverable: "F f \<Longrightarrow> f \<noteq> FOk \<Longrightarrow> recoverable X w \<Longrightarrow> Ex w"
  by (rule stop) (simp_all add: safe_world_def)

lemma append_done_ready:
  assumes "fits X fs" and "json_wf (JObj fs)"
  shows "triple (\<lambda>w. ready X ew i outs fs w \<and> file_ready i outs w) F (append_done (fe_msize (rx_env X)) (rx_mid X) ew fs sq)
    (\<lambda>_ w. pend X i outs fs w \<and> file_ready i outs w \<and> recorded fs (rx_mid X) w \<and> recoverable X w)
    (\<lambda>w. recoverable X w \<and> (\<exists>f. F f \<and> f \<noteq> FOk))"
  unfolding append_done_def
proof (rule triple_effect_total [where F = F, OF F_ok])
  let ?w = "\<lambda>ew' w. w\<lparr>wd_events := (wd_events w)(rx_mid X := Some (wr_file ew'))\<rparr>"
  have keep: "pend X i outs fs (?w ew' w) \<and> file_ready i outs (?w ew' w) \<and> recoverable X (?w ew' w)"
    if r: "ready X ew i outs fs w \<and> file_ready i outs w"
      and a: "AppendDoneIdempotent (fe_msize (rx_env X)) io fs sq ew = (q, ew')" for io q ew' w
  proof -
    from r have tk: "tail_known ew" and ag: "agrees fs (wr_file ew)" by (simp_all add: ready_def holds_file_def)
    have "agrees fs (wr_file ew')" by (rule AppendDoneIdempotent_agrees [OF a tk ag assms])
    moreover have "pend X i outs fs (?w ew' w)" "file_ready i outs (?w ew' w)"
      using r by (simp_all add: ready_def pend_def intact_def file_ready_def placed_def)
    ultimately show ?thesis unfolding recoverable_def by auto
  qed
  {
    fix w
    assume r: "ready X ew i outs fs w \<and> file_ready i outs w"
    then have lm: "lim_MaxEventLineSize (wr_limits ew) \<in> {0, rx_cap X}" and ag: "agrees fs (wr_file ew)"
      and tk: "tail_known ew" by (simp_all add: ready_def holds_file_def)
    have "line_fits (fe_msize (rx_env X)) (lim_MaxEventLineSize (wr_limits ew)) fs"
      using lm assms(1) by (auto simp: line_fits_def)
    from AppendDoneIdempotent_total [OF ag refl this] obtain ew' where
      a: "AppendDoneIdempotent (fe_msize (rx_env X)) (IoOk, IoOk, True) fs sq ew = (Inr (), ew')" by blast
    from keep [OF r a] AppendDoneIdempotent_matches [OF a assms(2) tk]
    show "case (case AppendDoneIdempotent (fe_msize (rx_env X)) (write_io FOk) fs sq ew of
        (r, ew') \<Rightarrow> (case FOk of FCrash x \<Rightarrow> Crash | _ \<Rightarrow> (case r of Inl e \<Rightarrow> Err e | Inr _ \<Rightarrow> Ret ew'), ?w ew' w))
      of (Ret x, w') \<Rightarrow> pend X i outs fs w' \<and> file_ready i outs w' \<and> recorded fs (rx_mid X) w' \<and> recoverable X w' | _ \<Rightarrow> False"
      by (simp add: write_io_def a recorded_def) blast
  }
  fix f w
  assume f: "F f" "f \<noteq> FOk" and r: "ready X ew i outs fs w \<and> file_ready i outs w"
  obtain q ew' where a: "AppendDoneIdempotent (fe_msize (rx_env X)) (write_io f) fs sq ew = (q, ew')"
    by (cases "AppendDoneIdempotent (fe_msize (rx_env X)) (write_io f) fs sq ew")
  have "recorded fs (rx_mid X) (?w ew' w)" if "q = Inr ()"
    using AppendDoneIdempotent_matches [OF a [unfolded that] assms(2)] r
    by (auto simp: recorded_def ready_def holds_file_def)
  with keep [OF r a] f show "case (case AppendDoneIdempotent (fe_msize (rx_env X)) (write_io f) fs sq ew of
      (r, ew') \<Rightarrow> (case f of FCrash x \<Rightarrow> Crash | _ \<Rightarrow> (case r of Inl e \<Rightarrow> Err e | Inr _ \<Rightarrow> Ret ew'), ?w ew' w))
    of (Ret x, w') \<Rightarrow> pend X i outs fs w' \<and> file_ready i outs w' \<and> recorded fs (rx_mid X) w' \<and> recoverable X w'
     | (_, w') \<Rightarrow> recoverable X w' \<and> (\<exists>f. F f \<and> f \<noteq> FOk)"
    unfolding a prod.case by (cases f; cases q) auto
qed

lemma append_or_conflict_ready:
  assumes "fits X fs" and "json_wf (JObj fs)" and "fi_MissionID i0 = rx_mid X"
  shows "triple (\<lambda>w. ready X ew i outs fs w \<and> file_ready i outs w) F (append_or_conflict (rx_env X) ew i0 fs)
    (\<lambda>_ w. pend X i outs fs w \<and> file_ready i outs w \<and> recorded fs (rx_mid X) w \<and> recoverable X w) Ex"
  unfolding append_or_conflict_def assms(3)
proof (rule triple_bind)
  let ?A = "\<lambda>w. pend X i outs fs w \<and> file_ready i outs w \<and> recorded fs (rx_mid X) w \<and> recoverable X w"
  let ?B = "\<lambda>w. recoverable X w \<and> (\<exists>f. F f \<and> f \<noteq> FOk)"
  show "triple (\<lambda>w. ready X ew i outs fs w \<and> file_ready i outs w) F
      (attempt (append_done (fe_msize (rx_env X)) (rx_mid X) ew fs (fi_DoneSeq i0)))
      (\<lambda>r w. case r of Inr x \<Rightarrow> ?A w | Inl e \<Rightarrow> ?B w) Ex"
    by (rule triple_attempt [where E' = ?B], rule triple_conseq [OF append_done_ready [OF assms(1,2)]])
      (auto intro: stop_recoverable)
  fix r
  have trip: "triple ?B F (trip k) (\<lambda>_. ?B) Ex" for k by (rule triple_trip) (simp add: critical_free)
  have err: "triple ?B F (err e) (\<lambda>_. ?A) Ex" for e
    by (rule triple_err) (auto intro: stop_recoverable)
  show "triple (\<lambda>w. case r of Inr x \<Rightarrow> ?A w | Inl e \<Rightarrow> ?B w) F
      (case r of Inl e \<Rightarrow> if e = ErrTerminalEventConflict then bindM (trip ''terminal_event_conflict'') (\<lambda>_. err e) else err e
        | Inr ew' \<Rightarrow> ret ew') (\<lambda>_. ?A) Ex"
  proof (cases r)
    case (Inl e)
    show ?thesis
      unfolding Inl sum.case by (simp split: if_split) (intro conjI impI triple_bind [OF trip] err)
  qed (simp add: triple_ret)
qed

lemma finished_recalc:
  assumes "finished X w" and "RecalcStagingTTL sid p (wd_db w) = Inr (x, d')"
  shows "finished X (w\<lparr>wd_db := d'\<rparr>)"
proof -
  from assms(2) obtain e where d': "d' = set_expires sid e (wd_db w)"
    by (auto simp: RecalcStagingTTL_def Let_def split: sum.splits)
  have s: "same_rows (wd_db w) d'" by (rule same_rows_recalc [OF assms(2)])
  have "in_phase_B (if b then s\<lparr>stg_TimeExpiresMs := e\<rparr> else s) = in_phase_B s" for b s by simp
  then have "settled (rx_sids X) d'"
    using assms(1) unfolding d' finished_def settled_def set_expires_find by auto
  with assms(1) s show ?thesis
    by (auto simp: finished_def same_rows_def find_mission_def find_intent_def)
qed

lemma recalc_outputs_finished: "triple (finished X) F (recalc_outputs p outputs) (\<lambda>_. finished X) Ex"
  unfolding recalc_outputs_def
proof (rule triple_each)
  fix op
  have "triple (finished X) F (attempt (tx_once (RecalcStagingTTL (co_StagingID op) p))) (\<lambda>_. finished X) Ex"
    unfolding tx_once_def
  proof (rule triple_attempt_effect [where F = F, OF F_ok])
    fix f w
    assume f: "F f" and fin: "finished X w"
    let ?t = "case tx_env f of [] \<Rightarrow> TxOk | (t, _) # _ \<Rightarrow> t"
    let ?fn = "RecalcStagingTTL (co_StagingID op) p"
    obtain r d where run: "WithWriter ?t ?fn (wd_db w) = (r, d)" by (cases "WithWriter ?t ?fn (wd_db w)")
    have "finished X (w\<lparr>wd_db := d\<rparr>)"
      using WithWriter_error [of ?t ?fn "wd_db w" _ d] WithWriter_ok [of ?t ?fn "wd_db w" _ d] run fin finished_recalc
      by (cases r) auto
    moreover have "Ex w" if "f = FCrash n" for n
      using stop [OF f] fin that by (simp add: safe_world_def)
    ultimately show "case (case f of FCrash x \<Rightarrow> (Crash, w) | _ \<Rightarrow> (case WithWriter ?t ?fn (wd_db w) of
        (r, d) \<Rightarrow> (sum_res r, w\<lparr>wd_db := d\<rparr>)))
      of (Ret x, w') \<Rightarrow> finished X w' | (Err e, w') \<Rightarrow> finished X w' | (Crash, w') \<Rightarrow> Ex w'"
      using fin unfolding run by (cases f; cases r) (auto simp: sum_res_def)
  qed
  then show "triple (finished X) F (bindM (attempt (tx_once (RecalcStagingTTL (co_StagingID op) p))) (\<lambda>_. ret ()))
      (\<lambda>_. finished X) Ex"
    by (rule triple_bind) (rule triple_ret)
qed

lemma commit_tx:
  assumes "like i0 i" and "mget fs ''outcome'' = Some (JStr (fi_Outcome i0))"
  shows "triple (\<lambda>w. pend X i outs fs w \<and> file_ready i outs w \<and> recorded fs (rx_mid X) w \<and> recoverable X w) F
    (tx_retry (commit_stmt dd i0 outs fin)) (\<lambda>gone w. \<not> gone \<and> finished X w) Ex"
proof (rule triple_tx_total [where F = F, OF F_ok])
  fix w
  assume a: "pend X i outs fs w \<and> file_ready i outs w \<and> recorded fs (rx_mid X) w \<and> recoverable X w"
  then have mid: "fi_MissionID i0 = rx_mid X" using assms(1) pend_mid by (auto simp: like_def)
  from a obtain m where m: "find_mission (rx_mid X) (wd_db w) = Some m" "unfinished m"
    and pd: "pend_db X i outs (wd_db w)" by (auto simp: pend_def pend_db_def)
  then have pd': "outs_ready (fi_MissionID i0) outs (wd_db w)" "db_ok (wd_db w)"
    "settled (rx_sids X - co_StagingID ` set outs) (wd_db w)" by (simp_all add: pend_db_def mid)
  from commit_stmt_ok [OF pd'(1) _ m(2) pd'(2,3), of dd fin] m(1) mid obtain d' where
    run: "commit_stmt dd i0 outs fin (wd_db w) = Inr (False, d')" and d': "db_ok d'"
      "find_mission (rx_mid X) d' = Some (finish_row i0 fin m)" "find_intent (rx_mid X) d' = None" "settled (rx_sids X) d'"
    by auto
  from a obtain f ev where "wd_events w (rx_mid X) = Some f" "ev \<in> done_events f" "doneEventsMatch ev fs"
    by (auto simp: recorded_def)
  with doneEventsMatch_outcome [OF _ assms(2)] d' have "finished X (w\<lparr>wd_db := d'\<rparr>)"
    by (auto simp: finished_def finish_row_def)
  with run show "\<exists>x d'. commit_stmt dd i0 outs fin (wd_db w) = Inr (x, d') \<and> \<not> x \<and> finished X (w\<lparr>wd_db := d'\<rparr>)"
    by blast
qed (auto intro: stop_recoverable)

lemma commitFinalize_ready:
  assumes "like i0 i"
  shows "triple (\<lambda>w. ready X ew i outs fs w \<and> file_ready i outs w) F
    (commitFinalize (rx_env X) ew i0 outs (rx_cfg X)) (\<lambda>_. finished X) Ex"
proof (rule triple_pure [where b = "extractDoneFields (fi_DoneEvent i) = Some fs \<and> intent_ok i \<and> fits X fs \<and> fi_MissionID i = rx_mid X"])
  fix w
  assume "ready X ew i outs fs w \<and> file_ready i outs w"
  then show "extractDoneFields (fi_DoneEvent i) = Some fs \<and> intent_ok i \<and> fits X fs \<and> fi_MissionID i = rx_mid X"
    using pend_mid by (auto simp: ready_def pend_def sized_def)
next
  assume b: "extractDoneFields (fi_DoneEvent i) = Some fs \<and> intent_ok i \<and> fits X fs \<and> fi_MissionID i = rx_mid X"
  with assms have ex: "extractDoneFields (fi_DoneEvent i0) = Some fs" and mid: "fi_MissionID i0 = rx_mid X"
    by (simp_all add: like_def)
  from b assms have out: "mget fs ''outcome'' = Some (JStr (fi_Outcome i0))" and wf: "json_wf (JObj fs)"
    using extract_ok [of i fs] by (simp_all add: like_def del: json_wf_simps)
  have tail: "triple (\<lambda>w. \<not> gone \<and> finished X w) F (if gone then ret ()
      else if outs \<noteq> [] \<and> fc_TTL (rx_cfg X) \<noteq> zero_policy then recalc_outputs (fc_TTL (rx_cfg X)) outs else ret ())
      (\<lambda>_. finished X) Ex" for gone
    by (auto intro: triple_ret triple_weaken_pre [OF recalc_outputs_finished])
  show "triple (\<lambda>w. ready X ew i outs fs w \<and> file_ready i outs w) F
      (commitFinalize (rx_env X) ew i0 outs (rx_cfg X)) (\<lambda>_. finished X) Ex"
    unfolding commitFinalize_def ex option.case Let_def
    by (rule triple_bind [OF append_or_conflict_ready [OF _ wf mid] triple_bind [OF commit_tx [OF assms out] tail]])
      (use b in simp)
qed

text \<open>Before the terminal event is written, files may come and go.\<close>

lemma remove_ready:
  "triple (\<lambda>w. ready X ew i outs fs w \<and> done_events (wr_file ew) = {}) F (remove p)
    (\<lambda>_ w. ready X ew i outs fs w \<and> done_events (wr_file ew) = {}) Ex"
  unfolding remove_def
proof (rule triple_effect [where F = F, OF F_ok])
  fix f w
  assume f: "F f" and r: "ready X ew i outs fs w \<and> done_events (wr_file ew) = {}"
  have "ready X ew i outs fs (w\<lparr>wd_files := (wd_files w)(p := None)\<rparr>)"
    using r by (auto simp: ready_def pend_def holds_file_def intact_def)
  moreover have "Ex w" if "f = FCrash n" for n
    using stop_recoverable [OF f] ready_recoverable r that by blast
  ultimately show "case (case f of FCrash x \<Rightarrow> (Crash, w) | FErr x \<Rightarrow> (Ret (), w)
      | _ \<Rightarrow> (Ret (), w\<lparr>wd_files := (wd_files w)(p := None)\<rparr>))
    of (Ret x, w') \<Rightarrow> ready X ew i outs fs w' \<and> done_events (wr_file ew) = {} | (_, w') \<Rightarrow> Ex w'"
    using r by (cases f) auto
qed

lemma remove_outputs_ready:
  "triple (\<lambda>w. ready X ew i outs fs w \<and> done_events (wr_file ew) = {}) F (remove_outputs os)
    (\<lambda>_ w. ready X ew i outs fs w \<and> done_events (wr_file ew) = {}) Ex"
  unfolding remove_outputs_def
  by (rule triple_each, rule triple_bind [OF remove_ready remove_ready])

lemma revert_tx:
  fixes sq :: int
  assumes "like i0 i" and "(fr, cause) \<in> revert_causes (rx_env X) outs"
  defines "upd \<equiv> failed_intent fr cause sq (revert_fields (fe_now (rx_env X)) i0 fr cause)"
  shows "triple (\<lambda>w. ready X ew i outs fs w \<and> done_events (wr_file ew) = {}) F
    (tx_retry (revert_stmt upd (rx_mid X) outs))
    (\<lambda>_ w. ready X ew (upd i) [] (revert_fields (fe_now (rx_env X)) i0 fr cause) w \<and> file_ready (upd i) [] w) Ex"
proof (rule triple_tx_total [where F = F, OF F_ok])
  let ?fs = "revert_fields (fe_now (rx_env X)) i0 fr cause"
  fix w
  assume r: "ready X ew i outs fs w \<and> done_events (wr_file ew) = {}"
  have id: "fi_MissionID (upd j) = fi_MissionID j" for j by (simp add: upd_def failed_intent_def)
  from r have "pend_db X i outs (wd_db w)" and sz: "sized X i outs" by (simp_all add: ready_def pend_def)
  from revert_ok [OF this(1) id] obtain d' where run: "revert_stmt upd (rx_mid X) outs (wd_db w) = Inr ((), d')"
    and pd: "pend_db X (upd i) [] d'" by blast
  have same: "?fs = revert_fields (fe_now (rx_env X)) i fr cause"
    using assms(1) by (simp add: revert_fields_def like_def)
  have "fits X ?fs" using sz assms(2) unfolding same sized_def by blast
  moreover have ex: "extractDoneFields (fi_DoneEvent (upd i)) = Some ?fs"
    using extract_event [of ?fs sq] by (simp add: upd_def failed_intent_def revert_fields_def buildDoneFields_get)
  ultimately have "sized X (upd i) []" by (simp add: sized_def revert_causes_def)
  moreover have "intent_ok (upd i)" unfolding upd_def by (rule failed_intent_ok)
  moreover have "has_outputs X (upd i) []"
    by (simp add: has_outputs_def upd_def failed_intent_def decodeIntentOutputsForDataDir_def)
  ultimately have "pend X (upd i) [] ?fs (w\<lparr>wd_db := d'\<rparr>)" using pd ex by (simp add: pend_def intact_def)
  moreover have "agrees ?fs (wr_file ew)" using r by (simp add: ready_def agrees_def)
  ultimately have "ready X ew (upd i) [] ?fs (w\<lparr>wd_db := d'\<rparr>)" using r by (simp add: ready_def holds_file_def)
  with run show "\<exists>x d'. revert_stmt upd (rx_mid X) outs (wd_db w) = Inr (x, d') \<and>
      ready X ew (upd i) [] ?fs (w\<lparr>wd_db := d'\<rparr>) \<and> file_ready (upd i) [] (w\<lparr>wd_db := d'\<rparr>)"
    by (auto simp: file_ready_def)
qed (auto intro: stop_recoverable ready_recoverable)

lemma revertFailedCommit_ready:
  assumes "like i0 i" and "(reason, cause) \<in> revert_causes (rx_env X) outs"
  shows "triple (\<lambda>w. ready X ew i outs fs w \<and> done_events (wr_file ew) = {}) F
    (revertFailedCommit (rx_env X) ew i0 outs (rx_cfg X) reason cause) (\<lambda>_. finished X) Ex"
proof (rule triple_pure [where b = "fi_MissionID i = rx_mid X"])
  fix w
  assume "ready X ew i outs fs w \<and> done_events (wr_file ew) = {}"
  then show "fi_MissionID i = rx_mid X" using pend_mid by (auto simp: ready_def)
next
  assume "fi_MissionID i = rx_mid X"
  with assms(1) have mid: "fi_MissionID i0 = rx_mid X" by (simp add: like_def)
  from assms(2) have ne: "reason \<noteq> []" by (auto simp: revert_causes_def)
  define upd where "upd = failed_intent reason cause (wrap64 (wr_seq ew + 1)) (revert_fields (fe_now (rx_env X)) i0 reason cause)"
  have "like ((upd i0)\<lparr>fi_FailMessage := nullStr cause\<rparr>) (upd i)"
    using assms(1) by (simp add: like_def upd_def failed_intent_def)
  note c = commitFinalize_ready [OF this]
  note tx = revert_tx [OF assms, where sq = "wrap64 (wr_seq ew + 1)", folded upd_def]
  show "triple (\<lambda>w. ready X ew i outs fs w \<and> done_events (wr_file ew) = {}) F
      (revertFailedCommit (rx_env X) ew i0 outs (rx_cfg X) reason cause) (\<lambda>_. finished X) Ex"
    unfolding revertFailedCommit_def Let_def if_not_P [OF ne] upd_def [symmetric] mid
    by (rule triple_bind [OF remove_outputs_ready triple_bind [OF tx c]])
qed

end

text \<open>One rename keeps the files intact and puts the output in place.\<close>

lemma rename_intact:
  assumes "intact (pre @ op # post) w" and "placed pre w" and "wd_files w (co_TmpPath op) = Some c"
  defines "w' \<equiv> w\<lparr>wd_files := (wd_files w)(co_TmpPath op := None, co_FinalPath op := Some c)\<rparr>"
  shows "intact (pre @ op # post) w' \<and> placed (pre @ [op]) w'"
proof -
  have c: "c = co_Sha256 op" using assms(1,3) by (auto simp: intact_def)
  define outs where "outs = pre @ op # post"
  from assms(1) have dt: "distinct (map co_TmpPath outs @ map co_FinalPath outs)"
    and ok: "\<And>q. q \<in> set outs \<Longrightarrow> co_Sha256 q \<noteq> [] \<and> wd_files w (co_TmpPath q) \<in> {None, Some (co_Sha256 q)} \<and>
        wd_files w (co_FinalPath q) \<in> {None, Some (co_Sha256 q)}"
    unfolding intact_def outs_def by blast+
  then have disj: "set (map co_TmpPath outs) \<inter> set (map co_FinalPath outs) = {}"
    and df: "distinct (map co_FinalPath outs)" by (simp_all only: distinct_append)
  have op: "op \<in> set outs" by (simp add: outs_def)
  have tmp: "co_TmpPath q \<noteq> co_FinalPath op" and fin: "co_FinalPath q \<noteq> co_TmpPath op" if "q \<in> set outs" for q
    using that op disj by (metis disjoint_iff image_eqI image_set)+
  have same: "q = op" if "q \<in> set outs" and "co_FinalPath q = co_FinalPath op" for q
    using that op df by (metis distinct_map inj_onD)
  have newf: "wd_files w' p = (if p = co_FinalPath op then Some (co_Sha256 op) else if p = co_TmpPath op then None else wd_files w p)" for p
    by (simp add: w'_def c)
  have "co_Sha256 q \<noteq> [] \<and> wd_files w' (co_TmpPath q) \<in> {None, Some (co_Sha256 q)} \<and>
        wd_files w' (co_FinalPath q) \<in> {None, Some (co_Sha256 q)}" if q: "q \<in> set outs" for q
    using ok [OF q] tmp [OF q] same [OF q] unfolding newf by auto
  with dt have "intact outs w'" unfolding intact_def by blast
  moreover have "wd_files w' (co_FinalPath q) = Some (co_Sha256 q)" if q: "q \<in> set (pre @ [op])" for q
  proof -
    have qo: "q \<in> set outs" using q by (auto simp: outs_def)
    show ?thesis
    proof (cases "q = op")
      case False
      with q assms(2) have "wd_files w (co_FinalPath q) = Some (co_Sha256 q)" by (simp add: placed_def)
      with False same [OF qo] fin [OF qo] show ?thesis unfolding newf by auto
    qed (simp add: newf)
  qed
  ultimately show ?thesis unfolding placed_def outs_def by blast
qed

context stoppable
begin

lemma rename_ready:
  assumes "outs = pre @ op # post"
  shows "triple (\<lambda>w. ready X ew i outs fs w \<and> done_events (wr_file ew) = {} \<and> placed pre w) F
    (attempt (rename (co_TmpPath op) (co_FinalPath op)))
    (\<lambda>r w. ready X ew i outs fs w \<and> done_events (wr_file ew) = {} \<and> (\<forall>x. r = Inr x \<longrightarrow> placed (pre @ [op]) w)) Ex"
  unfolding rename_def
proof (rule triple_attempt_effect [where F = F, OF F_ok])
  fix f w
  assume f: "F f" and r: "ready X ew i outs fs w \<and> done_events (wr_file ew) = {} \<and> placed pre w"
  have crash: "Ex w" if "f = FCrash n" for n
    using stop_recoverable [OF f] ready_recoverable r that by blast
  let ?w = "\<lambda>c. w\<lparr>wd_files := (wd_files w)(co_TmpPath op := None, co_FinalPath op := Some c)\<rparr>"
  have ok: "ready X ew i outs fs (?w c) \<and> placed (pre @ [op]) (?w c)" if "wd_files w (co_TmpPath op) = Some c" for c
  proof -
    have "intact (pre @ op # post) w" using r by (simp add: ready_def pend_def assms)
    with rename_intact [OF this _ that] r show ?thesis
      by (simp add: ready_def pend_def holds_file_def assms)
  qed
  show "case (case f of FCrash x \<Rightarrow> (Crash, w) | FErr x \<Rightarrow> (Err ErrIO, w)
      | _ \<Rightarrow> (case wd_files w (co_TmpPath op) of None \<Rightarrow> (Err ErrNotFound, w) | Some c \<Rightarrow> (Ret (), ?w c)))
    of (Ret x, w') \<Rightarrow> ready X ew i outs fs w' \<and> done_events (wr_file ew) = {} \<and> (\<forall>y. Inr x = Inr y \<longrightarrow> placed (pre @ [op]) w')
     | (Err e, w') \<Rightarrow> ready X ew i outs fs w' \<and> done_events (wr_file ew) = {} \<and> (\<forall>x. Inl e = Inr x \<longrightarrow> placed (pre @ [op]) w')
     | (Crash, w') \<Rightarrow> Ex w'"
    using r crash ok by (cases f; cases "wd_files w (co_TmpPath op)") auto
qed

lemma rename_outputs_ready:
  "outs = pre @ ops \<Longrightarrow>
   triple (\<lambda>w. ready X ew i outs fs w \<and> done_events (wr_file ew) = {} \<and> placed pre w) F (rename_outputs ops)
     (\<lambda>r w. ready X ew i outs fs w \<and> done_events (wr_file ew) = {} \<and>
        (case r of None \<Rightarrow> placed outs w | Some (p, _) \<Rightarrow> \<exists>op \<in> set outs. p = co_TmpPath op)) Ex"
proof (induction ops arbitrary: pre)
  case Nil
  then show ?case by (auto intro: triple_ret)
next
  case (Cons op ops)
  from Cons.prems have split: "outs = (pre @ [op]) @ ops" by simp
  show ?case
    unfolding rename_outputs.simps
  proof (rule triple_bind [OF rename_ready [OF Cons.prems]])
    fix r :: "error + unit"
    show "triple (\<lambda>w. ready X ew i outs fs w \<and> done_events (wr_file ew) = {} \<and> (\<forall>x. r = Inr x \<longrightarrow> placed (pre @ [op]) w)) F
      (case r of Inl e \<Rightarrow> ret (Some (co_TmpPath op, e)) | Inr _ \<Rightarrow> rename_outputs ops)
      (\<lambda>r w. ready X ew i outs fs w \<and> done_events (wr_file ew) = {} \<and>
        (case r of None \<Rightarrow> placed outs w | Some (p, _) \<Rightarrow> \<exists>op \<in> set outs. p = co_TmpPath op)) Ex"
    proof (cases r)
      case (Inl e)
      show ?thesis unfolding Inl sum.case by (rule triple_ret) (auto simp: Cons.prems)
    next
      case (Inr u)
      show ?thesis unfolding Inr sum.case by (rule triple_weaken_pre [OF Cons.IH [OF split]]) simp
    qed
  qed
qed

lemma like_phase [simp]: "like i0 (i\<lparr>fi_Phase := p\<rparr>) = like i0 i"
  by (simp add: like_def)

lemma phaseB1_tx:
  "triple (\<lambda>w. ready X ew i outs fs w \<and> done_events (wr_file ew) = {}) F (tx_retry (phaseB1_stmt outs (rx_mid X)))
    (\<lambda>_ w. ready X ew (i\<lparr>fi_Phase := PhaseCommitting\<rparr>) outs fs w \<and> done_events (wr_file ew) = {} \<and> placed [] w) Ex"
proof (rule triple_tx_total [where F = F, OF F_ok])
  fix w
  assume r: "ready X ew i outs fs w \<and> done_events (wr_file ew) = {}"
  then have "pend_db X i outs (wd_db w)" by (simp add: ready_def pend_def)
  from phaseB1_ok [OF this] obtain d' where run: "phaseB1_stmt outs (rx_mid X) (wd_db w) = Inr ((), d')"
    and pd: "pend_db X (i\<lparr>fi_Phase := PhaseCommitting\<rparr>) outs d'" by blast
  have "revert_fields now (i\<lparr>fi_Phase := PhaseCommitting\<rparr>) = revert_fields now i" for now
    by (intro ext) (simp add: revert_fields_def)
  with r pd have "ready X ew (i\<lparr>fi_Phase := PhaseCommitting\<rparr>) outs fs (w\<lparr>wd_db := d'\<rparr>)"
    by (simp add: ready_def pend_def holds_file_def sized_def has_outputs_def intact_def)
  with run r show "\<exists>x d'. phaseB1_stmt outs (rx_mid X) (wd_db w) = Inr (x, d') \<and>
      ready X ew (i\<lparr>fi_Phase := PhaseCommitting\<rparr>) outs fs (w\<lparr>wd_db := d'\<rparr>) \<and> done_events (wr_file ew) = {} \<and>
      placed [] (w\<lparr>wd_db := d'\<rparr>)"
    by (auto simp: placed_def)
qed (auto intro: stop_recoverable ready_recoverable)

lemma phase_B_ready:
  assumes "like i0 i" and "fi_MissionID i0 = rx_mid X"
  shows "triple (\<lambda>w. ready X ew i outs fs w \<and> done_events (wr_file ew) = {}) F
    (phase_B (rx_env X) ew i0 outs (rx_cfg X)) (\<lambda>_. finished X) Ex"
proof -
  let ?i = "i\<lparr>fi_Phase := PhaseCommitting\<rparr>"
  have lk: "like i0 ?i" using assms(1) by simp
  have go: "triple (\<lambda>w. ready X ew ?i outs fs w \<and> done_events (wr_file ew) = {} \<and>
        (case r of None \<Rightarrow> placed outs w | Some (p, _) \<Rightarrow> \<exists>op \<in> set outs. p = co_TmpPath op)) F
      (case r of Some (p, e) \<Rightarrow> revertFailedCommit (rx_env X) ew i0 outs (rx_cfg X) ''output_commit_failed''
           (''rename '' @ p @ '': '' @ fe_errtext (rx_env X) e)
         | None \<Rightarrow> commitFinalize (rx_env X) ew i0 outs (rx_cfg X)) (\<lambda>_. finished X) Ex" for r
  proof (cases r)
    case None
    show ?thesis
      unfolding None option.case
      by (rule triple_weaken_pre [OF commitFinalize_ready [OF lk, where fs = fs]]) (simp add: file_ready_def)
  next
    case (Some pe)
    obtain p e where pe: "pe = (p, e)" by (cases pe)
    show ?thesis
      unfolding Some pe option.case prod.case
    proof (rule triple_pure [where b = "\<exists>op \<in> set outs. p = co_TmpPath op"])
      assume "\<exists>op \<in> set outs. p = co_TmpPath op"
      then have "(''output_commit_failed'', ''rename '' @ p @ '': '' @ fe_errtext (rx_env X) e) \<in> revert_causes (rx_env X) outs"
        using revert_causes_err(1) by blast
      from revertFailedCommit_ready [OF lk this, of ew fs]
      show "triple (\<lambda>w. ready X ew ?i outs fs w \<and> done_events (wr_file ew) = {} \<and> (\<exists>op \<in> set outs. p = co_TmpPath op)) F
          (revertFailedCommit (rx_env X) ew i0 outs (rx_cfg X) ''output_commit_failed''
           (''rename '' @ p @ '': '' @ fe_errtext (rx_env X) e)) (\<lambda>_. finished X) Ex"
        by (rule triple_weaken_pre) simp
    qed simp
  qed
  show ?thesis
    unfolding phase_B_def assms(2)
    by (rule triple_bind [OF phaseB1_tx triple_bind [OF rename_outputs_ready go]]) simp
qed

end

section \<open>Repairing one intent\<close>

text \<open>Startup repair undisturbed by I/O errors: every effect succeeds or the daemon crashes again.\<close>

locale calm = stoppable +
  assumes calm: "F f \<Longrightarrow> f = FOk \<or> (\<exists>n. f = FCrash n)"
begin

lemma triple_calm:
  assumes "\<And>w. P w \<Longrightarrow> recoverable X w"
    and "\<And>w. P w \<Longrightarrow> (case step FOk w of (Ret x, w') \<Rightarrow> Q x w' | _ \<Rightarrow> False)"
    and "\<And>w n. step (FCrash n) w = (Crash, w)"
  shows "triple P F (effect step) Q Ex"
proof (rule triple_effect_total [where F = F, OF F_ok])
  fix f w
  assume f: "F f" "f \<noteq> FOk" and P: "P w"
  then obtain n where n: "f = FCrash n" using calm by blast
  have "Ex w" by (rule stop_recoverable [OF f assms(1) [OF P]])
  then show "case step f w of (Ret x, w') \<Rightarrow> Q x w' | (_, w') \<Rightarrow> Ex w'" by (simp add: n assms(3))
qed (rule assms(2))

lemma stat_calm:
  assumes "\<And>w. P w \<Longrightarrow> recoverable X w"
  shows "triple P F (stat p) (\<lambda>b w. P w \<and> (b \<longleftrightarrow> wd_files w p \<noteq> None)) Ex"
  unfolding stat_def by (rule triple_calm) (auto intro: assms)

lemma query_calm:
  assumes "\<And>w. P w \<Longrightarrow> recoverable X w" and "\<And>w. P w \<Longrightarrow> \<exists>x. q (wd_db w) = Inr x"
  shows "triple P F (query q) (\<lambda>_. P) Ex"
  unfolding query_def
proof (rule triple_calm)
  fix w
  assume P: "P w"
  with assms(2) obtain x where "q (wd_db w) = Inr x" by blast
  with P show "case (case FOk of FCrash x \<Rightarrow> (Crash, w) | FErr n \<Rightarrow> (Err (ErrSqlite (int n)), w)
      | _ \<Rightarrow> (sum_res (q (wd_db w)), w)) of (Ret x, w') \<Rightarrow> P w' | _ \<Rightarrow> False"
    by (simp add: sum_res_def)
qed (simp_all add: assms(1))

abbreviation held_ready :: "writer \<Rightarrow> finalize_intent \<Rightarrow> CollectedOutput list \<Rightarrow> fields \<Rightarrow> world \<Rightarrow> bool" where
  "held_ready ew i outs fs w \<equiv> ready X ew i outs fs w \<and> (done_events (wr_file ew) = {} \<or> file_ready i outs w)"

lemma labels_ok: "ready X ew i outs fs w \<Longrightarrow> \<exists>x. GetMissionLabels (rx_mid X) (wd_db w) = Inr x"
  by (auto simp: ready_def pend_def pend_db_def GetMissionLabels_def)

lemma reenter:
  assumes "fi_MissionID i = rx_mid X" and "has_outputs X i outs"
    and "\<And>w. P w \<Longrightarrow> held_ready ew i outs fs w" and "triple P F (k outs) (\<lambda>_. finished X) Ex"
  shows "triple P F (bindM (query (GetMissionLabels (fi_MissionID i))) (\<lambda>_.
      bindM (unmarshalIntentOutputs (fi_Outputs i) (fc_DataDir (rx_cfg X))) k)) (\<lambda>_. finished X) Ex"
proof -
  from assms(2) have u: "unmarshalIntentOutputs (fi_Outputs i) (fc_DataDir (rx_cfg X)) = ret outs"
    by (auto simp: has_outputs_def unmarshalIntentOutputs_def)
  have q: "triple P F (query (GetMissionLabels (rx_mid X))) (\<lambda>_. P) Ex"
    by (rule query_calm) (use assms(3) ready_recoverable labels_ok in blast)+
  have r: "triple P F (ret outs) (\<lambda>x w. x = outs \<and> P w) Ex" by (rule triple_ret) simp
  have k: "triple (\<lambda>w. x = outs \<and> P w) F (k x) (\<lambda>_. finished X) Ex" for x
    by (rule triple_pure [where b = "x = outs"]) (auto intro: triple_weaken_pre [OF assms(4)])
  show ?thesis
    unfolding assms(1) u by (rule triple_bind [OF q triple_bind [OF r k]])
qed

lemma like_refl [simp]: "like i i"
  by (simp add: like_def)

lemma commit_from_intent:
  assumes "fi_MissionID i = rx_mid X" and "has_outputs X i outs"
  shows "triple (\<lambda>w. ready X ew i outs fs w \<and> file_ready i outs w) F (CommitFromIntent (rx_env X) ew i (rx_cfg X)) (\<lambda>_. finished X) Ex"
  unfolding CommitFromIntent_def
  by (rule reenter [OF assms, where ew = ew and fs = fs]) (auto intro: commitFinalize_ready)

lemma continue_phase_B:
  assumes "fi_MissionID i = rx_mid X" and "has_outputs X i outs" and "outs \<noteq> []"
  shows "triple (\<lambda>w. ready X ew i outs fs w \<and> done_events (wr_file ew) = {}) F (ContinuePhaseB (rx_env X) ew i (rx_cfg X)) (\<lambda>_. finished X) Ex"
  unfolding ContinuePhaseB_def
proof (rule reenter [OF assms(1,2), where ew = ew and fs = fs])
  show "triple (\<lambda>w. ready X ew i outs fs w \<and> done_events (wr_file ew) = {}) F
      (if outs = [] then commitFinalize (rx_env X) ew i [] (rx_cfg X) else phase_B (rx_env X) ew i outs (rx_cfg X))
      (\<lambda>_. finished X) Ex"
    using phase_B_ready [OF like_refl assms(1)] assms(3) by simp
qed simp

lemma revert_intent:
  assumes "fi_MissionID i = rx_mid X" and "has_outputs X i outs" and "(reason, msg) \<in> revert_causes (rx_env X) outs"
  shows "triple (\<lambda>w. ready X ew i outs fs w \<and> done_events (wr_file ew) = {}) F
    (RevertIntentToFailed (rx_env X) ew i (rx_cfg X) reason msg) (\<lambda>_. finished X) Ex"
  unfolding RevertIntentToFailed_def
  by (rule reenter [OF assms(1,2), where ew = ew and fs = fs]) (auto intro: revertFailedCommit_ready [OF like_refl assms(3)])

lemma missing_tmp_ready:
  "set ops \<subseteq> set outs \<Longrightarrow>
   triple (\<lambda>w. ready X ew i outs fs w \<and> done_events (wr_file ew) = {}) F (missing_tmp ops)
     (\<lambda>r w. (ready X ew i outs fs w \<and> done_events (wr_file ew) = {}) \<and>
        (\<forall>role. r = Some role \<longrightarrow> (\<exists>op \<in> set outs. role = co_Role op))) Ex"
proof (induction ops)
  case (Cons op ops)
  let ?P = "\<lambda>w. ready X ew i outs fs w \<and> done_events (wr_file ew) = {}"
  have s: "triple ?P F (stat (co_TmpPath op)) (\<lambda>b w. ?P w \<and> (b \<longleftrightarrow> wd_files w (co_TmpPath op) \<noteq> None)) Ex"
    by (rule stat_calm) (use ready_recoverable in blast)
  have ih: "triple ?P F (missing_tmp ops) (\<lambda>r w. ?P w \<and> (\<forall>role. r = Some role \<longrightarrow> (\<exists>op \<in> set outs. role = co_Role op))) Ex"
    using Cons by simp
  show ?case
    unfolding missing_tmp.simps
  proof (rule triple_bind [OF s])
    fix b
    show "triple (\<lambda>w. ?P w \<and> (b \<longleftrightarrow> wd_files w (co_TmpPath op) \<noteq> None)) F
        (if b then missing_tmp ops else ret (Some (co_Role op)))
        (\<lambda>r w. ?P w \<and> (\<forall>role. r = Some role \<longrightarrow> (\<exists>op \<in> set outs. role = co_Role op))) Ex"
    proof (cases b)
      case True
      show ?thesis unfolding if_P [OF True] by (rule triple_weaken_pre [OF ih]) simp
    next
      case False
      show ?thesis unfolding if_not_P [OF False] by (rule triple_ret) (use Cons.prems in auto)
    qed
  qed
qed (auto intro: triple_ret)

text \<open>The state of the catch-up loop: the outputs before the current one are in place.\<close>

definition catching :: "writer \<Rightarrow> finalize_intent \<Rightarrow> CollectedOutput list \<Rightarrow> fields \<Rightarrow> CollectedOutput list \<Rightarrow> world \<Rightarrow> bool" where
  "catching ew i outs fs pre w \<longleftrightarrow>
     ready X ew i outs fs w \<and> placed pre w \<and> (done_events (wr_file ew) = {} \<or> placed outs w)"

lemma catching_recoverable:
  "fi_Phase i = PhaseCommitting \<Longrightarrow> catching ew i outs fs pre w \<Longrightarrow> recoverable X w"
  using ready_recoverable by (auto simp: catching_def file_ready_def)

lemma verify_calm:
  assumes "\<And>w. P w \<Longrightarrow> recoverable X w" and "\<And>w. P w \<Longrightarrow> wd_files w p = Some h" and "h \<noteq> []"
  shows "triple P F (verifyFinalSha p h) (\<lambda>v w. P w \<and> v = Inr False) Ex"
  unfolding verifyFinalSha_def if_not_P [OF assms(3)] by (rule triple_calm) (simp_all add: assms(1,2))

lemma drop_tmp:
  assumes "fi_Phase i = PhaseCommitting" and "outs = pre @ op # post"
  shows "triple (\<lambda>w. catching ew i outs fs pre w \<and> wd_files w (co_FinalPath op) \<noteq> None) F
    (if b then remove (co_TmpPath op) else ret ()) (\<lambda>_. catching ew i outs fs (pre @ [op])) Ex"
proof -
  have now: "catching ew i outs fs (pre @ [op]) w"
    if c: "catching ew i outs fs pre w" and f: "wd_files w (co_FinalPath op) \<noteq> None" for w
  proof -
    have "wd_files w (co_FinalPath op) = Some (co_Sha256 op)"
      using c f by (auto simp: catching_def ready_def pend_def intact_def assms(2))
    with c show ?thesis by (auto simp: catching_def placed_def)
  qed
  have removed: "catching ew i outs fs (pre @ [op]) (w\<lparr>wd_files := (wd_files w)(co_TmpPath op := None)\<rparr>)"
    if c: "catching ew i outs fs (pre @ [op]) w" for w
  proof -
    from c have "intact outs w" by (simp add: catching_def ready_def pend_def)
    then have "set (map co_TmpPath outs) \<inter> set (map co_FinalPath outs) = {}"
      unfolding intact_def by (simp only: distinct_append)
    then have ne: "co_FinalPath q \<noteq> co_TmpPath op" if "q \<in> set outs" for q
      using that assms(2) by (metis disjoint_iff image_eqI image_set in_set_conv_decomp)
    then have keep: "placed ps w \<Longrightarrow> set ps \<subseteq> set outs \<Longrightarrow> placed ps (w\<lparr>wd_files := (wd_files w)(co_TmpPath op := None)\<rparr>)" for ps
      by (auto simp: placed_def)
    have "ready X ew i outs fs (w\<lparr>wd_files := (wd_files w)(co_TmpPath op := None)\<rparr>)"
      using c by (auto simp: catching_def ready_def pend_def holds_file_def intact_def)
    with c keep [of "pre @ [op]"] keep [of outs] show ?thesis by (auto simp: catching_def assms(2))
  qed
  show ?thesis
  proof (cases b)
    case True
    have "triple (\<lambda>w. catching ew i outs fs pre w \<and> wd_files w (co_FinalPath op) \<noteq> None) F (remove (co_TmpPath op))
        (\<lambda>_. catching ew i outs fs (pre @ [op])) Ex"
      unfolding remove_def
      by (rule triple_calm) (auto intro: catching_recoverable [OF assms(1)] removed now)
    with True show ?thesis by simp
  qed (auto intro: triple_ret now)
qed

lemma rename_catching:
  assumes "fi_Phase i = PhaseCommitting" and "outs = pre @ op # post"
  shows "triple (\<lambda>w. catching ew i outs fs pre w \<and> wd_files w (co_TmpPath op) \<noteq> None \<and> wd_files w (co_FinalPath op) = None) F
    (attempt (rename (co_TmpPath op) (co_FinalPath op)))
    (\<lambda>r w. r = Inr () \<and> catching ew i outs fs (pre @ [op]) w) Ex"
  unfolding rename_def
proof (rule triple_attempt_effect [where F = F, OF F_ok])
  fix f w
  assume f: "F f" and c: "catching ew i outs fs pre w \<and> wd_files w (co_TmpPath op) \<noteq> None \<and> wd_files w (co_FinalPath op) = None"
  then obtain x where x: "wd_files w (co_TmpPath op) = Some x" by blast
  let ?w = "w\<lparr>wd_files := (wd_files w)(co_TmpPath op := None, co_FinalPath op := Some x)\<rparr>"
  have "intact (pre @ op # post) w" and pl: "placed pre w" using c by (simp_all add: catching_def ready_def pend_def assms(2))
  note new = rename_intact [OF this x]
  have "\<not> placed outs w" using c by (auto simp: placed_def assms(2))
  then have none: "done_events (wr_file ew) = {}" using c by (simp add: catching_def)
  have "ready X ew i outs fs ?w" using c new by (simp add: catching_def ready_def pend_def holds_file_def assms(2))
  with new none have ok: "catching ew i outs fs (pre @ [op]) ?w" by (simp add: catching_def)
  have crash: "Ex w" if "f = FCrash n" for n
    using stop_recoverable [OF f _ catching_recoverable [OF assms(1)]] c that by blast
  from calm [OF f] ok crash x
  show "case (case f of FCrash x \<Rightarrow> (Crash, w) | FErr x \<Rightarrow> (Err ErrIO, w)
      | _ \<Rightarrow> (case wd_files w (co_TmpPath op) of None \<Rightarrow> (Err ErrNotFound, w)
         | Some c \<Rightarrow> (Ret (), w\<lparr>wd_files := (wd_files w)(co_TmpPath op := None, co_FinalPath op := Some c)\<rparr>)))
    of (Ret x, w') \<Rightarrow> (Inr x :: error + unit) = Inr () \<and> catching ew i outs fs (pre @ [op]) w'
     | (Err e, w') \<Rightarrow> (Inl e :: error + unit) = Inr () \<and> catching ew i outs fs (pre @ [op]) w' | (Crash, w') \<Rightarrow> Ex w'"
    by auto
qed

lemma catch_up_ready:
  assumes "fi_Phase i = PhaseCommitting"
  shows "outs = pre @ ops \<Longrightarrow>
   triple (catching ew i outs fs pre) F (catch_up (rx_env X) ops)
     (\<lambda>r w. case r of None \<Rightarrow> ready X ew i outs fs w \<and> file_ready i outs w
        | Some c \<Rightarrow> (ready X ew i outs fs w \<and> done_events (wr_file ew) = {}) \<and> c \<in> revert_causes (rx_env X) outs) Ex"
proof (induction ops arbitrary: pre)
  case Nil
  then show ?case by (auto intro: triple_ret simp: catching_def file_ready_def assms)
next
  case (Cons op ops)
  let ?E = "rx_env X"
  let ?post = "\<lambda>r w. case r of None \<Rightarrow> ready X ew i outs fs w \<and> file_ready i outs w
        | Some c \<Rightarrow> (ready X ew i outs fs w \<and> done_events (wr_file ew) = {}) \<and> c \<in> revert_causes ?E outs"
  have split: "outs = (pre @ [op]) @ ops" and op: "op \<in> set outs" using Cons.prems by simp_all
  note ih = Cons.IH [OF split]
  note rec = catching_recoverable [OF assms]
  have sha: "co_Sha256 op \<noteq> []" if "catching ew i outs fs pre w" for w
    using that op by (auto simp: catching_def ready_def pend_def intact_def)
  let ?P = "\<lambda>t w. catching ew i outs fs pre w \<and> (t \<longleftrightarrow> wd_files w (co_TmpPath op) \<noteq> None)"
  let ?Q = "\<lambda>t f w. ?P t w \<and> (f \<longleftrightarrow> wd_files w (co_FinalPath op) \<noteq> None)"
  have s1: "triple (catching ew i outs fs pre) F (stat (co_TmpPath op)) ?P Ex" by (rule stat_calm) (rule rec)
  have s2: "triple (?P t) F (stat (co_FinalPath op)) (?Q t) Ex" for t by (rule stat_calm) (auto intro: rec)
  have present: "triple (?Q t True) F (bindM (verifyFinalSha (co_FinalPath op) (co_Sha256 op)) (\<lambda>v.
      case v of Inl e \<Rightarrow> ret (Some (''output_commit_corrupt'', ''sha verify error for '' @ co_Role op @ '': '' @ fe_errtext ?E e))
      | Inr mismatch \<Rightarrow> if mismatch then ret (Some (''output_commit_corrupt'', ''sha mismatch for '' @ co_Role op))
          else bindM (if t then remove (co_TmpPath op) else ret ()) (\<lambda>_. catch_up ?E ops))) ?post Ex"
    if ne: "co_Sha256 op \<noteq> []" for t
  proof (rule triple_bind)
    show "triple (?Q t True) F (verifyFinalSha (co_FinalPath op) (co_Sha256 op)) (\<lambda>v w. ?Q t True w \<and> v = Inr False) Ex"
      by (rule verify_calm) (use op ne in \<open>auto intro: rec simp: catching_def ready_def pend_def intact_def\<close>)
    fix v :: "error + bool"
    show "triple (\<lambda>w. ?Q t True w \<and> v = Inr False) F (case v of
        Inl e \<Rightarrow> ret (Some (''output_commit_corrupt'', ''sha verify error for '' @ co_Role op @ '': '' @ fe_errtext ?E e))
      | Inr mismatch \<Rightarrow> if mismatch then ret (Some (''output_commit_corrupt'', ''sha mismatch for '' @ co_Role op))
          else bindM (if t then remove (co_TmpPath op) else ret ()) (\<lambda>_. catch_up ?E ops)) ?post Ex"
    proof (rule triple_pure [where b = "v = Inr False"])
      assume v: "v = Inr False"
      have "triple (\<lambda>w. ?Q t True w \<and> v = Inr False) F
          (bindM (if t then remove (co_TmpPath op) else ret ()) (\<lambda>_. catch_up ?E ops)) ?post Ex"
        by (rule triple_weaken_pre [OF triple_bind [OF drop_tmp [OF assms Cons.prems] ih]]) blast
      then show "triple (\<lambda>w. ?Q t True w \<and> v = Inr False) F (case v of
          Inl e \<Rightarrow> ret (Some (''output_commit_corrupt'', ''sha verify error for '' @ co_Role op @ '': '' @ fe_errtext ?E e))
        | Inr mismatch \<Rightarrow> if mismatch then ret (Some (''output_commit_corrupt'', ''sha mismatch for '' @ co_Role op))
            else bindM (if t then remove (co_TmpPath op) else ret ()) (\<lambda>_. catch_up ?E ops)) ?post Ex"
        unfolding v sum.case if_False .
    qed blast
  qed
  have moved: "triple (?Q True False) F (bindM (attempt (rename (co_TmpPath op) (co_FinalPath op))) (\<lambda>r.
      case r of Inl e \<Rightarrow> ret (Some (''output_commit_failed'', ''rename failed for '' @ co_Role op @ '': '' @ fe_errtext ?E e))
      | Inr _ \<Rightarrow> catch_up ?E ops)) ?post Ex"
  proof (rule triple_bind)
    show "triple (?Q True False) F (attempt (rename (co_TmpPath op) (co_FinalPath op)))
        (\<lambda>r w. r = Inr () \<and> catching ew i outs fs (pre @ [op]) w) Ex"
      by (rule triple_weaken_pre [OF rename_catching [OF assms Cons.prems]]) blast
    fix r :: "error + unit"
    show "triple (\<lambda>w. r = Inr () \<and> catching ew i outs fs (pre @ [op]) w) F (case r of
        Inl e \<Rightarrow> ret (Some (''output_commit_failed'', ''rename failed for '' @ co_Role op @ '': '' @ fe_errtext ?E e))
      | Inr _ \<Rightarrow> catch_up ?E ops) ?post Ex"
    proof (rule triple_pure [where b = "r = Inr ()"])
      assume r: "r = Inr ()"
      show "triple (\<lambda>w. r = Inr () \<and> catching ew i outs fs (pre @ [op]) w) F (case r of
          Inl e \<Rightarrow> ret (Some (''output_commit_failed'', ''rename failed for '' @ co_Role op @ '': '' @ fe_errtext ?E e))
        | Inr _ \<Rightarrow> catch_up ?E ops) ?post Ex"
        unfolding r sum.case by (rule triple_weaken_pre [OF ih]) simp
    qed simp
  qed
  have absent: "triple (?Q False False) F
      (ret (Some (''output_commit_corrupt'', ''tmp+final missing for '' @ co_Role op))) ?post Ex"
  proof (rule triple_ret)
    fix w
    assume q: "?Q False False w"
    then have "\<not> placed outs w" using op unfolding placed_def by force
    with q show "?post (Some (''output_commit_corrupt'', ''tmp+final missing for '' @ co_Role op)) w"
      using revert_causes_in(4) [OF op] by (simp add: catching_def)
  qed
  show ?case
    unfolding catch_up.simps
  proof (rule triple_bind [OF s1], rule triple_bind [OF s2])
    fix t f
    show "triple (?Q t f) F
        (if f then (if co_Sha256 op = [] then ret (Some (''output_commit_corrupt'', ''missing declared sha for '' @ co_Role op))
          else bindM (verifyFinalSha (co_FinalPath op) (co_Sha256 op)) (\<lambda>v.
            case v of Inl e \<Rightarrow> ret (Some (''output_commit_corrupt'', ''sha verify error for '' @ co_Role op @ '': '' @ fe_errtext ?E e))
            | Inr mismatch \<Rightarrow> if mismatch then ret (Some (''output_commit_corrupt'', ''sha mismatch for '' @ co_Role op))
                else bindM (if t then remove (co_TmpPath op) else ret ()) (\<lambda>_. catch_up ?E ops)))
         else if t then bindM (attempt (rename (co_TmpPath op) (co_FinalPath op))) (\<lambda>r.
            case r of Inl e \<Rightarrow> ret (Some (''output_commit_failed'', ''rename failed for '' @ co_Role op @ '': '' @ fe_errtext ?E e))
            | Inr _ \<Rightarrow> catch_up ?E ops)
         else ret (Some (''output_commit_corrupt'', ''tmp+final missing for '' @ co_Role op))) ?post Ex"
    proof (rule triple_pure [where b = "co_Sha256 op \<noteq> []"])
      assume ne: "co_Sha256 op \<noteq> []"
      then show ?thesis
        using present [OF ne, of t] moved absent by (cases f; cases t) simp_all
    qed (use sha in blast)
  qed
qed

text \<open>Opening the events file of a recoverable mission succeeds.\<close>

lemma open_ready:
  "triple (\<lambda>w. recoverable X w \<and> find_intent (rx_mid X) (wd_db w) = Some i) F (attempt (open_events (rx_mid X)))
    (\<lambda>r w. \<exists>ew outs fs. r = Inr ew \<and> wr_limits ew = no_limits \<and> held_ready ew i outs fs w) Ex"
  unfolding open_events_def
proof (rule triple_attempt_effect [where F = F, OF F_ok])
  fix f w
  assume f: "F f" and a: "recoverable X w \<and> find_intent (rx_mid X) (wd_db w) = Some i"
  then obtain outs fs g where p: "pend X i outs fs w" and g: "wd_events w (rx_mid X) = Some g" "agrees fs g"
    and d: "done_events g = {} \<or> file_ready i outs w"
    by (auto simp: recoverable_def pend_def pend_db_def)
  define g' where "g' = (if ef_tail g = None then g else put_newline g)"
  define ew where "ew = (new_writer g')\<lparr>wr_seq := scan_seq 0 (scan_lines g')\<rparr>"
  let ?w = "w\<lparr>wd_events := (wd_events w)(rx_mid X := Some g')\<rparr>"
  have g': "scan_fits g'" "done_events g' = done_events g" "ef_tail g' = None"
    using g(2) by (auto simp: g'_def agrees_def)
  have o: "Open IoOk (wd_events w (rx_mid X)) = (Inr ew, Some g')"
    using g'(1) by (auto simp: g(1) ew_def Open_def terminateTornTail_def g'_def split: option.split)
  have "pend X i outs fs ?w" using p by (simp add: pend_def intact_def)
  with g g' have "ready X ew i outs fs ?w"
    by (simp add: ew_def ready_def holds_file_def tail_known_def new_writer_def no_limits_def agrees_def)
  moreover have "done_events (wr_file ew) = {} \<or> file_ready i outs ?w"
    using d g'(2) by (auto simp: ew_def new_writer_def file_ready_def placed_def)
  moreover have "wr_limits ew = no_limits" by (simp add: ew_def new_writer_def)
  ultimately have ok: "\<exists>outs fs. wr_limits ew = no_limits \<and> held_ready ew i outs fs ?w" by blast
  have crash: "Ex w" if "f = FCrash n" for n
    by (rule stop_recoverable [OF f]) (use a that in simp_all)
  let ?step = "case f of FCrash x \<Rightarrow> (Crash, w) | FErr x \<Rightarrow> (Err ErrIO, w)
      | _ \<Rightarrow> (case Open IoOk (wd_events w (rx_mid X)) of
           (r, f') \<Rightarrow> (sum_res r, w\<lparr>wd_events := (wd_events w)(rx_mid X := f')\<rparr>))"
  have "?step = (Ret ew, ?w) \<or> ?step = (Crash, w) \<and> Ex w"
    using calm [OF f] crash unfolding o by (auto simp: sum_res_def)
  then show "case ?step
    of (Ret x, w') \<Rightarrow> \<exists>ew outs fs. (Inr x :: error + writer) = Inr ew \<and> wr_limits ew = no_limits \<and> held_ready ew i outs fs w'
     | (Err e, w') \<Rightarrow> \<exists>ew outs fs. (Inl e :: error + writer) = Inr ew \<and> wr_limits ew = no_limits \<and> held_ready ew i outs fs w'
     | (Crash, w') \<Rightarrow> Ex w'"
  proof (elim disjE)
    assume s: "?step = (Ret ew, ?w)"
    show ?thesis unfolding s prod.case res.case using ok by blast
  next
    assume s: "?step = (Crash, w) \<and> Ex w"
    show ?thesis unfolding conjunct1 [OF s] prod.case res.case using s by blast
  qed
qed

lemma open_or_recreate_ready:
  "triple (\<lambda>w. recoverable X w \<and> find_intent (rx_mid X) (wd_db w) = Some i) F (open_or_recreate (rx_env X) (rx_mid X))
    (\<lambda>ew w. \<exists>outs fs. held_ready ew i outs fs w) Ex"
  unfolding open_or_recreate_def
proof (rule triple_bind [OF open_ready])
  fix r :: "error + writer"
  show "triple (\<lambda>w. \<exists>ew outs fs. r = Inr ew \<and> wr_limits ew = no_limits \<and> held_ready ew i outs fs w) F
      (case r of Inl e \<Rightarrow> if e = ErrNotFound then bindM (ensureEventsFile (rx_env X) (rx_mid X)) (\<lambda>_. open_events (rx_mid X)) else err e
        | Inr ew \<Rightarrow> ret ew) (\<lambda>ew w. \<exists>outs fs. held_ready ew i outs fs w) Ex"
  proof (rule triple_pure [where b = "\<exists>ew. r = Inr ew"])
    assume "\<exists>ew. r = Inr ew"
    then obtain ew where r: "r = Inr ew" by blast
    show ?thesis unfolding r sum.case by (rule triple_ret) blast
  qed blast
qed

lemma repair_phases:
  assumes "fi_MissionID i = rx_mid X" and "has_outputs X i outs"
  shows "triple (held_ready ew i outs fs) F
    (case fi_Phase i of
       PhasePrepared \<Rightarrow>
         if outs = [] then CommitFromIntent (rx_env X) ew i (rx_cfg X)
         else bindM (missing_tmp outs) (\<lambda>r. case r of
             Some role \<Rightarrow> RevertIntentToFailed (rx_env X) ew i (rx_cfg X) ''output_commit_failed'' (''tmp missing for '' @ role)
           | None \<Rightarrow> ContinuePhaseB (rx_env X) ew i (rx_cfg X))
     | PhaseCommitting \<Rightarrow>
         bindM (catch_up (rx_env X) outs) (\<lambda>r. case r of
             Some (reason, msg) \<Rightarrow> RevertIntentToFailed (rx_env X) ew i (rx_cfg X) reason msg
           | None \<Rightarrow> CommitFromIntent (rx_env X) ew i (rx_cfg X))) (\<lambda>_. finished X) Ex"
proof (cases "fi_Phase i")
  case PhasePrepared
  show ?thesis
  proof (cases "outs = []")
    case True
    have "triple (held_ready ew i outs fs) F (CommitFromIntent (rx_env X) ew i (rx_cfg X)) (\<lambda>_. finished X) Ex"
      by (rule triple_weaken_pre [OF commit_from_intent [OF assms, where fs = fs]]) (auto simp: file_ready_def True)
    with True PhasePrepared show ?thesis by simp
  next
    case False
    let ?P = "\<lambda>w. ready X ew i outs fs w \<and> done_events (wr_file ew) = {}"
    have go: "triple (\<lambda>w. ?P w \<and> (\<forall>role. r = Some role \<longrightarrow> (\<exists>op \<in> set outs. role = co_Role op))) F
        (case r of Some role \<Rightarrow> RevertIntentToFailed (rx_env X) ew i (rx_cfg X) ''output_commit_failed'' (''tmp missing for '' @ role)
           | None \<Rightarrow> ContinuePhaseB (rx_env X) ew i (rx_cfg X)) (\<lambda>_. finished X) Ex" for r
    proof (rule triple_pure [where b = "\<forall>role. r = Some role \<longrightarrow> (\<exists>op \<in> set outs. role = co_Role op)"])
      assume "\<forall>role. r = Some role \<longrightarrow> (\<exists>op \<in> set outs. role = co_Role op)"
      then have "(''output_commit_failed'', ''tmp missing for '' @ role) \<in> revert_causes (rx_env X) outs" if "r = Some role" for role
        using that revert_causes_in(1) by blast
      then have "triple ?P F (case r of Some role \<Rightarrow> RevertIntentToFailed (rx_env X) ew i (rx_cfg X) ''output_commit_failed'' (''tmp missing for '' @ role)
           | None \<Rightarrow> ContinuePhaseB (rx_env X) ew i (rx_cfg X)) (\<lambda>_. finished X) Ex"
        by (cases r) (auto intro: revert_intent [OF assms] continue_phase_B [OF assms False])
      then show ?thesis by (rule triple_weaken_pre) blast
    qed blast
    have "triple (held_ready ew i outs fs) F (missing_tmp outs)
        (\<lambda>r w. ?P w \<and> (\<forall>role. r = Some role \<longrightarrow> (\<exists>op \<in> set outs. role = co_Role op))) Ex"
      by (rule triple_weaken_pre [OF missing_tmp_ready]) (auto simp: file_ready_def False PhasePrepared)
    then show ?thesis
      unfolding PhasePrepared finalize_phase.case if_not_P [OF False] by (rule triple_bind [OF _ go])
  qed
next
  case PhaseCommitting
  let ?mid = "\<lambda>r w. case r of None \<Rightarrow> ready X ew i outs fs w \<and> file_ready i outs w
        | Some c \<Rightarrow> (ready X ew i outs fs w \<and> done_events (wr_file ew) = {}) \<and> c \<in> revert_causes (rx_env X) outs"
  have go: "triple (?mid r) F (case r of Some (reason, msg) \<Rightarrow> RevertIntentToFailed (rx_env X) ew i (rx_cfg X) reason msg
           | None \<Rightarrow> CommitFromIntent (rx_env X) ew i (rx_cfg X)) (\<lambda>_. finished X) Ex" for r
  proof (cases r)
    case None
    show ?thesis unfolding None option.case by (rule commit_from_intent [OF assms])
  next
    case (Some c)
    obtain reason msg where c: "c = (reason, msg)" by (cases c)
    show ?thesis
      unfolding Some c option.case prod.case
      by (rule triple_pure [where b = "(reason, msg) \<in> revert_causes (rx_env X) outs"], blast)
        (rule triple_weaken_pre [OF revert_intent [OF assms, where fs = fs]], simp_all)
  qed
  have "triple (held_ready ew i outs fs) F (catch_up (rx_env X) outs) ?mid Ex"
    by (rule triple_weaken_pre [OF catch_up_ready [OF PhaseCommitting, of outs "[]" outs]])
      (auto simp: catching_def placed_def file_ready_def)
  then show ?thesis
    unfolding PhaseCommitting finalize_phase.case by (rule triple_bind [OF _ go])
qed

lemma repairOne_ready:
  assumes "ValidateUUIDv7 (rx_mid X)" and "rc_fin rc = rx_cfg X" and "lim_MaxEventLineSize (rc_limits rc) = rx_cap X"
  shows "triple (\<lambda>w. recoverable X w \<and> find_intent (rx_mid X) (wd_db w) = Some i) F
    (repairOne (rx_env X) rc i) (\<lambda>_. finished X) Ex"
proof (rule triple_pure [where b = "fi_MissionID i = rx_mid X"])
  fix w
  assume "recoverable X w \<and> find_intent (rx_mid X) (wd_db w) = Some i"
  then show "fi_MissionID i = rx_mid X" by (auto simp: find_intent_def dest: sql_find_Some_in)
next
  assume mid: "fi_MissionID i = rx_mid X"
  define outs where "outs = decodeIntentOutputs (fi_Outputs i) (fc_DataDir (rx_cfg X))"
  obtain sh where sh: "ShardPath (rx_mid X) = Inr sh" using assms(1) by (simp add: ShardPath_def)
  have ho: "outs' = outs" if "has_outputs X i outs'" for outs'
    using that by (auto simp: has_outputs_def outs_def decodeIntentOutputs_def)
  have body: "triple (\<lambda>w. \<exists>outs fs. held_ready ew0 i outs fs w) F
      (case fi_Phase i of
       PhasePrepared \<Rightarrow>
         if outs = [] then CommitFromIntent (rx_env X) (SetLimits (rc_limits rc) ew0) i (rx_cfg X)
         else bindM (missing_tmp outs) (\<lambda>r. case r of
             Some role \<Rightarrow> RevertIntentToFailed (rx_env X) (SetLimits (rc_limits rc) ew0) i (rx_cfg X) ''output_commit_failed'' (''tmp missing for '' @ role)
           | None \<Rightarrow> ContinuePhaseB (rx_env X) (SetLimits (rc_limits rc) ew0) i (rx_cfg X))
     | PhaseCommitting \<Rightarrow>
         bindM (catch_up (rx_env X) outs) (\<lambda>r. case r of
             Some (reason, msg) \<Rightarrow> RevertIntentToFailed (rx_env X) (SetLimits (rc_limits rc) ew0) i (rx_cfg X) reason msg
           | None \<Rightarrow> CommitFromIntent (rx_env X) (SetLimits (rc_limits rc) ew0) i (rx_cfg X))) (\<lambda>_. finished X) Ex" for ew0
  proof -
    let ?ew = "SetLimits (rc_limits rc) ew0"
    have lim: "held_ready ew0 i o' fs w \<Longrightarrow> held_ready ?ew i o' fs w \<and> o' = outs \<and> has_outputs X i outs \<and> extractDoneFields (fi_DoneEvent i) = Some fs" for o' fs w
      using assms(3) ho by (auto simp: ready_def pend_def holds_file_def tail_known_def SetLimits_def)
    show ?thesis
    proof (rule triple_pure [where b = "has_outputs X i outs \<and> (\<exists>fs. extractDoneFields (fi_DoneEvent i) = Some fs)"])
      assume b: "has_outputs X i outs \<and> (\<exists>fs. extractDoneFields (fi_DoneEvent i) = Some fs)"
      then obtain fs where fs: "extractDoneFields (fi_DoneEvent i) = Some fs" by blast
      show ?thesis
        by (rule triple_weaken_pre [OF repair_phases [OF mid, where outs = outs and ew = ?ew and fs = fs]])
          (use b fs lim in \<open>fastforce+\<close>)
    qed (use lim in blast)
  qed
  show "triple (\<lambda>w. recoverable X w \<and> find_intent (rx_mid X) (wd_db w) = Some i) F
      (repairOne (rx_env X) rc i) (\<lambda>_. finished X) Ex"
    unfolding repairOne_def mid sh sum.case Let_def assms(2) outs_def [symmetric]
    by (rule triple_bind [OF open_or_recreate_ready body])
qed

end

section \<open>Finalize from the start\<close>

definition path_ok :: "string \<Rightarrow> string \<Rightarrow> bool" where
  "path_ok dataDir p \<longleftrightarrow> resolveIntentPath dataDir (relPathFromDataDir dataDir p) [] = p"

definition capped :: "recovery \<Rightarrow> FinalizeInputs \<Rightarrow> OutcomeResult" where
  "capped X inp = capOutcome (fin_Outcome inp) (rx_cfg X)"

definition start_inputs :: "recovery \<Rightarrow> FinalizeInputs \<Rightarrow> bool" where
  "start_inputs X inp \<longleftrightarrow>
     ValidateUUIDv7 (rx_mid X) \<and> fin_MissionID inp = rx_mid X \<and>
     raw_wf (or_Return (fin_Outcome inp)) \<and> raw_wf (or_FailDetails (fin_Outcome inp)) \<and>
     rx_sids X = co_StagingID ` set (fin_Outputs inp) \<and>
     distinct (map co_StagingID (fin_Outputs inp)) \<and> distinct (map co_Role (fin_Outputs inp)) \<and>
     (\<forall>op \<in> set (fin_Outputs inp). path_ok (fc_DataDir (rx_cfg X)) (co_TmpPath op) \<and>
        path_ok (fc_DataDir (rx_cfg X)) (co_FinalPath op)) \<and>
     (\<forall>s outs. in_i64 s \<longrightarrow> outs = [] \<or> outs = fin_Outputs inp \<longrightarrow>
        sized X (intent_of inp (capped X inp) outs (rx_cfg X) (fe_now (rx_env X)) s) outs)"

definition fresh_outputs :: "recovery \<Rightarrow> CollectedOutput list \<Rightarrow> db \<Rightarrow> bool" where
  "fresh_outputs X outs d \<longleftrightarrow>
     (\<forall>op \<in> set outs. find_staging (co_StagingID op) d = None \<and>
        (rx_mid X, RefOutput, co_Role op) \<notin> ref_role_key ` set (staging_refs d))"

definition start_world :: "recovery \<Rightarrow> CollectedOutput list \<Rightarrow> world \<Rightarrow> bool" where
  "start_world X outs w \<longleftrightarrow> idle X w \<and> intact outs w \<and> fresh_outputs X outs (wd_db w)"

lemma decode_marshal:
  assumes "\<forall>op \<in> set outs. path_ok dd (co_TmpPath op) \<and> path_ok dd (co_FinalPath op)"
  shows "decodeIntentOutputsForDataDir (marshalIntentOutputs outs dd) dd = outs"
  using assms
  by (induction outs) (auto simp: decodeIntentOutputsForDataDir_def marshalIntentOutputs_def path_ok_def)

text \<open>A path below the data directory, relative to it, that does not begin with two dots or a slash.\<close>

definition below :: "string \<Rightarrow> bool" where
  "below rel \<longleftrightarrow> rel \<noteq> [] \<and> \<not> has_prefix rel ''..'' \<and> \<not> has_prefix rel ''/''"

lemma rel_below: "below a \<Longrightarrow> relPathFromDataDir dd (dd @ ''/'' @ a) = a"
  by (simp add: relPathFromDataDir_def has_prefix_def below_def)

lemma resolve_below: "below a \<Longrightarrow> resolveIntentPath dd a lg = dd @ ''/'' @ a"
  by (simp add: resolveIntentPath_def path_join_def below_def)

lemma path_ok_below: "below a \<Longrightarrow> path_ok dd (dd @ ''/'' @ a)"
  by (simp only: path_ok_def rel_below resolve_below)

lemma insert_all:
  assumes "distinct (map co_StagingID outs)" and "\<forall>op \<in> set outs. find_staging (co_StagingID op) d = None"
  shows "each_stmt (\<lambda>op. InsertStaging (pending_row dd now op)) outs d =
    Inr ((), d\<lparr>staging_files := staging_files d @ map (pending_row dd now) outs\<rparr>)"
  using assms
proof (induction outs arbitrary: d)
  case (Cons op outs)
  let ?d = "d\<lparr>staging_files := staging_files d @ [pending_row dd now op]\<rparr>"
  have "InsertStaging (pending_row dd now op) d = Inr ((), ?d)"
    using Cons.prems by (simp add: InsertStaging_def sql_insert_def find_staging_def pending_row_def)
  moreover have "\<forall>q \<in> set outs. find_staging (co_StagingID q) ?d = None"
    using Cons.prems by (auto simp: find_staging_def pending_row_def)
  ultimately show ?case using Cons.IH [of ?d] Cons.prems(1) by simp
qed simp

lemma phaseA2_ok:
  assumes "fresh_outputs X outs d" and "distinct (map co_StagingID outs)" and "distinct (map co_Role outs)"
    and "db_ok d" and "find_mission (rx_mid X) d = Some m" and "unfinished m" and "find_intent (rx_mid X) d = None"
    and "settled (rx_sids X) d" and "fi_MissionID i = rx_mid X"
  shows "\<exists>d'. phaseA2_stmt dd now outs i d = Inr ((), d') \<and> pend_db X i outs d'"
proof -
  let ?d1 = "d\<lparr>staging_files := staging_files d @ map (pending_row dd now) outs\<rparr>"
  have e: "each_stmt (\<lambda>op. InsertStaging (pending_row dd now op)) outs d = Inr ((), ?d1)"
    using insert_all [OF assms(2)] assms(1) by (simp add: fresh_outputs_def)
  have "same_rows d ?d1" by (rule same_rows_each [OF _ e]) (rule same_rows_InsertStaging)
  then have ok1: "db_ok ?d1" using assms(4) by (simp add: same_rows_def)
  let ?d' = "?d1\<lparr>finalize_intents := finalize_intents d @ [i]\<rparr>"
  have ins: "InsertFinalizeIntent i ?d1 = Inr ((), ?d')"
    using assms(5,7,9) by (simp add: InsertFinalizeIntent_def sql_insert_def find_intent_def find_mission_def)
  have run: "phaseA2_stmt dd now outs i d = Inr ((), ?d')" by (simp add: phaseA2_stmt_def e ins)
  have stg: "find_staging sid ?d' = find_staging sid ?d1" for sid by (simp add: find_staging_def)
  have key: "stg_StagingID (pending_row dd now op) = co_StagingID op" for op by (simp add: pending_row_def)
  have "find_staging (co_StagingID op) ?d1 = Some (pending_row dd now op)" if "op \<in> set outs" for op
    using sql_find_in [OF db_ok_keyed(3) [OF ok1], of "pending_row dd now op"] that
    unfolding find_staging_def key by simp
  then have "outs_ready (rx_mid X) outs ?d'"
    using assms(1-3) unfolding outs_ready_def out_ready_def stg fresh_outputs_def by (simp add: pending_row_def)
  moreover have "settled (rx_sids X - co_StagingID ` set outs) ?d'"
    unfolding settled_def
  proof (intro ballI allI impI)
    fix sid s
    assume sid: "sid \<in> rx_sids X - co_StagingID ` set outs" and s: "find_staging sid ?d' = Some s"
    have "sql_find stg_StagingID sid (map (pending_row dd now) outs) = None"
      using sid by (auto simp: sql_find_None_iff pending_row_def)
    with s have "find_staging sid d = Some s" by (simp add: find_staging_def split: option.splits)
    with assms(8) sid show "\<not> in_phase_B s" unfolding settled_def by blast
  qed
  moreover have "find_intent (rx_mid X) ?d' = Some i"
    using assms(7,9) by (simp add: find_intent_def)
  moreover have "db_ok ?d'" by (rule InsertFinalizeIntent_db_ok [OF ins ok1])
  moreover have "find_mission (rx_mid X) ?d' = Some m" using assms(5) by (simp add: find_mission_def)
  ultimately show ?thesis using run assms(6) by (auto simp: pend_db_def)
qed

lemma start_remove: "start_world X outs w \<Longrightarrow> start_world X outs (w\<lparr>wd_files := (wd_files w)(p := None)\<rparr>)"
  by (auto simp: start_world_def idle_def intact_def)

definition opened :: "recovery \<Rightarrow> writer \<Rightarrow> CollectedOutput list \<Rightarrow> world \<Rightarrow> bool" where
  "opened X ew outs w \<longleftrightarrow> start_world X outs w \<and> holds_file ew (rx_mid X) w \<and> scan_fits (wr_file ew) \<and>
     done_events (wr_file ew) = {} \<and> wr_limits ew = no_limits"

context stoppable
begin

lemma start_safe: "F f \<Longrightarrow> f \<noteq> FOk \<Longrightarrow> start_world X outs w \<Longrightarrow> Ex w"
  by (rule stop) (simp_all add: safe_world_def start_world_def)

lemma remove_tmp_start: "triple (start_world X outs) F (remove_tmp os) (\<lambda>_. start_world X outs) Ex"
  unfolding remove_tmp_def
proof (rule triple_each)
  fix op
  show "triple (start_world X outs) F (remove (co_TmpPath op)) (\<lambda>_. start_world X outs) Ex"
    unfolding remove_def
    by (rule triple_effect [where F = F, OF F_ok]) (auto split: fate.split intro: start_remove start_safe)
qed

lemma open_start: "triple (start_world X outs) F (open_events (rx_mid X)) (\<lambda>ew. opened X ew outs) Ex"
  unfolding open_events_def
proof (rule triple_effect_total [where F = F, OF F_ok])
  have ok: "\<exists>ew f'. Open IoOk (wd_events w (rx_mid X)) = (Inr ew, Some f') \<and>
      opened X ew outs (w\<lparr>wd_events := (wd_events w)(rx_mid X := Some f')\<rparr>)" if s: "start_world X outs w" for w
  proof -
    from s obtain g where g: "wd_events w (rx_mid X) = Some g" "scan_fits g" "done_events g = {}"
      by (auto simp: start_world_def idle_def)
    define g' where "g' = (if ef_tail g = None then g else put_newline g)"
    have g': "scan_fits g'" "done_events g' = {}" "ef_tail g' = None"
      using g(2,3) by (auto simp: g'_def)
    have "Open IoOk (wd_events w (rx_mid X)) = (Inr ((new_writer g')\<lparr>wr_seq := scan_seq 0 (scan_lines g')\<rparr>), Some g')"
      using g'(1) by (auto simp: g(1) Open_def terminateTornTail_def g'_def split: option.split)
    moreover have "opened X ((new_writer g')\<lparr>wr_seq := scan_seq 0 (scan_lines g')\<rparr>) outs
        (w\<lparr>wd_events := (wd_events w)(rx_mid X := Some g')\<rparr>)"
      using s g' by (auto simp: opened_def start_world_def idle_def intact_def holds_file_def tail_known_def new_writer_def)
    ultimately show ?thesis by blast
  qed
  fix w
  assume s: "start_world X outs w"
  then obtain ew f' where o: "Open IoOk (wd_events w (rx_mid X)) = (Inr ew, Some f')"
    and op: "opened X ew outs (w\<lparr>wd_events := (wd_events w)(rx_mid X := Some f')\<rparr>)" using ok by blast
  show "case (case FOk of FCrash x \<Rightarrow> (Crash, w) | FErr x \<Rightarrow> (Err ErrIO, w)
      | _ \<Rightarrow> (case Open IoOk (wd_events w (rx_mid X)) of
           (r, f') \<Rightarrow> (sum_res r, w\<lparr>wd_events := (wd_events w)(rx_mid X := f')\<rparr>)))
    of (Ret ew, w') \<Rightarrow> opened X ew outs w' | _ \<Rightarrow> False"
    using op by (simp add: o sum_res_def)
  fix f
  assume f: "F f" "f \<noteq> FOk"
  have "Ex w" by (rule start_safe [OF f s])
  then show "case (case f of FCrash x \<Rightarrow> (Crash, w) | FErr x \<Rightarrow> (Err ErrIO, w)
      | _ \<Rightarrow> (case Open IoOk (wd_events w (rx_mid X)) of
           (r, f') \<Rightarrow> (sum_res r, w\<lparr>wd_events := (wd_events w)(rx_mid X := f')\<rparr>)))
    of (Ret ew, w') \<Rightarrow> opened X ew outs w' | (_, w') \<Rightarrow> Ex w'"
    using op by (cases f) (simp_all add: o sum_res_def)
qed

text \<open>The first transaction either records the intent or leaves the world as it was.\<close>

lemma phaseA2_tx:
  fixes inp :: FinalizeInputs and outs :: "CollectedOutput list"
  assumes "start_inputs X inp" and "outs = [] \<or> outs = fin_Outputs inp"
  defines "i \<equiv> \<lambda>ew. intent_of inp (capped X inp) outs (rx_cfg X) (fe_now (rx_env X)) (wrap64 (wr_seq ew + 1))"
    and "fs \<equiv> buildDoneFields (capped X inp) outs (fe_now (rx_env X)) (fin_TimeStartedMs inp) (fin_ProgressDropped inp)"
  shows "triple (opened X ew outs) F (tx_retry (phaseA2_stmt (fc_DataDir (rx_cfg X)) (fe_now (rx_env X)) outs (i ew)))
    (\<lambda>_ w. ready X ew (i ew) outs fs w \<and> done_events (wr_file ew) = {})
    (\<lambda>w. start_world X outs w \<and> (\<exists>f. F f \<and> f \<noteq> FOk))"
proof (rule triple_tx_total [where F = F, OF F_ok])
  fix w
  assume o: "opened X ew outs w"
  have mid: "fi_MissionID (i ew) = rx_mid X" using assms(1) by (simp add: i_def intent_of_def start_inputs_def)
  from o obtain m where "find_mission (rx_mid X) (wd_db w) = Some m" "unfinished m" "db_ok (wd_db w)"
    "find_intent (rx_mid X) (wd_db w) = None" "settled (rx_sids X) (wd_db w)" "fresh_outputs X outs (wd_db w)"
    by (auto simp: opened_def start_world_def idle_def)
  moreover have "distinct (map co_StagingID outs)" "distinct (map co_Role outs)"
    using assms(1,2) by (auto simp: start_inputs_def)
  ultimately obtain d' where
    run: "phaseA2_stmt (fc_DataDir (rx_cfg X)) (fe_now (rx_env X)) outs (i ew) (wd_db w) = Inr ((), d')"
    and pd: "pend_db X (i ew) outs d'" using phaseA2_ok mid by blast
  have "extractDoneFields (fi_DoneEvent (i ew)) = Some fs"
    using extract_event [of fs] by (simp add: i_def fs_def intent_of_def buildDoneFields_get)
  moreover have "sized X (i ew) outs"
    using assms(1,2) in_i64_wrap64 unfolding i_def start_inputs_def by blast
  moreover have "intent_ok (i ew)"
    unfolding i_def capped_def by (intro intent_of_ok raw_wf_cap) (use assms(1) in \<open>simp_all add: start_inputs_def\<close>)
  moreover have "\<forall>op \<in> set outs. path_ok (fc_DataDir (rx_cfg X)) (co_TmpPath op) \<and> path_ok (fc_DataDir (rx_cfg X)) (co_FinalPath op)"
    using assms(1,2) by (auto simp: start_inputs_def)
  then have "has_outputs X (i ew) outs" by (simp add: has_outputs_def i_def intent_of_def decode_marshal)
  moreover have "intact outs w" using o by (simp add: opened_def start_world_def)
  ultimately have "pend X (i ew) outs fs (w\<lparr>wd_db := d'\<rparr>)" using pd by (simp add: pend_def intact_def)
  with o have "ready X ew (i ew) outs fs (w\<lparr>wd_db := d'\<rparr>)"
    by (simp add: ready_def opened_def holds_file_def agrees_def no_limits_def)
  with run o show "\<exists>x d'. phaseA2_stmt (fc_DataDir (rx_cfg X)) (fe_now (rx_env X)) outs (i ew) (wd_db w) = Inr (x, d') \<and>
      ready X ew (i ew) outs fs (w\<lparr>wd_db := d'\<rparr>) \<and> done_events (wr_file ew) = {}"
    by (auto simp: opened_def)
qed (auto simp: opened_def)

lemma Finalize_body:
  assumes "start_inputs X inp" and "outs = [] \<or> outs = fin_Outputs inp"
  shows "triple (start_world X outs) F
    (bindM (open_events (rx_mid X)) (\<lambda>ew.
       bindM (attempt (tx_retry (phaseA2_stmt (fc_DataDir (rx_cfg X)) (fe_now (rx_env X)) outs
           (intent_of inp (capped X inp) outs (rx_cfg X) (fe_now (rx_env X)) (wrap64 (wr_seq ew + 1)))))) (\<lambda>a2.
         case a2 of
           Inl e \<Rightarrow> bindM (remove_tmp outs) (\<lambda>_. err e)
         | Inr _ \<Rightarrow>
             if outs = [] then commitFinalize (rx_env X) ew
               (intent_of inp (capped X inp) outs (rx_cfg X) (fe_now (rx_env X)) (wrap64 (wr_seq ew + 1))) [] (rx_cfg X)
             else phase_B (rx_env X) ew
               (intent_of inp (capped X inp) outs (rx_cfg X) (fe_now (rx_env X)) (wrap64 (wr_seq ew + 1))) outs (rx_cfg X))))
    (\<lambda>_. finished X) Ex"
proof (rule triple_bind [OF open_start])
  fix ew :: writer
  let ?i = "intent_of inp (capped X inp) outs (rx_cfg X) (fe_now (rx_env X)) (wrap64 (wr_seq ew + 1))"
  let ?fs = "buildDoneFields (capped X inp) outs (fe_now (rx_env X)) (fin_TimeStartedMs inp) (fin_ProgressDropped inp)"
  let ?A = "\<lambda>w. ready X ew ?i outs ?fs w \<and> done_events (wr_file ew) = {}"
  let ?B = "\<lambda>w. start_world X outs w \<and> (\<exists>f. F f \<and> f \<noteq> FOk)"
  have mid: "fi_MissionID ?i = rx_mid X" using assms(1) by (simp add: intent_of_def start_inputs_def)
  have a2: "triple (opened X ew outs) F
      (attempt (tx_retry (phaseA2_stmt (fc_DataDir (rx_cfg X)) (fe_now (rx_env X)) outs ?i)))
      (\<lambda>r w. case r of Inl e \<Rightarrow> ?B w | Inr x \<Rightarrow> ?A w) Ex"
    by (rule triple_attempt [where E' = ?B])
      (use phaseA2_tx [OF assms] start_safe in \<open>auto simp only: sum.case\<close>)
  have undo: "triple ?B F (bindM (remove_tmp outs) (\<lambda>_. err e)) (\<lambda>_. finished X) Ex" for e :: error
  proof (rule triple_pure [where b = "\<exists>f. F f \<and> f \<noteq> FOk"])
    assume "\<exists>f. F f \<and> f \<noteq> FOk"
    then have "triple (start_world X outs) F (bindM (remove_tmp outs) (\<lambda>_. err e)) (\<lambda>_. finished X) Ex"
      by (intro triple_bind [OF remove_tmp_start triple_err]) (blast intro: start_safe)
    then show "triple ?B F (bindM (remove_tmp outs) (\<lambda>_. err e)) (\<lambda>_. finished X) Ex"
      by (rule triple_weaken_pre) blast
  qed blast
  have go: "triple ?A F (if outs = [] then commitFinalize (rx_env X) ew ?i [] (rx_cfg X)
      else phase_B (rx_env X) ew ?i outs (rx_cfg X)) (\<lambda>_. finished X) Ex"
  proof (cases "outs = []")
    case True
    have "triple (\<lambda>w. ready X ew ?i outs ?fs w \<and> file_ready ?i outs w) F
        (commitFinalize (rx_env X) ew ?i outs (rx_cfg X)) (\<lambda>_. finished X) Ex"
      by (rule commitFinalize_ready) (simp add: like_def)
    then show ?thesis
      unfolding True [symmetric] if_P [OF refl]
      by (rule triple_weaken_pre) (simp add: file_ready_def True)
  next
    case False
    show ?thesis
      unfolding if_not_P [OF False] by (rule phase_B_ready [OF _ mid]) (simp add: like_def)
  qed
  show "triple (opened X ew outs) F
      (bindM (attempt (tx_retry (phaseA2_stmt (fc_DataDir (rx_cfg X)) (fe_now (rx_env X)) outs ?i))) (\<lambda>a2.
         case a2 of Inl e \<Rightarrow> bindM (remove_tmp outs) (\<lambda>_. err e)
         | Inr _ \<Rightarrow> if outs = [] then commitFinalize (rx_env X) ew ?i [] (rx_cfg X)
             else phase_B (rx_env X) ew ?i outs (rx_cfg X))) (\<lambda>_. finished X) Ex"
  proof (rule triple_bind [OF a2])
    fix r
    show "triple (\<lambda>w. case r of Inl e \<Rightarrow> ?B w | Inr x \<Rightarrow> ?A w) F
        (case r of Inl e \<Rightarrow> bindM (remove_tmp outs) (\<lambda>_. err e)
         | Inr _ \<Rightarrow> if outs = [] then commitFinalize (rx_env X) ew ?i [] (rx_cfg X)
             else phase_B (rx_env X) ew ?i outs (rx_cfg X)) (\<lambda>_. finished X) Ex"
      by (cases r) (simp_all only: sum.case undo go)
  qed
qed

lemma Finalize_ready:
  assumes "start_inputs X inp"
  shows "triple (start_world X (fin_Outputs inp)) F (Finalize (rx_env X) inp (rx_cfg X)) (\<lambda>_. finished X) Ex"
proof -
  obtain sh where sh: "ShardPath (rx_mid X) = Inr sh" using assms by (auto simp: ShardPath_def start_inputs_def)
  have mid: "fin_MissionID inp = rx_mid X" using assms by (simp add: start_inputs_def)
  have sub: "start_world X (fin_Outputs inp) w \<Longrightarrow> start_world X [] w" for w
    by (simp add: start_world_def intact_def fresh_outputs_def)
  have drop: "triple (start_world X (fin_Outputs inp)) F (remove_tmp (fin_Outputs inp)) (\<lambda>_. start_world X []) Ex"
    by (rule triple_conseq [OF remove_tmp_start]) (auto intro: sub)
  show ?thesis
  proof (cases "or_Outcome (capped X inp) \<noteq> ''success'' \<and> fin_Outputs inp \<noteq> []")
    case True
    show ?thesis
      unfolding Finalize_def mid sh sum.case Let_def capped_def [symmetric] if_P [OF True]
      by (rule triple_bind [OF drop Finalize_body [OF assms]]) simp
  next
    case False
    show ?thesis
      unfolding Finalize_def mid sh sum.case Let_def capped_def [symmetric] if_not_P [OF False]
      by (rule triple_bind [OF triple_ret Finalize_body [OF assms]]) simp_all
  qed
qed

end

section \<open>The protocol under each kind of disturbance\<close>

text \<open>
  Any fates at all; crashes only; no disturbance, where stopping short is impossible.
\<close>

interpretation any_fate: stoppable X "\<lambda>_. True" "safe_world X" for X
  by unfold_locales simp_all

interpretation crashing: calm X "\<lambda>f. f = FOk \<or> (\<exists>n. f = FCrash n)" "safe_world X" for X
  by unfold_locales auto

interpretation undisturbed: calm X "\<lambda>f. f = FOk" "\<lambda>_. False" for X
  by unfold_locales simp_all

section \<open>Restart after restart\<close>

text \<open>
  The daemon is started once for each element of \<open>fss\<close> and looks up the intent of the mission
  each time.
\<close>

definition crash_only :: "fate \<Rightarrow> bool" where
  "crash_only f \<longleftrightarrow> f = FOk \<or> (\<exists>n. f = FCrash n)"

fun restarts :: "fin_env \<Rightarrow> repair_cfg \<Rightarrow> string \<Rightarrow> fate list list \<Rightarrow> world \<Rightarrow> world" where
  "restarts E rc mid [] w = w"
| "restarts E rc mid (fs # fss) w =
     restarts E rc mid fss
       (case find_intent mid (wd_db w) of None \<Rightarrow> w | Some i \<Rightarrow> snd (snd (repairOne E rc i fs w)))"

lemma restarts_append: "restarts E rc mid (fss @ gss) w = restarts E rc mid gss (restarts E rc mid fss w)"
  by (induction fss arbitrary: w) auto

definition repair_setup :: "recovery \<Rightarrow> repair_cfg \<Rightarrow> bool" where
  "repair_setup X rc \<longleftrightarrow>
     ValidateUUIDv7 (rx_mid X) \<and> rc_fin rc = rx_cfg X \<and> lim_MaxEventLineSize (rc_limits rc) = rx_cap X"

lemma no_intent_safe:
  "safe_world X w \<Longrightarrow> find_intent (rx_mid X) (wd_db w) = None \<Longrightarrow> finished X w \<or> idle X w"
  by (auto simp: safe_world_def recoverable_def pend_def pend_db_def)

lemma intent_recoverable:
  "safe_world X w \<Longrightarrow> find_intent (rx_mid X) (wd_db w) = Some i \<Longrightarrow> recoverable X w"
  by (auto simp: safe_world_def finished_def idle_def)

lemma restart_safe:
  assumes "repair_setup X rc" and "list_all crash_only fs" and "safe_world X w"
  shows "safe_world X (restarts (rx_env X) rc (rx_mid X) [fs] w)"
proof (cases "find_intent (rx_mid X) (wd_db w)")
  case (Some i)
  obtain r fs' w' where run: "repairOne (rx_env X) rc i fs w = (r, fs', w')"
    by (cases "repairOne (rx_env X) rc i fs w")
  from assms(1) have "ValidateUUIDv7 (rx_mid X)" "rc_fin rc = rx_cfg X" "lim_MaxEventLineSize (rc_limits rc) = rx_cap X"
    by (simp_all add: repair_setup_def)
  note t = tripleD [OF crashing.repairOne_ready [OF this, where i = i] _ _ run]
  have "list_all (\<lambda>f. f = FOk \<or> (\<exists>n. f = FCrash n)) fs"
    using assms(2) by (simp add: crash_only_def [abs_def])
  with t intent_recoverable [OF assms(3) Some] Some have "case r of Ret x \<Rightarrow> finished X w' | _ \<Rightarrow> safe_world X w'"
    by blast
  then have "safe_world X w'" by (cases r) (auto simp: safe_world_def)
  with Some run show ?thesis by simp
qed (use assms(3) in simp)

lemma restarts_safe:
  assumes "repair_setup X rc" and "list_all (list_all crash_only) fss" and "safe_world X w"
  shows "safe_world X (restarts (rx_env X) rc (rx_mid X) fss w)"
  using assms(2,3)
proof (induction fss arbitrary: w)
  case (Cons fs fss)
  then have "safe_world X (restarts (rx_env X) rc (rx_mid X) [fs] w)"
    using restart_safe [OF assms(1)] by simp
  with Cons.IH Cons.prems(1) show ?case by simp
qed simp

lemma restart_undisturbed:
  assumes "repair_setup X rc" and "safe_world X w"
  defines "w' \<equiv> restarts (rx_env X) rc (rx_mid X) [[]] w"
  shows "finished X w' \<or> idle X w'"
proof (cases "find_intent (rx_mid X) (wd_db w)")
  case None
  with no_intent_safe [OF assms(2)] show ?thesis by (simp add: w'_def)
next
  case (Some i)
  obtain r fs' w1 where run: "repairOne (rx_env X) rc i [] w = (r, fs', w1)"
    by (cases "repairOne (rx_env X) rc i [] w")
  from assms(1) have "ValidateUUIDv7 (rx_mid X)" "rc_fin rc = rx_cfg X" "lim_MaxEventLineSize (rc_limits rc) = rx_cap X"
    by (simp_all add: repair_setup_def)
  note t = tripleD [OF undisturbed.repairOne_ready [OF this, where i = i] _ _ run]
  from t intent_recoverable [OF assms(2) Some] Some have "case r of Ret x \<Rightarrow> finished X w1 | _ \<Rightarrow> False"
    by simp
  then have "finished X w1" by (cases r) simp_all
  with Some run show ?thesis by (simp add: w'_def)
qed

lemma Finalize_safe:
  assumes "start_inputs X inp" and "start_world X (fin_Outputs inp) w"
    and "Finalize (rx_env X) inp (rx_cfg X) fs w = (r, fs', w')"
  shows "safe_world X w' \<and> (\<forall>x. r = Ret x \<longrightarrow> finished X w')"
proof -
  have "list_all (\<lambda>_. True) fs" by (simp add: list_all_iff)
  from tripleD [OF any_fate.Finalize_ready [OF assms(1)] assms(2) this assms(3)]
  show ?thesis by (cases r) (auto simp: safe_world_def)
qed

lemma Finalize_undisturbed:
  assumes "start_inputs X inp" and "start_world X (fin_Outputs inp) w"
    and "Finalize (rx_env X) inp (rx_cfg X) [] w = (r, fs', w')"
  shows "r = Ret () \<and> finished X w'"
proof -
  have "list_all (\<lambda>f. f = FOk) []" by simp
  from tripleD [OF undisturbed.Finalize_ready [OF assms(1)] assms(2) this assms(3)]
  show ?thesis by (cases r) auto
qed

end
