(* ===== verification/Daemon.thy ===== *)
theory Daemon
  imports Upload Recovery
begin

text \<open>
  The daemon as a whole: every procedure of the development that changes the database, the events
  files or the staged files, in any order and any number, each under any errors and crashes, as
  one step relation on worlds.
\<close>

section \<open>Procedures that keep terminal states published\<close>

definition runs :: "'a proc \<Rightarrow> world \<Rightarrow> world \<Rightarrow> bool" where
  "runs m w w' \<longleftrightarrow> (\<exists>fs. snd (snd (m fs w)) = w')"

locale daemon_proc =
  fixes m :: "'a proc"
  assumes keeps: "triple fin_inv any m (\<lambda>_. fin_inv) fin_inv"
begin

lemma runs_keeps:
  assumes "runs m w w'" and "fin_inv w"
  shows "fin_inv w'"
proof -
  obtain fs r fs' where run: "m fs w = (r, fs', w')"
    using assms(1) by (metis runs_def prod.collapse)
  have "list_all any fs" by (simp add: list_all_iff)
  from tripleD [OF keeps assms(2) this run] show ?thesis by (cases r) simp_all
qed

end

interpretation startup: daemon_proc "startup_repair E cfg st" for E cfg st
  by unfold_locales (rule startup_repair_inv)

interpretation kill: daemon_proc "Kill E dataDir ctx rt mid" for E dataDir ctx rt mid
  by unfold_locales (rule Kill_inv)

interpretation configure: daemon_proc "Apply E opts wanted mg" for E opts wanted mg
  by unfold_locales (rule Apply_inv)

lemma cleaner_keeps: "triple fin_inv any (MissionCleaner_RunOnce c clock) (\<lambda>_. fin_inv) fin_inv"
proof (rule tripleI)
  fix fs w r fs' w'
  assume "fin_inv w" "list_all any fs" "MissionCleaner_RunOnce c clock fs w = (r, fs', w')"
  from tripleD [OF MissionCleaner_inv [of c clock "wd_db w"] _ this(2,3)] this(1)
  show "list_all any fs' \<and> (case r of Ret x \<Rightarrow> fin_inv w' | _ \<Rightarrow> fin_inv w')"
    by (auto simp: sweep_inv_def keeps_refl split: res.splits)
qed

interpretation cleaner: daemon_proc "MissionCleaner_RunOnce c clock" for c clock
  by unfold_locales (rule cleaner_keeps)

lemma gc_keeps: "triple fin_inv any (StagingGC_RunOnce g nowMs locked) (\<lambda>_. fin_inv) fin_inv"
proof (rule tripleI)
  fix fs w r fs' w'
  assume "fin_inv w" "list_all any fs" "StagingGC_RunOnce g nowMs locked fs w = (r, fs', w')"
  from tripleD [OF StagingGC_inv [of g nowMs locked "wd_db w"] _ this(2,3)] this(1)
  show "list_all any fs' \<and> (case r of Ret x \<Rightarrow> fin_inv w' | _ \<Rightarrow> fin_inv w')"
    by (auto simp: gc_inv_def spares_refl fin_inv_def split: res.splits)
qed

interpretation gc: daemon_proc "StagingGC_RunOnce g nowMs locked" for g nowMs locked
  by unfold_locales (rule gc_keeps)

interpretation download: daemon_proc "staging_Get dataDir now served sid" for dataDir now served sid
  by unfold_locales (rule staging_Get_inv)

text \<open>Those that hold only for reasonable inputs and well-behaved other requests.\<close>

lemma finalize_proc:
  "raw_wf (or_Return (fin_Outcome inp)) \<Longrightarrow> raw_wf (or_FailDetails (fin_Outcome inp)) \<Longrightarrow> daemon_proc (Finalize E inp cfg)"
  by unfold_locales (rule Finalize_inv)

abbreviation nothing_else :: "db \<Rightarrow> bool" where
  "nothing_else d \<equiv> True"

lemma dispatch_outcome_inv: "dispatch_outcome D H key req p w \<Longrightarrow> fin_inv w"
  by (auto simp: dispatch_outcome_def created_def split: if_splits)

lemma exec_outcome_inv: "exec_outcome D H key req p w \<Longrightarrow> fin_inv w"
  by (auto simp: exec_outcome_def created_def split: if_splits)

lemma dispatch_proc: "steady nothing_else key g \<Longrightarrow> daemon_proc (Dispatch H g mg mg' key b)"
  by (rule daemon_proc.intro, rule triple_conseq [OF Dispatch_outcome [of nothing_else key g H mg mg' b]])
    (simp, simp, blast dest: dispatch_outcome_inv, blast)

lemma exec_proc: "steady nothing_else key g \<Longrightarrow> daemon_proc (ExecDispatch H g mg mg' key b)"
  by (rule daemon_proc.intro, rule triple_conseq [OF ExecDispatch_outcome [of nothing_else key g H mg mg' b]])
    (simp, simp, blast dest: exec_outcome_inv, blast)

lemma delete_proc:
  "(\<And>k. harmless nothing_else (we_others (de_wait X) k)) \<Longrightarrow> harmless nothing_else (de_others X) \<Longrightarrow> daemon_proc (deleteOne X rt mid force)"
  by unfold_locales
    (rule triple_conseq [OF deleteOne_outcome [where D = nothing_else]]; auto simp: deleted_or_kept_def)

lemma sdelete_proc:
  "(\<And>mid k. harmless nothing_else (we_others (sd_wait X mid) k)) \<Longrightarrow> harmless nothing_else (sd_others X) \<Longrightarrow>
     daemon_proc (staging_Delete X rt sid force_text)"
  by unfold_locales
    (rule triple_conseq [OF staging_Delete_outcome [where D = nothing_else]]; auto simp: removed_or_kept_def)

section \<open>The daemon\<close>

text \<open>
  A restart draws an identifier that no mission has.  Pickups and the updates of a running
  mission's process columns are single statements.
\<close>

inductive daemon_step :: "world \<Rightarrow> world \<Rightarrow> bool" where
  finalize: "raw_wf (or_Return (fin_Outcome inp)) \<Longrightarrow> raw_wf (or_FailDetails (fin_Outcome inp)) \<Longrightarrow>
     runs (Finalize E inp cfg) w w' \<Longrightarrow> daemon_step w w'"
| startup: "runs (startup_repair E rcfg st) w w' \<Longrightarrow> daemon_step w w'"
| dispatch: "steady nothing_else key g \<Longrightarrow> runs (Dispatch H g mg mg' key b) w w' \<Longrightarrow> daemon_step w w'"
| exec: "steady nothing_else key g \<Longrightarrow> runs (ExecDispatch H g mg mg' key xb) w w' \<Longrightarrow> daemon_step w w'"
| restart: "find_mission newID (wd_db w) = None \<Longrightarrow> steady nothing_else newID g \<Longrightarrow>
     runs (restartOne H ctx g mg newID mid) w w' \<Longrightarrow> daemon_step w w'"
| delete: "(\<And>k. harmless nothing_else (we_others (de_wait X) k)) \<Longrightarrow> harmless nothing_else (de_others X) \<Longrightarrow>
     runs (deleteOne X rt mid force) w w' \<Longrightarrow> daemon_step w w'"
| unstage: "(\<And>mid k. harmless nothing_else (we_others (sd_wait Y mid) k)) \<Longrightarrow> harmless nothing_else (sd_others Y) \<Longrightarrow>
     runs (staging_Delete Y rt sid force_text) w w' \<Longrightarrow> daemon_step w w'"
| download: "runs (staging_Get dataDir nowMs served sid) w w' \<Longrightarrow> daemon_step w w'"
| kill: "runs (Kill E dataDir ctx rt mid) w w' \<Longrightarrow> daemon_step w w'"
| configure: "runs (Apply E opts wanted mg) w w' \<Longrightarrow> daemon_step w w'"
| clean: "runs (MissionCleaner_RunOnce c clock) w w' \<Longrightarrow> daemon_step w w'"
| collect: "runs (StagingGC_RunOnce gcfg nowMs locked) w w' \<Longrightarrow> daemon_step w w'"
| pickup: "MarkRunning mid nowMs 0 0 0 (wd_db w) = Inr ((), d') \<Longrightarrow> daemon_step w (w\<lparr>wd_db := d'\<rparr>)"
| spawned: "UpdateRunningPidAndTimeStarted mid pid pgid ps t (wd_db w) = Inr ((), d') \<Longrightarrow> daemon_step w (w\<lparr>wd_db := d'\<rparr>)"

text \<open>An update of a row that leaves it unfinished.\<close>

lemma statement_step:
  assumes upd: "guarded_update mid G f (wd_db w) = Inr ((), d')" and inv: "fin_inv w"
    and id: "\<And>m. msn_ID (f m) = msn_ID m" and parent: "\<And>m. msn_RestartedFrom (f m) = msn_RestartedFrom m"
    and unf: "\<And>m. G m \<Longrightarrow> msn_Status (f m) \<noteq> StatusDone"
  shows "fin_inv (w\<lparr>wd_db := d'\<rparr>)"
proof (rule quiet_inv [OF inv])
  have "db_ok d'" using inv by (intro guarded_update_db_ok [OF upd id parent]) (simp add: fin_inv_def)
  with upd unf show "quiet (wd_db w) d'"
    by (auto simp: guarded_update_def quiet_def sql_update_def split: if_splits)
qed

lemma restart_step:
  assumes "find_mission newID (wd_db w) = None" and "steady nothing_else newID g" and "runs (restartOne H ctx g mg newID mid) w w'"
    and "fin_inv w"
  shows "fin_inv w'"
proof -
  obtain fs r fs' where run: "restartOne H ctx g mg newID mid fs w = (r, fs', w')"
    using assms(3) by (metis runs_def prod.collapse)
  have "vacant nothing_else newID w" "list_all any fs" using assms(1,4) by (simp_all add: vacant_def list_all_iff)
  from tripleD [OF restartOne_outcome [OF assms(2)] this run] show ?thesis
    by (auto simp: restart_outcome_def restarted_def created_def vacant_def split: res.splits if_splits)
qed

lemma daemon_step_keeps: "daemon_step w w' \<Longrightarrow> fin_inv w \<Longrightarrow> fin_inv w'"
proof (induction rule: daemon_step.induct)
  case (pickup mid nowMs w d')
  then show ?case unfolding MarkRunning_def by (elim statement_step) simp_all
next
  case (spawned mid pid pgid ps t w d')
  then show ?case unfolding UpdateRunningPidAndTimeStarted_def by (elim statement_step) simp_all
qed (auto intro: daemon_proc.runs_keeps [OF finalize_proc] daemon_proc.runs_keeps [OF dispatch_proc]
    daemon_proc.runs_keeps [OF exec_proc] daemon_proc.runs_keeps [OF delete_proc] daemon_proc.runs_keeps [OF sdelete_proc] restart_step
    download.runs_keeps startup.runs_keeps kill.runs_keeps configure.runs_keeps cleaner.runs_keeps gc.runs_keeps)

lemma daemon_keeps: "daemon_step\<^sup>*\<^sup>* w w' \<Longrightarrow> fin_inv w \<Longrightarrow> fin_inv w'"
  by (induction rule: rtranclp_induct) (auto intro: daemon_step_keeps)

end
