(* ===== verification/KeyLock.thy ===== *)
theory KeyLock
  imports Prelude
begin

text \<open>
  The per-key lock of the dispatch endpoints (\<^verbatim>\<open>internal/server/handlers/keymutex.go\<close>) as a
  transition system: entries live in a heap, the map holds the current entry of a key, and each
  request moves through the places where it gives up or takes a mutex.  What runs under \<^verbatim>\<open>k.mu\<close> is
  one step.
\<close>

section \<open>State and steps\<close>

record kmEntry =
  km_mu :: bool
  km_refCount :: int

text \<open>Where a request stands: before or after, with its entry taken but not locked, inside, past \<^verbatim>\<open>e.mu.Unlock\<close>.\<close>

datatype place = Outside | Waiting string nat | Inside string nat | Leaving string nat

record KeyMutex =
  km_m :: "string \<rightharpoonup> nat"
  km_heap :: "nat \<Rightarrow> kmEntry"
  km_fresh :: nat
  km_at :: "nat \<Rightarrow> place"

definition NewKeyMutex :: KeyMutex where
  "NewKeyMutex = \<lparr>km_m = Map.empty, km_heap = (\<lambda>_. \<lparr>km_mu = False, km_refCount = 0\<rparr>), km_fresh = 0, km_at = (\<lambda>_. Outside)\<rparr>"

definition add_ref :: "int \<Rightarrow> nat \<Rightarrow> KeyMutex \<Rightarrow> KeyMutex" where
  "add_ref n a k = k\<lparr>km_heap := (km_heap k)(a := (km_heap k a)\<lparr>km_refCount := km_refCount (km_heap k a) + n\<rparr>)\<rparr>"

text \<open>\<^verbatim>\<open>Lock\<close> up to \<^verbatim>\<open>k.mu.Unlock\<close>: the entry of the key, made if there is none, with one more reference.\<close>

definition lock_entry :: "string \<Rightarrow> KeyMutex \<Rightarrow> nat \<times> KeyMutex" where
  "lock_entry key k =
     (case km_m k key of
        Some a \<Rightarrow> (a, add_ref 1 a k)
      | None \<Rightarrow>
          let a = km_fresh k;
              k1 = k\<lparr>km_m := (km_m k)(key \<mapsto> a), km_heap := (km_heap k)(a := \<lparr>km_mu = False, km_refCount = 0\<rparr>),
                     km_fresh := Suc a\<rparr>
          in (a, add_ref 1 a k1))"

definition set_mu :: "bool \<Rightarrow> nat \<Rightarrow> KeyMutex \<Rightarrow> KeyMutex" where
  "set_mu b a k = k\<lparr>km_heap := (km_heap k)(a := (km_heap k a)\<lparr>km_mu := b\<rparr>)\<rparr>"

text \<open>The end of the unlock function: one reference less, and the key is dropped with the last one.\<close>

definition drop_ref :: "string \<Rightarrow> nat \<Rightarrow> KeyMutex \<Rightarrow> KeyMutex" where
  "drop_ref key a k =
     (let k1 = add_ref (- 1) a k
      in if km_refCount (km_heap k1 a) = 0 then k1\<lparr>km_m := (km_m k1)(key := None)\<rparr> else k1)"

definition move :: "nat \<Rightarrow> place \<Rightarrow> KeyMutex \<Rightarrow> KeyMutex" where
  "move t p k = k\<lparr>km_at := (km_at k)(t := p)\<rparr>"

definition Size :: "KeyMutex \<Rightarrow> nat" where
  "Size k = card (dom (km_m k))"

inductive km_step :: "KeyMutex \<Rightarrow> KeyMutex \<Rightarrow> bool" where
  enter: "km_at k t = Outside \<Longrightarrow> lock_entry key k = (a, k') \<Longrightarrow> km_step k (move t (Waiting key a) k')"
| acquire: "km_at k t = Waiting key a \<Longrightarrow> \<not> km_mu (km_heap k a) \<Longrightarrow> km_step k (move t (Inside key a) (set_mu True a k))"
| unlock: "km_at k t = Inside key a \<Longrightarrow> km_step k (move t (Leaving key a) (set_mu False a k))"
| leave: "km_at k t = Leaving key a \<Longrightarrow> km_step k (move t Outside (drop_ref key a k))"

inductive km_reach :: "KeyMutex \<Rightarrow> bool" where
  start: "km_reach NewKeyMutex"
| step: "km_reach k \<Longrightarrow> km_step k k' \<Longrightarrow> km_reach k'"

inductive_cases km_stepE: "km_step k k'"

section \<open>The invariant\<close>

text \<open>The key and the entry of a request under way.\<close>

fun at_entry :: "place \<Rightarrow> (string \<times> nat) option" where
  "at_entry Outside = None"
| "at_entry (Waiting key a) = Some (key, a)"
| "at_entry (Inside key a) = Some (key, a)"
| "at_entry (Leaving key a) = Some (key, a)"

fun is_inside :: "place \<Rightarrow> bool" where
  "is_inside (Inside _ _) = True"
| "is_inside _ = False"

definition uses :: "KeyMutex \<Rightarrow> nat \<Rightarrow> nat set" where
  "uses k a = {t. \<exists>key. at_entry (km_at k t) = Some (key, a)}"

definition inside :: "KeyMutex \<Rightarrow> nat \<Rightarrow> nat set" where
  "inside k a = {t \<in> uses k a. is_inside (km_at k t)}"

text \<open>
  The entry a request uses is the current one of its key; an entry in the map was allocated,
  belongs to one key, is in use, counts its users, and its mutex is taken exactly while one
  request is inside.
\<close>

definition entry_ok :: "KeyMutex \<Rightarrow> string \<Rightarrow> nat \<Rightarrow> bool" where
  "entry_ok k key a \<longleftrightarrow>
     a < km_fresh k \<and> (\<forall>key'. km_m k key' = Some a \<longrightarrow> key' = key) \<and> uses k a \<noteq> {} \<and> finite (uses k a) \<and>
     km_refCount (km_heap k a) = int (card (uses k a)) \<and>
     (if km_mu (km_heap k a) then \<exists>t. inside k a = {t} else inside k a = {})"

definition km_inv :: "KeyMutex \<Rightarrow> bool" where
  "km_inv k \<longleftrightarrow>
     (\<forall>t key a. at_entry (km_at k t) = Some (key, a) \<longrightarrow> km_m k key = Some a) \<and>
     (\<forall>key a. km_m k key = Some a \<longrightarrow> entry_ok k key a)"

lemma km_invD:
  assumes "km_inv k"
  shows "at_entry (km_at k t) = Some (key, a) \<Longrightarrow> km_m k key = Some a" "km_m k key = Some a \<Longrightarrow> entry_ok k key a"
  using assms by (simp_all add: km_inv_def)

lemma uses_at [simp]:
  "uses (move t p k) a = (if \<exists>key. at_entry p = Some (key, a) then insert t (uses k a) else uses k a - {t})"
  "uses (k\<lparr>km_m := m\<rparr>) a = uses k a" "uses (k\<lparr>km_heap := h\<rparr>) a = uses k a" "uses (k\<lparr>km_fresh := n\<rparr>) a = uses k a"
  by (auto simp: uses_def move_def)

lemma inside_at [simp]:
  "inside (move t p k) a = (if (\<exists>key. at_entry p = Some (key, a)) \<and> is_inside p then insert t (inside k a) else inside k a - {t})"
  "inside (k\<lparr>km_m := m\<rparr>) a = inside k a" "inside (k\<lparr>km_heap := h\<rparr>) a = inside k a" "inside (k\<lparr>km_fresh := n\<rparr>) a = inside k a"
  by (auto simp: inside_def) (auto simp: uses_def move_def split: if_splits)

lemma move_simps [simp]:
  "km_m (move t p k) = km_m k" "km_heap (move t p k) = km_heap k" "km_fresh (move t p k) = km_fresh k"
  "km_at (move t p k) = (km_at k)(t := p)"
  by (simp_all add: move_def)

lemma set_mu_simps [simp]:
  "km_m (set_mu b a k) = km_m k" "km_fresh (set_mu b a k) = km_fresh k" "km_at (set_mu b a k) = km_at k"
  "km_heap (set_mu b a k) c = (if c = a then (km_heap k a)\<lparr>km_mu := b\<rparr> else km_heap k c)"
  "uses (set_mu b a k) c = uses k c" "inside (set_mu b a k) c = inside k c"
  by (simp_all add: set_mu_def)

lemma add_ref_simps [simp]:
  "km_m (add_ref n a k) = km_m k" "km_fresh (add_ref n a k) = km_fresh k" "km_at (add_ref n a k) = km_at k"
  "km_heap (add_ref n a k) c = (if c = a then (km_heap k a)\<lparr>km_refCount := km_refCount (km_heap k a) + n\<rparr> else km_heap k c)"
  "uses (add_ref n a k) c = uses k c" "inside (add_ref n a k) c = inside k c"
  by (simp_all add: add_ref_def)

lemma uses_outside: "km_at k t = Outside \<Longrightarrow> t \<notin> uses k a" "km_at k t = Outside \<Longrightarrow> t \<notin> inside k a"
  by (simp_all add: uses_def inside_def)

lemma inv_enter:
  assumes inv: "km_inv k" and t: "km_at k t = Outside" and l: "lock_entry key k = (a, k')"
  shows "km_inv (move t (Waiting key a) k')"
proof (cases "km_m k key")
  case (Some b)
  then have k': "a = b" "k' = add_ref 1 a k" using l by (auto simp: lock_entry_def)
  have "entry_ok (move t (Waiting key a) k') key' c" if "km_m k key' = Some c" for key' c
    using km_invD(2) [OF inv that] uses_outside [OF t] by (auto simp: entry_ok_def k')
  with inv Some show ?thesis by (auto simp: km_inv_def k')
next
  case None
  let ?k = "k\<lparr>km_m := (km_m k)(key \<mapsto> a), km_heap := (km_heap k)(a := \<lparr>km_mu = False, km_refCount = 0\<rparr>), km_fresh := Suc a\<rparr>"
  have k': "a = km_fresh k" "k' = add_ref 1 a ?k" using None l by (auto simp: lock_entry_def Let_def)
  have new: "km_m k key' \<noteq> Some a" for key'
    using km_invD(2) [OF inv, of key' a] by (auto simp: entry_ok_def k')
  then have none: "uses k a = {}" using km_invD(1) [OF inv] by (auto simp: uses_def)
  then have "inside k a = {}" by (simp add: inside_def)
  with none have "entry_ok (move t (Waiting key a) k') key a"
    using new by (auto simp: entry_ok_def k'(2))
  moreover have "entry_ok (move t (Waiting key a) k') key' c" if "km_m k key' = Some c" for key' c
  proof -
    have "c < a" "c \<noteq> a" using km_invD(2) [OF inv that] by (simp_all add: entry_ok_def k'(1))
    with km_invD(2) [OF inv that] uses_outside [OF t] None show ?thesis
      by (auto simp: entry_ok_def k'(2))
  qed
  ultimately show ?thesis
    using inv None by (auto simp: km_inv_def k'(2) split: if_splits)
qed

lemma inv_acquire:
  assumes inv: "km_inv k" and t: "km_at k t = Waiting key a" and free: "\<not> km_mu (km_heap k a)"
  shows "km_inv (move t (Inside key a) (set_mu True a k))"
proof -
  have m: "km_m k key = Some a" using km_invD(1) [OF inv, of t] t by simp
  have "t \<in> uses k c \<longleftrightarrow> c = a" for c using t by (auto simp: uses_def)
  moreover have "t \<notin> inside k c" for c using t by (simp add: inside_def)
  ultimately have "entry_ok (move t (Inside key a) (set_mu True a k)) key' c" if "km_m k key' = Some c" for key' c
    using km_invD(2) [OF inv that] free by (auto simp: entry_ok_def insert_absorb)
  with inv m show ?thesis by (auto simp: km_inv_def)
qed

lemma inv_unlock:
  assumes inv: "km_inv k" and t: "km_at k t = Inside key a"
  shows "km_inv (move t (Leaving key a) (set_mu False a k))"
proof -
  have m: "km_m k key = Some a" using km_invD(1) [OF inv, of t] t by simp
  have u: "t \<in> uses k c \<longleftrightarrow> c = a" for c using t by (auto simp: uses_def)
  then have i: "t \<in> inside k c \<longleftrightarrow> c = a" for c using t by (simp add: inside_def)
  have "entry_ok (move t (Leaving key a) (set_mu False a k)) key' c" if "km_m k key' = Some c" for key' c
  proof (cases "c = a")
    case True
    then have "inside k a = {t}" using km_invD(2) [OF inv that] i [of a] by (auto simp: entry_ok_def split: if_splits)
    with True km_invD(2) [OF inv that] u [of a] show ?thesis by (auto simp: entry_ok_def insert_absorb)
  next
    case False
    with km_invD(2) [OF inv that] u i show ?thesis by (auto simp: entry_ok_def)
  qed
  with inv m show ?thesis by (auto simp: km_inv_def)
qed

lemma inv_leave:
  assumes inv: "km_inv k" and t: "km_at k t = Leaving key a"
  shows "km_inv (move t Outside (drop_ref key a k))"
proof -
  have m: "km_m k key = Some a" using km_invD(1) [OF inv, of t] t by simp
  note e = km_invD(2) [OF inv m]
  have u: "t \<in> uses k c \<longleftrightarrow> c = a" for c using t by (auto simp: uses_def)
  have i: "t \<notin> inside k c" for c using t by (simp add: inside_def)
  have c: "int (card (uses k a - {t})) = km_refCount (km_heap k a) - 1"
    using e u [of a] by (simp add: entry_ok_def card_Diff_singleton of_nat_diff Suc_leI card_gt_0_iff)
  have gone: "uses k a - {t} = {} \<longleftrightarrow> km_refCount (km_heap k a) = 1"
  proof -
    have "uses k a - {t} = {} \<longleftrightarrow> card (uses k a - {t}) = 0" using e by (simp add: entry_ok_def)
    with c show ?thesis by linarith
  qed
  have m': "km_m (drop_ref key a k) = (if km_refCount (km_heap k a) = 1 then (km_m k)(key := None) else km_m k)"
    by (auto simp: drop_ref_def Let_def)
  have rest: "uses (drop_ref key a k) = uses k" "inside (drop_ref key a k) = inside k"
      "km_fresh (drop_ref key a k) = km_fresh k" "km_at (drop_ref key a k) = km_at k"
      "km_heap (drop_ref key a k) = km_heap (add_ref (- 1) a k)"
    by (auto simp: drop_ref_def Let_def fun_eq_iff)
  have "entry_ok (move t Outside (drop_ref key a k)) key' b" if "km_m (drop_ref key a k) key' = Some b" for key' b
  proof -
    have b: "km_m k key' = Some b" using that by (auto simp: m' split: if_splits)
    show ?thesis
    proof (cases "b = a")
      case True
      with b e have "key' = key" by (simp add: entry_ok_def)
      with that have "km_refCount (km_heap k a) \<noteq> 1" by (auto simp: m' split: if_splits)
      with True e c gone i \<open>key' = key\<close> show ?thesis by (auto simp: entry_ok_def rest m')
    next
      case False
      with km_invD(2) [OF inv b] u i show ?thesis by (auto simp: entry_ok_def rest m' split: if_splits)
    qed
  qed
  moreover have "km_m (drop_ref key a k) key' = Some b" if "at_entry (km_at k t') = Some (key', b)" "t' \<noteq> t" for t' key' b
  proof -
    have "km_m k key' = Some b" using km_invD(1) [OF inv that(1)] .
    moreover have "km_refCount (km_heap k a) \<noteq> 1" if "key' = key"
    proof -
      have "b = a" using m \<open>km_m k key' = Some b\<close> that by simp
      then have "t' \<in> uses k a - {t}" using \<open>at_entry (km_at k t') = Some (key', b)\<close> \<open>t' \<noteq> t\<close> by (auto simp: uses_def)
      with gone show ?thesis by auto
    qed
    ultimately show ?thesis by (auto simp: m')
  qed
  ultimately show ?thesis by (auto simp: km_inv_def rest(4))
qed

lemma km_reach_inv: "km_reach k \<Longrightarrow> km_inv k"
proof (induction rule: km_reach.induct)
  case start
  show ?case by (simp add: km_inv_def NewKeyMutex_def)
next
  case (step k k')
  from step.hyps(2) step.IH show ?case
    by (cases rule: km_step.cases) (auto intro: inv_enter inv_acquire inv_unlock inv_leave)
qed

section \<open>What the lock promises\<close>

text \<open>Two requests inside with the same key are the same request.\<close>

lemma km_exclusive:
  assumes "km_reach k" and "km_at k t = Inside key a" and "km_at k u = Inside key b"
  shows "u = t"
proof -
  note inv = km_reach_inv [OF assms(1)]
  have "km_m k key = Some a" "km_m k key = Some b"
    using km_invD(1) [OF inv, of t key a] km_invD(1) [OF inv, of u key b] assms(2,3) by simp_all
  then have "entry_ok k key a" "b = a" using km_invD(2) [OF inv] by auto
  moreover have "t \<in> inside k a" "u \<in> inside k b" using assms(2,3) by (auto simp: inside_def uses_def)
  ultimately show ?thesis by (auto simp: entry_ok_def split: if_splits)
qed

text \<open>The map holds exactly the keys of the requests under way; none is kept when all are done.\<close>

lemma km_keys: "km_reach k \<Longrightarrow> dom (km_m k) = {key. \<exists>t a. at_entry (km_at k t) = Some (key, a)}"
proof -
  assume "km_reach k"
  note inv = km_reach_inv [OF this]
  have "\<exists>t a. at_entry (km_at k t) = Some (key, a)" if m: "km_m k key = Some a" for key a
  proof -
    have e: "entry_ok k key a" using km_invD(2) [OF inv m] .
    then obtain t key' where t: "at_entry (km_at k t) = Some (key', a)" by (auto simp: entry_ok_def uses_def)
    with km_invD(1) [OF inv t] e have "key' = key" by (simp add: entry_ok_def)
    with t show ?thesis by blast
  qed
  then show ?thesis using km_invD(1) [OF inv] by fastforce
qed

text \<open>A waiting request can go in as soon as nobody with its key is inside.\<close>

lemma km_no_deadlock:
  assumes "km_reach k" and "km_at k t = Waiting key a" and "\<And>u b. km_at k u \<noteq> Inside key b"
  shows "km_step k (move t (Inside key a) (set_mu True a k))"
proof (rule acquire [OF assms(2)])
  note inv = km_reach_inv [OF assms(1)]
  have m: "km_m k key = Some a" using km_invD(1) [OF inv, of t] assms(2) by simp
  note e = km_invD(2) [OF inv m]
  have "inside k a = {}"
  proof (rule ccontr)
    assume "inside k a \<noteq> {}"
    then obtain u where u: "u \<in> uses k a" "is_inside (km_at k u)" by (auto simp: inside_def)
    then obtain key' where p: "km_at k u = Inside key' a" by (cases "km_at k u") (auto simp: uses_def)
    then have "km_m k key' = Some a" using km_invD(1) [OF inv, of u] by simp
    with e have "key' = key" by (simp add: entry_ok_def)
    with p assms(3) show False by simp
  qed
  with e show "\<not> km_mu (km_heap k a)" by (auto simp: entry_ok_def split: if_splits)
qed

end
