(* ===== verification/Samples.thy ===== *)
theory Samples
  imports Views Client Daemon KeyLock
begin

text \<open>
  Sample data the witnesses of the properties are evaluated on: one mission on a lane, one
  output file, a configuration, an events file, and a world in which the mission is running.
\<close>

definition sample_mid :: string where
  "sample_mid = ''018f0000-0000-7000-8000-000000000001''"

definition sample_sid :: string where
  "sample_sid = ''018f0000-0000-7000-8000-0000000000aa''"

definition sample_policy :: ttl_policy where
  "sample_policy = \<lparr>ttl_MissionSuccess = 3600000000000, ttl_MissionFailed = 7200000000000,
     ttl_ExecSuccess = 60000000000, ttl_ExecFailed = 60000000000, ttl_StagingTTL = 86400000000000,
     ttl_DownloadGrace = 600000000000\<rparr>"

definition sample_cfg :: FinalizeConfig where
  "sample_cfg = \<lparr>fc_DataDir = ''/d'', fc_MaxReturnValue = 1024, fc_MaxFailMessage = 512,
     fc_MaxFailDetails = 512, fc_TTL = sample_policy\<rparr>"

definition sample_env :: fin_env where
  "sample_env = \<lparr>fe_msize = (\<lambda>_. 200), fe_errtext = (\<lambda>_. ''i/o error''), fe_now = 1700000000000\<rparr>"

definition sample_mission :: mission where
  "sample_mission = \<lparr>msn_ID = sample_mid, msn_Kind = KindMission, msn_Lane = ''fast'',
     msn_MissionName = ''report.php'', msn_DisplayName = None, msn_GroupID = None,
     msn_Status = StatusRunning, msn_Outcome = None, msn_FailReason = None, msn_FailMessage = None,
     msn_FailDetails = None, msn_ExitCode = None, msn_Signal = None, msn_PID = Some 42,
     msn_PGID = Some 42, msn_ProcStarttime = Some 7, msn_Input = ''{}'', msn_InputFingerprint = [],
     msn_ReturnValue = None, msn_TruncatedStdout = False, msn_TruncatedStderr = False,
     msn_TimeCreatedMs = 1699999999000, msn_TimeStartedMs = Some 1699999999500,
     msn_TimeFinishedMs = None, msn_TimeoutMs = None, msn_RestartedFrom = None\<rparr>"

definition sample_db :: db where
  "sample_db = empty_db\<lparr>missions := [sample_mission]\<rparr>"

definition sample_events :: efile where
  "sample_events = \<lparr>ef_lines =
     [\<lparr>el_body = Some (JObj [(''event'', JStr ''queued''), (''seq'', JInt 1)]), el_size = 30\<rparr>,
      \<lparr>el_body = Some (JObj [(''event'', JStr ''running''), (''seq'', JInt 2)]), el_size = 31\<rparr>],
     ef_tail = None\<rparr>"

definition sample_output :: CollectedOutput where
  "sample_output = \<lparr>co_Role = ''result'', co_StagingID = sample_sid, co_TmpPath = ''/d/staging/s.tmp'',
     co_FinalPath = ''/d/staging/s'', co_Sha256 = ''aabb'', co_Size = 3\<rparr>"

definition sample_world :: world where
  "sample_world = \<lparr>wd_db = sample_db, wd_events = [sample_mid \<mapsto> sample_events],
     wd_files = [''/d/staging/s.tmp'' \<mapsto> ''aabb''], wd_critical = [], wd_tomb = []\<rparr>"

definition sample_inputs :: FinalizeInputs where
  "sample_inputs = \<lparr>fin_MissionID = sample_mid,
     fin_Outcome = outcome_zero\<lparr>or_Outcome := ''success''\<rparr>, fin_Outputs = [sample_output],
     fin_TimeStartedMs = 1699999999500, fin_ProgressDropped = 0\<rparr>"

definition sample_recovery :: recovery where
  "sample_recovery = \<lparr>rx_env = sample_env, rx_cfg = sample_cfg, rx_cap = 1024, rx_mid = sample_mid,
     rx_sids = {sample_sid}\<rparr>"

definition sample_repair :: repair_cfg where
  "sample_repair = \<lparr>rc_fin = sample_cfg,
     rc_limits = \<lparr>lim_MaxEventsBuffer = 0, lim_MaxEventLineSize = 1024\<rparr>\<rparr>"

lemma sample_mid_valid [simp]: "ValidateUUIDv7 sample_mid"
  by code_simp

lemma sample_distinct [simp]: "sample_mid \<noteq> sample_sid" "sample_sid \<noteq> sample_mid"
  by (simp_all add: sample_mid_def sample_sid_def)

lemma sample_paths [simp]: "path_ok ''/d'' ''/d/staging/s.tmp''" "path_ok ''/d'' ''/d/staging/s''"
  by (simp_all add: path_ok_def relPathFromDataDir_def resolveIntentPath_def path_join_def has_prefix_def)

lemma sample_fits [simp]: "line_fits (fe_msize sample_env) 1024 fs"
  by (simp add: line_fits_def sample_env_def maxScanLineSize_def)

lemma sample_db_ok [simp]: "db_ok sample_db"
  by (simp add: db_ok_def sample_db_def empty_db_def sample_mission_def)

lemma sample_start_inputs: "start_inputs sample_recovery sample_inputs"
  by (simp add: start_inputs_def sample_recovery_def sample_inputs_def sample_output_def sample_cfg_def
      sized_def raw_wf_def raw_or_null_def outcome_zero_def)

lemma sample_no_done: "scan_fits sample_events" "done_events sample_events = {}"
  by (simp_all add: sample_events_def scan_fits_def done_events_def scan_lines_def maxScanLineSize_def
      done_map_def line_map_def is_done_map_def mget_def)

lemma sample_start_world: "start_world sample_recovery [sample_output] sample_world"
  using sample_no_done
  by (simp add: start_world_def idle_def intact_def fresh_outputs_def settled_def sample_recovery_def
      sample_world_def sample_db_def empty_db_def sample_mission_def sample_output_def find_defs
      db_ok_def)

lemma sample_repair_setup: "repair_setup sample_recovery sample_repair"
  by (simp add: repair_setup_def sample_recovery_def sample_repair_def)

lemma sample_fin_inv: "fin_inv sample_world"
  by (simp add: fin_inv_def published_def sample_world_def) (simp add: sample_db_def empty_db_def sample_mission_def)

lemma sample_raw_wf: "raw_wf (or_Return (fin_Outcome sample_inputs))" "raw_wf (or_FailDetails (fin_Outcome sample_inputs))"
  by (simp_all add: sample_inputs_def raw_wf_def raw_or_null_def outcome_zero_def)

lemma sample_seq_decode:
  "dec_i64 ''seq'' [(''event'', JStr x), (''seq'', JInt 1)] = Some 1"
  "dec_i64 ''seq'' [(''event'', JStr x), (''seq'', JInt 2)] = Some 2"
  by (simp_all add: dec_i64_plain plain_keys_def lower_char_def Let_def mget_def in_i64_def maxInt64_def)

lemma sample_event_decode: "dec_str ''event'' [(''event'', JStr x), (''seq'', v)] = Some x"
  by (simp add: dec_str_plain plain_keys_def lower_char_def Let_def mget_def)

lemma sample_lines_are_events: "lines_are_events sample_events"
proof -
  have "event_of KindQueued 1 [(''event'', JStr ''queued'')] = [(''event'', JStr ''queued''), (''seq'', JInt 1)]"
    and "event_of KindRunning 2 [(''event'', JStr ''running'')] = [(''event'', JStr ''running''), (''seq'', JInt 2)]"
    by (simp_all add: event_of_def)
  moreover have "plain_keys [(''event'', JStr x)]" for x by (simp add: plain_keys_def lower_char_def Let_def)
  moreover have "in_i64 1" "in_i64 2" by (simp_all add: in_i64_def maxInt64_def)
  ultimately have "is_event_line l" if "l \<in> set (ef_lines sample_events)" for l
    using that unfolding is_event_line_def sample_events_def by (auto; metis)
  then show ?thesis by (simp add: lines_are_events_def scan_lines_def sample_events_def)
qed

definition sample_file :: staging_file where
  "sample_file = \<lparr>stg_StagingID = sample_sid, stg_State = StagingComplete, stg_Sha256 = ''aabb'', stg_Size = 3,
     stg_BytesReceived = 3, stg_Path = ''staging/s'', stg_TimeCreatedMs = 1690000000000,
     stg_TimeUpdatedMs = 1690000000000, stg_TimeExpiresMs = 1690000000001, stg_DownloadedAt = None\<rparr>"

definition sample_staged :: db where
  "sample_staged = sample_db\<lparr>staging_files := [sample_file],
     staging_refs := [\<lparr>ref_MissionID = sample_mid, ref_StagingID = sample_sid, ref_RefKind = RefInput, ref_Role = ''in''\<rparr>]\<rparr>"

lemma sample_staged_ok: "db_ok sample_staged"
  by (simp add: sample_staged_def db_ok_def sample_db_def empty_db_def sample_mission_def sample_file_def)

lemma sample_staged_recalc: "\<exists>d1. RecalcStagingTTL sample_sid sample_policy sample_staged = Inr (maxInt64, d1)"
  by (simp add: RecalcStagingTTL_def GetStaging_def find_staging_def Let_def compute_expires_spec ref_missions_def
      sample_staged_def sample_db_def empty_db_def sample_mission_def sample_file_def active_def)

text \<open>A process that exited with code 0, with the given final event.\<close>

definition sample_exit :: "Fd3Final option \<Rightarrow> OutcomeInputs" where
  "sample_exit final = \<lparr>oi_ExternalKill = KillNone, oi_TimeoutMs = 0, oi_Lane = ''fast'', oi_OOMDetected = False,
     oi_OOMLine = [], oi_ExitCode = 0, oi_Signal = [], oi_Fd3Final = final, oi_Fd3Violations = []\<rparr>"

definition sample_final :: Fd3Final where
  "sample_final = \<lparr>fin_Kind = ''success'', fin_Return = Some \<lparr>raw_value = JObj [], raw_len = 2\<rparr>,
     fin_Message = [], fin_Reason = [], fin_Details = None, fin_ExitHint = 0\<rparr>"

text \<open>A decoder that rejects every line.\<close>

definition sample_lib :: go_lib where
  "sample_lib = \<lparr>gl_unmarshal = (\<lambda>_. None), gl_errtext = (\<lambda>_. ''unexpected end of JSON input''),
     gl_type_error = (\<lambda>_ _. OtherErr ''bad type''), gl_raw_len = (\<lambda>_ _. 0), gl_marshal_len = (\<lambda>_. 0),
     gl_head = (\<lambda>_. None), gl_quote = quoted\<rparr>"

section \<open>A lane and a configuration\<close>

definition sample_queue :: db where
  "sample_queue = sample_db\<lparr>missions := [sample_mission\<lparr>msn_Status := StatusQueued\<rparr>]\<rparr>"

definition sample_lane :: lane_sys where
  "sample_lane = lane_start ''fast'' 2 sample_queue"

lemma sample_can_start: "can_start sample_lane"
  by (simp add: can_start_def sample_lane_def lane_start_def Start_def new_runner_def sample_queue_def
      pickable_def has_intent_def sample_db_def empty_db_def sample_mission_def)

definition sample_state :: AppliedState where
  "sample_state = \<lparr>as_MissionDir = ''/srv/missions'', as_Labels = Some [''eu''],
     as_Lanes = [(''fast'', \<lparr>lc_Concurrency = 2, lc_Paused = False, lc_PausedBy = []\<rparr>)],
     as_Runtime = \<lparr>ru_MissionPathTemplate = [], ru_CommandTemplate = Some [''php''], ru_ValidateMissionFile = True\<rparr>\<rparr>"

lemma sample_state_ok: "state_ok sample_state"
  by (simp add: state_ok_def sample_state_def in_i64_def maxInt64_def)

definition sample_options :: Options where
  "sample_options = \<lparr>op_Force = True, op_Prune = True, op_ForcePrune = False, op_Source = [], op_DataDir = ''/d'', op_Killer = True\<rparr>"

definition no_lanes :: manager where
  "no_lanes = \<lparr>mg_runners = [], mg_retired = []\<rparr>"

text \<open>A database with the configuration stored and the mission done, and a manager running the lane.\<close>

definition sample_done_db :: db where
  "sample_done_db = sample_db\<lparr>missions := [sample_mission\<lparr>msn_Status := StatusDone\<rparr>],
     config_row := Some (applied_row sample_env sample_options sample_state)\<rparr>"

definition sample_manager :: manager where
  "sample_manager = \<lparr>mg_runners = [(''fast'', start_runner ''fast''
     \<lparr>sp_Name = ''fast'', sp_Concurrency = 2, sp_Paused = False\<rparr>)], mg_retired = []\<rparr>"

lemma sample_pause_returns:
  "\<exists>mg w. admin_PauseLane ''fast'' sample_manager [] (sample_world\<lparr>wd_db := sample_done_db\<rparr>) = (Ret (None, mg), [], w)"
proof -
  have "\<exists>d. setLanePausedInConfig ''fast'' True sample_done_db = Inr ((), d)"
    by (simp add: setLanePausedInConfig_def GetAppliedConfig_def sample_done_db_def unmarshal_applied_row sample_state_ok Let_def
        split: option.split)
  then show ?thesis
    by (auto simp: admin_PauseLane_def PauseLane_def on_lane_def sample_manager_def bindM_def attempt_def tx_once_def
        effect_def next_fate_def tx_env_def WithWriter_TxOk sum_res_def ret_def)
qed

lemma sample_prune_fails:
  "\<exists>r mg' sent fs' w'. Apply sample_env (sample_options\<lparr>op_ForcePrune := True\<rparr>) (sample_state\<lparr>as_Lanes := []\<rparr>) sample_manager
     [FOk, FErr 10] (sample_world\<lparr>wd_db := sample_done_db\<rparr>) = (Ret (Inl r, mg', sent), fs', w')"
proof -
  let ?w = "sample_world\<lparr>wd_db := sample_done_db\<rparr>"
  have q: "attempt (query GetAppliedConfig) [FOk, FErr 10] ?w =
      (Ret (Inr (applied_row sample_env sample_options sample_state)), [FErr 10], ?w)"
    by (simp add: attempt_def query_def effect_def next_fate_def sum_res_def GetAppliedConfig_def sample_done_db_def)
  have diff: "df_LanesRemoved (ComputeDiff sample_state (reconcile_pauses sample_state
      (merge_lanes True sample_state (sample_state\<lparr>as_Lanes := []\<rparr>)))) = [''fast'']"
    by (simp add: ComputeDiff_def reconcile_pauses_def merge_lanes_def sample_state_def)
  have t: "\<exists>e. attempt (bindM (lane_rows ''fast'' StatusQueued) k) [FErr 10] ?w = (Ret (Inl e), [], ?w)" for k :: "string list \<Rightarrow> unit proc"
    by (simp add: attempt_def bindM_def lane_rows_def query_def effect_def next_fate_def)
  then obtain e where e: "attempt (bindM (lane_rows ''fast'' StatusQueued) (each (kill_queued_row sample_env ''/d''))) [FErr 10] ?w = (Ret (Inl e), [], ?w)"
    by blast
  show ?thesis
    unfolding Apply_def
    by (subst bindM_def)
      (simp add: q unmarshal_applied_row sample_state_ok apply_from_def sample_options_def Let_def bindM_def ret_def diff apply_prune_def
        e)
qed

section \<open>Retention\<close>

definition sample_cleanup :: cleanup_cfg where
  "sample_cleanup = \<lparr>cl_DataDir = ''/d'', cl_SuccessTTL = 1000000000, cl_FailedTTL = 2000000000,
     cl_ExecSuccessTTL = 1000000000, cl_ExecFailedTTL = 1000000000, cl_LostCleanupGrace = 0,
     cl_StagingTTL = 5000000000, cl_DownloadedGrace = 1000000000, cl_MaxBatches = 3\<rparr>"

definition sample_gc :: gc_cfg where
  "sample_gc = \<lparr>gc_cleanup = sample_cleanup, gc_GracePeriod = 0, gc_BatchSize = 10\<rparr>"

section \<open>A dispatch\<close>

definition sample_handler :: handler_env where
  "sample_handler = \<lparr>he_lib = sample_lib, he_float = \<lparr>ParseFloat64 = (\<lambda>_. None), FormatFloat = (\<lambda>_ _. ''0'')\<rparr>,
     he_sha = (\<lambda>_. ''e3b0''), he_ParseDuration = (\<lambda>_. None), he_marshal = (\<lambda>_. ''[]''), he_msize = (\<lambda>_. 100),
     he_now = 1700000000000, he_IsDraining = False, he_DiskUsage = None, he_DataDir = ''/d'', he_MaxDataDirSize = 0,
     he_MaxMissionInputSize = 1024, he_MaxQueuePerLane = 0, he_MaxQueueTotal = 10,
     he_limits = \<lparr>lim_MaxEventsBuffer = 0, lim_MaxEventLineSize = 1024\<rparr>, he_ttl = sample_policy, he_AllowShell = False,
     he_MaxInputsPerExec = 4, he_MaxOutputsPerExec = 4, he_MaxScriptSize = 1024\<rparr>"

definition sample_key :: string where
  "sample_key = ''018f0000-0000-7000-8000-000000000002''"

definition sample_request :: DispatchRequest where
  "sample_request = \<lparr>dr_Mission = ''report.php'', dr_Lane = ''fast'', dr_Input = None,
     dr_Files = [], dr_Timeout = []\<rparr>"

text \<open>A daemon with a configured lane and nothing else.\<close>

definition sample_ready :: world where
  "sample_ready = \<lparr>wd_db = empty_db\<lparr>config_row := Some (applied_row sample_env sample_options sample_state)\<rparr>,
     wd_events = (\<lambda>_. None), wd_files = (\<lambda>_. None), wd_critical = [], wd_tomb = []\<rparr>"

lemma sample_ready_inv: "fin_inv sample_ready"
  by (simp add: fin_inv_def published_def sample_ready_def empty_db_def db_ok_def)

lemma sample_gates: "dispatch_gates sample_handler sample_key (Body sample_request) = Inr sample_request"
  by code_simp

lemma sample_input: "dispatch_input sample_handler sample_request = Inr (''null'', None)"
  by (simp add: dispatch_input_def sample_request_def parseOptionalDuration_def)

definition sample_text :: MissionInput where
  "sample_text = \<lparr>mi_Lane = ''fast'', mi_Mission = ''report.php'', mi_InputCanonical = ''null'',
     mi_TimeoutMs = None, mi_Files = []\<rparr>"

lemma sample_text_ok: "mission_input_ok (he_sha sample_handler) sample_text"
  by (simp add: mission_input_ok_def sample_text_def sample_handler_def ascii_valid)

lemma sample_fingerprint: "\<exists>fp. Mission (he_float sample_handler) (he_sha sample_handler) sample_text = Some fp"
  using encode_total [OF mission_payload_exact [OF sample_text_ok]] by (auto simp: Mission_def)

lemma sample_accepted:
  "\<exists>w'. Dispatch sample_handler id no_lanes no_lanes sample_key (Body sample_request) [] sample_ready =
     (Ret (WriteJSON 202 sample_key ''queued'', no_lanes), [], w')"
proof -
  obtain fp where fp: "Mission (he_float sample_handler) (he_sha sample_handler) sample_text = Some fp" using sample_fingerprint by blast
  let ?m = "queued_row sample_key KindMission ''fast'' ''report.php'' ''null'' fp 1700000000000 None"
  have tx: "\<exists>d. dispatch_tx sample_handler False ?m [] sample_state (wd_db sample_ready) = Inr ((), d)"
    by (simp add: dispatch_tx_def seq_stmt_def guard_stmt_def queued_row_def InsertMission_def sql_insert_def insert_refs_def
        InsertRuntime_def runtime_of_def find_mission_def sample_ready_def empty_db_def)
  then obtain d where d: "dispatch_tx sample_handler False ?m [] sample_state (wd_db sample_ready) = Inr ((), d)" by blast
  have lane: "applied_in (wd_db sample_ready) sample_state"
    by (simp add: applied_in_def sample_ready_def unmarshal_applied_row sample_state_ok)
  have req: "dr_Files sample_request = []" "dr_Lane sample_request = ''fast''" "dr_Mission sample_request = ''report.php''"
    by (simp_all add: sample_request_def)
  have h: "he_now sample_handler = 1700000000000" by (simp add: sample_handler_def)
  have "manager_Notify ''fast'' no_lanes = no_lanes" "\<not> IsLaneRemoving ''fast'' no_lanes"
    by (simp_all add: no_lanes_def manager_Notify_def on_lane_def IsLaneRemoving_def)
  moreover have "int (length ''null'') \<le> he_MaxMissionInputSize sample_handler" by (simp add: sample_handler_def)
  moreover have "queue_room sample_handler ''fast'' (wd_db sample_ready)"
    by (simp add: queue_room_def sample_handler_def sample_ready_def empty_db_def)
  moreover have "line_ok sample_handler fs" for fs by (simp add: line_ok_def sample_handler_def)
  moreover have "find_mission sample_key (wd_db sample_ready) = None" "wd_events sample_ready sample_key = None"
    by (simp_all add: sample_ready_def find_mission_def empty_db_def)
  moreover have "map_of (as_Lanes sample_state) ''fast'' \<noteq> None" by (simp add: sample_state_def)
  ultimately show ?thesis
    using Dispatch_accepts [OF sample_gates sample_input, of sample_ready "[]" fp sample_state no_lanes no_lanes d, unfolded req h]
      fp [unfolded sample_text_def] d lane
    by (simp add: firstDuplicate_def fileRoles_def) blast
qed

lemma sample_row:
  assumes "Dispatch sample_handler id no_lanes no_lanes sample_key (Body sample_request) [] sample_ready =
     (Ret (WriteJSON 202 sample_key ''queued'', no_lanes), [], w')"
  shows "\<exists>m. find_mission sample_key (wd_db w') = Some m \<and> msn_Status m = StatusQueued \<and> staging_files (wd_db w') = []"
proof -
  let ?D = "\<lambda>d. d = wd_db sample_ready"
  have st: "steady ?D sample_key id" by (simp add: steady_def)
  have fs: "list_all any []" by simp
  from tripleD [OF Dispatch_outcome [OF st] _ fs assms] sample_ready_inv obtain m files where
    d: "dispatched ?D sample_handler sample_key sample_request m files" and
    e: "enqueued m (map (input_ref sample_key) files) (wd_db sample_ready) (wd_db w')"
    by (auto simp: dispatch_outcome_def created_def)
  from d have m: "msn_ID m = sample_key" "msn_Status m = StatusQueued" by (auto simp: dispatched_def queued_row_def)
  have "staging_files (wd_db w') = []"
  proof (rule ccontr)
    assume "staging_files (wd_db w') \<noteq> []"
    then obtain s where "s \<in> set (staging_files (wd_db w'))" by (cases "staging_files (wd_db w')") auto
    then have "find_staging (stg_StagingID s) (wd_db w') \<noteq> None" by (auto simp: find_staging_def sql_find_None_iff)
    moreover have "find_staging (stg_StagingID s) (wd_db sample_ready) = None"
      by (simp add: find_staging_def sample_ready_def empty_db_def)
    moreover have "map_option (\<lambda>s. s\<lparr>stg_TimeExpiresMs := 0\<rparr>) (find_staging (stg_StagingID s) (wd_db w')) =
        map_option (\<lambda>s. s\<lparr>stg_TimeExpiresMs := 0\<rparr>) (find_staging (stg_StagingID s) (wd_db sample_ready))"
      using e unfolding enqueued_def by blast
    ultimately show False by simp
  qed
  with enqueued_find [OF e] m show ?thesis by simp
qed

lemma steady_id [simp]: "steady D mid id"
  by (simp add: steady_def)

lemma harmless_id [simp]: "harmless D id"
  by (simp add: harmless_def)

section \<open>A delete\<close>

definition sample_delete :: delete_env where
  "sample_delete = \<lparr>de_ctx = Some ScopeAdmin,
     de_wait = \<lparr>we_others = (\<lambda>_. id), we_now = (\<lambda>k. 1000 + int k * 10), we_done = (\<lambda>_. None)\<rparr>,
     de_start = 1000, de_ForceDeleteTimeout = 20, de_ForceDeletePoll = 10, de_others = id\<rparr>"

text \<open>The process never ends, and the delete gives up after three polls.\<close>

lemma sample_delete_ends:
  "\<exists>out rt' fs' w'. deleteOne sample_delete (\<lambda>_. Some None) sample_mid True [] sample_world = (Ret (out, rt'), fs', w')"
proof -
  have get: "GetMission sample_mid (wd_db sample_world) = Inr sample_mission"
    by (simp add: GetMission_def find_mission_def sample_world_def sample_db_def sample_mission_def)
  have st: "msn_Status sample_mission = StatusRunning" "oc_Status (gateKindForMission (Some ScopeAdmin) sample_mission) = 0"
    by (simp_all add: sample_mission_def gateKindForMission_def kindAllowedForCtx_def op_zero_def)
  have fuel: "wait_fuel 20 10 = Suc (Suc (Suc (Suc 0)))" by (simp add: wait_fuel_def wait_timeout_def wait_poll_def)
  have "\<exists>e. waitForFinalize (de_wait sample_delete) sample_mid 1000 20 10 [] sample_world = (Ret (Some e), [], sample_world)"
    unfolding waitForFinalize_def fuel
    by (simp add: bindM_def [of "others x" for x] others_def get st wait_timeout_def sample_delete_def)
  then obtain e where "waitForFinalize (de_wait sample_delete) sample_mid 1000 20 10 [] sample_world = (Ret (Some e), [], sample_world)" ..
  then show ?thesis
    by (simp add: deleteOne_def get st sample_delete_def forceKillAndAwaitFinalize_def SignalKill_def mark_reply_def ret_def bindM_def
        others_def attempt_def tx_once_def query_def effect_def next_fate_def sum_res_def tx_env_def WithWriter_def
        split: wait_end.split ctx_err.split sum.split)
qed

section \<open>Staged files\<close>

lemma sample_sid_valid [simp]: "ValidateUUIDv7 sample_sid"
  by code_simp

definition sample_sdelete :: sdelete_env where
  "sample_sdelete = \<lparr>sd_wait = (\<lambda>_. de_wait sample_delete), sd_start = (\<lambda>_. 1000),
     sd_ForceDeleteTimeout = 20, sd_ForceDeletePoll = 10, sd_others = id\<rparr>"

lemma sample_sdelete_harmless: "harmless D (we_others (sd_wait sample_sdelete mid) k)" "harmless D (sd_others sample_sdelete)"
  by (simp_all add: sample_sdelete_def sample_delete_def)

definition sample_staged_world :: world where
  "sample_staged_world = sample_world\<lparr>wd_db := sample_staged\<rparr>"

lemma sample_staged_inv: "fin_inv sample_staged_world"
  using sample_staged_ok
  by (simp add: fin_inv_def published_def sample_staged_world_def) (simp add: sample_staged_def sample_db_def empty_db_def sample_mission_def)

text \<open>A stand-in for the hash, and a server without limits that has no files yet.\<close>

definition sample_hash :: "string \<Rightarrow> string" where
  "sample_hash b = replicate 64 (if length b = 5 then CHR ''a'' else CHR ''b'')"

definition sample_upload_cfg :: upload_cfg where
  "sample_upload_cfg = \<lparr>uc_DataDir = ''/d'', uc_MaxDataDirSize = 0, uc_MaxStagingUploadSize = 100,
     uc_MaxIncompleteUploads = 1, uc_MaxIncompleteBytes = 0, uc_StagingTTL = 0\<rparr>"

definition sample_upload_world :: upload_world where
  "sample_upload_world = \<lparr>uw_db = empty_db, uw_dir = (\<lambda>_. None), uw_data = (\<lambda>_. []), uw_next = 0,
     uw_open = (\<lambda>_. None), uw_lock = \<lparr>ul_entries = [], ul_next = 0, ul_idle = 60000\<rparr>\<rparr>"

definition sample_declared :: string where
  "sample_declared = replicate 64 (CHR ''a'')"

lemma sample_upload_ready:
  "sha256Regex sample_declared" "roomy sample_upload_cfg 5" "5 \<le> maxInt64" "db_ok (uw_db sample_upload_world)"
  "find_staging sample_sid (uw_db sample_upload_world) = None" "admits sample_upload_cfg (uw_db sample_upload_world)"
  "\<not> IsLocked (uw_lock sample_upload_world) sample_sid" "staged sha sample_upload_cfg sample_upload_world"
  by (simp_all add: sha256Regex_def sample_declared_def hex_char_def roomy_def sample_upload_cfg_def maxInt64_def
      sample_upload_world_def find_staging_def admits_def enforceIncompleteLimits_def in_i64_def IsLocked_def staged_def
      list_all_iff) (simp_all add: empty_db_def)

lemma undisturbed_calm: "calm_env (undisturbed sha now (body_reads now parts)) C sid"
  using id_calm by (auto simp: calm_env_def undisturbed_def body_reads_def plain_read_def list_all_iff)

section \<open>Requests\<close>

definition sample_net :: net_lib where
  "sample_net = \<lparr>nl_SplitHostPort = Some, nl_ParseIP = Some\<rparr>"

definition sample_auth :: AuthConfig where
  "sample_auth = \<lparr>ac_Dispatch = [''d''], ac_Exec = [''e''], ac_Admin = [''root''], ac_BruteForce = Some 3600000000000,
     ac_TrustedProxies = [], ac_UseXForwardedFor = False\<rparr>"

definition sample_http :: "string \<Rightarrow> http_request" where
  "sample_http auth = \<lparr>rq_RemoteAddr = ''10.0.0.1'', rq_Authorization = auth, rq_XForwardedFor = [],
     rq_ContentLength = 0, rq_MaxBytes = None\<rparr>"

definition sample_gate :: "nat gate" where
  "sample_gate = \<lparr>gt_entries = Map.empty, gt_adminFailures = 0, gt_world = 0\<rparr>"

definition sample_count :: "(nat, unit) handler" where
  "sample_count r sc n = (Granted (), Suc n)"

definition sample_limits :: route_limits where
  "sample_limits = \<lparr>rl_ExecEnabled = False, rl_MaxDispatchBodySize = 10, rl_MaxExecBodySize = 10, rl_MaxApplyBodySize = 10\<rparr>"

definition sample_guess :: "int \<Rightarrow> arrival" where
  "sample_guess t = ((''GET /v1/missions'', OneOf ScopeAdmin, None), t, t, sample_http [])"

definition sample_follow :: output_env where
  "sample_follow = \<lparr>oe_open = \<lambda>_. Inr (), oe_bytes = \<lambda>_. Some ''out'',
     oe_mission = \<lambda>_. Inr (sample_mission\<lparr>msn_Status := StatusDone\<rparr>), oe_gone = \<lambda>_. False\<rparr>"

definition sample_attempts :: "nat \<Rightarrow> attempt_env" where
  "sample_attempts i = \<lparr>at_before = id, at_handler = (if i = 0 then sample_handler else sample_handler\<lparr>he_IsDraining := True\<rparr>),
     at_others = id, at_manager = no_lanes, at_manager' = no_lanes, at_fates = [],
     at_network = (if i = 0 then ReplyLost else ReplyArrives)\<rparr>"

definition sample_puts :: "nat \<Rightarrow> put_attempt" where
  "sample_puts i = \<lparr>pa_before = id, pa_env = (\<lambda>body. undisturbed sample_hash 7 (body_reads 7 [body])), pa_network = ReplyArrives\<rparr>"

lemma sample_follow_settles: "output_settles sample_follow 0 ''out''"
  by (simp add: output_settles_def sample_follow_def mission_ended_def)

lemma sample_hash_hex: "sha256Regex (sample_hash b)"
  by (simp add: sha256Regex_def sample_hash_def hex_char_def list_all_iff)

lemma sample_puts_calm: "calm_attempts sample_hash C sid sample_puts"
  using undisturbed_calm by (auto simp: calm_attempts_def sample_puts_def undisturbed_def)

text \<open>A request without a range is the same to the daemon as one whose range is the whole file.\<close>

lemma staging_Put_gate:
  assumes "put_gate C (pe_usage E) q = put_gate C (pe_usage E) q'" and "pr_id q = pr_id q'"
  shows "staging_Put E C q w = staging_Put E C q' w"
  unfolding staging_Put_def assms ..

end
