(* ===== verification/Spec2Isabelle.thy ===== *)
theory Spec2Isabelle
  imports Samples
begin

text \<open>
  A verification of the core of the letts daemon (dugdale): a job runner that stores missions in
  SQLite, runs them in lanes as child processes, records what happens in one events file per
  mission, and promises that the outcome of a mission is recorded once and survives crashes.

  \<^bold>\<open>The program and its parts.\<close>  A dispatch, identified by its Idempotency-Key, writes the queued
  event of a mission and then stores its row; a retry is recognised by a fingerprint over the
  canonical text of the request.  The runner of its lane picks
  the oldest one in a writer transaction and hands it to a process supervisor.  The child talks
  to the daemon over file descriptor 3.  When it ends, its outcome is classified and finalized:
  an intent is stored, output files are renamed, the terminal event is appended to the events
  file, and one transaction marks the mission done.  After a crash, startup repair finishes what
  an intent recorded and marks as lost what had none.  Configuration is applied as a whole and
  replayed at startup.  Cleaners delete missions past their retention and staging files nobody
  needs.

  \<^bold>\<open>Theories and sources\<close> (paths under \<^verbatim>\<open>src/\<close>).
  \<^item> \<^verbatim>\<open>Prelude\<close>, \<^verbatim>\<open>Json\<close>, \<^verbatim>\<open>Schema\<close>: tables as lists of rows, int64 arithmetic, JSON values and Go's
    decoding of struct fields, the rows of \<^verbatim>\<open>internal/storage/migrations\<close>, the error values and
    the integrity invariant \<open>db_ok\<close>.
  \<^item> \<^verbatim>\<open>Missions\<close>, \<^verbatim>\<open>Listing\<close>, \<^verbatim>\<open>Staging\<close>: \<^verbatim>\<open>internal/storage\<close>.  Every statement is a function on the
    database that may fail; \<open>WithWriter\<close> and \<open>WithWriterRetry\<close> are \<^verbatim>\<open>tx.go\<close>.  Lemmas: statements
    keep \<open>db_ok\<close>, transactions are atomic, the retry is bounded, the pickup is the oldest, pages
    cover the listing, the expiry formula.
  \<^item> \<^verbatim>\<open>EventFile\<close>: \<^verbatim>\<open>internal/eventfile\<close>, a file as its lines and an unterminated tail, with writes
    that may stop after any number of bytes.  Lemmas: sequence numbers increase, at most one
    terminal event, appends never rewrite, streams resume.
  \<^item> \<^verbatim>\<open>Outcome\<close>, \<^verbatim>\<open>Fd3\<close>, \<^verbatim>\<open>Ids\<close>: \<^verbatim>\<open>internal/mission/outcome.go\<close>, \<^verbatim>\<open>clip.go\<close>, \<^verbatim>\<open>fd3reader.go\<close>,
    \<^verbatim>\<open>internal/ids\<close>.  Lemmas: when a mission succeeds, size caps, the bounded line reader, identifiers
    that increase.
  \<^item> \<^verbatim>\<open>Effects\<close>, \<^verbatim>\<open>Finalize\<close>, \<^verbatim>\<open>Repair\<close>: \<^verbatim>\<open>internal/mission/finalize.go\<close>, \<^verbatim>\<open>queued_kill.go\<close>,
    \<^verbatim>\<open>internal/repair\<close>, on a world of database, events files and output files.  Each effect takes
    its fate from a list: it succeeds, fails, or the daemon crashes there.  \<open>triple\<close> is a small
    program logic over such procedures.
  \<^item> \<^verbatim>\<open>Safety\<close>, \<^verbatim>\<open>Recovery\<close>: the invariant \<open>fin_inv\<close> (a mission marked done has a terminal event with
    its outcome) is kept by every procedure under all fates, and repair completes what a crash
    cut short.
  \<^item> \<^verbatim>\<open>Lane\<close>: \<^verbatim>\<open>internal/lane\<close>.  The pickup goroutine as a state machine over the places where it
    touches shared state, the step relation \<open>lane_step\<close> of its interleavings, invariants by
    induction over reachable states, bounded progress; the manager and its reconciliation.
  \<^item> \<^verbatim>\<open>Apply\<close>: \<^verbatim>\<open>internal/apply\<close> and the lane endpoints of \<^verbatim>\<open>internal/server/handlers/admin.go\<close>.
    Lemmas: the stored form round-trips, the running lanes are the stored ones, conflicts, pause
    provenance, no lane is left half removed.
  \<^item> \<^verbatim>\<open>Cleanup\<close>, \<^verbatim>\<open>Retention\<close>: \<^verbatim>\<open>internal/cleanup\<close> and \<^verbatim>\<open>internal/stagingstore\<close>, and what the cleaners
    may remove.
  \<^item> \<^verbatim>\<open>Jcs\<close>, \<^verbatim>\<open>Fingerprint\<close>, \<^verbatim>\<open>Names\<close>: \<^verbatim>\<open>internal/jcs\<close>, \<^verbatim>\<open>internal/fingerprint\<close>,
    \<^verbatim>\<open>internal/config/validation.go\<close>.  Lemmas: the canonical text determines the value up to the order
    of members, the fingerprinted text determines the request.
  \<^item> \<^verbatim>\<open>Dispatch\<close>, \<^verbatim>\<open>ExecDispatch\<close>, \<^verbatim>\<open>Enqueue\<close>: the two dispatch endpoints of
    \<^verbatim>\<open>internal/server/handlers\<close> as procedures on the same world.  What other requests do meanwhile is
    a function on the world, constrained by the rely condition \<open>steady\<close>.  Lemmas: a dispatch is all
    or nothing, file first, keeps its staged files, and is idempotent.
  \<^item> \<^verbatim>\<open>KeyLock\<close>: \<^verbatim>\<open>keymutex.go\<close>, the lock behind that rely condition, as a transition system.
  \<^item> \<^verbatim>\<open>Lifecycle\<close>: restart, delete, kill and their bulk forms, the kill channels of
    \<^verbatim>\<open>internal/runtime\<close> and the scope gate.
  \<^item> \<^verbatim>\<open>StagingApi\<close>, \<^verbatim>\<open>Upload\<close>: the endpoints of \<^verbatim>\<open>internal/server/handlers/staging.go\<close>.  The upload
    acts on the files with their bytes, read by read, each action a point where it may fail, the
    daemon may stop and others may act.  Lemmas: complete rows have the bytes they promise, chunks add
    up to the file, a delete spares running missions.
  \<^item> \<^verbatim>\<open>Access\<close>: \<^verbatim>\<open>internal/server/middleware\<close> and the routes of \<^verbatim>\<open>cmd/dugdale/main.go\<close>: tokens, scopes,
    the backoff after failed authentication, body limits.  Lemmas: who reaches a handler, how fast an
    address can guess tokens.
  \<^item> \<^verbatim>\<open>Views\<close>: the read-only endpoints (\<^verbatim>\<open>missions_get.go\<close>, \<^verbatim>\<open>events.go\<close>, \<^verbatim>\<open>output.go\<close>, \<^verbatim>\<open>inspect.go\<close>,
    \<^verbatim>\<open>health.go\<close>) behind the kind gate.  Lemmas: a scope learns nothing of the other kind, a follower
    receives the whole output.
  \<^item> \<^verbatim>\<open>Client\<close>: \<^verbatim>\<open>pkg/lettsclient\<close>: the retry policies, dispatch and upload over a network that loses
    requests and replies, composed with the endpoints.  Lemmas: a dispatch is accepted at most once,
    an upload reported as done is stored.
  \<^item> \<^verbatim>\<open>Daemon\<close>: every procedure on the world of the finalize protocol as one step relation, and the invariant of all its runs.
  \<^item> \<^verbatim>\<open>Samples\<close>: the data the witnesses are evaluated on.  This theory states the properties.

  \<^bold>\<open>Interfaces.\<close>  \<open>key_preserving\<close> (updates that keep the primary key), \<open>row_write\<close> (writes that put
  no mission back into the queue) and the locales of \<^verbatim>\<open>Recovery\<close> over the kind of disturbance are
  interpreted on the model's own statements and fates.  \<open>prefix_code\<close> is interpreted on the UTF-16 and
  escape codes of runes, \<open>daemon_proc\<close> on the procedures that keep terminal states published,
  \<open>isolated\<close> on the read-only endpoints.

  \<^bold>\<open>Bounds.\<close>  The retry loop ends after \<open>maxAttempts\<close> attempts, and the sweep after its configured
  number of batches, as in the code.  The lane loop runs forever; its progress lemmas count loop
  steps (eight to start a mission, six to end or to acknowledge a removal), where a wait always
  ends because its 30 s timer is one of its cases.  The wait of a forced delete has fuel for the polls
  that fit before its deadline and one more, and is shown to end within it.  The loops that stream
  captured output have fuel for their turns, shown to be enough when it covers the turns until the
  mission ends and the length of the output.  Other recursions are structural.

  \<^bold>\<open>Parameters.\<close>  The encoded size of an event, the text of errors, Go's quoting and the text decoder
  of the fd3 reader, the decoding of request bodies, the parsing of addresses, float formatting,
  SHA-256, the clock and the random bytes are arguments.  An operation reads the clock
  once; a sweep reads it once per batch.

  \<^bold>\<open>Not modelled.\<close>  HTTP handlers beyond the ones named, the request log, the command line client
  and the remaining calls of the client library, process spawning, supervision and signals, YAML loading, metrics and log lines, SQLite's
  own maintenance.  Loss of unsynced data on power failure: a write that was reported complete
  stays.  The float64 rounding of JSON integers beyond 2^53.
  Requests that overlap in the authentication guard: they are taken one after the other.
  Concurrent writers of one mission other than through the database and the lane interleavings.
\<close>

section \<open>The finalize protocol and startup repair\<close>



text \<open>
  C2: an undisturbed finalize of an unfinished mission returns without an error, and leaves the
  mission done with a matching terminal event, no intent, and no output in a Phase-B state.
\<close>
theorem finalize_completes:
  assumes "start_inputs X inp" and "start_world X (fin_Outputs inp) w"
  shows "\<exists>fs' w'. Finalize (rx_env X) inp (rx_cfg X) [] w = (Ret (), fs', w') \<and> finished X w'"
proof -
  obtain r fs' w' where run: "Finalize (rx_env X) inp (rx_cfg X) [] w = (r, fs', w')"
    by (cases "Finalize (rx_env X) inp (rx_cfg X) [] w")
  with Finalize_undisturbed [OF assms run] show ?thesis by simp
qed

theorem finalize_completes_witness:
  "\<exists>fs' w'. Finalize sample_env sample_inputs sample_cfg [] sample_world = (Ret (), fs', w') \<and> finished sample_recovery w'"
proof -
  have outs: "fin_Outputs sample_inputs = [sample_output]" by (simp add: sample_inputs_def)
  from finalize_completes [OF sample_start_inputs sample_start_world [folded outs]]
  show ?thesis by (simp add: sample_recovery_def)
qed

section \<open>The daemon as a whole\<close>

text \<open>
  C3: the daemon may run any sequence of finalizes, startup repairs, dispatches, exec dispatches,
  restarts, deletes, kills, applies, retention sweeps, staging collections and pickups, each cut
  short by any errors and crashes.  The invariant holds throughout: the tables are consistent,
  every mission marked done has a terminal event with its outcome in its events file, and every
  stored intent agrees with its done event.
\<close>
theorem daemon_keeps_published:
  assumes "daemon_step\<^sup>*\<^sup>* w w'" and "fin_inv w"
  shows "db_ok (wd_db w') \<and> published w' \<and> (\<forall>i \<in> set (finalize_intents (wd_db w')). intent_ok i)"
  using daemon_keeps [OF assms] by (simp add: fin_inv_def)

theorem daemon_keeps_published_witness:
  "\<exists>w1 w2. daemon_step sample_ready w1 \<and> daemon_step w1 w2 \<and> find_mission sample_key (wd_db w1) \<noteq> None \<and> published w2"
proof -
  from sample_accepted obtain w1 where
    run: "Dispatch sample_handler id no_lanes no_lanes sample_key (Body sample_request) [] sample_ready =
      (Ret (WriteJSON 202 sample_key ''queued'', no_lanes), [], w1)" by blast
  let ?w2 = "snd (snd (startup_repair sample_env sample_repair (\<lambda>_. 0) [FOk, FErr 1, FCrash 2] w1))"
  have one: "daemon_step sample_ready w1"
    by (rule daemon_step.dispatch [of sample_key id sample_handler no_lanes no_lanes "Body sample_request"])
      (simp, unfold runs_def, rule exI [of _ "[]"], simp add: run)
  have two: "daemon_step w1 ?w2"
    by (rule daemon_step.startup [of sample_env sample_repair "\<lambda>_. 0"]) (auto simp: runs_def)
  have "daemon_step\<^sup>*\<^sup>* sample_ready ?w2" using one two by (meson rtranclp.rtrancl_into_rtrancl rtranclp.rtrancl_refl)
  from daemon_keeps_published [OF this sample_ready_inv] one two sample_row [OF run] show ?thesis by blast
qed

section \<open>Queuing missions\<close>

text \<open>
  C4: a dispatch runs under any errors and crashes while other requests change the database in
  ways that keep a predicate \<open>D\<close> and leave the row and events file of the key alone.  If it
  answers 202, a database satisfying \<open>D\<close> gained exactly one queued row with its references, every
  staged file it refers to is complete and never expires while the mission is active, and the
  queued event is in the events file.  Every other answer, and a crash before the transaction,
  leaves \<open>D\<close> true.
\<close>
theorem dispatch_all_or_nothing:
  assumes "fin_inv w" and "D (wd_db w)" and "steady D key g"
    and "Dispatch H g mg mg' key b fs w = (r, fs', w')"
  shows "case r of
      Ret (rep, _) \<Rightarrow>
        if reply_status rep = 202
        then \<exists>req m files d. b = Body req \<and> dispatched D H key req m files \<and> D d \<and>
               enqueued m (map (input_ref key) files) d (wd_db w') \<and>
               noted (queued_fields key (he_now H) (dr_Lane req) (dr_Mission req)) key w'
        else D (wd_db w')
    | _ \<Rightarrow> D (wd_db w')"
proof -
  have fs: "list_all any fs" by (simp add: list_all_iff)
  have m: "dispatched D H key req m files \<Longrightarrow> msn_ID m = key" for req m files
    by (auto simp: dispatched_def queued_row_def)
  from tripleD [OF Dispatch_outcome [OF assms(3)] _ fs assms(4)] assms(1,2) show ?thesis
    by (auto simp: dispatch_outcome_def created_def refused_def m split: res.splits prod.splits if_splits) (use m in blast)+
qed

theorem dispatch_all_or_nothing_witness:
  "\<exists>w' m d. Dispatch sample_handler id no_lanes no_lanes sample_key (Body sample_request) [] sample_ready =
     (Ret (WriteJSON 202 sample_key ''queued'', no_lanes), [], w') \<and> d = wd_db sample_ready \<and> enqueued m [] d (wd_db w')"
proof -
  from sample_accepted obtain w' where
    run: "Dispatch sample_handler id no_lanes no_lanes sample_key (Body sample_request) [] sample_ready =
      (Ret (WriteJSON 202 sample_key ''queued'', no_lanes), [], w')" by blast
  let ?D = "\<lambda>d. d = wd_db sample_ready"
  from dispatch_all_or_nothing [where D = ?D, OF sample_ready_inv refl steady_id run] obtain m files where
    "dispatched ?D sample_handler sample_key sample_request m files"
    and e: "enqueued m (map (input_ref sample_key) files) (wd_db sample_ready) (wd_db w')" by auto
  then have "files = []" by (simp add: dispatched_def sample_request_def)
  with e run show ?thesis by auto
qed

text \<open>
  The same for an exec dispatch, whose references are its script, its inputs and its stdin.
\<close>
lemma exec_dispatch_all_or_nothing:
  assumes "fin_inv w" and "D (wd_db w)" and "steady D key g"
    and "ExecDispatch H g mg mg' key b fs w = (r, fs', w')"
  shows "case r of
      Ret (rep, _) \<Rightarrow>
        if reply_status rep = 202
        then \<exists>req m d. b = Body req \<and> exec_dispatched H key req m \<and> D d \<and>
               enqueued m (exec_refs key req) d (wd_db w') \<and> noted (exec_fields key (he_now H) (xr_Lane req)) key w'
        else D (wd_db w')
    | _ \<Rightarrow> D (wd_db w')"
proof -
  have fs: "list_all any fs" by (simp add: list_all_iff)
  have m: "exec_dispatched H key req m \<Longrightarrow> msn_ID m = key" for req m
    by (auto simp: exec_dispatched_def exec_row_def queued_row_def)
  from tripleD [OF ExecDispatch_outcome [OF assms(3)] _ fs assms(4)] assms(1,2) show ?thesis
    by (auto simp: exec_outcome_def created_def refused_def m split: res.splits prod.splits if_splits) (use m in blast)+
qed

text \<open>
  C5: a dispatch was answered 202, possibly after errors that were retried inside it.  In any
  later world that still has the row with its fingerprint, where the staged files with those ids
  have kept their contents or are gone, the same request sent again is answered with the status
  of the mission, or with 410 while it is being deleted; the world is left as it is.
\<close>
theorem dispatch_retry_replays:
  assumes "fin_inv w" and "contents C (wd_db w)" and "steady (contents C) key g"
    and "Dispatch H g mg mg' key (Body req) fs w = (Ret (rep, mg1), fs', w1)" and "reply_status rep = 202"
    and "find_mission key (wd_db w1) = Some m1"
    and "find_mission key (wd_db w2) = Some m2" and "msn_InputFingerprint m2 = msn_InputFingerprint m1"
    and "contents C (wd_db w2)"
  shows "Dispatch (H\<lparr>he_now := n\<rparr>) g2 mg2 mg2' key (Body req) [] w2 =
    (Ret (if msn_Status m2 = StatusDeleting then WriteError 410 ''mission_deleting'' None
          else WriteJSON 200 key (status_str (msn_Status m2)), mg2'), [], w2)"
proof -
  have fs: "list_all any fs" by (simp add: list_all_iff)
  from tripleD [OF Dispatch_outcome [OF assms(3)] _ fs assms(4)] assms(1,2,5) obtain m files
    where d: "dispatched (contents C) H key req m files"
      and c: "created (contents C) (queued_fields key (he_now H) (dr_Lane req) (dr_Mission req)) m (map (input_ref key) files) w1"
    by (auto simp: dispatch_outcome_def refused_def)
  have "msn_ID m = key" using d by (auto simp: dispatched_def queued_row_def)
  then have "m1 = m" using c enqueued_find assms(6) by (fastforce simp: created_def)
  obtain req' where "dispatch_gates H key (Body req) = Inr req'" "Body req = Body req'"
    using Dispatch_accepted_gates [OF assms(4,5)] by auto
  then have "dispatch_gates H key (Body req) = Inr req" by simp
  then show ?thesis
    by (rule Dispatch_again [OF _ d assms(7) _ contents_same [OF d assms(9)]]) (simp add: assms(8) \<open>m1 = m\<close>)
qed

theorem dispatch_retry_replays_witness:
  "\<exists>w1. Dispatch sample_handler id no_lanes no_lanes sample_key (Body sample_request) [] sample_ready =
       (Ret (WriteJSON 202 sample_key ''queued'', no_lanes), [], w1) \<and>
     Dispatch (sample_handler\<lparr>he_now := 1800000000000\<rparr>) id no_lanes no_lanes sample_key (Body sample_request) [] w1 =
       (Ret (WriteJSON 200 sample_key ''queued'', no_lanes), [], w1)"
proof -
  from sample_accepted obtain w1 where
    run: "Dispatch sample_handler id no_lanes no_lanes sample_key (Body sample_request) [] sample_ready =
      (Ret (WriteJSON 202 sample_key ''queued'', no_lanes), [], w1)" by blast
  obtain m where m: "find_mission sample_key (wd_db w1) = Some m" "msn_Status m = StatusQueued" and st: "staging_files (wd_db w1) = []"
    using sample_row [OF run] by blast
  have C: "contents (\<lambda>_. ([], 0)) (wd_db sample_ready)" "contents (\<lambda>_. ([], 0)) (wd_db w1)"
    using st by (simp_all add: contents_def find_staging_def sample_ready_def empty_db_def)
  from dispatch_retry_replays [OF sample_ready_inv C(1) steady_id run _ m(1) m(1) refl C(2), of 1800000000000 id no_lanes no_lanes] run m(2)
  show ?thesis by auto
qed

text \<open>
  C6: a dispatch whose key already names a mission is never accepted and changes nothing, under
  any errors and crashes.  When it is left alone and its request has another fingerprint than
  the stored one, it is answered 409.
\<close>
theorem used_key_changes_nothing:
  assumes "find_mission key (wd_db w) = Some m" and "Dispatch H g mg mg' key b fs w = (r, fs', w')"
  shows "w' = w \<and> (case r of Ret (rep, _) \<Rightarrow> reply_status rep \<noteq> 202 | _ \<Rightarrow> True) \<and>
    (fs = [] \<longrightarrow> b = Body req \<longrightarrow> dispatch_gates H key b = Inr req \<longrightarrow> dispatch_input H req = Inr (c, t) \<longrightarrow>
       resolveStagingMetadata H (dr_Files req) [] w = (Ret (Inr files), [], w) \<longrightarrow>
       firstDuplicate (fileRoles (dr_Files req)) = [] \<longrightarrow>
       Mission (he_float H) (he_sha H) \<lparr>mi_Lane = dr_Lane req, mi_Mission = dr_Mission req, mi_InputCanonical = c,
         mi_TimeoutMs = t, mi_Files = files\<rparr> = Some fp \<longrightarrow> msn_InputFingerprint m \<noteq> fp \<longrightarrow>
       r = Ret (WriteError 409 ''idempotency_conflict'' None, mg'))"
proof -
  have fs: "list_all any fs" by (simp add: list_all_iff)
  from tripleD [OF Dispatch_used [of key w H g mg mg' b] _ fs assms(2)] assms(1)
  have keep: "w' = w \<and> (case r of Ret (rep, _) \<Rightarrow> reply_status rep \<noteq> 202 | _ \<Rightarrow> True)"
    by (auto simp: refused_def in_use_def split: res.splits prod.splits)
  have "r = Ret (WriteError 409 ''idempotency_conflict'' None, mg')"
    if "fs = []" "b = Body req" "dispatch_gates H key b = Inr req" "dispatch_input H req = Inr (c, t)"
      "resolveStagingMetadata H (dr_Files req) [] w = (Ret (Inr files), [], w)" "firstDuplicate (fileRoles (dr_Files req)) = []"
      "Mission (he_float H) (he_sha H) \<lparr>mi_Lane = dr_Lane req, mi_Mission = dr_Mission req, mi_InputCanonical = c,
         mi_TimeoutMs = t, mi_Files = files\<rparr> = Some fp" "msn_InputFingerprint m \<noteq> fp"
    using assms that
    by (simp add: Dispatch_def bindM_def [of "resolveStagingMetadata H (dr_Files req)"] dispatch_resolved_def
        GetMission_def replay_reply_def)
  with keep show ?thesis by blast
qed

theorem used_key_changes_nothing_witness:
  "snd (snd (Dispatch sample_handler id no_lanes no_lanes sample_mid (Body sample_request) [FOk, FErr 3] sample_world)) = sample_world"
proof -
  obtain r fs' w' where run: "Dispatch sample_handler id no_lanes no_lanes sample_mid (Body sample_request) [FOk, FErr 3] sample_world = (r, fs', w')"
    by (cases "Dispatch sample_handler id no_lanes no_lanes sample_mid (Body sample_request) [FOk, FErr 3] sample_world")
  have "find_mission sample_mid (wd_db sample_world) = Some sample_mission"
    by (simp add: find_mission_def sample_world_def sample_db_def sample_mission_def)
  from used_key_changes_nothing [OF this run] run show ?thesis by auto
qed

text \<open>
  C7: the row of an accepted dispatch is well formed: its id is the key, a UUIDv7; its status is
  queued; its lane and mission names have the documented forms, so that the mission name is a
  single path component which does not start with a dot.
\<close>
theorem queued_rows_well_formed:
  assumes "fin_inv w" and "steady (\<lambda>_. True) key g"
    and "Dispatch H g mg mg' key b fs w = (Ret (rep, mg1), fs', w')" and "reply_status rep = 202"
    and "find_mission key (wd_db w') = Some m"
  shows "msn_ID m = key \<and> ValidateUUIDv7 key \<and> msn_Status m = StatusQueued \<and> msn_Kind m = KindMission \<and>
    ValidateLaneName (msn_Lane m) \<and> ValidateMissionName (msn_MissionName m) \<and>
    CHR ''/'' \<notin> set (msn_MissionName m) \<and> hd (msn_MissionName m) \<noteq> CHR ''.''"
proof -
  have fs: "list_all any fs" by (simp add: list_all_iff)
  from Dispatch_accepted_gates [OF assms(3,4)] obtain req where
    b: "b = Body req" and gates: "dispatch_gates H key b = Inr req" by blast
  from tripleD [OF Dispatch_outcome [OF assms(2)] _ fs assms(3)] assms(1,4) b obtain m' files
    where d: "dispatched (\<lambda>_. True) H key req m' files" and e: "\<exists>d. enqueued m' (map (input_ref key) files) d (wd_db w')"
    by (auto simp: dispatch_outcome_def refused_def created_def)
  have m': "msn_ID m' = key" "msn_Status m' = StatusQueued" "msn_Kind m' = KindMission" "msn_Lane m' = dr_Lane req"
      "msn_MissionName m' = dr_Mission req" using d by (auto simp: dispatched_def queued_row_def)
  then have "m = m'" using e enqueued_find assms(5) by fastforce
  with m' gates_names [OF gates] mission_name_is_component show ?thesis by simp
qed

theorem queued_rows_well_formed_witness:
  "\<exists>w' m. Dispatch sample_handler id no_lanes no_lanes sample_key (Body sample_request) [] sample_ready =
     (Ret (WriteJSON 202 sample_key ''queued'', no_lanes), [], w') \<and> find_mission sample_key (wd_db w') = Some m \<and>
     ValidateMissionName (msn_MissionName m)"
proof -
  from sample_accepted obtain w' where
    run: "Dispatch sample_handler id no_lanes no_lanes sample_key (Body sample_request) [] sample_ready =
      (Ret (WriteJSON 202 sample_key ''queued'', no_lanes), [], w')" by blast
  obtain m where "find_mission sample_key (wd_db w') = Some m" using sample_row [OF run] by blast
  with queued_rows_well_formed [OF sample_ready_inv steady_id run _ this] run show ?thesis by auto
qed

text \<open>
  C8: a restart under any errors and crashes, with a new identifier and other requests that leave
  it alone, either answers 201, and a database satisfying \<open>D\<close> gained exactly one queued row, the
  copy of a mission that was done, with the references of that mission except its outputs, all
  kept from the collector, and its queued event on disk; or it leaves \<open>D\<close> true and no row with
  that identifier.
\<close>
theorem restart_queues_copy:
  assumes "fin_inv w" and "D (wd_db w)" and "find_mission newID (wd_db w) = None" and "steady D newID g"
    and "restartOne H ctx g mg newID mid fs w = (r, fs', w')"
  shows "case r of
      Ret (out, _) \<Rightarrow>
        if oc_Status out = 201
        then \<exists>old refs d d0. D d0 \<and> find_mission mid d0 = Some old \<and> msn_Status old = StatusDone \<and>
               refs = filter (\<lambda>r. ref_RefKind r \<noteq> RefOutput) (RefsByMission mid d0) \<and> D d \<and>
               enqueued (restart_row newID (he_now H) old) (map (\<lambda>r. r\<lparr>ref_MissionID := newID\<rparr>) refs) d (wd_db w') \<and>
               noted (restart_fields newID (he_now H) mid) newID w'
        else D (wd_db w') \<and> find_mission newID (wd_db w') = None
    | _ \<Rightarrow> D (wd_db w') \<and> find_mission newID (wd_db w') = None"
proof -
  have fs: "list_all any fs" by (simp add: list_all_iff)
  have "vacant D newID w" using assms(1-3) by (simp add: vacant_def)
  from tripleD [OF restartOne_outcome [OF assms(4)] this fs assms(5)] show ?thesis
    by (auto simp: restart_outcome_def restarted_def created_def vacant_def op_refused_def live_refs_def
        split: res.splits prod.splits if_splits)
qed

theorem restart_queues_copy_witness:
  "find_mission sample_key (wd_db (snd (snd (restartOne sample_handler (Some ScopeAdmin) id no_lanes sample_key sample_mid [] sample_world)))) = None"
proof -
  obtain r fs' w' where run: "restartOne sample_handler (Some ScopeAdmin) id no_lanes sample_key sample_mid [] sample_world = (r, fs', w')"
    by (cases "restartOne sample_handler (Some ScopeAdmin) id no_lanes sample_key sample_mid [] sample_world")
  have new: "find_mission sample_key (wd_db sample_world) = None"
    by (simp add: find_mission_def sample_world_def sample_db_def sample_mission_def sample_key_def sample_mid_def)
  have "d = sample_db \<Longrightarrow> find_mission sample_mid d = Some old \<Longrightarrow> msn_Status old \<noteq> StatusDone" for d old
    by (auto simp: find_mission_def sample_db_def sample_mission_def)
  with restart_queues_copy [where D = "\<lambda>d. d = sample_db", OF sample_fin_inv _ new steady_id run] run
  show ?thesis by (auto simp: sample_world_def split: res.splits prod.splits if_splits)
qed

text \<open>
  C9: a delete, forced or not, under any errors and crashes and with other requests that keep \<open>D\<close>,
  leaves \<open>D\<close> true, or it answers 202 and one database satisfying \<open>D\<close> differs from the result in the
  status of that mission only, which was queued or done before and is deleting now.  A running
  mission is never marked.
\<close>
theorem delete_marks_or_keeps:
  assumes "fin_inv w" and "D (wd_db w)" and "\<And>k. harmless D (we_others (de_wait X) k)" and "harmless D (de_others X)"
    and "deleteOne X rt mid force fs w = (r, fs', w')"
  shows "D (wd_db w') \<or>
    (\<exists>out rt' d. r = Ret (Some out, rt') \<and> oc_Status out = 202 \<and> D d \<and>
       (\<forall>i. find_mission i (wd_db w') =
          map_option (\<lambda>m. if i = mid \<and> msn_Status m \<in> {StatusQueued, StatusDone} then m\<lparr>msn_Status := StatusDeleting\<rparr> else m)
            (find_mission i d)))"
proof -
  have fs: "list_all any fs" by (simp add: list_all_iff)
  from tripleD [OF deleteOne_outcome [where D = D, OF assms(3,4)] _ fs assms(5)] assms(1,2)
  have "(case r of Ret p \<Rightarrow> deleted_or_kept D mid (fst p) w' | _ \<Rightarrow> fin_inv w' \<and> D (wd_db w'))" by (auto split: res.splits)
  then consider "D (wd_db w')" | out rt' d where "r = Ret (Some out, rt')" "oc_Status out = 202" "D d" "wd_db w' = delete_marked mid d"
    by (cases r) (auto simp: deleted_or_kept_def)
  then show ?thesis by cases (simp, metis delete_marked_rows)
qed

theorem delete_marks_or_keeps_witness:
  "find_mission sample_mid (wd_db (snd (snd (deleteOne sample_delete (\<lambda>_. Some None) sample_mid True [FOk, FErr 3] sample_world)))) =
     Some sample_mission"
proof -
  let ?w' = "snd (snd (deleteOne sample_delete (\<lambda>_. Some None) sample_mid True [FOk, FErr 3] sample_world))"
  obtain r fs' w' where run: "deleteOne sample_delete (\<lambda>_. Some None) sample_mid True [FOk, FErr 3] sample_world = (r, fs', w')"
    by (cases "deleteOne sample_delete (\<lambda>_. Some None) sample_mid True [FOk, FErr 3] sample_world")
  have "find_mission sample_mid sample_db = Some sample_mission" "msn_Status sample_mission = StatusRunning"
    by (simp_all add: find_mission_def sample_db_def sample_mission_def)
  with delete_marks_or_keeps [where D = "\<lambda>d. d = sample_db", OF sample_fin_inv _ _ _ run] run
  show ?thesis by (auto simp: sample_world_def sample_delete_def)
qed

text \<open>
  C10: when the clock advances at least by the polling interval between two polls, a delete comes
  back with an answer, whatever fails and whatever other requests do, also when it waits for a
  process that never ends.
\<close>
theorem force_delete_returns:
  assumes "0 \<le> de_ForceDeleteTimeout X" and "0 \<le> de_ForceDeletePoll X"
    and "\<forall>k. de_start X + int k * wait_poll (de_ForceDeletePoll X) \<le> we_now (de_wait X) k"
    and "deleteOne X rt mid force fs w = (Ret (out, rt'), fs', w')"
  shows "out \<noteq> None"
proof -
  have fs: "list_all any fs" by (simp add: list_all_iff)
  have "clock_law (de_wait X) (de_start X) (de_ForceDeletePoll X)" using assms(3) by (simp add: clock_law_def)
  from tripleD [OF deleteOne_returns [OF assms(1,2) this] TrueI fs assms(4)] show ?thesis by simp
qed

theorem force_delete_returns_witness:
  "\<exists>out rt' fs' w'. deleteOne sample_delete (\<lambda>_. Some None) sample_mid True [] sample_world = (Ret (out, rt'), fs', w') \<and> out \<noteq> None"
proof -
  from sample_delete_ends obtain out rt' fs' w' where
    run: "deleteOne sample_delete (\<lambda>_. Some None) sample_mid True [] sample_world = (Ret (out, rt'), fs', w')" by blast
  have "out \<noteq> None" by (rule force_delete_returns [OF _ _ _ run]) (simp_all add: sample_delete_def wait_poll_def)
  with run show ?thesis by blast
qed

text \<open>
  C11: in every reachable state of the key lock, two requests inside with the same key are the same
  request; the map holds exactly the keys of the requests under way, so that it is empty when all
  are done; and a waiting request can go in when nobody with its key is inside.
\<close>
theorem key_lock_exclusive:
  assumes "km_reach k"
  shows "(km_at k t = Inside key a \<longrightarrow> km_at k u = Inside key b \<longrightarrow> u = t) \<and>
    dom (km_m k) = {key. \<exists>t a. at_entry (km_at k t) = Some (key, a)} \<and>
    (km_at k t = Waiting key a \<longrightarrow> (\<forall>u b. km_at k u \<noteq> Inside key b) \<longrightarrow>
       km_step k (move t (Inside key a) (set_mu True a k)))"
  using km_exclusive [OF assms] km_keys [OF assms] km_no_deadlock [OF assms] by blast

theorem key_lock_exclusive_witness:
  "\<exists>k. km_reach k \<and> km_at k 0 = Waiting ''a'' 0 \<and> dom (km_m k) = {key. \<exists>t a. at_entry (km_at k t) = Some (key, a)} \<and>
     km_step k (move 0 (Inside ''a'' 0) (set_mu True 0 k))"
proof -
  let ?k = "move 0 (Waiting ''a'' 0) (snd (lock_entry ''a'' NewKeyMutex))"
  have "lock_entry ''a'' NewKeyMutex = (0, snd (lock_entry ''a'' NewKeyMutex))"
    by (simp add: lock_entry_def NewKeyMutex_def Let_def)
  then have "km_step NewKeyMutex ?k" by (intro km_step.enter) (simp_all add: NewKeyMutex_def)
  then have r: "km_reach ?k" by (rule km_reach.step [OF km_reach.start])
  have at: "km_at ?k 0 = Waiting ''a'' 0" "km_at ?k u \<noteq> Inside key b" for u key b
    by (simp_all add: lock_entry_def NewKeyMutex_def Let_def)
  with key_lock_exclusive [OF r, of 0 "''a''" 0] r show ?thesis by blast
qed

section \<open>Canonical texts and fingerprints\<close>

text \<open>
  C12: two JSON values with valid strings, distinct member names and integers of at most 64 bits
  have the same canonical text exactly when they are equal up to the order of object members,
  and they do have one.
\<close>
theorem canonical_text_iff:
  assumes "exact v" and "exact w"
  shows "(encode fl v = encode fl w \<longleftrightarrow> canon v = canon w) \<and> encode fl v \<noteq> None"
  using encode_eq_iff [OF assms] encode_total [OF assms(1)] by blast

theorem canonical_text_iff_witness:
  "encode \<lparr>ParseFloat64 = (\<lambda>_. None), FormatFloat = (\<lambda>_ _. [])\<rparr> (JArr [JInt 1, JStr ''a'']) \<noteq>
   encode \<lparr>ParseFloat64 = (\<lambda>_. None), FormatFloat = (\<lambda>_ _. [])\<rparr> (JArr [JInt 1, JStr ''b''])"
proof -
  have "exact (JArr [JInt 1, JStr ''a''])" "exact (JArr [JInt 1, JStr ''b''])"
    by (simp_all add: exact_int_def ascii_valid in_i64_def maxInt64_def)
  from canonical_text_iff [OF this] show ?thesis by simp
qed

text \<open>
  C13: the text that a mission fingerprint hashes is equal for two dispatches exactly when they
  agree on the lane, the mission, the hash of their input, the timeout and the set of their files
  with roles, ids, hashes and sizes.
\<close>
theorem fingerprint_binds_request:
  assumes "mission_input_ok sha a" and "mission_input_ok sha b"
  shows "encode fl (mission_payload sha a) = encode fl (mission_payload sha b) \<longleftrightarrow>
    mi_Lane a = mi_Lane b \<and> mi_Mission a = mi_Mission b \<and> sha (mi_InputCanonical a) = sha (mi_InputCanonical b) \<and>
    mi_TimeoutMs a = mi_TimeoutMs b \<and> set (mi_Files a) = set (mi_Files b)"
  by (rule mission_text_iff [OF assms])

theorem fingerprint_binds_request_witness:
  "encode (he_float sample_handler) (mission_payload (\<lambda>_. ''e3b0'') sample_text) \<noteq> encode (he_float sample_handler) (mission_payload (\<lambda>_. ''e3b0'') (sample_text\<lparr>mi_TimeoutMs := Some 5\<rparr>))"
proof -
  have "mission_input_ok (\<lambda>_. ''e3b0'') sample_text" "mission_input_ok (\<lambda>_. ''e3b0'') (sample_text\<lparr>mi_TimeoutMs := Some 5\<rparr>)"
    by (simp_all add: mission_input_ok_def sample_text_def ascii_valid in_i64_def maxInt64_def)
  from fingerprint_binds_request [OF this] show ?thesis by (simp add: sample_text_def)
qed

section \<open>Staged files\<close>

text \<open>
  C14: an upload request under any errors and stops, with others that keep the files of complete
  rows and leave this upload alone, keeps every complete row's file at the row's hash and size.
  When it answers 201, its row is complete with the declared hash, and its file has that hash and
  the size of the row, also when the upload was resumed.
\<close>
theorem upload_keeps_files_intact:
  assumes "calm_env E C (pr_id q)" and "staged (pe_sha E) C w" and "staging_Put E C q w = (answer, w')"
  shows "staged (pe_sha E) C w' \<and>
    (\<forall>j h. answer = Replied (WriteJSON 201 j h) \<longrightarrow>
       (\<exists>s. find_staging (pr_id q) (uw_db w') = Some s \<and> stg_State s = StagingComplete \<and>
          stg_Sha256 s = ToLower (pr_Sha256 q) \<and> stored (pe_sha E) C s w'))"
  by (rule staging_Put_good [OF assms])

theorem upload_keeps_files_intact_witness:
  "\<exists>w' s. staging_Put (undisturbed sample_hash 7 (body_reads 7 [''he'', ''llo''])) sample_upload_cfg
       (chunk_request sample_sid sample_declared 0 5 5) sample_upload_world = (Replied (WriteJSON 201 sample_sid sample_declared), w') \<and>
     find_staging sample_sid (uw_db w') = Some s \<and> stored sample_hash sample_upload_cfg s w'"
proof -
  let ?E = "undisturbed sample_hash 7 (body_reads 7 [''he'', ''llo''])" and ?q = "chunk_request sample_sid sample_declared 0 5 5"
  have "sample_hash ''hello'' = sample_declared" by (simp add: sample_hash_def sample_declared_def)
  then have "\<exists>w'. send_chunks sample_hash sample_upload_cfg sample_sid sample_declared 5 [(7, [''he'', ''llo''])] 0 sample_upload_world =
      (chunk_replies sample_sid sample_declared 1, w')"
    using chunks_upload [of sample_sid sample_declared sample_upload_cfg 5 "[(7, [''he'', ''llo''])]" sample_hash sample_upload_world]
      sample_upload_ready by auto
  then obtain w' where run: "staging_Put ?E sample_upload_cfg ?q sample_upload_world = (Replied (WriteJSON 201 sample_sid sample_declared), w')"
    by (auto simp: chunk_replies_def split: prod.splits)
  have "pr_id ?q = sample_sid" "pe_sha ?E = sample_hash" by (simp_all add: chunk_request_def undisturbed_def)
  with upload_keeps_files_intact [OF undisturbed_calm _ run] sample_upload_ready(8) [of sample_hash] run
  show ?thesis by auto
qed

text \<open>
  C15: within the configured limits and undisturbed, data that is sent as any sequence of non-empty
  chunks, each in a request of its own whose body arrives in any number of reads, ends up in the
  store: all chunks but the last are answered 400 incomplete_upload, the last is answered 201, the
  row is complete and the file holds exactly the data.
\<close>
theorem chunked_upload_completes:
  assumes "ValidateUUIDv7 sid" and "sha256Regex declared" and "roomy C tot" and "tot \<le> maxInt64"
    and "list_all (\<lambda>c. concat (snd c) \<noteq> []) chunks" and "chunks \<noteq> []"
    and "int (length (chunk_data chunks)) = tot" and "sha (chunk_data chunks) = declared"
    and "db_ok (uw_db w)" and "find_staging sid (uw_db w) = None" and "admits C (uw_db w)" and "\<not> IsLocked (uw_lock w) sid"
  shows "\<exists>w'. send_chunks sha C sid declared tot chunks 0 w = (chunk_replies sid declared (length chunks), w') \<and>
    (\<exists>i. uw_dir w' (staging_abs C sid) = Some i \<and> uw_data w' i = chunk_data chunks) \<and>
    (\<exists>s. find_staging sid (uw_db w') = Some s \<and> stg_State s = StagingComplete \<and> stg_Sha256 s = declared \<and> stg_Size s = tot)"
proof -
  have "concat (snd c) \<noteq> []" if "c \<in> set chunks" for c using assms(5) that by (simp only: list_all_iff) blast
  then show ?thesis
    using chunks_upload [of sid declared C tot chunks sha w] assms(1-4,6-) by (simp only: uploaded_def) blast
qed

theorem chunked_upload_completes_witness:
  "\<exists>w' i. send_chunks sample_hash sample_upload_cfg sample_sid sample_declared 5 [(7, [''he'']), (9, [''l'', ''lo''])] 0 sample_upload_world =
     ([Replied (WriteError 400 ''incomplete_upload'' None), Replied (WriteJSON 201 sample_sid sample_declared)], w') \<and>
     uw_dir w' (staging_abs sample_upload_cfg sample_sid) = Some i \<and> uw_data w' i = ''hello''"
proof -
  have "sample_hash ''hello'' = sample_declared" by (simp add: sample_hash_def sample_declared_def)
  then show ?thesis
    using chunked_upload_completes [of sample_sid sample_declared sample_upload_cfg 5 "[(7, [''he'']), (9, [''l'', ''lo''])]" sample_hash sample_upload_world]
      sample_upload_ready by (auto simp: chunk_replies_def simp del: send_chunks.simps)
qed

text \<open>
  C16: a delete of a staged file, under any errors and crashes and with others that keep \<open>D\<close>, keeps
  \<open>D\<close>, and a 202 answer then means that the row was already being deleted; or it answers 202, no
  mission that refers to the file ran at that moment (none referred to it at all without force),
  the file and exactly those missions are marked as deleting, and nothing else has changed.
\<close>
theorem staged_file_delete:
  assumes "fin_inv w" and "D (wd_db w)" and "\<And>mid k. harmless D (we_others (sd_wait X mid) k)" and "harmless D (sd_others X)"
    and "staging_Delete X rt sid force_text fs w = (r, fs', w')"
  shows "D (wd_db w') \<and>
      (\<forall>rt'. r = Ret (Some DeletionPending, rt') \<longrightarrow>
         (\<exists>s. find_staging sid (wd_db w') = Some s \<and> stg_State s = StagingDeleting)) \<or>
    (\<exists>rt' d. r = Ret (Some DeletionPending, rt') \<and> D d \<and>
       (\<forall>m \<in> set (missions d). refers sid d (msn_ID m) \<longrightarrow> force_param force_text \<and> msn_Status m \<noteq> StatusRunning) \<and>
       staging_removed (force_param force_text) sid d (wd_db w'))"
proof -
  have fs: "list_all any fs" by (simp add: list_all_iff)
  from tripleD [OF staging_Delete_outcome [where D = D, OF assms(3,4)] _ fs assms(5)] assms(1,2)
  have "(case r of Ret p \<Rightarrow> removed_or_kept D (force_param force_text) sid (fst p) w' | _ \<Rightarrow> fin_inv w' \<and> D (wd_db w'))"
    by (auto split: res.splits)
  then show ?thesis by (cases r) (auto simp: removed_or_kept_def staging_removed_def)
qed

theorem staged_file_delete_witness:
  "wd_db (snd (snd (staging_Delete sample_sdelete (\<lambda>_. Some None) sample_sid [] [FOk, FErr 5] sample_staged_world))) = sample_staged"
proof -
  obtain r fs' w' where run: "staging_Delete sample_sdelete (\<lambda>_. Some None) sample_sid [] [FOk, FErr 5] sample_staged_world = (r, fs', w')"
    by (cases "staging_Delete sample_sdelete (\<lambda>_. Some None) sample_sid [] [FOk, FErr 5] sample_staged_world")
  have "refers sample_sid sample_staged (msn_ID sample_mission)" "sample_mission \<in> set (missions sample_staged)"
    by (simp_all add: refers_def sample_staged_def sample_db_def sample_mission_def)
  moreover have "\<not> force_param []" by (simp add: force_param_def ToLower_def)
  ultimately show ?thesis
    using staged_file_delete [where D = "\<lambda>d. d = sample_staged", OF sample_staged_inv _ sample_sdelete_harmless run] run
    by (auto simp: sample_staged_world_def)
qed

section \<open>Who may do what\<close>



text \<open>
  C18: in a window no longer than the time to live of an entry, requests arrive one after the other;
  those that are attributed to the address \<open>k\<close> on protected routes all carry unknown tokens or
  none, the others are arbitrary.  However the tracker stood at the beginning, at most 14 of the
  tokens of \<open>k\<close> are looked at, plus one for every 30 seconds of the window; the others are
  answered 429 unread.
\<close>
theorem guesses_limited:
  assumes "in_order s as E" and "E - s \<le> ttl" and "ac_BruteForce cfg = Some ttl" and "k \<noteq> []"
    and "\<forall>a \<in> set as. attributed L cfg k a \<longrightarrow> guess cfg a"
  shows "int (guesses_heard L cfg h k as g) \<le> 14 + (E - s) div 30000000000"
proof -
  have "30000000000 * (int (guesses_heard L cfg h k as g) - 14) \<le> E - s"
    using guesses_bounded [OF assms(1-4), of L h g] assms(5) by simp
  then have "30000000000 * (int (guesses_heard L cfg h k as g) - 14) div 30000000000 \<le> (E - s) div 30000000000"
    by (rule zdiv_mono1) simp
  then show ?thesis by simp
qed

theorem guesses_limited_witness:
  "guesses_heard sample_net sample_auth (\<lambda>_. sample_count) ''10.0.0.1'' (map sample_guess [1, 2, 3, 4, 5, 6, 7]) sample_gate \<le> 14 \<and>
   in_order 0 (map sample_guess [1, 2, 3, 4, 5, 6, 7]) 8"
proof -
  have ord: "in_order 0 (map sample_guess [1, 2, 3, 4, 5, 6, 7]) 8" by (simp add: sample_guess_def)
  have "ac_BruteForce sample_auth = Some 3600000000000" "(8 :: int) - 0 \<le> 3600000000000" by (simp_all add: sample_auth_def)
  moreover have "\<forall>a \<in> set (map sample_guess [1, 2, 3, 4, 5, 6, 7]).
      attributed sample_net sample_auth ''10.0.0.1'' a \<longrightarrow> guess sample_auth a"
    by (simp add: sample_guess_def guess_def sample_http_def empty_header)
  ultimately have "int (guesses_heard sample_net sample_auth (\<lambda>_. sample_count) ''10.0.0.1''
      (map sample_guess [1, 2, 3, 4, 5, 6, 7]) sample_gate) \<le> 14 + (8 - 0) div 30000000000"
    using guesses_limited [OF ord] by blast
  with ord show ?thesis by simp
qed





section \<open>Clients\<close>

text \<open>
  C21: a client dispatches a mission under a key that is not in use; requests and replies may be
  lost or cut short, the daemon may fail or crash at any point, and others leave the key alone.
  The daemon accepts at most one attempt, and the mission is there exactly when it did; when the
  client reports success, the mission is there under that key.  There are at most two pauses, of
  at most 600 ms together before jitter.
\<close>
theorem client_dispatch_once:
  assumes "\<And>i. left_alone key (A i)" and "fin_inv w" and "find_mission key (wd_db w) = None"
    and "lettsclient_Dispatch key b A w = (r, (w', replies), waits)"
  shows "accepted replies \<le> 1 \<and> (accepted replies = 1 \<longleftrightarrow> find_mission key (wd_db w') \<noteq> None) \<and>
    (\<forall>mid st. r = Inr (mid, st) \<longrightarrow> mid = key \<and> find_mission key (wd_db w') \<noteq> None) \<and>
    length waits \<le> 2 \<and> sum_list waits \<le> 600 * 1000000"
proof -
  have once: "once_inv key (w', replies) \<and> (\<forall>x. r = Inr x \<longrightarrow> fst x = key \<and> find_mission key (wd_db w') \<noteq> None)"
    by (rule client_dispatch [OF assms])
  have "length waits \<le> 2 \<and> sum_list waits \<le> 600 * 1000000"
    by (rule sticky_waits [OF assms(4) [unfolded lettsclient_Dispatch_def]])
  with once show ?thesis by (auto simp: once_inv_def split: if_splits)
qed

theorem client_dispatch_once_witness:
  "\<exists>w'. lettsclient_Dispatch sample_key (Body sample_request) sample_attempts sample_ready =
       (Inl (HTTPError 503 ''draining''), (w', [WriteJSON 202 sample_key ''queued'', WriteError 503 ''draining'' (Some 30)]), [100000000]) \<and>
     find_mission sample_key (wd_db w') \<noteq> None"
proof -
  obtain w' where first: "Dispatch sample_handler id no_lanes no_lanes sample_key (Body sample_request) [] sample_ready =
      (Ret (WriteJSON 202 sample_key ''queued'', no_lanes), [], w')" using sample_accepted by blast
  have second: "Dispatch (sample_handler\<lparr>he_IsDraining := True\<rparr>) id no_lanes no_lanes sample_key (Body sample_request) [] w' =
      (Ret (WriteError 503 ''draining'' (Some 30), no_lanes), [], w')"
    by (simp add: Dispatch_def dispatch_gates_def ret_def)
  have run: "lettsclient_Dispatch sample_key (Body sample_request) sample_attempts sample_ready =
      (Inl (HTTPError 503 ''draining''), (w', [WriteJSON 202 sample_key ''queued'', WriteError 503 ''draining'' (Some 30)]), [100000000])"
    using first second
    by (simp add: lettsclient_Dispatch_def stickyRetry_def RetryClient_DoJSON_def post_dispatch_def sample_attempts_def
        sticky_stop_def definitiveServerCodes_def backoffFor_def DefaultBackoffMs_def numeral_3_eq_3)
  have "left_alone sample_key (sample_attempts i)" for i by (simp add: left_alone_def sample_attempts_def)
  moreover have "find_mission sample_key (wd_db sample_ready) = None"
    by (simp add: find_mission_def sample_ready_def empty_db_def)
  ultimately show ?thesis
    using client_dispatch_once [OF _ sample_ready_inv _ run] run by (auto simp: accepted_def)
qed



section \<open>The events file\<close>



text \<open>
  C24: whatever fails on the way (refused, torn or unsynced writes, a failed healing newline), a
  run of appends after reopening a file leaves its sequence numbers strictly increasing and the
  writer's counter at least every one of them.
\<close>
theorem event_seqs_increase:
  assumes "sorted_wrt (<) (file_seqs f)" and "Open nl (Some f) = (Inr w, f')"
    and "append_run msize cs w = (rs, w')" and "wr_seq w + int (length cs) \<le> maxInt64"
    and "\<forall>(env, kind, fs, sync) \<in> set cs. plain_keys fs"
  shows "sorted_wrt (<) (file_seqs (wr_file w')) \<and> (\<forall>s \<in> set (file_seqs (wr_file w')). s \<le> wr_seq w')"
  using append_run_ok [OF assms(3) Open_writer_ok [OF assms(2,1)] assms(4,5)] by (simp add: writer_ok_def)

theorem event_seqs_increase_witness:
  "\<exists>rs w'. append_run (\<lambda>_. 50) [((IoOk, IoErr 7, True), KindProgress, [], False), ((IoOk, IoOk, True), KindDone, [], True)]
       ((new_writer sample_events)\<lparr>wr_seq := 2\<rparr>) = (rs, w') \<and> rs = [Inl ErrIO, Inr 4] \<and>
     sorted_wrt (<) (file_seqs (wr_file w'))"
proof -
  let ?cs = "[((IoOk, IoErr 7, True), KindProgress, [], False), ((IoOk, IoOk, True), KindDone, [], True)]"
  let ?w = "(new_writer sample_events)\<lparr>wr_seq := 2\<rparr>"
  have o: "Open IoOk (Some sample_events) = (Inr ?w, Some sample_events)"
    using sample_no_done(1)
    by (simp add: Open_def terminateTornTail_def scan_seq_def scan_lines_def line_seq_def sample_events_def
        sample_seq_decode new_writer_def)
  have s: "sorted_wrt (<) (file_seqs sample_events)"
    by (simp add: file_seqs_def sample_events_def scan_lines_def line_seq_def sample_seq_decode map_filter_simps)
  obtain rs w' where run: "append_run (\<lambda>_. 50) ?cs ?w = (rs, w')" by (cases "append_run (\<lambda>_. 50) ?cs ?w")
  have "rs = [Inl ErrIO, Inr 4]"
    using run by (auto simp: Append_def Let_def new_writer_def no_limits_def wrap64_def isLifecycle_def)
  with event_seqs_increase [OF s o run] run show ?thesis
    by (simp add: maxInt64_def plain_keys_def)
qed



section \<open>Transactions and tables\<close>

text \<open>
  C26: \<^verbatim>\<open>WithWriterRetry\<close> either applies the statement exactly once, to the database it started from,
  or leaves the database unchanged; it waits fewer than ten times and never for more than the
  maximal backoff.
\<close>
theorem retry_atomic_bounded:
  assumes "WithWriterRetry env fn d = (r, d', waits)"
  shows "(case r of Inl _ \<Rightarrow> d' = d | Inr x \<Rightarrow> fn d = Inr (x, d')) \<and>
    length waits < maxAttempts \<and> (\<forall>t \<in> set waits. t \<le> maxBackoff)"
  using retry_loop_spec [of 50 1 env fn d r d' waits] assms
  by (auto simp: WithWriterRetry_def maxBackoff_def maxAttempts_def)

theorem retry_atomic_bounded_witness:
  "snd (snd (WithWriterRetry [(TxBeginErr (ErrSqlite 5), False), (TxBeginErr (ErrSqlite 517), False)]
      (\<lambda>d. Inr ((), d)) empty_db)) = [50, 100] \<and> length [50, 100 :: nat] < maxAttempts"
proof -
  obtain r d' ws where run: "WithWriterRetry [(TxBeginErr (ErrSqlite 5), False), (TxBeginErr (ErrSqlite 517), False)]
      (\<lambda>d. Inr ((), d)) empty_db = (r, d', ws)"
    by (cases "WithWriterRetry [(TxBeginErr (ErrSqlite 5), False), (TxBeginErr (ErrSqlite 517), False)]
      (\<lambda>d. Inr ((), d)) empty_db")
  have "ws = [50, 100]"
    using run by (simp add: WithWriterRetry_def retry_loop.simps WithWriter_def IsBusy_def maxAttempts_def
        next_backoff_def maxBackoff_def)
  with retry_atomic_bounded [OF run] run show ?thesis by simp
qed

text \<open>
  C27: the pickup returns a queued mission of the lane that has no finalize intent, and none such
  is older by creation time and id; it reports not-found exactly when the lane has none.
\<close>
theorem pickup_is_oldest:
  "(case PickQueuedForLane lane d of
      Inr m \<Rightarrow> m \<in> set (missions d) \<and> msn_Status m = StatusQueued \<and> msn_Lane m = lane \<and>
        find_intent (msn_ID m) d = None \<and>
        (\<forall>m' \<in> set (missions d). pickable lane d m' \<longrightarrow>
           (msn_TimeCreatedMs m, msn_ID m) \<le> (msn_TimeCreatedMs m', msn_ID m'))
    | Inl e \<Rightarrow> e = ErrNotFound \<and> (\<forall>m \<in> set (missions d). \<not> pickable lane d m))"
proof (cases "PickQueuedForLane lane d")
  case (Inr m)
  with PickQueuedForLane_pickable [OF Inr] PickQueuedForLane_oldest [OF Inr] show ?thesis
    by (simp add: pickable_def has_intent_find)
next
  case (Inl e)
  with PickQueuedForLane_none [of lane d e] show ?thesis by simp
qed

theorem pickup_is_oldest_witness:
  "\<exists>m. PickQueuedForLane ''fast'' (sample_db\<lparr>missions := [sample_mission\<lparr>msn_Status := StatusQueued\<rparr>]\<rparr>) = Inr m \<and>
     find_intent (msn_ID m) (sample_db\<lparr>missions := [sample_mission\<lparr>msn_Status := StatusQueued\<rparr>]\<rparr>) = None"
proof -
  let ?d = "sample_db\<lparr>missions := [sample_mission\<lparr>msn_Status := StatusQueued\<rparr>]\<rparr>"
  have "PickQueuedForLane ''fast'' ?d = Inr (sample_mission\<lparr>msn_Status := StatusQueued\<rparr>)"
    by (simp add: PickQueuedForLane_def pickable_def has_intent_def sample_db_def empty_db_def sample_mission_def)
  with pickup_is_oldest [where lane = "''fast''" and d = ?d] show ?thesis by simp
qed



text \<open>
  C29: following the cursors of the listing, with any page size and either order, yields exactly
  the rows an unlimited listing yields, each once and strictly descending, and takes no more
  requests than there are rows plus one.
\<close>
theorem pages_cover_listing:
  assumes "db_ok d" and "0 < limit" and "length (missions d) < n"
  shows "all_pages n f None limit d = Some (ListMissions f None (- 1) d) \<and>
    set (ListMissions f None (- 1) d) = {m \<in> set (missions d). list_where f None m} \<and>
    sorted_wrt (\<lambda>a b. list_key f b < list_key f a) (ListMissions f None (- 1) d)"
proof -
  note k = db_ok_keyed(1) [OF assms(1)]
  have r: "rest_of f None d = listing f d" by (simp add: rest_of_def listing_def)
  have "length (rest_of f None d) < n" using length_listing [of f d] assms(3) by (simp add: r)
  with all_pages_from [OF k assms(2), of f None 0 n] r have "all_pages n f None limit d = Some (listing f d)" by simp
  then show ?thesis
    using listing_descending [OF k, of f] by (auto simp: ListMissions_unlimited listing_def)
qed

theorem pages_cover_listing_witness:
  "\<exists>ms. all_pages 3 \<lparr>lf_Status = [], lf_Outcome = [], lf_Lane = ''fast'', lf_Mission = [], lf_MissionPrefix = ''rep'', lf_Kind = [],
      lf_GroupID = [], lf_RestartedFrom = [], lf_Order = ''created'', lf_SinceMs = 0, lf_UntilMs = 0\<rparr> None 1 sample_db = Some ms \<and>
     ms \<noteq> []"
proof -
  let ?f = "\<lparr>lf_Status = [], lf_Outcome = [], lf_Lane = ''fast'', lf_Mission = [], lf_MissionPrefix = ''rep'', lf_Kind = [],
      lf_GroupID = [], lf_RestartedFrom = [], lf_Order = ''created'', lf_SinceMs = 0, lf_UntilMs = 0\<rparr>"
  have "list_where ?f None sample_mission"
    by (simp add: list_where_def like_prefix sample_mission_def) (auto intro: exI [of _ "''rep''"])
  with pages_cover_listing [OF sample_db_ok, of 1 3 ?f] show ?thesis
    by (auto simp: sample_db_def empty_db_def)
qed

section \<open>Staging files\<close>


text \<open>
  Once its expiry has been recalculated, a live staging file that an active mission refers to
  survives the collector at any time before the end of the 64-bit clock.
\<close>
lemma active_reference_protects:
  assumes "db_ok d" and "r \<in> set (staging_refs d)" and "ref_StagingID r = sid" and "ref_MissionID r = msn_ID m"
    and "m \<in> set (missions d)" and "active m" and "find_staging sid d = Some s"
    and "stg_State s \<in> {StagingUploading, StagingComplete}"
    and "RecalcStagingTTL sid p d = Inr (e, d1)" and "now < maxInt64"
    and "MarkStagingDeletingIfExpired sid now d1 = Inr ((), d2)"
  shows "d2 = d1"
proof -
  have "m \<in> set (ref_missions sid d)" using assms(2-5) by (auto simp: ref_missions_iff)
  then have "e = maxInt64"
    using assms(6,7,9) by (auto simp: RecalcStagingTTL_def GetStaging_def Let_def compute_expires_spec)
  then have "find_staging sid d1 = Some (s\<lparr>stg_TimeExpiresMs := maxInt64\<rparr>)"
    using RecalcStagingTTL_stored [OF assms(9,7,8)] by simp
  from MarkStagingDeletingIfExpired_keeps [OF RecalcStagingTTL_db_ok [OF assms(9,1)] assms(11) this] assms(10)
  show ?thesis by simp
qed

section \<open>Outcomes\<close>

text \<open>
  A mission is classified a success exactly when the daemon did not kill it, no memory
  exhaustion or SIGKILL was seen, no other signal ended it without a final event, the fd3
  stream had no fatal violation, the exit code is 0, and the final event, if any, is not
  \<^verbatim>\<open>fail\<close>.
\<close>
lemma success_exactly_when:
  "or_Outcome (Compute i) = ''success'' \<longleftrightarrow>
     oi_ExternalKill i \<notin> {KillTimeout, KillForceDelete, KillLaneRemoved, KillDugdaleShutdown, KillByAPI} \<and>
     \<not> oi_OOMDetected i \<and> oi_Signal i \<notin> {''KILL'', ''killed''} \<and> (oi_Signal i = [] \<or> oi_Fd3Final i \<noteq> None) \<and>
     (\<forall>v \<in> set (oi_Fd3Violations i). vio_Reason v \<notin> {''event_line_too_large'', ''event_protocol_error'',
        ''duplicate_final_event'', ''too_many_output_files''}) \<and>
     oi_ExitCode i = 0 \<and> (\<forall>f. oi_Fd3Final i = Some f \<longrightarrow> fin_Kind f \<noteq> ''fail'')"
proof -
  have "daemon_kill k \<longleftrightarrow> k \<in> {KillTimeout, KillForceDelete, KillLaneRemoved, KillDugdaleShutdown, KillByAPI}" for k
    by (cases k) (simp_all add: daemon_kill_def)
  then show ?thesis unfolding Compute_success_iff fatal_reasons_def by simp
qed

text \<open>
  After capping, the return value and the fail message are within their configured limits,
  and the fail details are within theirs or are the fixed-size truncation marker.
\<close>
lemma caps_hold:
  assumes "0 < fc_MaxReturnValue cfg" and "0 < fc_MaxFailMessage cfg" and "0 < fc_MaxFailDetails cfg"
  shows "int (rlen (or_Return (capOutcome o0 cfg))) \<le> fc_MaxReturnValue cfg \<and>
    int (length (or_FailMessage (capOutcome o0 cfg))) \<le> fc_MaxFailMessage cfg \<and>
    (int (rlen (or_FailDetails (capOutcome o0 cfg))) \<le> fc_MaxFailDetails cfg \<or>
     (\<exists>n. fc_MaxFailDetails cfg < int n \<and> or_FailDetails (capOutcome o0 cfg) = Some (details_marker n)))"
  using capOutcome_bounds assms by blast

section \<open>The fd3 reader\<close>

text \<open>
  C31: whatever a mission writes to fd 3 and however the reads are chunked, the state the reader
  ends with is bounded and well formed (at most 32 violations, all of a fatal reason; valid,
  distinct output keys within the limit; a final event carrying objects or null), and nothing
  recorded earlier was withdrawn or replaced.
\<close>
theorem fd3_reader_bounded:
  assumes "fd3_ok L limits s"
  shows "fd3_ok L limits (ReadFd3 L limits lineNo env cs s) \<and> extends s (ReadFd3 L limits lineNo env cs s)"
  using ReadFd3_inv [of L limits s lineNo env cs] assms by blast

theorem fd3_reader_bounded_witness:
  "fd3_ok sample_lib \<lparr>fl_MaxEventLineSize = 100, fl_MaxOutputFilesPerMsn = 4\<rparr>
     (ReadFd3 sample_lib \<lparr>fl_MaxEventLineSize = 100, fl_MaxOutputFilesPerMsn = 4\<rparr> 0 []
        [(replicate 200 CHR ''x'', False, False), (''y'', False, False)] fd3_init)"
  by (rule conjunct1 [OF fd3_reader_bounded [OF fd3_init_ok]])

section \<open>Stored intents\<close>



section \<open>Identifiers\<close>



section \<open>Lanes\<close>

text \<open>
  C34: in every state a lane reaches, under any interleaving of its loop with pauses, resizes,
  releases, dispatches and the other writes to the database, each mission was handed to the
  spawner at most once and has left the queue, the in-flight count is the number of missions
  started and not released, and it does not exceed the largest limit ever set.
\<close>
theorem lane_starts_each_once:
  assumes "lane_reach (lane_start lane n d) s"
  shows "distinct (ls_spawned s) \<and> (\<forall>i \<in> set (ls_spawned s). \<not> queued i (ls_db s)) \<and>
    rn_inflight (ls_runner s) = int (length (ls_live s)) \<and> set (ls_live s) \<subseteq> set (ls_spawned s) \<and>
    rn_inflight (ls_runner s) \<le> max 0 (ls_maxLimit s)"
proof -
  from lane_reach_inv [OF assms lane_start_inv] have "start_inv s" and "limit_inv s" by (simp_all add: lane_inv_def)
  then show ?thesis by (auto simp: start_inv_def limit_inv_def Let_def)
qed

theorem lane_starts_each_once_witness:
  "ls_spawned (loop_run 5 6 sample_lane) = [sample_mid] \<and> distinct (ls_spawned (loop_run 5 6 sample_lane)) \<and>
   rn_inflight (ls_runner (loop_run 5 6 sample_lane)) \<le> max 0 (ls_maxLimit (loop_run 5 6 sample_lane))"
proof -
  have "lane_reach sample_lane (loop_run 5 k sample_lane)" for k
    by (induction k) (auto simp: loop_run_def intro: rtranclp.rtrancl_into_rtrancl step_loop)
  from lane_starts_each_once [OF this [of 6, unfolded sample_lane_def]]
  have "distinct (ls_spawned (loop_run 5 6 sample_lane)) \<and>
    rn_inflight (ls_runner (loop_run 5 6 sample_lane)) \<le> max 0 (ls_maxLimit (loop_run 5 6 sample_lane))"
    by (simp add: sample_lane_def del: loop_run_numeral)
  moreover have "ls_spawned (loop_run 5 6 sample_lane) = [sample_mid]"
    by (simp add: loop_step_eqs sample_lane_def lane_start_def Start_def new_runner_def WithWriter_TxOk pickup_stmt_def
        PickQueuedForLane_def sample_queue_def pickable_def has_intent_def sample_db_def empty_db_def sample_mission_def
        MarkRunning_def guarded_update_def sql_affected_def)
  ultimately show ?thesis by simp
qed

text \<open>
  C35: when a live lane is marked for removal, its loop acknowledges within six of its own steps;
  and from any state in which the acknowledgement is given, no continuation starts a mission.
\<close>
theorem removal_stops_lane:
  assumes "lane_reach (lane_start lane n d) s" and "\<not> rn_cancelled (ls_runner s)"
  defines "t \<equiv> s\<lparr>ls_runner := MarkRemoving (ls_runner s)\<rparr>"
  shows "rn_removingAck (ls_runner (loop_run nowMs 6 t)) \<and>
    (\<forall>u v. lane_reach t u \<and> rn_removingAck (ls_runner u) \<and> lane_reach u v \<longrightarrow> ls_spawned v = ls_spawned u)"
proof
  note inv = lane_reach_inv [OF assms(1) lane_start_inv]
  then have "being_removed t"
    using assms(2) by (auto simp: t_def being_removed_def MarkRemoving_def lane_inv_def removal_inv_def Let_def)
  moreover have "steps_to_ack (rn_pc (ls_runner t)) \<le> 6" by (cases "rn_pc (ls_runner t)") simp_all
  ultimately show "rn_removingAck (ls_runner (loop_run nowMs 6 t))" by (rule loop_acks)
  have "lane_step s t" unfolding t_def by (intro step_api api_removing)
  with inv have "lane_inv t" by (rule lane_step_inv [rotated])
  then show "\<forall>u v. lane_reach t u \<and> rn_removingAck (ls_runner u) \<and> lane_reach u v \<longrightarrow> ls_spawned v = ls_spawned u"
    using acked_reach lane_reach_inv by blast
qed

theorem removal_stops_lane_witness:
  "rn_removingAck (ls_runner (loop_run 5 6 (sample_lane\<lparr>ls_runner := MarkRemoving (ls_runner sample_lane)\<rparr>)))"
proof -
  have "\<not> rn_cancelled (ls_runner sample_lane)"
    by (simp add: sample_lane_def lane_start_def Start_def new_runner_def)
  from removal_stops_lane [OF rtranclp.rtrancl_refl this [unfolded sample_lane_def]]
  show ?thesis by (simp add: sample_lane_def)
qed

text \<open>
  C36: wherever its loop stands, a live, open lane below its limit with a waiting mission starts
  one within eight loop steps when the transactions go through; and a cancelled loop ends
  within six.
\<close>
theorem lane_makes_progress:
  assumes "lane_reach (lane_start lane n d) s"
  shows "(can_start s \<longrightarrow> (\<exists>k \<le> 8. length (ls_spawned (loop_run nowMs k s)) = Suc (length (ls_spawned s)))) \<and>
    (rn_cancelled (ls_runner s) \<longrightarrow> rn_pc (ls_runner (loop_run nowMs 6 s)) = Exited)"
proof (intro conjI impI)
  assume "can_start s"
  with lane_reach_inv [OF assms lane_start_inv]
  show "\<exists>k \<le> 8. length (ls_spawned (loop_run nowMs k s)) = Suc (length (ls_spawned s))" by (rule loop_starts)
next
  assume "rn_cancelled (ls_runner s)"
  moreover have "steps_left (rn_pc (ls_runner s)) \<le> 6" by (cases "rn_pc (ls_runner s)") simp_all
  ultimately show "rn_pc (ls_runner (loop_run nowMs 6 s)) = Exited" by (rule loop_ends)
qed

theorem lane_makes_progress_witness:
  "\<exists>k \<le> 8. length (ls_spawned (loop_run 5 k sample_lane)) = Suc (length (ls_spawned sample_lane))"
  using lane_makes_progress [OF rtranclp.rtrancl_refl, of "''fast''" 2 sample_queue 5] sample_can_start
  by (simp add: sample_lane_def)

section \<open>Applied configuration\<close>

text \<open>
  C37: after a successful apply the live manager has exactly the lanes, limits and pauses of the
  state it stored, and a daemon that restarts in that world and replays the stored state gets
  the same lanes from scratch.
\<close>
theorem apply_survives_restart:
  assumes "Apply E opts wanted mg fs w = (Ret (Inr res, mg', sent), fs', w')" and "state_ok wanted"
  shows "\<exists>s mg''. stored_state (wd_db w') = Some s \<and> lanes_view mg' = config_view s \<and>
    ReplayFromDB \<lparr>mg_runners = [], mg_retired = []\<rparr> [] w' = (Ret (None, mg''), [], w') \<and>
    lanes_view mg'' = lanes_view mg'"
proof -
  obtain cur where ok: "state_ok (desired_state opts cur wanted)"
    and row: "config_row (wd_db w') = Some (applied_row E opts (desired_state opts cur wanted))"
    and view: "lanes_view mg' = config_view (desired_state opts cur wanted)"
    using Apply_persisted [OF assms] by blast
  from row unmarshal_applied_row [OF ok] have "stored_state (wd_db w') = Some (desired_state opts cur wanted)"
    by (simp add: stored_state_def)
  with view ReplayFromDB_view [OF row ok] show ?thesis by auto
qed

theorem apply_survives_restart_witness:
  "\<exists>res mg' w' mg''. Apply sample_env sample_options sample_state no_lanes [] sample_world = (Ret (Inr res, mg', []), [], w') \<and>
     ReplayFromDB \<lparr>mg_runners = [], mg_retired = []\<rparr> [] w' = (Ret (None, mg''), [], w') \<and> lanes_view mg'' = lanes_view mg'"
proof -
  have "stored_state (wd_db sample_world) = Some zero_state"
    by (simp add: stored_state_def sample_world_def sample_db_def empty_db_def)
  from Apply_calm_returns [OF this, of sample_options sample_state sample_env no_lanes] obtain res mg' w' where
    run: "Apply sample_env sample_options sample_state no_lanes [] sample_world = (Ret (Inr res, mg', []), [], w')"
    by (auto simp: ComputeDiff_def zero_state_def sample_options_def)
  from apply_survives_restart [OF run sample_state_ok] run show ?thesis by blast
qed

text \<open>
  A successful apply without forced pruning, whose queries were answered, drops a stored lane
  only if pruning was asked for, the request does not name the lane, and no mission of the lane
  is queued or running.
\<close>
lemma apply_removes_only_idle:
  assumes "Apply E opts wanted mg [] w = (Ret (Inr res, mg', sent), fs', w')" and "state_ok wanted"
    and "\<not> op_ForcePrune opts" and "stored_state (wd_db w) = Some cur"
    and "map_of (as_Lanes cur) n \<noteq> None" and "lanes_view mg' n = None"
  shows "op_Prune opts \<and> map_of (as_Lanes wanted) n = None \<and>
    (\<forall>m \<in> set (missions (wd_db w)). msn_Lane m = n \<longrightarrow> msn_Status m \<notin> {StatusQueued, StatusRunning})"
proof -
  have gone: "map_of (as_Lanes (desired_state opts cur wanted)) n = None"
    using Apply_persisted [OF assms(1,2)] assms(4,6) by (fastforce simp: config_view_def)
  then have "op_Prune opts \<and> map_of (as_Lanes wanted) n = None"
    using assms(5) by (auto simp: desired_state_lanes split: option.splits if_splits)
  moreover have "n \<in> set (df_LanesRemoved (ComputeDiff cur (desired_state opts cur wanted)))"
    using gone assms(5) by (simp add: removed_lanes)
  ultimately show ?thesis using Apply_calm_blocked [OF assms(1,3,4)] by blast
qed

text \<open>
  C38: after a successful pause request for a stored lane, any successful apply that keeps the
  lane leaves it paused by the operator, both in the stored state and in the running manager,
  whatever the request says about the pause.
\<close>
theorem operator_pause_survives:
  assumes "admin_PauseLane n mg0 fs0 w0 = (Ret (None, mg), fs1, w)"
    and "stored_state (wd_db w0) = Some s" and "config_row (wd_db w0) \<noteq> None" and "state_ok s"
    and "map_of (as_Lanes s) n \<noteq> None"
    and "Apply E opts wanted mg fs w = (Ret (Inr res, mg', sent), fs', w')" and "state_ok wanted"
    and "op_Prune opts \<longrightarrow> map_of (as_Lanes wanted) n \<noteq> None"
  shows "\<exists>s' c. stored_state (wd_db w') = Some s' \<and> map_of (as_Lanes s') n = Some c \<and>
    lc_Paused c \<and> lc_PausedBy c = PausedByCtl \<and> lanes_view mg' n = Some (lc_Concurrency c, True)"
proof -
  from assms(5) obtain l where l: "map_of (as_Lanes s) n = Some l" by auto
  from setLanePaused_stored [OF admin_PauseLane_done [OF assms(1)] assms(2,4) l assms(3)]
  obtain cur c where cur: "stored_state (wd_db w) = Some cur" "map_of (as_Lanes cur) n = Some c"
    and ctl: "lc_Paused c" "lc_PausedBy c = PausedByCtl" by blast
  obtain cur' where cur': "stored_state (wd_db w) = Some cur'" and ok: "state_ok (desired_state opts cur' wanted)"
    and row: "config_row (wd_db w') = Some (applied_row E opts (desired_state opts cur' wanted))"
    and view: "lanes_view mg' = config_view (desired_state opts cur' wanted)"
    using Apply_persisted [OF assms(6,7)] by blast
  from cur cur' have [simp]: "cur' = cur" by simp
  obtain d where d: "map_of (as_Lanes (desired_state opts cur wanted)) n = Some (pause_state (Some c) d)"
    using assms(8) cur(2) by (cases "map_of (as_Lanes wanted) n") (auto simp: desired_state_lanes intro: that)
  from row unmarshal_applied_row [OF ok] have "stored_state (wd_db w') = Some (desired_state opts cur wanted)"
    by (simp add: stored_state_def)
  with d view pause_state_ctl [OF ctl, of d] show ?thesis by (auto simp: config_view_def)
qed

theorem operator_pause_survives_witness:
  "\<exists>mg w res mg' w' c.
     admin_PauseLane ''fast'' sample_manager [] (sample_world\<lparr>wd_db := sample_done_db\<rparr>) = (Ret (None, mg), [], w) \<and>
     Apply sample_env (sample_options\<lparr>op_Prune := False\<rparr>) sample_state mg [] w = (Ret (Inr res, mg', []), [], w') \<and>
     lanes_view mg' ''fast'' = Some (c, True)"
proof -
  let ?w0 = "sample_world\<lparr>wd_db := sample_done_db\<rparr>"
  have st: "stored_state (wd_db ?w0) = Some sample_state" "config_row (wd_db ?w0) \<noteq> None"
    by (simp_all add: stored_state_def sample_done_db_def unmarshal_applied_row sample_state_ok)
  have lane: "map_of (as_Lanes sample_state) ''fast'' \<noteq> None" by (simp add: sample_state_def)
  obtain mg w where pause: "admin_PauseLane ''fast'' sample_manager [] ?w0 = (Ret (None, mg), [], w)"
    using sample_pause_returns by blast
  obtain l where l: "map_of (as_Lanes sample_state) ''fast'' = Some l" using lane by auto
  from setLanePaused_stored [OF admin_PauseLane_done [OF pause] st(1) sample_state_ok l st(2)]
  obtain cur where cur: "stored_state (wd_db w) = Some cur" "map_of (as_Lanes cur) ''fast'' \<noteq> None" by auto
  let ?opts = "sample_options\<lparr>op_Prune := False\<rparr>"
  have "n \<notin> set (df_LanesRemoved (ComputeDiff cur (desired_state ?opts cur sample_state)))" for n
    by (auto simp: removed_lanes desired_state_lanes split: option.splits)
  with Apply_calm_returns [OF cur(1), of ?opts sample_state sample_env mg] obtain res mg' w' where
    run: "Apply sample_env ?opts sample_state mg [] w = (Ret (Inr res, mg', []), [], w')"
    by (auto simp: sample_options_def)
  from operator_pause_survives [OF pause st sample_state_ok lane run sample_state_ok]
  obtain c where "lanes_view mg' ''fast'' = Some (c, True)" by auto
  with pause run show ?thesis by blast
qed

text \<open>
  An apply that returns, with success or any error at any point and with or without forced
  pruning, leaves no managed lane in the removing state, in which dispatch would refuse the lane
  until a restart.
\<close>
lemma apply_leaves_no_lane_removing:
  assumes "Apply E opts wanted mg fs w = (Ret (r, mg', sent), fs', w')" and "state_ok wanted"
    and "\<forall>n. \<not> IsLaneRemoving n mg"
  shows "\<forall>n. \<not> IsLaneRemoving n mg'"
  using Apply_no_zombies [OF assms(1,2)] assms(3) by blast

section \<open>Retention\<close>



text \<open>
  C40: whatever fails during a collection cycle, a staging row held by a finalize, an upload row
  whose lock is taken, and a row that is not due keep their state and path, where the due time of a
  row with a zeroed expiry is the one recomputed from its references.
\<close>
theorem gc_spares_live_rows:
  assumes "fin_inv w" and "StagingGC_RunOnce g nowMs locked fs w = (r, fs', w')"
    and "s \<in> set (staging_files (wd_db w))" and "spared (cleanup_ttl (gc_cleanup g)) nowMs locked (wd_db w) s"
  shows "\<exists>s' \<in> set (staging_files (wd_db w')). stg_StagingID s' = stg_StagingID s \<and> stg_State s' = stg_State s \<and>
    stg_Path s' = stg_Path s \<and> stg_Sha256 s' = stg_Sha256 s"
proof -
  have "list_all any fs" by (simp add: list_all_iff)
  moreover have "gc_inv (cleanup_ttl (gc_cleanup g)) nowMs locked (wd_db w) w"
    using assms(1) by (simp add: gc_inv_def spares_refl)
  ultimately have "gc_inv (cleanup_ttl (gc_cleanup g)) nowMs locked (wd_db w) w'"
    using tripleD [OF StagingGC_inv _ _ assms(2)] by (cases r) simp_all
  with assms(3,4) obtain s' where "s' \<in> set (staging_files (wd_db w'))"
    and "same_staging (cleanup_ttl (gc_cleanup g)) (wd_db w) s s'"
    by (auto simp: gc_inv_def spares_def)
  moreover from this(2) have "stg_StagingID s' = stg_StagingID s \<and> stg_State s' = stg_State s \<and>
      stg_Path s' = stg_Path s \<and> stg_Sha256 s' = stg_Sha256 s"
    by (auto simp: same_staging_def)
  ultimately show ?thesis by blast
qed

theorem gc_spares_live_rows_witness:
  "\<exists>s' \<in> set (staging_files (wd_db (snd (snd (StagingGC_RunOnce sample_gc 1700000000000 (\<lambda>_. False) [FOk, FErr 1]
      (sample_world\<lparr>wd_db := sample_staged\<lparr>staging_files := [sample_file\<lparr>stg_State := StagingCommitting\<rparr>]\<rparr>\<rparr>)))))).
     stg_StagingID s' = sample_sid"
proof -
  let ?s = "sample_file\<lparr>stg_State := StagingCommitting\<rparr>"
  let ?w = "sample_world\<lparr>wd_db := sample_staged\<lparr>staging_files := [?s]\<rparr>\<rparr>"
  have inv: "fin_inv ?w"
    by (simp add: fin_inv_def published_def sample_staged_def db_ok_def sample_db_def empty_db_def sample_mission_def sample_file_def)
  have sp: "spared (cleanup_ttl (gc_cleanup sample_gc)) 1700000000000 (\<lambda>_. False) (wd_db ?w) ?s"
    by (simp add: spared_def)
  obtain r fs' w' where run: "StagingGC_RunOnce sample_gc 1700000000000 (\<lambda>_. False) [FOk, FErr 1] ?w = (r, fs', w')"
    by (cases "StagingGC_RunOnce sample_gc 1700000000000 (\<lambda>_. False) [FOk, FErr 1] ?w")
  from gc_spares_live_rows [OF inv run _ sp] run show ?thesis by (auto simp: sample_file_def)
qed

end
